(* ===== verification/Prelude.thy ===== *)
theory Prelude
  imports Main "HOL-Library.Word" "HOL-Library.AList"
begin

text \<open>
  Shared vocabulary of the development: byte buffers (\<open>Uint8Array\<close>), bounded reads and writes
  at an offset (\<open>DataView\<close>, \<open>TypedArray.set\<close>), little-endian unsigned integers, error results,
  and the insertion-ordered JavaScript \<open>Map\<close>.  The lemmas collected under \<open>buf\<close> carry the
  wire-format proofs: they reduce a write or a read at the end of an already known prefix to an
  append or to the next field.
\<close>

named_theorems buf \<open>sequential reads and writes over a byte buffer\<close>

type_synonym byte = "8 word"
type_synonym bytes = "byte list"
type_synonym code_unit = "16 word"
type_synonym jsstring = "code_unit list"

text \<open>A JavaScript string literal of ASCII characters, as UTF-16 code units.\<close>

definition js :: "string \<Rightarrow> jsstring" where
  "js s = map (\<lambda>c. of_nat (of_char c)) s"

lemma js_inject: "js a = js b \<longleftrightarrow> a = b"
proof
  assume "js a = js b"
  moreover have "inj (\<lambda>c. of_nat (of_char c) :: code_unit)"
  proof (rule injI)
    fix c d :: char
    assume "(of_nat (of_char c) :: code_unit) = of_nat (of_char d)"
    then have "unat (of_nat (of_char c) :: code_unit) = unat (of_nat (of_char d) :: code_unit)" by simp
    moreover have "of_char c < (256::nat)" "of_char d < (256::nat)" by (simp_all add: nat_of_char_less_256)
    ultimately have "(of_char c :: nat) = of_char d" by (simp add: unat_of_nat)
    then show "c = d" by (simp only: of_char_eq_iff)
  qed
  ultimately show "a = b" by (simp add: js_def inj_map_eq_map)
qed simp

section \<open>Errors as values\<close>

datatype js_error = RangeError string | TypeError string | JsError string

type_synonym 'a result = "js_error + 'a"

definition rbind :: "('e + 'a) \<Rightarrow> ('a \<Rightarrow> 'e + 'b) \<Rightarrow> 'e + 'b" where
  "rbind m f = (case m of Inl e \<Rightarrow> Inl e | Inr x \<Rightarrow> f x)"

lemma rbind_simps [simp]: "rbind (Inl e) f = Inl e" "rbind (Inr x) f = f x"
  by (simp_all add: rbind_def)

lemma rbind_Inr_conv: "rbind m f = Inr y \<longleftrightarrow> (\<exists>x. m = Inr x \<and> f x = Inr y)"
  by (cases m) auto

lemma rbind_cong [fundef_cong]:
  "m = m' \<Longrightarrow> (\<And>x. m' = Inr x \<Longrightarrow> f x = g x) \<Longrightarrow> rbind m f = rbind m' g"
  by (cases m') auto

section \<open>Little-endian integers\<close>

fun le_bytes :: "nat \<Rightarrow> nat \<Rightarrow> bytes" where
  "le_bytes 0 n = []"
| "le_bytes (Suc k) n = of_nat n # le_bytes k (n div 256)"

fun le_nat :: "bytes \<Rightarrow> nat" where
  "le_nat [] = 0"
| "le_nat (b # bs) = unat b + 256 * le_nat bs"

abbreviation u16_le :: "nat \<Rightarrow> bytes" where "u16_le \<equiv> le_bytes 2"
abbreviation u32_le :: "nat \<Rightarrow> bytes" where "u32_le \<equiv> le_bytes 4"
abbreviation u64_le :: "nat \<Rightarrow> bytes" where "u64_le \<equiv> le_bytes 8"

lemma length_le_bytes [simp]: "length (le_bytes k n) = k"
  by (induction k n rule: le_bytes.induct) simp_all

lemma unat_byte_lt [simp]: "unat (b :: byte) < 256"
  using unsigned_less [of b] by simp

lemma unat_of_nat_byte: "unat (of_nat n :: byte) = n mod 256"
  by (simp add: unat_of_nat)

lemma le_nat_le_bytes: "le_nat (le_bytes k n) = n mod 256 ^ k"
proof (induction k n rule: le_bytes.induct)
  case (2 k n)
  have "n mod 256 ^ Suc k = 256 * (n div 256 mod 256 ^ k) + n mod 256"
    by (simp add: mod_mult2_eq)
  with 2 show ?case by (simp add: unat_of_nat_byte)
qed simp

lemma le_nat_le_bytes_id [buf]: "n < 256 ^ k \<Longrightarrow> le_nat (le_bytes k n) = n"
  by (simp add: le_nat_le_bytes)

lemma le_nat_bound: "le_nat bs < 256 ^ length bs"
proof (induction bs)
  case (Cons b bs)
  have "unat b + 256 * le_nat bs < 256 * Suc (le_nat bs)"
    using unat_byte_lt [of b] by simp
  also have "\<dots> \<le> 256 * 256 ^ length bs"
    using Cons.IH by (intro mult_le_mono2) simp
  finally show ?case by simp
qed simp

lemma le_nat_append: "le_nat (xs @ ys) = le_nat xs + 256 ^ length xs * le_nat ys"
  by (induction xs) (simp_all add: algebra_simps)

lemma le_bytes_le_nat: "length bs = k \<Longrightarrow> le_bytes k (le_nat bs) = bs"
proof (induction bs arbitrary: k)
  case (Cons b bs)
  have w: "of_nat (unat b + 256 * n) = b" for n
  proof (rule word_unat_eq_iff [THEN iffD2])
    show "unat (of_nat (unat b + 256 * n) :: byte) = unat b"
      by (simp only: unat_of_nat_byte) simp
  qed
  have d: "(unat b + 256 * le_nat bs) div 256 = le_nat bs"
    using unat_byte_lt [of b] by simp
  from Cons show ?case by (auto simp del: of_nat_add of_nat_mult simp add: w d)
qed simp

lemma le_bytes_inj: "m < 256 ^ k \<Longrightarrow> n < 256 ^ k \<Longrightarrow> le_bytes k m = le_bytes k n \<Longrightarrow> m = n"
  by (metis le_nat_le_bytes_id)

section \<open>Buffers: bounded reads and writes\<close>

text \<open>\<open>new Uint8Array(n)\<close>: a zero-filled buffer.\<close>

definition new_buf :: "nat \<Rightarrow> bytes" where
  "new_buf n = replicate n 0"

lemma length_new_buf [simp]: "length (new_buf n) = n"
  by (simp add: new_buf_def)

text \<open>
  \<open>DataView.getUintN(off, true)\<close> and \<open>DataView.setUintN\<close> / \<open>TypedArray.set(src, off)\<close>:
  out-of-range accesses raise a \<open>RangeError\<close>.
\<close>

definition get_uint :: "nat \<Rightarrow> bytes \<Rightarrow> nat \<Rightarrow> nat result" where
  "get_uint k bs off =
     (if off + k \<le> length bs then Inr (le_nat (take k (drop off bs)))
      else Inl (RangeError ''DataView: offset is outside the bounds''))"

definition put :: "bytes \<Rightarrow> nat \<Rightarrow> bytes \<Rightarrow> bytes result" where
  "put bs off src =
     (if off + length src \<le> length bs
      then Inr (take off bs @ src @ drop (off + length src) bs)
      else Inl (RangeError ''offset is out of bounds''))"

text \<open>\<open>subarray(from, to)\<close> with both ends clamped to the view.\<close>

definition subarray :: "bytes \<Rightarrow> nat \<Rightarrow> nat \<Rightarrow> bytes" where
  "subarray bs a b = take (b - a) (drop a bs)"

lemma put_Inr_length: "put bs off src = Inr bs' \<Longrightarrow> length bs' = length bs"
  by (auto simp: put_def split: if_splits)

lemma put_outside:
  "put bs off src = Inr bs' \<Longrightarrow> i < off \<or> off + length src \<le> i \<Longrightarrow> i < length bs \<Longrightarrow> bs' ! i = bs ! i"
  by (auto simp: put_def nth_append split: if_splits)

lemma put_append [buf]:
  "off = length p \<Longrightarrow> length src \<le> length q \<Longrightarrow> put (p @ q) off src = Inr (p @ src @ drop (length src) q)"
  by (simp add: put_def)

lemma get_uint_append [buf]:
  "off = length p \<Longrightarrow> length f = k \<Longrightarrow> get_uint k (p @ f @ q) off = Inr (le_nat f)"
  by (simp add: get_uint_def)

lemma get_uint_le [buf]:
  "off = length p \<Longrightarrow> n < 256 ^ k \<Longrightarrow> get_uint k (p @ le_bytes k n @ q) off = Inr n"
  by (simp add: get_uint_append le_nat_le_bytes)

lemma get_uint_bound: "get_uint k bs off = Inr n \<Longrightarrow> n < 256 ^ k"
  using le_nat_bound [of "take k (drop off bs)"] by (auto simp: get_uint_def split: if_splits)

lemma subarray_append [buf]:
  "a = length p \<Longrightarrow> b = a + length f \<Longrightarrow> subarray (p @ f @ q) a b = f"
  by (simp add: subarray_def)

lemma length_subarray [simp]: "length (subarray bs a b) = min (b - a) (length bs - a)"
  by (simp add: subarray_def)

lemma subarray_prefix: "subarray (p @ q) 0 (length p) = p"
  by (simp add: subarray_def)

section \<open>The JavaScript \<open>Map\<close>: an insertion-ordered association list\<close>

text \<open>
  \<open>map.set\<close> overwrites a present key in place and appends an absent one, which is
  \<open>AList.update\<close>; \<open>map.delete\<close> is \<open>AList.delete\<close>, \<open>map.get\<close> is \<open>map_of\<close>, \<open>map.keys()\<close>
  iterates in insertion order.
\<close>

type_synonym ('k, 'v) jsmap = "('k \<times> 'v) list"

abbreviation jsmap_keys :: "('k, 'v) jsmap \<Rightarrow> 'k list" where
  "jsmap_keys m \<equiv> map fst m"

definition jsmap_ok :: "('k, 'v) jsmap \<Rightarrow> bool" where
  "jsmap_ok m \<longleftrightarrow> distinct (map fst m)"

lemma jsmap_ok_Nil [simp]: "jsmap_ok []"
  by (simp add: jsmap_ok_def)

lemma jsmap_ok_update [simp]: "jsmap_ok m \<Longrightarrow> jsmap_ok (AList.update k v m)"
  by (simp add: jsmap_ok_def distinct_update)

lemma jsmap_ok_delete [simp]: "jsmap_ok m \<Longrightarrow> jsmap_ok (AList.delete k m)"
  by (simp add: jsmap_ok_def distinct_delete)

lemma jsmap_ok_tl [simp]: "jsmap_ok m \<Longrightarrow> jsmap_ok (tl m)"
  by (cases m) (simp_all add: jsmap_ok_def)

lemma update_absent: "k \<notin> set (map fst m) \<Longrightarrow> AList.update k v m = m @ [(k, v)]"
  by (induction m) auto

lemma delete_absent: "k \<notin> set (map fst m) \<Longrightarrow> AList.delete k m = m"
  by (rule delete_id) simp

lemma map_of_None_keys: "map_of m k = None \<longleftrightarrow> k \<notin> set (map fst m)"
  by (simp add: map_of_eq_None_iff)

lemma delete_first_key: "jsmap_ok ((k, v) # m) \<Longrightarrow> AList.delete k ((k, v) # m) = m"
  by (auto simp: jsmap_ok_def intro!: delete_absent)

text \<open>Deleting the first keys of an insertion-ordered map drops its oldest entries.\<close>

lemma delete_prefix:
  "jsmap_ok m \<Longrightarrow> fold AList.delete (take n (map fst m)) m = drop n m"
proof (induction n arbitrary: m)
  case (Suc n)
  show ?case
  proof (cases m)
    case (Cons e es)
    obtain k v where e: "e = (k, v)" by force
    have d: "AList.delete k ((k, v) # es) = es" using Suc.prems by (intro delete_first_key) (simp add: Cons e)
    have "jsmap_ok es" using Suc.prems by (simp add: Cons jsmap_ok_def)
    from Suc.IH [OF this] d show ?thesis by (simp add: Cons e)
  qed simp
qed simp

lemma length_update_present:
  "map_of m k = Some u \<Longrightarrow> length (AList.update k v m) = length m"
  by (induction m) (auto split: if_splits)

lemma length_update_absent:
  "map_of m k = None \<Longrightarrow> length (AList.update k v m) = Suc (length m)"
  by (simp add: update_absent map_of_None_keys)

lemma length_delete_present:
  "jsmap_ok m \<Longrightarrow> map_of m k \<noteq> None \<Longrightarrow> Suc (length (AList.delete k m)) = length m"
proof (induction m)
  case (Cons p m)
  obtain a b where p: "p = (a, b)" by (cases p)
  show ?case
  proof (cases "a = k")
    case True
    with Cons.prems(1) p show ?thesis by (simp add: jsmap_ok_def delete_absent)
  next
    case False
    with Cons p show ?thesis by (simp add: jsmap_ok_def)
  qed
qed simp

lemmas map_of_alist_update [simp] = update_conv'
lemmas map_of_alist_delete [simp] = delete_conv'

section \<open>Lists\<close>

text \<open>Swap-with-last removal: \<open>const last = xs.pop(); if (i < xs.length) xs[i] = last\<close>.\<close>

definition swap_remove :: "'a list \<Rightarrow> nat \<Rightarrow> 'a list" where
  "swap_remove xs i =
     (let l = last xs; ys = butlast xs in if i < length ys then ys[i := l] else ys)"

end
