(* ===== verification/Codec.thy ===== *)
theory Codec
  imports Prelude
begin

text \<open>
  The runtime text codec (\<open>src/src/runtime/codec.ts\<close>, \<open>src/src/shared/codec.ts\<close>,
  \<open>src/src/shared/bytes.ts\<close>).  Strings are lists of UTF-16 code units.  The platform
  encoder and decoder (\<open>TextEncoder\<close>, \<open>TextDecoder\<close>, \<open>Buffer.toString\<close>) are modelled by
  the UTF-8 rules of the Encoding standard: unpaired surrogates encode as U+FFFD, an ill-formed
  sequence decodes to one U+FFFD per maximal subpart, \<open>TextDecoder\<close> drops a leading byte order
  mark and \<open>Buffer.toString\<close> keeps it.

  The interface \<open>text_codec\<close> is what the wire formats rely on; it is interpreted on the Node
  codec at the end.
\<close>

section \<open>UTF-8\<close>

definition is_high :: "code_unit \<Rightarrow> bool" where
  "is_high c \<longleftrightarrow> 0xD800 \<le> unat c \<and> unat c < 0xDC00"

definition is_low :: "code_unit \<Rightarrow> bool" where
  "is_low c \<longleftrightarrow> 0xDC00 \<le> unat c \<and> unat c < 0xE000"

definition pair_scalar :: "code_unit \<Rightarrow> code_unit \<Rightarrow> nat" where
  "pair_scalar h l = 0x10000 + (unat h - 0xD800) * 1024 + (unat l - 0xDC00)"

definition unit_scalar :: "code_unit \<Rightarrow> nat" where
  "unit_scalar c = (if is_high c \<or> is_low c then 0xFFFD else unat c)"

definition enc_scalar :: "nat \<Rightarrow> bytes" where
  "enc_scalar n =
     (if n < 0x80 then [of_nat n]
      else if n < 0x800 then [of_nat (0xC0 + n div 64), of_nat (0x80 + n mod 64)]
      else if n < 0x10000 then
        [of_nat (0xE0 + n div 4096), of_nat (0x80 + n div 64 mod 64), of_nat (0x80 + n mod 64)]
      else
        [of_nat (0xF0 + n div 262144), of_nat (0x80 + n div 4096 mod 64),
         of_nat (0x80 + n div 64 mod 64), of_nat (0x80 + n mod 64)])"

text \<open>The scalar values of a string, unpaired surrogates replaced.\<close>

fun scalars :: "jsstring \<Rightarrow> nat list" where
  "scalars [] = []"
| "scalars [c] = [unit_scalar c]"
| "scalars (c # d # s) =
     (if is_high c \<and> is_low d then pair_scalar c d # scalars s
      else unit_scalar c # scalars (d # s))"

definition utf8_encode :: "jsstring \<Rightarrow> bytes" where
  "utf8_encode s = concat (map enc_scalar (scalars s))"

definition scalar_units :: "nat \<Rightarrow> jsstring" where
  "scalar_units n =
     (if n < 0x10000 then [of_nat n]
      else [of_nat (0xD800 + (n - 0x10000) div 1024), of_nat (0xDC00 + (n - 0x10000) mod 1024)])"

definition cont :: "byte \<Rightarrow> bool" where
  "cont b \<longleftrightarrow> 0x80 \<le> unat b \<and> unat b < 0xC0"

text \<open>The admissible second byte after a three- or four-byte lead.\<close>

definition second_ok :: "byte \<Rightarrow> byte \<Rightarrow> bool" where
  "second_ok b c \<longleftrightarrow> cont c \<and>
     (unat b = 0xE0 \<longrightarrow> 0xA0 \<le> unat c) \<and> (unat b = 0xED \<longrightarrow> unat c < 0xA0) \<and>
     (unat b = 0xF0 \<longrightarrow> 0x90 \<le> unat c) \<and> (unat b = 0xF4 \<longrightarrow> unat c < 0x90)"

definition utf8_next :: "byte \<Rightarrow> bytes \<Rightarrow> nat \<times> bytes" where
  "utf8_next b bs =
     (if unat b < 0x80 then (unat b, bs)
      else if 0xC2 \<le> unat b \<and> unat b < 0xE0 then
        (case bs of [] \<Rightarrow> (0xFFFD, [])
         | c # cs \<Rightarrow> if cont c then ((unat b - 0xC0) * 64 + (unat c - 0x80), cs) else (0xFFFD, bs))
      else if 0xE0 \<le> unat b \<and> unat b < 0xF0 then
        (case bs of [] \<Rightarrow> (0xFFFD, [])
         | c # cs \<Rightarrow> if \<not> second_ok b c then (0xFFFD, bs) else
            (case cs of [] \<Rightarrow> (0xFFFD, [])
             | d # ds \<Rightarrow> if cont d
                 then ((unat b - 0xE0) * 4096 + (unat c - 0x80) * 64 + (unat d - 0x80), ds)
                 else (0xFFFD, cs)))
      else if 0xF0 \<le> unat b \<and> unat b < 0xF5 then
        (case bs of [] \<Rightarrow> (0xFFFD, [])
         | c # cs \<Rightarrow> if \<not> second_ok b c then (0xFFFD, bs) else
            (case cs of [] \<Rightarrow> (0xFFFD, [])
             | d # ds \<Rightarrow> if \<not> cont d then (0xFFFD, cs) else
                (case ds of [] \<Rightarrow> (0xFFFD, [])
                 | e # es \<Rightarrow> if cont e
                     then ((unat b - 0xF0) * 262144 + (unat c - 0x80) * 4096
                           + (unat d - 0x80) * 64 + (unat e - 0x80), es)
                     else (0xFFFD, ds))))
      else (0xFFFD, bs))"

lemma utf8_next_length: "utf8_next b bs = (n, r) \<Longrightarrow> length r \<le> length bs"
  by (auto simp: utf8_next_def split: if_splits list.splits)

function utf8_decode :: "bytes \<Rightarrow> jsstring" where
  "utf8_decode [] = []"
| "utf8_decode (b # bs) = scalar_units (fst (utf8_next b bs)) @ utf8_decode (snd (utf8_next b bs))"
  by pat_completeness auto
termination
proof (relation "measure length")
  fix b :: byte and bs :: bytes
  show "(snd (utf8_next b bs), b # bs) \<in> measure length"
    using utf8_next_length [of b bs "fst (utf8_next b bs)" "snd (utf8_next b bs)"] by simp
qed simp

text \<open>A string without unpaired surrogates.\<close>

fun well_formed :: "jsstring \<Rightarrow> bool" where
  "well_formed [] = True"
| "well_formed [c] = (\<not> is_high c \<and> \<not> is_low c)"
| "well_formed (c # d # s) =
     (if is_high c \<and> is_low d then well_formed s
      else \<not> is_high c \<and> \<not> is_low c \<and> well_formed (d # s))"

definition is_scalar :: "nat \<Rightarrow> bool" where
  "is_scalar n \<longleftrightarrow> n < 0x110000 \<and> \<not> (0xD800 \<le> n \<and> n < 0xE000)"

lemma unat_unit_lt: "unat (c :: code_unit) < 65536"
  using unsigned_less [of c] by simp

lemma unat_of_nat_unit: "unat (of_nat n :: code_unit) = n mod 65536"
  by (simp add: unat_of_nat)

lemma pair_scalar_range:
  "is_high h \<Longrightarrow> is_low l \<Longrightarrow> 0x10000 \<le> pair_scalar h l \<and> pair_scalar h l < 0x110000"
  by (auto simp: pair_scalar_def is_high_def is_low_def)

lemma pair_scalar_is_scalar: "is_high h \<Longrightarrow> is_low l \<Longrightarrow> is_scalar (pair_scalar h l)"
  using pair_scalar_range [of h l] by (simp add: is_scalar_def)

lemma unit_scalar_is_scalar: "is_scalar (unit_scalar c)"
  using unat_unit_lt [of c] by (auto simp: unit_scalar_def is_scalar_def is_high_def is_low_def)

lemma scalars_are_scalars: "n \<in> set (scalars s) \<Longrightarrow> is_scalar n"
  by (induction s rule: scalars.induct)
    (auto simp: unit_scalar_is_scalar pair_scalar_is_scalar split: if_splits)

lemma unit_scalar_id: "\<not> is_high c \<Longrightarrow> \<not> is_low c \<Longrightarrow> scalar_units (unit_scalar c) = [c]"
  using unat_unit_lt [of c] by (simp add: unit_scalar_def scalar_units_def)

lemma pair_scalar_units:
  assumes "is_high h" and "is_low l"
  shows "scalar_units (pair_scalar h l) = [h, l]"
proof -
  let ?n = "pair_scalar h l - 0x10000"
  have n: "?n = (unat h - 0xD800) * 1024 + (unat l - 0xDC00)"
    by (simp add: pair_scalar_def)
  have l: "unat l - 0xDC00 < 1024"
    using assms by (auto simp: is_low_def)
  have "0xD800 + ?n div 1024 = unat h"
    using l assms(1) unfolding n by (simp add: is_high_def)
  moreover have "?n mod 1024 = unat l - 0xDC00"
    using l unfolding n by (metis mod_less mod_mult_self3)
  then have "0xDC00 + ?n mod 1024 = unat l"
    using assms(2) by (simp add: is_low_def)
  ultimately show ?thesis
    using pair_scalar_range [OF assms] by (simp add: scalar_units_def del: of_nat_add)
qed

lemma scalars_units: "well_formed s \<Longrightarrow> concat (map scalar_units (scalars s)) = s"
  by (induction s rule: scalars.induct)
    (auto simp: unit_scalar_id pair_scalar_units split: if_splits)

lemma radix64:
  fixes n :: nat
  shows "n div 4096 * 4096 + n div 64 mod 64 * 64 + n mod 64 = n"
    and "n div 262144 * 262144 + n div 4096 mod 64 * 4096 + n div 64 mod 64 * 64 + n mod 64 = n"
    and "n mod 64 < 64 \<and> n div 64 mod 64 < 64"
    and "n div 4096 mod 64 < 64"
proof -
  have q: "n div 64 div 64 = n div 4096" and q': "n div 4096 div 64 = n div 262144"
    by (simp_all add: div_mult2_eq [symmetric])
  have a: "n div 64 * 64 + n mod 64 = n" by simp
  have b: "n div 4096 * 64 + n div 64 mod 64 = n div 64"
    using div_mult_mod_eq [of "n div 64" 64] by (simp add: q)
  have c: "n div 262144 * 64 + n div 4096 mod 64 = n div 4096"
    using div_mult_mod_eq [of "n div 4096" 64] by (simp add: q')
  show "n div 4096 * 4096 + n div 64 mod 64 * 64 + n mod 64 = n"
    using a b by linarith
  show "n div 262144 * 262144 + n div 4096 mod 64 * 4096 + n div 64 mod 64 * 64 + n mod 64 = n"
    using a b c by linarith
qed simp_all

lemma utf8_next_enc_scalar:
  assumes "is_scalar n"
  obtains b bs where "enc_scalar n = b # bs" and "\<And>r. utf8_next b (bs @ r) = (n, r)"
proof -
  have lt: "n < 0x110000" and ns: "\<not> (0xD800 \<le> n \<and> n < 0xE000)"
    using assms by (auto simp: is_scalar_def)
  consider (one) "n < 0x80" | (two) "0x80 \<le> n" "n < 0x800" | (three) "0x800 \<le> n" "n < 0x10000"
    | (four) "0x10000 \<le> n" by linarith
  then show ?thesis
  proof cases
    case one
    then show ?thesis
      by (intro that) (auto simp: enc_scalar_def utf8_next_def unat_of_nat_byte)
  next
    case two
    have m: "(0xC0 + n div 64) mod 256 = 0xC0 + n div 64" "(0x80 + n mod 64) mod 256 = 0x80 + n mod 64"
      using two by simp_all
    show ?thesis
      using two
      by (intro that [of "of_nat (0xC0 + n div 64)" "[of_nat (0x80 + n mod 64)]"])
        (auto simp: enc_scalar_def utf8_next_def cont_def unat_of_nat_byte m simp del: of_nat_add)
  next
    case three
    let ?b = "0xE0 + n div 4096" and ?c = "0x80 + n div 64 mod 64" and ?d = "0x80 + n mod 64"
    have m: "?b mod 256 = ?b" "?c mod 256 = ?c" "?d mod 256 = ?d"
      using three by simp_all
    note v = radix64 [of n]
    have s: "?b = 0xE0 \<longrightarrow> 0xA0 \<le> ?c" "?b = 0xED \<longrightarrow> ?c < 0xA0" "?b < 0xF0"
      using three ns v(1) v(3) by auto
    have nx: "utf8_next (of_nat ?b) ([of_nat ?c, of_nat ?d] @ r) = (n, r)" for r
      using s v(1) by (simp add: utf8_next_def second_ok_def cont_def unat_of_nat_byte m
          del: of_nat_add)
    show ?thesis
      using three by (intro that [OF _ nx]) (simp add: enc_scalar_def del: of_nat_add)
  next
    case four
    let ?b = "0xF0 + n div 262144" and ?c = "0x80 + n div 4096 mod 64"
    let ?d = "0x80 + n div 64 mod 64" and ?e = "0x80 + n mod 64"
    have m: "?b mod 256 = ?b" "?c mod 256 = ?c" "?d mod 256 = ?d" "?e mod 256 = ?e"
      using four lt by simp_all
    note v = radix64 [of n]
    have s: "?b = 0xF0 \<longrightarrow> 0x90 \<le> ?c" "?b = 0xF4 \<longrightarrow> ?c < 0x90" "?b < 0xF5"
      using four lt v(2) v(3) v(4) by auto
    have nx: "utf8_next (of_nat ?b) ([of_nat ?c, of_nat ?d, of_nat ?e] @ r) = (n, r)" for r
      using s v(2) by (simp add: utf8_next_def second_ok_def cont_def unat_of_nat_byte m
          del: of_nat_add)
    show ?thesis
      using four by (intro that [OF _ nx]) (simp add: enc_scalar_def del: of_nat_add)
  qed
qed

lemma utf8_decode_enc_scalar:
  assumes "is_scalar n"
  shows "utf8_decode (enc_scalar n @ r) = scalar_units n @ utf8_decode r"
proof -
  obtain b bs where e: "enc_scalar n = b # bs" and nx: "\<And>r. utf8_next b (bs @ r) = (n, r)"
    using utf8_next_enc_scalar [OF assms] by blast
  then show ?thesis by simp
qed

lemma utf8_decode_scalars:
  "(\<And>n. n \<in> set ns \<Longrightarrow> is_scalar n) \<Longrightarrow>
     utf8_decode (concat (map enc_scalar ns)) = concat (map scalar_units ns)"
  by (induction ns) (simp_all add: utf8_decode_enc_scalar)

lemma utf8_decode_encode: "well_formed s \<Longrightarrow> utf8_decode (utf8_encode s) = s"
  by (simp add: utf8_encode_def utf8_decode_scalars scalars_are_scalars scalars_units)

subsection \<open>Size bounds of an encoding\<close>

lemma length_enc_unit: "length (enc_scalar (unit_scalar c)) \<le> 3"
  using unat_unit_lt [of c] by (auto simp: enc_scalar_def unit_scalar_def)

lemma length_enc_pair: "is_high c \<Longrightarrow> is_low d \<Longrightarrow> length (enc_scalar (pair_scalar c d)) = 4"
  using pair_scalar_range [of c d] by (simp add: enc_scalar_def)

lemma utf8_encode_Nil [simp]: "utf8_encode [] = []"
  by (simp add: utf8_encode_def)

lemma utf8_encode_length_le: "length (utf8_encode s) \<le> 3 * length s"
proof (induction s rule: scalars.induct)
  case (3 c d s)
  then show ?case
    using length_enc_unit [of c] length_enc_pair [of c d]
    by (auto simp: utf8_encode_def split: if_splits)
qed (simp_all add: utf8_encode_def length_enc_unit)

text \<open>Header values are byte strings: every code unit is below 256 and takes at most two bytes.\<close>

definition latin1 :: "jsstring \<Rightarrow> bool" where
  "latin1 s \<longleftrightarrow> (\<forall>c \<in> set s. unat c < 256)"

lemma latin1_scalars: "latin1 s \<Longrightarrow> scalars s = map unat s"
  by (induction s rule: scalars.induct) (auto simp: latin1_def is_high_def is_low_def unit_scalar_def)

lemma utf8_encode_latin1_length:
  assumes "latin1 s"
  shows "length (utf8_encode s) \<le> 2 * length s"
proof -
  have "\<forall>n \<in> set ns. n < 256 \<Longrightarrow> length (concat (map enc_scalar ns)) \<le> 2 * length ns" for ns
    by (induction ns) (auto simp: enc_scalar_def)
  from this [of "map unat s"] assms show ?thesis
    by (simp add: utf8_encode_def latin1_scalars) (simp add: latin1_def)
qed

definition ascii :: "jsstring \<Rightarrow> bool" where
  "ascii s \<longleftrightarrow> (\<forall>c \<in> set s. unat c < 128)"

lemma utf8_encode_ascii:
  assumes "ascii s"
  shows "utf8_encode s = map (\<lambda>c. of_nat (unat c)) s"
proof -
  have "concat (map enc_scalar (map unat s)) = map (\<lambda>c. of_nat (unat c)) s"
    using assms by (induction s) (auto simp: ascii_def enc_scalar_def)
  moreover have "latin1 s" using assms by (auto simp: ascii_def latin1_def)
  ultimately show ?thesis by (simp add: utf8_encode_def latin1_scalars)
qed

section \<open>The codec operations\<close>

text \<open>\<open>TextDecoder\<close> (not \<open>ignoreBOM\<close>) drops one leading byte order mark.\<close>

definition strip_bom :: "bytes \<Rightarrow> bytes" where
  "strip_bom bs = (if take 3 bs = [0xEF, 0xBB, 0xBF] then drop 3 bs else bs)"

definition node_encodeUtf8 :: "jsstring \<Rightarrow> bytes" where
  "node_encodeUtf8 s = utf8_encode s"

definition node_decodeUtf8 :: "bytes \<Rightarrow> jsstring" where
  "node_decodeUtf8 bs = utf8_decode (strip_bom bs)"

text \<open>
  \<open>TextEncoder.encodeInto\<close>: whole scalar values are written as long as they fit, then it stops.
\<close>

fun fit_scalars :: "nat \<Rightarrow> nat list \<Rightarrow> bytes" where
  "fit_scalars cap [] = []"
| "fit_scalars cap (n # ns) =
     (if length (enc_scalar n) \<le> cap
      then enc_scalar n @ fit_scalars (cap - length (enc_scalar n)) ns else [])"

definition node_encodeUtf8Into :: "jsstring \<Rightarrow> bytes \<Rightarrow> nat \<Rightarrow> bytes \<times> nat" where
  "node_encodeUtf8Into s dest off =
     (let out = fit_scalars (length dest - off) (scalars s)
      in (take off dest @ out @ drop (off + length out) dest, length out))"

text \<open>A \<open>Uint8Array\<close> as a window on a backing \<open>ArrayBuffer\<close>.\<close>

record u8view =
  backing :: bytes
  byteOffset :: nat
  byteLength :: nat

definition view_bytes :: "u8view \<Rightarrow> bytes" where
  "view_bytes v = take (byteLength v) (drop (byteOffset v) (backing v))"

definition view_ok :: "u8view \<Rightarrow> bool" where
  "view_ok v \<longleftrightarrow> byteOffset v + byteLength v \<le> length (backing v)"

text \<open>
  The Bun encoder writes through a \<open>Buffer\<close> view of the whole backing buffer: \<open>Buffer.write\<close> at a
  position writes the characters that fit before the end of the view. A destination that does not
  end with its backing is bounded by a sub-view first.
\<close>

definition buffer_write :: "jsstring \<Rightarrow> bytes \<Rightarrow> nat \<Rightarrow> nat \<Rightarrow> bytes \<times> nat" where
  "buffer_write s whole start limit =
     (let out = fit_scalars (limit - start) (scalars s)
      in (take start whole @ out @ drop (start + length out) whole, length out))"

definition bunEncodeUtf8Into :: "jsstring \<Rightarrow> u8view \<Rightarrow> nat \<Rightarrow> u8view \<times> nat" where
  "bunEncodeUtf8Into s dest offset =
     (let start = byteOffset dest + offset;
          (whole, n) =
            (if byteOffset dest + byteLength dest \<noteq> length (backing dest)
             then buffer_write s (backing dest) start (start + byteLength dest - offset)
             else buffer_write s (backing dest) start (length (backing dest)))
      in (dest\<lparr>backing := whole\<rparr>, n))"

text \<open>The scan \<open>for (i = start; i < end; i++) if ((bytes[i] ?? 0) >= 0x80)\<close>.\<close>

function has_high_byte :: "bytes \<Rightarrow> nat \<Rightarrow> nat \<Rightarrow> bool" where
  "has_high_byte bs i e =
     (if i < e then (if i < length bs \<and> 0x80 \<le> unat (bs ! i) then True else has_high_byte bs (Suc i) e)
      else False)"
  by pat_completeness auto
termination
  by (relation "measure (\<lambda>(bs, i, e). e - i)") auto

declare has_high_byte.simps [simp del]

definition latin1_string :: "bytes \<Rightarrow> jsstring" where
  "latin1_string bs = map (\<lambda>b. of_nat (unat b)) bs"

definition bun_decodeUtf8Range :: "u8view \<Rightarrow> nat \<Rightarrow> nat \<Rightarrow> jsstring" where
  "bun_decodeUtf8Range v start end =
     (let base = byteOffset v
      in if has_high_byte (view_bytes v) start end
         then utf8_decode (subarray (backing v) (base + start) (base + end))
         else latin1_string (subarray (backing v) (base + start) (base + end)))"

definition node_decodeUtf8Range :: "bytes \<Rightarrow> nat \<Rightarrow> nat \<Rightarrow> jsstring" where
  "node_decodeUtf8Range bs start end =
     (if has_high_byte bs start end then utf8_decode (subarray bs start end)
      else latin1_string (subarray bs start end))"

definition decodeUtf8RangeView :: "bytes \<Rightarrow> nat \<Rightarrow> nat \<Rightarrow> jsstring" where
  "decodeUtf8RangeView view start end =
     (if has_high_byte view start end then utf8_decode (subarray view start end)
      else latin1_string (subarray view start end))"

subsection \<open>The string-or-bytes union\<close>

datatype text_or_bytes = Text jsstring | Bytes bytes

fun toBytes :: "text_or_bytes \<Rightarrow> bytes" where
  "toBytes (Text s) = node_encodeUtf8 s"
| "toBytes (Bytes b) = b"

fun toText :: "text_or_bytes \<Rightarrow> jsstring" where
  "toText (Text s) = s"
| "toText (Bytes b) = node_decodeUtf8 b"

definition hasNul :: "jsstring \<Rightarrow> bool" where
  "hasNul s \<longleftrightarrow> 0 \<in> set s"

text \<open>
  The one-slot-per-buffer cache of \<open>DataView\<close>s: a view is the buffer it reads and its start.
\<close>

definition viewForArrayBuffer ::
  "('b \<rightharpoonup> nat \<times> ('b \<times> nat)) \<Rightarrow> 'b \<Rightarrow> nat \<Rightarrow> ('b \<times> nat) \<times> ('b \<rightharpoonup> nat \<times> ('b \<times> nat))" where
  "viewForArrayBuffer cache buffer off =
     (case cache buffer of
        Some (o', view) \<Rightarrow>
          if o' = off then (view, cache)
          else ((buffer, off), cache(buffer \<mapsto> (off, (buffer, off))))
      | None \<Rightarrow> ((buffer, off), cache(buffer \<mapsto> (off, (buffer, off)))))"

definition view_cache_ok :: "('b \<rightharpoonup> nat \<times> ('b \<times> nat)) \<Rightarrow> bool" where
  "view_cache_ok cache \<longleftrightarrow> (\<forall>b o' v. cache b = Some (o', v) \<longrightarrow> v = (b, o'))"

lemma viewForArrayBuffer_ok:
  assumes "view_cache_ok cache"
  shows "fst (viewForArrayBuffer cache b off) = (b, off)"
    and "view_cache_ok (snd (viewForArrayBuffer cache b off))"
  using assms by (auto simp: viewForArrayBuffer_def view_cache_ok_def split: option.splits)

section \<open>Facts about the codec\<close>

lemma fit_scalars_all:
  "length (concat (map enc_scalar ns)) \<le> cap \<Longrightarrow> fit_scalars cap ns = concat (map enc_scalar ns)"
  by (induction ns arbitrary: cap) auto

lemma fit_scalars_le: "length (fit_scalars cap ns) \<le> cap"
proof (induction ns arbitrary: cap)
  case (Cons n ns)
  have "length (fit_scalars (cap - length (enc_scalar n)) ns) \<le> cap - length (enc_scalar n)"
    by (rule Cons.IH)
  then have "length (enc_scalar n) \<le> cap \<Longrightarrow>
      length (enc_scalar n) + length (fit_scalars (cap - length (enc_scalar n)) ns) \<le> cap"
    by linarith
  then show ?case by simp
qed simp

lemma encodeUtf8Into_fits:
  "off + length (utf8_encode s) \<le> length dest \<Longrightarrow>
     node_encodeUtf8Into s dest off =
       (take off dest @ utf8_encode s @ drop (off + length (utf8_encode s)) dest,
        length (utf8_encode s))"
  by (simp add: node_encodeUtf8Into_def fit_scalars_all utf8_encode_def Let_def)

lemma has_high_byte_iff:
  "has_high_byte bs i e \<longleftrightarrow> (\<exists>j. i \<le> j \<and> j < e \<and> j < length bs \<and> 0x80 \<le> unat (bs ! j))"
proof (induction bs i e rule: has_high_byte.induct)
  case (1 bs i e)
  show ?case
  proof (cases "i < e")
    case True
    have "(\<exists>j. i \<le> j \<and> j < e \<and> j < length bs \<and> 0x80 \<le> unat (bs ! j)) \<longleftrightarrow>
      (i < length bs \<and> 0x80 \<le> unat (bs ! i)) \<or>
      (\<exists>j. Suc i \<le> j \<and> j < e \<and> j < length bs \<and> 0x80 \<le> unat (bs ! j))"
      using True by (metis Suc_leD le_eq_less_or_eq Suc_leI)
    with 1 True show ?thesis by (auto simp: has_high_byte.simps [of bs i e])
  next
    case False
    then show ?thesis by (subst has_high_byte.simps) simp
  qed
qed

lemma utf8_decode_ascii: "\<forall>b \<in> set bs. unat b < 0x80 \<Longrightarrow> utf8_decode bs = latin1_string bs"
proof (induction bs)
  case (Cons b bs)
  then have "utf8_next b bs = (unat b, bs)"
    by (simp add: utf8_next_def)
  with Cons show ?case by (simp add: latin1_string_def scalar_units_def)
qed (simp add: latin1_string_def)

lemma range_ascii:
  assumes "\<not> has_high_byte bs a e"
  shows "\<forall>b \<in> set (subarray bs a e). unat b < 0x80"
proof
  fix b assume "b \<in> set (subarray bs a e)"
  then obtain j where "j < length (subarray bs a e)" and "subarray bs a e ! j = b"
    by (auto simp: in_set_conv_nth)
  then have "a + j < e" "a + j < length bs" "bs ! (a + j) = b"
    by (auto simp: subarray_def)
  with assms show "unat b < 0x80"
    unfolding has_high_byte_iff by (metis le_add1 not_less)
qed

lemma ranged_decode:
  "(if has_high_byte bs a e then utf8_decode (subarray bs a e) else latin1_string (subarray bs a e))
     = utf8_decode (subarray bs a e)"
  by (simp add: utf8_decode_ascii range_ascii)

lemma view_subarray:
  assumes "view_ok v" and "e \<le> byteLength v"
  shows "subarray (backing v) (byteOffset v + a) (byteOffset v + e) = subarray (view_bytes v) a e"
proof -
  have "byteOffset v + e - (byteOffset v + a) = e - a" by simp
  moreover have "min (e - a) (byteLength v - a) = e - a" using assms(2) by simp
  ultimately show ?thesis
    by (simp add: subarray_def view_bytes_def drop_take add.commute)
qed

text \<open>
  The latin1 fast path of the ranged decoder is the UTF-8 decoder on the range, on both runtimes.
\<close>

lemma bun_range_decode:
  assumes "view_ok v" and "e \<le> byteLength v"
  shows "bun_decodeUtf8Range v a e = utf8_decode (subarray (view_bytes v) a e)"
  using assms by (simp add: bun_decodeUtf8Range_def view_subarray utf8_decode_ascii range_ascii Let_def)

lemma node_range_decode: "node_decodeUtf8Range bs a e = utf8_decode (subarray bs a e)"
  by (simp add: node_decodeUtf8Range_def ranged_decode)

lemma view_range_decode: "decodeUtf8RangeView bs a e = utf8_decode (subarray bs a e)"
  by (simp add: decodeUtf8RangeView_def ranged_decode)

section \<open>The interface of a text codec\<close>

text \<open>
  What the packed formats rely on: decoding an encoded string of the codec's domain gives it back,
  and an encoding takes at most three bytes per code unit.
\<close>

locale text_codec =
  fixes enc :: "jsstring \<Rightarrow> bytes"
    and dec :: "bytes \<Rightarrow> jsstring"
    and dom_ok :: "jsstring \<Rightarrow> bool"
  assumes dec_enc: "dom_ok s \<Longrightarrow> dec (enc s) = s"
    and enc_length: "length (enc s) \<le> 3 * length s"
begin

lemma enc_inj: "dom_ok s \<Longrightarrow> dom_ok t \<Longrightarrow> enc s = enc t \<Longrightarrow> s = t"
  by (metis dec_enc)

lemma enc_u32: "3 * length s < 2 ^ 32 \<Longrightarrow> length (enc s) < 2 ^ 32"
  using enc_length [of s] by simp

end

text \<open>
  Strings the Node codec gives back: no unpaired surrogate, and no leading U+FEFF (its encoding is
  the byte order mark that \<open>TextDecoder\<close> drops).
\<close>

definition node_text :: "jsstring \<Rightarrow> bool" where
  "node_text s \<longleftrightarrow> well_formed s \<and> take 1 s \<noteq> [0xFEFF]"

lemma enc_scalar_bom: "is_scalar n \<Longrightarrow> take 3 (enc_scalar n @ r) = [0xEF, 0xBB, 0xBF] \<Longrightarrow> n = 0xFEFF"
proof -
  assume n: "is_scalar n" and b: "take 3 (enc_scalar n @ r) = [0xEF, 0xBB, 0xBF]"
  obtain c cs where e: "enc_scalar n = c # cs" and nx: "\<And>r. utf8_next c (cs @ r) = (n, r)"
    using utf8_next_enc_scalar [OF n] by blast
  have "take 3 (c # cs @ r) = [0xEF, 0xBB, 0xBF]" using b e by simp
  then obtain t where t: "c # cs @ r = 0xEF # 0xBB # 0xBF # t"
    by (metis append_Cons append_Nil append_take_drop_id)
  then have "utf8_next 0xEF (0xBB # 0xBF # t) = (n, r)" using nx [of r] by simp
  then show "n = 0xFEFF" by (simp add: utf8_next_def second_ok_def cont_def)
qed

lemma node_text_no_bom: "node_text s \<Longrightarrow> strip_bom (utf8_encode s) = utf8_encode s"
proof (rule ccontr)
  assume s: "node_text s" and "strip_bom (utf8_encode s) \<noteq> utf8_encode s"
  then have b: "take 3 (utf8_encode s) = [0xEF, 0xBB, 0xBF]"
    by (auto simp: strip_bom_def split: if_splits)
  then obtain n ns where sc: "scalars s = n # ns"
    by (cases "scalars s") (auto simp: utf8_encode_def)
  have "n = 0xFEFF"
    using b sc scalars_are_scalars [of n s] enc_scalar_bom [of n] by (simp add: utf8_encode_def)
  then have "concat (map scalar_units (scalars s)) = 0xFEFF # concat (map scalar_units ns)"
    by (simp add: sc scalar_units_def)
  with s show False by (auto simp: node_text_def scalars_units)
qed

interpretation node: text_codec node_encodeUtf8 node_decodeUtf8 node_text
proof unfold_locales
  fix s
  show "node_text s \<Longrightarrow> node_decodeUtf8 (node_encodeUtf8 s) = s"
    by (simp add: node_decodeUtf8_def node_encodeUtf8_def node_text_no_bom)
      (simp add: node_text_def utf8_decode_encode)
  show "length (node_encodeUtf8 s) \<le> 3 * length s"
    by (simp add: node_encodeUtf8_def utf8_encode_length_le)
qed

section \<open>Properties\<close>

text \<open>
  UTF-8 text survives the codec: decoding an encoded string gives the string back for every
  string without unpaired surrogates that does not start with U+FEFF.
\<close>

theorem codec_roundtrip:
  assumes "well_formed s" and "take 1 s \<noteq> [0xFEFF]"
  shows "node_decodeUtf8 (node_encodeUtf8 s) = s \<and> length (node_encodeUtf8 s) \<le> 3 * length s"
  using assms node.dec_enc node.enc_length by (simp add: node_text_def)

theorem codec_roundtrip_witness:
  "node_decodeUtf8 (node_encodeUtf8 [0x61, 0xD83D, 0xDE00, 0x20AC]) = [0x61, 0xD83D, 0xDE00, 0x20AC]"
  using codec_roundtrip [of "[0x61, 0xD83D, 0xDE00, 0x20AC]"] by (simp add: is_high_def is_low_def)

text \<open>
  The ranged decoders with their latin1 shortcut agree with the UTF-8 decoder on exactly the
  bytes of the range, on both runtimes, wherever the array sits in its backing buffer.
\<close>

theorem ranged_decode_equiv:
  assumes "view_ok v" and "e \<le> byteLength v"
  shows "bun_decodeUtf8Range v a e = utf8_decode (subarray (view_bytes v) a e)
    \<and> node_decodeUtf8Range (view_bytes v) a e = utf8_decode (subarray (view_bytes v) a e)
    \<and> decodeUtf8RangeView (view_bytes v) a e = utf8_decode (subarray (view_bytes v) a e)"
  using assms by (simp add: bun_range_decode node_range_decode view_range_decode)

theorem ranged_decode_equiv_witness:
  "bun_decodeUtf8Range \<lparr>backing = [0, 0x61, 0xC3, 0xA9, 0], byteOffset = 1, byteLength = 3\<rparr> 0 3
     = utf8_decode [0x61, 0xC3, 0xA9]"
  using ranged_decode_equiv [of "\<lparr>backing = [0, 0x61, 0xC3, 0xA9, 0], byteOffset = 1, byteLength = 3\<rparr>" 3 0]
  by (simp add: view_ok_def view_bytes_def subarray_def)

text \<open>
  The Bun in-place encoder touches only its destination: it changes the window exactly as the
  Node encoder changes the array, reports the same number of bytes, and leaves every byte of the
  backing buffer outside the window as it was, whether or not the window ends with its backing.
\<close>

theorem bunEncodeUtf8Into_confined:
  assumes "view_ok v" and "off \<le> byteLength v"
  shows "case bunEncodeUtf8Into s v off of (v', n) \<Rightarrow>
    node_encodeUtf8Into s (view_bytes v) off = (view_bytes v', n)
    \<and> take (byteOffset v) (backing v') = take (byteOffset v) (backing v)
    \<and> drop (byteOffset v + byteLength v) (backing v') = drop (byteOffset v + byteLength v) (backing v)"
proof -
  define out where "out = fit_scalars (byteLength v - off) (scalars s)"
  have len: "length out \<le> byteLength v - off" by (simp add: out_def fit_scalars_le)
  define l where "l = take (byteOffset v) (backing v)"
  define w where "w = view_bytes v"
  define r where "r = drop (byteOffset v + byteLength v) (backing v)"
  have bk: "backing v = l @ w @ r"
    by (metis l_def w_def r_def view_bytes_def append_take_drop_id drop_drop add.commute)
  have ll: "length l = byteOffset v" and lw: "length w = byteLength v"
    using assms(1) by (auto simp: l_def w_def view_bytes_def view_ok_def)
  have "bunEncodeUtf8Into s v off =
      (v\<lparr>backing := l @ (take off w @ out @ drop (off + length out) w) @ r\<rparr>, length out)"
    using assms len ll lw
    by (auto simp: bunEncodeUtf8Into_def buffer_write_def Let_def out_def bk)
  moreover have "length (take off w @ out @ drop (off + length out) w) = byteLength v"
    using len lw assms(2) by simp
  ultimately show ?thesis
    using ll lw assms(2) by (simp add: min_absorb2 node_encodeUtf8Into_def view_bytes_def bk out_def [symmetric] w_def [symmetric] Let_def)
qed

theorem bunEncodeUtf8Into_confined_witness:
  "case bunEncodeUtf8Into (js ''ab'') \<lparr>backing = [9, 9, 9, 9], byteOffset = 1, byteLength = 2\<rparr> 1 of (v', n) \<Rightarrow>
     take 1 (backing v') = [9] \<and> drop 3 (backing v') = [9]"
  using bunEncodeUtf8Into_confined [of "\<lparr>backing = [9, 9, 9, 9], byteOffset = 1, byteLength = 2\<rparr>" 1 "js ''ab''"]
  by (auto simp: view_ok_def numeral_3_eq_3 split: prod.splits)

end
