(* ===== verification/Wire.thy ===== *)
theory Wire
  imports Codec
begin

text \<open>
  The packed wire format of \<open>src/src/shared/packed/wire.ts\<close>: the bounds-checked unpackers, the
  packers, the reusable pack-scratch pool, and the object folding of decoded pairs.

  Every unpacking loop of the source reads items at a moving offset; \<open>read_items\<close> is that loop
  and the locale \<open>item_codec\<close> is the contract of one item reader against its packed layout, from
  which the round trip of a whole sequence follows once.
\<close>

section \<open>Bounds-checked reads\<close>

definition readU32 :: "bytes \<Rightarrow> nat \<Rightarrow> nat result" where
  "readU32 dv offset =
     (if length dv < offset + 4 then Inl (RangeError ''packed buffer: truncated u32'')
      else Inr (le_nat (take 4 (drop offset dv))))"

definition readSlice :: "bytes \<Rightarrow> nat \<Rightarrow> nat \<Rightarrow> bytes result" where
  "readSlice bs offset len =
     (if length bs < offset + len then Inl (RangeError ''packed buffer: truncated bytes'')
      else Inr (subarray bs offset (offset + len)))"

text \<open>\<open>bytes[offset] ?? 0\<close>\<close>

definition byte_at :: "bytes \<Rightarrow> nat \<Rightarrow> byte" where
  "byte_at bs off = (if off < length bs then bs ! off else 0)"

text \<open>The loop \<open>for (let i = 0; i < count; i++)\<close> over an item reader that advances the offset.\<close>

fun read_items :: "(bytes \<Rightarrow> nat \<Rightarrow> ('a \<times> nat) result) \<Rightarrow> bytes \<Rightarrow> nat \<Rightarrow> nat \<Rightarrow> ('a list \<times> nat) result" where
  "read_items rd bs off 0 = Inr ([], off)"
| "read_items rd bs off (Suc n) =
     rbind (rd bs off) (\<lambda>(x, off'). rbind (read_items rd bs off' n) (\<lambda>(xs, e). Inr (x # xs, e)))"

lemma readU32_le [buf]:
  "off = length p \<Longrightarrow> n < 2 ^ 32 \<Longrightarrow> readU32 (p @ u32_le n @ q) off = Inr n"
  by (simp add: readU32_def le_nat_le_bytes)

lemma readSlice_append [buf]:
  "off = length p \<Longrightarrow> len = length f \<Longrightarrow> readSlice (p @ f @ q) off len = Inr f"
  by (simp add: readSlice_def subarray_def)

lemma readU32_Inr: "readU32 dv off = Inr n \<Longrightarrow> off + 4 \<le> length dv \<and> n < 2 ^ 32"
  using le_nat_bound [of "take 4 (drop off dv)"] by (auto simp: readU32_def split: if_splits)

lemma readSlice_Inr:
  "readSlice bs off len = Inr f \<Longrightarrow> off + len \<le> length bs \<and> length f = len \<and> f = take len (drop off bs)"
  by (auto simp: readSlice_def subarray_def split: if_splits)

text \<open>
  The contract of an item reader: from the packed layout of an item it returns the item and the
  offset just past it, and whatever it accepts lies inside the buffer.
\<close>

locale item_codec =
  fixes enc :: "'a \<Rightarrow> bytes"
    and rd :: "bytes \<Rightarrow> nat \<Rightarrow> ('a \<times> nat) result"
    and ok :: "'a \<Rightarrow> bool"
  assumes rd_enc: "ok x \<Longrightarrow> rd (p @ enc x @ q) (length p) = Inr (x, length p + length (enc x))"
    and rd_bounds: "rd bs off = Inr (x, off') \<Longrightarrow> off \<le> off' \<and> off' \<le> length bs"
begin

lemma read_items_layout:
  "(\<And>x. x \<in> set xs \<Longrightarrow> ok x) \<Longrightarrow>
     read_items rd (p @ concat (map enc xs) @ q) (length p) (length xs)
       = Inr (xs, length p + length (concat (map enc xs)))"
proof (induction xs arbitrary: p)
  case (Cons x xs)
  have "rd (p @ enc x @ concat (map enc xs) @ q) (length p) = Inr (x, length p + length (enc x))"
    using Cons.prems by (simp add: rd_enc)
  moreover have "read_items rd ((p @ enc x) @ concat (map enc xs) @ q) (length (p @ enc x)) (length xs)
      = Inr (xs, length (p @ enc x) + length (concat (map enc xs)))"
    using Cons.prems by (intro Cons.IH) simp
  ultimately show ?case by simp
qed simp

lemma read_items_bounds:
  "read_items rd bs off n = Inr (xs, e) \<Longrightarrow> off \<le> length bs \<Longrightarrow>
     length xs = n \<and> off \<le> e \<and> e \<le> length bs"
proof (induction n arbitrary: off xs e)
  case (Suc n)
  from Suc.prems(1) obtain x off' ys where r: "rd bs off = Inr (x, off')"
    and rest: "read_items rd bs off' n = Inr (ys, e)" and xs: "xs = x # ys"
    by (auto simp: rbind_Inr_conv split: prod.splits)
  from rd_bounds [OF r] Suc.IH [OF rest] xs show ?case by auto
qed auto

end

section \<open>Unpackers\<close>

subsection \<open>Arrays of integers and bits\<close>

fun u32_loop :: "bytes \<Rightarrow> nat \<Rightarrow> nat \<Rightarrow> nat list result" where
  "u32_loop dv i 0 = Inr []"
| "u32_loop dv i (Suc n) =
     rbind (readU32 dv (4 + i * 4)) (\<lambda>v. rbind (u32_loop dv (Suc i) n) (\<lambda>vs. Inr (v # vs)))"

definition unpackU32Array :: "bytes \<Rightarrow> nat list result" where
  "unpackU32Array bs =
     (if length bs < 4 then Inr []
      else rbind (readU32 bs 0) (\<lambda>count.
        if (length bs - 4) div 4 < count then Inl (RangeError ''packed buffer: invalid u32 count'')
        else u32_loop bs 0 count))"

text \<open>\<open>i >> 3\<close> converts \<open>i\<close> to a signed 32-bit integer first.\<close>

definition to_int32 :: "nat \<Rightarrow> int" where
  "to_int32 n = (let m = int n mod 2 ^ 32 in if m < 2 ^ 31 then m else m - 2 ^ 32)"

definition bitset_bit :: "bytes \<Rightarrow> nat \<Rightarrow> nat" where
  "bitset_bit bits i =
     (let idx = to_int32 i div 8;
          b = (if 0 \<le> idx \<and> idx < int (length bits) then unat (bits ! nat idx) else 0)
      in b div 2 ^ (i mod 8) mod 2)"

definition unpackBitset :: "bytes \<Rightarrow> nat list result" where
  "unpackBitset bs =
     (if length bs < 4 then Inr []
      else rbind (readU32 bs 0) (\<lambda>count.
        let expectedBytes = (count + 7) div 8
        in if length bs < 4 + expectedBytes
           then Inl (RangeError ''packed buffer: truncated bitset'')
           else Inr (map (bitset_bit (drop 4 bs)) [0..<count])))"

definition to_signed64 :: "nat \<Rightarrow> int" where
  "to_signed64 n = (if n < 2 ^ 63 then int n else int n - 2 ^ 64)"

fun u64_loop :: "bytes \<Rightarrow> nat \<Rightarrow> nat \<Rightarrow> nat list result" where
  "u64_loop dv i 0 = Inr []"
| "u64_loop dv i (Suc n) =
     rbind (get_uint 8 dv (4 + i * 8)) (\<lambda>v. rbind (u64_loop dv (Suc i) n) (\<lambda>vs. Inr (v # vs)))"

definition unpackU64ArrayAsBigInt :: "bytes \<Rightarrow> nat list result" where
  "unpackU64ArrayAsBigInt bs =
     (if length bs < 4 then Inr []
      else rbind (readU32 bs 0) (\<lambda>count.
        if (length bs - 4) div 8 < count then Inl (RangeError ''packed buffer: invalid i64 count'')
        else u64_loop bs 0 count))"

definition unpackI64ArrayAsBigInt :: "bytes \<Rightarrow> int list result" where
  "unpackI64ArrayAsBigInt bs =
     (if length bs < 4 then Inr []
      else rbind (readU32 bs 0) (\<lambda>count.
        if (length bs - 4) div 8 < count then Inl (RangeError ''packed buffer: invalid i64 count'')
        else rbind (u64_loop bs 0 count) (\<lambda>vs. Inr (map to_signed64 vs))))"

subsection \<open>Byte results, multipart parts, pairs, requests\<close>

definition rd_bytes :: "bytes \<Rightarrow> nat \<Rightarrow> (bytes \<times> nat) result" where
  "rd_bytes bs off =
     rbind (readU32 bs off) (\<lambda>len.
     rbind (readSlice bs (off + 4) len) (\<lambda>slice. Inr (slice, off + 4 + len)))"

definition unpackByteResults :: "bytes \<Rightarrow> bytes list result" where
  "unpackByteResults bs =
     (if length bs < 4 then Inr []
      else rbind (readU32 bs 0) (\<lambda>count.
        rbind (read_items rd_bytes bs 4 count) (\<lambda>(out, _). Inr out)))"

record multipart_part =
  part_name :: jsstring
  part_filename :: "jsstring option"
  part_contentType :: "jsstring option"
  part_data :: bytes

definition rd_part :: "(bytes \<Rightarrow> jsstring) \<Rightarrow> bytes \<Rightarrow> nat \<Rightarrow> (multipart_part \<times> nat) result" where
  "rd_part decode bs off =
     rbind (rd_bytes bs off) (\<lambda>(name, off).
     let hasFilename = byte_at bs off in
     rbind (rd_bytes bs (off + 1)) (\<lambda>(filenameBytes, off).
     let hasCt = byte_at bs off in
     rbind (rd_bytes bs (off + 1)) (\<lambda>(ctBytes, off).
     rbind (rd_bytes bs off) (\<lambda>(data, off).
       Inr (\<lparr>part_name = decode name,
             part_filename = (if hasFilename \<noteq> 0 then Some (decode filenameBytes) else None),
             part_contentType = (if hasCt \<noteq> 0 then Some (decode ctBytes) else None),
             part_data = data\<rparr>, off)))))"

definition readMultipartPartsPacked ::
  "(bytes \<Rightarrow> jsstring) \<Rightarrow> bytes \<Rightarrow> multipart_part list result" where
  "readMultipartPartsPacked decode bs =
     (if length bs < 4 then Inr []
      else rbind (readU32 bs 0) (\<lambda>count.
        rbind (read_items (rd_part decode) bs 4 count) (\<lambda>(out, _). Inr out)))"

definition rd_multipart_item ::
  "(bytes \<Rightarrow> jsstring) \<Rightarrow> bytes \<Rightarrow> nat \<Rightarrow> (multipart_part list \<times> nat) result" where
  "rd_multipart_item decode bs off =
     rbind (rd_bytes bs off) (\<lambda>(partsBytes, off').
     rbind (readMultipartPartsPacked decode partsBytes) (\<lambda>ps. Inr (ps, off')))"

definition unpackMultipartParts ::
  "(bytes \<Rightarrow> jsstring) \<Rightarrow> bytes \<Rightarrow> multipart_part list list result" where
  "unpackMultipartParts decode bs =
     (if length bs < 4 then Inr []
      else rbind (readU32 bs 0) (\<lambda>itemCount.
        rbind (read_items (rd_multipart_item decode) bs 4 itemCount) (\<lambda>(out, _). Inr out)))"

definition rd_pair :: "(bytes \<Rightarrow> jsstring) \<Rightarrow> bytes \<Rightarrow> nat \<Rightarrow> ((jsstring \<times> jsstring) \<times> nat) result" where
  "rd_pair decode bs off =
     rbind (rd_bytes bs off) (\<lambda>(keyBytes, off).
     rbind (rd_bytes bs off) (\<lambda>(valueBytes, off).
       Inr ((decode keyBytes, decode valueBytes), off)))"

definition readPairsPacked :: "(bytes \<Rightarrow> jsstring) \<Rightarrow> bytes \<Rightarrow> (jsstring \<times> jsstring) list result" where
  "readPairsPacked decode bs =
     (if length bs < 4 then Inr []
      else rbind (readU32 bs 0) (\<lambda>count.
        if count = 0 then Inr []
        else rbind (read_items (rd_pair decode) bs 4 count) (\<lambda>(out, _). Inr out)))"

record parsed_request =
  req_method :: jsstring
  req_path :: jsstring
  req_version :: jsstring
  req_headers :: "(jsstring, jsstring) jsmap"

definition readHttpPacked :: "(bytes \<Rightarrow> jsstring) \<Rightarrow> bytes \<Rightarrow> parsed_request result" where
  "readHttpPacked decode bs =
     rbind (rd_bytes bs 0) (\<lambda>(method, off).
     rbind (rd_bytes bs off) (\<lambda>(path, off).
     rbind (rd_bytes bs off) (\<lambda>(version, off).
     rbind (readU32 bs off) (\<lambda>headerCount.
     rbind (read_items (rd_pair decode) bs (off + 4) headerCount) (\<lambda>(hs, _).
       Inr \<lparr>req_method = decode method, req_path = decode path, req_version = decode version,
            req_headers = foldl (\<lambda>h (name, value). AList.update name value h) [] hs\<rparr>)))))"

section \<open>Packers\<close>

definition packedTotal :: "bytes list \<Rightarrow> nat" where
  "packedTotal items = foldl (\<lambda>total item. total + (4 + length item)) 4 items"

fun write_items :: "bytes list \<Rightarrow> bytes \<Rightarrow> nat \<Rightarrow> bytes result" where
  "write_items [] target pos = Inr target"
| "write_items (item # items) target pos =
     rbind (put target pos (u32_le (length item))) (\<lambda>t1.
     rbind (put t1 (pos + 4) item) (\<lambda>t2.
       write_items items t2 (pos + 4 + length item)))"

definition writePack :: "bytes list \<Rightarrow> bytes \<Rightarrow> nat \<Rightarrow> (bytes \<times> nat) result" where
  "writePack items target offset =
     (let end = offset + packedTotal items
      in if length target < end then Inl (RangeError ''packed buffer: target too small'')
         else rbind (put target offset (u32_le (length items))) (\<lambda>t.
              rbind (write_items items t (offset + 4)) (\<lambda>t'. Inr (t', end))))"

definition packBatch :: "bytes list \<Rightarrow> bytes result" where
  "packBatch items =
     rbind (writePack items (new_buf (packedTotal items)) 0) (\<lambda>(out, _). Inr out)"

text \<open>
  \<open>packPairs\<close> encodes the strings, sizes the buffer, then writes the count and each key and value
  with its length.
\<close>

fun write_pairs :: "(bytes \<times> bytes) list \<Rightarrow> bytes \<Rightarrow> nat \<Rightarrow> bytes result" where
  "write_pairs [] out offset = Inr out"
| "write_pairs ((key, value) # ps) out offset =
     rbind (put out offset (u32_le (length key))) (\<lambda>o1.
     rbind (put o1 (offset + 4) key) (\<lambda>o2.
     let offset = offset + 4 + length key in
     rbind (put o2 offset (u32_le (length value))) (\<lambda>o3.
     rbind (put o3 (offset + 4) value) (\<lambda>o4.
       write_pairs ps o4 (offset + 4 + length value)))))"

definition packPairs :: "(jsstring \<Rightarrow> bytes) \<Rightarrow> (jsstring \<times> jsstring) list \<Rightarrow> bytes result" where
  "packPairs encode pairs =
     (let encoded = map (\<lambda>(k, v). (encode k, encode v)) pairs;
          total = foldl (\<lambda>total (k, v). total + (8 + length k + length v)) 4 encoded
      in rbind (put (new_buf total) 0 (u32_le (length encoded))) (\<lambda>out.
           write_pairs encoded out 4))"

subsection \<open>The pack-scratch pool\<close>

text \<open>
  \<open>while (size < min) size *= 2\<close>.  The callers start from a positive size (at least 256, or a
  buffer of at least 1024 bytes), so the doubling makes progress; the guard \<open>0 < size\<close> records
  that.
\<close>

function grow_size :: "nat \<Rightarrow> nat \<Rightarrow> nat" where
  "grow_size sz need = (if 0 < sz \<and> sz < need then grow_size (sz * 2) need else sz)"
  by pat_completeness auto
termination
  by (relation "measure (\<lambda>(sz, need). need - sz)") auto

declare grow_size.simps [simp del]

definition acquirePackScratch :: "bytes list \<Rightarrow> nat \<Rightarrow> bytes \<times> bytes list" where
  "acquirePackScratch free need =
     (let buf = (if free = [] then new_buf 0 else last free); free' = butlast free
      in if length buf < need then (new_buf (grow_size (max 256 (length buf * 2)) need), free')
         else (buf, free'))"

definition releasePackScratch :: "bytes list \<Rightarrow> bytes \<Rightarrow> bytes list" where
  "releasePackScratch free buf = free @ [buf]"

text \<open>
  \<open>fn\<close> is the callback on the packed view; its result (or thrown error) is returned and the
  scratch goes back to the pool in both cases.
\<close>

definition withPackScratch ::
  "bytes list \<Rightarrow> bytes list \<Rightarrow> (bytes \<Rightarrow> 'a result) \<Rightarrow> 'a result \<times> bytes list" where
  "withPackScratch free items fn =
     (let (buf, free1) = acquirePackScratch free (packedTotal items)
      in case writePack items buf 0 of
           Inl e \<Rightarrow> (Inl e, free1)
         | Inr (buf', end) \<Rightarrow> (fn (subarray buf' 0 end), releasePackScratch free1 buf'))"

definition withPackScratch2 ::
  "bytes list \<Rightarrow> bytes list \<Rightarrow> bytes list \<Rightarrow> (bytes \<Rightarrow> bytes \<Rightarrow> 'a result)
     \<Rightarrow> 'a result \<times> bytes list" where
  "withPackScratch2 free a b fn =
     (let (bufA, free1) = acquirePackScratch free (packedTotal a);
          (bufB, free2) = acquirePackScratch free1 (packedTotal b)
      in case writePack a bufA 0 of
           Inl e \<Rightarrow> (Inl e, free2)
         | Inr (bufA', endA) \<Rightarrow>
             (case writePack b bufB 0 of
                Inl e \<Rightarrow> (Inl e, free2)
              | Inr (bufB', endB) \<Rightarrow>
                  (fn (subarray bufA' 0 endA) (subarray bufB' 0 endB),
                   releasePackScratch (releasePackScratch free2 bufA') bufB')))"

section \<open>Layouts\<close>

text \<open>The documented layouts, as byte strings: what the packers write and the unpackers read.\<close>

definition item_layout :: "bytes \<Rightarrow> bytes" where
  "item_layout b = u32_le (length b) @ b"

definition pack_layout :: "bytes list \<Rightarrow> bytes" where
  "pack_layout items = u32_le (length items) @ concat (map item_layout items)"

definition pair_layout :: "(jsstring \<Rightarrow> bytes) \<Rightarrow> jsstring \<times> jsstring \<Rightarrow> bytes" where
  "pair_layout encode = (\<lambda>(k, v). item_layout (encode k) @ item_layout (encode v))"

definition pairs_layout :: "(jsstring \<Rightarrow> bytes) \<Rightarrow> (jsstring \<times> jsstring) list \<Rightarrow> bytes" where
  "pairs_layout encode ps = u32_le (length ps) @ concat (map (pair_layout encode) ps)"

lemma length_item_layout [simp]: "length (item_layout b) = 4 + length b"
  by (simp add: item_layout_def)

lemma packedTotal_acc:
  "foldl (\<lambda>total item. total + (4 + length item)) n items = n + length (concat (map item_layout items))"
  by (induction items arbitrary: n) simp_all

lemma packedTotal_layout: "packedTotal items = length (pack_layout items)"
  by (simp add: packedTotal_def packedTotal_acc pack_layout_def)

lemma write_items_layout:
  "length (concat (map item_layout items)) \<le> length q \<Longrightarrow>
     write_items items (p @ q) (length p) =
       Inr (p @ concat (map item_layout items) @ drop (length (concat (map item_layout items))) q)"
proof (induction items arbitrary: p q)
  case (Cons it items)
  let ?w = "u32_le (length it)"
  let ?q = "drop (4 + length it) q"
  have 1: "put (p @ q) (length p) ?w = Inr (p @ ?w @ drop 4 q)"
    using Cons.prems by (simp add: put_append)
  have 2: "put ((p @ ?w) @ drop 4 q) (length p + 4) it = Inr ((p @ ?w) @ it @ drop (length it) (drop 4 q))"
    using Cons.prems by (intro put_append) simp_all
  have 3: "write_items items ((p @ item_layout it) @ ?q) (length (p @ item_layout it)) =
      Inr ((p @ item_layout it) @ concat (map item_layout items)
            @ drop (length (concat (map item_layout items))) ?q)"
    using Cons.prems by (intro Cons.IH) simp
  have il: "item_layout it = ?w @ it" by (simp add: item_layout_def)
  from 1 2 3 show ?case
    by (simp add: il ac_simps)
qed simp

lemma writePack_layout:
  assumes "offset + packedTotal items \<le> length target"
  shows "writePack items target offset =
    Inr (take offset target @ pack_layout items @ drop (offset + packedTotal items) target,
         offset + packedTotal items)"
proof -
  let ?p = "take offset target" and ?q = "drop offset target"
  let ?body = "concat (map item_layout items)"
  have lp: "length ?p = offset" using assms by simp
  have lq: "4 + length ?body \<le> length ?q"
    using assms by (simp add: packedTotal_layout pack_layout_def)
  have 1: "put (?p @ ?q) offset (u32_le (length items)) = Inr (?p @ u32_le (length items) @ drop 4 ?q)"
    using lp lq by (subst put_append) simp_all
  have 2: "write_items items ((?p @ u32_le (length items)) @ drop 4 ?q) (length (?p @ u32_le (length items)))
      = Inr ((?p @ u32_le (length items)) @ ?body @ drop (length ?body) (drop 4 ?q))"
    using lq by (intro write_items_layout) simp
  have 3: "write_items items (?p @ u32_le (length items) @ drop 4 ?q) (offset + 4)
      = Inr ((?p @ u32_le (length items)) @ ?body @ drop (length ?body) (drop 4 ?q))"
    using 2 lp by simp
  show ?thesis
    using assms 1 3
    by (simp add: writePack_def packedTotal_layout pack_layout_def Let_def ac_simps)
qed

lemma packBatch_layout: "packBatch items = Inr (pack_layout items)"
  by (simp add: packBatch_def writePack_layout packedTotal_layout)

lemma grow_size_ge: "0 < sz \<Longrightarrow> need \<le> grow_size sz need \<and> sz \<le> grow_size sz need"
proof (induction sz need rule: grow_size.induct)
  case (1 sz need)
  show ?case
  proof (cases "sz < need")
    case True
    with 1 have "need \<le> grow_size (sz * 2) need \<and> sz * 2 \<le> grow_size (sz * 2) need" by simp
    with True "1.prems" show ?thesis by (simp add: grow_size.simps [of sz need])
  next
    case False
    then show ?thesis by (simp add: grow_size.simps [of sz need])
  qed
qed

lemma grow_size_lt: "0 < sz \<Longrightarrow> sz < need \<Longrightarrow> grow_size sz need < 2 * need"
proof (induction sz need rule: grow_size.induct)
  case (1 sz need)
  show ?case
  proof (cases "sz * 2 < need")
    case True
    with 1 show ?thesis by (simp add: grow_size.simps [of sz need])
  next
    case False
    with 1 show ?thesis
      by (simp add: grow_size.simps [of sz need] grow_size.simps [of "sz * 2" need])
  qed
qed

lemma acquirePackScratch_fits: "need \<le> length (fst (acquirePackScratch free need))"
  by (auto simp: acquirePackScratch_def Let_def grow_size_ge)

lemma acquirePackScratch_free: "snd (acquirePackScratch free need) = butlast free"
  by (simp add: acquirePackScratch_def Let_def)

lemma scratch_view:
  "packedTotal items \<le> length buf \<Longrightarrow>
     \<exists>buf'. writePack items buf 0 = Inr (buf', packedTotal items)
       \<and> subarray buf' 0 (packedTotal items) = pack_layout items \<and> length buf' = length buf"
  by (simp add: writePack_layout packedTotal_layout subarray_prefix)

lemma withPackScratch_result: "fst (withPackScratch free items fn) = fn (pack_layout items)"
proof -
  obtain buf free1 where a: "acquirePackScratch free (packedTotal items) = (buf, free1)"
    by (cases "acquirePackScratch free (packedTotal items)")
  with acquirePackScratch_fits [of "packedTotal items" free] have "packedTotal items \<le> length buf"
    by simp
  from scratch_view [OF this] a show ?thesis by (auto simp: withPackScratch_def)
qed

lemma withPackScratch_pool:
  "length (snd (withPackScratch free items fn)) = max 1 (length free)"
proof -
  obtain buf free1 where a: "acquirePackScratch free (packedTotal items) = (buf, free1)"
    by (cases "acquirePackScratch free (packedTotal items)")
  with acquirePackScratch_fits [of "packedTotal items" free] have "packedTotal items \<le> length buf"
    by simp
  moreover have "free1 = butlast free"
    using a acquirePackScratch_free [of free "packedTotal items"] by simp
  ultimately show ?thesis
    using scratch_view [of items buf] a
    by (auto simp: withPackScratch_def releasePackScratch_def)
qed

lemma withPackScratch2_result:
  "fst (withPackScratch2 free a b fn) = fn (pack_layout a) (pack_layout b)"
proof -
  obtain bufA free1 where x: "acquirePackScratch free (packedTotal a) = (bufA, free1)"
    by (cases "acquirePackScratch free (packedTotal a)")
  obtain bufB free2 where y: "acquirePackScratch free1 (packedTotal b) = (bufB, free2)"
    by (cases "acquirePackScratch free1 (packedTotal b)")
  have "packedTotal a \<le> length bufA" "packedTotal b \<le> length bufB"
    using acquirePackScratch_fits [of "packedTotal a" free] x
      acquirePackScratch_fits [of "packedTotal b" free1] y by simp_all
  then show ?thesis
    using scratch_view [of a bufA] scratch_view [of b bufB] x y
    by (auto simp: withPackScratch2_def)
qed

section \<open>Item codecs of the format\<close>

lemma rd_bytes_Inr:
  "rd_bytes bs off = Inr (x, off') \<Longrightarrow> off + 4 \<le> off' \<and> off' \<le> length bs \<and> length x = off' - off - 4"
  by (auto simp: rd_bytes_def rbind_Inr_conv dest!: readU32_Inr readSlice_Inr)

lemma rd_bytes_layout [buf]:
  assumes "length x < 2 ^ 32"
  shows "rd_bytes (p @ item_layout x @ q) (length p) = Inr (x, length p + length (item_layout x))"
proof -
  have "readSlice ((p @ u32_le (length x)) @ x @ q) (length p + 4) (length x) = Inr x"
    by (intro readSlice_append) simp_all
  with assms readU32_le [of "length p" p "length x" "x @ q"] show ?thesis
    by (simp add: rd_bytes_def item_layout_def add.assoc)
qed

interpretation byte_items: item_codec item_layout rd_bytes "\<lambda>b. length b < 2 ^ 32"
proof unfold_locales
  fix x p q bs :: bytes and off off' :: nat
  show "length x < 2 ^ 32 \<Longrightarrow>
      rd_bytes (p @ item_layout x @ q) (length p) = Inr (x, length p + length (item_layout x))"
    by (rule rd_bytes_layout)
  show "rd_bytes bs off = Inr (x, off') \<Longrightarrow> off \<le> off' \<and> off' \<le> length bs"
    using rd_bytes_Inr [of bs off x off'] by simp
qed

text \<open>
  Pairs over any text codec: the domain is the pairs whose strings the codec gives back and whose
  encodings fit a \<open>u32\<close> length.
\<close>

definition pair_ok :: "(jsstring \<Rightarrow> bytes) \<Rightarrow> (jsstring \<Rightarrow> bool) \<Rightarrow> jsstring \<times> jsstring \<Rightarrow> bool" where
  "pair_ok encode ok = (\<lambda>(k, v). ok k \<and> ok v \<and> length (encode k) < 2 ^ 32 \<and> length (encode v) < 2 ^ 32)"

context text_codec
begin

lemma rd_pair_layout:
  assumes "pair_ok enc dom_ok kv"
  shows "rd_pair dec (p @ pair_layout enc kv @ q) (length p)
    = Inr (kv, length p + length (pair_layout enc kv))"
proof -
  obtain k v where kv: "kv = (k, v)" by (cases kv)
  have k: "rd_bytes (p @ item_layout (enc k) @ item_layout (enc v) @ q) (length p)
      = Inr (enc k, length (p @ item_layout (enc k)))"
    using assms kv by (subst rd_bytes_layout) (simp_all add: pair_ok_def)
  have v: "rd_bytes ((p @ item_layout (enc k)) @ item_layout (enc v) @ q) (length (p @ item_layout (enc k)))
      = Inr (enc v, length (p @ item_layout (enc k)) + length (item_layout (enc v)))"
    using assms kv by (intro rd_bytes_layout) (simp add: pair_ok_def)
  from k v assms kv show ?thesis
    by (simp add: rd_pair_def pair_layout_def pair_ok_def dec_enc)
qed

end

lemma rd_pair_bounds: "rd_pair dec bs off = Inr (kv, off') \<Longrightarrow> off \<le> off' \<and> off' \<le> length bs"
  by (auto simp: rd_pair_def rbind_Inr_conv split: prod.splits dest!: rd_bytes_Inr)

interpretation node_pairs:
  item_codec "pair_layout node_encodeUtf8" "rd_pair node_decodeUtf8" "pair_ok node_encodeUtf8 node_text"
proof unfold_locales
  fix kv p q bs and off off' :: nat
  show "pair_ok node_encodeUtf8 node_text kv \<Longrightarrow>
      rd_pair node_decodeUtf8 (p @ pair_layout node_encodeUtf8 kv @ q) (length p)
        = Inr (kv, length p + length (pair_layout node_encodeUtf8 kv))"
    by (rule node.rd_pair_layout)
  show "rd_pair node_decodeUtf8 bs off = Inr (kv, off') \<Longrightarrow> off \<le> off' \<and> off' \<le> length bs"
    by (rule rd_pair_bounds)
qed

section \<open>Loops over fixed-width arrays\<close>

lemma u32_loop_layout:
  "\<forall>v \<in> set vs. v < 2 ^ 32 \<Longrightarrow> length p = 4 + i * 4 \<Longrightarrow>
     u32_loop (p @ concat (map u32_le vs) @ q) i (length vs) = Inr vs"
proof (induction vs arbitrary: p i)
  case (Cons v vs)
  have "u32_loop ((p @ u32_le v) @ concat (map u32_le vs) @ q) (Suc i) (length vs) = Inr vs"
    using Cons.prems by (intro Cons.IH) simp_all
  with Cons.prems readU32_le [of "4 + i * 4" p v "concat (map u32_le vs) @ q"] show ?case by simp
qed simp

lemma u64_loop_layout:
  "\<forall>v \<in> set vs. v < 2 ^ 64 \<Longrightarrow> length p = 4 + i * 8 \<Longrightarrow>
     u64_loop (p @ concat (map u64_le vs) @ q) i (length vs) = Inr vs"
proof (induction vs arbitrary: p i)
  case (Cons v vs)
  have "u64_loop ((p @ u64_le v) @ concat (map u64_le vs) @ q) (Suc i) (length vs) = Inr vs"
    using Cons.prems by (intro Cons.IH) simp_all
  with Cons.prems get_uint_le [of "4 + i * 8" p v 8 "concat (map u64_le vs) @ q"] show ?case by simp
qed simp

lemma length_concat_le_bytes: "length (concat (map (le_bytes k) vs)) = k * length vs"
  by (induction vs) simp_all

section \<open>Pairs and multipart layouts\<close>

definition encoded_pair :: "bytes \<times> bytes \<Rightarrow> bytes" where
  "encoded_pair = (\<lambda>(k, v). item_layout k @ item_layout v)"

lemma pair_layout_encoded: "pair_layout encode kv = encoded_pair (map_prod encode encode kv)"
  by (simp add: pair_layout_def encoded_pair_def map_prod_def split: prod.splits)

lemma put2_layout:
  assumes "4 + length b \<le> length q"
  shows "rbind (put (p @ q) (length p) (u32_le (length b))) (\<lambda>o1. put o1 (length p + 4) b)
    = Inr (p @ item_layout b @ drop (4 + length b) q)"
proof -
  have "put ((p @ u32_le (length b)) @ drop 4 q) (length p + 4) b
      = Inr ((p @ u32_le (length b)) @ b @ drop (length b) (drop 4 q))"
    using assms by (intro put_append) simp_all
  with assms show ?thesis by (simp add: put_append item_layout_def ac_simps)
qed

lemma rbind_assoc: "rbind (rbind m f) g = rbind m (\<lambda>x. rbind (f x) g)"
  by (cases m) simp_all

lemma write_pairs_Cons:
  "write_pairs ((k, v) # ps) out off =
     rbind (rbind (put out off (u32_le (length k))) (\<lambda>o1. put o1 (off + 4) k)) (\<lambda>o2.
     rbind (rbind (put o2 (off + 4 + length k) (u32_le (length v))) (\<lambda>o3. put o3 (off + 4 + length k + 4) v))
       (\<lambda>o4. write_pairs ps o4 (off + 4 + length k + 4 + length v)))"
  by (simp add: rbind_assoc Let_def)

declare write_pairs.simps(2) [simp del]

lemma write_pairs_layout:
  "length (concat (map encoded_pair ps)) \<le> length q \<Longrightarrow>
     write_pairs ps (p @ q) (length p) =
       Inr (p @ concat (map encoded_pair ps) @ drop (length (concat (map encoded_pair ps))) q)"
proof (induction ps arbitrary: p q)
  case (Cons kv ps)
  obtain k v where kv: "kv = (k, v)" by (cases kv)
  let ?pk = "p @ item_layout k" and ?qk = "drop (4 + length k) q"
  let ?pv = "?pk @ item_layout v" and ?qv = "drop (4 + length v) ?qk"
  have l: "4 + length k + (4 + length v) + length (concat (map encoded_pair ps)) \<le> length q"
    using Cons.prems kv by (simp add: encoded_pair_def)
  have 1: "rbind (put (p @ q) (length p) (u32_le (length k))) (\<lambda>o1. put o1 (length p + 4) k)
      = Inr (?pk @ ?qk)"
    using l by (subst put2_layout) simp_all
  have 2: "rbind (put (?pk @ ?qk) (length ?pk) (u32_le (length v))) (\<lambda>o1. put o1 (length ?pk + 4) v)
      = Inr (?pv @ ?qv)"
    using l by (subst put2_layout) simp_all
  have 3: "write_pairs ps (?pv @ ?qv) (length ?pv) =
      Inr (?pv @ concat (map encoded_pair ps) @ drop (length (concat (map encoded_pair ps))) ?qv)"
    using l by (intro Cons.IH) simp
  have b2: "rbind (put (?pk @ ?qk) (length p + 4 + length k) (u32_le (length v)))
      (\<lambda>o1. put o1 (length p + 4 + length k + 4) v) = Inr (?pv @ ?qv)"
    using 2 by (simp add: ac_simps)
  have b3: "write_pairs ps (?pv @ ?qv) (length p + 4 + length k + 4 + length v) =
      Inr (?pv @ concat (map encoded_pair ps) @ drop (length (concat (map encoded_pair ps))) ?qv)"
    using 3 by (simp add: ac_simps)
  show ?case
    unfolding kv write_pairs_Cons 1 rbind_simps b2 b3
    by (simp add: encoded_pair_def ac_simps)
qed simp

lemma pairs_total:
  "foldl (\<lambda>total (k, v). total + (8 + length k + length v)) n ps = n + length (concat (map encoded_pair ps))"
  by (induction ps arbitrary: n) (auto simp: encoded_pair_def)

lemma packPairs_layout: "packPairs encode ps = Inr (pairs_layout encode ps)"
proof -
  let ?e = "map (\<lambda>(k, v). (encode k, encode v)) ps"
  let ?n = "length (concat (map encoded_pair ?e))"
  have 1: "put (new_buf (4 + ?n)) 0 (u32_le (length ?e)) = Inr (u32_le (length ?e) @ new_buf ?n)"
    using put_append [of 0 "[]" "u32_le (length ?e)" "new_buf (4 + ?n)"] by (simp add: new_buf_def)
  have 2: "write_pairs ?e (u32_le (length ?e) @ new_buf ?n) 4 = Inr (u32_le (length ?e) @ concat (map encoded_pair ?e))"
    using write_pairs_layout [of ?e "new_buf ?n" "u32_le (length ?e)"] by simp
  have 3: "concat (map encoded_pair ?e) = concat (map (pair_layout encode) ps)"
    by (induction ps) (auto simp: encoded_pair_def pair_layout_def)
  show ?thesis
    using 1 2 3 by (simp add: packPairs_def pairs_total pairs_layout_def)
qed

text \<open>A multipart part as the native side packs it.\<close>

definition opt_layout :: "(jsstring \<Rightarrow> bytes) \<Rightarrow> jsstring option \<Rightarrow> bytes" where
  "opt_layout encode v = (case v of None \<Rightarrow> 0 # item_layout [] | Some s \<Rightarrow> 1 # item_layout (encode s))"

definition part_layout :: "(jsstring \<Rightarrow> bytes) \<Rightarrow> multipart_part \<Rightarrow> bytes" where
  "part_layout encode m =
     item_layout (encode (part_name m)) @ opt_layout encode (part_filename m)
       @ opt_layout encode (part_contentType m) @ item_layout (part_data m)"

definition part_ok :: "(jsstring \<Rightarrow> bytes) \<Rightarrow> (jsstring \<Rightarrow> bool) \<Rightarrow> multipart_part \<Rightarrow> bool" where
  "part_ok encode ok m \<longleftrightarrow>
     (\<forall>s \<in> {part_name m} \<union> set_option (part_filename m) \<union> set_option (part_contentType m).
        ok s \<and> length (encode s) < 2 ^ 32) \<and> length (part_data m) < 2 ^ 32"

definition opt_bytes :: "(jsstring \<Rightarrow> bytes) \<Rightarrow> jsstring option \<Rightarrow> bytes" where
  "opt_bytes encode v = (case v of None \<Rightarrow> [] | Some s \<Rightarrow> encode s)"

definition opt_flag :: "jsstring option \<Rightarrow> byte" where
  "opt_flag v = (case v of None \<Rightarrow> 0 | Some _ \<Rightarrow> 1)"

lemma opt_layout_alt: "opt_layout encode v = [opt_flag v] @ item_layout (opt_bytes encode v)"
  by (simp add: opt_layout_def opt_flag_def opt_bytes_def split: option.splits)

lemma rd_opt:
  assumes "length (opt_bytes encode v) < 2 ^ 32" and off: "off = length p"
  shows "byte_at (p @ opt_layout encode v @ q) off = opt_flag v"
    and "rd_bytes (p @ opt_layout encode v @ q) (off + 1)
      = Inr (opt_bytes encode v, length (p @ opt_layout encode v))"
proof -
  show "byte_at (p @ opt_layout encode v @ q) off = opt_flag v"
    by (simp add: byte_at_def opt_layout_alt off)
  show "rd_bytes (p @ opt_layout encode v @ q) (off + 1)
      = Inr (opt_bytes encode v, length (p @ opt_layout encode v))"
    using rd_bytes_layout [OF assms(1), of "p @ [opt_flag v]" q] off by (simp add: opt_layout_alt)
qed

context text_codec
begin

lemma rd_part_layout:
  assumes ok: "part_ok enc dom_ok m"
  shows "rd_part dec (p @ part_layout enc m @ q) (length p)
    = Inr (m, length p + length (part_layout enc m))"
proof -
  let ?n = "item_layout (enc (part_name m))" and ?f = "opt_layout enc (part_filename m)"
  let ?c = "opt_layout enc (part_contentType m)" and ?d = "item_layout (part_data m)"
  let ?bs = "p @ ?n @ ?f @ ?c @ ?d @ q"
  have fl: "length (opt_bytes enc (part_filename m)) < 2 ^ 32"
    and cl: "length (opt_bytes enc (part_contentType m)) < 2 ^ 32"
    using ok by (auto simp: part_ok_def opt_bytes_def split: option.splits)
  have n: "rd_bytes ?bs (length p) = Inr (enc (part_name m), length (p @ ?n))"
    using ok by (subst rd_bytes_layout) (simp_all add: part_ok_def)
  have f: "byte_at ?bs (length (p @ ?n)) = opt_flag (part_filename m)"
      "rd_bytes ?bs (length (p @ ?n) + 1) = Inr (opt_bytes enc (part_filename m), length (p @ ?n @ ?f))"
    using rd_opt [OF fl refl, of "p @ ?n" "?c @ ?d @ q"] by (simp_all add: add.assoc)
  have c: "byte_at ?bs (length (p @ ?n @ ?f)) = opt_flag (part_contentType m)"
      "rd_bytes ?bs (length (p @ ?n @ ?f) + 1)
         = Inr (opt_bytes enc (part_contentType m), length (p @ ?n @ ?f @ ?c))"
    using rd_opt [OF cl refl, of "p @ ?n @ ?f" "?d @ q"] by (simp_all add: add.assoc)
  have d: "rd_bytes ?bs (length (p @ ?n @ ?f @ ?c)) = Inr (part_data m, length (p @ ?n @ ?f @ ?c @ ?d))"
    using ok rd_bytes_layout [of "part_data m" "p @ ?n @ ?f @ ?c" q]
    by (simp add: part_ok_def add.assoc)
  have opt: "(if opt_flag v \<noteq> 0 then Some (dec (opt_bytes enc v)) else None) = v"
    if "\<forall>s \<in> set_option v. dom_ok s" for v
    using that by (cases v) (simp_all add: opt_flag_def opt_bytes_def dec_enc)
  have strs: "dec (enc (part_name m)) = part_name m"
      "(if opt_flag (part_filename m) \<noteq> 0 then Some (dec (opt_bytes enc (part_filename m))) else None)
         = part_filename m"
      "(if opt_flag (part_contentType m) \<noteq> 0 then Some (dec (opt_bytes enc (part_contentType m))) else None)
         = part_contentType m"
    by (use ok in \<open>simp add: part_ok_def dec_enc\<close>, rule opt, use ok in \<open>simp add: part_ok_def\<close>,
        rule opt, use ok in \<open>simp add: part_ok_def\<close>)
  have "rd_part dec ?bs (length p) = Inr (m, length (p @ ?n @ ?f @ ?c @ ?d))"
    unfolding rd_part_def n rbind_simps prod.case Let_def f c d strs by simp
  then show ?thesis by (simp add: part_layout_def)
qed

end

lemma rd_part_bounds: "rd_part dec bs off = Inr (m, off') \<Longrightarrow> off \<le> off' \<and> off' \<le> length bs"
  by (auto simp: rd_part_def rbind_Inr_conv Let_def split: prod.splits dest!: rd_bytes_Inr)

interpretation node_parts:
  item_codec "part_layout node_encodeUtf8" "rd_part node_decodeUtf8" "part_ok node_encodeUtf8 node_text"
proof unfold_locales
  fix m p q bs and off off' :: nat
  show "part_ok node_encodeUtf8 node_text m \<Longrightarrow>
      rd_part node_decodeUtf8 (p @ part_layout node_encodeUtf8 m @ q) (length p)
        = Inr (m, length p + length (part_layout node_encodeUtf8 m))"
    by (rule node.rd_part_layout)
  show "rd_part node_decodeUtf8 bs off = Inr (m, off') \<Longrightarrow> off \<le> off' \<and> off' \<le> length bs"
    by (rule rd_part_bounds)
qed

section \<open>Properties\<close>

lemma rd_bytes_exact:
  assumes "rd_bytes bs off = Inr (x, off')"
  shows "take off' bs = take off bs @ item_layout x"
proof -
  obtain len where h: "readU32 bs off = Inr len" and r: "readSlice bs (off + 4) len = Inr x"
    and o': "off' = off + 4 + len"
    using assms unfolding rd_bytes_def rbind_Inr_conv by auto
  have len: "off + 4 \<le> length bs" "le_nat (take 4 (drop off bs)) = len"
    using h by (auto simp: readU32_def split: if_splits)
  have sl: "off + 4 + len \<le> length bs" "x = take len (drop (off + 4) bs)" "off' = off + 4 + len"
    using r o' by (auto simp: readSlice_def subarray_def split: if_splits)
  have x: "length x = len" using sl by simp
  have "u32_le len = take 4 (drop off bs)"
    using len le_bytes_le_nat [of "take 4 (drop off bs)" 4] by simp
  then have "item_layout x = take 4 (drop off bs) @ take len (drop (off + 4) bs)"
    by (metis item_layout_def x sl(2))
  also have "\<dots> = take (4 + len) (drop off bs)"
    by (simp add: take_add add.commute [of off 4])
  finally show ?thesis by (simp add: sl(3) take_add add.assoc)
qed

lemma read_byte_items_exact:
  "read_items rd_bytes bs off n = Inr (xs, e) \<Longrightarrow> take e bs = take off bs @ concat (map item_layout xs)"
proof (induction n arbitrary: off xs)
  case (Suc n)
  from Suc.prems obtain x off' ys where r: "rd_bytes bs off = Inr (x, off')"
    and rest: "read_items rd_bytes bs off' n = Inr (ys, e)" and xs: "xs = x # ys"
    by (auto simp: rbind_Inr_conv split: prod.splits)
  from Suc.IH [OF rest] rd_bytes_exact [OF r] xs show ?case by simp
qed simp

lemma unpack_layout:
  assumes "length items < 2 ^ 32" and "\<forall>b \<in> set items. length b < 2 ^ 32"
  shows "unpackByteResults (pack_layout items @ rest) = Inr items"
proof -
  have "read_items rd_bytes (u32_le (length items) @ concat (map item_layout items) @ rest)
      (length (u32_le (length items))) (length items)
      = Inr (items, length (u32_le (length items)) + length (concat (map item_layout items)))"
    using assms(2) by (intro byte_items.read_items_layout) simp
  with assms(1) readU32_le [of 0 "[]" "length items"] show ?thesis
    by (simp add: unpackByteResults_def pack_layout_def)
qed

text \<open>
  C5. Packing a batch and unpacking it gives the items back: \<open>unpackByteResults(packBatch(items))\<close>
  is \<open>items\<close> for every batch whose count and item lengths fit the wire's u32 fields, and packing
  never fails.
\<close>

theorem packBatch_roundtrip:
  assumes "length items < 2 ^ 32" and "\<forall>b \<in> set items. length b < 2 ^ 32"
  shows "rbind (packBatch items) unpackByteResults = Inr items"
  using unpack_layout [OF assms, of "[]"] by (simp add: packBatch_layout)

theorem packBatch_roundtrip_witness:
  "rbind (packBatch [[1, 2], [], [3]]) unpackByteResults = Inr [[1, 2], [], [3]]"
  by (rule packBatch_roundtrip) simp_all

text \<open>
  C6. The unpacker accepts only genuine packed batches: whenever a buffer of at least four bytes
  unpacks to some items, the buffer starts with exactly the packed layout of those items, so no
  returned slice can reach past the end of the buffer or overlap a length field.
\<close>

theorem unpackByteResults_exact:
  assumes "unpackByteResults bs = Inr xs" and "4 \<le> length bs"
  shows "\<exists>rest. bs = pack_layout xs @ rest"
proof -
  obtain count e where c: "readU32 bs 0 = Inr count" and r: "read_items rd_bytes bs 4 count = Inr (xs, e)"
    using assms by (auto simp: unpackByteResults_def rbind_Inr_conv split: prod.splits if_splits)
  have n: "length xs = count"
    using byte_items.read_items_bounds [OF r] assms(2) by simp
  have "u32_le count = take 4 bs"
    using c le_bytes_le_nat [of "take 4 bs" 4] assms(2) by (auto simp: readU32_def split: if_splits)
  with read_byte_items_exact [OF r] n have "take e bs = pack_layout xs"
    by (simp add: pack_layout_def)
  then show ?thesis by (metis append_take_drop_id)
qed

theorem unpackByteResults_exact_witness:
  "\<exists>rest. [2, 0, 0, 0, 1, 0, 0, 0, 7, 0, 0, 0, 0, 9 :: byte] = pack_layout [[7], []] @ rest"
  by (rule unpackByteResults_exact) code_simp+

text \<open>
  Pairs survive the wire: \<open>readPairsPacked(packPairs(pairs))\<close> returns the pairs, in order and
  with duplicates, under the Node codec, for strings without unpaired surrogates or a leading U+FEFF
  whose worst-case encodings fit a u32 length.
\<close>

theorem packPairs_roundtrip:
  assumes "length ps < 2 ^ 32"
    and "\<forall>(k, v) \<in> set ps. node_text k \<and> node_text v \<and> 3 * length k < 2 ^ 32 \<and> 3 * length v < 2 ^ 32"
  shows "rbind (packPairs node_encodeUtf8 ps) (readPairsPacked node_decodeUtf8) = Inr ps"
proof -
  have ok: "pair_ok node_encodeUtf8 node_text kv" if "kv \<in> set ps" for kv
  proof -
    obtain k v where kv: "kv = (k, v)" by force
    with assms(2) that have h: "node_text k" "node_text v" "3 * length k < 2 ^ 32" "3 * length v < 2 ^ 32"
      by blast+
    show ?thesis
      unfolding pair_ok_def kv prod.case by (intro conjI h node.enc_u32)
  qed
  have "read_items (rd_pair node_decodeUtf8)
      (u32_le (length ps) @ concat (map (pair_layout node_encodeUtf8) ps) @ [])
      (length (u32_le (length ps))) (length ps)
      = Inr (ps, length (u32_le (length ps)) + length (concat (map (pair_layout node_encodeUtf8) ps)))"
    by (intro node_pairs.read_items_layout ok)
  with assms(1) readU32_le [of 0 "[]" "length ps"] show ?thesis
    by (simp add: packPairs_layout pairs_layout_def readPairsPacked_def)
qed

theorem packPairs_roundtrip_witness:
  "rbind (packPairs node_encodeUtf8 [(js ''a'', js ''1''), (js ''a'', [0xE9])]) (readPairsPacked node_decodeUtf8)
     = Inr [(js ''a'', js ''1''), (js ''a'', [0xE9])]"
  by (rule packPairs_roundtrip) (simp_all add: node_text_def js_def is_high_def is_low_def)

definition multipart_layout :: "(jsstring \<Rightarrow> bytes) \<Rightarrow> multipart_part list list \<Rightarrow> bytes" where
  "multipart_layout encode xs =
     pack_layout (map (\<lambda>ps. u32_le (length ps) @ concat (map (part_layout encode) ps)) xs)"

lemma readMultipartPartsPacked_layout:
  assumes "length ps < 2 ^ 32" and "\<forall>m \<in> set ps. part_ok node_encodeUtf8 node_text m"
  shows "readMultipartPartsPacked node_decodeUtf8
    (u32_le (length ps) @ concat (map (part_layout node_encodeUtf8) ps)) = Inr ps"
proof -
  have "read_items (rd_part node_decodeUtf8)
      (u32_le (length ps) @ concat (map (part_layout node_encodeUtf8) ps) @ [])
      (length (u32_le (length ps))) (length ps)
      = Inr (ps, length (u32_le (length ps)) + length (concat (map (part_layout node_encodeUtf8) ps)))"
    using assms(2) by (intro node_parts.read_items_layout) simp
  with assms(1) readU32_le [of 0 "[]" "length ps"] show ?thesis
    by (simp add: readMultipartPartsPacked_def)
qed

definition multipart_ok :: "multipart_part list \<Rightarrow> bool" where
  "multipart_ok ps \<longleftrightarrow> length ps < 2 ^ 32 \<and> (\<forall>m \<in> set ps. part_ok node_encodeUtf8 node_text m)
     \<and> 4 + length (concat (map (part_layout node_encodeUtf8) ps)) < 2 ^ 32"

lemma rd_multipart_item_bounds:
  "rd_multipart_item dec bs off = Inr (ps, off') \<Longrightarrow> off \<le> off' \<and> off' \<le> length bs"
  by (auto simp: rd_multipart_item_def rbind_Inr_conv split: prod.splits dest!: rd_bytes_Inr)

interpretation node_multipart:
  item_codec "\<lambda>ps. item_layout (u32_le (length ps) @ concat (map (part_layout node_encodeUtf8) ps))"
    "rd_multipart_item node_decodeUtf8" multipart_ok
proof unfold_locales
  fix ps p q bs and off off' :: nat
  let ?l = "u32_le (length ps) @ concat (map (part_layout node_encodeUtf8) ps)"
  assume ok: "multipart_ok ps"
  then have "rd_bytes (p @ item_layout ?l @ q) (length p) = Inr (?l, length p + length (item_layout ?l))"
    by (intro rd_bytes_layout) (simp add: multipart_ok_def)
  with ok show "rd_multipart_item node_decodeUtf8 (p @ item_layout ?l @ q) (length p)
      = Inr (ps, length p + length (item_layout ?l))"
    by (simp add: rd_multipart_item_def readMultipartPartsPacked_layout multipart_ok_def)
next
  fix ps bs and off off' :: nat
  show "rd_multipart_item node_decodeUtf8 bs off = Inr (ps, off') \<Longrightarrow> off \<le> off' \<and> off' \<le> length bs"
    by (rule rd_multipart_item_bounds)
qed

text \<open>
  A packed multipart batch decodes to its parts: names, optional file names and content types
  and the raw data of every part of every item come back unchanged.
\<close>

theorem unpackMultipartParts_roundtrip:
  assumes "length xs < 2 ^ 32" and "\<forall>ps \<in> set xs. multipart_ok ps"
  shows "unpackMultipartParts node_decodeUtf8 (multipart_layout node_encodeUtf8 xs) = Inr xs"
proof -
  let ?enc = "\<lambda>ps. item_layout (u32_le (length ps) @ concat (map (part_layout node_encodeUtf8) ps))"
  have "read_items (rd_multipart_item node_decodeUtf8) (u32_le (length xs) @ concat (map ?enc xs) @ [])
      (length (u32_le (length xs))) (length xs)
      = Inr (xs, length (u32_le (length xs)) + length (concat (map ?enc xs)))"
    using assms(2) by (intro node_multipart.read_items_layout) simp
  with assms(1) readU32_le [of 0 "[]" "length xs"] show ?thesis
    by (simp add: unpackMultipartParts_def multipart_layout_def pack_layout_def comp_def)
qed

theorem unpackMultipartParts_roundtrip_witness:
  "unpackMultipartParts node_decodeUtf8 (multipart_layout node_encodeUtf8
     [[\<lparr>part_name = js ''f'', part_filename = Some (js ''a.txt''), part_contentType = None, part_data = [1]\<rparr>], []])
   = Inr [[\<lparr>part_name = js ''f'', part_filename = Some (js ''a.txt''), part_contentType = None, part_data = [1]\<rparr>], []]"
  by (rule unpackMultipartParts_roundtrip)
    (simp_all add: multipart_ok_def part_ok_def node_text_def js_def is_high_def is_low_def
      node_encodeUtf8_def utf8_encode_def unit_scalar_def enc_scalar_def part_layout_def opt_layout_def)

lemma to_int32_small: "n < 2 ^ 31 \<Longrightarrow> to_int32 n = int n"
  by (simp add: to_int32_def)

lemma bitset_bit_small:
  assumes "i < 2 ^ 31" and "i div 8 < length bits"
  shows "bitset_bit bits i = of_bool (bit (bits ! (i div 8)) (i mod 8))"
proof -
  let ?b = "bits ! (i div 8)"
  have idx: "int i div 8 = int (i div 8)" by simp
  have "odd (unat ?b div 2 ^ (i mod 8)) \<longleftrightarrow> bit (unat ?b) (i mod 8)"
    by (simp add: bit_iff_odd)
  also have "\<dots> \<longleftrightarrow> bit ?b (i mod 8)"
    by (simp add: bit_unsigned_iff)
  finally show ?thesis
    using assms by (simp add: bitset_bit_def to_int32_small idx Let_def mod_2_eq_odd)
qed

text \<open>
  A packed bitset unpacks to one 0/1 value per item, least significant bit first, for any count
  up to \<open>2 ^ 31\<close>; a buffer with fewer than \<open>count\<close> bits is rejected.
\<close>

theorem unpackBitset_bits:
  assumes "count \<le> 2 ^ 31"
  shows "unpackBitset (u32_le count @ bits) =
    (if length bits < (count + 7) div 8 then Inl (RangeError ''packed buffer: truncated bitset'')
     else Inr (map (\<lambda>i. of_bool (bit (bits ! (i div 8)) (i mod 8))) [0..<count]))"
proof -
  have c: "readU32 (u32_le count @ bits) 0 = Inr count"
    using assms readU32_le [of 0 "[]" count bits] by simp
  have "bitset_bit bits i = of_bool (bit (bits ! (i div 8)) (i mod 8))"
    if "i < count" "(count + 7) div 8 \<le> length bits" for i
    using assms that by (intro bitset_bit_small) simp_all
  with c show ?thesis by (simp add: unpackBitset_def Let_def)
qed

theorem unpackBitset_bits_witness:
  "unpackBitset (u32_le 10 @ [5, 2]) = Inr [1, 0, 1, 0, 0, 0, 0, 0, 0, 1]"
  using unpackBitset_bits [of 10 "[5, 2]"] by (simp add: upt_rec)

text \<open>
  \<open>writePack\<close> writes exactly the packed layout at the offset, leaves every other byte of the
  target untouched and returns the offset just past it; a target that is too small is rejected
  before anything is written.
\<close>

theorem writePack_frame:
  "writePack items target offset =
    (if length target < offset + packedTotal items
     then Inl (RangeError ''packed buffer: target too small'')
     else Inr (take offset target @ pack_layout items @ drop (offset + packedTotal items) target,
               offset + packedTotal items))
   \<and> packedTotal items = length (pack_layout items)"
proof (cases "length target < offset + packedTotal items")
  case True
  then show ?thesis by (simp add: writePack_def packedTotal_layout)
next
  case False
  then show ?thesis by (simp add: writePack_layout packedTotal_layout)
qed

text \<open>
  The reused pack scratch is invisible to the callback: whatever stale bytes the pooled buffers
  hold, \<open>withPackScratch\<close> hands \<open>fn\<close> exactly the packed layout and returns its result (or its
  error), the paired variant likewise for both lists, and a buffer is back in the pool afterwards.
\<close>

theorem withPackScratch_transparent:
  "fst (withPackScratch free items fn) = fn (pack_layout items)
   \<and> fst (withPackScratch2 free a b fn2) = fn2 (pack_layout a) (pack_layout b)
   \<and> length (snd (withPackScratch free items fn)) = max 1 (length free)"
  by (simp add: withPackScratch_result withPackScratch2_result withPackScratch_pool)

end
