(* ===== verification/WireObject.thy ===== *)
theory WireObject
  imports Wire
begin

text \<open>
  Folding decoded pairs into an object (\<open>pairsToObject\<close> of \<open>src/src/shared/packed/wire.ts\<close>) and the
  string parsers built on it (\<open>src/src/shared/packed/parsers.ts\<close>).

  The object literal \<open>{}\<close> of the source inherits from \<open>Object.prototype\<close>, so reading an absent
  key may find an inherited member; \<open>object_prototype\<close> lists those names and \<open>Inherited\<close> is what
  such a read returns. The key \<open>__proto__\<close> would replace the prototype itself; folding a pair with
  that key is outside the model and gives \<open>None\<close>.
\<close>

section \<open>Objects with an inherited prototype\<close>

datatype prop_value = Str jsstring | Arr "prop_value list" | Inherited jsstring

definition object_prototype :: "jsstring list" where
  "object_prototype =
     [js ''constructor'', js ''__defineGetter__'', js ''__defineSetter__'', js ''hasOwnProperty'',
      js ''__lookupGetter__'', js ''__lookupSetter__'', js ''isPrototypeOf'',
      js ''propertyIsEnumerable'', js ''toString'', js ''valueOf'', js ''toLocaleString'']"

type_synonym js_object = "(jsstring, prop_value) jsmap"

definition obj_get :: "js_object \<Rightarrow> jsstring \<Rightarrow> prop_value option" where
  "obj_get out key =
     (case map_of out key of
        Some v \<Rightarrow> Some v
      | None \<Rightarrow> (if key \<in> set object_prototype then Some (Inherited key) else None))"

definition fold_pair :: "js_object \<Rightarrow> jsstring \<times> jsstring \<Rightarrow> js_object" where
  "fold_pair out = (\<lambda>(key, value).
     case obj_get out key of
       None \<Rightarrow> AList.update key (Str value) out
     | Some (Arr xs) \<Rightarrow> AList.update key (Arr (xs @ [Str value])) out
     | Some existing \<Rightarrow> AList.update key (Arr [existing, Str value]) out)"

definition pairsToObject :: "(jsstring \<times> jsstring) list \<Rightarrow> js_object option" where
  "pairsToObject pairs =
     (if js ''__proto__'' \<in> set (map fst pairs) then None else Some (foldl fold_pair [] pairs))"

text \<open>What a key collects: nothing, the one value, or the array of all its values in order.\<close>

definition values_of :: "jsstring \<Rightarrow> (jsstring \<times> jsstring) list \<Rightarrow> jsstring list" where
  "values_of key pairs = map snd (filter (\<lambda>p. fst p = key) pairs)"

definition collected :: "prop_value list \<Rightarrow> jsstring list \<Rightarrow> prop_value option" where
  "collected pre vs =
     (case pre @ map Str vs of [] \<Rightarrow> None | [x] \<Rightarrow> (if vs = [] then None else Some x) | xs \<Rightarrow> Some (Arr xs))"

definition inherited_prefix :: "jsstring \<Rightarrow> prop_value list" where
  "inherited_prefix key = (if key \<in> set object_prototype then [Inherited key] else [])"

lemma values_of_snoc [simp]:
  "values_of key (ps @ [(k, v)]) = values_of key ps @ (if k = key then [v] else [])"
  by (simp add: values_of_def)

lemma fold_pair_other: "key \<noteq> fst p \<Longrightarrow> map_of (fold_pair out p) key = map_of out key"
  by (cases p) (simp add: fold_pair_def split: option.splits prop_value.splits)

lemma collected_cases:
  "collected pre [] = None \<or> pre \<noteq> [] \<and> tl pre \<noteq> []"
  "pre = [] \<Longrightarrow> collected pre [v] = Some (Str v)"
  "pre = [x] \<Longrightarrow> vs \<noteq> [] \<Longrightarrow> collected pre vs = Some (Arr (x # map Str vs))"
  "pre = [] \<Longrightarrow> vs \<noteq> [] \<Longrightarrow> collected pre (vs @ [v]) = Some (Arr (map Str (vs @ [v])))"
  by (auto simp: collected_def neq_Nil_conv split: list.splits)

lemma fold_pair_same:
  assumes "map_of out k = collected (inherited_prefix k) vs"
  shows "map_of (fold_pair out (k, v)) k = collected (inherited_prefix k) (vs @ [v])"
proof (cases "k \<in> set object_prototype")
  case True
  then have pre: "inherited_prefix k = [Inherited k]" by (simp add: inherited_prefix_def)
  with assms True show ?thesis
    by (cases vs) (auto simp: fold_pair_def obj_get_def collected_def)
next
  case False
  then have pre: "inherited_prefix k = []" by (simp add: inherited_prefix_def)
  show ?thesis
  proof (cases vs)
    case Nil
    with assms False pre show ?thesis by (simp add: fold_pair_def obj_get_def collected_def)
  next
    case (Cons x xs)
    with assms False pre show ?thesis
      by (cases xs) (simp_all add: fold_pair_def obj_get_def collected_def)
  qed
qed

lemma fold_pairs_collected:
  "map_of (foldl fold_pair [] ps) key = collected (inherited_prefix key) (values_of key ps)"
proof (induction ps rule: rev_induct)
  case Nil
  then show ?case by (simp add: collected_def values_of_def inherited_prefix_def)
next
  case (snoc p ps)
  obtain k v where p: "p = (k, v)" by (cases p)
  show ?case
  proof (cases "k = key")
    case True
    with snoc.IH p show ?thesis by (simp add: fold_pair_same)
  next
    case False
    with snoc.IH p show ?thesis by (simp add: fold_pair_other)
  qed
qed

section \<open>The string parsers\<close>

datatype parse_kind = Query | Cookie | Form

type_synonym ffi_caches = "parse_kind \<Rightarrow> bytes option"

definition scratchFor :: "ffi_caches \<Rightarrow> parse_kind \<Rightarrow> bytes \<Rightarrow> bytes \<times> ffi_caches" where
  "scratchFor caches kind input =
     (let need = length input * 9 + 16
      in case caches kind of
           None \<Rightarrow> (new_buf need, caches(kind \<mapsto> new_buf need))
         | Some s \<Rightarrow> (if length s < need then (new_buf need, caches(kind \<mapsto> new_buf need)) else (s, caches)))"

text \<open>
  The native library is a parameter: \<open>ffi kind input out\<close> returns the number of bytes it wrote (or
  needed) and the new contents of \<open>out\<close>; \<open>addon kind input\<close> returns the packed buffer. \<open>decode\<close>
  is the decoder of the runtime. The scratch keeps what the native side wrote.
\<close>

type_synonym ffi_parse = "parse_kind \<Rightarrow> bytes \<Rightarrow> bytes \<Rightarrow> nat \<times> bytes"

definition decode_object :: "(bytes \<Rightarrow> jsstring) \<Rightarrow> bytes \<Rightarrow> js_object option result" where
  "decode_object decode packed = rbind (readPairsPacked decode packed) (\<lambda>pairs. Inr (pairsToObject pairs))"

definition parsePackedInto ::
  "(bytes \<Rightarrow> jsstring) \<Rightarrow> ffi_parse option \<Rightarrow> ffi_caches \<Rightarrow> parse_kind \<Rightarrow> bytes
     \<Rightarrow> js_object option result option \<times> ffi_caches" where
  "parsePackedInto decode ffi caches kind input =
     (case ffi of
        None \<Rightarrow> (None, caches)
      | Some f \<Rightarrow>
          (let (out, caches') = scratchFor caches kind input;
               (w, out') = f kind input out;
               caches'' = caches'(kind \<mapsto> out')
           in if w = 0 \<or> length out' < w then (None, caches'')
              else (Some (decode_object decode (subarray out' 0 w)), caches'')))"

definition parseVia ::
  "(bytes \<Rightarrow> jsstring) \<Rightarrow> ffi_parse option \<Rightarrow> (parse_kind \<Rightarrow> bytes \<Rightarrow> bytes) \<Rightarrow> ffi_caches
     \<Rightarrow> parse_kind \<Rightarrow> bytes \<Rightarrow> js_object option result \<times> ffi_caches" where
  "parseVia decode ffi addon caches kind input =
     (case parsePackedInto decode ffi caches kind input of
        (Some fast, caches') \<Rightarrow> (fast, caches')
      | (None, caches') \<Rightarrow> (decode_object decode (addon kind input), caches'))"

definition parseQueryString where
  "parseQueryString decode encode ffi addon caches query =
     parseVia decode ffi addon caches Query (encode (query :: jsstring))"

definition parseCookieHeader where
  "parseCookieHeader decode encode ffi addon caches header =
     parseVia decode ffi addon caches Cookie (encode (header :: jsstring))"

definition parseFormBody where
  "parseFormBody decode ffi addon caches body = parseVia decode ffi addon caches Form body"

text \<open>
  The documented contract of the two native transports: both produce the same packed bytes, the
  \<open>Into\<close> variant at the start of the caller's buffer, whose length it never changes, and it reports
  a size beyond the buffer when it does not fit.
\<close>

definition same_wire :: "ffi_parse \<Rightarrow> (parse_kind \<Rightarrow> bytes \<Rightarrow> bytes) \<Rightarrow> bool" where
  "same_wire f addon \<longleftrightarrow>
     (\<forall>kind input out. case f kind input out of
        (w, out') \<Rightarrow> length out' = length out \<and> (w = length (addon kind input) \<or> w = 0)
          \<and> (0 < w \<and> w \<le> length out \<longrightarrow> take w out' = addon kind input))"

definition ref_into :: "(parse_kind \<Rightarrow> bytes \<Rightarrow> bytes) \<Rightarrow> ffi_parse" where
  "ref_into addon kind input out =
     (let p = addon kind input in if length p \<le> length out then (length p, p @ drop (length p) out) else (length p, out))"

section \<open>Properties\<close>

text \<open>
  Folding pairs into an object groups them by name: a name that is no member of
  \<open>Object.prototype\<close> reads as undefined when it has no pair, as its value when it has one, and as the
  array of all its values in order when it has several.
\<close>

theorem pairsToObject_groups:
  assumes "pairsToObject ps = Some out" and "key \<notin> set object_prototype"
  shows "obj_get out key =
    (case values_of key ps of [] \<Rightarrow> None | [v] \<Rightarrow> Some (Str v) | vs \<Rightarrow> Some (Arr (map Str vs)))"
  using assms fold_pairs_collected [of ps key]
  by (auto simp: pairsToObject_def obj_get_def inherited_prefix_def collected_def
      split: if_splits list.splits option.splits)

theorem pairsToObject_groups_witness:
  "obj_get [(js ''a'', Arr [Str (js ''1''), Str (js ''2'')]), (js ''b'', Str (js ''x''))] (js ''a'')
     = Some (Arr (map Str [js ''1'', js ''2'']))"
  using pairsToObject_groups
    [of "[(js ''a'', js ''1''), (js ''b'', js ''x''), (js ''a'', js ''2'')]"
        "[(js ''a'', Arr [Str (js ''1''), Str (js ''2'')]), (js ''b'', Str (js ''x''))]" "js ''a''"]
  by (simp add: pairsToObject_def fold_pair_def obj_get_def values_of_def object_prototype_def js_def)

text \<open>
  A pair whose name is a member of \<open>Object.prototype\<close> is not stored as its string value: the
  first such pair already reads as an array that starts with the inherited member, because the
  folding looks the name up with plain property access.
\<close>

theorem pairsToObject_inherited_name:
  assumes "pairsToObject ps = Some out" and "key \<in> set object_prototype" and "values_of key ps \<noteq> []"
  shows "obj_get out key = Some (Arr (Inherited key # map Str (values_of key ps)))"
  using assms fold_pairs_collected [of ps key]
  by (auto simp: pairsToObject_def obj_get_def inherited_prefix_def collected_def neq_Nil_conv
      split: if_splits)

theorem pairsToObject_inherited_name_witness:
  "obj_get (the (pairsToObject [(js ''toString'', js ''1'')])) (js ''toString'')
     = Some (Arr [Inherited (js ''toString''), Str (js ''1'')])"
  using pairsToObject_inherited_name
    [of "[(js ''toString'', js ''1'')]" "the (pairsToObject [(js ''toString'', js ''1'')])" "js ''toString''"]
  by (simp add: pairsToObject_def object_prototype_def values_of_def js_def)

text \<open>
  The parsers are transport independent: when the two native transports honour their contract, a
  parse over bun:ffi (with whatever stale scratch is cached) and a parse over the addon give the same
  object or the same error, namely that of the addon's packed buffer.
\<close>

theorem parseVia_transport_independent:
  assumes "same_wire f addon"
  shows "fst (parseVia decode (Some f) addon caches kind input) = decode_object decode (addon kind input)
    \<and> fst (parseVia decode None addon caches kind input) = decode_object decode (addon kind input)"
proof -
  obtain out caches' where s: "scratchFor caches kind input = (out, caches')" by force
  obtain w out' where f: "f kind input out = (w, out')" by force
  from assms have "case f kind input out of (w, out') \<Rightarrow> length out' = length out
      \<and> (w = length (addon kind input) \<or> w = 0) \<and> (0 < w \<and> w \<le> length out \<longrightarrow> take w out' = addon kind input)"
    unfolding same_wire_def by (elim allE)
  with f have "length out' = length out" "0 < w \<and> w \<le> length out \<longrightarrow> take w out' = addon kind input"
    by simp_all
  then show ?thesis
    by (auto simp: parseVia_def parsePackedInto_def s f Let_def subarray_def)
qed

lemma same_wire_ref: "same_wire (ref_into addon) addon"
  by (auto simp: same_wire_def ref_into_def Let_def)

theorem parseVia_transport_independent_witness:
  "fst (parseVia node_decodeUtf8 (Some (ref_into (\<lambda>_ _. [1, 0, 0, 0, 1, 0, 0, 0, 97, 0, 0, 0, 0])))
      (\<lambda>_ _. [1, 0, 0, 0, 1, 0, 0, 0, 97, 0, 0, 0, 0]) (\<lambda>_. None) Query [97])
     = decode_object node_decodeUtf8 [1, 0, 0, 0, 1, 0, 0, 0, 97, 0, 0, 0, 0]"
  by (rule parseVia_transport_independent [OF same_wire_ref, THEN conjunct1])

end
