(* ===== verification/BufferPool.thy ===== *)
theory BufferPool
  imports Complex_Main "HOL-Library.Multiset" Prelude
begin

text \<open>
  The reusable buffer pool of \<open>src/src/shared/buffer-pool.ts\<close> and the adaptive estimate of
  \<open>src/src/shared/adaptive.ts\<close> it sizes buffers with.

  Buffers and handles are objects with identity, so the pool's state carries the heap of handle
  objects it ever allocated; a buffer is identified by the value of \<open>created\<close> at its allocation.
  JavaScript numbers that the code averages are rationals here: the estimate is computed exactly,
  rounding of doubles is not modelled. Option values are rationals as well, with the flooring and
  clamping of the constructor written out.
\<close>

section \<open>The adaptive estimate\<close>

record adaptive =
  ae_alpha :: rat
  ae_min :: rat
  ae_max :: "rat option"
  ae_initial :: rat
  ae_value :: rat

text \<open>\<open>None\<close> for \<open>max\<close> is \<open>Infinity\<close>.\<close>

definition new_adaptive :: "rat option \<Rightarrow> rat option \<Rightarrow> rat option \<Rightarrow> rat option \<Rightarrow> adaptive result" where
  "new_adaptive alpha init mn mx =
     (let a = (case alpha of None \<Rightarrow> 1 / 4 | Some x \<Rightarrow> x);
          i = (case init of None \<Rightarrow> 0 | Some x \<Rightarrow> x)
      in if a \<le> 0 \<or> 1 < a then Inl (RangeError ''AdaptiveEstimate: alpha must be in (0,1]'')
         else Inr \<lparr>ae_alpha = a, ae_min = max 0 (case mn of None \<Rightarrow> 0 | Some x \<Rightarrow> x), ae_max = mx,
                   ae_initial = i, ae_value = i\<rparr>)"

definition sample :: "adaptive \<Rightarrow> rat \<Rightarrow> adaptive" where
  "sample e x =
     (let v = (if ae_value e = 0 then x else ae_value e * (1 - ae_alpha e) + x * ae_alpha e)
      in e\<lparr>ae_value :=
           (if v < ae_min e then ae_min e
            else case ae_max e of None \<Rightarrow> v | Some m \<Rightarrow> (if m < v then m else v))\<rparr>)"

definition reset_estimate :: "adaptive \<Rightarrow> adaptive" where
  "reset_estimate e = e\<lparr>ae_value := ae_initial e\<rparr>"

definition in_range :: "adaptive \<Rightarrow> bool" where
  "in_range e \<longleftrightarrow> ae_min e \<le> ae_value e \<and> (case ae_max e of None \<Rightarrow> True | Some m \<Rightarrow> ae_value e \<le> m)"

lemma sample_consts [simp]:
  "ae_alpha (sample e x) = ae_alpha e" "ae_min (sample e x) = ae_min e"
  "ae_max (sample e x) = ae_max e" "ae_initial (sample e x) = ae_initial e"
  by (simp_all add: sample_def Let_def)

lemma fold_sample_consts [simp]:
  "ae_alpha (foldl sample e xs) = ae_alpha e" "ae_min (foldl sample e xs) = ae_min e"
  "ae_max (foldl sample e xs) = ae_max e" "ae_initial (foldl sample e xs) = ae_initial e"
  by (induction xs arbitrary: e) simp_all

lemma sample_in_range: "(\<And>m. ae_max e = Some m \<Longrightarrow> ae_min e \<le> m) \<Longrightarrow> in_range (sample e x)"
  by (auto simp: in_range_def sample_def Let_def split: option.splits)

lemma sample_le:
  assumes "0 < ae_alpha e" "ae_alpha e \<le> 1" "ae_value e \<le> B" "x \<le> B" "ae_min e \<le> B"
  shows "ae_value (sample e x) \<le> B"
proof -
  have "ae_value e * (1 - ae_alpha e) + x * ae_alpha e \<le> B * (1 - ae_alpha e) + B * ae_alpha e"
    using assms by (intro add_mono mult_right_mono) auto
  also have "\<dots> = B" by (simp add: algebra_simps)
  finally show ?thesis using assms by (auto simp: sample_def Let_def split: option.splits)
qed

lemma fold_sample_le:
  assumes "0 < ae_alpha e" "ae_alpha e \<le> 1" "ae_min e \<le> B" "\<forall>x \<in> set xs. x \<le> B" "ae_value e \<le> B"
  shows "ae_value (foldl sample e xs) \<le> B"
  using assms by (induction xs arbitrary: e) (auto simp: sample_le)

section \<open>Handles and the pool\<close>

record u8array =
  uid :: nat
  byteLength :: nat

record pooled_handle =
  h_buffer :: u8array
  h_released :: bool

record buffer_pool =
  free :: "u8array list"
  freeHandles :: "nat list"
  initialSize :: nat
  maxBuffers :: nat
  maxInFlight :: nat
  maxHandles :: nat
  estimate :: "adaptive option"
  created :: nat
  inFlight :: int
  handles :: "pooled_handle list"

record pool_options =
  o_initialSize :: "rat option"
  o_maxBuffers :: "rat option"
  o_maxInFlight :: "rat option"
  o_adaptive :: bool
  o_prefill :: "rat option"
  o_prefillBytes :: "rat option"

definition clamp_floor :: "nat \<Rightarrow> nat \<Rightarrow> rat option \<Rightarrow> nat" where
  "clamp_floor lo dflt v = max lo (case v of None \<Rightarrow> dflt | Some x \<Rightarrow> nat \<lfloor>x\<rfloor>)"

definition new_pool :: "pool_options \<Rightarrow> buffer_pool" where
  "new_pool opts =
     (let isz = clamp_floor 1 131072 (o_initialSize opts);
          mb = clamp_floor 1 16 (o_maxBuffers opts);
          mif = clamp_floor 0 0 (o_maxInFlight opts);
          cap = min (clamp_floor 0 0 (o_prefill opts)) (mb - 1);
          prefill = (case o_prefillBytes opts of None \<Rightarrow> cap | Some b \<Rightarrow> min cap (nat \<lfloor>b / of_nat isz\<rfloor>))
      in \<lparr>free = map (\<lambda>i. \<lparr>uid = i, byteLength = isz\<rparr>) [0..<1 + prefill], freeHandles = [],
          initialSize = isz, maxBuffers = mb, maxInFlight = mif, maxHandles = mb + max 1 mif,
          estimate = (if o_adaptive opts
            then Some \<lparr>ae_alpha = 1 / 4, ae_min = of_nat isz, ae_max = None, ae_initial = 0, ae_value = 0\<rparr>
            else None),
          created = 1 + prefill, inFlight = 0, handles = []\<rparr>)"

definition freeCount :: "buffer_pool \<Rightarrow> nat" where
  "freeCount p = length (free p)"

definition shrink :: "buffer_pool \<Rightarrow> buffer_pool" where
  "shrink p = p\<lparr>free := []\<rparr>"

definition nextSize :: "buffer_pool \<Rightarrow> nat \<Rightarrow> nat" where
  "nextSize p minSize =
     (let flr = (case estimate p of None \<Rightarrow> initialSize p
                 | Some e \<Rightarrow> max (initialSize p) (nat \<lceil>ae_value e\<rceil>))
      in max flr minSize)"

text \<open>The search loops of \<open>take\<close> and \<open>releaseBuffer\<close>.\<close>

fun first_fit :: "nat \<Rightarrow> u8array list \<Rightarrow> nat option" where
  "first_fit minSize [] = None"
| "first_fit minSize (b # bs) =
     (if minSize \<le> byteLength b then Some 0 else map_option Suc (first_fit minSize bs))"

definition largest_index :: "u8array list \<Rightarrow> nat option" where
  "largest_index xs =
     foldl (\<lambda>acc i. case acc of None \<Rightarrow> Some i
              | Some l \<Rightarrow> (if byteLength (xs ! l) < byteLength (xs ! i) then Some i else acc))
       None [0..<length xs]"

definition smallest_index :: "u8array list \<Rightarrow> nat" where
  "smallest_index xs =
     foldl (\<lambda>s i. if byteLength (xs ! i) < byteLength (xs ! s) then i else s) 0 [1..<length xs]"

definition fresh_buffer :: "buffer_pool \<Rightarrow> nat \<Rightarrow> u8array \<times> buffer_pool" where
  "fresh_buffer p n = (\<lparr>uid = created p, byteLength = n\<rparr>, p\<lparr>created := created p + 1\<rparr>)"

definition take_buffer :: "buffer_pool \<Rightarrow> nat \<Rightarrow> u8array \<times> buffer_pool" where
  "take_buffer p0 minSize =
     (let p = p0\<lparr>estimate := map_option (\<lambda>e. sample e (of_nat minSize)) (estimate p0)\<rparr>
      in case first_fit minSize (free p) of
           Some i \<Rightarrow> (free p ! i, p\<lparr>free := swap_remove (free p) i\<rparr>)
         | None \<Rightarrow>
             (let target = nextSize p minSize
              in case largest_index (free p) of
                   Some l \<Rightarrow> fresh_buffer (p\<lparr>free := swap_remove (free p) l\<rparr>) target
                 | None \<Rightarrow> fresh_buffer p target))"

definition releaseBuffer :: "buffer_pool \<Rightarrow> u8array \<Rightarrow> buffer_pool" where
  "releaseBuffer p b =
     (let fr = (if maxBuffers p \<le> length (free p) then swap_remove (free p) (smallest_index (free p)) else free p)
      in p\<lparr>free := fr @ [b]\<rparr>)"

definition acquire :: "buffer_pool \<Rightarrow> rat \<Rightarrow> (nat \<times> buffer_pool) result" where
  "acquire p minSize =
     (if 0 < maxInFlight p \<and> int (maxInFlight p) \<le> inFlight p
      then Inl (RangeError ''BufferPool: maxInFlight exceeded'')
      else
        let (b, p1) = take_buffer p (nat (max 0 \<lfloor>minSize\<rfloor>));
            p2 = p1\<lparr>inFlight := inFlight p1 + 1\<rparr>
        in if freeHandles p2 = []
           then Inr (length (handles p2), p2\<lparr>handles := handles p2 @ [\<lparr>h_buffer = b, h_released = False\<rparr>]\<rparr>)
           else let h = last (freeHandles p2)
                in Inr (h, p2\<lparr>freeHandles := butlast (freeHandles p2),
                             handles := (handles p2)[h := \<lparr>h_buffer = b, h_released = False\<rparr>]\<rparr>))"

definition returnHandle :: "buffer_pool \<Rightarrow> nat \<Rightarrow> buffer_pool" where
  "returnHandle p h =
     (let p1 = releaseBuffer (p\<lparr>inFlight := inFlight p - 1\<rparr>) (h_buffer (handles p ! h))
      in if length (freeHandles p1) < maxHandles p1
         then p1\<lparr>freeHandles := freeHandles p1 @ [h]\<rparr> else p1)"

definition release :: "buffer_pool \<Rightarrow> nat \<Rightarrow> buffer_pool" where
  "release p h =
     (if h_released (handles p ! h) then p
      else returnHandle (p\<lparr>handles := (handles p)[h := (handles p ! h)\<lparr>h_released := True\<rparr>]\<rparr>) h)"

section \<open>The pool's invariant\<close>

text \<open>
  A handle is live from its checkout to its release. Buffers are owned exclusively: the free list
  holds each buffer once, no live handle's buffer is free, and two live handles never share one.
\<close>

definition live :: "buffer_pool \<Rightarrow> nat set" where
  "live p = {h. h < length (handles p) \<and> \<not> h_released (handles p ! h)}"

definition buf_of :: "buffer_pool \<Rightarrow> nat \<Rightarrow> nat" where
  "buf_of p h = uid (h_buffer (handles p ! h))"

definition exclusive :: "buffer_pool \<Rightarrow> bool" where
  "exclusive p \<longleftrightarrow> distinct (map uid (free p)) \<and> (\<forall>b \<in> set (free p). uid b < created p)
     \<and> (\<forall>h \<in> live p. buf_of p h < created p \<and> buf_of p h \<notin> uid ` set (free p))
     \<and> inj_on (buf_of p) (live p)"

definition handles_ok :: "buffer_pool \<Rightarrow> bool" where
  "handles_ok p \<longleftrightarrow> distinct (freeHandles p) \<and> length (freeHandles p) \<le> maxHandles p
     \<and> (\<forall>h \<in> set (freeHandles p). h < length (handles p) \<and> h_released (handles p ! h))"

definition pool_inv :: "buffer_pool \<Rightarrow> bool" where
  "pool_inv p \<longleftrightarrow> exclusive p \<and> handles_ok p \<and> 1 \<le> maxBuffers p \<and> length (free p) \<le> maxBuffers p
     \<and> inFlight p = int (card (live p)) \<and> (0 < maxInFlight p \<longrightarrow> inFlight p \<le> int (maxInFlight p))"

lemma finite_live [simp]: "finite (live p)"
  by (rule finite_subset [of _ "{..<length (handles p)}"]) (auto simp: live_def)

lemma length_swap_remove [simp]: "length (swap_remove xs i) = length xs - 1"
  by (simp add: swap_remove_def Let_def)

lemma mset_swap_remove:
  assumes "i < length xs"
  shows "mset xs = add_mset (xs ! i) (mset (swap_remove xs i))"
proof -
  have ne: "xs \<noteq> []" using assms by auto
  have xs: "mset xs = add_mset (last xs) (mset (butlast xs))"
    using arg_cong [OF append_butlast_last_id [OF ne], of mset] by simp
  show ?thesis
  proof (cases "i < length (butlast xs)")
    case True
    then have "xs ! i = butlast xs ! i" by (simp add: nth_butlast)
    with True xs show ?thesis
      by (simp add: swap_remove_def Let_def mset_update add_mset_commute)
  next
    case False
    with assms have "i = length xs - 1" by simp
    then have "xs ! i = last xs" by (simp add: last_conv_nth ne)
    with False xs show ?thesis by (simp add: swap_remove_def Let_def)
  qed
qed

lemma swap_remove_exclusive:
  assumes "i < length xs" "distinct (map uid xs)"
  shows "distinct (map uid (swap_remove xs i))" "set (swap_remove xs i) \<subseteq> set xs"
    "uid (xs ! i) \<notin> uid ` set (swap_remove xs i)"
proof -
  have m: "mset (map uid xs) = mset (uid (xs ! i) # map uid (swap_remove xs i))"
    using mset_swap_remove [OF assms(1)] by simp
  then have d: "distinct (uid (xs ! i) # map uid (swap_remove xs i))"
    using assms(2) mset_eq_imp_distinct_iff by blast
  then show "distinct (map uid (swap_remove xs i))" "uid (xs ! i) \<notin> uid ` set (swap_remove xs i)" by simp_all
  show "set (swap_remove xs i) \<subseteq> set xs"
    using mset_swap_remove [OF assms(1)] by (metis set_mset_add_mset_insert set_mset_mset subset_insertI)
qed

lemma first_fit_Some: "first_fit m xs = Some i \<Longrightarrow> i < length xs \<and> m \<le> byteLength (xs ! i)"
  by (induction xs arbitrary: i) (auto split: if_splits)

lemma largest_index_Some: "largest_index xs = Some i \<Longrightarrow> i < length xs"
proof -
  have "\<forall>i. foldl (\<lambda>acc i. case acc of None \<Rightarrow> Some i
      | Some l \<Rightarrow> (if byteLength (xs ! l) < byteLength (xs ! i) then Some i else acc)) None [0..<n] = Some i
      \<longrightarrow> i < n" for n
    by (induction n) (auto split: option.splits if_splits)
  then show "largest_index xs = Some i \<Longrightarrow> i < length xs" by (simp add: largest_index_def)
qed

lemma smallest_index_less: "xs \<noteq> [] \<Longrightarrow> smallest_index xs < length xs"
proof -
  have "0 < n \<Longrightarrow> foldl (\<lambda>s i. if byteLength (xs ! i) < byteLength (xs ! s) then i else s) 0 [1..<n] < n" for n
    by (induction n) (auto simp: less_Suc_eq split: if_splits)
  then show "xs \<noteq> [] \<Longrightarrow> smallest_index xs < length xs" by (simp add: smallest_index_def)
qed

text \<open>What \<open>take\<close> hands out: a buffer large enough that nobody owns any more.\<close>

lemma take_buffer_spec:
  assumes ex: "exclusive p" and t: "take_buffer p m = (b, p')"
  shows "m \<le> byteLength b" "distinct (map uid (free p'))" "set (free p') \<subseteq> set (free p)"
    "uid b \<notin> uid ` set (free p')" "uid b < created p'" "uid b \<notin> buf_of p ` live p"
    "created p \<le> created p'" "length (free p') \<le> length (free p)"
    and "handles p' = handles p" "freeHandles p' = freeHandles p" "inFlight p' = inFlight p"
    "maxBuffers p' = maxBuffers p" "maxInFlight p' = maxInFlight p" "maxHandles p' = maxHandles p"
proof -
  define q where "q = p\<lparr>estimate := map_option (\<lambda>e. sample e (of_nat m)) (estimate p)\<rparr>"
  have fresh: "created p \<notin> uid ` set (free p)" "created p \<notin> buf_of p ` live p"
    using ex by (auto simp: exclusive_def)
  have d: "distinct (map uid (free p))" using ex by (simp add: exclusive_def)
  have r: "distinct (map uid (swap_remove (free p) i)) \<and> set (swap_remove (free p) i) \<subseteq> set (free p)
      \<and> uid (free p ! i) \<notin> uid ` set (swap_remove (free p) i) \<and> created p \<notin> uid ` set (swap_remove (free p) i)
      \<and> uid (free p ! i) < created p \<and> uid (free p ! i) \<notin> buf_of p ` live p"
    if "i < length (free p)" for i
  proof -
    have "free p ! i \<in> set (free p)" using that by simp
    then have "uid (free p ! i) < created p" "uid (free p ! i) \<notin> buf_of p ` live p"
      using ex by (force simp: exclusive_def)+
    with swap_remove_exclusive [OF that d] fresh show ?thesis by blast
  qed
  consider (fit) i where "first_fit m (free p) = Some i"
    | (grow) l where "first_fit m (free p) = None" "largest_index (free p) = Some l"
    | (alloc) "first_fit m (free p) = None" "largest_index (free p) = None"
    by (cases "first_fit m (free p)"; cases "largest_index (free p)") auto
  then have "m \<le> byteLength b \<and> distinct (map uid (free p')) \<and> set (free p') \<subseteq> set (free p)
    \<and> uid b \<notin> uid ` set (free p') \<and> uid b < created p' \<and> uid b \<notin> buf_of p ` live p
    \<and> created p \<le> created p' \<and> length (free p') \<le> length (free p) \<and> handles p' = handles p
    \<and> freeHandles p' = freeHandles p \<and> inFlight p' = inFlight p \<and> maxBuffers p' = maxBuffers p
    \<and> maxInFlight p' = maxInFlight p \<and> maxHandles p' = maxHandles p"
  proof cases
    case fit
    with t r [of i] first_fit_Some [OF fit] show ?thesis
      by (auto simp: take_buffer_def Let_def)
  next
    case grow
    with t r [of l] largest_index_Some [OF grow(2)] fresh show ?thesis
      by (simp add: take_buffer_def Let_def fresh_buffer_def nextSize_def) auto
  next
    case alloc
    with t d fresh show ?thesis
      by (simp add: take_buffer_def Let_def fresh_buffer_def nextSize_def) auto
  qed
  then show "m \<le> byteLength b" "distinct (map uid (free p'))" "set (free p') \<subseteq> set (free p)"
    "uid b \<notin> uid ` set (free p')" "uid b < created p'" "uid b \<notin> buf_of p ` live p"
    "created p \<le> created p'" "length (free p') \<le> length (free p)"
    "handles p' = handles p" "freeHandles p' = freeHandles p" "inFlight p' = inFlight p"
    "maxBuffers p' = maxBuffers p" "maxInFlight p' = maxInFlight p" "maxHandles p' = maxHandles p"
    by blast+
qed

text \<open>Checking a handle out, recycled or new.\<close>

lemma checkout_inv:
  assumes inv: "pool_inv p" and t: "take_buffer p m = (b, p1)"
    and guard: "\<not> (0 < maxInFlight p \<and> int (maxInFlight p) \<le> inFlight p)"
    and h: "h < length hs" "hs ! h = \<lparr>h_buffer = b, h_released = False\<rparr>" "h \<notin> live p"
    and same: "\<And>x. x \<noteq> h \<Longrightarrow> x < length hs \<longleftrightarrow> x < length (handles p)"
      "\<And>x. x \<noteq> h \<Longrightarrow> x < length hs \<Longrightarrow> hs ! x = handles p ! x"
    and fh: "distinct fh" "set fh \<subseteq> set (freeHandles p) - {h}" "length fh \<le> length (freeHandles p)"
    and p': "p' = p1\<lparr>inFlight := inFlight p1 + 1, freeHandles := fh, handles := hs\<rparr>"
  shows "pool_inv p' \<and> live p' = insert h (live p) \<and> buf_of p' h = uid b
    \<and> (\<forall>x \<in> live p. buf_of p' x = buf_of p x)"
proof -
  note T = take_buffer_spec [OF _ t]
  have ex: "exclusive p" and ok: "handles_ok p" using inv by (simp_all add: pool_inv_def)
  have l: "live p' = insert h (live p)"
  proof (rule set_eqI)
    fix x show "x \<in> live p' \<longleftrightarrow> x \<in> insert h (live p)"
      using same [of x] h by (cases "x = h") (auto simp: live_def p')
  qed
  have bh: "buf_of p' h = uid b" by (simp add: buf_of_def p' h)
  have old: "buf_of p' x = buf_of p x" if "x \<in> live p" for x
    using that h same [of x] by (cases "x = h") (auto simp: live_def buf_of_def p')
  have "exclusive p'"
    unfolding exclusive_def l
  proof (intro conjI)
    show "distinct (map uid (free p'))" using T [OF ex] by (simp add: p')
    have sub: "free p' = free p1" "created p' = created p1" by (simp_all add: p')
    have le: "n < created p \<Longrightarrow> n < created p1" for n using T(7) [OF ex] by simp
    show "\<forall>b \<in> set (free p'). uid b < created p'"
      using T(3) [OF ex] ex le unfolding exclusive_def sub by blast
    show "\<forall>h \<in> insert h (live p). buf_of p' h < created p' \<and> buf_of p' h \<notin> uid ` set (free p')"
    proof
      fix x assume "x \<in> insert h (live p)"
      then consider "x = h" | "x \<in> live p" by blast
      then show "buf_of p' x < created p' \<and> buf_of p' x \<notin> uid ` set (free p')"
      proof cases
        case 1
        then show ?thesis using T(4,5) [OF ex] by (simp add: bh sub)
      next
        case 2
        then have "buf_of p x < created p" "buf_of p x \<notin> uid ` set (free p)"
          using ex by (simp_all add: exclusive_def)
        then show ?thesis using image_mono [OF T(3) [OF ex], of uid] le old [OF 2] unfolding sub by auto
      qed
    qed
    show "inj_on (buf_of p') (insert h (live p))"
    proof -
      have "inj_on (buf_of p') (live p)"
        using ex old unfolding exclusive_def by (metis (no_types, lifting) inj_on_cong)
      moreover have "buf_of p' h \<notin> buf_of p' ` live p"
        using T(6) [OF ex] old by (simp add: bh image_iff)
      ultimately show ?thesis using h(3) by simp
    qed
  qed
  moreover have "handles_ok p'"
  proof -
    have "y < length hs \<and> h_released (hs ! y)" if "y \<in> set fh" for y
    proof -
      have "y \<noteq> h" "y \<in> set (freeHandles p)" using that fh(2) by auto
      with ok same [of y] show ?thesis by (simp add: handles_ok_def)
    qed
    then show ?thesis using fh ok T [OF ex] by (simp add: handles_ok_def p')
  qed
  moreover have "inFlight p' = int (card (live p'))"
    using inv h T [OF ex] by (simp add: l pool_inv_def) (simp add: p')
  ultimately show ?thesis
    using inv guard T [OF ex] l bh old by (auto simp: pool_inv_def p')
qed

lemma acquire_spec:
  assumes inv: "pool_inv p" and a: "acquire p m = Inr (h, p')"
  shows "pool_inv p' \<and> live p' = insert h (live p) \<and> h \<notin> live p
    \<and> nat \<lfloor>m\<rfloor> \<le> byteLength (h_buffer (handles p' ! h))
    \<and> buf_of p' h \<notin> buf_of p ` live p \<and> (\<forall>x \<in> live p. buf_of p' x = buf_of p x)"
proof -
  obtain b p1 where t: "take_buffer p (nat (max 0 \<lfloor>m\<rfloor>)) = (b, p1)" by force
  have ex: "exclusive p" and ok: "handles_ok p" using inv by (simp_all add: pool_inv_def)
  note T = take_buffer_spec [OF ex t]
  have g: "\<not> (0 < maxInFlight p \<and> int (maxInFlight p) \<le> inFlight p)"
    using a by (auto simp: acquire_def split: if_splits)
  let ?p2 = "p1\<lparr>inFlight := inFlight p1 + 1\<rparr>"
  have main: "pool_inv p' \<and> live p' = insert h (live p) \<and> buf_of p' h = uid b
      \<and> (\<forall>x \<in> live p. buf_of p' x = buf_of p x) \<and> h \<notin> live p \<and> h_buffer (handles p' ! h) = b"
  proof (cases "freeHandles p = []")
    case True
    then have h: "h = length (handles p)"
      and p': "p' = ?p2\<lparr>freeHandles := [], handles := handles p @ [\<lparr>h_buffer = b, h_released = False\<rparr>]\<rparr>"
      using a g t T(9,10) by (auto simp: acquire_def Let_def)
    have "h \<notin> live p" by (simp add: h live_def)
    then have "pool_inv p' \<and> live p' = insert h (live p) \<and> buf_of p' h = uid b
      \<and> (\<forall>x \<in> live p. buf_of p' x = buf_of p x)"
      by (intro checkout_inv [OF inv t g, of h "handles p @ [\<lparr>h_buffer = b, h_released = False\<rparr>]" "[]"])
        (auto simp: h p' nth_append)
    with \<open>h \<notin> live p\<close> show ?thesis by (simp add: h p')
  next
    case False
    let ?hs = "(handles p)[h := \<lparr>h_buffer = b, h_released = False\<rparr>]"
    from False have h: "h = last (freeHandles p)"
      and p': "p' = ?p2\<lparr>freeHandles := butlast (freeHandles p), handles := ?hs\<rparr>"
      using a g t T(9,10) by (auto simp: acquire_def Let_def)
    have hin: "h < length (handles p)" "h_released (handles p ! h)"
      using ok False last_in_set [OF False] by (auto simp: handles_ok_def h)
    then have "h \<notin> live p" by (simp add: live_def)
    have fh: "distinct (butlast (freeHandles p) @ [h])" "set (butlast (freeHandles p)) \<subseteq> set (freeHandles p)"
      using ok False append_butlast_last_id [OF False] by (auto simp: handles_ok_def h dest: in_set_butlastD)
    have "pool_inv p' \<and> live p' = insert h (live p) \<and> buf_of p' h = uid b
      \<and> (\<forall>x \<in> live p. buf_of p' x = buf_of p x)"
      using \<open>h \<notin> live p\<close> hin fh
      by (intro checkout_inv [OF inv t g, of h ?hs "butlast (freeHandles p)"]) (auto simp: p')
    with \<open>h \<notin> live p\<close> hin show ?thesis by (simp add: p')
  qed
  with T(1,6) show ?thesis by auto
qed

lemma releaseBuffer_spec:
  assumes d: "distinct (map uid (b # free p))" and mb: "1 \<le> maxBuffers p" "length (free p) \<le> maxBuffers p"
  shows "distinct (map uid (free (releaseBuffer p b)))" "set (free (releaseBuffer p b)) \<subseteq> insert b (set (free p))"
    "length (free (releaseBuffer p b)) \<le> maxBuffers p" "b \<in> set (free (releaseBuffer p b))"
    "\<exists>fr. releaseBuffer p b = p\<lparr>free := fr\<rparr>"
proof -
  have s: "smallest_index (free p) < length (free p)" if "maxBuffers p \<le> length (free p)"
    using that mb by (intro smallest_index_less) auto
  note sw = swap_remove_exclusive [OF s]
  have sub: "uid ` set (swap_remove (free p) (smallest_index (free p))) \<subseteq> uid ` set (free p)"
    if "maxBuffers p \<le> length (free p)"
    using sw(2) [OF that] d by (intro image_mono) simp
  show "distinct (map uid (free (releaseBuffer p b)))"
    using d sw(1) sub by (auto simp: releaseBuffer_def Let_def)
  show "set (free (releaseBuffer p b)) \<subseteq> insert b (set (free p))"
    using sw(2) d by (auto simp: releaseBuffer_def Let_def)
  show "length (free (releaseBuffer p b)) \<le> maxBuffers p" using mb by (auto simp: releaseBuffer_def Let_def)
  show "b \<in> set (free (releaseBuffer p b))" by (simp add: releaseBuffer_def Let_def)
  show "\<exists>fr. releaseBuffer p b = p\<lparr>free := fr\<rparr>" by (auto simp: releaseBuffer_def Let_def)
qed

lemma release_spec:
  assumes inv: "pool_inv p" and h: "h \<in> live p"
  shows "pool_inv (release p h) \<and> live (release p h) = live p - {h}
    \<and> h_released (handles (release p h) ! h) \<and> h_buffer (handles p ! h) \<in> set (free (release p h))"
proof -
  let ?b = "h_buffer (handles p ! h)"
  let ?hs = "(handles p)[h := (handles p ! h)\<lparr>h_released := True\<rparr>]"
  let ?q = "p\<lparr>handles := ?hs, inFlight := inFlight p - 1\<rparr>"
  have hl: "h < length (handles p)" "\<not> h_released (handles p ! h)" using h by (simp_all add: live_def)
  have ex: "exclusive p" and ok: "handles_ok p" and mb: "1 \<le> maxBuffers p" "length (free p) \<le> maxBuffers p"
    using inv by (simp_all add: pool_inv_def)
  have d: "distinct (map uid (?b # free ?q))" using ex h by (simp add: exclusive_def buf_of_def)
  note R = releaseBuffer_spec [OF d]
  obtain fr where fr: "releaseBuffer ?q ?b = ?q\<lparr>free := fr\<rparr>" using R(5) mb by auto
  have F: "distinct (map uid fr)" "set fr \<subseteq> insert ?b (set (free p))" "length fr \<le> maxBuffers p" "?b \<in> set fr"
    using R(1-4) mb by (simp_all add: fr)
  define fh where "fh = (if length (freeHandles p) < maxHandles p then freeHandles p @ [h] else freeHandles p)"
  have r: "release p h = p\<lparr>handles := ?hs, inFlight := inFlight p - 1, free := fr, freeHandles := fh\<rparr>"
    using hl fr by (simp add: release_def returnHandle_def Let_def fh_def)
  have l: "live (release p h) = live p - {h}"
    using hl by (auto simp: live_def r nth_list_update split: if_splits)
  have old: "buf_of (release p h) x = buf_of p x" for x
    using hl by (cases "x = h") (simp_all add: r buf_of_def)
  have fr_ids: "uid ` set fr \<subseteq> insert (buf_of p h) (uid ` set (free p))"
    using F(2) by (auto simp: buf_of_def)
  have "exclusive (release p h)"
    unfolding exclusive_def l old
  proof (intro conjI ballI)
    show "distinct (map uid (free (release p h)))" using F by (simp add: r)
    fix b assume "b \<in> set (free (release p h))"
    then show "uid b < created (release p h)"
      using F(2) ex h by (auto simp: r exclusive_def buf_of_def)
  next
    fix x assume x: "x \<in> live p - {h}"
    then show "buf_of p x < created (release p h)" using ex by (simp add: exclusive_def r)
    have "buf_of p x \<noteq> buf_of p h" using ex x h by (auto simp: exclusive_def inj_on_def)
    moreover have "buf_of p x \<notin> uid ` set (free p)" using ex x by (simp add: exclusive_def)
    ultimately show "buf_of p x \<notin> uid ` set (free (release p h))" using fr_ids by (auto simp: r)
  next
    show "inj_on (buf_of p) (live p - {h})"
      using ex by (auto simp: exclusive_def inj_on_def)
  qed
  moreover have "handles_ok (release p h)"
    using ok hl by (auto simp: handles_ok_def r fh_def nth_list_update)
  moreover have "inFlight (release p h) = int (card (live (release p h)))"
  proof -
    have "card (live p) > 0" using h by (auto simp: card_gt_0_iff)
    then show ?thesis
      using inv h unfolding l by (simp add: pool_inv_def card_Diff_singleton of_nat_diff) (simp add: r)
  qed
  ultimately show ?thesis
    using inv F hl by (auto simp: pool_inv_def l) (simp_all add: r)
qed

section \<open>The pool as a state machine\<close>

text \<open>
  Any client behaviour is a sequence of checkouts, releases and shrinks. A release may name any
  handle object ever handed out, so double releases and releases of recycled handles are included.
\<close>

inductive pool_step :: "buffer_pool \<Rightarrow> buffer_pool \<Rightarrow> bool" where
  step_acquire: "acquire p m = Inr (h, p') \<Longrightarrow> pool_step p p'"
| step_release: "h < length (handles p) \<Longrightarrow> pool_step p (release p h)"
| step_shrink: "pool_step p (shrink p)"

definition pool_reachable :: "pool_options \<Rightarrow> buffer_pool \<Rightarrow> bool" where
  "pool_reachable opts p \<longleftrightarrow> pool_step\<^sup>*\<^sup>* (new_pool opts) p"

lemma live_released: "h < length (handles p) \<Longrightarrow> h \<notin> live p \<longleftrightarrow> h_released (handles p ! h)"
  by (simp add: live_def)

lemma shrink_inv: "pool_inv p \<Longrightarrow> pool_inv (shrink p)"
  by (auto simp: pool_inv_def exclusive_def handles_ok_def shrink_def live_def buf_of_def inj_on_def)

lemma new_pool_inv: "pool_inv (new_pool opts)"
proof -
  let ?p = "new_pool opts"
  have n: "live ?p = {}" "freeHandles ?p = []" "inFlight ?p = 0" by (simp_all add: live_def new_pool_def Let_def)
  define k where "k = created ?p - 1"
  have k: "created ?p = Suc k" "free ?p = map (\<lambda>i. \<lparr>uid = i, byteLength = initialSize ?p\<rparr>) [0..<Suc k]"
    by (simp_all add: k_def new_pool_def Let_def)
  have "created ?p \<le> maxBuffers ?p"
  proof -
    have "1 \<le> clamp_floor 1 16 (o_maxBuffers opts)" by (simp add: clamp_floor_def)
    then show ?thesis
      by (cases "o_prefillBytes opts") (auto simp: new_pool_def Let_def min_def)
  qed
  have "exclusive ?p" by (auto simp: exclusive_def n k(1,2) comp_def)
  with n k \<open>created ?p \<le> maxBuffers ?p\<close> show ?thesis by (simp add: pool_inv_def handles_ok_def)
qed

lemma pool_step_inv: "pool_step p p' \<Longrightarrow> pool_inv p \<Longrightarrow> pool_inv p'"
proof (induction rule: pool_step.induct)
  case (step_acquire p m h p')
  then show ?case using acquire_spec by blast
next
  case (step_release h p)
  then show ?case
    using release_spec [of p h] live_released [of h p] by (cases "h \<in> live p") (auto simp: release_def)
next
  case (step_shrink p)
  then show ?case by (rule shrink_inv)
qed

lemma pool_reachable_inv: "pool_reachable opts p \<Longrightarrow> pool_inv p"
  unfolding pool_reachable_def
  by (induction rule: rtranclp_induct) (auto intro: new_pool_inv pool_step_inv)

section \<open>The release interface\<close>

text \<open>
  What the holders of a pooled resource rely on (the request runner, the streamed response): a
  release marks the resource released, and releasing a released resource changes nothing.
\<close>

locale once_release =
  fixes rel :: "'s \<Rightarrow> 's"
    and is_released :: "'s \<Rightarrow> bool"
    and ok :: "'s \<Rightarrow> bool"
  assumes rel_released: "ok s \<Longrightarrow> is_released (rel s)"
    and rel_noop: "is_released s \<Longrightarrow> rel s = s"
    and rel_ok: "ok s \<Longrightarrow> ok (rel s)"
begin

lemma rel_idem: "ok s \<Longrightarrow> rel (rel s) = rel s"
  by (rule rel_noop) (rule rel_released)

lemma rel_pow: "ok s \<Longrightarrow> 0 < n \<Longrightarrow> (rel ^^ n) s = rel s"
proof (induction n)
  case (Suc n)
  then show ?case by (cases n) (simp_all add: rel_idem)
qed simp

end

interpretation pool_release:
  once_release "\<lambda>p. release p h" "\<lambda>p. h_released (handles p ! h)" "\<lambda>p. pool_inv p \<and> h < length (handles p)"
  for h
proof unfold_locales
  fix p :: buffer_pool assume ok: "pool_inv p \<and> h < length (handles p)"
  have len: "length (handles (release p h)) = length (handles p)"
    by (simp add: release_def returnHandle_def releaseBuffer_def Let_def)
  show "h_released (handles (release p h) ! h)"
    using ok release_spec [of p h] live_released [of h p] by (cases "h \<in> live p") (auto simp: release_def)
  show "pool_inv (release p h) \<and> h < length (handles (release p h))"
    using ok pool_step_inv [OF step_release, of h p] len by simp
next
  fix p :: buffer_pool assume "h_released (handles p ! h)"
  then show "release p h = p" by (simp add: release_def)
qed

section \<open>Properties\<close>

text \<open>
  C1. Exclusive ownership under every interleaving of checkouts, releases (double releases included)
  and shrinks: no buffer is free while a live handle holds it, no two live handles share a buffer,
  the free list never exceeds \<open>maxBuffers\<close>, the recycled handles never exceed \<open>maxHandles\<close>, and the
  in-flight counter is exactly the number of live handles, at most \<open>maxInFlight\<close> when that is set.
\<close>

theorem pool_exclusive:
  assumes "pool_reachable opts p"
  shows "(\<forall>h \<in> live p. buf_of p h \<notin> uid ` set (free p)) \<and> inj_on (buf_of p) (live p)
    \<and> length (free p) \<le> maxBuffers p \<and> length (freeHandles p) \<le> maxHandles p
    \<and> inFlight p = int (card (live p))
    \<and> (0 < maxInFlight p \<longrightarrow> card (live p) \<le> maxInFlight p)"
  using pool_reachable_inv [OF assms] by (auto simp: pool_inv_def exclusive_def handles_ok_def)

definition demo_options :: pool_options where
  "demo_options = \<lparr>o_initialSize = Some 8, o_maxBuffers = Some 2, o_maxInFlight = Some 2,
     o_adaptive = False, o_prefill = None, o_prefillBytes = None\<rparr>"

definition demo_pool :: buffer_pool where
  "demo_pool = (case acquire (new_pool demo_options) 4 of Inr (_, p) \<Rightarrow> p | Inl _ \<Rightarrow> new_pool demo_options)"

lemma demo_pool_reachable: "pool_reachable demo_options demo_pool"
proof -
  have "pool_step (new_pool demo_options) demo_pool"
    by (rule step_acquire [of _ 4 0])
      (simp add: demo_pool_def demo_options_def new_pool_def acquire_def take_buffer_def clamp_floor_def Let_def)
  then show ?thesis by (simp add: pool_reachable_def)
qed

theorem pool_exclusive_witness:
  "inFlight demo_pool = int (card (live demo_pool)) \<and> length (free demo_pool) \<le> maxBuffers demo_pool"
  using pool_exclusive [OF demo_pool_reachable] by blast

text \<open>
  A checkout either fails with the backpressure error, exactly when \<open>maxInFlight\<close> is set and
  that many handles are live, or hands out a handle that was not live, whose buffer has at least the
  requested size and belongs to no other live handle, without touching the other live handles.
\<close>

theorem acquire_result:
  assumes "pool_reachable opts p"
  shows "case acquire p m of
      Inl e \<Rightarrow> 0 < maxInFlight p \<and> card (live p) = maxInFlight p
    | Inr (h, p') \<Rightarrow> \<not> (0 < maxInFlight p \<and> card (live p) = maxInFlight p)
        \<and> h \<notin> live p \<and> live p' = insert h (live p) \<and> m < of_nat (byteLength (h_buffer (handles p' ! h))) + 1
        \<and> buf_of p' h \<notin> buf_of p ` live p \<and> (\<forall>x \<in> live p. buf_of p' x = buf_of p x)"
proof -
  have inv: "pool_inv p" by (rule pool_reachable_inv [OF assms])
  show ?thesis
  proof (cases "acquire p m")
    case (Inl e)
    with inv show ?thesis by (auto simp: acquire_def pool_inv_def Let_def split: if_splits prod.splits)
  next
    case (Inr r)
    obtain h p' where r: "r = (h, p')" by force
    have g: "\<not> (0 < maxInFlight p \<and> int (maxInFlight p) \<le> inFlight p)"
      using Inr by (auto simp: acquire_def split: if_splits)
    have "\<lfloor>m\<rfloor> \<le> int (byteLength (h_buffer (handles p' ! h)))"
      using acquire_spec [OF inv, of m h p'] Inr r by auto
    then have "m < of_nat (byteLength (h_buffer (handles p' ! h))) + 1"
      by (simp add: floor_le_iff)
    with g inv acquire_spec [OF inv, of m h p'] Inr r show ?thesis by (simp add: pool_inv_def) auto
  qed
qed

theorem acquire_result_witness:
  "case acquire demo_pool 3 of Inl e \<Rightarrow> 0 < maxInFlight demo_pool \<and> card (live demo_pool) = maxInFlight demo_pool
    | Inr (h, p') \<Rightarrow> h \<notin> live demo_pool \<and> live p' = insert h (live demo_pool)
        \<and> 3 < rat_of_nat (byteLength (h_buffer (handles p' ! h))) + 1
        \<and> buf_of p' h \<notin> buf_of demo_pool ` live demo_pool"
  using acquire_result [OF demo_pool_reachable, of 3] by (auto split: sum.splits prod.splits)

text \<open>
  Releasing a live handle makes exactly that handle inactive and its buffer free; any further
  release of it within the same checkout is a no-op, however often it is called.
\<close>

theorem release_once:
  assumes "pool_reachable opts p" and "h \<in> live p" and "0 < n"
  shows "((\<lambda>q. release q h) ^^ n) p = release p h \<and> live (release p h) = live p - {h}
    \<and> h_buffer (handles p ! h) \<in> set (free (release p h)) \<and> inFlight (release p h) = inFlight p - 1"
proof -
  have inv: "pool_inv p" by (rule pool_reachable_inv [OF assms(1)])
  moreover have "h < length (handles p)" using assms(2) by (simp add: live_def)
  ultimately have "((\<lambda>q. release q h) ^^ n) p = release p h"
    using assms(3) by (intro pool_release.rel_pow) simp_all
  moreover have "inFlight (release p h) = inFlight p - 1"
    using assms(2) by (simp add: live_def release_def returnHandle_def releaseBuffer_def Let_def)
  ultimately show ?thesis using release_spec [OF inv assms(2)] by blast
qed

theorem release_once_witness: "live (release demo_pool 0) = live demo_pool - {0}"
proof -
  have "0 \<in> live demo_pool"
    by (simp add: live_def demo_pool_def demo_options_def new_pool_def acquire_def take_buffer_def
        clamp_floor_def Let_def)
  then show ?thesis using release_once [OF demo_pool_reachable _ zero_less_one] by blast
qed

text \<open>
  The adaptive estimate stays in its bounds: after at least one sample it lies in
  \<open>[min, max]\<close> (for \<open>min <= max\<close>), and it never exceeds the largest of its start, the samples and
  \<open>min\<close>, so one outlier cannot push it beyond what was observed.
\<close>

theorem adaptive_bounded:
  assumes "new_adaptive al init mn mx = Inr e" and "xs \<noteq> []"
    and "\<And>m. ae_max e = Some m \<Longrightarrow> ae_min e \<le> m"
    and "\<forall>x \<in> set xs. x \<le> B" and "ae_initial e \<le> B" and "ae_min e \<le> B"
  shows "in_range (foldl sample e xs) \<and> ae_value (foldl sample e xs) \<le> B"
proof -
  have e: "0 < ae_alpha e" "ae_alpha e \<le> 1" "ae_value e = ae_initial e"
    using assms(1) by (auto simp: new_adaptive_def Let_def split: if_splits)
  obtain ys y where xs: "xs = ys @ [y]" using assms(2) by (metis rev_exhaust)
  have "in_range (foldl sample e xs)" unfolding xs foldl_append foldl.simps
    by (rule sample_in_range) (use assms(3) in simp)
  moreover have "ae_value (foldl sample e xs) \<le> B"
    using assms(4-6) e by (intro fold_sample_le) auto
  ultimately show ?thesis by blast
qed

theorem adaptive_bounded_witness:
  "in_range (foldl sample \<lparr>ae_alpha = 1 / 4, ae_min = 8, ae_max = Some 100, ae_initial = 0, ae_value = 0\<rparr> [10, 50])"
  using adaptive_bounded [of None None "Some 8" "Some 100"
      "\<lparr>ae_alpha = 1 / 4, ae_min = 8, ae_max = Some 100, ae_initial = 0, ae_value = 0\<rparr>" "[10, 50]" 50]
  by (simp add: new_adaptive_def)

end
