(* ===== verification/StreamResponse.thy ===== *)
theory StreamResponse
  imports BufferPool
begin

text \<open>
  The streamed response body of \<open>src/src/shared/response.ts\<close>: a body that serves a slice of a pooled
  buffer and gives the buffer's handle back. The closure variables \<open>released\<close> and \<open>timer\<close>, the queue
  and the flags of the \<open>ReadableStream\<close> (the standard's default controller: chunks queue up to a
  high-water mark of one, so \<open>pull\<close> is called whenever the queue is empty and the stream is open)
  and the pool form the state; the step relation interleaves the callbacks with reads and with
  everything the other owners of the pool may do.
\<close>

section \<open>State\<close>

record body_slice =
  sl_buffer :: u8array
  sl_byteLength :: nat

record body_stream =
  bs_handle :: nat
  bs_bytes :: body_slice
  bs_released :: bool
  bs_timer :: bool
  bs_queue :: "body_slice list"
  bs_closeReq :: bool
  bs_closed :: bool
  bs_failed :: bool
  bs_pool :: buffer_pool

section \<open>The stream controller\<close>

text \<open>
  \<open>enqueue\<close> and \<open>close\<close> throw a \<open>TypeError\<close> on a stream that is closed or closing; \<open>bs_failed\<close> records
  that a callback ended with such an error.
\<close>

definition controller_open :: "body_stream \<Rightarrow> bool" where
  "controller_open s \<longleftrightarrow> \<not> bs_closeReq s \<and> \<not> bs_closed s"

definition controller_close :: "body_stream \<Rightarrow> body_stream" where
  "controller_close s =
     (if controller_open s
      then s\<lparr>bs_closeReq := True, bs_closed := (bs_queue s = [])\<rparr>
      else s\<lparr>bs_failed := True\<rparr>)"

definition controller_enqueue :: "body_stream \<Rightarrow> body_slice \<Rightarrow> body_stream" where
  "controller_enqueue s c =
     (if controller_open s then s\<lparr>bs_queue := bs_queue s @ [c]\<rparr> else s\<lparr>bs_failed := True\<rparr>)"

definition should_pull :: "body_stream \<Rightarrow> bool" where
  "should_pull s \<longleftrightarrow> controller_open s \<and> bs_queue s = []"

definition read_chunk :: "body_stream \<Rightarrow> body_stream" where
  "read_chunk s =
     (case bs_queue s of [] \<Rightarrow> s
      | c # cs \<Rightarrow> s\<lparr>bs_queue := cs, bs_closed := (bs_closed s \<or> bs_closeReq s \<and> cs = [])\<rparr>)"

section \<open>The callbacks of the response\<close>

definition release_body :: "body_stream \<Rightarrow> body_stream" where
  "release_body s =
     (if bs_released s then s
      else s\<lparr>bs_released := True, bs_timer := False, bs_pool := release (bs_pool s) (bs_handle s)\<rparr>)"

definition start_body :: "nat \<Rightarrow> body_stream \<Rightarrow> body_stream" where
  "start_body timeoutMs s = (if 0 < timeoutMs then s\<lparr>bs_timer := True\<rparr> else s)"

definition timer_body :: "body_stream \<Rightarrow> body_stream" where
  "timer_body s = (if bs_released s then s else controller_close (release_body s))"

definition pull_body :: "body_stream \<Rightarrow> body_stream" where
  "pull_body s =
     (if bs_released s then controller_close s
      else release_body (controller_close (controller_enqueue s (bs_bytes s))))"

definition cancel_body :: "body_stream \<Rightarrow> body_stream" where
  "cancel_body s = release_body (s\<lparr>bs_queue := [], bs_closed := True\<rparr>)"

definition pooledBodyResponse :: "buffer_pool \<Rightarrow> nat \<Rightarrow> body_slice \<Rightarrow> nat \<Rightarrow> buffer_pool + body_stream" where
  "pooledBodyResponse p h bytes timeoutMs =
     (if sl_byteLength bytes = 0 then Inl (release p h)
      else Inr (start_body timeoutMs
        \<lparr>bs_handle = h, bs_bytes = bytes, bs_released = False, bs_timer = False, bs_queue = [],
         bs_closeReq = False, bs_closed = False, bs_failed = False, bs_pool = p\<rparr>))"

section \<open>Interleavings\<close>

text \<open>
  Other owners may check out and release at any time; the only thing they do not do is release the
  handle that this response still owns. Once it is given back the pool may hand the same handle
  object to someone else, who then releases it.
\<close>

inductive resp_step :: "body_stream \<Rightarrow> body_stream \<Rightarrow> bool" where
  rs_pull: "should_pull s \<Longrightarrow> resp_step s (pull_body s)"
| rs_read: "resp_step s (read_chunk s)"
| rs_timer: "bs_timer s \<Longrightarrow> resp_step s (timer_body (s\<lparr>bs_timer := False\<rparr>))"
| rs_cancel: "\<not> bs_closed s \<Longrightarrow> resp_step s (cancel_body s)"
| rs_acquire: "acquire (bs_pool s) m = Inr (h, p) \<Longrightarrow> resp_step s (s\<lparr>bs_pool := p\<rparr>)"
| rs_release: "h < length (handles (bs_pool s)) \<Longrightarrow> bs_released s \<or> h \<noteq> bs_handle s \<Longrightarrow>
    resp_step s (s\<lparr>bs_pool := release (bs_pool s) h\<rparr>)"
| rs_shrink: "resp_step s (s\<lparr>bs_pool := shrink (bs_pool s)\<rparr>)"

section \<open>The invariant\<close>

definition resp_inv :: "body_stream \<Rightarrow> bool" where
  "resp_inv s \<longleftrightarrow> pool_inv (bs_pool s) \<and> \<not> bs_failed s
     \<and> (bs_released s \<longleftrightarrow> \<not> controller_open s)
     \<and> (bs_queue s \<noteq> [] \<longrightarrow> bs_released s \<and> bs_queue s = [bs_bytes s] \<and> \<not> bs_closed s)
     \<and> (bs_released s \<longrightarrow> \<not> bs_timer s)
     \<and> (\<not> bs_released s \<longrightarrow> bs_handle s \<in> live (bs_pool s)
          \<and> buf_of (bs_pool s) (bs_handle s) = uid (sl_buffer (bs_bytes s)))"

lemma buf_of_release: "h < length (handles p) \<Longrightarrow> buf_of (release p h) x = buf_of p x"
  by (cases "x = h") (simp_all add: release_def returnHandle_def releaseBuffer_def Let_def buf_of_def)

lemma live_bound: "h \<in> live p \<Longrightarrow> h < length (handles p)"
  by (simp add: live_def)

lemma release_live:
  assumes "pool_inv p" and "h < length (handles p)"
  shows "pool_inv (release p h) \<and> live (release p h) = live p - {h}"
proof (cases "h \<in> live p")
  case True
  with release_spec [OF assms(1)] show ?thesis by blast
next
  case False
  with assms live_released [of h p] show ?thesis by (simp add: release_def)
qed

lemma live_shrink: "live (shrink p) = live p \<and> buf_of (shrink p) x = buf_of p x"
  by (simp add: live_def buf_of_def shrink_def)

lemmas body_defs = controller_open_def controller_close_def controller_enqueue_def release_body_def
  timer_body_def pull_body_def cancel_body_def

lemma resp_inv_callbacks:
  assumes inv: "resp_inv s"
  shows "should_pull s \<Longrightarrow> resp_inv (pull_body s)"
    and "bs_timer s \<Longrightarrow> resp_inv (timer_body (s\<lparr>bs_timer := False\<rparr>))"
    and "\<not> bs_closed s \<Longrightarrow> resp_inv (cancel_body s)"
    and "resp_inv (read_chunk s)"
proof -
  have rel: "pool_inv (release (bs_pool s) (bs_handle s))" if "\<not> bs_released s"
    using inv that release_live [OF _ live_bound] by (simp add: resp_inv_def)
  show "should_pull s \<Longrightarrow> resp_inv (pull_body s)"
    using inv rel by (auto simp: resp_inv_def should_pull_def body_defs)
  show "bs_timer s \<Longrightarrow> resp_inv (timer_body (s\<lparr>bs_timer := False\<rparr>))"
    using inv rel by (auto simp: resp_inv_def body_defs)
  show "\<not> bs_closed s \<Longrightarrow> resp_inv (cancel_body s)"
    using inv rel by (auto simp: resp_inv_def body_defs)
  show "resp_inv (read_chunk s)"
    using inv by (auto simp: resp_inv_def read_chunk_def body_defs split: list.split)
qed

lemma resp_inv_pool:
  assumes inv: "resp_inv s" and p: "pool_inv p"
    and keep: "\<not> bs_released s \<Longrightarrow> bs_handle s \<in> live p \<and> buf_of p (bs_handle s) = buf_of (bs_pool s) (bs_handle s)"
  shows "resp_inv (s\<lparr>bs_pool := p\<rparr>)"
  using inv p keep by (auto simp: resp_inv_def controller_open_def)

lemma resp_step_inv: "resp_step s t \<Longrightarrow> resp_inv s \<Longrightarrow> resp_inv t"
proof (induction rule: resp_step.induct)
  case (rs_acquire s m h p)
  then have inv: "pool_inv (bs_pool s)" by (simp add: resp_inv_def)
  have a: "pool_inv p \<and> live p = insert h (live (bs_pool s))
      \<and> (\<forall>x \<in> live (bs_pool s). buf_of p x = buf_of (bs_pool s) x)"
    using acquire_spec [OF inv rs_acquire(1)] by blast
  show ?case
  proof (rule resp_inv_pool [OF rs_acquire(2)])
    show "pool_inv p" using a by blast
    assume "\<not> bs_released s"
    then have "bs_handle s \<in> live (bs_pool s)" using rs_acquire(2) by (simp add: resp_inv_def)
    with a show "bs_handle s \<in> live p \<and> buf_of p (bs_handle s) = buf_of (bs_pool s) (bs_handle s)" by simp
  qed
next
  case (rs_release h s)
  then have inv: "pool_inv (bs_pool s)" by (simp add: resp_inv_def)
  show ?case
    using rs_release release_live [OF inv rs_release(1)]
    by (intro resp_inv_pool) (auto simp: buf_of_release resp_inv_def)
next
  case (rs_shrink s)
  then show ?case
    by (intro resp_inv_pool) (auto simp: live_shrink resp_inv_def intro: shrink_inv)
qed (simp_all add: resp_inv_callbacks)

lemma resp_reach_inv:
  assumes "resp_step\<^sup>*\<^sup>* s t" and "resp_inv s"
  shows "resp_inv t"
  using assms by (induction rule: rtranclp_induct) (auto intro: resp_step_inv)

lemma resp_start_inv:
  assumes "pool_inv p" and "h \<in> live p" and "buf_of p h = uid (sl_buffer bytes)"
    and "pooledBodyResponse p h bytes t = Inr s"
  shows "resp_inv s"
  using assms by (auto simp: pooledBodyResponse_def start_body_def resp_inv_def controller_open_def split: if_splits)

section \<open>Properties\<close>


definition demo_slice :: body_slice where
  "demo_slice = \<lparr>sl_buffer = \<lparr>uid = 0, byteLength = 8\<rparr>, sl_byteLength = 4\<rparr>"

definition demo_stream :: body_stream where
  "demo_stream = (case pooledBodyResponse demo_pool 0 demo_slice 30 of Inr s \<Rightarrow> s)"

lemmas demo_unfold = demo_pool_def demo_options_def new_pool_def acquire_def take_buffer_def clamp_floor_def Let_def


text \<open>
  The queued chunk is not protected: \<open>pull\<close> enqueues a slice that aliases the pooled buffer and
  gives the handle back before any consumer has read the chunk, so the very next checkout may
  receive the same buffer while the unread chunk still refers to it.
\<close>

theorem queued_chunk_reusable:
  "should_pull demo_stream \<and> bs_queue (pull_body demo_stream) = [demo_slice]
   \<and> (\<exists>h p. acquire (bs_pool (pull_body demo_stream)) 4 = Inr (h, p)
        \<and> buf_of p h = uid (sl_buffer demo_slice))"
  by (simp add: demo_stream_def pooledBodyResponse_def demo_slice_def start_body_def should_pull_def
      body_defs demo_unfold release_def returnHandle_def releaseBuffer_def buf_of_def swap_remove_def)

end
