(* ===== verification/LoaderCache.thy ===== *)
theory LoaderCache
  imports Complex_Main Prelude
begin

text \<open>
  The pieces the loader dispatches with: the bounded LRU cache of \<open>src/src/loader/batch.ts\<close> and the
  adaptive scalar-or-batch cost model of \<open>src/src/loader/cost.ts\<close>.

  The cache is abstracted by the list of its keys from the least to the most recently used, and the
  locale \<open>bounded_cache\<close> states what the loader relies on.
\<close>

section \<open>The cost model\<close>

record cost_model =
  cm_adaptive :: bool
  cm_batchMin :: rat
  cm_scalarPerItemNs :: rat
  cm_batchPerItemNs :: rat
  cm_samples :: nat

definition clampBatchMin :: "rat \<Rightarrow> rat" where
  "clampBatchMin v = max 2 (min 8 v)"

definition createCostModel :: "bool \<Rightarrow> rat option \<Rightarrow> cost_model" where
  "createCostModel adpt bm =
     \<lparr>cm_adaptive = adpt, cm_batchMin = clampBatchMin (case bm of None \<Rightarrow> 2 | Some b \<Rightarrow> b),
      cm_scalarPerItemNs = 0, cm_batchPerItemNs = 0, cm_samples = 0\<rparr>"

definition ewma :: "rat \<Rightarrow> rat \<Rightarrow> rat" where
  "ewma prev nxt = (if prev = 0 then nxt else prev * (1 - 3 / 10) + nxt * (3 / 10))"

definition decide :: "cost_model \<Rightarrow> nat \<Rightarrow> bool" where
  "decide cm n = (if n \<le> 1 then False else cm_batchMin cm \<le> of_nat n)"

definition per_item :: "nat \<Rightarrow> rat \<Rightarrow> rat" where
  "per_item n elapsedNs = (if 0 < n then elapsedNs / of_nat n else elapsedNs)"

definition recordScalar :: "cost_model \<Rightarrow> nat \<Rightarrow> rat \<Rightarrow> cost_model" where
  "recordScalar cm n elapsedNs =
     (let perItem = per_item n elapsedNs;
          cm1 = cm\<lparr>cm_samples := cm_samples cm + 1,
                   cm_scalarPerItemNs := ewma (cm_scalarPerItemNs cm) perItem\<rparr>
      in if cm_adaptive cm \<and> 2 \<le> n \<and> 0 < cm_batchPerItemNs cm \<and> perItem < cm_batchPerItemNs cm * (8 / 10)
         then cm1\<lparr>cm_batchMin := clampBatchMin (cm_batchMin cm + 1)\<rparr> else cm1)"

definition recordBatch :: "cost_model \<Rightarrow> nat \<Rightarrow> rat \<Rightarrow> cost_model" where
  "recordBatch cm n elapsedNs =
     (let perItem = per_item n elapsedNs;
          cm1 = cm\<lparr>cm_samples := cm_samples cm + 1,
                   cm_batchPerItemNs := ewma (cm_batchPerItemNs cm) perItem\<rparr>
      in if cm_adaptive cm \<and> 0 < cm_scalarPerItemNs cm
         then (if cm_scalarPerItemNs cm * (12 / 10) < perItem
               then cm1\<lparr>cm_batchMin := clampBatchMin (cm_batchMin cm + 1)\<rparr>
               else if perItem < cm_scalarPerItemNs cm * (8 / 10)
               then cm1\<lparr>cm_batchMin := clampBatchMin (cm_batchMin cm - 1)\<rparr> else cm1)
         else cm1)"

inductive cost_reachable :: "cost_model \<Rightarrow> bool" where
  cost_new: "cost_reachable (createCostModel a b)"
| cost_scalar: "cost_reachable cm \<Longrightarrow> cost_reachable (recordScalar cm n e)"
| cost_batch: "cost_reachable cm \<Longrightarrow> cost_reachable (recordBatch cm n e)"

lemma clampBatchMin_bounds [simp]: "2 \<le> clampBatchMin v" "clampBatchMin v \<le> 8"
  by (simp_all add: clampBatchMin_def)

lemma cost_batchMin_bounds: "cost_reachable cm \<Longrightarrow> 2 \<le> cm_batchMin cm \<and> cm_batchMin cm \<le> 8"
  by (induction rule: cost_reachable.induct)
    (simp_all add: createCostModel_def recordScalar_def recordBatch_def Let_def)

section \<open>The LRU cache\<close>

record ('k, 'v) lru =
  l_max :: int
  l_map :: "('k, 'v) jsmap"
  l_evictions :: nat
  l_hits :: nat

definition createLruCache :: "int \<Rightarrow> ('k, 'v) lru" where
  "createLruCache maxKeys = \<lparr>l_max = maxKeys, l_map = [], l_evictions = 0, l_hits = 0\<rparr>"

text \<open>With \<open>maxKeys <= 0\<close> the cache is \<open>NULL_CACHE\<close>: reads miss, writes are dropped.\<close>

definition lru_get :: "('k, 'v) lru \<Rightarrow> 'k \<Rightarrow> 'v option \<times> ('k, 'v) lru" where
  "lru_get c key =
     (if l_max c \<le> 0 then (None, c)
      else case map_of (l_map c) key of
        None \<Rightarrow> (None, c)
      | Some v \<Rightarrow> (Some v, c\<lparr>l_hits := l_hits c + 1, l_map := AList.update key v (AList.delete key (l_map c))\<rparr>))"

definition lru_set :: "('k, 'v) lru \<Rightarrow> 'k \<Rightarrow> 'v \<Rightarrow> ('k, 'v) lru" where
  "lru_set c key v =
     (if l_max c \<le> 0 then c
      else let m1 = (if map_of (l_map c) key \<noteq> None then AList.delete key (l_map c) else l_map c);
               m2 = AList.update key v m1
           in if l_max c < int (length m2)
              then (case m2 of
                      [] \<Rightarrow> c\<lparr>l_map := m2\<rparr>
                    | (oldest, _) # _ \<Rightarrow> c\<lparr>l_map := AList.delete oldest m2, l_evictions := l_evictions c + 1\<rparr>)
              else c\<lparr>l_map := m2\<rparr>)"

definition lru_clear :: "('k, 'v) lru \<Rightarrow> ('k, 'v) lru" where
  "lru_clear c = (if l_max c \<le> 0 then c else c\<lparr>l_map := []\<rparr>)"

definition lru_size :: "('k, 'v) lru \<Rightarrow> nat" where
  "lru_size c = length (l_map c)"

definition lru_ok :: "('k, 'v) lru \<Rightarrow> bool" where
  "lru_ok c \<longleftrightarrow> jsmap_ok (l_map c) \<and> int (length (l_map c)) \<le> max 0 (l_max c)"

text \<open>The reference: the entries in recency order, the key in question moved to or put at the end.\<close>

definition touch :: "'k \<Rightarrow> 'v \<Rightarrow> ('k \<times> 'v) list \<Rightarrow> ('k \<times> 'v) list" where
  "touch k v m = filter (\<lambda>e. fst e \<noteq> k) m @ [(k, v)]"

lemma alist_delete_filter: "AList.delete k m = filter (\<lambda>e. fst e \<noteq> k) m"
  by (auto simp: AList.delete_eq case_prod_unfold intro: filter_cong)

lemma delete_update_touch: "AList.update k v (AList.delete k m) = touch k v m"
  by (subst update_absent) (auto simp: touch_def alist_delete_filter)

lemma touch_ok: "jsmap_ok m \<Longrightarrow> jsmap_ok (touch k v m)"
  unfolding delete_update_touch [symmetric] by simp

lemma length_touch:
  "jsmap_ok m \<Longrightarrow> length (touch k v m) = (if k \<in> fst ` set m then length m else Suc (length m))"
proof -
  assume m: "jsmap_ok m"
  show ?thesis
  proof (cases "k \<in> fst ` set m")
    case True
    then have "map_of m k \<noteq> None" by (simp add: map_of_eq_None_iff)
    with length_delete_present [OF m] True show ?thesis
      by (simp add: touch_def alist_delete_filter)
  next
    case False
    then have "filter (\<lambda>e. fst e \<noteq> k) m = m" by (auto simp: filter_id_conv)
    with False show ?thesis by (simp add: touch_def)
  qed
qed

lemma lru_get_ref:
  "0 < l_max c \<Longrightarrow> map_of (l_map c) k = Some v \<Longrightarrow>
     lru_get c k = (Some v, c\<lparr>l_hits := l_hits c + 1, l_map := touch k v (l_map c)\<rparr>)"
  by (simp add: lru_get_def delete_update_touch)

lemma lru_set_map:
  assumes "lru_ok c" and "0 < l_max c"
  shows "l_map (lru_set c k v) =
    (if l_max c < int (length (touch k v (l_map c))) then tl (touch k v (l_map c)) else touch k v (l_map c))"
proof -
  have ok: "jsmap_ok (l_map c)" using assms by (simp add: lru_ok_def)
  have m2: "AList.update k v (if map_of (l_map c) k \<noteq> None then AList.delete k (l_map c) else l_map c) = touch k v (l_map c)"
    using delete_absent [of k "l_map c"] delete_update_touch [of k v "l_map c"]
    by (auto simp: map_of_eq_None_iff image_iff)
  obtain e es where t: "touch k v (l_map c) = e # es" by (cases "touch k v (l_map c)") (auto simp: touch_def)
  obtain a b where e: "e = (a, b)" by force
  have "jsmap_ok ((a, b) # es)" using touch_ok [OF ok, of k v] by (simp add: t e)
  then have "AList.delete a ((a, b) # es) = es" by (rule delete_first_key)
  then show ?thesis using assms(2) unfolding lru_set_def Let_def m2 unfolding t e by simp
qed

lemma lru_set_max [simp]: "l_max (lru_set c k v) = l_max c"
  by (simp add: lru_set_def Let_def split: list.splits)

lemma lru_get_max [simp]: "l_max (snd (lru_get c k)) = l_max c"
  by (simp add: lru_get_def split: option.splits)

lemma lru_set_ok: "lru_ok c \<Longrightarrow> lru_ok (lru_set c k v)"
proof (cases "0 < l_max c")
  case True
  assume c: "lru_ok c"
  then have ok: "jsmap_ok (l_map c)" by (simp add: lru_ok_def)
  have "length (touch k v (l_map c)) \<le> Suc (length (l_map c))" by (simp add: length_touch [OF ok])
  then have "int (length (l_map (lru_set c k v))) \<le> l_max c"
    using c True by (auto simp: lru_set_map lru_ok_def)
  with True touch_ok [OF ok, of k v] show ?thesis by (auto simp: lru_ok_def lru_set_map [OF c True])
qed (simp add: lru_set_def)

lemma lru_get_ok: "lru_ok c \<Longrightarrow> lru_ok (snd (lru_get c k))"
proof (cases "0 < l_max c \<and> map_of (l_map c) k \<noteq> None")
  case True
  assume c: "lru_ok c"
  then have ok: "jsmap_ok (l_map c)" by (simp add: lru_ok_def)
  obtain v where v: "map_of (l_map c) k = Some v" using True by auto
  then have "k \<in> fst ` set (l_map c)" by (metis domI dom_map_of_conv_image_fst)
  then have "length (touch k v (l_map c)) = length (l_map c)" by (simp add: length_touch [OF ok])
  with True v c touch_ok [OF ok, of k v] show ?thesis by (simp add: lru_get_ref lru_ok_def)
qed (auto simp: lru_get_def split: option.splits)

section \<open>The cache interface\<close>

locale bounded_cache =
  fixes get :: "'c \<Rightarrow> 'k \<Rightarrow> 'v option \<times> 'c"
    and put :: "'c \<Rightarrow> 'k \<Rightarrow> 'v \<Rightarrow> 'c"
    and entries :: "'c \<Rightarrow> 'k \<rightharpoonup> 'v"
    and ok :: "'c \<Rightarrow> bool"
  assumes get_ok: "ok c \<Longrightarrow> ok (snd (get c k))"
    and put_ok: "ok c \<Longrightarrow> ok (put c k v)"
    and get_value: "ok c \<Longrightarrow> fst (get c k) = entries c k"
    and get_entries: "ok c \<Longrightarrow> entries (snd (get c k)) = entries c"
    and put_entries: "ok c \<Longrightarrow> entries (put c k v) \<subseteq>\<^sub>m (entries c)(k \<mapsto> v)"
begin

lemma get_sound:
  assumes "ok c" and "\<And>k v. entries c k = Some v \<Longrightarrow> P k v" and "fst (get c k) = Some v"
  shows "P k v"
  using assms get_value by metis

lemma put_sound:
  assumes "ok c" and "\<And>k v. entries c k = Some v \<Longrightarrow> P k v" and "P k v" and "entries (put c k v) k' = Some v'"
  shows "P k' v'"
proof -
  have "((entries c)(k \<mapsto> v)) k' = Some v'"
    using put_entries [OF assms(1), of k v] assms(4) by (auto simp: map_le_def dom_def)
  with assms(2,3) show ?thesis by (auto split: if_splits)
qed

end

definition lru_entries :: "('k, 'v) lru \<Rightarrow> 'k \<rightharpoonup> 'v" where
  "lru_entries c = (if l_max c \<le> 0 then Map.empty else map_of (l_map c))"

lemma map_of_touch: "map_of (touch k v m) = (map_of m)(k \<mapsto> v)"
  unfolding delete_update_touch [symmetric] by (rule ext) (simp add: update_conv' delete_conv')

lemma map_of_tl_le: "jsmap_ok m \<Longrightarrow> map_of (tl m) \<subseteq>\<^sub>m map_of m"
proof (cases m)
  case (Cons e es)
  assume "jsmap_ok m"
  then have "map_of es (fst e) = None" by (simp add: Cons jsmap_ok_def map_of_eq_None_iff)
  then show ?thesis by (cases e) (auto simp: Cons map_le_def)
qed simp

interpretation lru_cache: bounded_cache lru_get lru_set lru_entries lru_ok
proof unfold_locales
  fix c :: "('k, 'v) lru" and k v assume c: "lru_ok c"
  show "lru_ok (snd (lru_get c k))" by (rule lru_get_ok [OF c])
  show "lru_ok (lru_set c k v)" by (rule lru_set_ok [OF c])
  show "fst (lru_get c k) = lru_entries c k"
    by (simp add: lru_get_def lru_entries_def split: option.splits)
  show "lru_entries (snd (lru_get c k)) = lru_entries c"
    by (auto simp: lru_get_def lru_entries_def delete_update_touch map_of_touch fun_upd_idem_iff
        split: option.splits)
  show "lru_entries (lru_set c k v) \<subseteq>\<^sub>m (lru_entries c)(k \<mapsto> v)"
  proof (cases "0 < l_max c")
    case True
    have "jsmap_ok (touch k v (l_map c))" using c by (simp add: lru_ok_def touch_ok)
    then show ?thesis
      using map_of_tl_le [of "touch k v (l_map c)"] True
      by (simp add: lru_entries_def lru_set_map [OF c True] map_of_touch)
  next
    case False
    then show ?thesis by (simp add: lru_entries_def)
  qed
qed

section \<open>Properties\<close>

text \<open>
  The batch threshold never leaves its documented range: whatever timings are recorded, it stays
  in \<open>[2, 8]\<close>, so a bulk of at most one item always takes the scalar path and a bulk of at least
  eight always takes the packed path.
\<close>

theorem batchMin_range:
  assumes "cost_reachable cm"
  shows "2 \<le> cm_batchMin cm \<and> cm_batchMin cm \<le> 8 \<and> \<not> decide cm 0 \<and> \<not> decide cm 1
    \<and> (8 \<le> n \<longrightarrow> decide cm n)"
proof -
  have b: "2 \<le> cm_batchMin cm" "cm_batchMin cm \<le> 8" using cost_batchMin_bounds [OF assms] by simp_all
  have "8 \<le> n \<Longrightarrow> cm_batchMin cm \<le> of_nat n"
    using b(2) by (metis of_nat_le_iff of_nat_numeral order_trans)
  with b show ?thesis by (auto simp: decide_def)
qed

theorem batchMin_range_witness:
  "decide (recordScalar (recordBatch (createCostModel True None) 4 100) 2 1) 9"
  using batchMin_range [of "recordScalar (recordBatch (createCostModel True None) 4 100) 2 1" 9]
  by (simp add: cost_reachable.intros)

text \<open>
  The cache is a bounded least-recently-used map: a write makes the key the most recent entry and
  evicts exactly the oldest one when the bound is exceeded, a hit moves its key to the most recent
  place and changes nothing else, and a disabled cache (\<open>maxKeys <= 0\<close>) never stores anything.
\<close>

theorem lru_behaviour:
  assumes "lru_ok c"
  shows "(0 < l_max c \<longrightarrow> l_map (lru_set c k v) =
      (if l_max c < int (length (touch k v (l_map c))) then tl (touch k v (l_map c)) else touch k v (l_map c)))
    \<and> (0 < l_max c \<longrightarrow> l_map (snd (lru_get c k)) =
      (case map_of (l_map c) k of None \<Rightarrow> l_map c | Some u \<Rightarrow> touch k u (l_map c)))
    \<and> (l_max c \<le> 0 \<longrightarrow> fst (lru_get c k) = None \<and> lru_set c k v = c)
    \<and> int (lru_size (lru_set c k v)) \<le> max 0 (l_max c)"
proof (intro conjI impI)
  show "0 < l_max c \<Longrightarrow> l_map (lru_set c k v) =
      (if l_max c < int (length (touch k v (l_map c))) then tl (touch k v (l_map c)) else touch k v (l_map c))"
    by (rule lru_set_map [OF assms])
  show "0 < l_max c \<Longrightarrow> l_map (snd (lru_get c k)) =
      (case map_of (l_map c) k of None \<Rightarrow> l_map c | Some u \<Rightarrow> touch k u (l_map c))"
    by (simp add: lru_get_def delete_update_touch split: option.splits)
  show "int (lru_size (lru_set c k v)) \<le> max 0 (l_max c)"
    using lru_set_ok [OF assms, of k v] by (simp add: lru_ok_def lru_size_def)
qed (simp_all add: lru_get_def lru_set_def)

theorem lru_behaviour_witness:
  "int (lru_size (lru_set (createLruCache 1) (1::nat) (2::nat))) \<le> 1"
  using lru_behaviour [of "createLruCache 1" "1::nat" "2::nat"] by (simp add: lru_ok_def createLruCache_def)

end
