(* ===== verification/Loader.thy ===== *)
theory Loader
  imports LoaderCache Wire
begin

text \<open>
  The loader's dispatch core, \<open>src/src/loader/index.ts\<close>, with the tick coalescer of
  \<open>src/src/loader/batch.ts\<close> and the element readers of \<open>src/src/loader/ops.ts\<close>.

  The state is one record: the options, the heap of per-op dispatch contexts (they have identity:
  \<open>configure\<close> replaces the map but a queued microtask keeps its old context), the cache, the
  coalescer's buffer, the reusable scratch buffers, the promises handed out and the microtask queue.
  Native code is the parameter \<open>env\<close>: the operations, the two key hashes and the clock. A function of
  the source that can throw returns a result beside the state it leaves behind.
\<close>

section \<open>Values, requests, contexts\<close>

datatype lval = VBool bool | VNum int | VBig int | VBytes bytes | VStr jsstring | VUndef

datatype bulk = BU8 bytes | BU32 "nat list" | BBig "int list" | BBytes "lval list"

datatype rest_arg = RVal lval | RArr "lval list"

datatype result_kind = KBoolean | KNumber | KBigint | KBytes

datatype fast_elem = BoolFast | U32Fast | I64Fast | U64Fast

record fast_spec =
  fs_batch :: "bytes \<Rightarrow> bytes \<Rightarrow> bytes result"
  fs_elem :: fast_elem

record op_spec =
  sp_kind :: result_kind
  sp_scalar :: "bytes \<Rightarrow> rest_arg list \<Rightarrow> lval result"
  sp_batch :: "bytes list \<Rightarrow> rest_arg list \<Rightarrow> bulk result"
  sp_fast :: "fast_spec option"
  sp_pairedRest :: "nat list"
  sp_unsigned :: bool

record env =
  ev_ops :: "jsstring \<Rightarrow> op_spec"
  ev_fnv :: "bytes \<Rightarrow> nat result"
  ev_fnvInto :: "bytes \<Rightarrow> bytes \<Rightarrow> bytes result"
  ev_clock :: "nat \<Rightarrow> rat"

record load_request =
  rq_input :: bytes
  rq_promise :: nat
  rq_key :: "jsstring option"
  rq_needsDefaultKey :: bool

datatype load_mode = Single | Coalesce
datatype load_strategy = Auto | OnlySingle | OnlyCoalesce

record op_ctx =
  cx_cost :: cost_model
  cx_scalarCalls :: nat
  cx_batchCalls :: nat
  cx_itemsDispatched :: nat
  cx_cachedHits :: nat
  cx_sampleEvery :: nat
  cx_counter :: nat
  cx_mode :: load_mode
  cx_singleStreak :: nat
  cx_pendingSingle :: bool
  cx_pendingInput :: "bytes option"
  cx_pendingResolve :: "nat option"
  cx_pendingReject :: "nat option"
  cx_pendingKey :: "jsstring option"
  cx_keyAttempts :: nat
  cx_keyHits :: nat
  cx_keyProbeCounter :: nat

record loader_options =
  lo_adaptive :: bool
  lo_batchMin :: rat
  lo_maxCacheKeys :: int
  lo_caching :: bool
  lo_sampleEvery :: nat
  lo_loadStrategy :: load_strategy

datatype settlement = Pending | Resolved lval | Rejected js_error

datatype microtask = CoalescerFlush | FlushSingle jsstring nat

record loader_state =
  ls_options :: loader_options
  ls_ctxs :: "(jsstring, nat) jsmap"
  ls_heap :: "op_ctx list"
  ls_cache :: "(jsstring, lval) lru"
  ls_buffer :: "(jsstring, load_request list) jsmap"
  ls_scheduled :: bool
  ls_pending :: nat
  ls_opFns :: "(jsstring, nat) jsmap"
  ls_flushes :: nat
  ls_packScratch :: bytes
  ls_outScratch :: bytes
  ls_keyScratch :: bytes
  ls_micro :: "microtask list"
  ls_promises :: "settlement list"
  ls_ticks :: nat

section \<open>Small operations on the state\<close>

definition upd_ctx :: "loader_state \<Rightarrow> nat \<Rightarrow> (op_ctx \<Rightarrow> op_ctx) \<Rightarrow> loader_state" where
  "upd_ctx st c f = st\<lparr>ls_heap := (ls_heap st)[c := f (ls_heap st ! c)]\<rparr>"

definition settle :: "loader_state \<Rightarrow> nat \<Rightarrow> settlement \<Rightarrow> loader_state" where
  "settle st p s =
     st\<lparr>ls_promises := (ls_promises st)[p := (if ls_promises st ! p = Pending then s else ls_promises st ! p)]\<rparr>"

definition new_promise :: "loader_state \<Rightarrow> settlement \<Rightarrow> nat \<times> loader_state" where
  "new_promise st s = (length (ls_promises st), st\<lparr>ls_promises := ls_promises st @ [s]\<rparr>)"

definition now_ns :: "env \<Rightarrow> loader_state \<Rightarrow> rat \<times> loader_state" where
  "now_ns env st = (ev_clock env (ls_ticks st), st\<lparr>ls_ticks := ls_ticks st + 1\<rparr>)"

text \<open>A stored \<open>undefined\<close> reads as a miss and is not counted as a hit.\<close>

definition cache_get :: "loader_state \<Rightarrow> jsstring \<Rightarrow> lval option \<times> loader_state" where
  "cache_get st k =
     (if map_of (l_map (ls_cache st)) k = Some VUndef then (None, st)
      else let (v, c) = lru_get (ls_cache st) k in (v, st\<lparr>ls_cache := c\<rparr>))"

definition maybeCache :: "loader_state \<Rightarrow> jsstring option \<Rightarrow> lval \<Rightarrow> loader_state" where
  "maybeCache st key v = (case key of None \<Rightarrow> st | Some k \<Rightarrow> st\<lparr>ls_cache := lru_set (ls_cache st) k v\<rparr>)"

text \<open>\<open>String(n)\<close> and the composite cache key \<open>op + KEY_SEP + raw\<close>.\<close>

fun dec_string :: "nat \<Rightarrow> jsstring" where
  "dec_string n = (if n < 10 then [of_nat (48 + n)] else dec_string (n div 10) @ [of_nat (48 + n mod 10)])"

declare dec_string.simps [simp del]

definition cache_key :: "jsstring \<Rightarrow> jsstring \<Rightarrow> jsstring" where
  "cache_key opn raw = opn @ [0] @ raw"

definition fresh_ctx :: "loader_options \<Rightarrow> op_ctx" where
  "fresh_ctx opts =
     \<lparr>cx_cost = createCostModel (lo_adaptive opts) (Some (lo_batchMin opts)),
      cx_scalarCalls = 0, cx_batchCalls = 0, cx_itemsDispatched = 0, cx_cachedHits = 0,
      cx_sampleEvery = lo_sampleEvery opts, cx_counter = 0,
      cx_mode = (if lo_loadStrategy opts = OnlySingle then Single else Coalesce), cx_singleStreak = 0,
      cx_pendingSingle = False, cx_pendingInput = None, cx_pendingResolve = None,
      cx_pendingReject = None, cx_pendingKey = None, cx_keyAttempts = 0, cx_keyHits = 0,
      cx_keyProbeCounter = 0\<rparr>"

definition ctxFor :: "loader_state \<Rightarrow> jsstring \<Rightarrow> nat \<times> loader_state" where
  "ctxFor st opn =
     (case map_of (ls_ctxs st) opn of
        Some c \<Rightarrow> (c, st)
      | None \<Rightarrow> (length (ls_heap st),
                 st\<lparr>ls_heap := ls_heap st @ [fresh_ctx (ls_options st)],
                    ls_ctxs := AList.update opn (length (ls_heap st)) (ls_ctxs st)\<rparr>))"

section \<open>Dispatch\<close>

definition asBytes :: "lval \<Rightarrow> lval" where
  "asBytes v = (case v of VStr s \<Rightarrow> VBytes (node_encodeUtf8 s) | _ \<Rightarrow> v)"

text \<open>\<open>r[i]\<close> of a companion array, \<open>undefined\<close> past its end.\<close>

definition companion :: "rest_arg \<Rightarrow> nat \<Rightarrow> rest_arg" where
  "companion r i =
     (case r of
        RArr xs \<Rightarrow> RVal (if i < length xs then xs ! i else VUndef)
      | RVal (VBytes bs) \<Rightarrow> RVal (if i < length bs then VNum (int (unat (bs ! i))) else VUndef)
      | RVal _ \<Rightarrow> RVal VUndef)"

definition itemRest :: "op_spec \<Rightarrow> rest_arg list \<Rightarrow> nat \<Rightarrow> rest_arg list" where
  "itemRest spec rest i =
     (if sp_pairedRest spec = [] then rest
      else map (\<lambda>(idx, r). if idx \<in> set (sp_pairedRest spec) then companion r i else r) (List.enumerate 0 rest))"

text \<open>The scalar results in order, stopping at the first error.\<close>

fun scalar_loop :: "op_spec \<Rightarrow> rest_arg list \<Rightarrow> nat \<Rightarrow> bytes list \<Rightarrow> lval list result" where
  "scalar_loop spec rest i [] = Inr []"
| "scalar_loop spec rest i (item # items) =
     rbind (sp_scalar spec item (itemRest spec rest i)) (\<lambda>v.
       rbind (scalar_loop spec rest (Suc i) items) (\<lambda>vs. Inr (v # vs)))"

fun truthy :: "lval \<Rightarrow> bool" where
  "truthy (VBool b) = b"
| "truthy (VNum n) = (n \<noteq> 0)"
| "truthy (VBig n) = (n \<noteq> 0)"
| "truthy (VBytes _) = True"
| "truthy (VStr s) = (s \<noteq> [])"
| "truthy VUndef = False"

text \<open>Storing into a typed array wraps to its width; the scalar of a kind has that kind's type.\<close>

fun to_u32 :: "lval \<Rightarrow> nat" where
  "to_u32 (VNum n) = nat (n mod 2 ^ 32)"
| "to_u32 (VBool b) = of_bool b"
| "to_u32 _ = 0"

fun big_of :: "lval \<Rightarrow> int" where
  "big_of (VBig n) = n"
| "big_of _ = 0"

definition scalarLoopBulk :: "op_spec \<Rightarrow> bytes list \<Rightarrow> rest_arg list \<Rightarrow> bulk result" where
  "scalarLoopBulk spec items rest =
     rbind (scalar_loop spec rest 0 items) (\<lambda>vs. Inr (case sp_kind spec of
        KBoolean \<Rightarrow> BU8 (map (\<lambda>v. if truthy v then 1 else 0) vs)
      | KNumber \<Rightarrow> BU32 (map to_u32 vs)
      | KBigint \<Rightarrow> BBig (map (\<lambda>v. if sp_unsigned spec then big_of v mod 2 ^ 64
                               else to_signed64 (nat (big_of v mod 2 ^ 64))) vs)
      | KBytes \<Rightarrow> BBytes (map asBytes vs)))"

text \<open>\<open>boolElem\<close>, \<open>numElem\<close>, \<open>bigElem\<close> and \<open>byteElem\<close>.\<close>

fun bulk_elem :: "bulk \<Rightarrow> nat \<Rightarrow> lval" where
  "bulk_elem (BU8 bs) i = VBool ((if i < length bs then bs ! i else 0) = 1)"
| "bulk_elem (BU32 ns) i = (if i < length ns then VNum (int (ns ! i)) else VUndef)"
| "bulk_elem (BBig ns) i = (if i < length ns then VBig (ns ! i) else VUndef)"
| "bulk_elem (BBytes vs) i = (if i < length vs then vs ! i else VUndef)"

fun fast_outSize :: "fast_elem \<Rightarrow> nat \<Rightarrow> nat" where
  "fast_outSize BoolFast n = 4 + (n + 7) div 8"
| "fast_outSize U32Fast n = 4 + n * 4"
| "fast_outSize I64Fast n = 4 + n * 8"
| "fast_outSize U64Fast n = 4 + n * 8"

fun fast_element :: "fast_elem \<Rightarrow> bytes \<Rightarrow> nat \<Rightarrow> lval result" where
  "fast_element BoolFast out i = Inr (VBool (unat (byte_at out (4 + i div 8)) div 2 ^ (i mod 8) mod 2 = 1))"
| "fast_element U32Fast out i = rbind (get_uint 4 out (4 + i * 4)) (\<lambda>n. Inr (VNum (int n)))"
| "fast_element I64Fast out i = rbind (get_uint 8 out (4 + i * 8)) (\<lambda>n. Inr (VBig (to_signed64 n)))"
| "fast_element U64Fast out i = rbind (get_uint 8 out (4 + i * 8)) (\<lambda>n. Inr (VBig (int n)))"

text \<open>The sampled clock: \<open>++ctx.counter % ctx.sampleEvery === 0 ? nowNs() : 0\<close>.\<close>

definition sample_tick :: "env \<Rightarrow> loader_state \<Rightarrow> nat \<Rightarrow> rat \<times> loader_state" where
  "sample_tick env st c =
     (let st1 = upd_ctx st c (\<lambda>x. x\<lparr>cx_counter := cx_counter x + 1\<rparr>)
      in if cx_counter (ls_heap st1 ! c) mod cx_sampleEvery (ls_heap st1 ! c) = 0
         then now_ns env st1 else (0, st1))"

definition record_cost ::
  "env \<Rightarrow> loader_state \<Rightarrow> nat \<Rightarrow> rat \<Rightarrow> (cost_model \<Rightarrow> nat \<Rightarrow> rat \<Rightarrow> cost_model) \<Rightarrow> nat \<Rightarrow> loader_state" where
  "record_cost env st c t rec n =
     (if t \<noteq> 0 then
        let (t1, st1) = now_ns env st
        in upd_ctx st1 c (\<lambda>x. x\<lparr>cx_cost := rec (cx_cost x) n (t1 - t)\<rparr>)
      else st)"

definition dispatchSingle ::
  "env \<Rightarrow> loader_state \<Rightarrow> nat \<Rightarrow> op_spec \<Rightarrow> bytes \<Rightarrow> rest_arg list \<Rightarrow> lval result \<times> loader_state" where
  "dispatchSingle env st c spec input rest =
     (let st1 = upd_ctx st c (\<lambda>x. x\<lparr>cx_scalarCalls := cx_scalarCalls x + 1,
                                    cx_itemsDispatched := cx_itemsDispatched x + 1\<rparr>);
          (t, st2) = sample_tick env st1 c
      in case sp_scalar spec input rest of
           Inl e \<Rightarrow> (Inl e, st2)
         | Inr v \<Rightarrow> (Inr (asBytes v), record_cost env st2 c t recordScalar 1))"

definition dispatchBulk ::
  "env \<Rightarrow> loader_state \<Rightarrow> nat \<Rightarrow> op_spec \<Rightarrow> bytes list \<Rightarrow> rest_arg list \<Rightarrow> bulk result \<times> loader_state" where
  "dispatchBulk env st c spec items rest =
     (let n = length items;
          st1 = upd_ctx st c (\<lambda>x. x\<lparr>cx_itemsDispatched := cx_itemsDispatched x + n\<rparr>);
          packed = decide (cx_cost (ls_heap st1 ! c)) n;
          (t, st2) = sample_tick env st1 c
      in if packed
         then (case sp_batch spec items rest of
                 Inl e \<Rightarrow> (Inl e, st2)
               | Inr out \<Rightarrow> (Inr out, upd_ctx (record_cost env st2 c t recordBatch n) c
                                    (\<lambda>x. x\<lparr>cx_batchCalls := cx_batchCalls x + 1\<rparr>)))
         else (case scalarLoopBulk spec items rest of
                 Inl e \<Rightarrow> (Inl e, st2)
               | Inr out \<Rightarrow> (Inr out, upd_ctx (record_cost env st2 c t recordScalar n) c
                                    (\<lambda>x. x\<lparr>cx_scalarCalls := cx_scalarCalls x + 1\<rparr>))))"

section \<open>The flush of one op group\<close>

definition shouldComputeDefaultKey :: "loader_state \<Rightarrow> nat \<Rightarrow> bool \<times> loader_state" where
  "shouldComputeDefaultKey st c =
     (let x = ls_heap st ! c
      in if cx_keyAttempts x < 8 then (True, st)
         else if 0 < cx_keyHits x then (True, st)
         else let st1 = upd_ctx st c (\<lambda>x. x\<lparr>cx_keyProbeCounter := cx_keyProbeCounter x + 1\<rparr>)
              in (cx_keyProbeCounter (ls_heap st1 ! c) mod 64 = 0, st1))"

text \<open>
  A lone request: compute its deferred key with the scalar hash, resolve from the cache on a hit,
  otherwise dispatch the scalar; every error rejects the request.
\<close>

definition lone_dispatch ::
  "env \<Rightarrow> loader_state \<Rightarrow> nat \<Rightarrow> op_spec \<Rightarrow> bytes \<Rightarrow> jsstring option \<Rightarrow> lval result \<times> loader_state" where
  "lone_dispatch env st c spec input key =
     (case dispatchSingle env st c spec input [] of
        (Inl e, st1) \<Rightarrow> (Inl e, st1)
      | (Inr v, st1) \<Rightarrow> (Inr v, maybeCache st1 key v))"

definition lone_value ::
  "env \<Rightarrow> loader_state \<Rightarrow> nat \<Rightarrow> jsstring \<Rightarrow> op_spec \<Rightarrow> load_request \<Rightarrow> lval result \<times> loader_state" where
  "lone_value env st c opn spec req =
     (if rq_needsDefaultKey req
      then case shouldComputeDefaultKey st c of
             (False, st1) \<Rightarrow> lone_dispatch env st1 c spec (rq_input req) (rq_key req)
           | (True, st1) \<Rightarrow>
               (let st2 = upd_ctx st1 c (\<lambda>x. x\<lparr>cx_keyAttempts := cx_keyAttempts x + 1\<rparr>)
                in case ev_fnv env (rq_input req) of
                     Inl e \<Rightarrow> (Inl e, st2)
                   | Inr h \<Rightarrow>
                       (let k = cache_key opn (dec_string h)
                        in case cache_get st2 k of
                             (Some v, st3) \<Rightarrow>
                               (Inr v, upd_ctx st3 c (\<lambda>x. x\<lparr>cx_cachedHits := cx_cachedHits x + 1,
                                                          cx_keyHits := cx_keyHits x + 1\<rparr>))
                           | (None, st3) \<Rightarrow> lone_dispatch env st3 c spec (rq_input req) (Some k)))
      else lone_dispatch env st c spec (rq_input req) (rq_key req))"

definition settle_result :: "loader_state \<Rightarrow> nat \<Rightarrow> lval result \<Rightarrow> loader_state" where
  "settle_result st p r = (case r of Inl e \<Rightarrow> settle st p (Rejected e) | Inr v \<Rightarrow> settle st p (Resolved v))"

definition flush_lone :: "env \<Rightarrow> loader_state \<Rightarrow> nat \<Rightarrow> jsstring \<Rightarrow> op_spec \<Rightarrow> load_request \<Rightarrow> loader_state" where
  "flush_lone env st c opn spec req =
     (let st0 = (if cx_mode (ls_heap st ! c) = Coalesce \<and> lo_loadStrategy (ls_options st) = Auto
                 then upd_ctx st c (\<lambda>x. x\<lparr>cx_singleStreak := cx_singleStreak x + 1,
                        cx_mode := (if 4 \<le> cx_singleStreak x + 1 then Single else cx_mode x)\<rparr>)
                 else st);
          (r, st1) = lone_value env st0 c opn spec req
      in settle_result st1 (rq_promise req) r)"

text \<open>
  The packed flush. \<open>pack_requests\<close> writes count, lengths and inputs into the reused scratch;
  \<open>scan_hits\<close> resolves cache hits and collects the misses with their keys; \<open>read_results\<close> reads each
  element back, caches it and resolves its request, until an element read throws.
\<close>

definition pack_requests :: "bytes list \<Rightarrow> bytes \<Rightarrow> bytes result" where
  "pack_requests inputs scratch =
     rbind (put scratch 0 (u32_le (length inputs))) (\<lambda>b. write_items inputs b 4)"

definition keys_phase ::
  "env \<Rightarrow> loader_state \<Rightarrow> nat \<Rightarrow> load_request list \<Rightarrow> bytes \<Rightarrow> bytes option result \<times> loader_state" where
  "keys_phase env st c requests packed =
     (if \<exists>r \<in> set requests. rq_needsDefaultKey r
      then case shouldComputeDefaultKey st c of
             (False, st1) \<Rightarrow> (Inr None, st1)
           | (True, st1) \<Rightarrow>
               (let n = length requests;
                    st2 = upd_ctx st1 c (\<lambda>x. x\<lparr>cx_keyAttempts := cx_keyAttempts x + n\<rparr>);
                    keyTotal = 4 + n * 8;
                    keyBuf = (if length (ls_keyScratch st2) < keyTotal then new_buf keyTotal else ls_keyScratch st2)
                in case ev_fnvInto env packed keyBuf of
                     Inl e \<Rightarrow> (Inl e, st2\<lparr>ls_keyScratch := keyBuf\<rparr>)
                   | Inr keyBuf' \<Rightarrow> (Inr (Some keyBuf'), st2\<lparr>ls_keyScratch := keyBuf'\<rparr>))
      else (Inr None, st))"

definition request_key :: "jsstring \<Rightarrow> bytes option \<Rightarrow> nat \<Rightarrow> load_request \<Rightarrow> jsstring option result" where
  "request_key opn keyView i req =
     (case (rq_key req, keyView) of
        (None, Some kb) \<Rightarrow>
          (if rq_needsDefaultKey req
           then rbind (get_uint 8 kb (4 + i * 8)) (\<lambda>h. Inr (Some (cache_key opn (dec_string h))))
           else Inr None)
      | (k, _) \<Rightarrow> Inr k)"

fun scan_hits ::
  "loader_state \<Rightarrow> nat \<Rightarrow> jsstring \<Rightarrow> bytes option \<Rightarrow> nat \<Rightarrow> load_request list
     \<Rightarrow> load_request list result \<times> loader_state" where
  "scan_hits st c opn keyView i [] = (Inr [], st)"
| "scan_hits st c opn keyView i (req # reqs) =
     (case request_key opn keyView i req of
        Inl e \<Rightarrow> (Inl e, st)
      | Inr key \<Rightarrow>
          (let req1 = req\<lparr>rq_key := key\<rparr>;
               (hit, st1) = (case key of None \<Rightarrow> (None, st) | Some k \<Rightarrow> cache_get st k)
           in case hit of
                Some v \<Rightarrow>
                  scan_hits (settle (upd_ctx st1 c (\<lambda>x. x\<lparr>cx_cachedHits := cx_cachedHits x + 1,
                     cx_keyHits := (if rq_needsDefaultKey req then cx_keyHits x + 1 else cx_keyHits x)\<rparr>))
                     (rq_promise req) (Resolved v)) c opn keyView (Suc i) reqs
              | None \<Rightarrow>
                  (case scan_hits st1 c opn keyView (Suc i) reqs of
                     (Inl e, st2) \<Rightarrow> (Inl e, st2)
                   | (Inr pend, st2) \<Rightarrow> (Inr (req1 # pend), st2))))"

fun read_results ::
  "loader_state \<Rightarrow> (nat \<Rightarrow> lval result) \<Rightarrow> nat \<Rightarrow> load_request list \<Rightarrow> js_error option \<times> loader_state" where
  "read_results st el j [] = (None, st)"
| "read_results st el j (req # reqs) =
     (case el j of
        Inl e \<Rightarrow> (Some e, st)
      | Inr v \<Rightarrow> read_results (settle (maybeCache st (rq_key req) v) (rq_promise req) (Resolved v)) el (Suc j) reqs)"

definition reject_all :: "loader_state \<Rightarrow> load_request list \<Rightarrow> js_error \<Rightarrow> loader_state" where
  "reject_all st reqs e = foldl (\<lambda>s r. settle s (rq_promise r) (Rejected e)) st reqs"

definition resolve_results ::
  "loader_state \<Rightarrow> (nat \<Rightarrow> lval result) \<Rightarrow> load_request list \<Rightarrow> loader_state" where
  "resolve_results st el reqs =
     (case read_results st el 0 reqs of (None, st1) \<Rightarrow> st1 | (Some e, st1) \<Rightarrow> reject_all st1 reqs e)"

text \<open>The second half: repack the misses, run the packed op into the output scratch, read it back.\<close>

definition run_misses ::
  "loader_state \<Rightarrow> fast_spec \<Rightarrow> load_request list \<Rightarrow> js_error option \<times> loader_state" where
  "run_misses st fast pend =
     (case pack_requests (map rq_input pend) (ls_packScratch st) of
        Inl e \<Rightarrow> (Some e, st)
      | Inr scratch \<Rightarrow>
          (let st1 = st\<lparr>ls_packScratch := scratch\<rparr>;
               total2 = packedTotal (map rq_input pend);
               outSize = fast_outSize (fs_elem fast) (length pend);
               out = (if length (ls_outScratch st1) < outSize then new_buf outSize else ls_outScratch st1);
               st2 = st1\<lparr>ls_outScratch := out\<rparr>
           in case fs_batch fast (subarray scratch 0 total2) out of
                Inl e \<Rightarrow> (None, reject_all st2 pend e)
              | Inr out' \<Rightarrow> (None, resolve_results (st2\<lparr>ls_outScratch := out'\<rparr>) (fast_element (fs_elem fast) out') pend)))"

definition flush_fast ::
  "env \<Rightarrow> loader_state \<Rightarrow> nat \<Rightarrow> jsstring \<Rightarrow> fast_spec \<Rightarrow> load_request list \<Rightarrow> js_error option \<times> loader_state" where
  "flush_fast env st c opn fast requests =
     (let n = length requests;
          inputs = map rq_input requests;
          st1 = upd_ctx st c (\<lambda>x. x\<lparr>cx_batchCalls := cx_batchCalls x + 1,
                                    cx_itemsDispatched := cx_itemsDispatched x + n\<rparr>);
          total = packedTotal inputs;
          scratch = (if length (ls_packScratch st1) < total then new_buf (max 256 (total * 2)) else ls_packScratch st1)
      in case pack_requests inputs scratch of
           Inl e \<Rightarrow> (Some e, st1\<lparr>ls_packScratch := scratch\<rparr>)
         | Inr scratch1 \<Rightarrow>
             (case keys_phase env (st1\<lparr>ls_packScratch := scratch1\<rparr>) c requests (subarray scratch1 0 total) of
                (Inl e, st2) \<Rightarrow> (Some e, st2)
              | (Inr keyView, st2) \<Rightarrow>
                  (case scan_hits st2 c opn keyView 0 requests of
                     (Inl e, st3) \<Rightarrow> (Some e, st3)
                   | (Inr pend, st3) \<Rightarrow> (if pend = [] then (None, st3) else run_misses st3 fast pend))))"

text \<open>The first component is an exception that escapes \<open>handleFlush\<close>.\<close>

definition handleFlush ::
  "env \<Rightarrow> loader_state \<Rightarrow> jsstring \<Rightarrow> load_request list \<Rightarrow> js_error option \<times> loader_state" where
  "handleFlush env st0 opn requests =
     (let (c, st) = ctxFor (st0\<lparr>ls_flushes := ls_flushes st0 + 1\<rparr>) opn;
          spec = ev_ops env opn
      in case requests of
           [req] \<Rightarrow> (None, flush_lone env st c opn spec req)
         | _ \<Rightarrow>
             (let st1 = upd_ctx st c (\<lambda>x. x\<lparr>cx_singleStreak := 0\<rparr>)
              in case sp_fast spec of
                   Some fast \<Rightarrow> flush_fast env st1 c opn fast requests
                 | None \<Rightarrow>
                     (case dispatchBulk env st1 c spec (map rq_input requests) [] of
                        (Inl e, st2) \<Rightarrow> (None, reject_all st2 requests e)
                      | (Inr out, st2) \<Rightarrow> (None, resolve_results st2 (\<lambda>i. Inr (bulk_elem out i)) requests))))"

section \<open>The coalescer and the single-mode flush\<close>

definition enqueue :: "loader_state \<Rightarrow> jsstring \<Rightarrow> load_request \<Rightarrow> loader_state" where
  "enqueue st opn req =
     (let lst = (case map_of (ls_buffer st) opn of None \<Rightarrow> [] | Some l \<Rightarrow> l);
          st1 = st\<lparr>ls_buffer := AList.update opn (lst @ [req]) (ls_buffer st), ls_pending := ls_pending st + 1\<rparr>
      in if ls_scheduled st1 then st1
         else st1\<lparr>ls_scheduled := True, ls_micro := ls_micro st1 @ [CoalescerFlush]\<rparr>)"

fun flush_groups ::
  "env \<Rightarrow> loader_state \<Rightarrow> (jsstring \<times> load_request list) list \<Rightarrow> js_error option \<times> loader_state" where
  "flush_groups env st [] = (None, st)"
| "flush_groups env st ((opn, requests) # groups) =
     (if requests = [] then flush_groups env st groups
      else case handleFlush env st opn requests of
             (Some e, st1) \<Rightarrow> (Some e, st1)
           | (None, st1) \<Rightarrow> flush_groups env st1 groups)"

definition coalescer_flush :: "env \<Rightarrow> loader_state \<Rightarrow> js_error option \<times> loader_state" where
  "coalescer_flush env st =
     flush_groups env (st\<lparr>ls_scheduled := False, ls_buffer := [], ls_pending := 0\<rparr>) (ls_buffer st)"

definition clear_pending :: "op_ctx \<Rightarrow> op_ctx" where
  "clear_pending x = x\<lparr>cx_pendingSingle := False, cx_pendingInput := None, cx_pendingResolve := None,
     cx_pendingReject := None, cx_pendingKey := None\<rparr>"

definition flushSingle :: "env \<Rightarrow> loader_state \<Rightarrow> jsstring \<Rightarrow> nat \<Rightarrow> loader_state" where
  "flushSingle env st opn c =
     (let x = ls_heap st ! c; st1 = upd_ctx st c clear_pending
      in case (cx_pendingInput x, cx_pendingResolve x) of
           (Some input, Some p) \<Rightarrow>
             (case lone_dispatch env st1 c (ev_ops env opn) input (cx_pendingKey x) of
                (Inr v, st2) \<Rightarrow> settle st2 p (Resolved v)
              | (Inl e, st2) \<Rightarrow> (case cx_pendingReject x of None \<Rightarrow> st2 | Some q \<Rightarrow> settle st2 q (Rejected e)))
         | _ \<Rightarrow> st1)"

text \<open>One turn of the microtask queue; an exception that escapes a microtask does not stop the queue.\<close>

definition run_micro :: "env \<Rightarrow> loader_state \<Rightarrow> loader_state" where
  "run_micro env st =
     (case ls_micro st of
        [] \<Rightarrow> st
      | CoalescerFlush # ts \<Rightarrow> snd (coalescer_flush env (st\<lparr>ls_micro := ts\<rparr>))
      | FlushSingle opn c # ts \<Rightarrow> flushSingle env (st\<lparr>ls_micro := ts\<rparr>) opn c)"

section \<open>\<open>load\<close>, \<open>run\<close> and \<open>configure\<close>\<close>

definition required_rest_ops :: "jsstring list" where
  "required_rest_ops =
     map js [''signCookie'', ''verifyCookie'', ''csrfVerify'', ''passwordHash'', ''passwordVerify'',
       ''hmacSha256'', ''hmacSha256Verify'', ''aeadEncrypt'', ''aeadDecrypt'', ''jwtSign'', ''jwtVerify'',
       ''jsonPatch'', ''urlResolve'', ''wsFrameEncode'', ''schemaValidate'']"

definition hasRequiredRest :: "jsstring \<Rightarrow> bool" where
  "hasRequiredRest opn \<longleftrightarrow> opn \<in> set required_rest_ops"

record load_opts =
  op_key :: "jsstring option"
  op_cache :: "bool option"

datatype key_plan = Hit lval | Plan "jsstring option" bool | Throw js_error

text \<open>The caching prologue of \<open>loadOne\<close>: a hit, or the key (and the deferral) of the request.\<close>

definition load_key ::
  "env \<Rightarrow> loader_state \<Rightarrow> nat \<Rightarrow> jsstring \<Rightarrow> op_spec \<Rightarrow> bytes \<Rightarrow> load_opts \<Rightarrow> key_plan \<times> loader_state" where
  "load_key env st c opn spec input opts =
     (let caching = (lo_caching (ls_options st) \<and> 0 < lo_maxCacheKeys (ls_options st)
                       \<and> (case op_cache opts of None \<Rightarrow> True | Some b \<Rightarrow> b))
      in if \<not> caching then (Plan None False, st)
         else case op_key opts of
           Some raw \<Rightarrow>
             (case cache_get st (cache_key opn raw) of
                (Some v, st1) \<Rightarrow> (Hit v, upd_ctx st1 c (\<lambda>x. x\<lparr>cx_cachedHits := cx_cachedHits x + 1\<rparr>))
              | (None, st1) \<Rightarrow> (Plan (Some (cache_key opn raw)) False, st1))
         | None \<Rightarrow>
             (if cx_mode (ls_heap st ! c) = Coalesce \<and> sp_fast spec \<noteq> None \<and> 0 < ls_pending st
              then (Plan None True, st)
              else case shouldComputeDefaultKey st c of
                (False, st1) \<Rightarrow> (Plan None False, st1)
              | (True, st1) \<Rightarrow>
                  (let st2 = upd_ctx st1 c (\<lambda>x. x\<lparr>cx_keyAttempts := cx_keyAttempts x + 1\<rparr>)
                   in case ev_fnv env input of
                        Inl e \<Rightarrow> (Throw e, st2)
                      | Inr h \<Rightarrow>
                          (let k = cache_key opn (dec_string h)
                           in case cache_get st2 k of
                                (Some v, st3) \<Rightarrow>
                                  (Hit v, upd_ctx st3 c (\<lambda>x. x\<lparr>cx_cachedHits := cx_cachedHits x + 1,
                                                            cx_keyHits := cx_keyHits x + 1\<rparr>))
                              | (None, st3) \<Rightarrow> (Plan (Some k) False, st3)))))"

definition set_pending :: "bytes \<Rightarrow> nat \<Rightarrow> jsstring option \<Rightarrow> op_ctx \<Rightarrow> op_ctx" where
  "set_pending input p key x = x\<lparr>cx_pendingSingle := True, cx_pendingInput := Some input,
     cx_pendingResolve := Some p, cx_pendingReject := Some p, cx_pendingKey := key\<rparr>"

text \<open>The promise executor: queue the request, single or coalesced.\<close>

definition load_enqueue ::
  "loader_state \<Rightarrow> nat \<Rightarrow> jsstring \<Rightarrow> bytes \<Rightarrow> nat \<Rightarrow> jsstring option \<Rightarrow> bool \<Rightarrow> loader_state" where
  "load_enqueue st c opn input p key needs =
     (let x = ls_heap st ! c
      in if cx_mode x = Single
         then (if \<not> cx_pendingSingle x
               then (upd_ctx st c (set_pending input p key))\<lparr>ls_micro := ls_micro st @ [FlushSingle opn c]\<rparr>
               else
                 let first = \<lparr>rq_input = (case cx_pendingInput x of None \<Rightarrow> input | Some i \<Rightarrow> i),
                              rq_promise = (case cx_pendingResolve x of None \<Rightarrow> p | Some q \<Rightarrow> q),
                              rq_key = cx_pendingKey x, rq_needsDefaultKey = False\<rparr>;
                     st1 = upd_ctx st c (\<lambda>x. (clear_pending x)\<lparr>cx_mode := Coalesce\<rparr>)
                 in enqueue (enqueue st1 opn first) opn
                      \<lparr>rq_input = input, rq_promise = p, rq_key = key, rq_needsDefaultKey = False\<rparr>)
         else enqueue st opn \<lparr>rq_input = input, rq_promise = p, rq_key = key, rq_needsDefaultKey = needs\<rparr>)"

definition loadOne ::
  "env \<Rightarrow> loader_state \<Rightarrow> jsstring \<Rightarrow> bytes \<Rightarrow> load_opts \<Rightarrow> nat result \<times> loader_state" where
  "loadOne env st opn input opts =
     (if hasRequiredRest opn
      then let (p, st1) = new_promise st (Rejected (TypeError ''loader.load: op requires extra arguments''))
           in (Inr p, st1)
      else
        let (c, st1) = ctxFor st opn; (plan, st2) = load_key env st1 c opn (ev_ops env opn) input opts
        in case plan of
             Throw e \<Rightarrow> (Inl e, st2)
           | Hit v \<Rightarrow> (let (p, st3) = new_promise st2 (Resolved v) in (Inr p, st3))
           | Plan key needs \<Rightarrow>
               (let (p, st3) = new_promise st2 Pending
                in (Inr p, load_enqueue st3 c opn input p key needs)))"

definition run_single where
  "run_single env st opn input rest =
     (let (c, st1) = ctxFor st opn in dispatchSingle env st1 c (ev_ops env opn) input rest)"

definition run_bulk where
  "run_bulk env st opn inputs rest =
     (let (c, st1) = ctxFor st opn in dispatchBulk env st1 c (ev_ops env opn) inputs rest)"

record option_patch =
  op_adaptive :: "bool option"
  op_batchMin :: "rat option"
  op_maxCacheKeys :: "int option"
  op_caching :: "bool option"
  op_sampleEvery :: "nat option"
  op_loadStrategy :: "load_strategy option"

definition or_else :: "'a option \<Rightarrow> 'a \<Rightarrow> 'a" where
  "or_else v d = (case v of None \<Rightarrow> d | Some x \<Rightarrow> x)"

definition merge_options :: "option_patch \<Rightarrow> loader_options \<Rightarrow> loader_options" where
  "merge_options nxt prev =
     \<lparr>lo_adaptive = or_else (op_adaptive nxt) (lo_adaptive prev),
      lo_batchMin = max 2 (min 8 (or_else (op_batchMin nxt) (lo_batchMin prev))),
      lo_maxCacheKeys = or_else (op_maxCacheKeys nxt) (lo_maxCacheKeys prev),
      lo_caching = or_else (op_caching nxt) (lo_caching prev),
      lo_sampleEvery = or_else (op_sampleEvery nxt) (lo_sampleEvery prev),
      lo_loadStrategy = or_else (op_loadStrategy nxt) (lo_loadStrategy prev)\<rparr>"

fun rebind_all :: "loader_state \<Rightarrow> (jsstring \<times> nat) list \<Rightarrow> loader_state" where
  "rebind_all st [] = st"
| "rebind_all st ((opn, _) # es) =
     (let (c, st1) = ctxFor st opn
      in rebind_all (st1\<lparr>ls_opFns := AList.update opn c (ls_opFns st1)\<rparr>) es)"

definition configureFn :: "loader_state \<Rightarrow> option_patch \<Rightarrow> loader_state" where
  "configureFn st nxt =
     (let prev = ls_options st;
          st1 = st\<lparr>ls_options := merge_options nxt prev, ls_ctxs := []\<rparr>;
          st2 = rebind_all st1 (ls_opFns st1)
      in case op_maxCacheKeys nxt of
           Some m \<Rightarrow> (if m \<noteq> lo_maxCacheKeys prev
                      then st2\<lparr>ls_cache := createLruCache (lo_maxCacheKeys (ls_options st2))\<rparr> else st2)
         | None \<Rightarrow> st2)"

definition makeOpFn :: "loader_state \<Rightarrow> jsstring \<Rightarrow> nat \<times> loader_state" where
  "makeOpFn st opn =
     (case map_of (ls_opFns st) opn of
        Some c \<Rightarrow> (c, st)
      | None \<Rightarrow> (let (c, st1) = ctxFor st opn
                 in (c, st1\<lparr>ls_opFns := AList.update opn c (ls_opFns st1)\<rparr>)))"

definition default_options :: loader_options where
  "default_options = \<lparr>lo_adaptive = True, lo_batchMin = 2, lo_maxCacheKeys = 256, lo_caching = True,
     lo_sampleEvery = 32, lo_loadStrategy = Auto\<rparr>"

definition createLoader :: "option_patch \<Rightarrow> loader_state" where
  "createLoader opts =
     \<lparr>ls_options = merge_options opts default_options, ls_ctxs = [], ls_heap = [],
      ls_cache = createLruCache (or_else (op_maxCacheKeys opts) 256), ls_buffer = [], ls_scheduled = False,
      ls_pending = 0, ls_opFns = [], ls_flushes = 0, ls_packScratch = [], ls_outScratch = [],
      ls_keyScratch = [], ls_micro = [], ls_promises = [], ls_ticks = 0\<rparr>"

definition loader_clear :: "loader_state \<Rightarrow> loader_state" where
  "loader_clear st = st\<lparr>ls_cache := lru_clear (ls_cache st)\<rparr>"

record loader_stats =
  st_scalarCalls :: nat
  st_batchCalls :: nat
  st_itemsDispatched :: nat
  st_flushes :: nat
  st_cachedHits :: nat
  st_cacheSize :: nat
  st_cacheEvictions :: nat

definition statsGetter :: "loader_state \<Rightarrow> loader_stats" where
  "statsGetter st =
     (let xs = map (\<lambda>(_, c). ls_heap st ! c) (ls_ctxs st)
      in \<lparr>st_scalarCalls = sum_list (map cx_scalarCalls xs), st_batchCalls = sum_list (map cx_batchCalls xs),
          st_itemsDispatched = sum_list (map cx_itemsDispatched xs), st_flushes = ls_flushes st,
          st_cachedHits = sum_list (map cx_cachedHits xs), st_cacheSize = lru_size (ls_cache st),
          st_cacheEvictions = l_evictions (ls_cache st)\<rparr>)"

end
