(* ===== verification/LoaderLive.thy ===== *)
theory LoaderLive
  imports Loader
begin

text \<open>
  Every load is answered: the invariant of the loader's state machine and its consequences.

  \<open>settles S st st'\<close> is the frame of the dispatch code: the step answers the promises in \<open>S\<close>, never
  changes an answered promise, and leaves the microtask queue, the coalescer's buffer and the pending
  single-mode loads alone. It composes, so each function of the flush has one lemma.
\<close>

section \<open>The frame of the dispatch code\<close>

definition pend :: "op_ctx \<Rightarrow> bool \<times> bytes option \<times> nat option \<times> nat option" where
  "pend x = (cx_pendingSingle x, cx_pendingInput x, cx_pendingResolve x, cx_pendingReject x)"

abbreviation no_pend :: "bool \<times> bytes option \<times> nat option \<times> nat option" where
  "no_pend \<equiv> (False, None, None, None)"

definition wf_state :: "loader_state \<Rightarrow> bool" where
  "wf_state st \<longleftrightarrow> (\<forall>(k, c) \<in> set (ls_ctxs st). c < length (ls_heap st))
     \<and> (\<forall>(k, c) \<in> set (ls_opFns st). c < length (ls_heap st)) \<and> lru_ok (ls_cache st)
     \<and> l_max (ls_cache st) = lo_maxCacheKeys (ls_options st)"

definition quiet :: "loader_state \<Rightarrow> loader_state \<Rightarrow> bool" where
  "quiet st st' \<longleftrightarrow> ls_micro st' = ls_micro st \<and> ls_buffer st' = ls_buffer st
     \<and> ls_scheduled st' = ls_scheduled st
     \<and> (\<exists>n. map pend (ls_heap st') = map pend (ls_heap st) @ replicate n no_pend)
     \<and> (wf_state st \<longrightarrow> wf_state st')"

definition settles :: "nat set \<Rightarrow> loader_state \<Rightarrow> loader_state \<Rightarrow> bool" where
  "settles S st st' \<longleftrightarrow> quiet st st' \<and> length (ls_promises st') = length (ls_promises st)
     \<and> (\<forall>p < length (ls_promises st). ls_promises st' ! p = ls_promises st ! p
          \<or> p \<in> S \<and> ls_promises st ! p = Pending)
     \<and> (\<forall>p \<in> S. p < length (ls_promises st) \<longrightarrow> ls_promises st' ! p \<noteq> Pending)"

lemma quiet_refl: "quiet st st"
  by (auto simp: quiet_def intro: exI [of _ 0])

lemma quiet_trans:
  assumes "quiet st st'" "quiet st' st''"
  shows "quiet st st''"
proof -
  obtain m where m: "map pend (ls_heap st') = map pend (ls_heap st) @ replicate m no_pend"
    using assms(1) unfolding quiet_def by blast
  obtain n where n: "map pend (ls_heap st'') = map pend (ls_heap st') @ replicate n no_pend"
    using assms(2) unfolding quiet_def by blast
  have "map pend (ls_heap st'') = map pend (ls_heap st) @ replicate (m + n) no_pend"
    unfolding n m replicate_add by simp
  with assms show ?thesis unfolding quiet_def by metis
qed

lemma settles_refl: "settles {} st st"
  by (simp add: settles_def quiet_refl)

lemma settles_trans:
  assumes a: "settles S st st'" and b: "settles T st' st''"
  shows "settles (S \<union> T) st st''"
proof -
  let ?p = "ls_promises st" and ?q = "ls_promises st'" and ?r = "ls_promises st''"
  have len: "length ?q = length ?p" "length ?r = length ?p" using a b by (simp_all add: settles_def)
  have A: "?q ! i = ?p ! i \<or> i \<in> S \<and> ?p ! i = Pending" "i \<in> S \<Longrightarrow> ?q ! i \<noteq> Pending" if "i < length ?p" for i
    using a that by (auto simp: settles_def)
  have B: "?r ! i = ?q ! i \<or> i \<in> T \<and> ?q ! i = Pending" "i \<in> T \<Longrightarrow> ?r ! i \<noteq> Pending" if "i < length ?p" for i
    using b len that by (auto simp: settles_def)
  have "?r ! i = ?p ! i \<or> i \<in> S \<union> T \<and> ?p ! i = Pending" if "i < length ?p" for i
    using A [OF that] B [OF that] by auto
  moreover have "?r ! i \<noteq> Pending" if "i \<in> S \<union> T" "i < length ?p" for i
    using A [OF that(2)] B [OF that(2)] that(1) by auto
  ultimately show ?thesis
    using a b len quiet_trans unfolding settles_def by blast
qed

lemma settles_trans0: "settles {} st st' \<Longrightarrow> settles S st' st'' \<Longrightarrow> settles S st st''"
  using settles_trans by fastforce

lemma settles_same:
  assumes "settles S st st'" "ls_micro st'' = ls_micro st'" "ls_buffer st'' = ls_buffer st'"
    "ls_scheduled st'' = ls_scheduled st'" "ls_heap st'' = ls_heap st'" "ls_promises st'' = ls_promises st'"
    "ls_ctxs st'' = ls_ctxs st'" "ls_opFns st'' = ls_opFns st'" "ls_cache st'' = ls_cache st'"
    "ls_options st'' = ls_options st'"
  shows "settles S st st''"
  using assms unfolding settles_def quiet_def wf_state_def by simp

lemma nth_update_at: "j < length xs \<Longrightarrow> xs[i := x] ! j = (if i = j then x else xs ! j)"
  by (cases "i < length xs") (auto simp: nth_list_update)

lemma settles_settle: "s \<noteq> Pending \<Longrightarrow> settles {p} st (settle st p s)"
  by (auto simp: settles_def settle_def quiet_def wf_state_def nth_update_at intro: exI [of _ 0])

lemma settles_upd_ctx:
  assumes "\<And>x. pend (f x) = pend x"
  shows "settles {} st (upd_ctx st c f)"
proof -
  have "map pend ((ls_heap st)[c := f (ls_heap st ! c)]) = map pend (ls_heap st)"
    by (rule nth_equalityI) (auto simp: nth_update_at assms)
  then show ?thesis
    by (auto simp: settles_def quiet_def upd_ctx_def wf_state_def intro: exI [of _ 0])
qed

lemma settles_cache:
  assumes "lru_ok (ls_cache st) \<Longrightarrow> lru_ok c" and "l_max c = l_max (ls_cache st)"
  shows "settles {} st (st\<lparr>ls_cache := c\<rparr>)"
  using assms by (auto simp: settles_def quiet_def wf_state_def intro: exI [of _ 0])

lemma settles_maybeCache: "settles {} st (maybeCache st k v)"
  by (cases k) (simp_all add: maybeCache_def settles_refl settles_cache lru_set_ok)

lemma settles_cache_get: "cache_get st k = (v, st') \<Longrightarrow> settles {} st st'"
proof -
  assume a: "cache_get st k = (v, st')"
  obtain u c where g: "lru_get (ls_cache st) k = (u, c)" by force
  have "l_max c = l_max (ls_cache st)" using lru_get_max [of "ls_cache st" k] g by simp
  moreover have "lru_ok (ls_cache st) \<Longrightarrow> lru_ok c" using lru_get_ok [of "ls_cache st" k] g by simp
  ultimately have "settles {} st (st\<lparr>ls_cache := c\<rparr>)" by (intro settles_cache)
  with a g show ?thesis by (auto simp: cache_get_def settles_refl split: if_splits)
qed

lemma settles_now: "now_ns env st = (t, st') \<Longrightarrow> settles {} st st'"
  by (auto simp: now_ns_def intro: settles_same [OF settles_refl])

lemma settles_sample: "sample_tick env st c = (t, st') \<Longrightarrow> settles {} st st'"
proof -
  assume a: "sample_tick env st c = (t, st')"
  let ?s = "upd_ctx st c (\<lambda>x. x\<lparr>cx_counter := cx_counter x + 1\<rparr>)"
  have "settles {} st ?s" by (rule settles_upd_ctx) (simp add: pend_def)
  moreover have "settles {} ?s st'"
    using a settles_now [of env ?s t st'] by (auto simp: sample_tick_def Let_def settles_refl split: if_splits)
  ultimately show ?thesis by (rule settles_trans0)
qed

lemma settles_record: "settles {} st (record_cost env st c t rec n)"
proof (cases "t \<noteq> 0")
  case True
  obtain t1 st1 where n: "now_ns env st = (t1, st1)" by force
  have "settles {} st1 (upd_ctx st1 c (\<lambda>x. x\<lparr>cx_cost := rec (cx_cost x) n (t1 - t)\<rparr>))"
    by (rule settles_upd_ctx) (simp add: pend_def)
  with True show ?thesis
    by (simp add: record_cost_def n settles_trans0 [OF settles_now [OF n]])
qed (simp add: record_cost_def settles_refl)

lemma settles_dispatchSingle: "dispatchSingle env st c spec input rest = (r, st') \<Longrightarrow> settles {} st st'"
proof -
  assume a: "dispatchSingle env st c spec input rest = (r, st')"
  let ?s = "upd_ctx st c (\<lambda>x. x\<lparr>cx_scalarCalls := cx_scalarCalls x + 1, cx_itemsDispatched := cx_itemsDispatched x + 1\<rparr>)"
  obtain t st2 where t: "sample_tick env ?s c = (t, st2)" by force
  have "settles {} st ?s" by (rule settles_upd_ctx) (simp add: pend_def)
  from settles_trans0 [OF this settles_sample [OF t]] have 1: "settles {} st st2" .
  from a t show ?thesis
    using settles_trans0 [OF 1 settles_record] 1
    by (auto simp: dispatchSingle_def Let_def split: sum.splits)
qed

lemma settles_dispatchBulk: "dispatchBulk env st c spec items rest = (r, st') \<Longrightarrow> settles {} st st'"
proof -
  assume a: "dispatchBulk env st c spec items rest = (r, st')"
  let ?s = "upd_ctx st c (\<lambda>x. x\<lparr>cx_itemsDispatched := cx_itemsDispatched x + length items\<rparr>)"
  obtain t st2 where t: "sample_tick env ?s c = (t, st2)" by force
  have "settles {} st ?s" by (rule settles_upd_ctx) (simp add: pend_def)
  from settles_trans0 [OF this settles_sample [OF t]] have 1: "settles {} st st2" .
  have 2: "settles {} st (upd_ctx (record_cost env st2 c t rec n) c f)" if "\<And>x. pend (f x) = pend x" for rec n f
    by (rule settles_trans0 [OF settles_trans0 [OF 1 settles_record] settles_upd_ctx]) (rule that)
  show ?thesis
    using a t 1 2 by (auto simp: dispatchBulk_def Let_def pend_def split: sum.splits if_splits)
qed

lemma settles_should: "shouldComputeDefaultKey st c = (b, st') \<Longrightarrow> settles {} st st'"
  by (auto simp: shouldComputeDefaultKey_def Let_def pend_def settles_refl split: if_splits
      intro!: settles_upd_ctx)

lemma settles_ctxFor: "ctxFor st opn = (c, st') \<Longrightarrow> settles {} st st'"
proof -
  assume a: "ctxFor st opn = (c, st')"
  show ?thesis
  proof (cases "map_of (ls_ctxs st) opn")
    case None
    let ?s = "st\<lparr>ls_heap := ls_heap st @ [fresh_ctx (ls_options st)],
      ls_ctxs := AList.update opn (length (ls_heap st)) (ls_ctxs st)\<rparr>"
    have st': "st' = ?s" using a None by (auto simp: ctxFor_def)
    have "map pend (ls_heap ?s) = map pend (ls_heap st) @ replicate 1 no_pend"
      by (simp add: pend_def fresh_ctx_def)
    moreover have "wf_state st \<Longrightarrow> wf_state ?s"
      using None by (auto simp: wf_state_def update_absent map_of_None_keys)
    ultimately show ?thesis
      unfolding settles_def quiet_def st' by (auto intro: exI [of _ 1])
  qed (use a in \<open>simp add: ctxFor_def settles_refl\<close>)
qed

section \<open>The flush settles its requests\<close>

abbreviation proms :: "load_request list \<Rightarrow> nat set" where
  "proms reqs \<equiv> rq_promise ` set reqs"

lemma settles_lone_dispatch: "lone_dispatch env st c spec input key = (r, st') \<Longrightarrow> settles {} st st'"
proof -
  assume a: "lone_dispatch env st c spec input key = (r, st')"
  obtain r1 st1 where d: "dispatchSingle env st c spec input [] = (r1, st1)" by force
  note D = settles_dispatchSingle [OF d]
  show ?thesis
    using a d D settles_trans0 [OF D settles_maybeCache]
    by (auto simp: lone_dispatch_def split: sum.splits)
qed

lemma settles_lone_value: "lone_value env st c opn spec req = (r, st') \<Longrightarrow> settles {} st st'"
proof -
  assume a: "lone_value env st c opn spec req = (r, st')"
  obtain b st1 where sh: "shouldComputeDefaultKey st c = (b, st1)" by force
  let ?s2 = "upd_ctx st1 c (\<lambda>x. x\<lparr>cx_keyAttempts := cx_keyAttempts x + 1\<rparr>)"
  have s1: "settles {} st st1" by (rule settles_should [OF sh])
  have "settles {} st1 ?s2" by (rule settles_upd_ctx) (simp add: pend_def)
  with s1 have s2: "settles {} st ?s2" by (rule settles_trans0)
  have hit: "settles {} st (upd_ctx st3 c (\<lambda>x. x\<lparr>cx_cachedHits := cx_cachedHits x + 1, cx_keyHits := cx_keyHits x + 1\<rparr>))"
    if "cache_get ?s2 k = (v, st3)" for v st3 k
    by (rule settles_trans0 [OF settles_trans0 [OF s2 settles_cache_get [OF that]] settles_upd_ctx])
      (simp add: pend_def)
  have miss: "settles {} st st'"
    if "cache_get ?s2 k = (v, st3)" "lone_dispatch env st3 c spec i key = (r, st')" for v st3 k i key
    by (rule settles_trans0 [OF settles_trans0 [OF s2 settles_cache_get [OF that(1)]] settles_lone_dispatch [OF that(2)]])
  show ?thesis
    using a sh s2 settles_trans0 [OF s1 settles_lone_dispatch] settles_lone_dispatch
    by (auto simp: lone_value_def Let_def split: if_splits bool.splits sum.splits prod.splits option.splits
        intro: hit [simplified] miss [simplified])
qed

lemma settles_flush_lone: "settles {rq_promise req} st (flush_lone env st c opn spec req)"
proof -
  define s0 where "s0 = (if cx_mode (ls_heap st ! c) = Coalesce \<and> lo_loadStrategy (ls_options st) = Auto
     then upd_ctx st c (\<lambda>x. x\<lparr>cx_singleStreak := cx_singleStreak x + 1,
            cx_mode := (if 4 \<le> cx_singleStreak x + 1 then Single else cx_mode x)\<rparr>) else st)"
  have 0: "settles {} st s0"
    by (auto simp: s0_def settles_refl pend_def intro!: settles_upd_ctx)
  obtain r s1 where v: "lone_value env s0 c opn spec req = (r, s1)" by force
  have "settles {rq_promise req} s1 (settle_result s1 (rq_promise req) r)"
    by (cases r) (simp_all add: settle_result_def settles_settle)
  from settles_trans0 [OF settles_trans0 [OF 0 settles_lone_value [OF v]] this]
  show ?thesis by (simp add: flush_lone_def Let_def s0_def [symmetric] v)
qed

lemma settles_reject_all: "settles (proms reqs) st (reject_all st reqs e)"
proof (induction reqs arbitrary: st)
  case Nil
  then show ?case by (simp add: reject_all_def settles_refl)
next
  case (Cons r reqs)
  from settles_trans [OF settles_settle [of "Rejected e" "rq_promise r" st] Cons.IH] show ?case
    by (simp add: reject_all_def)
qed

lemma settles_read_results:
  "read_results st el j reqs = (err, st') \<Longrightarrow>
     \<exists>S \<subseteq> proms reqs. settles S st st' \<and> (err = None \<longrightarrow> S = proms reqs)"
proof (induction reqs arbitrary: st j)
  case Nil
  then show ?case by (auto simp: settles_refl)
next
  case (Cons r reqs)
  show ?case
  proof (cases "el j")
    case (Inl e)
    with Cons.prems show ?thesis by (auto simp: settles_refl)
  next
    case (Inr v)
    let ?s = "settle (maybeCache st (rq_key r) v) (rq_promise r) (Resolved v)"
    from Cons.prems Inr have "read_results ?s el (Suc j) reqs = (err, st')" by simp
    from Cons.IH [OF this] obtain S where S: "S \<subseteq> proms reqs" "settles S ?s st'" "err = None \<longrightarrow> S = proms reqs"
      by blast
    have "settles {rq_promise r} st ?s"
      by (rule settles_trans0 [OF settles_maybeCache settles_settle]) simp
    from settles_trans [OF this S(2)] S(1,3) show ?thesis
      by (intro exI [of _ "{rq_promise r} \<union> S"]) auto
  qed
qed

lemma settles_mono:
  "settles S st st' \<Longrightarrow> settles T st' st'' \<Longrightarrow> S \<subseteq> T \<Longrightarrow> settles T st st''"
  using settles_trans by (metis sup.absorb2)

lemma settles_resolve_results: "settles (proms reqs) st (resolve_results st el reqs)"
proof -
  obtain err st1 where r: "read_results st el 0 reqs = (err, st1)" by force
  obtain S where S: "S \<subseteq> proms reqs" "settles S st st1" "err = None \<longrightarrow> S = proms reqs"
    using settles_read_results [OF r] by blast
  show ?thesis
    using S r settles_mono [OF S(2) settles_reject_all S(1)]
    by (cases err) (auto simp: resolve_results_def)
qed

text \<open>The scratch buffers: packing always fits and hands the native side the packed layout.\<close>

lemma pack_requests_ok:
  assumes "packedTotal inputs \<le> length scratch"
  shows "\<exists>b. pack_requests inputs scratch = Inr b \<and> length b = length scratch
    \<and> subarray b 0 (packedTotal inputs) = pack_layout inputs"
proof -
  let ?b = "pack_layout inputs @ drop (packedTotal inputs) scratch"
  have "writePack inputs scratch 0 = Inr (?b, packedTotal inputs)"
    using writePack_layout [of 0 inputs scratch] assms by simp
  then have "pack_requests inputs scratch = Inr ?b"
    using assms by (auto simp: writePack_def pack_requests_def rbind_Inr_conv)
  with assms show ?thesis
    by (auto simp: packedTotal_layout subarray_def)
qed

lemma packedTotal_Cons: "packedTotal (b # bs) = packedTotal bs + 4 + length b"
  by (simp add: packedTotal_layout pack_layout_def)

lemma cache_get_scratch: "cache_get st k = (v, st') \<Longrightarrow> ls_packScratch st' = ls_packScratch st"
  by (auto simp: cache_get_def split: if_splits prod.splits)

lemma scan_hits_spec:
  "scan_hits st c opn kv i reqs = (Inr pnd, st') \<Longrightarrow>
     \<exists>S. settles S st st' \<and> proms reqs = S \<union> proms pnd
       \<and> ls_packScratch st' = ls_packScratch st \<and> packedTotal (map rq_input pnd) \<le> packedTotal (map rq_input reqs)"
proof (induction reqs arbitrary: st i pnd)
  case Nil
  then show ?case by (auto simp: settles_refl)
next
  case (Cons r reqs)
  obtain key where key: "request_key opn kv i r = Inr key"
    using Cons.prems by (cases "request_key opn kv i r") auto
  obtain hit st1 where h: "(case key of None \<Rightarrow> (None, st) | Some k \<Rightarrow> cache_get st k) = (hit, st1)" by force
  have s1: "settles {} st st1" "ls_packScratch st1 = ls_packScratch st"
    using h settles_cache_get cache_get_scratch by (auto simp: settles_refl split: option.splits)
  show ?case
  proof (cases hit)
    case (Some v)
    let ?u = "upd_ctx st1 c (\<lambda>x. x\<lparr>cx_cachedHits := cx_cachedHits x + 1,
      cx_keyHits := (if rq_needsDefaultKey r then cx_keyHits x + 1 else cx_keyHits x)\<rparr>)"
    let ?s = "settle ?u (rq_promise r) (Resolved v)"
    have "scan_hits ?s c opn kv (Suc i) reqs = (Inr pnd, st')"
      using Cons.prems key h Some by (simp add: Let_def)
    from Cons.IH [OF this] obtain S where S: "settles S ?s st'" "proms reqs = S \<union> proms pnd"
      "ls_packScratch st' = ls_packScratch ?s" "packedTotal (map rq_input pnd) \<le> packedTotal (map rq_input reqs)"
      by blast
    have "settles {} st1 ?u" by (rule settles_upd_ctx) (simp add: pend_def)
    from settles_trans0 [OF s1(1) settles_trans0 [OF this settles_settle]]
    have "settles {rq_promise r} st ?s" by simp
    from settles_trans [OF this S(1)] S(2-4) s1(2) show ?thesis
      by (intro exI [of _ "{rq_promise r} \<union> S"]) (auto simp: packedTotal_Cons settle_def upd_ctx_def)
  next
    case None
    obtain pnd' where rest: "scan_hits st1 c opn kv (Suc i) reqs = (Inr pnd', st')"
      and pnd: "pnd = r\<lparr>rq_key := key\<rparr> # pnd'"
      using Cons.prems key h None by (auto simp: Let_def split: prod.splits sum.splits)
    from Cons.IH [OF rest] obtain S where S: "settles S st1 st'" "proms reqs = S \<union> proms pnd'"
      "ls_packScratch st' = ls_packScratch st1" "packedTotal (map rq_input pnd') \<le> packedTotal (map rq_input reqs)"
      by blast
    from settles_trans0 [OF s1(1) S(1)] S(2-4) s1(2) pnd show ?thesis
      by (intro exI [of _ S]) (auto simp: packedTotal_Cons)
  qed
qed

lemma settles_run_misses:
  assumes "packedTotal (map rq_input pnd) \<le> length (ls_packScratch st)" and r: "run_misses st fast pnd = (err, st')"
  shows "err = None \<and> settles (proms pnd) st st'"
proof -
  obtain b where b: "pack_requests (map rq_input pnd) (ls_packScratch st) = Inr b"
    using pack_requests_ok [OF assms(1)] by blast
  have rej: "settles (proms pnd) st (reject_all (st\<lparr>ls_packScratch := b, ls_outScratch := o'\<rparr>) pnd e)" for o' e
    by (rule settles_trans0 [OF _ settles_reject_all]) (rule settles_same [OF settles_refl], simp_all)
  have res: "settles (proms pnd) st (resolve_results (st\<lparr>ls_packScratch := b, ls_outScratch := o'\<rparr>) el pnd)" for o' el
    by (rule settles_trans0 [OF _ settles_resolve_results]) (rule settles_same [OF settles_refl], simp_all)
  show ?thesis
    using r b rej res by (auto simp: run_misses_def Let_def split: sum.splits)
qed

text \<open>
  The one assumption on native code: the packed key hash does not throw and keeps its output
  buffer's size. The source calls it outside every \<open>try\<close>.
\<close>

definition keys_total :: "env \<Rightarrow> bool" where
  "keys_total env \<longleftrightarrow>
     (\<forall>packed out. case ev_fnvInto env packed out of Inl _ \<Rightarrow> False | Inr out' \<Rightarrow> length out' = length out)"

lemma keys_totalD: "keys_total env \<Longrightarrow> \<exists>out'. ev_fnvInto env packed out = Inr out' \<and> length out' = length out"
  unfolding keys_total_def
  by (erule allE [of _ packed], erule allE [of _ out]) (cases "ev_fnvInto env packed out"; simp)

lemma should_scratch: "shouldComputeDefaultKey st c = (b, st') \<Longrightarrow> ls_packScratch st' = ls_packScratch st"
  by (auto simp: shouldComputeDefaultKey_def Let_def upd_ctx_def split: if_splits)

lemma keys_phase_spec:
  assumes "keys_total env"
  shows "\<exists>kv st'. keys_phase env st c reqs packed = (Inr kv, st') \<and> settles {} st st'
    \<and> ls_packScratch st' = ls_packScratch st
    \<and> (\<forall>kb. kv = Some kb \<longrightarrow> 4 + 8 * length reqs \<le> length kb)"
proof (cases "\<exists>r \<in> set reqs. rq_needsDefaultKey r")
  case True
  obtain b st1 where sh: "shouldComputeDefaultKey st c = (b, st1)" by force
  show ?thesis
  proof (cases b)
    case False
    then have "keys_phase env st c reqs packed = (Inr None, st1)"
      using sh True by (simp add: keys_phase_def)
    then show ?thesis
      using settles_should [OF sh] should_scratch [OF sh] by blast
  next
    case b: True
    let ?s2 = "upd_ctx st1 c (\<lambda>x. x\<lparr>cx_keyAttempts := cx_keyAttempts x + length reqs\<rparr>)"
    define kb where "kb = (if length (ls_keyScratch ?s2) < 4 + length reqs * 8
      then new_buf (4 + length reqs * 8) else ls_keyScratch ?s2)"
    obtain kb' where k: "ev_fnvInto env packed kb = Inr kb'" "length kb' = length kb"
      using keys_totalD [OF assms] by blast
    have "keys_phase env st c reqs packed = (Inr (Some kb'), ?s2\<lparr>ls_keyScratch := kb'\<rparr>)"
      using sh b True k(1) by (simp add: keys_phase_def Let_def kb_def)
    moreover have "settles {} st1 ?s2" by (rule settles_upd_ctx) (simp add: pend_def)
    from settles_same [OF settles_trans0 [OF settles_should [OF sh] this]]
    have "settles {} st (?s2\<lparr>ls_keyScratch := kb'\<rparr>)" by simp
    moreover have "4 + 8 * length reqs \<le> length kb'" by (simp add: k(2) kb_def)
    ultimately show ?thesis using should_scratch [OF sh] by (auto simp: upd_ctx_def)
  qed
next
  case False
  then have "keys_phase env st c reqs packed = (Inr None, st)" by (simp add: keys_phase_def)
  then show ?thesis using settles_refl by blast
qed

lemma scan_hits_ok:
  assumes "\<And>kb. kv = Some kb \<Longrightarrow> 4 + 8 * (i + length reqs) \<le> length kb"
  shows "\<exists>pnd st'. scan_hits st c opn kv i reqs = (Inr pnd, st')"
  using assms
proof (induction reqs arbitrary: st i)
  case (Cons r reqs)
  have "\<exists>key. request_key opn kv i r = Inr key"
    using Cons.prems
    by (auto simp: request_key_def get_uint_def split: option.splits)
  then obtain key where key: "request_key opn kv i r = Inr key" by blast
  obtain hit st1 where h: "(case key of None \<Rightarrow> (None, st) | Some k \<Rightarrow> cache_get st k) = (hit, st1)" by force
  have IH: "\<exists>pnd st'. scan_hits s c opn kv (Suc i) reqs = (Inr pnd, st')" for s
    using Cons.prems by (intro Cons.IH) fastforce
  show ?case
  proof (cases hit)
    case None
    obtain pnd s' where "scan_hits st1 c opn kv (Suc i) reqs = (Inr pnd, s')" using IH by blast
    with key h None show ?thesis by (simp add: Let_def)
  next
    case (Some v)
    with key h IH show ?thesis by (simp add: Let_def)
  qed
qed simp

lemma settles_flush_fast:
  assumes keys: "keys_total env" and f: "flush_fast env st c opn fast reqs = (err, st')"
  shows "err = None \<and> settles (proms reqs) st st'"
proof -
  let ?in = "map rq_input reqs"
  let ?s1 = "upd_ctx st c (\<lambda>x. x\<lparr>cx_batchCalls := cx_batchCalls x + 1, cx_itemsDispatched := cx_itemsDispatched x + length reqs\<rparr>)"
  define sc where "sc = (if length (ls_packScratch ?s1) < packedTotal ?in
    then new_buf (max 256 (packedTotal ?in * 2)) else ls_packScratch ?s1)"
  have fits: "packedTotal ?in \<le> length sc" by (simp add: sc_def max_def)
  obtain b where b: "pack_requests ?in sc = Inr b" "length b = length sc"
    using pack_requests_ok [OF fits] by blast
  let ?s2 = "?s1\<lparr>ls_packScratch := b\<rparr>"
  have s2: "settles {} st ?s2"
    by (rule settles_same [OF settles_upd_ctx [where f = "\<lambda>x. x\<lparr>cx_batchCalls := cx_batchCalls x + 1,
      cx_itemsDispatched := cx_itemsDispatched x + length reqs\<rparr>" and c = c]]) (simp_all add: pend_def)
  obtain kv s3 where k: "keys_phase env ?s2 c reqs (subarray b 0 (packedTotal ?in)) = (Inr kv, s3)"
    "settles {} ?s2 s3" "ls_packScratch s3 = b" "\<And>kb. kv = Some kb \<Longrightarrow> 4 + 8 * (0 + length reqs) \<le> length kb"
    using keys_phase_spec [OF keys, of ?s2 c reqs "subarray b 0 (packedTotal ?in)"] by auto
  obtain pnd s4 where sc4: "scan_hits s3 c opn kv 0 reqs = (Inr pnd, s4)"
    using scan_hits_ok [OF k(4)] by blast
  obtain S where S: "settles S s3 s4" "proms reqs = S \<union> proms pnd" "ls_packScratch s4 = b"
    "packedTotal (map rq_input pnd) \<le> packedTotal ?in"
    using scan_hits_spec [OF sc4] k(3) by auto
  have s4: "settles S st s4" by (rule settles_trans0 [OF settles_trans0 [OF s2 k(2)] S(1)])
  have ff: "flush_fast env st c opn fast reqs = (if pnd = [] then (None, s4) else run_misses s4 fast pnd)"
    unfolding flush_fast_def Let_def sc_def [symmetric] b(1) sum.case k(1) prod.case sc4 by (rule refl)
  show ?thesis
  proof (cases "pnd = []")
    case True
    with f ff s4 S(2) show ?thesis by simp
  next
    case False
    have "packedTotal (map rq_input pnd) \<le> length (ls_packScratch s4)" using S(3,4) b fits by simp
    moreover have "run_misses s4 fast pnd = (err, st')" using f ff False by simp
    ultimately have "err = None \<and> settles (proms pnd) s4 st'" by (rule settles_run_misses)
    with settles_trans [OF s4] S(2) show ?thesis by metis
  qed
qed

lemma settles_handleFlush:
  assumes keys: "keys_total env" and f: "handleFlush env st opn reqs = (err, st')"
  shows "err = None \<and> settles (proms reqs) st st'"
proof -
  obtain c s1 where c: "ctxFor (st\<lparr>ls_flushes := ls_flushes st + 1\<rparr>) opn = (c, s1)" by force
  have "settles {} st (st\<lparr>ls_flushes := ls_flushes st + 1\<rparr>)"
    by (rule settles_same [OF settles_refl]) simp_all
  from settles_trans0 [OF this settles_ctxFor [OF c]] have s1: "settles {} st s1" .
  let ?s2 = "upd_ctx s1 c (\<lambda>x. x\<lparr>cx_singleStreak := 0\<rparr>)"
  have "settles {} s1 ?s2" by (rule settles_upd_ctx) (simp add: pend_def)
  with s1 have s2: "settles {} st ?s2" by (rule settles_trans0)
  show ?thesis
  proof (cases "\<exists>r. reqs = [r]")
    case True
    with f c settles_trans0 [OF s1 settles_flush_lone] show ?thesis
      by (auto simp: handleFlush_def)
  next
    case many: False
    then have case_many: "(case reqs of [r] \<Rightarrow> a r | _ \<Rightarrow> z) = z" for a :: "load_request \<Rightarrow> 'z" and z
      by (cases reqs rule: remdups_adj.cases) auto
    show ?thesis
    proof (cases "sp_fast (ev_ops env opn)")
      case (Some fast)
      with f c have "flush_fast env ?s2 c opn fast reqs = (err, st')"
        by (simp add: handleFlush_def case_many)
      from settles_flush_fast [OF keys this] settles_trans0 [OF s2] show ?thesis by blast
    next
      case None
      obtain r s3 where d: "dispatchBulk env ?s2 c (ev_ops env opn) (map rq_input reqs) [] = (r, s3)" by force
      have "settles {} st s3" by (rule settles_trans0 [OF s2 settles_dispatchBulk [OF d]])
      from settles_trans0 [OF this settles_reject_all] settles_trans0 [OF this settles_resolve_results] f c d None
      show ?thesis by (cases r) (auto simp: handleFlush_def case_many)
    qed
  qed
qed

lemma settles_flush_groups:
  assumes keys: "keys_total env"
  shows "flush_groups env st groups = (err, st') \<Longrightarrow>
    err = None \<and> settles (\<Union>(opn, reqs) \<in> set groups. proms reqs) st st'"
proof (induction groups arbitrary: st)
  case Nil
  then show ?case by (simp add: settles_refl)
next
  case (Cons g groups)
  obtain opn reqs where g: "g = (opn, reqs)" by force
  show ?case
  proof (cases "reqs = []")
    case True
    with Cons g show ?thesis by auto
  next
    case False
    obtain e s1 where h: "handleFlush env st opn reqs = (e, s1)" by force
    have e: "e = None" "settles (proms reqs) st s1" using settles_handleFlush [OF keys h] by simp_all
    then have "flush_groups env s1 groups = (err, st')" using Cons.prems g False h by simp
    from Cons.IH [OF this] settles_trans [OF e(2)] g show ?thesis by auto
  qed
qed

section \<open>The invariant\<close>

text \<open>
  A promise that is not answered yet waits in exactly the places the microtask queue will visit: in
  the coalescer's buffer with the coalescer's flush queued, or as the pending load of a context with
  that context's flush queued.
\<close>

definition waiting :: "loader_state \<Rightarrow> nat set" where
  "waiting st = (\<Union>(opn, reqs) \<in> set (ls_buffer st). proms reqs)
     \<union> {p. \<exists>x \<in> set (ls_heap st). cx_pendingResolve x = Some p}"

definition pend_ok :: "bool \<times> bytes option \<times> nat option \<times> nat option \<Rightarrow> bool" where
  "pend_ok = (\<lambda>(b, i, r, j). if b then i \<noteq> None \<and> r \<noteq> None \<and> j = r else i = None \<and> r = None \<and> j = None)"

definition queued :: "loader_state \<Rightarrow> bool" where
  "queued st \<longleftrightarrow> (ls_buffer st \<noteq> [] \<longrightarrow> ls_scheduled st) \<and> (ls_scheduled st \<longrightarrow> CoalescerFlush \<in> set (ls_micro st))
     \<and> (\<forall>c < length (ls_heap st). cx_pendingSingle (ls_heap st ! c) \<longrightarrow> (\<exists>opn. FlushSingle opn c \<in> set (ls_micro st)))
     \<and> (\<forall>opn c. FlushSingle opn c \<in> set (ls_micro st) \<longrightarrow> c < length (ls_heap st))"

text \<open>\<open>inv_upto W\<close> is the invariant while the promises in \<open>W\<close> are in the hands of running code.\<close>

definition inv_upto :: "nat set \<Rightarrow> loader_state \<Rightarrow> bool" where
  "inv_upto W st \<longleftrightarrow> wf_state st \<and> queued st \<and> (\<forall>x \<in> set (ls_heap st). pend_ok (pend x))
     \<and> (\<forall>p < length (ls_promises st). ls_promises st ! p = Pending \<longrightarrow> p \<in> waiting st \<union> W)"

abbreviation loader_inv :: "loader_state \<Rightarrow> bool" where
  "loader_inv st \<equiv> inv_upto {} st"

lemma pend_nth:
  assumes "map pend (ls_heap st') = map pend (ls_heap st) @ replicate n no_pend"
  shows "length (ls_heap st') = length (ls_heap st) + n"
    and "c < length (ls_heap st) \<Longrightarrow> pend (ls_heap st' ! c) = pend (ls_heap st ! c)"
    and "length (ls_heap st) \<le> c \<Longrightarrow> c < length (ls_heap st') \<Longrightarrow> pend (ls_heap st' ! c) = no_pend"
proof -
  show len: "length (ls_heap st') = length (ls_heap st) + n"
    using arg_cong [OF assms, of length] by simp
  show "pend (ls_heap st' ! c) = pend (ls_heap st ! c)" if "c < length (ls_heap st)"
    using arg_cong [OF assms, of "\<lambda>xs. xs ! c"] that len by (simp add: nth_append)
  show "pend (ls_heap st' ! c) = no_pend" if "length (ls_heap st) \<le> c" "c < length (ls_heap st')"
    using arg_cong [OF assms, of "\<lambda>xs. xs ! c"] that len by (simp add: nth_append)
qed

lemma quiet_waiting:
  assumes "quiet st st'"
  shows "waiting st' = waiting st"
proof -
  obtain n where n: "map pend (ls_heap st') = map pend (ls_heap st) @ replicate n no_pend"
    using assms by (auto simp: quiet_def)
  have "fst (snd (snd (pend x))) = cx_pendingResolve x" for x by (simp add: pend_def)
  then have ex: "(\<exists>x \<in> set h. cx_pendingResolve x = Some p) \<longleftrightarrow> (\<exists>y \<in> set (map pend h). fst (snd (snd y)) = Some p)" for h p
    by auto
  show ?thesis using assms unfolding waiting_def ex n by (auto simp: quiet_def)
qed

lemma settles_inv:
  assumes s: "settles S st st'" and inv: "inv_upto W st"
  shows "inv_upto (W - S) st'"
proof -
  have wf: "wf_state st" and q: "queued st" and ok: "\<forall>x \<in> set (ls_heap st). pend_ok (pend x)"
    and w: "\<And>p. p < length (ls_promises st) \<Longrightarrow> ls_promises st ! p = Pending \<Longrightarrow> p \<in> waiting st \<union> W"
    using inv by (auto simp: inv_upto_def)
  have qt: "quiet st st'" using s by (simp add: settles_def)
  obtain n where n: "map pend (ls_heap st') = map pend (ls_heap st) @ replicate n no_pend"
    using qt by (auto simp: quiet_def)
  note P = pend_nth [OF n]
  have ps: "fst (pend x) = cx_pendingSingle x" for x by (simp add: pend_def)
  have "queued st'"
    unfolding queued_def
  proof (intro conjI allI impI)
    fix c assume "c < length (ls_heap st')" "cx_pendingSingle (ls_heap st' ! c)"
    then have "c < length (ls_heap st)" "cx_pendingSingle (ls_heap st ! c)"
      using P(2,3) [of c] ps by (metis fst_conv not_le)+
    then show "\<exists>opn. FlushSingle opn c \<in> set (ls_micro st')" using q qt by (auto simp: queued_def quiet_def)
  next
    fix opn c assume "FlushSingle opn c \<in> set (ls_micro st')"
    then show "c < length (ls_heap st')" using q qt P(1) by (fastforce simp: queued_def quiet_def)
  qed (use q qt in \<open>auto simp: queued_def quiet_def\<close>)
  moreover have "\<forall>x \<in> set (ls_heap st'). pend_ok (pend x)"
  proof -
    have "pend ` set (ls_heap st') \<subseteq> pend ` set (ls_heap st) \<union> {no_pend}"
      using arg_cong [OF n, of set] by auto
    moreover have "\<forall>y \<in> pend ` set (ls_heap st) \<union> {no_pend}. pend_ok y" using ok by (auto simp: pend_ok_def)
    ultimately show ?thesis by blast
  qed
  moreover have "p \<in> waiting st' \<union> (W - S)" if "p < length (ls_promises st')" "ls_promises st' ! p = Pending" for p
  proof -
    have p: "p < length (ls_promises st)" using s that by (simp add: settles_def)
    then have "ls_promises st ! p = Pending" "p \<notin> S" using s that by (auto simp: settles_def)
    with w [OF p] show ?thesis by (auto simp: quiet_waiting [OF qt])
  qed
  moreover have "wf_state st'" using qt wf by (simp add: quiet_def)
  ultimately show ?thesis by (auto simp: inv_upto_def)
qed

lemma inv_settles0: "inv_upto W st \<Longrightarrow> settles {} st st' \<Longrightarrow> inv_upto W st'"
  using settles_inv [of "{}" st st' W] by simp

lemma inv_mono: "inv_upto W st \<Longrightarrow> W \<subseteq> V \<Longrightarrow> inv_upto V st"
  unfolding inv_upto_def by blast

section \<open>Every action keeps the invariant\<close>

lemma inv_new_promise:
  assumes "inv_upto W st"
  shows "inv_upto (W \<union> (if s = Pending then {length (ls_promises st)} else {})) (st\<lparr>ls_promises := ls_promises st @ [s]\<rparr>)"
  using assms by (auto simp: inv_upto_def wf_state_def queued_def waiting_def nth_append less_Suc_eq)

lemma waiting_enqueue: "waiting (enqueue st opn req) = insert (rq_promise req) (waiting st)"
proof -
  have up: "(\<Union>(o', l) \<in> set (AList.update opn ((case map_of b opn of None \<Rightarrow> [] | Some l \<Rightarrow> l) @ [req]) b). proms l)
    = insert (rq_promise req) (\<Union>(o', l) \<in> set b. proms l)" for b
  proof (induction b)
    case (Cons e b)
    then show ?case by (cases e) auto
  qed simp
  show ?thesis
    unfolding waiting_def enqueue_def Let_def by (auto simp: up)
qed

lemma inv_enqueue:
  assumes "inv_upto W st"
  shows "inv_upto (W - {rq_promise req}) (enqueue st opn req)"
proof -
  let ?s = "enqueue st opn req"
  have eq: "ls_heap ?s = ls_heap st" "ls_promises ?s = ls_promises st" "ls_ctxs ?s = ls_ctxs st"
    "ls_opFns ?s = ls_opFns st" "ls_cache ?s = ls_cache st" "ls_options ?s = ls_options st"
    "set (ls_micro ?s) = set (ls_micro st) \<union> (if ls_scheduled st then {} else {CoalescerFlush})"
    "ls_scheduled ?s"
    by (simp_all add: enqueue_def Let_def)
  have "queued ?s" using assms by (auto simp: inv_upto_def queued_def eq)
  with assms show ?thesis
    by (auto simp: inv_upto_def wf_state_def eq waiting_enqueue)
qed

lemma queued_upd:
  assumes "queued st" and "\<And>x. cx_pendingSingle (f x) \<Longrightarrow> cx_pendingSingle x"
  shows "queued (upd_ctx st c f)"
  using assms by (auto simp: queued_def upd_ctx_def nth_update_at split: if_splits)

lemma bex_nth: "(\<exists>x \<in> set xs. P x) \<longleftrightarrow> (\<exists>i < length xs. P (xs ! i))"
  by (metis in_set_conv_nth)

lemma waiting_clear:
  assumes "c < length (ls_heap st)" and "\<And>x. cx_pendingResolve (f x) = None"
  shows "waiting st \<subseteq> waiting (upd_ctx st c f) \<union> set_option (cx_pendingResolve (ls_heap st ! c))"
proof
  fix p assume "p \<in> waiting st"
  then consider "p \<in> (\<Union>(opn, reqs) \<in> set (ls_buffer st). proms reqs)"
    | i where "i < length (ls_heap st)" "cx_pendingResolve (ls_heap st ! i) = Some p"
    by (auto simp: waiting_def in_set_conv_nth)
  then show "p \<in> waiting (upd_ctx st c f) \<union> set_option (cx_pendingResolve (ls_heap st ! c))"
  proof cases
    case 1
    then show ?thesis by (simp add: waiting_def upd_ctx_def)
  next
    case 2
    show ?thesis
    proof (cases "i = c")
      case False
      with 2 have "cx_pendingResolve (ls_heap (upd_ctx st c f) ! i) = Some p" "i < length (ls_heap (upd_ctx st c f))"
        by (simp_all add: upd_ctx_def)
      then have "\<exists>x \<in> set (ls_heap (upd_ctx st c f)). cx_pendingResolve x = Some p" by (metis nth_mem)
      then show ?thesis by (simp add: waiting_def)
    qed (use 2 in simp)
  qed
qed

lemma pend_ok_update:
  "\<forall>x \<in> set h. pend_ok (pend x) \<Longrightarrow> pend_ok (pend y) \<Longrightarrow> \<forall>x \<in> set (h[c := y]). pend_ok (pend x)"
  using set_update_subset_insert [of h c y] by blast

lemma inv_clear_pending:
  assumes inv: "inv_upto W st" and c: "c < length (ls_heap st)" and f: "\<And>x. pend (f x) = no_pend"
  shows "inv_upto (W \<union> set_option (cx_pendingResolve (ls_heap st ! c))) (upd_ctx st c f)"
proof -
  have f': "cx_pendingSingle (f x) = False" "cx_pendingResolve (f x) = None" for x
    using f [of x] by (simp_all add: pend_def)
  have "queued (upd_ctx st c f)" using inv f' by (intro queued_upd) (auto simp: inv_upto_def)
  moreover have "\<forall>x \<in> set (ls_heap (upd_ctx st c f)). pend_ok (pend x)"
    using inv f pend_ok_update [of "ls_heap st" "f (ls_heap st ! c)" c]
    by (simp add: upd_ctx_def inv_upto_def pend_ok_def)
  moreover have "wf_state (upd_ctx st c f)" using inv by (simp add: inv_upto_def wf_state_def upd_ctx_def)
  ultimately show ?thesis
    using inv waiting_clear [OF c, of f] f' by (auto simp: inv_upto_def upd_ctx_def)
qed

lemma pend_clear [simp]: "pend (clear_pending x) = no_pend"
  by (simp add: pend_def clear_pending_def)

lemma inv_set_pending:
  assumes inv: "inv_upto W st" and c: "c < length (ls_heap st)" and np: "\<not> cx_pendingSingle (ls_heap st ! c)"
  shows "inv_upto (W - {p}) ((upd_ctx st c (set_pending input p key))\<lparr>ls_micro := ls_micro st @ [FlushSingle opn c]\<rparr>)"
    (is "inv_upto _ ?s")
proof -
  have none: "cx_pendingResolve (ls_heap st ! c) = None"
    using inv c np by (auto simp: inv_upto_def pend_ok_def pend_def dest!: bspec [OF _ nth_mem [OF c]])
  have heap: "ls_heap ?s = (ls_heap st)[c := set_pending input p key (ls_heap st ! c)]" by (simp add: upd_ctx_def)
  have "queued ?s"
    unfolding queued_def heap
    using inv c by (auto simp: inv_upto_def queued_def upd_ctx_def nth_update_at split: if_splits)
  moreover have "\<forall>x \<in> set (ls_heap ?s). pend_ok (pend x)"
    using inv unfolding heap
    by (intro pend_ok_update) (simp_all add: inv_upto_def pend_ok_def pend_def set_pending_def)
  moreover have "waiting ?s = insert p (waiting st)"
  proof -
    have "{q. \<exists>x \<in> set (ls_heap ?s). cx_pendingResolve x = Some q} = insert p {q. \<exists>x \<in> set (ls_heap st). cx_pendingResolve x = Some q}"
    proof (rule set_eqI)
      fix q
      have R: "cx_pendingResolve (ls_heap ?s ! i) = (if i = c then Some p else cx_pendingResolve (ls_heap st ! i))"
        if "i < length (ls_heap st)" for i
        unfolding heap using that by (simp add: nth_update_at set_pending_def)
      have "(\<exists>i < length (ls_heap st). cx_pendingResolve (ls_heap ?s ! i) = Some q) \<longleftrightarrow>
        q = p \<or> (\<exists>i < length (ls_heap st). cx_pendingResolve (ls_heap st ! i) = Some q)"
        using R none c by (metis option.distinct(1) option.inject)
      then show "q \<in> {q. \<exists>x \<in> set (ls_heap ?s). cx_pendingResolve x = Some q} \<longleftrightarrow>
        q \<in> insert p {q. \<exists>x \<in> set (ls_heap st). cx_pendingResolve x = Some q}"
        unfolding mem_Collect_eq insert_iff bex_nth by (simp add: heap)
    qed
    then show ?thesis by (simp add: waiting_def upd_ctx_def)
  qed
  ultimately show ?thesis
    using inv by (auto simp: inv_upto_def wf_state_def upd_ctx_def)
qed

lemma settles_load_key: "load_key env st c opn spec input opts = (plan, st') \<Longrightarrow> settles {} st st'"
proof -
  assume a: "load_key env st c opn spec input opts = (plan, st')"
  obtain b st1 where sh: "shouldComputeDefaultKey st c = (b, st1)" by force
  let ?s2 = "upd_ctx st1 c (\<lambda>x. x\<lparr>cx_keyAttempts := cx_keyAttempts x + 1\<rparr>)"
  have s1: "settles {} st st1" by (rule settles_should [OF sh])
  have "settles {} st1 ?s2" by (rule settles_upd_ctx) (simp add: pend_def)
  with s1 have s2: "settles {} st ?s2" by (rule settles_trans0)
  have hit1: "settles {} st (upd_ctx st3 c (\<lambda>x. x\<lparr>cx_cachedHits := Suc (cx_cachedHits x)\<rparr>))"
    if "cache_get st k = (v, st3)" for v st3 k
    by (rule settles_trans0 [OF settles_cache_get [OF that] settles_upd_ctx]) (simp add: pend_def)
  have hit: "settles {} st (upd_ctx st3 c (\<lambda>x. x\<lparr>cx_cachedHits := Suc (cx_cachedHits x), cx_keyHits := Suc (cx_keyHits x)\<rparr>))"
    if "cache_get ?s2 k = (v, st3)" for v st3 k
    by (rule settles_trans0 [OF settles_trans0 [OF s2 settles_cache_get [OF that]] settles_upd_ctx])
      (simp add: pend_def)
  have miss: "settles {} st st3" if "cache_get ?s2 k = (v, st3)" for v st3 k
    by (rule settles_trans0 [OF s2 settles_cache_get [OF that]])
  show ?thesis
    using a sh s1 s2 settles_cache_get [of st]
    by (auto simp: load_key_def Let_def settles_refl split: if_splits bool.splits sum.splits prod.splits option.splits
        intro: hit [simplified] hit1 miss [simplified])
qed

lemma ctxFor_less: "wf_state st \<Longrightarrow> ctxFor st opn = (c, st') \<Longrightarrow> c < length (ls_heap st')"
  by (auto simp: ctxFor_def wf_state_def dest!: map_of_SomeD split: option.splits)

lemma quiet_heap_length: "settles S st st' \<Longrightarrow> length (ls_heap st) \<le> length (ls_heap st')"
  using pend_nth(1) by (fastforce simp: settles_def quiet_def)

lemma inv_load_enqueue:
  assumes inv: "inv_upto {p} st" and c: "c < length (ls_heap st)"
  shows "loader_inv (load_enqueue st c opn input p key needs)"
proof -
  let ?x = "ls_heap st ! c"
  have ok: "pend_ok (pend ?x)" using inv c by (simp add: inv_upto_def)
  consider "cx_mode ?x = Coalesce" | "cx_mode ?x = Single" "\<not> cx_pendingSingle ?x"
    | "cx_mode ?x = Single" "cx_pendingSingle ?x"
    by (cases "cx_mode ?x") auto
  then show ?thesis
  proof cases
    case 1
    then show ?thesis
      using inv_enqueue [OF inv, of "\<lparr>rq_input = input, rq_promise = p, rq_key = key, rq_needsDefaultKey = needs\<rparr>" opn]
      by (simp add: load_enqueue_def Let_def)
  next
    case 2
    then show ?thesis
      using inv_set_pending [OF inv c 2(2), where p = p and input = input and key = key and opn = opn] by (simp add: load_enqueue_def Let_def)
  next
    case 3
    then obtain i q where x: "cx_pendingInput ?x = Some i" "cx_pendingResolve ?x = Some q"
      using ok by (auto simp: pend_ok_def pend_def)
    let ?s1 = "upd_ctx st c (\<lambda>x. (clear_pending x)\<lparr>cx_mode := Coalesce\<rparr>)"
    have "inv_upto {p, q} ?s1"
      using inv_clear_pending [OF inv c, of "\<lambda>x. (clear_pending x)\<lparr>cx_mode := Coalesce\<rparr>"] x
      by (simp add: pend_def clear_pending_def insert_commute)
    from inv_enqueue [OF inv_enqueue [OF this, of "\<lparr>rq_input = i, rq_promise = q, rq_key = cx_pendingKey ?x,
        rq_needsDefaultKey = False\<rparr>" opn], of "\<lparr>rq_input = input, rq_promise = p, rq_key = key, rq_needsDefaultKey = False\<rparr>" opn]
    have "inv_upto ({p, q} - {q} - {p}) (load_enqueue st c opn input p key needs)"
      using 3 x by (simp add: load_enqueue_def Let_def)
    then show ?thesis by (rule inv_mono) auto
  qed
qed

lemma inv_loadOne: "loader_inv st \<Longrightarrow> loader_inv (snd (loadOne env st opn input opts))"
proof -
  assume inv: "loader_inv st"
  obtain c s1 where c: "ctxFor st opn = (c, s1)" by force
  obtain plan s2 where k: "load_key env s1 c opn (ev_ops env opn) input opts = (plan, s2)" by force
  have s1: "settles {} st s1" and s2: "settles {} s1 s2" by (rule settles_ctxFor [OF c], rule settles_load_key [OF k])
  have inv2: "loader_inv s2" by (rule inv_settles0 [OF inv_settles0 [OF inv s1] s2])
  have "c < length (ls_heap s1)" using inv c ctxFor_less [of st opn c s1] by (simp add: inv_upto_def)
  then have cl: "c < length (ls_heap s2)" using quiet_heap_length [OF s2] by simp
  have pnd: "loader_inv (load_enqueue (s2\<lparr>ls_promises := ls_promises s2 @ [Pending]\<rparr>) c opn input
      (length (ls_promises s2)) key needs)" for key needs
    using inv_new_promise [OF inv2, of Pending] cl by (intro inv_load_enqueue) simp_all
  have "s \<noteq> Pending \<Longrightarrow> loader_inv (s2\<lparr>ls_promises := ls_promises s2 @ [s]\<rparr>)" for s
    using inv_new_promise [OF inv2, of s] by simp
  moreover have "loader_inv (st\<lparr>ls_promises := ls_promises st @ [Rejected e]\<rparr>)" for e
    using inv_new_promise [OF inv, of "Rejected e"] by simp
  ultimately show ?thesis
    using c k inv2 pnd by (cases plan) (auto simp: loadOne_def new_promise_def Let_def)
qed

lemma inv_flushSingle:
  assumes inv: "loader_inv st" and m: "ls_micro st = FlushSingle opn c # ts"
  shows "loader_inv (flushSingle env (st\<lparr>ls_micro := ts\<rparr>) opn c)"
proof -
  let ?x = "ls_heap st ! c" and ?s0 = "st\<lparr>ls_micro := ts\<rparr>"
  let ?s1 = "upd_ctx ?s0 c clear_pending"
  have c: "c < length (ls_heap st)" using inv m by (simp add: inv_upto_def queued_def)
  have ok: "pend_ok (pend ?x)" using inv c by (simp add: inv_upto_def)
  have micro: "CoalescerFlush \<in> set ts \<longleftrightarrow> CoalescerFlush \<in> set (ls_micro st)" by (simp add: m)
  have "inv_upto (set_option (cx_pendingResolve ?x)) (upd_ctx st c clear_pending)"
    using inv_clear_pending [OF inv c pend_clear] by simp
  then have "inv_upto (set_option (cx_pendingResolve ?x)) ?s1"
    using c by (auto simp: inv_upto_def wf_state_def queued_def waiting_def upd_ctx_def m nth_update_at
        clear_pending_def split: if_splits)
  note I = this
  show ?thesis
  proof (cases "cx_pendingResolve ?x")
    case None
    then show ?thesis using I by (simp add: flushSingle_def Let_def split: option.splits)
  next
    case (Some p)
    then obtain i where i: "cx_pendingInput ?x = Some i" "cx_pendingReject ?x = Some p"
      using ok by (auto simp: pend_ok_def pend_def split: if_splits)
    obtain r s2 where d: "lone_dispatch env ?s1 c (ev_ops env opn) i (cx_pendingKey ?x) = (r, s2)" by force
    have "inv_upto {p} s2" using inv_settles0 [OF I settles_lone_dispatch [OF d]] Some by simp
    then have "s \<noteq> Pending \<Longrightarrow> loader_inv (settle s2 p s)" for s
      using settles_inv [OF settles_settle, of s "{p}" s2 p] by simp
    then show ?thesis using Some i d by (cases r) (simp_all add: flushSingle_def Let_def)
  qed
qed

lemma inv_coalescer_flush:
  assumes inv: "loader_inv st" and m: "ls_micro st = CoalescerFlush # ts" and keys: "keys_total env"
  shows "loader_inv (snd (coalescer_flush env (st\<lparr>ls_micro := ts\<rparr>)))"
proof -
  let ?s = "st\<lparr>ls_micro := ts, ls_scheduled := False, ls_buffer := [], ls_pending := 0\<rparr>"
  let ?W = "\<Union>(opn, reqs) \<in> set (ls_buffer st). proms reqs"
  have "inv_upto ?W ?s"
    using inv by (auto simp: inv_upto_def wf_state_def queued_def waiting_def m)
  moreover obtain err s' where f: "flush_groups env ?s (ls_buffer st) = (err, s')" by force
  ultimately have "inv_upto (?W - ?W) s'"
    using settles_inv settles_flush_groups [OF keys f] by blast
  with f show ?thesis by (simp add: coalescer_flush_def)
qed

lemma inv_run_micro:
  assumes "loader_inv st" and "keys_total env"
  shows "loader_inv (run_micro env st)"
  using assms inv_flushSingle inv_coalescer_flush
  by (auto simp: run_micro_def split: list.splits microtask.splits)

lemma run_micro_queue:
  assumes "keys_total env"
  shows "ls_micro (run_micro env st) = tl (ls_micro st)"
proof (cases "ls_micro st")
  case (Cons t ts)
  show ?thesis
  proof (cases t)
    case CoalescerFlush
    obtain err s' where f: "flush_groups env (st\<lparr>ls_micro := ts, ls_scheduled := False, ls_buffer := [], ls_pending := 0\<rparr>)
        (ls_buffer st) = (err, s')" by force
    have "ls_micro s' = ts" using settles_flush_groups [OF assms f] by (auto simp: settles_def quiet_def)
    with f Cons CoalescerFlush show ?thesis by (simp add: run_micro_def coalescer_flush_def)
  next
    case (FlushSingle opn c)
    have "ls_micro s2 = ts" if "lone_dispatch env (upd_ctx (st\<lparr>ls_micro := ts\<rparr>) c clear_pending) c sp i k = (r, s2)"
      for sp i k r s2
      using settles_lone_dispatch [OF that] by (simp add: settles_def quiet_def upd_ctx_def)
    with Cons FlushSingle show ?thesis
      by (auto simp: run_micro_def flushSingle_def Let_def upd_ctx_def settle_def split: option.splits prod.splits sum.splits)
  qed
qed (simp add: run_micro_def)

section \<open>The loader as a state machine\<close>

lemma ctxFor_cache: "ctxFor (st\<lparr>ls_cache := k\<rparr>) opn = (\<lambda>(c, s). (c, s\<lparr>ls_cache := k\<rparr>)) (ctxFor st opn)"
  by (simp add: ctxFor_def split: option.splits)

lemma rebind_all_cache: "rebind_all (st\<lparr>ls_cache := k\<rparr>) es = (rebind_all st es)\<lparr>ls_cache := k\<rparr>"
proof (induction es arbitrary: st)
  case (Cons e es)
  obtain opn x where e: "e = (opn, x)" by force
  obtain c s1 where c: "ctxFor st opn = (c, s1)" by force
  have swap: "s1\<lparr>ls_cache := k, ls_opFns := x\<rparr> = s1\<lparr>ls_opFns := x, ls_cache := k\<rparr>" for x by (cases s1) simp
  show ?case
    using Cons.IH [of "s1\<lparr>ls_opFns := AList.update opn c (ls_opFns s1)\<rparr>"]
    by (simp add: e c ctxFor_cache Let_def swap)
qed simp

lemma update_snd: "set (AList.update k v m) \<subseteq> insert (k, v) (set m)"
  by (induction m) auto

lemma inv_opFns:
  assumes "loader_inv st" "c < length (ls_heap st)"
  shows "loader_inv (st\<lparr>ls_opFns := AList.update opn c (ls_opFns st)\<rparr>)"
proof -
  have "\<forall>(k, d) \<in> set (AList.update opn c (ls_opFns st)). d < length (ls_heap st)"
    using assms update_snd [of opn c "ls_opFns st"] by (fastforce simp: inv_upto_def wf_state_def)
  with assms(1) show ?thesis by (simp add: inv_upto_def wf_state_def queued_def waiting_def)
qed

lemma inv_ctxFor_opFns:
  assumes "loader_inv st" and c: "ctxFor st opn = (c, s1)"
  shows "loader_inv (s1\<lparr>ls_opFns := AList.update opn c (ls_opFns s1)\<rparr>)"
  using inv_settles0 [OF assms(1) settles_ctxFor [OF c]] ctxFor_less [OF _ c] assms(1)
  by (intro inv_opFns) (simp_all add: inv_upto_def)

lemma inv_rebind_all: "loader_inv st \<Longrightarrow> loader_inv (rebind_all st es)"
proof (induction es arbitrary: st)
  case (Cons e es)
  obtain opn x where e: "e = (opn, x)" by force
  obtain c s1 where c: "ctxFor st opn = (c, s1)" by force
  with Cons.IH [OF inv_ctxFor_opFns [OF Cons.prems c]] show ?case by (simp add: e)
qed simp

lemma inv_configure: "loader_inv st \<Longrightarrow> loader_inv (configureFn st nxt)"
proof -
  assume inv: "loader_inv st"
  define k where "k = (case op_maxCacheKeys nxt of None \<Rightarrow> ls_cache st
    | Some m \<Rightarrow> if m \<noteq> lo_maxCacheKeys (ls_options st) then createLruCache m else ls_cache st)"
  let ?s = "st\<lparr>ls_options := merge_options nxt (ls_options st), ls_ctxs := []\<rparr>"
  have cache: "ls_cache (rebind_all s es) = ls_cache s" for s es
    by (induction s es rule: rebind_all.induct) (auto simp: Let_def ctxFor_def split: prod.splits option.splits)
  have opts: "ls_options (rebind_all s es) = ls_options s" for s es
    by (induction s es rule: rebind_all.induct) (auto simp: Let_def ctxFor_def split: prod.splits option.splits)
  have cf: "configureFn st nxt = rebind_all (?s\<lparr>ls_cache := k\<rparr>) (ls_opFns st)"
  proof -
    have same: "(rebind_all ?s es)\<lparr>ls_cache := ls_cache st\<rparr> = rebind_all ?s es" for es
      using cache [of ?s es] by (cases "rebind_all ?s es") simp
    have mk: "lo_maxCacheKeys (merge_options nxt x) = or_else (op_maxCacheKeys nxt) (lo_maxCacheKeys x)" for x
      by (simp add: merge_options_def)
    show ?thesis
      unfolding configureFn_def Let_def rebind_all_cache k_def
      by (cases "op_maxCacheKeys nxt") (simp_all add: opts mk or_else_def same)
  qed
  have "loader_inv (?s\<lparr>ls_cache := k\<rparr>)"
    using inv by (auto simp: inv_upto_def wf_state_def queued_def waiting_def k_def merge_options_def or_else_def
        createLruCache_def lru_ok_def split: option.splits)
  then show ?thesis unfolding cf by (rule inv_rebind_all)
qed

inductive loader_reach :: "env \<Rightarrow> option_patch \<Rightarrow> loader_state \<Rightarrow> bool" for env opts where
  reach_new: "loader_reach env opts (createLoader opts)"
| reach_load: "loader_reach env opts st \<Longrightarrow> loader_reach env opts (snd (loadOne env st opn input lopts))"
| reach_micro: "loader_reach env opts st \<Longrightarrow> loader_reach env opts (run_micro env st)"
| reach_single: "loader_reach env opts st \<Longrightarrow> loader_reach env opts (snd (run_single env st opn input rest))"
| reach_bulk: "loader_reach env opts st \<Longrightarrow> loader_reach env opts (snd (run_bulk env st opn inputs rest))"
| reach_fn: "loader_reach env opts st \<Longrightarrow> loader_reach env opts (snd (makeOpFn st opn))"
| reach_configure: "loader_reach env opts st \<Longrightarrow> loader_reach env opts (configureFn st nxt)"
| reach_clear: "loader_reach env opts st \<Longrightarrow> loader_reach env opts (loader_clear st)"

lemma reach_inv: "loader_reach env opts st \<Longrightarrow> keys_total env \<Longrightarrow> loader_inv st"
proof (induction rule: loader_reach.induct)
  case reach_new
  then show ?case
    by (auto simp: inv_upto_def wf_state_def queued_def createLoader_def createLruCache_def lru_ok_def
        merge_options_def default_options_def)
next
  case (reach_single st opn input rest)
  obtain c s1 where c: "ctxFor st opn = (c, s1)" by force
  obtain r s2 where d: "dispatchSingle env s1 c (ev_ops env opn) input rest = (r, s2)" by force
  from settles_trans0 [OF settles_ctxFor [OF c] settles_dispatchSingle [OF d]] reach_single c d
  show ?case by (simp add: run_single_def inv_settles0)
next
  case (reach_bulk st opn inputs rest)
  obtain c s1 where c: "ctxFor st opn = (c, s1)" by force
  obtain r s2 where d: "dispatchBulk env s1 c (ev_ops env opn) inputs rest = (r, s2)" by force
  from settles_trans0 [OF settles_ctxFor [OF c] settles_dispatchBulk [OF d]] reach_bulk c d
  show ?case by (simp add: run_bulk_def inv_settles0)
next
  case (reach_fn st opn)
  obtain c s1 where c: "ctxFor st opn = (c, s1)" by force
  with reach_fn inv_ctxFor_opFns [OF _ c] show ?case by (auto simp: makeOpFn_def split: option.splits)
next
  case (reach_clear st)
  then have "settles {} st (loader_clear st)"
    unfolding loader_clear_def by (intro settles_cache) (auto simp: lru_clear_def lru_ok_def)
  with reach_clear show ?case by (simp add: inv_settles0)
qed (simp_all add: inv_loadOne inv_run_micro inv_configure)

section \<open>Draining the queue\<close>

definition drain :: "env \<Rightarrow> loader_state \<Rightarrow> loader_state" where
  "drain env st = (run_micro env ^^ length (ls_micro st)) st"

definition keeps_answers :: "loader_state \<Rightarrow> loader_state \<Rightarrow> bool" where
  "keeps_answers st st' \<longleftrightarrow> length (ls_promises st') = length (ls_promises st)
     \<and> (\<forall>p < length (ls_promises st). ls_promises st ! p \<noteq> Pending \<longrightarrow> ls_promises st' ! p = ls_promises st ! p)"

lemma settles_keeps: "settles S st st' \<Longrightarrow> keeps_answers st st'"
  by (auto simp: settles_def keeps_answers_def)

lemma keeps_trans: "keeps_answers a b \<Longrightarrow> keeps_answers b c \<Longrightarrow> keeps_answers a c"
  by (auto simp: keeps_answers_def)

lemma keeps_same: "ls_promises st' = ls_promises st \<Longrightarrow> keeps_answers st st'"
  by (simp add: keeps_answers_def)

lemma run_micro_keeps:
  assumes "keys_total env"
  shows "keeps_answers st (run_micro env st)"
proof (cases "ls_micro st")
  case (Cons t ts)
  show ?thesis
  proof (cases t)
    case CoalescerFlush
    let ?s = "st\<lparr>ls_micro := ts, ls_scheduled := False, ls_buffer := [], ls_pending := 0\<rparr>"
    obtain err s' where f: "flush_groups env ?s (ls_buffer st) = (err, s')" by force
    have "keeps_answers st ?s" by (rule keeps_same) simp
    then have "keeps_answers st s'"
      using keeps_trans settles_keeps settles_flush_groups [OF assms f] by blast
    with f Cons CoalescerFlush show ?thesis by (simp add: run_micro_def coalescer_flush_def)
  next
    case (FlushSingle opn c)
    let ?s = "upd_ctx (st\<lparr>ls_micro := ts\<rparr>) c clear_pending"
    have 1: "keeps_answers st ?s" by (rule keeps_same) (simp add: upd_ctx_def)
    have 2: "keeps_answers st s2" if "lone_dispatch env ?s c sp i k = (r, s2)" for sp i k r s2
      by (rule keeps_trans [OF 1 settles_keeps [OF settles_lone_dispatch [OF that]]])
    have 3: "keeps_answers st (settle s2 q v)"
      if "lone_dispatch env ?s c sp i k = (r, s2)" "v \<noteq> Pending" for sp i k r s2 q v
      by (rule keeps_trans [OF 2 [OF that(1)] settles_keeps [OF settles_settle [OF that(2)]]])
    from Cons FlushSingle 1 2 3 show ?thesis
      by (auto simp: run_micro_def flushSingle_def Let_def split: option.splits prod.splits sum.splits)
  qed
qed (simp add: run_micro_def keeps_same)

lemma drain_steps:
  assumes "keys_total env" and "loader_inv st"
  shows "ls_micro ((run_micro env ^^ n) st) = drop n (ls_micro st) \<and> loader_inv ((run_micro env ^^ n) st)
    \<and> keeps_answers st ((run_micro env ^^ n) st)"
proof (induction n)
  case 0
  then show ?case using assms by (simp add: keeps_same)
next
  case (Suc n)
  let ?s = "(run_micro env ^^ n) st"
  from Suc have "ls_micro (run_micro env ?s) = drop (Suc n) (ls_micro st)"
    by (simp add: run_micro_queue [OF assms(1)] drop_Suc tl_drop)
  with Suc inv_run_micro [OF _ assms(1), of ?s] keeps_trans [OF _ run_micro_keeps [OF assms(1)], of st ?s]
  show ?case by simp
qed

lemma inv_idle: "loader_inv st \<Longrightarrow> ls_micro st = [] \<Longrightarrow> p < length (ls_promises st) \<Longrightarrow> ls_promises st ! p \<noteq> Pending"
proof
  assume inv: "loader_inv st" and m: "ls_micro st = []" and p: "p < length (ls_promises st)" "ls_promises st ! p = Pending"
  have "ls_buffer st = []" using inv m by (auto simp: inv_upto_def queued_def)
  moreover have "cx_pendingResolve x = None" if x: "x \<in> set (ls_heap st)" for x
  proof -
    obtain c where c: "c < length (ls_heap st)" "x = ls_heap st ! c" using x by (auto simp: in_set_conv_nth)
    have "queued st" using inv by (simp add: inv_upto_def)
    then have "\<not> cx_pendingSingle (ls_heap st ! c)" using c(1) unfolding queued_def m by simp
    then have "\<not> cx_pendingSingle x" by (simp add: c(2))
    moreover have "pend_ok (pend x)" using inv x by (simp add: inv_upto_def)
    ultimately show ?thesis by (simp add: pend_ok_def pend_def)
  qed
  ultimately have "waiting st = {}" by (auto simp: waiting_def)
  with inv p show False by (auto simp: inv_upto_def)
qed

section \<open>Properties\<close>

text \<open>
  C2. No load is ever lost: from every state the loader can reach by loads, single and bulk runs,
  reconfigurations, cache clears and microtask turns, running the queued microtasks empties the queue
  and leaves every promise answered, and an answer once given never changes. The only assumption is
  that the native packed key hash does not throw.
\<close>

theorem load_answered:
  assumes "loader_reach env opts st" and "keys_total env"
  shows "ls_micro (drain env st) = []
    \<and> length (ls_promises (drain env st)) = length (ls_promises st)
    \<and> (\<forall>p < length (ls_promises st). ls_promises (drain env st) ! p \<noteq> Pending
        \<and> (ls_promises st ! p \<noteq> Pending \<longrightarrow> ls_promises (drain env st) ! p = ls_promises st ! p))"
proof -
  have D: "ls_micro (drain env st) = []" "loader_inv (drain env st)" "keeps_answers st (drain env st)"
    using drain_steps [OF assms(2) reach_inv [OF assms], of "length (ls_micro st)"] by (simp_all add: drain_def)
  then show ?thesis using inv_idle [OF D(2,1)] by (auto simp: keeps_answers_def)
qed

definition demo_fast :: fast_spec where
  "demo_fast = \<lparr>fs_batch = (\<lambda>packed out. Inr out), fs_elem = U32Fast\<rparr>"

definition demo_env :: "(bytes \<Rightarrow> bytes \<Rightarrow> bytes result) \<Rightarrow> env" where
  "demo_env keys = \<lparr>ev_ops = (\<lambda>_. \<lparr>sp_kind = KNumber, sp_scalar = (\<lambda>_ _. Inr (VNum 0)),
       sp_batch = (\<lambda>items _. Inr (BU32 (map (\<lambda>_. 0) items))), sp_fast = Some demo_fast, sp_pairedRest = [],
       sp_unsigned = False\<rparr>),
     ev_fnv = (\<lambda>b. Inr (length b)), ev_fnvInto = keys, ev_clock = (\<lambda>n. of_nat (n + 1))\<rparr>"

definition no_patch :: option_patch where
  "no_patch = \<lparr>op_adaptive = None, op_batchMin = None, op_maxCacheKeys = None, op_caching = None,
     op_sampleEvery = None, op_loadStrategy = None\<rparr>"

definition no_opts :: load_opts where
  "no_opts = \<lparr>op_key = None, op_cache = None\<rparr>"

text \<open>Two loads of the same op in one tick.\<close>

definition burst :: "env \<Rightarrow> loader_state" where
  "burst env = snd (loadOne env (snd (loadOne env (createLoader no_patch) (js ''crc32'') [1] no_opts)) (js ''crc32'') [2, 3] no_opts)"

lemma burst_reach: "loader_reach env no_patch (burst env)"
  unfolding burst_def by (intro loader_reach.intros)

theorem load_answered_witness:
  "ls_micro (drain (demo_env (\<lambda>_ out. Inr out)) (burst (demo_env (\<lambda>_ out. Inr out)))) = []"
  using load_answered [OF burst_reach, of "demo_env (\<lambda>_ out. Inr out)"]
  by (simp add: keys_total_def demo_env_def)

text \<open>
  The loader's cache is bounded at all times by the current \<open>maxCacheKeys\<close>, through loads,
  flushes, reconfigurations that change the bound, and clears; a bound of zero or less keeps it empty.
\<close>

theorem loader_cache_bounded:
  assumes "loader_reach env opts st" and "keys_total env"
  shows "int (st_cacheSize (statsGetter st)) \<le> max 0 (lo_maxCacheKeys (ls_options st))"
  using reach_inv [OF assms]
  by (auto simp: statsGetter_def Let_def lru_size_def inv_upto_def wf_state_def lru_ok_def)

theorem loader_cache_bounded_witness:
  "int (st_cacheSize (statsGetter (burst (demo_env (\<lambda>_ out. Inr out)))))
     \<le> max 0 (lo_maxCacheKeys (ls_options (burst (demo_env (\<lambda>_ out. Inr out)))))"
  by (rule loader_cache_bounded [OF burst_reach]) (simp add: keys_total_def demo_env_def)

end
