(* ===== verification/LoaderValues.thy ===== *)
theory LoaderValues
  imports LoaderLive
begin

text \<open>
  What a load is answered with: the routes of a flush (the scalar call of a lone request, the packed
  fast path, the batch call and the adaptive scalar loop) all give each request the result of its own
  input, when the native variants of an op agree.
\<close>

section \<open>The agreement of an op's native variants\<close>

definition kind_typed :: "op_spec \<Rightarrow> lval \<Rightarrow> bool" where
  "kind_typed spec v =
     (case sp_kind spec of
        KBoolean \<Rightarrow> (case v of VBool _ \<Rightarrow> True | _ \<Rightarrow> False)
      | KNumber \<Rightarrow> (case v of VNum n \<Rightarrow> 0 \<le> n \<and> n < 2 ^ 32 | _ \<Rightarrow> False)
      | KBigint \<Rightarrow> (case v of VBig n \<Rightarrow> (if sp_unsigned spec then 0 \<le> n \<and> n < 2 ^ 64
                                        else - (2 ^ 63) \<le> n \<and> n < 2 ^ 63) | _ \<Rightarrow> False)
      | KBytes \<Rightarrow> (case v of VBytes _ \<Rightarrow> True | VStr _ \<Rightarrow> True | _ \<Rightarrow> False))"

text \<open>
  The documented parity of the op registry: the scalar returns a value of the op's kind, and the
  batch and the packed variants compute the same value per item.
\<close>

definition parity :: "op_spec \<Rightarrow> (bytes \<Rightarrow> lval) \<Rightarrow> bool" where
  "parity spec f \<longleftrightarrow>
     (\<forall>b. \<exists>v. sp_scalar spec b [] = Inr v \<and> kind_typed spec v \<and> asBytes v = f b)
     \<and> (\<forall>items. \<exists>out. sp_batch spec items [] = Inr out \<and> (\<forall>i < length items. bulk_elem out i = f (items ! i)))
     \<and> (\<forall>fast. sp_fast spec = Some fast \<longrightarrow> (\<forall>items out. fast_outSize (fs_elem fast) (length items) \<le> length out \<longrightarrow>
          (\<exists>out'. fs_batch fast (pack_layout items) out = Inr out'
             \<and> (\<forall>i < length items. fast_element (fs_elem fast) out' i = Inr (f (items ! i))))))"

lemma parity_scalar: "parity spec f \<Longrightarrow> \<exists>v. sp_scalar spec b [] = Inr v \<and> kind_typed spec v \<and> asBytes v = f b"
  unfolding parity_def by blast

lemma itemRest_Nil [simp]: "itemRest spec [] i = []"
  by (simp add: itemRest_def)

lemma scalar_loop_parity:
  assumes "parity spec f"
  shows "\<exists>vs. scalar_loop spec [] i items = Inr vs \<and> length vs = length items
    \<and> (\<forall>k < length items. kind_typed spec (vs ! k) \<and> asBytes (vs ! k) = f (items ! k))"
proof (induction items arbitrary: i)
  case (Cons b items)
  obtain v where v: "sp_scalar spec b [] = Inr v" "kind_typed spec v" "asBytes v = f b"
    using parity_scalar [OF assms] by blast
  obtain vs where vs: "scalar_loop spec [] (Suc i) items = Inr vs" "length vs = length items"
    "\<forall>k < length items. kind_typed spec (vs ! k) \<and> asBytes (vs ! k) = f (items ! k)"
    using Cons.IH by blast
  show ?case
    using v vs by (intro exI [of _ "v # vs"]) (auto simp: nth_Cons split: nat.splits)
qed simp

lemma to_signed64_wrap: "- (2 ^ 63) \<le> n \<Longrightarrow> n < 2 ^ 63 \<Longrightarrow> to_signed64 (nat (n mod 2 ^ 64)) = n"
proof -
  assume a: "- (2 ^ 63) \<le> n" "n < 2 ^ 63"
  show ?thesis
  proof (cases "0 \<le> n")
    case True
    then have "n mod 2 ^ 64 = n" using a by simp
    with True a show ?thesis by (simp add: to_signed64_def)
  next
    case False
    have "n mod 2 ^ 64 = (n + 2 ^ 64) mod 2 ^ 64" by simp
    also have "\<dots> = n + 2 ^ 64" using a False by (intro mod_pos_pos_trivial) simp_all
    finally have "n mod 2 ^ 64 = n + 2 ^ 64" .
    with a False show ?thesis by (simp add: to_signed64_def)
  qed
qed

text \<open>The adaptive scalar loop builds the same bulk elements as the scalar calls.\<close>

lemma scalarLoopBulk_parity:
  assumes p: "parity spec f"
  shows "\<exists>out. scalarLoopBulk spec items [] = Inr out \<and> (\<forall>i < length items. bulk_elem out i = f (items ! i))"
proof -
  obtain vs where vs: "scalar_loop spec [] 0 items = Inr vs" "length vs = length items"
    "\<forall>k < length items. kind_typed spec (vs ! k) \<and> asBytes (vs ! k) = f (items ! k)"
    using scalar_loop_parity [OF p] by blast
  have el: "kind_typed spec (vs ! i)" "asBytes (vs ! i) = f (items ! i)" if "i < length items" for i
    using vs(3) that by blast+
  show ?thesis
  proof (cases "sp_kind spec")
    case KBoolean
    have vb: "VBool (truthy (vs ! i)) = f (items ! i)" if "i < length items" for i
    proof -
      have "asBytes (vs ! i) = vs ! i" "VBool (truthy (vs ! i)) = vs ! i"
        using el(1) [OF that] by (cases "vs ! i"; simp add: kind_typed_def KBoolean asBytes_def)+
      with el(2) [OF that] show ?thesis by metis
    qed
    have "bulk_elem (BU8 (map (\<lambda>v. if truthy v then 1 else 0) vs)) i = f (items ! i)" if "i < length items" for i
    proof -
      have "bulk_elem (BU8 (map (\<lambda>v. if truthy v then 1 else 0) vs)) i = VBool (truthy (vs ! i))"
        using that vs(2) by simp
      with vb [OF that] show ?thesis by simp
    qed
    with vs(1) show ?thesis by (auto simp: scalarLoopBulk_def KBoolean)
  next
    case KNumber
    have "VNum (int (to_u32 (vs ! i))) = f (items ! i)" if "i < length items" for i
    proof -
      have "asBytes (vs ! i) = vs ! i" "VNum (int (to_u32 (vs ! i))) = vs ! i"
        using el(1) [OF that] by (cases "vs ! i"; simp add: kind_typed_def KNumber asBytes_def)+
      with el(2) [OF that] show ?thesis by metis
    qed
    with vs(1,2) show ?thesis by (auto simp: scalarLoopBulk_def KNumber)
  next
    case KBigint
    have "VBig (if sp_unsigned spec then big_of (vs ! i) mod 2 ^ 64
        else to_signed64 (nat (big_of (vs ! i) mod 2 ^ 64))) = f (items ! i)" if "i < length items" for i
    proof -
      have "asBytes (vs ! i) = vs ! i" "VBig (if sp_unsigned spec then big_of (vs ! i) mod 2 ^ 64
          else to_signed64 (nat (big_of (vs ! i) mod 2 ^ 64))) = vs ! i"
        using el(1) [OF that] to_signed64_wrap [of "big_of (vs ! i)"]
        by (cases "vs ! i"; simp add: kind_typed_def KBigint asBytes_def split: if_splits)+
      with el(2) [OF that] show ?thesis by metis
    qed
    with vs(1,2) show ?thesis by (auto simp: scalarLoopBulk_def KBigint)
  next
    case KBytes
    with vs el show ?thesis by (auto simp: scalarLoopBulk_def)
  qed
qed

lemma dispatchBulk_parity:
  assumes p: "parity spec f"
  shows "\<exists>out st'. dispatchBulk env st c spec items [] = (Inr out, st')
    \<and> (\<forall>i < length items. bulk_elem out i = f (items ! i))"
proof -
  obtain out where b: "sp_batch spec items [] = Inr out" "\<forall>i < length items. bulk_elem out i = f (items ! i)"
    using p unfolding parity_def by blast
  obtain out2 where l: "scalarLoopBulk spec items [] = Inr out2" "\<forall>i < length items. bulk_elem out2 i = f (items ! i)"
    using scalarLoopBulk_parity [OF p] by blast
  show ?thesis
    using b l by (simp add: dispatchBulk_def Let_def split: prod.splits if_splits)
qed

section \<open>Resolving each request with its own result\<close>

definition awaiting :: "loader_state \<Rightarrow> load_request list \<Rightarrow> bool" where
  "awaiting st reqs \<longleftrightarrow> distinct (map rq_promise reqs)
     \<and> (\<forall>r \<in> set reqs. rq_promise r < length (ls_promises st) \<and> ls_promises st ! rq_promise r = Pending)"

definition plain :: "load_request \<Rightarrow> bool" where
  "plain r \<longleftrightarrow> rq_key r = None \<and> \<not> rq_needsDefaultKey r"

lemma awaiting_settles: "settles {} st st' \<Longrightarrow> awaiting st reqs \<Longrightarrow> awaiting st' reqs"
  by (auto simp: awaiting_def settles_def)

lemma read_results_values:
  assumes "awaiting st reqs" and "\<And>k. k < length reqs \<Longrightarrow> el (j + k) = Inr (g (rq_input (reqs ! k)))"
  shows "\<exists>st'. read_results st el j reqs = (None, st')
    \<and> (\<forall>r \<in> set reqs. ls_promises st' ! rq_promise r = Resolved (g (rq_input r)))"
  using assms
proof (induction reqs arbitrary: st j)
  case (Cons r reqs)
  let ?v = "g (rq_input r)"
  let ?s = "settle (maybeCache st (rq_key r) ?v) (rq_promise r) (Resolved ?v)"
  have pr: "ls_promises (maybeCache st (rq_key r) ?v) = ls_promises st" by (simp add: maybeCache_def split: option.splits)
  have r: "rq_promise r < length (ls_promises st)" "ls_promises st ! rq_promise r = Pending"
    using Cons.prems(1) by (simp_all add: awaiting_def)
  have s: "ls_promises ?s = (ls_promises st)[rq_promise r := Resolved ?v]" using r by (simp add: settle_def pr)
  have "awaiting ?s reqs"
    unfolding awaiting_def s using Cons.prems(1) by (auto simp: awaiting_def nth_list_update)
  moreover have "el (Suc j + k) = Inr (g (rq_input (reqs ! k)))" if "k < length reqs" for k
    using Cons.prems(2) [of "Suc k"] that by simp
  ultimately obtain st' where st': "read_results ?s el (Suc j) reqs = (None, st')"
    "\<forall>r \<in> set reqs. ls_promises st' ! rq_promise r = Resolved (g (rq_input r))"
    using Cons.IH by blast
  have "keeps_answers ?s st'" using settles_read_results [OF st'(1)] settles_keeps by blast
  then have "ls_promises st' ! rq_promise r = Resolved ?v"
    using r by (simp add: keeps_answers_def s)
  moreover have "el j = Inr ?v" using Cons.prems(2) [of 0] by simp
  ultimately show ?case using st' by simp
qed simp

lemma resolve_results_values:
  assumes "awaiting st reqs" and "\<And>k. k < length reqs \<Longrightarrow> el k = Inr (g (rq_input (reqs ! k)))" and "r \<in> set reqs"
  shows "ls_promises (resolve_results st el reqs) ! rq_promise r = Resolved (g (rq_input r))"
proof -
  obtain st' where "read_results st el 0 reqs = (None, st')"
    "\<forall>r \<in> set reqs. ls_promises st' ! rq_promise r = Resolved (g (rq_input r))"
    using read_results_values [OF assms(1), of el 0 g] assms(2) by auto
  with assms(3) show ?thesis by (simp add: resolve_results_def)
qed

lemma scan_plain: "\<forall>r \<in> set reqs. plain r \<Longrightarrow> scan_hits st c opn kv i reqs = (Inr reqs, st)"
proof (induction reqs arbitrary: i)
  case (Cons r reqs)
  have "request_key opn kv i r = Inr None"
    using Cons.prems by (auto simp: request_key_def plain_def split: option.splits)
  moreover have "r\<lparr>rq_key := None\<rparr> = r" using Cons.prems by (cases r) (simp add: plain_def)
  ultimately show ?case using Cons by simp
qed simp

lemma run_misses_values:
  assumes p: "parity spec f" and sp: "sp_fast spec = Some fast" and aw: "awaiting st reqs" and r: "r \<in> set reqs"
    and fits: "packedTotal (map rq_input reqs) \<le> length (ls_packScratch st)"
  shows "ls_promises (snd (run_misses st fast reqs)) ! rq_promise r = Resolved (f (rq_input r))"
proof -
  let ?in = "map rq_input reqs"
  obtain b where b: "pack_requests ?in (ls_packScratch st) = Inr b" "subarray b 0 (packedTotal ?in) = pack_layout ?in"
    using pack_requests_ok [OF fits] by blast
  define out where "out = (if length (ls_outScratch st) < fast_outSize (fs_elem fast) (length reqs)
    then new_buf (fast_outSize (fs_elem fast) (length reqs)) else ls_outScratch st)"
  have "fast_outSize (fs_elem fast) (length ?in) \<le> length out" by (simp add: out_def)
  then obtain out' where o': "fs_batch fast (pack_layout ?in) out = Inr out'"
    "\<forall>i < length ?in. fast_element (fs_elem fast) out' i = Inr (f (?in ! i))"
    using p sp unfolding parity_def by blast
  let ?s = "st\<lparr>ls_packScratch := b, ls_outScratch := out'\<rparr>"
  have "run_misses st fast reqs = (None, resolve_results ?s (fast_element (fs_elem fast) out') reqs)"
  proof -
    have e: "ls_outScratch (st\<lparr>ls_packScratch := b\<rparr>) = ls_outScratch st" by simp
    show ?thesis
      unfolding run_misses_def b(1) sum.case Let_def e out_def [symmetric] b(2) o'(1) by simp
  qed
  moreover have "awaiting ?s reqs" using aw by (simp add: awaiting_def)
  ultimately show ?thesis using o'(2) r by (simp add: resolve_results_values [where g = f])
qed

lemma flush_fast_values:
  assumes p: "parity spec f" and sp: "sp_fast spec = Some fast"
    and aw: "awaiting st reqs" and pl: "\<forall>r \<in> set reqs. plain r" and r: "r \<in> set reqs"
  shows "ls_promises (snd (flush_fast env st c opn fast reqs)) ! rq_promise r = Resolved (f (rq_input r))"
proof -
  let ?in = "map rq_input reqs"
  let ?s1 = "upd_ctx st c (\<lambda>x. x\<lparr>cx_batchCalls := cx_batchCalls x + 1, cx_itemsDispatched := cx_itemsDispatched x + length reqs\<rparr>)"
  define sc where "sc = (if length (ls_packScratch ?s1) < packedTotal ?in
    then new_buf (max 256 (packedTotal ?in * 2)) else ls_packScratch ?s1)"
  have fits: "packedTotal ?in \<le> length sc" by (simp add: sc_def max_def)
  obtain b where b: "pack_requests ?in sc = Inr b" "length b = length sc"
    using pack_requests_ok [OF fits] by blast
  let ?s2 = "?s1\<lparr>ls_packScratch := b\<rparr>"
  have k: "keys_phase env ?s2 c reqs x = (Inr None, ?s2)" for x
    using pl by (auto simp: keys_phase_def plain_def)
  have ne: "reqs \<noteq> []" using r by auto
  have "flush_fast env st c opn fast reqs = run_misses ?s2 fast reqs"
    unfolding flush_fast_def Let_def sc_def [symmetric] b(1) sum.case k prod.case scan_plain [OF pl] using ne by simp
  moreover have "awaiting ?s2 reqs" using aw by (simp add: awaiting_def upd_ctx_def)
  moreover have "packedTotal ?in \<le> length (ls_packScratch ?s2)" using b fits by simp
  ultimately show ?thesis using run_misses_values [OF p sp _ r] by simp
qed

lemma handleFlush_values:
  assumes p: "parity (ev_ops env opn) f" and aw: "awaiting st reqs" and pl: "\<forall>r \<in> set reqs. plain r"
    and r: "r \<in> set reqs"
  shows "ls_promises (snd (handleFlush env st opn reqs)) ! rq_promise r = Resolved (f (rq_input r))"
proof -
  let ?spec = "ev_ops env opn"
  obtain c s1 where c: "ctxFor (st\<lparr>ls_flushes := ls_flushes st + 1\<rparr>) opn = (c, s1)" by force
  have "settles {} st (st\<lparr>ls_flushes := ls_flushes st + 1\<rparr>)" by (rule settles_same [OF settles_refl]) simp_all
  from settles_trans0 [OF this settles_ctxFor [OF c]] have a1: "awaiting s1 reqs" using aw by (rule awaiting_settles)
  show ?thesis
  proof (cases "reqs = [r]")
    case True
    define s0 where "s0 = (if cx_mode (ls_heap s1 ! c) = Coalesce \<and> lo_loadStrategy (ls_options s1) = Auto
       then upd_ctx s1 c (\<lambda>x. x\<lparr>cx_singleStreak := cx_singleStreak x + 1,
              cx_mode := (if 4 \<le> cx_singleStreak x + 1 then Single else cx_mode x)\<rparr>) else s1)"
    obtain v where v: "sp_scalar ?spec (rq_input r) [] = Inr v" "asBytes v = f (rq_input r)"
      using parity_scalar [OF p] by blast
    obtain t s where t: "sample_tick env (upd_ctx s0 c (\<lambda>x. x\<lparr>cx_scalarCalls := cx_scalarCalls x + 1,
        cx_itemsDispatched := cx_itemsDispatched x + 1\<rparr>)) c = (t, s)" by force
    obtain s2 where l: "lone_value env s0 c opn ?spec r = (Inr (f (rq_input r)), s2)"
      using pl r v t by (auto simp: lone_value_def plain_def lone_dispatch_def dispatchSingle_def Let_def)
    have "settles {} s1 s0" by (auto simp: s0_def settles_refl pend_def intro!: settles_upd_ctx)
    from settles_trans0 [OF this settles_lone_value [OF l]] have "awaiting s2 reqs" using a1 by (rule awaiting_settles)
    then have "ls_promises (settle s2 (rq_promise r) (Resolved (f (rq_input r)))) ! rq_promise r = Resolved (f (rq_input r))"
      using r by (simp add: settle_def awaiting_def)
    moreover have "handleFlush env st opn reqs = (None, settle s2 (rq_promise r) (Resolved (f (rq_input r))))"
      using True c l by (simp add: handleFlush_def flush_lone_def Let_def s0_def [symmetric] settle_result_def)
    ultimately show ?thesis by simp
  next
    case False
    with r have case_many: "(case reqs of [r] \<Rightarrow> a r | _ \<Rightarrow> z) = z" for a :: "load_request \<Rightarrow> 'z" and z
      by (cases reqs rule: remdups_adj.cases) auto
    let ?s2 = "upd_ctx s1 c (\<lambda>x. x\<lparr>cx_singleStreak := 0\<rparr>)"
    have "settles {} s1 ?s2" by (rule settles_upd_ctx) (simp add: pend_def)
    then have a2: "awaiting ?s2 reqs" using a1 by (rule awaiting_settles)
    show ?thesis
    proof (cases "sp_fast ?spec")
      case (Some fast)
      with flush_fast_values [OF p Some a2 pl r] c show ?thesis by (simp add: handleFlush_def case_many)
    next
      case None
      obtain out s3 where d: "dispatchBulk env ?s2 c ?spec (map rq_input reqs) [] = (Inr out, s3)"
        "\<forall>i < length (map rq_input reqs). bulk_elem out i = f (map rq_input reqs ! i)"
        using dispatchBulk_parity [OF p] by blast
      have "awaiting s3 reqs" using settles_dispatchBulk [OF d(1)] a2 by (rule awaiting_settles)
      with d r have "ls_promises (resolve_results s3 (\<lambda>i. Inr (bulk_elem out i)) reqs) ! rq_promise r = Resolved (f (rq_input r))"
        by (intro resolve_results_values [where g = f]) simp_all
      with d(1) c None show ?thesis by (simp add: handleFlush_def case_many)
    qed
  qed
qed

section \<open>Properties\<close>


definition length_env :: env where
  "length_env = demo_env (\<lambda>_ out. Inr out)\<lparr>ev_ops := (\<lambda>_. \<lparr>sp_kind = KBytes, sp_scalar = (\<lambda>b _. Inr (VBytes (rev b))),
     sp_batch = (\<lambda>items _. Inr (BBytes (map (\<lambda>b. VBytes (rev b)) items))), sp_fast = None, sp_pairedRest = [],
     sp_unsigned = False\<rparr>)\<rparr>"

definition demo_reqs :: "load_request list" where
  "demo_reqs = [\<lparr>rq_input = [1, 2], rq_promise = 0, rq_key = None, rq_needsDefaultKey = False\<rparr>,
     \<lparr>rq_input = [3], rq_promise = 1, rq_key = None, rq_needsDefaultKey = False\<rparr>]"

definition demo_waiting :: loader_state where
  "demo_waiting = (createLoader no_patch)\<lparr>ls_promises := [Pending, Pending]\<rparr>"


text \<open>
  The native key hash is called outside the flush's error handling: when it throws during a burst,
  the microtask queue runs empty while the burst's loads stay pending for ever, instead of being
  rejected like the loads of an op whose native call throws.
\<close>

theorem loads_lost_when_key_hash_throws:
  "ls_micro (drain (demo_env (\<lambda>_ _. Inl (JsError ''native''))) (burst (demo_env (\<lambda>_ _. Inl (JsError ''native''))))) = []
   \<and> ls_promises (drain (demo_env (\<lambda>_ _. Inl (JsError ''native''))) (burst (demo_env (\<lambda>_ _. Inl (JsError ''native'')))))
      = [Pending, Pending]"
  by code_simp

end
