(* ===== verification/TaskRuntime.thy ===== *)
theory TaskRuntime
  imports Codec
begin

text \<open>
  The off-thread task runtime: the argument packers of \<open>src/src/task/op.ts\<close> and the submission,
  completion and shutdown code of \<open>src/src/task/runtime.ts\<close> (the bun:ffi runtime).

  The native pool is a parameter: \<open>drain\<close> is \<open>ffi.taskDrain\<close> on a native state, the submit calls
  return their code as an argument of the operation. A promise is a slot of \<open>tr_promises\<close>; a resolved
  zero-copy task carries the length of the view on its own output buffer, whose bytes the pool thread
  wrote.
\<close>

section \<open>Argument packing\<close>

definition to_uint32 :: "int \<Rightarrow> nat" where
  "to_uint32 n = nat (n mod 2 ^ 32)"

definition packHeaderAndBytes :: "int \<Rightarrow> bytes \<Rightarrow> bytes option \<Rightarrow> bytes result" where
  "packHeaderAndBytes header dat out =
     (let need = 4 + length dat;
          dest = (case out of Some b \<Rightarrow> (if need \<le> length b then b else new_buf need) | None \<Rightarrow> new_buf need)
      in rbind (put dest 0 (u32_le (to_uint32 header))) (\<lambda>d1.
         rbind (put d1 4 dat) (\<lambda>d2. Inr (subarray d2 0 need))))"

definition encodeGzipDecompressArgs :: "bytes \<Rightarrow> int option \<Rightarrow> bytes option \<Rightarrow> bytes result" where
  "encodeGzipDecompressArgs dat maxDecompressed out =
     packHeaderAndBytes (case maxDecompressed of None \<Rightarrow> 0 | Some m \<Rightarrow> m) dat out"

definition encodeBrotliDecompressArgs :: "bytes \<Rightarrow> int option \<Rightarrow> bytes option \<Rightarrow> bytes result" where
  "encodeBrotliDecompressArgs dat maxDecompressed out =
     packHeaderAndBytes (case maxDecompressed of None \<Rightarrow> 0 | Some m \<Rightarrow> m) dat out"

definition encodeGzipCompressHeader :: "int option \<Rightarrow> bytes option \<Rightarrow> bytes result" where
  "encodeGzipCompressHeader level out = packHeaderAndBytes (case level of None \<Rightarrow> 6 | Some l \<Rightarrow> l) [] out"

definition encodeArgon2VerifyArgs :: "bytes \<Rightarrow> bytes \<Rightarrow> bytes result" where
  "encodeArgon2VerifyArgs password phc =
     rbind (put (new_buf (8 + length password + length phc)) 0 (u32_le (length password))) (\<lambda>o1.
     rbind (put o1 4 (u32_le (length phc))) (\<lambda>o2.
     rbind (put o2 8 password) (\<lambda>o3. put o3 (8 + length password) phc)))"

definition encodePbkdf2Args :: "bytes \<Rightarrow> bytes \<Rightarrow> int \<Rightarrow> int option \<Rightarrow> bytes result" where
  "encodePbkdf2Args password salt rounds dkLen =
     rbind (put (new_buf (12 + length salt + length password)) 0 (u32_le (to_uint32 rounds))) (\<lambda>o1.
     rbind (put o1 4 (u32_le (to_uint32 (case dkLen of None \<Rightarrow> 32 | Some d \<Rightarrow> d)))) (\<lambda>o2.
     rbind (put o2 8 (u32_le (length salt))) (\<lambda>o3.
     rbind (put o3 12 salt) (\<lambda>o4. put o4 (12 + length salt) password))))"

definition gzipCompressUpperBound :: "nat \<Rightarrow> nat" where
  "gzipCompressUpperBound n = n + 5 * ((n + 16383) div 16384 + 1) + 18"

definition brotliCapacityGuess :: "nat \<Rightarrow> nat" where
  "brotliCapacityGuess compressedLen = max (64 * 1024) (compressedLen * 8)"

text \<open>Chained writes of consecutive fields fill a buffer with their concatenation.\<close>

fun put_fields :: "bytes \<Rightarrow> nat \<Rightarrow> bytes list \<Rightarrow> bytes result" where
  "put_fields b off [] = Inr b"
| "put_fields b off (f # fs) = rbind (put b off f) (\<lambda>b'. put_fields b' (off + length f) fs)"

lemma put_fields_fill:
  "length q = length (concat fs) + length r \<Longrightarrow>
     put_fields (p @ q) (length p) fs = Inr (p @ concat fs @ drop (length (concat fs)) q)"
proof (induction fs arbitrary: p q)
  case (Cons f fs)
  have "put (p @ q) (length p) f = Inr (p @ f @ drop (length f) q)"
    using Cons.prems by (intro put_append) simp_all
  moreover have "put_fields ((p @ f) @ drop (length f) q) (length (p @ f)) fs
      = Inr ((p @ f) @ concat fs @ drop (length (concat fs)) (drop (length f) q))"
    using Cons.prems by (intro Cons.IH) simp
  ultimately show ?case by (simp add: add.commute)
qed simp

lemma put_fields_new: "n = length (concat fs) \<Longrightarrow> put_fields (new_buf n) 0 fs = Inr (concat fs)"
  using put_fields_fill [of "new_buf n" fs "[]" "[]"] by simp

section \<open>Promises, deferreds and the runtime state\<close>

datatype task_error =
  TooSmall nat | Unsupported | Cancelled | Overloaded | NativeRejected | Failed jsstring

datatype task_value = Body bytes | OutView nat

datatype task_promise = TPending | TResolved task_value | TRejected task_error

record deferred =
  d_out :: "nat option"
  d_keep :: "bytes option"
  d_promise :: nat

record task_state =
  tr_inflight :: "(nat, deferred) jsmap"
  tr_nextId :: nat
  tr_drainBuf :: nat
  tr_scheduled :: bool
  tr_argScratch :: bytes
  tr_drains :: nat
  tr_completed :: nat
  tr_maxBatch :: nat
  tr_tooSmallRetries :: nat
  tr_doorbell :: bool
  tr_keepAlive :: bool
  tr_promises :: "task_promise list"
  tr_cancels :: "nat list"

definition taskSubmitError :: "nat \<Rightarrow> task_error option" where
  "taskSubmitError code = (if code = 1 then None else if code = 2 then Some Overloaded else Some NativeRejected)"

definition t_settle :: "task_state \<Rightarrow> nat \<Rightarrow> task_promise \<Rightarrow> task_state" where
  "t_settle st p v =
     st\<lparr>tr_promises := (tr_promises st)[p := (if tr_promises st ! p = TPending then v else tr_promises st ! p)]\<rparr>"

definition task_retain :: "task_state \<Rightarrow> task_state" where
  "task_retain st = st\<lparr>tr_keepAlive := True\<rparr>"

definition task_release :: "task_state \<Rightarrow> task_state" where
  "task_release st = st\<lparr>tr_keepAlive := False\<rparr>"

definition release_if_idle :: "task_state \<Rightarrow> task_state" where
  "release_if_idle st = (if tr_inflight st = [] then task_release st else st)"

definition ensureDoorbell :: "task_state \<Rightarrow> task_state" where
  "ensureDoorbell st = st\<lparr>tr_doorbell := True\<rparr>"

definition arg_scratch :: "task_state \<Rightarrow> nat \<Rightarrow> bytes \<times> task_state" where
  "arg_scratch st need =
     (if length (tr_argScratch st) < need then (new_buf need, st\<lparr>tr_argScratch := new_buf need\<rparr>)
      else (tr_argScratch st, st))"

text \<open>
  \<open>submit\<close>, \<open>submitInto\<close> and \<open>submitSlice\<close> differ in the deferred they record (\<open>out\<close>, \<open>keep\<close>) and in
  the native call; \<open>code\<close> is that call's return. \<open>aborted\<close> is the state of the caller's signal.
\<close>

definition submit_with :: "nat option \<Rightarrow> bytes option \<Rightarrow> task_state \<Rightarrow> nat \<Rightarrow> bool \<Rightarrow> nat \<times> task_state" where
  "submit_with out keep st0 code aborted =
     (let st = ensureDoorbell st0;
          i = tr_nextId st;
          p = length (tr_promises st);
          st1 = task_retain (st\<lparr>tr_nextId := i + 1, tr_promises := tr_promises st @ [TPending],
                  tr_inflight := AList.update i \<lparr>d_out = out, d_keep = keep, d_promise = p\<rparr> (tr_inflight st)\<rparr>)
      in case taskSubmitError code of
           Some e \<Rightarrow> (p, t_settle (release_if_idle (st1\<lparr>tr_inflight := AList.delete i (tr_inflight st1)\<rparr>)) p (TRejected e))
         | None \<Rightarrow> (p, if aborted then st1\<lparr>tr_cancels := tr_cancels st1 @ [i]\<rparr> else st1))"

definition submit :: "task_state \<Rightarrow> nat \<Rightarrow> bool \<Rightarrow> nat \<times> task_state" where
  "submit = submit_with None None"

definition submitInto :: "nat \<Rightarrow> task_state \<Rightarrow> nat \<Rightarrow> bool \<Rightarrow> nat \<times> task_state" where
  "submitInto cap = submit_with (Some cap) None"

definition submitSlice :: "bytes \<Rightarrow> task_state \<Rightarrow> nat \<Rightarrow> bool \<Rightarrow> nat \<times> task_state" where
  "submitSlice dat = submit_with None (Some dat)"

section \<open>Draining completions\<close>

text \<open>\<open>readU64At\<close>: two u32 reads, exact for values below \<open>2 ^ 53\<close>.\<close>

definition readU64At :: "bytes \<Rightarrow> nat \<Rightarrow> nat result" where
  "readU64At view off =
     rbind (get_uint 4 view off) (\<lambda>lo. rbind (get_uint 4 view (off + 4)) (\<lambda>hi. Inr (lo + hi * 4294967296)))"

definition bodyOf :: "bytes \<Rightarrow> nat \<Rightarrow> nat \<Rightarrow> bytes" where
  "bodyOf buf off len = subarray buf off (off + len)"

text \<open>The settlement of one completion; reading the size out of a body of at least eight bytes may throw.\<close>

definition completion_outcome :: "deferred \<Rightarrow> bytes \<Rightarrow> bytes \<Rightarrow> nat \<Rightarrow> nat \<Rightarrow> nat \<Rightarrow> task_promise result" where
  "completion_outcome d view buf status bodyOff len =
     (let size_of = (\<lambda>dflt. if 8 \<le> len then readU64At view bodyOff else Inr dflt)
      in if status = 0
         then (case d_out d of
                 Some cap \<Rightarrow> rbind (size_of len) (\<lambda>n. Inr (TResolved (OutView (min cap n))))
               | None \<Rightarrow> Inr (TResolved (Body (bodyOf buf bodyOff len))))
         else if status = 3 then rbind (size_of 0) (\<lambda>n. Inr (TRejected (TooSmall n)))
         else if status = 4 then Inr (TRejected Unsupported)
         else if status = 2 then Inr (TRejected Cancelled)
         else let msg = node_decodeUtf8 (bodyOf buf bodyOff len)
              in Inr (TRejected (Failed (if msg = [] then js ''task failed'' else msg))))"

text \<open>
  One completion of the batch: the entry leaves the in-flight map before its outcome is computed, as
  in the source. The first component is an escaping exception.
\<close>

definition complete_one ::
  "task_state \<Rightarrow> bytes \<Rightarrow> bytes \<Rightarrow> nat \<Rightarrow> nat \<Rightarrow> nat \<Rightarrow> nat \<Rightarrow> js_error option \<times> task_state" where
  "complete_one st view buf i status bodyOff len =
     (case map_of (tr_inflight st) i of
        None \<Rightarrow> (None, st)
      | Some d \<Rightarrow>
          (let st1 = st\<lparr>tr_inflight := AList.delete i (tr_inflight st),
                        tr_tooSmallRetries := tr_tooSmallRetries st + (if status = 3 then 1 else 0)\<rparr>
           in case completion_outcome d view buf status bodyOff len of
                Inl e \<Rightarrow> (Some e, st1)
              | Inr v \<Rightarrow> (None, (t_settle st1 (d_promise d) v)\<lparr>tr_completed := tr_completed st1 + 1\<rparr>)))"

fun complete_batch ::
  "task_state \<Rightarrow> bytes \<Rightarrow> bytes \<Rightarrow> nat \<Rightarrow> nat \<Rightarrow> js_error option \<times> task_state" where
  "complete_batch st view buf off 0 = (None, st)"
| "complete_batch st view buf off (Suc n) =
     (case rbind (readU64At view off) (\<lambda>i. rbind (get_uint 4 view (off + 8)) (\<lambda>status.
           rbind (get_uint 4 view (off + 12)) (\<lambda>len. Inr (i, status, len)))) of
        Inl e \<Rightarrow> (Some e, st)
      | Inr (i, status, len) \<Rightarrow>
          (case complete_one st view buf i status (off + 16) len of
             (Some e, st1) \<Rightarrow> (Some e, st1)
           | (None, st1) \<Rightarrow> complete_batch st1 view buf (off + 16 + len) n))"

text \<open>
  The drain loop. \<open>drain ns n\<close> is \<open>ffi.taskDrain\<close> into a buffer of \<open>n\<close> bytes: the number it returns,
  the buffer's contents and the next native state.
\<close>

type_synonym 'n task_drain = "'n \<Rightarrow> nat \<Rightarrow> nat \<times> bytes \<times> 'n"

definition process_drained :: "task_state \<Rightarrow> bytes \<Rightarrow> nat \<Rightarrow> js_error option \<times> task_state" where
  "process_drained st buf written =
     (let view = take written buf
      in case get_uint 4 view 0 of
           Inl e \<Rightarrow> (Some e, st)
         | Inr count \<Rightarrow>
             complete_batch (st\<lparr>tr_drains := tr_drains st + 1,
                tr_maxBatch := max (tr_maxBatch st) count\<rparr>) view buf 4 count)"

fun drain_loop :: "'n task_drain \<Rightarrow> nat \<Rightarrow> task_state \<Rightarrow> 'n \<Rightarrow> js_error option \<times> task_state \<times> 'n" where
  "drain_loop drain 0 st ns = (None, st, ns)"
| "drain_loop drain (Suc guard) st ns =
     (let (written, buf, ns1) = drain ns (tr_drainBuf st)
      in if written < 4 then (None, st, ns1)
         else if tr_drainBuf st < written
         then let st1 = (if written \<le> 256 * 1024 then st\<lparr>tr_drainBuf := written\<rparr> else st);
                  (written2, buf2, ns2) = drain ns1 written
              in if written2 < 4 then (None, st1, ns2)
                 else if written < written2 then drain_loop drain guard st1 ns2
                 else (case process_drained st1 buf2 written2 of
                         (Some e, st2) \<Rightarrow> (Some e, st2, ns2)
                       | (None, st2) \<Rightarrow> drain_loop drain guard st2 ns2)
         else (case process_drained st buf written of
                 (Some e, st2) \<Rightarrow> (Some e, st2, ns1)
               | (None, st2) \<Rightarrow> drain_loop drain guard st2 ns1))"

definition drainNow :: "'n task_drain \<Rightarrow> task_state \<Rightarrow> 'n \<Rightarrow> js_error option \<times> task_state \<times> 'n" where
  "drainNow drain st ns =
     (case drain_loop drain 1024 (st\<lparr>tr_scheduled := False\<rparr>) ns of
        (Some e, st1, ns1) \<Rightarrow> (Some e, st1, ns1)
      | (None, st1, ns1) \<Rightarrow> (None, release_if_idle st1, ns1))"

definition shutdown :: "task_state \<Rightarrow> task_state" where
  "shutdown st =
     (let st1 = foldl (\<lambda>s (i, d). t_settle (s\<lparr>tr_cancels := tr_cancels s @ [i]\<rparr>) (d_promise d) (TRejected Cancelled))
                  st (tr_inflight st)
      in (task_release (st1\<lparr>tr_inflight := []\<rparr>))\<lparr>tr_doorbell := False\<rparr>)"

definition keepalive_tick :: "task_state \<Rightarrow> task_state" where
  "keepalive_tick st = release_if_idle st"

definition new_runtime :: task_state where
  "new_runtime = ensureDoorbell \<lparr>tr_inflight = [], tr_nextId = 1, tr_drainBuf = 64 * 1024, tr_scheduled = True,
     tr_argScratch = new_buf 256, tr_drains = 0, tr_completed = 0, tr_maxBatch = 0, tr_tooSmallRetries = 0,
     tr_doorbell = False, tr_keepAlive = False, tr_promises = [], tr_cancels = []\<rparr>"

section \<open>The abstract completion and the packed batch\<close>

text \<open>
  What the native side packs: \<open>[u32 count]\<close>, then per completion \<open>[u64 id][u32 status][u32 len][body]\<close>.
\<close>

record completion =
  c_id :: nat
  c_status :: nat
  c_body :: bytes

definition completion_layout :: "completion \<Rightarrow> bytes" where
  "completion_layout c = le_bytes 8 (c_id c) @ u32_le (c_status c) @ u32_le (length (c_body c)) @ c_body c"

definition batch_layout :: "completion list \<Rightarrow> bytes" where
  "batch_layout cs = u32_le (length cs) @ concat (map completion_layout cs)"

definition completion_ok :: "completion \<Rightarrow> bool" where
  "completion_ok c \<longleftrightarrow> c_id c < 256 ^ 8 \<and> c_status c < 256 ^ 4 \<and> length (c_body c) < 256 ^ 4"

definition body_size :: "nat \<Rightarrow> bytes \<Rightarrow> nat" where
  "body_size dflt b = (if 8 \<le> length b then le_nat (take 8 b) else dflt)"

definition outcome :: "deferred \<Rightarrow> completion \<Rightarrow> task_promise" where
  "outcome d c =
     (if c_status c = 0
      then (case d_out d of Some cap \<Rightarrow> TResolved (OutView (min cap (body_size (length (c_body c)) (c_body c))))
            | None \<Rightarrow> TResolved (Body (c_body c)))
      else if c_status c = 3 then TRejected (TooSmall (body_size 0 (c_body c)))
      else if c_status c = 4 then TRejected Unsupported
      else if c_status c = 2 then TRejected Cancelled
      else TRejected (Failed (if node_decodeUtf8 (c_body c) = [] then js ''task failed'' else node_decodeUtf8 (c_body c))))"

definition complete :: "task_state \<Rightarrow> completion \<Rightarrow> task_state" where
  "complete st c =
     (case map_of (tr_inflight st) (c_id c) of
        None \<Rightarrow> st
      | Some d \<Rightarrow>
          (let st1 = st\<lparr>tr_inflight := AList.delete (c_id c) (tr_inflight st),
                        tr_tooSmallRetries := tr_tooSmallRetries st + (if c_status c = 3 then 1 else 0)\<rparr>
           in (t_settle st1 (d_promise d) (outcome d c))\<lparr>tr_completed := tr_completed st1 + 1\<rparr>))"

lemma readU64At_conv:
  "off + 8 \<le> length view \<Longrightarrow> readU64At view off = Inr (le_nat (take 8 (drop off view)))"
proof -
  assume a: "off + 8 \<le> length view"
  have "take 8 (drop off view) = take 4 (drop off view) @ take 4 (drop (off + 4) view)"
    using take_add [of 4 4 "drop off view"] by (simp add: add.commute)
  then have "le_nat (take 8 (drop off view)) = le_nat (take 4 (drop off view)) + 256 ^ 4 * le_nat (take 4 (drop (off + 4) view))"
    using a by (simp add: le_nat_append)
  with a show ?thesis by (simp add: readU64At_def get_uint_def)
qed

lemma completion_outcome_layout:
  assumes "status = c_status c" "len = length (c_body c)" "buf = view @ junk" "view = p @ c_body c @ q" "off = length p"
  shows "completion_outcome d view buf status off len = Inr (outcome d c)"
proof -
  have body: "bodyOf buf off len = c_body c" using assms by (simp add: bodyOf_def subarray_def)
  have "8 \<le> len \<Longrightarrow> readU64At view off = Inr (le_nat (take 8 (c_body c)))"
    using assms by (subst readU64At_conv) simp_all
  then have sz: "(if 8 \<le> len then readU64At view off else Inr x) = Inr (body_size x (c_body c))" for x
    using assms by (simp add: body_size_def)
  show ?thesis
    unfolding completion_outcome_def Let_def sz body using assms(1,2) by (simp add: outcome_def split: option.splits)
qed

lemma header_reads:
  assumes "completion_ok c" "view = p @ completion_layout c @ q" "off = length p"
  shows "readU64At view off = Inr (c_id c)" "get_uint 4 view (off + 8) = Inr (c_status c)"
    "get_uint 4 view (off + 12) = Inr (length (c_body c))"
proof -
  have ok: "c_id c < 256 ^ 8" "c_status c < 256 ^ 4" "length (c_body c) < 256 ^ 4"
    using assms(1) by (simp_all only: completion_ok_def)
  show "readU64At view off = Inr (c_id c)"
    using assms(2,3) le_nat_le_bytes_id [OF ok(1)] by (subst readU64At_conv) (simp_all add: completion_layout_def)
  have 1: "view = (p @ le_bytes 8 (c_id c)) @ u32_le (c_status c) @ (u32_le (length (c_body c)) @ c_body c @ q)"
    using assms by (simp add: completion_layout_def)
  show "get_uint 4 view (off + 8) = Inr (c_status c)"
    unfolding 1 by (rule get_uint_le [OF _ ok(2)]) (simp add: assms(3))
  have 2: "view = (p @ le_bytes 8 (c_id c) @ u32_le (c_status c)) @ u32_le (length (c_body c)) @ (c_body c @ q)"
    using assms by (simp add: completion_layout_def)
  show "get_uint 4 view (off + 12) = Inr (length (c_body c))"
    unfolding 2 by (rule get_uint_le [OF _ ok(3)]) (simp add: assms(3))
qed

lemma complete_one_layout:
  assumes "completion_ok c" "view = p @ completion_layout c @ q" "buf = view @ junk"
  shows "complete_one st view buf (c_id c) (c_status c) (length p + 16) (length (c_body c)) = (None, complete st c)"
proof -
  have v: "view = (p @ le_bytes 8 (c_id c) @ u32_le (c_status c) @ u32_le (length (c_body c))) @ c_body c @ q"
    using assms by (simp add: completion_layout_def)
  have "completion_outcome d view buf (c_status c) (length p + 16) (length (c_body c)) = Inr (outcome d c)" for d
    by (rule completion_outcome_layout [OF refl refl assms(3) v]) simp
  then show ?thesis unfolding complete_one_def complete_def Let_def by (cases "map_of (tr_inflight st) (c_id c)") simp_all
qed

lemma complete_batch_layout:
  "\<forall>c \<in> set cs. completion_ok c \<Longrightarrow> view = p @ concat (map completion_layout cs) @ q \<Longrightarrow> buf = view @ junk \<Longrightarrow>
     off = length p \<Longrightarrow> complete_batch st view buf off (length cs) = (None, foldl complete st cs)"
proof (induction cs arbitrary: st p off)
  case (Cons c cs)
  let ?q = "concat (map completion_layout cs) @ q"
  have v: "view = p @ completion_layout c @ ?q" and ok: "completion_ok c" using Cons.prems by simp_all
  note H = header_reads [OF ok v Cons.prems(4)]
  have one: "complete_one st view buf (c_id c) (c_status c) (off + 16) (length (c_body c)) = (None, complete st c)"
    using complete_one_layout [OF ok v Cons.prems(3)] Cons.prems(4) by simp
  have "complete_batch (complete st c) view buf (off + 16 + length (c_body c)) (length cs)
      = (None, foldl complete (complete st c) cs)"
    using Cons.prems v by (intro Cons.IH [of "p @ completion_layout c"]) (simp_all add: completion_layout_def)
  with H one show ?case by simp
qed simp

lemma process_drained_layout:
  assumes "\<forall>c \<in> set cs. completion_ok c" "length cs < 2 ^ 32" "take w buf = batch_layout cs"
  shows "process_drained st buf w = (None, foldl complete (st\<lparr>tr_drains := tr_drains st + 1,
    tr_maxBatch := max (tr_maxBatch st) (length cs)\<rparr>) cs)"
proof -
  have n: "length cs < 256 ^ 4" using assms(2) by simp
  have "get_uint 4 (take w buf) 0 = Inr (length cs)"
    unfolding assms(3) batch_layout_def using get_uint_le [OF _ n, of 0 "[]"] by simp
  moreover have "complete_batch st' (take w buf) buf 4 (length cs) = (None, foldl complete st' cs)" for st'
  proof -
    have v: "take w buf = u32_le (length cs) @ concat (map completion_layout cs) @ []"
      using assms(3) by (simp add: batch_layout_def)
    have b: "buf = take w buf @ drop w buf" by simp
    show ?thesis by (rule complete_batch_layout [OF assms(1) v b]) simp
  qed
  ultimately show ?thesis by (simp add: process_drained_def Let_def)
qed

section \<open>The invariant\<close>

text \<open>
  A promise is pending exactly while its task is in flight, each in-flight entry owns its own promise,
  ids are never reused, and while anything is in flight the keep-alive and the doorbell are up.
\<close>

definition task_inv :: "task_state \<Rightarrow> bool" where
  "task_inv st \<longleftrightarrow> jsmap_ok (tr_inflight st) \<and> (\<forall>(i, d) \<in> set (tr_inflight st). i < tr_nextId st)
     \<and> (\<forall>(i, d) \<in> set (tr_inflight st). d_promise d < length (tr_promises st))
     \<and> (\<forall>p < length (tr_promises st).
          tr_promises st ! p = TPending \<longleftrightarrow> p \<in> (\<lambda>(i, d). d_promise d) ` set (tr_inflight st))
     \<and> distinct (map (\<lambda>(i, d). d_promise d) (tr_inflight st))
     \<and> (tr_inflight st \<noteq> [] \<longrightarrow> tr_keepAlive st \<and> tr_doorbell st)"

lemma t_settle_simps [simp]:
  "tr_inflight (t_settle st p v) = tr_inflight st" "tr_nextId (t_settle st p v) = tr_nextId st"
  "tr_keepAlive (t_settle st p v) = tr_keepAlive st" "tr_doorbell (t_settle st p v) = tr_doorbell st"
  "length (tr_promises (t_settle st p v)) = length (tr_promises st)"
  by (simp_all add: t_settle_def)

lemma t_settle_nth:
  "q < length (tr_promises st) \<Longrightarrow> tr_promises (t_settle st p v) ! q =
     (if q = p \<and> tr_promises st ! q = TPending then v else tr_promises st ! q)"
  by (cases "p < length (tr_promises st)") (auto simp: t_settle_def nth_list_update)

text \<open>Taking one entry out of flight and settling its promise.\<close>

lemma task_inv_remove:
  assumes inv: "task_inv st" and e: "map_of (tr_inflight st) i = Some d" and v: "v \<noteq> TPending"
  shows "task_inv (t_settle (st\<lparr>tr_inflight := AList.delete i (tr_inflight st)\<rparr>) (d_promise d) v)"
proof -
  let ?m = "tr_inflight st" and ?pr = "\<lambda>(i, d). d_promise d"
  have ok: "jsmap_ok ?m" and dst: "distinct (map ?pr ?m)"
    and pnd: "\<And>p. p < length (tr_promises st) \<Longrightarrow> tr_promises st ! p = TPending \<longleftrightarrow> p \<in> ?pr ` set ?m"
    and bnd: "\<And>i d. (i, d) \<in> set ?m \<Longrightarrow> d_promise d < length (tr_promises st) \<and> i < tr_nextId st"
    using inv by (auto simp: task_inv_def)
  have mem: "(i, d) \<in> set ?m" using e by (rule map_of_SomeD)
  have del: "set (AList.delete i ?m) = set ?m - {(i, d)}"
  proof
    show "set (AList.delete i ?m) \<subseteq> set ?m - {(i, d)}" by (auto simp: AList.delete_eq)
    show "set ?m - {(i, d)} \<subseteq> set (AList.delete i ?m)"
      using ok mem by (auto simp: AList.delete_eq jsmap_ok_def dest: eq_key_imp_eq_value)
  qed
  have inj: "inj_on ?pr (set ?m)" using dst by (simp add: distinct_map)
  have img: "?pr ` (set ?m - {(i, d)}) = ?pr ` set ?m - {d_promise d}"
    using inj_on_image_set_diff [OF inj, of "set ?m" "{(i, d)}"] mem by simp
  have "distinct (map ?pr (AList.delete i ?m))"
    using dst by (simp add: AList.delete_eq distinct_map_filter)
  then show ?thesis
    unfolding task_inv_def t_settle_simps
    using inv ok bnd pnd mem v
    by (auto simp: task_inv_def del img t_settle_nth)
qed

lemma task_inv_irrelevant:
  assumes "task_inv st" "tr_inflight st' = tr_inflight st" "tr_nextId st' = tr_nextId st" "tr_promises st' = tr_promises st"
    "tr_inflight st \<noteq> [] \<Longrightarrow> tr_keepAlive st' \<and> tr_doorbell st'"
  shows "task_inv st'"
  using assms by (simp add: task_inv_def)

lemma task_inv_complete:
  assumes "task_inv st"
  shows "task_inv (complete st c)"
proof (cases "map_of (tr_inflight st) (c_id c)")
  case None
  with assms show ?thesis by (simp add: complete_def)
next
  case (Some d)
  have "outcome d c \<noteq> TPending" by (simp add: outcome_def split: option.splits)
  from task_inv_remove [OF assms Some this] Some show ?thesis
    by (auto simp: complete_def Let_def t_settle_def task_inv_def)
qed

lemma task_inv_release: "task_inv st \<Longrightarrow> task_inv (release_if_idle st)"
  by (auto simp: release_if_idle_def task_release_def task_inv_def)

lemma task_inv_submit:
  assumes inv: "task_inv st"
  shows "task_inv (snd (submit_with out keep st code aborted))"
proof -
  let ?i = "tr_nextId st" and ?p = "length (tr_promises st)"
  let ?d = "\<lparr>d_out = out, d_keep = keep, d_promise = ?p\<rparr>"
  let ?s1 = "task_retain ((ensureDoorbell st)\<lparr>tr_nextId := ?i + 1, tr_promises := tr_promises st @ [TPending],
    tr_inflight := AList.update ?i ?d (tr_inflight st)\<rparr>)"
  have fresh: "?i \<notin> set (map fst (tr_inflight st))" using inv by (auto simp: task_inv_def)
  have up: "AList.update ?i ?d (tr_inflight st) = tr_inflight st @ [(?i, ?d)]" by (rule update_absent [OF fresh])
  have s1: "task_inv ?s1"
    using inv fresh by (auto simp: task_inv_def task_retain_def ensureDoorbell_def up jsmap_ok_def nth_append less_Suc_eq)
  have e: "map_of (tr_inflight ?s1) ?i = Some ?d" by (simp add: task_retain_def)
  have "task_inv (t_settle (release_if_idle (?s1\<lparr>tr_inflight := AList.delete ?i (tr_inflight ?s1)\<rparr>)) ?p (TRejected x))" for x
  proof -
    have "t_settle (release_if_idle s) q v = release_if_idle (t_settle s q v)" for s q v
      by (simp add: release_if_idle_def task_release_def t_settle_def)
    then show ?thesis using task_inv_release [OF task_inv_remove [OF s1 e, of "TRejected x"]] by simp
  qed
  moreover have "task_inv (?s1\<lparr>tr_cancels := x\<rparr>)" for x by (rule task_inv_irrelevant [OF s1]) (simp_all add: task_retain_def ensureDoorbell_def)
  ultimately show ?thesis
    using s1 by (simp add: submit_with_def Let_def ensureDoorbell_def split: option.splits)
qed

lemma shutdown_fold:
  "let st' = foldl (\<lambda>s (i, d). t_settle (s\<lparr>tr_cancels := tr_cancels s @ [i]\<rparr>) (d_promise d) (TRejected Cancelled)) st m
   in length (tr_promises st') = length (tr_promises st)
      \<and> (\<forall>q < length (tr_promises st). tr_promises st' ! q =
           (if tr_promises st ! q = TPending \<and> q \<in> (\<lambda>(i, d). d_promise d) ` set m then TRejected Cancelled
            else tr_promises st ! q))
      \<and> tr_nextId st' = tr_nextId st \<and> tr_cancels st' = tr_cancels st @ map fst m"
proof (induction m arbitrary: st)
  case (Cons e m)
  obtain i d where e: "e = (i, d)" by force
  let ?s = "t_settle (st\<lparr>tr_cancels := tr_cancels st @ [i]\<rparr>) (d_promise d) (TRejected Cancelled)"
  have c: "tr_cancels ?s = tr_cancels st @ [i]" by (simp add: t_settle_def)
  show ?case using Cons.IH [of ?s] by (auto simp: e Let_def t_settle_nth c)
qed simp

section \<open>The runtime as a state machine\<close>

text \<open>
  The documented contract of \<open>ffi.taskDrain\<close>: nothing pending (fewer than four bytes), a needed size
  beyond the buffer, or a packed batch at the start of the buffer.
\<close>

definition drained_ok :: "nat \<Rightarrow> nat \<times> bytes \<times> 'n \<Rightarrow> bool" where
  "drained_ok n = (\<lambda>(w, buf, ns). w < 4 \<or> n < w
     \<or> (\<exists>cs. length cs < 2 ^ 32 \<and> (\<forall>c \<in> set cs. completion_ok c) \<and> take w buf = batch_layout cs))"

definition wf_drain :: "'n task_drain \<Rightarrow> bool" where
  "wf_drain drain \<longleftrightarrow> (\<forall>ns n. drained_ok n (drain ns n))"

lemma task_inv_foldl: "task_inv st \<Longrightarrow> task_inv (foldl complete st cs)"
  by (induction cs arbitrary: st) (simp_all add: task_inv_complete)

lemma process_drained_inv:
  assumes "drained_ok n (w, buf, ns)" "\<not> w < 4" "\<not> n < w" "task_inv st"
  shows "\<exists>st'. process_drained st buf w = (None, st') \<and> task_inv st'"
proof -
  obtain cs where cs: "length cs < 2 ^ 32" "\<forall>c \<in> set cs. completion_ok c" "take w buf = batch_layout cs"
    using assms(1-3) by (auto simp: drained_ok_def)
  have "task_inv (st\<lparr>tr_drains := x, tr_maxBatch := y\<rparr>)" for x y
    using assms(4) by (simp add: task_inv_def)
  with process_drained_layout [OF cs(2,1,3), of st] show ?thesis by (simp add: task_inv_foldl)
qed

lemma drain_loop_inv:
  assumes wf: "wf_drain drain"
  shows "task_inv st \<Longrightarrow> drain_loop drain g st ns = (e, st', ns') \<Longrightarrow> e = None \<and> task_inv st'"
proof (induction g arbitrary: st ns)
  case (Suc g)
  obtain w buf ns1 where d: "drain ns (tr_drainBuf st) = (w, buf, ns1)" by (metis prod_cases3)
  have ok1: "drained_ok (tr_drainBuf st) (w, buf, ns1)" using wf d by (metis wf_drain_def)
  let ?s1 = "if w \<le> 256 * 1024 then st\<lparr>tr_drainBuf := w\<rparr> else st"
  obtain w2 buf2 ns2 where d2: "drain ns1 w = (w2, buf2, ns2)" by (metis prod_cases3)
  have ok2: "drained_ok w (w2, buf2, ns2)" using wf d2 by (metis wf_drain_def)
  have s1: "task_inv ?s1" using Suc.prems(1) by (simp add: task_inv_def)
  consider "w < 4" | "\<not> w < 4" "\<not> tr_drainBuf st < w" | "\<not> w < 4" "tr_drainBuf st < w" by blast
  then show ?case
  proof cases
    case 1
    with Suc.prems d show ?thesis by simp
  next
    case 2
    obtain s' where "process_drained st buf w = (None, s')" "task_inv s'"
      using process_drained_inv [OF ok1 2 Suc.prems(1)] by blast
    with 2 Suc.prems d Suc.IH show ?thesis by simp
  next
    case 3
    consider "w2 < 4" | "\<not> w2 < 4" "w < w2" | "\<not> w2 < 4" "\<not> w < w2" by blast
    then show ?thesis
    proof cases
      case 1
      with 3 Suc.prems d d2 s1 show ?thesis by (simp add: Let_def)
    next
      case b: 2
      with 3 Suc.prems d d2 have "drain_loop drain g ?s1 ns2 = (e, st', ns')" by (simp add: Let_def)
      with Suc.IH [OF s1] show ?thesis by blast
    next
      case b: 3
      obtain s' where "process_drained ?s1 buf2 w2 = (None, s')" "task_inv s'"
        using process_drained_inv [OF ok2 b s1] by blast
      with 3 b Suc.prems d d2 Suc.IH show ?thesis by (simp add: Let_def)
    qed
  qed
qed simp

lemma drainNow_inv:
  assumes "wf_drain drain" and "task_inv st" and d: "drainNow drain st ns = (e, st', ns')"
  shows "e = None \<and> task_inv st'"
proof -
  obtain e1 s1 n1 where l: "drain_loop drain 1024 (st\<lparr>tr_scheduled := False\<rparr>) ns = (e1, s1, n1)" by (metis prod_cases3)
  have "task_inv (st\<lparr>tr_scheduled := False\<rparr>)" using assms(2) by (simp add: task_inv_def)
  from drain_loop_inv [OF assms(1) this l] l d show ?thesis by (auto simp: drainNow_def task_inv_release)
qed

lemma shutdown_spec:
  assumes "task_inv st"
  shows "task_inv (shutdown st)" and "\<forall>p < length (tr_promises st). tr_promises (shutdown st) ! p
      = (if tr_promises st ! p = TPending then TRejected Cancelled else tr_promises st ! p)"
    and "length (tr_promises (shutdown st)) = length (tr_promises st)" "tr_inflight (shutdown st) = []"
    and "tr_cancels (shutdown st) = tr_cancels st @ map fst (tr_inflight st)"
proof -
  note F = shutdown_fold [of st "tr_inflight st", unfolded Let_def]
  show 1: "\<forall>p < length (tr_promises st). tr_promises (shutdown st) ! p
      = (if tr_promises st ! p = TPending then TRejected Cancelled else tr_promises st ! p)"
    using F assms by (auto simp: shutdown_def Let_def task_release_def task_inv_def)
  show 2: "length (tr_promises (shutdown st)) = length (tr_promises st)" "tr_inflight (shutdown st) = []"
    using F by (simp_all add: shutdown_def Let_def task_release_def)
  show "tr_cancels (shutdown st) = tr_cancels st @ map fst (tr_inflight st)"
    using F by (simp add: shutdown_def Let_def task_release_def)
  show "task_inv (shutdown st)" using 1 2 by (auto simp: task_inv_def)
qed

inductive task_reach :: "'n task_drain \<Rightarrow> task_state \<Rightarrow> bool" for drain where
  tr_new: "task_reach drain new_runtime"
| tr_submit: "task_reach drain st \<Longrightarrow> task_reach drain (snd (submit_with out keep st code aborted))"
| tr_drain: "task_reach drain st \<Longrightarrow> drainNow drain st ns = (e, st', ns') \<Longrightarrow> task_reach drain st'"
| tr_tick: "task_reach drain st \<Longrightarrow> task_reach drain (keepalive_tick st)"
| tr_shutdown: "task_reach drain st \<Longrightarrow> task_reach drain (shutdown st)"

lemma task_reach_inv: "task_reach drain st \<Longrightarrow> wf_drain drain \<Longrightarrow> task_inv st"
proof (induction rule: task_reach.induct)
  case tr_new
  then show ?case by (simp add: task_inv_def new_runtime_def ensureDoorbell_def)
next
  case (tr_drain st ns e st' ns')
  then have "task_inv st" by simp
  with drainNow_inv [OF tr_drain.prems _ tr_drain.hyps(2)] show ?case by simp
next
  case (tr_tick st)
  then show ?case by (simp add: keepalive_tick_def task_inv_release)
qed (simp_all add: task_inv_submit shutdown_spec(1))

section \<open>The zero-copy retry chain\<close>

text \<open>
  \<open>gzipDecompress\<close> and \<open>brotliDecompress\<close> try a zero-copy task first; \<open>native k a\<close> is the settlement of
  the \<open>k\<close>-th submitted attempt \<open>a\<close>. The result comes with the list of attempts submitted.
\<close>

datatype attempt = Into nat | CopyPath

definition zero_copy_chain ::
  "(nat \<Rightarrow> attempt \<Rightarrow> task_error + task_value) \<Rightarrow> nat \<Rightarrow> (task_error + task_value) \<times> attempt list" where
  "zero_copy_chain native cap =
     (case native 0 (Into cap) of
        Inr v \<Rightarrow> (Inr v, [Into cap])
      | Inl e \<Rightarrow>
          (let a = (case e of TooSmall n \<Rightarrow> Into n | _ \<Rightarrow> CopyPath)
           in case native 1 a of
                Inr v \<Rightarrow> (Inr v, [Into cap, a])
              | Inl _ \<Rightarrow> (native 2 CopyPath, [Into cap, a, CopyPath])))"

definition gzipDecompress where
  "gzipDecompress native isize =
     (if isize < 64 * 1024 then (native 0 CopyPath, [CopyPath]) else zero_copy_chain native isize)"

definition brotliDecompress where
  "brotliDecompress native datLen = zero_copy_chain native (brotliCapacityGuess datLen)"

section \<open>Properties\<close>


definition one_completion :: "bool task_drain" where
  "one_completion ns n = (if ns \<and> 21 \<le> n
     then (21, batch_layout [\<lparr>c_id = 1, c_status = 0, c_body = [7]\<rparr>] @ new_buf (n - 21), False) else (0, [], ns))"

lemma wf_one_completion: "wf_drain one_completion"
  unfolding wf_drain_def drained_ok_def one_completion_def
  by (auto intro!: exI [of _ "[\<lparr>c_id = 1, c_status = 0, c_body = [7]\<rparr>]"]
      simp: completion_ok_def batch_layout_def completion_layout_def)




text \<open>
  The zero-copy decompression cannot regress the copy path: it submits at most three attempts,
  when the copy path succeeds with some value the chain succeeds, and its value is then the copy path's
  or that of a zero-copy attempt. A copy path that fails right after a failed zero-copy attempt is
  submitted a second time.
\<close>

theorem zero_copy_fallback:
  "length (snd (zero_copy_chain native cap)) \<le> 3
   \<and> (\<forall>v. (\<forall>k. native k CopyPath = Inr v) \<longrightarrow> (\<exists>u. fst (zero_copy_chain native cap) = Inr u
        \<and> (u = v \<or> (\<exists>k n. native k (Into n) = Inr u))))
   \<and> (\<forall>e e'. native 0 (Into cap) = Inl e \<longrightarrow> (\<forall>n. e \<noteq> TooSmall n) \<longrightarrow> native 1 CopyPath = Inl e'
        \<longrightarrow> snd (zero_copy_chain native cap) = [Into cap, CopyPath, CopyPath])"
proof -
  have "length (snd (zero_copy_chain native cap)) \<le> 3"
    by (simp add: zero_copy_chain_def Let_def split: sum.splits)
  moreover have "\<exists>u. fst (zero_copy_chain native cap) = Inr u \<and> (u = v \<or> (\<exists>k n. native k (Into n) = Inr u))"
    if c: "\<forall>k. native k CopyPath = Inr v" for v
  proof (cases "native 0 (Into cap)")
    case (Inr u)
    then show ?thesis by (auto simp: zero_copy_chain_def)
  next
    case (Inl e)
    define a where "a = (case e of TooSmall n \<Rightarrow> Into n | _ \<Rightarrow> CopyPath)"
    have a: "a = CopyPath \<or> (\<exists>n. a = Into n)" by (simp add: a_def split: task_error.splits)
    have z: "fst (zero_copy_chain native cap) = (case native 1 a of Inr u \<Rightarrow> Inr u | Inl _ \<Rightarrow> native 2 CopyPath)"
      by (simp add: zero_copy_chain_def Inl a_def Let_def split: sum.splits)
    show ?thesis using a c z by (auto split: sum.splits)
  qed
  moreover have "snd (zero_copy_chain native cap) = [Into cap, CopyPath, CopyPath]"
    if "native 0 (Into cap) = Inl e" "\<forall>n. e \<noteq> TooSmall n" "native 1 CopyPath = Inl e'" for e e'
    using that by (cases e) (simp_all add: zero_copy_chain_def)
  ultimately show ?thesis by blast
qed

theorem zero_copy_fallback_witness:
  "snd (zero_copy_chain (\<lambda>_ _. Inl Cancelled) 8) = [Into 8, CopyPath, CopyPath]"
  using zero_copy_fallback [of "\<lambda>_ _. Inl Cancelled" 8] by simp

text \<open>
  The packed arguments have the documented layout whatever scratch they are written into: the
  wrapped u32 header followed by the payload, and for the password ops the length fields followed by
  the parts, so that no byte of an earlier submission leaks into a later one.
\<close>

theorem task_args_layout:
  "packHeaderAndBytes h dat out = Inr (u32_le (to_uint32 h) @ dat)
   \<and> encodeArgon2VerifyArgs pw phc = Inr (u32_le (length pw) @ u32_le (length phc) @ pw @ phc)
   \<and> encodePbkdf2Args pw salt rounds dk = Inr (u32_le (to_uint32 rounds)
        @ u32_le (to_uint32 (case dk of None \<Rightarrow> 32 | Some d \<Rightarrow> d)) @ u32_le (length salt) @ salt @ pw)"
proof (intro conjI)
  define dest where "dest = (case out of Some b \<Rightarrow> (if 4 + length dat \<le> length b then b else new_buf (4 + length dat))
    | None \<Rightarrow> new_buf (4 + length dat))"
  have d: "4 + length dat \<le> length dest" by (simp add: dest_def split: option.splits)
  have "put_fields dest 0 [u32_le (to_uint32 h), dat] = Inr ((u32_le (to_uint32 h) @ dat) @ drop (4 + length dat) dest)"
    using put_fields_fill [of dest "[u32_le (to_uint32 h), dat]" "drop (4 + length dat) dest" "[]"] d by simp
  then show "packHeaderAndBytes h dat out = Inr (u32_le (to_uint32 h) @ dat)"
    by (auto simp: packHeaderAndBytes_def Let_def dest_def [symmetric] rbind_Inr_conv subarray_def)
  show "encodeArgon2VerifyArgs pw phc = Inr (u32_le (length pw) @ u32_le (length phc) @ pw @ phc)"
    using put_fields_new [of "8 + length pw + length phc" "[u32_le (length pw), u32_le (length phc), pw, phc]"]
    by (auto simp: encodeArgon2VerifyArgs_def rbind_Inr_conv)
  show "encodePbkdf2Args pw salt rounds dk = Inr (u32_le (to_uint32 rounds)
      @ u32_le (to_uint32 (case dk of None \<Rightarrow> 32 | Some d \<Rightarrow> d)) @ u32_le (length salt) @ salt @ pw)"
    using put_fields_new [of "12 + length salt + length pw" "[u32_le (to_uint32 rounds),
      u32_le (to_uint32 (case dk of None \<Rightarrow> 32 | Some d \<Rightarrow> d)), u32_le (length salt), salt, pw]"]
    by (auto simp: encodePbkdf2Args_def rbind_Inr_conv)
qed

end
