(* ===== verification/Observability.thy ===== *)
theory Observability
  imports Prelude
begin

text \<open>
  Request identifiers (\<open>src/src/shared/request-id.ts\<close>), the W3C trace context
  (\<open>src/src/shared/trace.ts\<close>), log levels (\<open>src/src/shared/log.ts\<close>) and environment resolution
  (\<open>src/src/shared/env.ts\<close>).
\<close>

section \<open>Request identifiers\<close>

record id_counter =
  ctr_hi :: "32 word"
  ctr_lo :: "32 word"

definition boot_counter :: "32 word \<Rightarrow> nat \<Rightarrow> id_counter" where
  "boot_counter bootRandom workerId =
     \<lparr>ctr_hi = xor bootRandom (push_bit 16 (of_nat (workerId mod 2 ^ 16))), ctr_lo = 0\<rparr>"

definition bump :: "id_counter \<Rightarrow> id_counter" where
  "bump c = (if ctr_lo c = 0xffffffff then \<lparr>ctr_hi = ctr_hi c + 1, ctr_lo = 0\<rparr> else c\<lparr>ctr_lo := ctr_lo c + 1\<rparr>)"

text \<open>\<open>HEX_LOOKUP[2 * b]\<close> and \<open>HEX_LOOKUP[2 * b + 1]\<close>.\<close>

definition hex_digit :: "nat \<Rightarrow> byte" where
  "hex_digit n = (if n < 10 then of_nat (48 + n) else of_nat (87 + n))"

definition hex_byte :: "byte \<Rightarrow> bytes" where
  "hex_byte b = [hex_digit (unat b div 16), hex_digit (unat b mod 16)]"

definition binary_of :: "id_counter \<Rightarrow> bytes" where
  "binary_of c = concat (map (\<lambda>w. map (\<lambda>k. of_nat (unat w div 2 ^ k)) [24, 16, 8, 0]) [ctr_hi c, ctr_lo c])"

definition generateRequestId :: "id_counter \<Rightarrow> bytes \<times> id_counter" where
  "generateRequestId c = (let c' = bump c in (concat (map hex_byte (binary_of c')), c'))"

text \<open>The counter as one 64-bit number.\<close>

definition counter64 :: "id_counter \<Rightarrow> nat" where
  "counter64 c = unat (ctr_hi c) * 2 ^ 32 + unat (ctr_lo c)"

lemma unat32_less: "unat (w :: 32 word) < 2 ^ 32"
  using unsigned_less [of w] by simp

lemma unat_plus1: "(w :: 32 word) \<noteq> 0xffffffff \<Longrightarrow> unat (w + 1) = unat w + 1"
proof -
  assume a: "w \<noteq> 0xffffffff"
  have "unat w \<noteq> 4294967295"
  proof
    assume "unat w = 4294967295"
    then have "unat w = unat (0xffffffff :: 32 word)" by simp
    with a show False by (simp only: word_unat_eq_iff)
  qed
  with unat32_less [of w] have "unat w + 1 < 2 ^ 32" by simp
  then show ?thesis by (simp add: unat_word_ariths(1))
qed

lemma bump_counter64: "counter64 (bump c) = (counter64 c + 1) mod 2 ^ 64"
proof (cases "ctr_lo c = 0xffffffff")
  case True
  show ?thesis
  proof (cases "ctr_hi c = 0xffffffff")
    case hi: True
    with True show ?thesis by (simp add: bump_def counter64_def)
  next
    case False
    have "unat (ctr_hi c) + 1 < 2 ^ 32" using unat_plus1 [OF False] unat32_less [of "ctr_hi c + 1"] by simp
    with True unat_plus1 [OF False] show ?thesis by (simp add: bump_def counter64_def)
  qed
next
  case False
  have lo: "unat (ctr_lo c) + 1 < 2 ^ 32" using unat_plus1 [OF False] unat32_less [of "ctr_lo c + 1"] by simp
  have "counter64 c + 1 < 2 ^ 64" using lo unat32_less [of "ctr_hi c"] by (simp add: counter64_def)
  with False unat_plus1 [OF False] show ?thesis by (simp add: bump_def counter64_def)
qed

lemma counter64_inj: "counter64 c = counter64 d \<Longrightarrow> c = d"
proof -
  assume e: "counter64 c = counter64 d"
  have b: "unat (ctr_lo c) < 2 ^ 32" "unat (ctr_lo d) < 2 ^ 32" by (rule unat32_less)+
  have "unat (ctr_hi c) = counter64 c div 2 ^ 32" "unat (ctr_hi d) = counter64 d div 2 ^ 32"
    "unat (ctr_lo c) = counter64 c mod 2 ^ 32" "unat (ctr_lo d) = counter64 d mod 2 ^ 32"
    using b by (simp_all add: counter64_def)
  with e have "ctr_hi c = ctr_hi d" "ctr_lo c = ctr_lo d" by (simp_all add: word_unat_eq_iff)
  then show ?thesis by simp
qed

lemma counter64_bump_pow: "counter64 ((bump ^^ n) c) = (counter64 c + n) mod 2 ^ 64"
proof (induction n)
  case 0
  have "counter64 c < 2 ^ 64"
    using unat32_less [of "ctr_hi c"] unat32_less [of "ctr_lo c"] by (simp add: counter64_def)
  then show ?case by simp
next
  case (Suc n)
  then show ?case by (simp add: bump_counter64 mod_simps)
qed

lemma hex_digit_inj: "m < 16 \<Longrightarrow> n < 16 \<Longrightarrow> hex_digit m = hex_digit n \<Longrightarrow> m = n"
proof -
  assume mn: "m < 16" "n < 16" and e: "hex_digit m = hex_digit n"
  have u: "unat (hex_digit k) = (if k < 10 then 48 + k else 87 + k)" if "k < 16" for k
  proof -
    have "unat (of_nat (48 + k) :: byte) = 48 + k" "unat (of_nat (87 + k) :: byte) = 87 + k"
      using that unat_of_nat_byte [of "48 + k"] unat_of_nat_byte [of "87 + k"] by simp_all
    then show ?thesis by (simp add: hex_digit_def del: of_nat_add)
  qed
  have "unat (hex_digit m) = unat (hex_digit n)" using e by simp
  then show ?thesis unfolding u [OF mn(1)] u [OF mn(2)] by (simp split: if_splits)
qed

lemma hex_byte_inj: "hex_byte a = hex_byte b \<Longrightarrow> a = b"
proof -
  assume e: "hex_byte a = hex_byte b"
  have d: "unat x div 16 < 16" for x :: byte using unat_byte_lt [of x] by (intro less_mult_imp_div_less) simp
  have h: "hex_digit (unat a div 16) = hex_digit (unat b div 16)" "hex_digit (unat a mod 16) = hex_digit (unat b mod 16)"
    using e by (simp_all add: hex_byte_def)
  have "unat a div 16 = unat b div 16" by (rule hex_digit_inj [OF d d h(1)])
  moreover have "unat a mod 16 = unat b mod 16" by (rule hex_digit_inj [OF _ _ h(2)]) simp_all
  ultimately have "unat a div 16 = unat b div 16" "unat a mod 16 = unat b mod 16" by simp_all
  then have "unat a = unat b" by (metis div_mult_mod_eq)
  then show ?thesis by (simp add: word_unat_eq_iff)
qed

lemma concat_hex_inj: "length xs = length ys \<Longrightarrow> concat (map hex_byte xs) = concat (map hex_byte ys) \<Longrightarrow> xs = ys"
proof (induction xs ys rule: list_induct2)
  case (Cons x xs y ys)
  have "hex_byte x @ concat (map hex_byte xs) = hex_byte y @ concat (map hex_byte ys)" using Cons.prems by simp
  then have "hex_byte x = hex_byte y" "concat (map hex_byte xs) = concat (map hex_byte ys)"
    by (simp_all add: hex_byte_def)
  with Cons.IH hex_byte_inj show ?case by blast
qed simp

definition nat_of_be :: "nat list \<Rightarrow> nat" where
  "nat_of_be = foldl (\<lambda>a b. a * 256 + b) 0"

lemma be_bytes32: "nat_of_be (map (\<lambda>k. unat (of_nat (unat w div 2 ^ k) :: byte)) [24, 16, 8, 0]) = unat (w :: 32 word)"
proof -
  have b: "unat w < 4294967296" using unat32_less [of w] by simp
  have top: "x div 16777216 mod 256 = x div 16777216" if "x < 4294967296" for x :: nat
    using that by (simp add: less_mult_imp_div_less)
  have e: "((x div 16777216 mod 256 * 256 + x div 65536 mod 256) * 256 + x div 256 mod 256) * 256 + x mod 256 = x"
    if "x < 4294967296" for x :: nat
  proof -
    have "x div 65536 = x div 16777216 * 256 + x div 65536 mod 256"
      using div_mult_mod_eq [of "x div 65536" 256] by (simp add: div_mult2_eq [symmetric])
    moreover have "x div 256 = x div 65536 * 256 + x div 256 mod 256"
      using div_mult_mod_eq [of "x div 256" 256] by (simp add: div_mult2_eq [symmetric])
    ultimately show ?thesis using that top by (metis div_mult_mod_eq)
  qed
  show ?thesis using e [OF b] top [OF b] by (simp add: nat_of_be_def unat_of_nat_byte)
qed

lemma binary_of_inj: "binary_of c = binary_of d \<Longrightarrow> c = d"
proof -
  assume e: "binary_of c = binary_of d"
  have "nat_of_be (map unat (take 4 (binary_of x))) = unat (ctr_hi x)" for x
    using be_bytes32 [of "ctr_hi x"] by (simp add: binary_of_def)
  moreover have "nat_of_be (map unat (drop 4 (binary_of x))) = unat (ctr_lo x)" for x
    using be_bytes32 [of "ctr_lo x"] by (simp add: binary_of_def)
  ultimately have "unat (ctr_hi c) = unat (ctr_hi d)" "unat (ctr_lo c) = unat (ctr_lo d)" using e by metis+
  then have "ctr_hi c = ctr_hi d" "ctr_lo c = ctr_lo d" by (simp_all add: word_unat_eq_iff)
  then show ?thesis by simp
qed

lemma length_binary_of [simp]: "length (binary_of c) = 8"
  by (simp add: binary_of_def)

definition nth_id :: "id_counter \<Rightarrow> nat \<Rightarrow> bytes" where
  "nth_id c n = fst (generateRequestId ((bump ^^ n) c))"

section \<open>The trace context\<close>

definition is_ws :: "code_unit \<Rightarrow> bool" where
  "is_ws u \<longleftrightarrow> unat u \<in> {9, 10, 11, 12, 13, 32, 160, 0x1680, 0x2028, 0x2029, 0x202f, 0x205f, 0x3000, 0xfeff}
     \<or> 0x2000 \<le> unat u \<and> unat u \<le> 0x200a"

definition js_trim :: "jsstring \<Rightarrow> jsstring" where
  "js_trim s = rev (dropWhile is_ws (rev (dropWhile is_ws s)))"

fun split_on :: "code_unit \<Rightarrow> jsstring \<Rightarrow> jsstring list" where
  "split_on sep [] = [[]]"
| "split_on sep (u # s) =
     (if u = sep then [] # split_on sep s
      else case split_on sep s of [] \<Rightarrow> [[u]] | p # ps \<Rightarrow> (u # p) # ps)"

definition hex_unit :: "code_unit \<Rightarrow> bool" where
  "hex_unit u \<longleftrightarrow> 48 \<le> unat u \<and> unat u \<le> 57 \<or> 65 \<le> unat u \<and> unat u \<le> 70 \<or> 97 \<le> unat u \<and> unat u \<le> 102"

text \<open>\<open>/^[0-9a-fA-F]+$/.test(s)\<close>\<close>

definition hex_test :: "jsstring \<Rightarrow> bool" where
  "hex_test s \<longleftrightarrow> s \<noteq> [] \<and> (\<forall>u \<in> set s. hex_unit u)"

definition lower_unit :: "code_unit \<Rightarrow> code_unit" where
  "lower_unit u = (if 65 \<le> unat u \<and> unat u \<le> 90 then u + 32 else u)"

definition hex_value :: "code_unit \<Rightarrow> nat" where
  "hex_value u = (if unat u \<le> 57 then unat u - 48 else if unat u \<le> 70 then unat u - 55 else unat u - 87)"

definition parse_hex :: "jsstring \<Rightarrow> nat" where
  "parse_hex s = foldl (\<lambda>n u. n * 16 + hex_value u) 0 s"

definition hex_char :: "nat \<Rightarrow> code_unit" where
  "hex_char n = (if n < 10 then of_nat (48 + n) else of_nat (87 + n))"

fun to_hex :: "nat \<Rightarrow> jsstring" where
  "to_hex n = (if n < 16 then [hex_char n] else to_hex (n div 16) @ [hex_char (n mod 16)])"

declare to_hex.simps [simp del]

definition pad2 :: "jsstring \<Rightarrow> jsstring" where
  "pad2 s = replicate (2 - length s) 48 @ s"

record trace_context =
  tc_version :: jsstring
  tc_traceId :: jsstring
  tc_spanId :: jsstring
  tc_flags :: nat
  tc_sampled :: bool

definition parseTraceParent :: "jsstring option \<Rightarrow> trace_context option" where
  "parseTraceParent header =
     (case header of
        None \<Rightarrow> None
      | Some h \<Rightarrow>
          (if h = [] then None
           else case split_on 45 (js_trim h) of
             [version, traceId, spanId, flagsStr] \<Rightarrow>
               (if version \<noteq> js ''00'' then None
                else if length traceId \<noteq> 32 \<or> \<not> hex_test traceId then None
                else if length spanId \<noteq> 16 \<or> \<not> hex_test spanId then None
                else if length flagsStr \<noteq> 2 \<or> \<not> hex_test flagsStr then None
                else let flags = parse_hex flagsStr
                     in Some \<lparr>tc_version = version, tc_traceId = map lower_unit traceId,
                              tc_spanId = map lower_unit spanId, tc_flags = flags,
                              tc_sampled = (flags mod 2 = 1)\<rparr>)
           | _ \<Rightarrow> None))"

definition serializeTraceParent :: "trace_context \<Rightarrow> jsstring" where
  "serializeTraceParent ctx =
     tc_version ctx @ [45] @ tc_traceId ctx @ [45] @ tc_spanId ctx @ [45] @ pad2 (to_hex (tc_flags ctx))"

text \<open>\<open>randomHex\<close> over the bytes the generator filled in.\<close>

definition randomHex :: "bytes \<Rightarrow> jsstring" where
  "randomHex buf = concat (map (\<lambda>b. pad2 (to_hex (unat b))) buf)"

section \<open>Log levels and environment variables\<close>

datatype log_level = Debug | Info | Warn | Error | Silent

fun LEVEL_ORDER :: "log_level \<Rightarrow> nat" where
  "LEVEL_ORDER Debug = 10" | "LEVEL_ORDER Info = 20" | "LEVEL_ORDER Warn = 30"
| "LEVEL_ORDER Error = 40" | "LEVEL_ORDER Silent = 99"

definition resolveLevel :: "jsstring option \<Rightarrow> log_level" where
  "resolveLevel env =
     (case env of
        None \<Rightarrow> Info
      | Some e \<Rightarrow>
          (let v = map lower_unit (js_trim e)
           in if v = js ''debug'' then Debug
              else if v = js ''warn'' \<or> v = js ''warning'' then Warn
              else if v = js ''error'' then Error
              else if v = js ''silent'' \<or> v = js ''off'' \<or> v = js ''none'' then Silent
              else Info))"

definition log_enabled :: "jsstring option \<Rightarrow> log_level \<Rightarrow> bool" where
  "log_enabled env level \<longleftrightarrow> \<not> LEVEL_ORDER level < LEVEL_ORDER (resolveLevel env)"

fun resolve_alias :: "(jsstring \<Rightarrow> jsstring option) \<Rightarrow> jsstring list \<Rightarrow> jsstring option" where
  "resolve_alias env [] = None"
| "resolve_alias env (a # as) = (case env a of Some v \<Rightarrow> Some v | None \<Rightarrow> resolve_alias env as)"

definition resolveEnvVar :: "(jsstring \<Rightarrow> jsstring option) \<Rightarrow> jsstring \<Rightarrow> jsstring list \<Rightarrow> jsstring option" where
  "resolveEnvVar env preferred legacy = (case env preferred of Some v \<Rightarrow> Some v | None \<Rightarrow> resolve_alias env legacy)"

section \<open>Round trips\<close>

definition trace_ok :: "trace_context \<Rightarrow> bool" where
  "trace_ok ctx \<longleftrightarrow> tc_version ctx = js ''00'' \<and> length (tc_traceId ctx) = 32 \<and> hex_test (tc_traceId ctx)
     \<and> map lower_unit (tc_traceId ctx) = tc_traceId ctx \<and> length (tc_spanId ctx) = 16 \<and> hex_test (tc_spanId ctx)
     \<and> map lower_unit (tc_spanId ctx) = tc_spanId ctx \<and> tc_flags ctx < 256
     \<and> tc_sampled ctx = (tc_flags ctx mod 2 = 1)"

lemma split_on_free: "sep \<notin> set s \<Longrightarrow> split_on sep s = [s]"
  by (induction s) auto

lemma split_on_append: "sep \<notin> set s \<Longrightarrow> split_on sep (s @ sep # t) = s # split_on sep t"
  by (induction s) auto

lemma hex_unit_facts: "hex_unit u \<Longrightarrow> u \<noteq> 45 \<and> \<not> is_ws u"
  by (auto simp: hex_unit_def is_ws_def)

lemma unat_hex_char: "n < 16 \<Longrightarrow> unat (hex_char n) = (if n < 10 then 48 + n else 87 + n)"
proof -
  assume n: "n < 16"
  have u: "unat (of_nat k :: code_unit) = k" if "k < 65536" for k
    using that by (simp add: unat_of_nat)
  show ?thesis using n u [of "48 + n"] u [of "87 + n"] by (simp add: hex_char_def del: of_nat_add)
qed

lemma hex_char_ok: "n < 16 \<Longrightarrow> hex_unit (hex_char n) \<and> hex_value (hex_char n) = n \<and> lower_unit (hex_char n) = hex_char n"
  using unat_hex_char [of n] by (auto simp: hex_unit_def hex_value_def lower_unit_def)

lemma flags_hex:
  assumes "n < 256"
  shows "pad2 (to_hex n) = [hex_char (n div 16), hex_char (n mod 16)]"
proof (cases "n < 16")
  case True
  then show ?thesis by (simp add: to_hex.simps [of n] pad2_def hex_char_def)
next
  case False
  have "n div 16 < 16" using assms by (intro less_mult_imp_div_less) simp
  with False show ?thesis by (simp add: to_hex.simps [of n] to_hex.simps [of "n div 16"] pad2_def)
qed

lemma trace_context_eqI:
  "tc_version c = v \<Longrightarrow> tc_sampled c = b \<Longrightarrow>
   \<lparr>tc_version = v, tc_traceId = tc_traceId c, tc_spanId = tc_spanId c, tc_flags = tc_flags c, tc_sampled = b\<rparr> = c"
  by (cases c) simp

lemma mod_distinct:
  fixes M :: nat
  assumes "m < n" and "n - m < M" and "(c + (m + 1)) mod M = (c + (n + 1)) mod M"
  shows False
proof -
  have "(c + (n + 1)) mod M = (c + (m + 1)) mod M" using assms(3) by simp
  moreover have "c + (m + 1) \<le> c + (n + 1)" using assms(1) by simp
  ultimately have "M dvd (c + (n + 1)) - (c + (m + 1))" using mod_eq_dvd_iff_nat by blast
  then have "M dvd n - m" by simp
  then show False using assms(1,2) by (auto dest: dvd_imp_le)
qed

lemma js_trim_id: "s \<noteq> [] \<Longrightarrow> \<not> is_ws (hd s) \<Longrightarrow> \<not> is_ws (last s) \<Longrightarrow> js_trim s = s"
proof -
  assume a: "s \<noteq> []" "\<not> is_ws (hd s)" "\<not> is_ws (last s)"
  have "dropWhile is_ws s = s" using a by (cases s) simp_all
  moreover have "dropWhile is_ws (rev s) = rev s" using a by (cases s rule: rev_cases) simp_all
  ultimately show ?thesis by (simp add: js_trim_def)
qed

section \<open>Properties\<close>

text \<open>
  Request ids do not repeat: the ids of any two calls fewer than \<open>2 ^ 64\<close> calls apart differ,
  through every carry from the low to the high counter word, whatever the boot randomness and the
  worker id; each id is sixteen bytes long.
\<close>

theorem request_ids_distinct:
  assumes "m < n" and "n - m < 2 ^ 64"
  shows "nth_id (boot_counter r w) m \<noteq> nth_id (boot_counter r w) n \<and> length (nth_id (boot_counter r w) m) = 16"
proof
  let ?c = "boot_counter r w"
  let ?a = "bump ((bump ^^ m) ?c)" and ?b = "bump ((bump ^^ n) ?c)"
  show "length (nth_id ?c m) = 16"
    by (simp add: nth_id_def generateRequestId_def Let_def length_concat comp_def hex_byte_def binary_of_def)
  show "nth_id ?c m \<noteq> nth_id ?c n"
  proof
    assume "nth_id ?c m = nth_id ?c n"
    then have "concat (map hex_byte (binary_of ?a)) = concat (map hex_byte (binary_of ?b))"
      by (simp only: nth_id_def generateRequestId_def Let_def fst_conv)
    then have "binary_of ?a = binary_of ?b"
      by (rule concat_hex_inj [rotated]) (simp only: length_binary_of)
    then have "?a = ?b" by (rule binary_of_inj)
    then have "(counter64 ?c + (m + 1)) mod 2 ^ 64 = (counter64 ?c + (n + 1)) mod 2 ^ 64"
      using counter64_bump_pow [of "Suc m" ?c] counter64_bump_pow [of "Suc n" ?c] by simp
    with assms show False by (rule mod_distinct)
  qed
qed

theorem request_ids_distinct_witness:
  "nth_id (boot_counter 7 1) 4294967294 \<noteq> nth_id (boot_counter 7 1) 4294967295"
  using request_ids_distinct [of 4294967294 4294967295 7 1] by simp

text \<open>
  Trace contexts survive the header: parsing the serialization of a valid context gives it back,
  and whatever the parser accepts is a valid context (version 00, lower-case hex ids of the right
  length, a flags byte and its sampled bit).
\<close>

theorem traceparent_roundtrip:
  "(trace_ok ctx \<longrightarrow> parseTraceParent (Some (serializeTraceParent ctx)) = Some ctx)
   \<and> (parseTraceParent h = Some ctx' \<longrightarrow> trace_ok ctx')"
proof (intro conjI impI)
  assume ok: "trace_ok ctx"
  let ?f = "[hex_char (tc_flags ctx div 16), hex_char (tc_flags ctx mod 16)]"
  let ?s = "js ''00'' @ 45 # tc_traceId ctx @ 45 # tc_spanId ctx @ 45 # ?f"
  have q: "tc_flags ctx div 16 < 16" using ok by (intro less_mult_imp_div_less) (simp add: trace_ok_def)
  note H = hex_char_ok [OF q] hex_char_ok [of "tc_flags ctx mod 16"]
  have s: "serializeTraceParent ctx = ?s" using ok flags_hex by (simp add: serializeTraceParent_def trace_ok_def)
  have nd: "45 \<notin> set (js ''00'')" "45 \<notin> set (tc_traceId ctx)" "45 \<notin> set (tc_spanId ctx)" "45 \<notin> set ?f"
    using ok H hex_unit_facts by (auto simp: js_def trace_ok_def hex_test_def)
  have "js_trim ?s = ?s" using H hex_unit_facts by (intro js_trim_id) (auto simp: js_def is_ws_def)
  moreover have "split_on 45 ?s = [js ''00'', tc_traceId ctx, tc_spanId ctx, ?f]"
    using nd by (simp add: split_on_append split_on_free del: split_on.simps)
  moreover have "parse_hex ?f = tc_flags ctx" using H by (simp add: parse_hex_def)
  moreover have "hex_test ?f" using H by (simp add: hex_test_def)
  ultimately show "parseTraceParent (Some (serializeTraceParent ctx)) = Some ctx"
    using ok by (simp add: parseTraceParent_def s trace_ok_def Let_def trace_context_eqI)
next
  have lower: "hex_unit u \<Longrightarrow> hex_unit (lower_unit u) \<and> lower_unit (lower_unit u) = lower_unit u" for u
  proof -
    assume u: "hex_unit u"
    have "unat (u + 32) = unat u + 32" if "unat u \<le> 90"
      using that by (simp add: unat_word_ariths(1))
    with u show ?thesis by (auto simp: hex_unit_def lower_unit_def)
  qed
  have two: "length f = 2 \<Longrightarrow> hex_test f \<Longrightarrow> parse_hex f < 256" for f
    by (auto simp: hex_test_def parse_hex_def hex_value_def hex_unit_def length_Suc_conv numeral_2_eq_2)
  assume "parseTraceParent h = Some ctx'"
  then show "trace_ok ctx'"
    using lower two
    by (auto simp: parseTraceParent_def trace_ok_def Let_def hex_test_def comp_def split: option.splits if_splits list.splits)
qed

theorem traceparent_roundtrip_witness:
  "parseTraceParent (Some (serializeTraceParent \<lparr>tc_version = js ''00'', tc_traceId = replicate 32 97,
     tc_spanId = replicate 16 98, tc_flags = 1, tc_sampled = True\<rparr>))
   = Some \<lparr>tc_version = js ''00'', tc_traceId = replicate 32 97, tc_spanId = replicate 16 98, tc_flags = 1, tc_sampled = True\<rparr>"
proof -
  have "trace_ok \<lparr>tc_version = js ''00'', tc_traceId = replicate 32 97, tc_spanId = replicate 16 98, tc_flags = 1, tc_sampled = True\<rparr>"
    by (simp add: trace_ok_def hex_test_def hex_unit_def lower_unit_def)
  with traceparent_roundtrip show ?thesis by blast
qed

end
