(* ===== verification/IngressDecode.thy ===== *)
theory IngressDecode
  imports Codec
begin

unbundle bit_operations_syntax

text \<open>
  Decoding the native ingress output: \<open>src/src/ingress/status.ts\<close>, \<open>errors.ts\<close> and
  \<open>decode/\<close> (\<open>packed-sections.ts\<close>, \<open>result-base.ts\<close>, \<open>fast-result.ts\<close>, \<open>baked-result.ts\<close>).
  The offsets, flag masks and error codes are read at start-up from the native library; their
  numbers are those of \<open>src/rust/ingress/output.rs\<close>.

  A decoder is a reusable object, so its fields are a record that each \<open>refresh\<close> updates; the fast
  decoder extends the shared fields. The data view of a decoder reads the same bytes as its buffer.
\<close>

section \<open>Layout\<close>

abbreviation (input) OUT_VERDICT :: nat where "OUT_VERDICT \<equiv> 0"
abbreviation (input) OUT_ERROR_CODE :: nat where "OUT_ERROR_CODE \<equiv> 1"
abbreviation (input) OUT_STATUS :: nat where "OUT_STATUS \<equiv> 2"
abbreviation (input) OUT_FLAGS :: nat where "OUT_FLAGS \<equiv> 4"
abbreviation (input) OUT_RATE_LIMIT :: nat where "OUT_RATE_LIMIT \<equiv> 8"
abbreviation (input) OUT_RATE_REMAINING :: nat where "OUT_RATE_REMAINING \<equiv> 12"
abbreviation (input) OUT_RATE_RESET :: nat where "OUT_RATE_RESET \<equiv> 16"
abbreviation (input) OUT_RETRY_AFTER :: nat where "OUT_RETRY_AFTER \<equiv> 24"
abbreviation (input) OUT_COOKIES_JSON_LEN :: nat where "OUT_COOKIES_JSON_LEN \<equiv> 32"
abbreviation (input) OUT_QUERY_JSON_LEN :: nat where "OUT_QUERY_JSON_LEN \<equiv> 36"
abbreviation (input) OUT_HEADER_VARIANT :: nat where "OUT_HEADER_VARIANT \<equiv> 40"
abbreviation (input) OUT_BODY_JSON_LEN :: nat where "OUT_BODY_JSON_LEN \<equiv> 44"
abbreviation (input) OUT_DATA_START :: nat where "OUT_DATA_START \<equiv> 48"

abbreviation (input) FLAG_HAS_COOKIES :: nat where "FLAG_HAS_COOKIES \<equiv> 1"
abbreviation (input) FLAG_HAS_QUERY :: nat where "FLAG_HAS_QUERY \<equiv> 2"
abbreviation (input) FLAG_BODY_VALID_JSON :: nat where "FLAG_BODY_VALID_JSON \<equiv> 4"
abbreviation (input) FLAG_SCHEMA_VALID :: nat where "FLAG_SCHEMA_VALID \<equiv> 8"
abbreviation (input) FLAG_CORS_ALLOWED :: nat where "FLAG_CORS_ALLOWED \<equiv> 16"
abbreviation (input) FLAG_IS_PREFLIGHT :: nat where "FLAG_IS_PREFLIGHT \<equiv> 32"
abbreviation (input) FLAG_RATE_LIMITED :: nat where "FLAG_RATE_LIMITED \<equiv> 64"
abbreviation (input) FLAG_HTTPS :: nat where "FLAG_HTTPS \<equiv> 128"
abbreviation (input) FLAG_TRUSTED_PROXY :: nat where "FLAG_TRUSTED_PROXY \<equiv> 256"
abbreviation (input) FLAG_BODY_TRUNCATED :: nat where "FLAG_BODY_TRUNCATED \<equiv> 512"

abbreviation (input) HV_JSON :: nat where "HV_JSON \<equiv> 1"

abbreviation (input) ERR_CODE_NONE :: int where "ERR_CODE_NONE \<equiv> 0"
abbreviation (input) ERR_CODE_CORS_PREFLIGHT :: int where "ERR_CODE_CORS_PREFLIGHT \<equiv> 1"
abbreviation (input) ERR_CODE_RATE_LIMITED :: int where "ERR_CODE_RATE_LIMITED \<equiv> 2"
abbreviation (input) ERR_CODE_BODY_TOO_LARGE :: int where "ERR_CODE_BODY_TOO_LARGE \<equiv> 3"
abbreviation (input) ERR_CODE_INVALID_JSON :: int where "ERR_CODE_INVALID_JSON \<equiv> 4"
abbreviation (input) ERR_CODE_SCHEMA_VALIDATION :: int where "ERR_CODE_SCHEMA_VALIDATION \<equiv> 5"
abbreviation (input) ERR_CODE_BAD_REQUEST :: int where "ERR_CODE_BAD_REQUEST \<equiv> 6"
abbreviation (input) ERR_CODE_REQUEST_TOO_LARGE :: int where "ERR_CODE_REQUEST_TOO_LARGE \<equiv> 7"
abbreviation (input) ERR_CODE_INTERNAL :: int where "ERR_CODE_INTERNAL \<equiv> 8"
abbreviation (input) ERR_CODE_REQUEST_TIMEOUT :: int where "ERR_CODE_REQUEST_TIMEOUT \<equiv> - 1"

section \<open>Status normalization\<close>

definition isValidResponseStatus :: "nat \<Rightarrow> bool" where
  "isValidResponseStatus status \<longleftrightarrow> status = 101 \<or> 200 \<le> status \<and> status \<le> 599"

definition statusForErrorCode :: "int \<Rightarrow> bool \<Rightarrow> nat" where
  "statusForErrorCode errorCode isPreflightAllowed =
     (if isPreflightAllowed then 204
      else if errorCode = ERR_CODE_CORS_PREFLIGHT then 403
      else if errorCode = ERR_CODE_RATE_LIMITED then 429
      else if errorCode = ERR_CODE_BODY_TOO_LARGE then 413
      else if errorCode = ERR_CODE_INVALID_JSON then 400
      else if errorCode = ERR_CODE_SCHEMA_VALIDATION then 422
      else if errorCode = ERR_CODE_BAD_REQUEST then 400
      else if errorCode = ERR_CODE_REQUEST_TOO_LARGE then 431
      else if errorCode = ERR_CODE_REQUEST_TIMEOUT then 408
      else 500)"

definition normalizeResponseStatus :: "nat \<Rightarrow> int \<Rightarrow> bool \<Rightarrow> nat" where
  "normalizeResponseStatus status errorCode isPreflightAllowed =
     (if isValidResponseStatus status then status
      else statusForErrorCode errorCode isPreflightAllowed)"

definition errorCodeName :: "int \<Rightarrow> string" where
  "errorCodeName code =
     (if code = ERR_CODE_NONE then ''none''
      else if code = ERR_CODE_CORS_PREFLIGHT then ''cors_preflight''
      else if code = ERR_CODE_RATE_LIMITED then ''rate_limited''
      else if code = ERR_CODE_BODY_TOO_LARGE then ''body_too_large''
      else if code = ERR_CODE_INVALID_JSON then ''invalid_json''
      else if code = ERR_CODE_SCHEMA_VALIDATION then ''schema_validation''
      else if code = ERR_CODE_BAD_REQUEST then ''bad_request''
      else if code = ERR_CODE_REQUEST_TOO_LARGE then ''request_too_large''
      else if code = ERR_CODE_REQUEST_TIMEOUT then ''request_timeout''
      else if code = ERR_CODE_INTERNAL then ''internal''
      else ''unknown'')"

definition errorMessage :: "nat \<Rightarrow> int \<Rightarrow> string" where
  "errorMessage status code =
     (if code = ERR_CODE_CORS_PREFLIGHT then ''CORS preflight rejected''
      else if code = ERR_CODE_RATE_LIMITED then ''Too many requests''
      else if code = ERR_CODE_BODY_TOO_LARGE then ''Request body too large''
      else if code = ERR_CODE_INVALID_JSON then ''Invalid JSON body''
      else if code = ERR_CODE_SCHEMA_VALIDATION then ''JSON schema validation failed''
      else if code = ERR_CODE_BAD_REQUEST then ''Bad request''
      else if code = ERR_CODE_REQUEST_TOO_LARGE then ''Request too large''
      else if code = ERR_CODE_REQUEST_TIMEOUT then ''Request body read timed out''
      else if code = ERR_CODE_INTERNAL then ''Internal server error''
      else if 500 \<le> status then ''Internal server error''
      else ''Request rejected'')"

section \<open>Section layout\<close>

record section_layout =
  safeCookiesLen :: nat
  queryStart :: nat
  safeQueryLen :: nat
  bodyJsonStart :: nat
  safeBodyJsonLen :: nat
  truncated :: bool

definition sectionLayout :: "nat \<Rightarrow> nat \<Rightarrow> nat \<Rightarrow> nat \<Rightarrow> section_layout" where
  "sectionLayout bufLen cookiesLen queryLen bodyLen =
     (let sc = (if 0 < cookiesLen \<and> OUT_DATA_START + cookiesLen \<le> bufLen then cookiesLen else 0);
          qs = OUT_DATA_START + sc;
          sq = (if 0 < queryLen \<and> qs + queryLen \<le> bufLen then queryLen else 0);
          bs = qs + sq;
          sb = (if 0 < bodyLen \<and> bs + bodyLen \<le> bufLen then bodyLen else 0)
      in \<lparr>safeCookiesLen = sc, queryStart = qs, safeQueryLen = sq, bodyJsonStart = bs, safeBodyJsonLen = sb,
          truncated = (sc \<noteq> cookiesLen \<or> sq \<noteq> queryLen \<or> sb \<noteq> bodyLen)\<rparr>)"

section \<open>The shared decoder state\<close>

record ingress_result =
  verdict :: nat
  errorCode :: nat
  status :: nat
  headerVariant :: nat
  rateRemaining :: nat
  rateResetMs :: nat
  retryAfterMs :: nat
  terminal :: bool
  ok :: bool
  isPreflight :: bool
  corsAllowed :: bool
  rateLimited :: bool
  trustedProxy :: bool
  bodyValidJson :: bool
  schemaValid :: bool
  bodyTruncated :: bool
  req_body :: bytes
  r_buf :: bytes
  r_len :: nat
  r_bodyJsonStart :: nat
  r_bodyJsonLen :: nat
  r_cookiesBuf :: "bytes option"
  r_queryBuf :: "bytes option"
  r_cookiesDecoded :: "jsstring option"
  r_queryDecoded :: "jsstring option"

definition resetShared :: "'a ingress_result_scheme \<Rightarrow> 'a ingress_result_scheme" where
  "resetShared r = r\<lparr>verdict := 0, errorCode := 0, status := 0, headerVariant := 0, rateRemaining := 0,
     rateResetMs := 0, retryAfterMs := 0, terminal := True, ok := False, isPreflight := False,
     corsAllowed := False, rateLimited := False, trustedProxy := False, bodyValidJson := False,
     schemaValid := False, bodyTruncated := False, req_body := [], r_buf := [], r_len := 0,
     r_bodyJsonStart := OUT_DATA_START, r_bodyJsonLen := 0, r_cookiesBuf := None, r_queryBuf := None,
     r_cookiesDecoded := None, r_queryDecoded := None\<rparr>"

definition updateOkTerminal :: "'a ingress_result_scheme \<Rightarrow> 'a ingress_result_scheme" where
  "updateOkTerminal r = r\<lparr>terminal := (verdict r \<noteq> 0 \<or> 400 \<le> status r),
     ok := (verdict r = 0 \<and> 200 \<le> status r \<and> status r < 400)\<rparr>"

definition setRateWindow :: "nat \<Rightarrow> bool \<Rightarrow> bytes \<Rightarrow> 'a ingress_result_scheme \<Rightarrow> 'a ingress_result_scheme result" where
  "setRateWindow rateLimit limited view r =
     (if 0 < rateLimit \<or> limited then
        rbind (get_uint 4 view OUT_RATE_RESET) (\<lambda>resetLo.
        rbind (get_uint 4 view (OUT_RATE_RESET + 4)) (\<lambda>resetHi.
        rbind (get_uint 4 view OUT_RETRY_AFTER) (\<lambda>retryLo.
        rbind (get_uint 4 view (OUT_RETRY_AFTER + 4)) (\<lambda>retryHi.
          Inr (r\<lparr>rateResetMs := resetLo + resetHi * 4294967296,
                 retryAfterMs := retryLo + retryHi * 4294967296\<rparr>)))))
      else Inr (r\<lparr>rateResetMs := 0, retryAfterMs := 0\<rparr>))"

definition setSections :: "bytes \<Rightarrow> section_layout \<Rightarrow> nat \<Rightarrow> nat \<Rightarrow> 'a ingress_result_scheme \<Rightarrow> 'a ingress_result_scheme" where
  "setSections buf layout bodyJsonLen len r = r\<lparr>r_buf := buf, r_len := len,
     r_bodyJsonStart := bodyJsonStart layout, r_bodyJsonLen := bodyJsonLen,
     r_cookiesBuf := (if 0 < safeCookiesLen layout
       then Some (subarray buf OUT_DATA_START (OUT_DATA_START + safeCookiesLen layout)) else None),
     r_cookiesDecoded := None,
     r_queryBuf := (if 0 < safeQueryLen layout
       then Some (subarray buf (queryStart layout) (queryStart layout + safeQueryLen layout)) else None),
     r_queryDecoded := None\<rparr>"

text \<open>The lazy decoders return the string and the object with its memo.\<close>

definition cookiesJson :: "'a ingress_result_scheme \<Rightarrow> jsstring \<times> 'a ingress_result_scheme" where
  "cookiesJson r = (case r_cookiesDecoded r of Some s \<Rightarrow> (s, r)
     | None \<Rightarrow> (case r_cookiesBuf r of
         Some b \<Rightarrow> (let s = node_decodeUtf8 b in (s, r\<lparr>r_cookiesDecoded := Some s\<rparr>))
       | None \<Rightarrow> (js ''{}'', r)))"

definition queryJson :: "'a ingress_result_scheme \<Rightarrow> jsstring \<times> 'a ingress_result_scheme" where
  "queryJson r = (case r_queryDecoded r of Some s \<Rightarrow> (s, r)
     | None \<Rightarrow> (case r_queryBuf r of
         Some b \<Rightarrow> (let s = node_decodeUtf8 b in (s, r\<lparr>r_queryDecoded := Some s\<rparr>))
       | None \<Rightarrow> (js ''{}'', r)))"

definition bodyJsonSlice :: "'a ingress_result_scheme \<Rightarrow> bytes" where
  "bodyJsonSlice r =
     (if r_bodyJsonLen r = 0 then []
      else let e = r_bodyJsonStart r + r_bodyJsonLen r
           in if r_len r < e then [] else subarray (r_buf r) (r_bodyJsonStart r) e)"

definition has_flag :: "nat \<Rightarrow> nat \<Rightarrow> bool" where
  "has_flag flags m \<longleftrightarrow> flags AND m \<noteq> 0"

section \<open>The pre-baked decoder\<close>

definition setInternalError :: "ingress_result \<Rightarrow> ingress_result" where
  "setInternalError r = (resetShared r)\<lparr>status := 500, verdict := 1, errorCode := 8, headerVariant := HV_JSON,
     terminal := True, ok := False\<rparr>"

definition set_verdict :: "nat \<Rightarrow> nat \<Rightarrow> 'a ingress_result_scheme \<Rightarrow> 'a ingress_result_scheme" where
  "set_verdict h0 h1 r =
     (if h0 = 0 \<and> h1 = 0 then r\<lparr>verdict := 1, errorCode := 8, status := 500\<rparr>
      else let rawStatus = (h0 div 2 ^ 16) mod 2 ^ 16
           in r\<lparr>verdict := h0 mod 2 ^ 8, errorCode := (h0 div 2 ^ 8) mod 2 ^ 8,
                status := (if isValidResponseStatus rawStatus then rawStatus else 500)\<rparr>)"

definition refresh_baked :: "bytes \<Rightarrow> bytes \<Rightarrow> nat \<Rightarrow> ingress_result \<Rightarrow> ingress_result result" where
  "refresh_baked buf body len r0 =
     (if len < OUT_DATA_START then Inr (setInternalError r0)
      else
        rbind (get_uint 4 buf OUT_VERDICT) (\<lambda>h0.
        rbind (get_uint 4 buf OUT_FLAGS) (\<lambda>h1.
        rbind (get_uint 4 buf OUT_RATE_LIMIT) (\<lambda>h2.
        rbind (get_uint 4 buf OUT_RATE_REMAINING) (\<lambda>h3.
        rbind (get_uint 4 buf OUT_COOKIES_JSON_LEN) (\<lambda>cookiesLenRaw.
        rbind (get_uint 4 buf OUT_QUERY_JSON_LEN) (\<lambda>queryLenRaw.
        rbind (get_uint 1 buf OUT_HEADER_VARIANT) (\<lambda>hv.
        rbind (get_uint 4 buf OUT_BODY_JSON_LEN) (\<lambda>bodyJsonLenRaw.
          let layout = sectionLayout len cookiesLenRaw queryLenRaw bodyJsonLenRaw;
              r1 = (set_verdict h0 h1 (r0\<lparr>req_body := body\<rparr>))\<lparr>rateRemaining := h3\<rparr>
          in rbind (setRateWindow h2 (has_flag h1 FLAG_RATE_LIMITED) buf r1) (\<lambda>r2.
               Inr ((updateOkTerminal (setSections buf layout (safeBodyJsonLen layout) len
                       (r2\<lparr>headerVariant := hv\<rparr>)))
                 \<lparr>isPreflight := has_flag h1 FLAG_IS_PREFLIGHT,
                  corsAllowed := has_flag h1 FLAG_CORS_ALLOWED,
                  rateLimited := has_flag h1 FLAG_RATE_LIMITED,
                  trustedProxy := has_flag h1 FLAG_TRUSTED_PROXY,
                  bodyValidJson := has_flag h1 FLAG_BODY_VALID_JSON,
                  schemaValid := has_flag h1 FLAG_SCHEMA_VALID,
                  bodyTruncated := (has_flag h1 FLAG_BODY_TRUNCATED \<or> truncated layout)\<rparr>)))))))))))"

text \<open>\<open>bodyJson(copy)\<close>: both branches read the same bytes; the copy is a fresh array.\<close>

definition bodyJson_baked :: "bool \<Rightarrow> ingress_result \<Rightarrow> bytes" where
  "bodyJson_baked copy r =
     (if copy then
        (if r_bodyJsonLen r = 0 then subarray (r_buf r) 0 0
         else let e = r_bodyJsonStart r + r_bodyJsonLen r
              in if r_len r < e then subarray (r_buf r) 0 0 else subarray (r_buf r) (r_bodyJsonStart r) e)
      else bodyJsonSlice r)"

section \<open>The fast decoder\<close>

record fast_result = ingress_result +
  f_flags :: nat
  f_https :: bool
  f_hasCookies :: bool
  f_hasQuery :: bool
  f_rateLimit :: nat
  f_requestId :: jsstring

definition invalidate_fast :: "fast_result \<Rightarrow> fast_result" where
  "invalidate_fast r = (resetShared r)\<lparr>status := 500, verdict := 1, errorCode := 8, f_flags := 0,
     f_https := False, f_hasCookies := False, f_hasQuery := False, f_rateLimit := 0, f_requestId := []\<rparr>"

definition setInternalError_fast :: "jsstring \<Rightarrow> fast_result \<Rightarrow> fast_result" where
  "setInternalError_fast requestId r = (invalidate_fast r)\<lparr>f_requestId := requestId\<rparr>"

definition refresh_fast :: "bytes \<Rightarrow> bytes \<Rightarrow> jsstring \<Rightarrow> fast_result \<Rightarrow> fast_result result" where
  "refresh_fast buf body requestId r0 =
     (if length buf < OUT_DATA_START then Inr (setInternalError_fast requestId r0)
      else
        rbind (get_uint 1 buf OUT_VERDICT) (\<lambda>rawVerdict.
        rbind (get_uint 1 buf OUT_ERROR_CODE) (\<lambda>rawErrorCode.
        rbind (get_uint 2 buf OUT_STATUS) (\<lambda>rawStatus.
        rbind (get_uint 4 buf OUT_FLAGS) (\<lambda>flags.
        rbind (get_uint 4 buf OUT_RATE_LIMIT) (\<lambda>rateLimit.
        rbind (get_uint 4 buf OUT_RATE_REMAINING) (\<lambda>remaining.
        rbind (get_uint 4 buf OUT_COOKIES_JSON_LEN) (\<lambda>cookiesJsonLen.
        rbind (get_uint 4 buf OUT_QUERY_JSON_LEN) (\<lambda>queryJsonLen.
        rbind (get_uint 1 buf OUT_HEADER_VARIANT) (\<lambda>hv.
        rbind (get_uint 4 buf OUT_BODY_JSON_LEN) (\<lambda>bodyJsonLen.
          let preflightAllowed = (has_flag flags FLAG_IS_PREFLIGHT \<and> has_flag flags FLAG_CORS_ALLOWED);
              normalizedStatus = normalizeResponseStatus rawStatus (int rawErrorCode) preflightAllowed;
              uninitialized = (rawVerdict = 0 \<and> rawErrorCode = 0 \<and> rawStatus = 0 \<and> flags = 0);
              r1 = r0\<lparr>r_buf := buf, req_body := body, f_requestId := requestId\<rparr>;
              r2 = (if uninitialized then r1\<lparr>status := 500, verdict := 1, errorCode := 8\<rparr>
                    else r1\<lparr>status := normalizedStatus, verdict := rawVerdict, errorCode := rawErrorCode\<rparr>);
              r3 = r2\<lparr>f_flags := flags, f_rateLimit := rateLimit, rateRemaining := remaining\<rparr>;
              layout = sectionLayout (length buf) cookiesJsonLen queryJsonLen bodyJsonLen
          in rbind (setRateWindow rateLimit (has_flag flags FLAG_RATE_LIMITED) buf r3) (\<lambda>r4.
               Inr (setSections buf layout bodyJsonLen (length buf)
                 ((updateOkTerminal (r4\<lparr>headerVariant := hv\<rparr>))
                   \<lparr>f_https := has_flag flags FLAG_HTTPS,
                    trustedProxy := has_flag flags FLAG_TRUSTED_PROXY,
                    f_hasCookies := has_flag flags FLAG_HAS_COOKIES,
                    f_hasQuery := has_flag flags FLAG_HAS_QUERY,
                    bodyValidJson := has_flag flags FLAG_BODY_VALID_JSON,
                    schemaValid := has_flag flags FLAG_SCHEMA_VALID,
                    corsAllowed := has_flag flags FLAG_CORS_ALLOWED,
                    isPreflight := has_flag flags FLAG_IS_PREFLIGHT,
                    rateLimited := has_flag flags FLAG_RATE_LIMITED\<rparr>)
                 \<lparr>bodyTruncated := (has_flag flags FLAG_BODY_TRUNCATED \<or> truncated layout)\<rparr>)))))))))))))"

definition safeTerminalStatus :: "'a ingress_result_scheme \<Rightarrow> nat" where
  "safeTerminalStatus r =
     (if isPreflight r \<and> corsAllowed r then 204
      else let s = normalizeResponseStatus (status r) (int (errorCode r)) False
           in if 400 \<le> s then s
              else if int (errorCode r) \<noteq> ERR_CODE_NONE then statusForErrorCode (int (errorCode r)) False
              else 500)"

section \<open>What a refreshed decoder holds\<close>

definition fld :: "nat \<Rightarrow> bytes \<Rightarrow> nat \<Rightarrow> nat" where
  "fld k buf off = le_nat (take k (drop off buf))"

lemma get_fld: "off + k \<le> length buf \<Longrightarrow> get_uint k buf off = Inr (fld k buf off)"
  by (simp add: get_uint_def fld_def)

lemma fld_prefix: "take n buf = take n buf' \<Longrightarrow> off + k \<le> n \<Longrightarrow> fld k buf off = fld k buf' off"
proof -
  assume a: "take n buf = take n buf'" "off + k \<le> n"
  have "take k (drop off buf) = take k (drop off (take n buf))" if "off + k \<le> n" for buf :: bytes
    using that by (simp add: drop_take min_def)
  with a show ?thesis by (metis fld_def)
qed

lemma fld_split: "off + (j + k) \<le> length buf \<Longrightarrow> fld (j + k) buf off = fld j buf off + 256 ^ j * fld k buf (off + j)"
  by (simp add: fld_def take_add le_nat_append add.commute)

lemma fld_less: "off + k \<le> length buf \<Longrightarrow> fld k buf off < 256 ^ k"
  using le_nat_bound [of "take k (drop off buf)"] by (simp add: fld_def min.absorb2)

lemma word_fields:
  fixes a b c :: nat
  assumes "a < 256" "b < 256" "c < 65536" and w: "w = a + 256 * (b + 256 * c)"
  shows "w mod 2 ^ 8 = a \<and> (w div 2 ^ 8) mod 2 ^ 8 = b \<and> (w div 2 ^ 16) mod 2 ^ 16 = c"
proof -
  have d: "(a + 256 * m) div 256 = m" "(a + 256 * m) mod 256 = a" for m using assms(1) by simp_all
  note d = d [of "b + 256 * c", folded w]
  have "w div 2 ^ 16 = w div 256 div 256" by (simp add: div_mult2_eq [symmetric])
  also have "\<dots> = c" unfolding d using assms by simp
  finally have "w div 2 ^ 16 = c" .
  with d assms show ?thesis by simp
qed

lemma verdict_word:
  assumes "OUT_DATA_START \<le> length buf"
  shows "fld 4 buf 0 mod 2 ^ 8 = fld 1 buf 0 \<and> (fld 4 buf 0 div 2 ^ 8) mod 2 ^ 8 = fld 1 buf 1
    \<and> (fld 4 buf 0 div 2 ^ 16) mod 2 ^ 16 = fld 2 buf 2
    \<and> (fld 4 buf 0 = 0 \<longleftrightarrow> fld 1 buf 0 = 0 \<and> fld 1 buf 1 = 0 \<and> fld 2 buf 2 = 0)"
proof -
  have n: "1 + 3 = (4 :: nat)" "1 + 2 = (3 :: nat)" "0 + 1 = (1 :: nat)" "1 + 1 = (2 :: nat)" by simp_all
  have "fld 4 buf 0 = fld 1 buf 0 + 256 ^ 1 * fld 3 buf 1"
    using fld_split [of 0 1 3 buf, unfolded n] assms by simp
  moreover have "fld 3 buf 1 = fld 1 buf 1 + 256 ^ 1 * fld 2 buf 2"
    using fld_split [of 1 1 2 buf, unfolded n] assms by simp
  ultimately have e: "fld 4 buf 0 = fld 1 buf 0 + 256 * (fld 1 buf 1 + 256 * fld 2 buf 2)" by simp
  have b: "fld 1 buf 0 < 256" "fld 1 buf 1 < 256" "fld 2 buf 2 < 65536"
    using assms fld_less [of 0 1 buf] fld_less [of 1 1 buf] fld_less [of 2 2 buf] by simp_all
  show ?thesis using word_fields [OF b e] e by simp
qed

lemma setRateWindow_Inr:
  assumes "OUT_DATA_START \<le> length buf"
  shows "setRateWindow lim limited buf r = Inr (r\<lparr>
     rateResetMs := (if 0 < lim \<or> limited then fld 8 buf OUT_RATE_RESET else 0),
     retryAfterMs := (if 0 < lim \<or> limited then fld 8 buf OUT_RETRY_AFTER else 0)\<rparr>)"
  using assms fld_split [of OUT_RATE_RESET 4 4 buf] fld_split [of OUT_RETRY_AFTER 4 4 buf]
  by (simp add: setRateWindow_def get_fld mult.commute)

text \<open>The decoded content, as a function of the first \<open>len\<close> bytes only.\<close>

definition decoded_layout :: "bytes \<Rightarrow> nat \<Rightarrow> section_layout" where
  "decoded_layout buf len =
     sectionLayout len (fld 4 buf OUT_COOKIES_JSON_LEN) (fld 4 buf OUT_QUERY_JSON_LEN) (fld 4 buf OUT_BODY_JSON_LEN)"

definition opt_section :: "bytes \<Rightarrow> nat \<Rightarrow> nat \<Rightarrow> bytes option" where
  "opt_section buf start n = (if 0 < n then Some (subarray buf start (start + n)) else None)"

lemma sectionLayout_bounds:
  assumes "OUT_DATA_START \<le> len" and "l = sectionLayout len c q b"
  shows "OUT_DATA_START + safeCookiesLen l \<le> len \<and> queryStart l + safeQueryLen l \<le> len
    \<and> bodyJsonStart l + safeBodyJsonLen l \<le> len \<and> queryStart l = OUT_DATA_START + safeCookiesLen l
    \<and> bodyJsonStart l = queryStart l + safeQueryLen l"
  using assms by (simp add: sectionLayout_def Let_def)

definition baked_of :: "bytes \<Rightarrow> bytes \<Rightarrow> nat \<Rightarrow> ingress_result" where
  "baked_of buf body len =
     (let h1 = fld 4 buf OUT_FLAGS; l = decoded_layout buf len; raw = fld 2 buf OUT_STATUS;
          uninit = (fld 1 buf 0 = 0 \<and> fld 1 buf 1 = 0 \<and> raw = 0 \<and> h1 = 0);
          v = (if uninit then 1 else fld 1 buf 0);
          st = (if uninit \<or> \<not> isValidResponseStatus raw then 500 else raw);
          win = (0 < fld 4 buf OUT_RATE_LIMIT \<or> has_flag h1 FLAG_RATE_LIMITED)
      in \<lparr>verdict = v, errorCode = (if uninit then 8 else fld 1 buf 1), status = st,
          headerVariant = fld 1 buf OUT_HEADER_VARIANT, rateRemaining = fld 4 buf OUT_RATE_REMAINING,
          rateResetMs = (if win then fld 8 buf OUT_RATE_RESET else 0),
          retryAfterMs = (if win then fld 8 buf OUT_RETRY_AFTER else 0),
          terminal = (v \<noteq> 0 \<or> 400 \<le> st), ok = (v = 0 \<and> 200 \<le> st \<and> st < 400),
          isPreflight = has_flag h1 FLAG_IS_PREFLIGHT, corsAllowed = has_flag h1 FLAG_CORS_ALLOWED,
          rateLimited = has_flag h1 FLAG_RATE_LIMITED, trustedProxy = has_flag h1 FLAG_TRUSTED_PROXY,
          bodyValidJson = has_flag h1 FLAG_BODY_VALID_JSON, schemaValid = has_flag h1 FLAG_SCHEMA_VALID,
          bodyTruncated = (has_flag h1 FLAG_BODY_TRUNCATED \<or> truncated l), req_body = body,
          r_buf = buf, r_len = len, r_bodyJsonStart = bodyJsonStart l, r_bodyJsonLen = safeBodyJsonLen l,
          r_cookiesBuf = opt_section buf OUT_DATA_START (safeCookiesLen l),
          r_queryBuf = opt_section buf (queryStart l) (safeQueryLen l),
          r_cookiesDecoded = None, r_queryDecoded = None\<rparr>)"

lemma refresh_baked_Inr:
  assumes "OUT_DATA_START \<le> len" and "len \<le> length buf"
  shows "refresh_baked buf body len r = Inr (baked_of buf body len)"
proof -
  have L: "OUT_DATA_START \<le> length buf" using assms by simp
  note W = verdict_word [OF L]
  have "set_verdict (fld 4 buf 0) (fld 4 buf OUT_FLAGS) r' =
    (if fld 1 buf 0 = 0 \<and> fld 1 buf 1 = 0 \<and> fld 2 buf 2 = 0 \<and> fld 4 buf OUT_FLAGS = 0
     then r'\<lparr>verdict := 1, errorCode := 8, status := 500\<rparr>
     else r'\<lparr>verdict := fld 1 buf 0, errorCode := fld 1 buf 1,
       status := (if isValidResponseStatus (fld 2 buf 2) then fld 2 buf 2 else 500)\<rparr>)" for r' :: ingress_result
    using W by (simp add: set_verdict_def Let_def)
  then show ?thesis
    using assms L
    by (cases r) (simp add: refresh_baked_def get_fld Let_def setRateWindow_Inr [OF L] baked_of_def decoded_layout_def
        updateOkTerminal_def setSections_def opt_section_def)
qed

lemma statusForErrorCode_range:
  "if p then statusForErrorCode c p = 204 else 400 \<le> statusForErrorCode c p \<and> statusForErrorCode c p \<le> 500"
  by (simp add: statusForErrorCode_def)

lemma normalize_legal: "isValidResponseStatus (normalizeResponseStatus s c p)"
  using statusForErrorCode_range [of p c]
  by (cases p) (simp_all add: normalizeResponseStatus_def isValidResponseStatus_def)

lemma normalize_valid:
  "isValidResponseStatus s \<Longrightarrow> normalizeResponseStatus s c p = s"
  by (simp add: normalizeResponseStatus_def)

text \<open>The fast decoder holds the same content, with its own status.\<close>

definition fast_status :: "bytes \<Rightarrow> nat" where
  "fast_status buf =
     (let h1 = fld 4 buf OUT_FLAGS; raw = fld 2 buf OUT_STATUS
      in if fld 1 buf 0 = 0 \<and> fld 1 buf 1 = 0 \<and> raw = 0 \<and> h1 = 0 then 500
         else normalizeResponseStatus raw (int (fld 1 buf 1))
           (has_flag h1 FLAG_IS_PREFLIGHT \<and> has_flag h1 FLAG_CORS_ALLOWED))"

lemma refresh_fast_Inr:
  assumes L: "OUT_DATA_START \<le> length buf"
  shows "\<exists>r'. refresh_fast buf body requestId r = Inr r'
    \<and> ingress_result.truncate r' = (let b = baked_of buf body (length buf); st = fast_status buf
        in b\<lparr>status := st, terminal := (verdict b \<noteq> 0 \<or> 400 \<le> st),
             ok := (verdict b = 0 \<and> 200 \<le> st \<and> st < 400), r_bodyJsonLen := fld 4 buf OUT_BODY_JSON_LEN\<rparr>)"
proof -
  define u where "u \<longleftrightarrow> fld 1 buf 0 = 0 \<and> fld 1 buf 1 = 0 \<and> fld 2 buf 2 = 0 \<and> fld 4 buf 4 = 0"
  note F = refresh_fast_def get_fld Let_def setRateWindow_Inr [OF L] baked_of_def decoded_layout_def
    updateOkTerminal_def setSections_def opt_section_def fast_status_def u_def [symmetric] ingress_result.truncate_def
  show ?thesis using L by (cases u) (simp_all add: F del: One_nat_def)
qed

lemma baked_of_prefix:
  assumes "OUT_DATA_START \<le> len" and p: "take len buf = take len buf'"
  shows "baked_of buf body len = (baked_of buf' body len)\<lparr>r_buf := buf\<rparr>"
proof -
  have f: "fld k buf off = fld k buf' off" if "off + k \<le> OUT_DATA_START" for k off
    using fld_prefix [OF p] that assms(1) by simp
  have l: "decoded_layout buf len = decoded_layout buf' len" by (simp add: decoded_layout_def f)
  have sub: "subarray buf a b = subarray buf' a b" if "b \<le> len" for a b
  proof -
    have "subarray c a b = subarray (take len c) a b" for c :: bytes
      using that by (simp add: subarray_def drop_take min_def)
    with p show ?thesis by metis
  qed
  have B: "OUT_DATA_START + safeCookiesLen (decoded_layout buf' len) \<le> len"
    "queryStart (decoded_layout buf' len) + safeQueryLen (decoded_layout buf' len) \<le> len"
    using sectionLayout_bounds [OF assms(1) decoded_layout_def] by blast+
  have o: "opt_section buf OUT_DATA_START (safeCookiesLen (decoded_layout buf' len))
      = opt_section buf' OUT_DATA_START (safeCookiesLen (decoded_layout buf' len))"
    "opt_section buf (queryStart (decoded_layout buf' len)) (safeQueryLen (decoded_layout buf' len))
      = opt_section buf' (queryStart (decoded_layout buf' len)) (safeQueryLen (decoded_layout buf' len))"
    using sub B by (simp_all add: opt_section_def)
  show ?thesis by (simp add: baked_of_def Let_def f l o)
qed

lemma body_baked_slice: "bodyJson_baked copy r = bodyJsonSlice r"
  by (simp add: bodyJson_baked_def bodyJsonSlice_def Let_def subarray_def)

lemma body_raw_length:
  assumes "OUT_DATA_START \<le> length buf"
  shows "bodyJsonSlice ((baked_of buf body (length buf))\<lparr>r_bodyJsonLen := fld 4 buf OUT_BODY_JSON_LEN\<rparr>)
    = bodyJsonSlice (baked_of buf body (length buf))"
  by (simp add: bodyJsonSlice_def baked_of_def Let_def decoded_layout_def sectionLayout_def)

lemma slice_of_status:
  "bodyJsonSlice (r\<lparr>status := s, terminal := t, ok := k, r_bodyJsonLen := n\<rparr>) = bodyJsonSlice (r\<lparr>r_bodyJsonLen := n\<rparr>)"
  by (simp add: bodyJsonSlice_def Let_def)

lemma truncate_sels:
  "verdict (ingress_result.truncate r) = verdict r"
  "errorCode (ingress_result.truncate r) = errorCode r"
  "headerVariant (ingress_result.truncate r) = headerVariant r"
  "rateRemaining (ingress_result.truncate r) = rateRemaining r"
  "rateResetMs (ingress_result.truncate r) = rateResetMs r"
  "retryAfterMs (ingress_result.truncate r) = retryAfterMs r"
  "isPreflight (ingress_result.truncate r) = isPreflight r"
  "corsAllowed (ingress_result.truncate r) = corsAllowed r"
  "rateLimited (ingress_result.truncate r) = rateLimited r"
  "trustedProxy (ingress_result.truncate r) = trustedProxy r"
  "bodyValidJson (ingress_result.truncate r) = bodyValidJson r"
  "schemaValid (ingress_result.truncate r) = schemaValid r"
  "bodyTruncated (ingress_result.truncate r) = bodyTruncated r"
  "req_body (ingress_result.truncate r) = req_body r"
  "status (ingress_result.truncate r) = status r"
  "terminal (ingress_result.truncate r) = terminal r"
  "ok (ingress_result.truncate r) = ok r"
  by (simp_all add: ingress_result.truncate_def)

lemma truncate_views:
  "fst (cookiesJson r) = fst (cookiesJson (ingress_result.truncate r))"
  "fst (queryJson r) = fst (queryJson (ingress_result.truncate r))"
  "bodyJsonSlice r = bodyJsonSlice (ingress_result.truncate r)"
  by (simp_all add: cookiesJson_def queryJson_def bodyJsonSlice_def ingress_result.truncate_def Let_def
      split: option.splits)

section \<open>Properties\<close>


definition demo_output :: bytes where
  "demo_output = [0, 0, 200, 0] @ u32_le 1 @ replicate 24 0 @ u32_le 2 @ u32_le 0 @ [1, 0, 0, 0] @ u32_le 0
     @ [123, 125, 7, 7]"


text \<open>
  The two decoders agree: over the same output buffer the fast and the pre-baked decoder expose the
  same verdict, error code, header variant, rate window, flags, truncation mark and cookie, query and
  body sections; their statuses agree when the native status is a legal one, and otherwise the fast
  decoder maps the error code and the pre-baked one answers 500.
\<close>

theorem decoders_agree:
  assumes "OUT_DATA_START \<le> length buf"
  shows "\<exists>a b. refresh_baked buf body (length buf) r = Inr a \<and> refresh_fast buf body requestId s = Inr b
    \<and> verdict b = verdict a \<and> errorCode b = errorCode a \<and> headerVariant b = headerVariant a
    \<and> rateRemaining b = rateRemaining a \<and> rateResetMs b = rateResetMs a \<and> retryAfterMs b = retryAfterMs a
    \<and> isPreflight b = isPreflight a \<and> corsAllowed b = corsAllowed a \<and> rateLimited b = rateLimited a
    \<and> trustedProxy b = trustedProxy a \<and> bodyValidJson b = bodyValidJson a \<and> schemaValid b = schemaValid a
    \<and> bodyTruncated b = bodyTruncated a \<and> req_body b = req_body a
    \<and> fst (cookiesJson b) = fst (cookiesJson a) \<and> fst (queryJson b) = fst (queryJson a)
    \<and> bodyJsonSlice b = bodyJson_baked copy a
    \<and> (if isValidResponseStatus (fld 2 buf OUT_STATUS)
       then status b = fld 2 buf OUT_STATUS \<and> status a = fld 2 buf OUT_STATUS \<and> terminal b = terminal a \<and> ok b = ok a
       else status a = 500 \<and> status b \<in> {500, statusForErrorCode (int (errorCode a)) (isPreflight a \<and> corsAllowed a)})"
proof -
  let ?a = "baked_of buf body (length buf)"
  obtain b where b: "refresh_fast buf body requestId s = Inr b"
    and t: "ingress_result.truncate b = ?a\<lparr>status := fast_status buf,
      terminal := (verdict ?a \<noteq> 0 \<or> 400 \<le> fast_status buf),
      ok := (verdict ?a = 0 \<and> 200 \<le> fast_status buf \<and> fast_status buf < 400), r_bodyJsonLen := fld 4 buf OUT_BODY_JSON_LEN\<rparr>"
    using refresh_fast_Inr [OF assms, of body requestId s] by (auto simp: Let_def)
  have a: "refresh_baked buf body (length buf) r = Inr ?a" using refresh_baked_Inr [OF assms] by simp
  have sel: "verdict b = verdict ?a" "errorCode b = errorCode ?a" "headerVariant b = headerVariant ?a"
    "rateRemaining b = rateRemaining ?a" "rateResetMs b = rateResetMs ?a" "retryAfterMs b = retryAfterMs ?a"
    "isPreflight b = isPreflight ?a" "corsAllowed b = corsAllowed ?a" "rateLimited b = rateLimited ?a"
    "trustedProxy b = trustedProxy ?a" "bodyValidJson b = bodyValidJson ?a" "schemaValid b = schemaValid ?a"
    "bodyTruncated b = bodyTruncated ?a" "req_body b = req_body ?a" "status b = fast_status buf"
    "terminal b = (verdict ?a \<noteq> 0 \<or> 400 \<le> fast_status buf)"
    "ok b = (verdict ?a = 0 \<and> 200 \<le> fast_status buf \<and> fast_status buf < 400)"
    unfolding truncate_sels [of b, symmetric] t by simp_all
  have views: "fst (cookiesJson b) = fst (cookiesJson ?a)" "fst (queryJson b) = fst (queryJson ?a)"
    "bodyJsonSlice b = bodyJsonSlice ?a"
    unfolding truncate_views [of b] t slice_of_status body_raw_length [OF assms]
    by (simp_all add: cookiesJson_def queryJson_def Let_def split: option.splits)
  have st: "isValidResponseStatus (fld 2 buf OUT_STATUS) \<Longrightarrow>
         fast_status buf = fld 2 buf OUT_STATUS \<and> status ?a = fld 2 buf OUT_STATUS
         \<and> terminal ?a = (verdict ?a \<noteq> 0 \<or> 400 \<le> fast_status buf)
         \<and> ok ?a = (verdict ?a = 0 \<and> 200 \<le> fast_status buf \<and> fast_status buf < 400)"
    "\<not> isValidResponseStatus (fld 2 buf OUT_STATUS) \<Longrightarrow> status ?a = 500
         \<and> fast_status buf \<in> {500, statusForErrorCode (int (errorCode ?a)) (isPreflight ?a \<and> corsAllowed ?a)}"
    by (auto simp: baked_of_def Let_def fast_status_def normalizeResponseStatus_def isValidResponseStatus_def)
  show ?thesis
  proof (intro exI [of _ ?a] exI [of _ b] conjI)
    show "if isValidResponseStatus (fld 2 buf OUT_STATUS)
       then status b = fld 2 buf OUT_STATUS \<and> status ?a = fld 2 buf OUT_STATUS \<and> terminal b = terminal ?a \<and> ok b = ok ?a
       else status ?a = 500 \<and> status b \<in> {500, statusForErrorCode (int (errorCode ?a)) (isPreflight ?a \<and> corsAllowed ?a)}"
      unfolding sel using st by (cases "isValidResponseStatus (fld 2 buf OUT_STATUS)") simp_all
  qed (use a b sel views in \<open>simp_all only: body_baked_slice\<close>)
qed

theorem decoders_agree_witness:
  "\<exists>a b. refresh_baked demo_output [] 52 (baked_of [] [] 0) = Inr a
     \<and> refresh_fast demo_output [] [] (ingress_result.extend (baked_of [] [] 0)
          (fast_result.fields 0 False False False 0 [])) = Inr b
     \<and> verdict b = verdict a \<and> bodyTruncated b = bodyTruncated a"
proof -
  have l: "length demo_output = 52" by (simp add: demo_output_def)
  have "OUT_DATA_START \<le> length demo_output" by (simp add: l)
  from decoders_agree [OF this, of "[]" "baked_of [] [] 0" "[]"
      "ingress_result.extend (baked_of [] [] 0) (fast_result.fields 0 False False False 0 [])"]
  show ?thesis unfolding l by blast
qed

text \<open>
  Every terminal response carries a legal error status: it is 204 exactly for an allowed CORS
  preflight and lies in 400 to 599 otherwise, whatever verdict, status and error code the native side
  produced; an error code never answers with a success status.
\<close>

theorem terminal_status_legal:
  "(isPreflight r \<and> corsAllowed r \<longrightarrow> safeTerminalStatus r = 204)
   \<and> (\<not> (isPreflight r \<and> corsAllowed r) \<longrightarrow> 400 \<le> safeTerminalStatus r \<and> safeTerminalStatus r \<le> 599)
   \<and> isValidResponseStatus (safeTerminalStatus r)
   \<and> isValidResponseStatus (normalizeResponseStatus s c p)"
proof (intro conjI)
  let ?c = "int (errorCode r)"
  have R: "400 \<le> statusForErrorCode ?c False" "statusForErrorCode ?c False \<le> 500"
    using statusForErrorCode_range [of False ?c] by simp_all
  show A: "isPreflight r \<and> corsAllowed r \<longrightarrow> safeTerminalStatus r = 204" by (simp add: safeTerminalStatus_def)
  show B: "\<not> (isPreflight r \<and> corsAllowed r) \<longrightarrow> 400 \<le> safeTerminalStatus r \<and> safeTerminalStatus r \<le> 599"
  proof (cases "isValidResponseStatus (status r)")
    case True
    then have "status r \<le> 599" by (auto simp: isValidResponseStatus_def)
    with True R show ?thesis by (simp add: safeTerminalStatus_def normalizeResponseStatus_def Let_def)
  next
    case False
    with R show ?thesis by (simp add: safeTerminalStatus_def normalizeResponseStatus_def Let_def)
  qed
  show "isValidResponseStatus (safeTerminalStatus r)"
    using A B by (cases "isPreflight r \<and> corsAllowed r") (simp_all add: isValidResponseStatus_def)
  show "isValidResponseStatus (normalizeResponseStatus s c p)" by (rule normalize_legal)
qed

theorem terminal_status_legal_witness:
  "safeTerminalStatus ((baked_of [] [] 0)\<lparr>isPreflight := False, errorCode := 2, status := 200\<rparr>) \<le> 599"
  using terminal_status_legal [of "(baked_of [] [] 0)\<lparr>isPreflight := False, errorCode := 2, status := 200\<rparr>" 0 0 False]
  by simp

end
