(* ===== verification/IngressPacking.thy ===== *)
theory IngressPacking
  imports Wire
begin

text \<open>
  Packing the ingress input: \<open>src/src/ingress/shared.ts\<close> (the header plan) and \<open>packing/\<close>
  (\<open>scratch.ts\<close>, \<open>select-headers.ts\<close>, \<open>header-packing.ts\<close>, \<open>gather-raw-headers.ts\<close>,
  \<open>input-packer.ts\<close>, \<open>route-wire.ts\<close>).

  The request's headers are a function from names to values, what \<open>req.headers.get\<close> returns. The
  scratch buffers and the origin cache are module state; a buffer that a write outgrows is replaced
  by a fresh one and the scratch slot keeps what was written to it before. The native side that
  reads the packed block is not part of the model: the reference layouts are what it documents.
\<close>

section \<open>The header plan\<close>

record header_plan =
  pl_cookie :: bool
  pl_cors :: bool
  pl_proxy :: bool
  pl_proto :: bool

record plan_options =
  po_parseCookies :: "bool option"
  po_cors :: bool
  po_trustProxy :: "bool option"
  po_trustedEnabled :: "bool option"
  po_https :: "bool option"

definition buildHeaderPlan :: "plan_options \<Rightarrow> header_plan" where
  "buildHeaderPlan o' =
     (let trust = (po_trustProxy o' = Some True \<or> po_trustedEnabled o' = Some True)
      in \<lparr>pl_cookie = (po_parseCookies o' = Some True), pl_cors = po_cors o', pl_proxy = trust,
          pl_proto = (trust \<and> po_https o' = None)\<rparr>)"

definition METHOD_KIND :: "string \<Rightarrow> nat option" where
  "METHOD_KIND = map_of [(''GET'', 0), (''HEAD'', 1), (''POST'', 2), (''PUT'', 3), (''PATCH'', 4),
     (''DELETE'', 5), (''OPTIONS'', 6)]"

definition METHOD_KIND_UNKNOWN :: nat where "METHOD_KIND_UNKNOWN = 7"

definition kind_of :: "string \<Rightarrow> nat" where
  "kind_of m = (case METHOD_KIND m of Some k \<Rightarrow> k | None \<Rightarrow> METHOD_KIND_UNKNOWN)"

abbreviation (input) KIND_OPTIONS :: nat where "KIND_OPTIONS \<equiv> 6"

section \<open>Header selection\<close>

definition MAX_COOKIE_HEADER_BYTES :: nat where "MAX_COOKIE_HEADER_BYTES = 8192"
definition MAX_SMALL_HEADER_BYTES :: nat where "MAX_SMALL_HEADER_BYTES = 2048"
definition MAX_XFF_HEADER_BYTES :: nat where "MAX_XFF_HEADER_BYTES = 8192"

type_synonym req_headers = "string \<Rightarrow> jsstring option"

definition hdr :: "string \<Rightarrow> bytes" where
  "hdr name = node_encodeUtf8 (js name)"

text \<open>One guarded visit: the header when it is present and not longer than its limit.\<close>

definition visit_if :: "string \<Rightarrow> nat \<Rightarrow> jsstring option \<Rightarrow> (bytes \<times> jsstring) list" where
  "visit_if name limit v = (case v of None \<Rightarrow> [] | Some s \<Rightarrow> (if length s \<le> limit then [(hdr name, s)] else []))"

text \<open>
  The visits in order. The prefetched origin and cookie are \<open>None\<close> when not given (\<open>undefined\<close>) and
  \<open>Some None\<close> when fetched and absent (\<open>null\<close>).
\<close>

definition forEachSelectedHeader ::
  "req_headers \<Rightarrow> header_plan \<Rightarrow> nat \<Rightarrow> jsstring option option \<Rightarrow> jsstring option option \<Rightarrow> (bytes \<times> jsstring) list" where
  "forEachSelectedHeader h plan methodKind originValue cookieValue =
     (if pl_cookie plan
      then visit_if ''cookie'' MAX_COOKIE_HEADER_BYTES (case cookieValue of Some v \<Rightarrow> v | None \<Rightarrow> h ''cookie'')
      else [])
     @ (if pl_cors plan
        then visit_if ''origin'' MAX_SMALL_HEADER_BYTES (case originValue of Some v \<Rightarrow> v | None \<Rightarrow> h ''origin'')
          @ (if methodKind = KIND_OPTIONS
             then visit_if ''access-control-request-method'' MAX_SMALL_HEADER_BYTES (h ''access-control-request-method'')
               @ visit_if ''access-control-request-headers'' MAX_SMALL_HEADER_BYTES (h ''access-control-request-headers'')
             else [])
        else [])
     @ (if pl_proxy plan
        then visit_if ''x-forwarded-for'' MAX_XFF_HEADER_BYTES (h ''x-forwarded-for'')
          @ visit_if ''x-real-ip'' MAX_SMALL_HEADER_BYTES (h ''x-real-ip'')
        else [])
     @ (if pl_proto plan
        then visit_if ''x-forwarded-proto'' MAX_SMALL_HEADER_BYTES (h ''x-forwarded-proto'')
        else [])"

section \<open>Scratch buffers\<close>

definition HEADER_BUF_SIZE :: nat where "HEADER_BUF_SIZE = 8192"
definition MAX_CACHED :: nat where "MAX_CACHED = 256"

record pack_state =
  tls :: "bytes list"
  tlsIdx :: nat
  originCache :: "(jsstring, bytes) jsmap"

definition getHeaderBuf :: "pack_state \<Rightarrow> nat \<times> bytes \<times> pack_state" where
  "getHeaderBuf st =
     (let i = tlsIdx st; st' = st\<lparr>tlsIdx := (i + 1) mod MAX_CACHED\<rparr>
      in if i < length (tls st) then (i, tls st ! i, st')
         else (length (tls st), new_buf HEADER_BUF_SIZE, st'\<lparr>tls := tls st @ [new_buf HEADER_BUF_SIZE]\<rparr>))"

section \<open>Writing a header block\<close>

definition write_pair_at :: "bytes \<Rightarrow> nat \<Rightarrow> bytes \<Rightarrow> jsstring \<Rightarrow> (nat \<times> bytes) result" where
  "write_pair_at buf pos name value =
     rbind (put buf pos (u16_le (length name))) (\<lambda>b1.
     rbind (put b1 (pos + 2) name) (\<lambda>b2.
       let valueLenPos = pos + 2 + length name;
           (b3, written) = node_encodeUtf8Into value b2 (valueLenPos + 4)
       in rbind (put b3 valueLenPos (u32_le written)) (\<lambda>b4.
            Inr (valueLenPos + 4 + written, b4))))"

definition writeHeaderPair :: "bytes \<Rightarrow> nat \<Rightarrow> bytes \<Rightarrow> jsstring \<Rightarrow> (nat \<times> bytes \<times> bool) result" where
  "writeHeaderPair buf pos name value =
     (let needed = 2 + length name + 4 + length value * 3;
          grew = (length buf < pos + needed)
      in rbind (if grew then put (new_buf (max (length buf * 2) (pos + needed))) 0 (subarray buf 0 pos) else Inr buf) (\<lambda>buf'.
         rbind (write_pair_at buf' pos name value) (\<lambda>(pos', buf''). Inr (pos', buf'', grew))))"

record block_writer =
  bw_slot :: bytes
  bw_own :: bool
  bw_buf :: bytes
  bw_pos :: nat
  bw_count :: nat

fun write_selected :: "(bytes \<times> jsstring) list \<Rightarrow> block_writer \<Rightarrow> block_writer result" where
  "write_selected [] w = Inr w"
| "write_selected ((name, value) # hs) w =
     rbind (writeHeaderPair (bw_buf w) (bw_pos w) name value) (\<lambda>(pos, buf, grew).
       let own = (bw_own w \<and> \<not> grew)
       in write_selected hs \<lparr>bw_slot = (if own then buf else bw_slot w), bw_own = own, bw_buf = buf,
            bw_pos = pos, bw_count = bw_count w + 1\<rparr>)"

definition start_block :: "bytes \<Rightarrow> block_writer" where
  "start_block buf = \<lparr>bw_slot = buf, bw_own = True, bw_buf = buf, bw_pos = 2, bw_count = 0\<rparr>"

text \<open>\<open>view.setUint16(0, count)\<close>, the view \<open>subarray(0, pos)\<close>, and what the scratch slot now holds.\<close>

definition finish_block :: "block_writer \<Rightarrow> nat \<Rightarrow> pack_state \<Rightarrow> (bytes \<times> pack_state) result" where
  "finish_block w i st =
     rbind (put (bw_buf w) 0 (u16_le (bw_count w))) (\<lambda>buf.
       Inr (subarray buf 0 (bw_pos w), st\<lparr>tls := (tls st)[i := (if bw_own w then buf else bw_slot w)]\<rparr>))"

definition packHeaders :: "req_headers \<Rightarrow> string \<Rightarrow> header_plan \<Rightarrow> pack_state \<Rightarrow> (bytes \<times> pack_state) result" where
  "packHeaders h method plan st0 =
     (let (i, buf, st) = getHeaderBuf st0
      in rbind (write_selected (forEachSelectedHeader h plan (kind_of method) None None) (start_block buf))
           (\<lambda>w. finish_block w i st))"

section \<open>Gathering with the origin cache\<close>

definition EMPTY_HEADERS_BLOCK :: bytes where "EMPTY_HEADERS_BLOCK = [0, 0]"
definition ORIGIN_CACHE_MAX :: nat where "ORIGIN_CACHE_MAX = 8"

definition cachedOriginBlock :: "jsstring \<Rightarrow> pack_state \<Rightarrow> (bytes \<times> pack_state) result" where
  "cachedOriginBlock origin st0 =
     (case map_of (originCache st0) origin of
        Some hit \<Rightarrow> Inr (hit, st0)
      | None \<Rightarrow>
          (let (i, buf, st) = getHeaderBuf st0
           in rbind (write_selected [(hdr ''origin'', origin)] (start_block buf)) (\<lambda>w.
              rbind (finish_block w i st) (\<lambda>(block, st1).
                let cache = (if ORIGIN_CACHE_MAX \<le> length (originCache st1)
                             then (case jsmap_keys (originCache st1) of
                                     [] \<Rightarrow> originCache st1
                                   | firstKey # _ \<Rightarrow> AList.delete firstKey (originCache st1))
                             else originCache st1)
                in Inr (block, st1\<lparr>originCache := AList.update origin block cache\<rparr>)))))"

definition origin_block :: "jsstring option \<Rightarrow> pack_state \<Rightarrow> (bytes \<times> pack_state) result" where
  "origin_block origin st =
     (case origin of
        None \<Rightarrow> Inr (EMPTY_HEADERS_BLOCK, st)
      | Some s \<Rightarrow> (if MAX_SMALL_HEADER_BYTES < length s then Inr (EMPTY_HEADERS_BLOCK, st) else cachedOriginBlock s st))"

definition gather_general ::
  "req_headers \<Rightarrow> header_plan \<Rightarrow> nat \<Rightarrow> jsstring option option \<Rightarrow> jsstring option option \<Rightarrow> pack_state \<Rightarrow> (bytes \<times> pack_state) result" where
  "gather_general h plan methodKind originValue preFetchedCookie st0 =
     (let (i, buf, st) = getHeaderBuf st0
      in rbind (write_selected (forEachSelectedHeader h plan methodKind originValue preFetchedCookie) (start_block buf)) (\<lambda>w.
           if bw_count w = 0 then Inr (EMPTY_HEADERS_BLOCK, st) else finish_block w i st))"

definition gatherRawHeadersPacked ::
  "req_headers \<Rightarrow> header_plan \<Rightarrow> nat \<Rightarrow> jsstring option option \<Rightarrow> pack_state \<Rightarrow> (bytes \<times> pack_state) result" where
  "gatherRawHeadersPacked h plan methodKind originValue st =
     (if \<not> pl_cookie plan \<and> \<not> pl_cors plan \<and> \<not> pl_proxy plan \<and> \<not> pl_proto plan
      then Inr (EMPTY_HEADERS_BLOCK, st)
      else
        let nonPreflight = (methodKind \<noteq> KIND_OPTIONS);
            origin = (case originValue of Some v \<Rightarrow> v | None \<Rightarrow> h ''origin'')
        in if pl_cors plan \<and> \<not> pl_cookie plan \<and> \<not> pl_proxy plan \<and> \<not> pl_proto plan \<and> nonPreflight
           then origin_block origin st
           else if pl_cors plan \<and> pl_cookie plan \<and> \<not> pl_proxy plan \<and> \<not> pl_proto plan \<and> nonPreflight
           then (case h ''cookie'' of
                   None \<Rightarrow> origin_block origin st
                 | Some c \<Rightarrow> gather_general h plan methodKind originValue (Some (Some c)) st)
           else gather_general h plan methodKind originValue None st)"

fun prewarmOriginBlocks :: "jsstring list \<Rightarrow> pack_state \<Rightarrow> pack_state result" where
  "prewarmOriginBlocks [] st = Inr st"
| "prewarmOriginBlocks (origin # origins) st =
     (if 0 < length origin \<and> length origin \<le> MAX_SMALL_HEADER_BYTES \<and> 42 \<notin> set origin
      then rbind (cachedOriginBlock origin st) (\<lambda>(_, st'). prewarmOriginBlocks origins st')
      else prewarmOriginBlocks origins st)"

section \<open>The input packer\<close>

record input_packer =
  ip_buf :: bytes
  ip_pos :: nat

definition new_packer :: "nat \<Rightarrow> input_packer" where
  "new_packer initialSize = \<lparr>ip_buf = new_buf (max 1024 initialSize), ip_pos = 0\<rparr>"

definition ensure :: "nat \<Rightarrow> input_packer \<Rightarrow> input_packer result" where
  "ensure additional p =
     (let needed = ip_pos p + additional
      in if needed \<le> length (ip_buf p) then Inr p
         else rbind (put (new_buf (grow_size (length (ip_buf p) * 2) needed)) 0 (subarray (ip_buf p) 0 (ip_pos p)))
                (\<lambda>next. Inr (p\<lparr>ip_buf := next\<rparr>)))"

definition writeU8 :: "nat \<Rightarrow> input_packer \<Rightarrow> input_packer result" where
  "writeU8 value p0 =
     rbind (ensure 1 p0) (\<lambda>p. rbind (put (ip_buf p) (ip_pos p) [of_nat value]) (\<lambda>b.
       Inr (p\<lparr>ip_buf := b, ip_pos := ip_pos p + 1\<rparr>)))"

definition writeLenPrefixed :: "bytes \<Rightarrow> input_packer \<Rightarrow> input_packer result" where
  "writeLenPrefixed bs p0 =
     rbind (ensure (4 + length bs) p0) (\<lambda>p.
     rbind (put (ip_buf p) (ip_pos p) (u32_le (length bs))) (\<lambda>b1.
     rbind (put b1 (ip_pos p + 4) bs) (\<lambda>b2.
       Inr (p\<lparr>ip_buf := b2, ip_pos := ip_pos p + 4 + length bs\<rparr>))))"

definition writeStringLenPrefixed :: "jsstring \<Rightarrow> input_packer \<Rightarrow> input_packer result" where
  "writeStringLenPrefixed value p0 =
     rbind (ensure (4 + length value * 3) p0) (\<lambda>p.
       let valueLenPos = ip_pos p;
           (b1, written) = buffer_write value (ip_buf p) (valueLenPos + 4) (length (ip_buf p))
       in rbind (put b1 valueLenPos (u32_le written)) (\<lambda>b2.
            Inr (p\<lparr>ip_buf := b2, ip_pos := valueLenPos + 4 + written\<rparr>)))"

definition EMPTY_IP_BYTES :: bytes where "EMPTY_IP_BYTES = node_encodeUtf8 (js ''0.0.0.0'')"

definition write_ip :: "jsstring option \<Rightarrow> input_packer \<Rightarrow> input_packer result" where
  "write_ip ip = (case ip of
       Some s \<Rightarrow> (if s = [] then writeLenPrefixed EMPTY_IP_BYTES else writeStringLenPrefixed s)
     | None \<Rightarrow> writeLenPrefixed EMPTY_IP_BYTES)"

definition packed_view :: "input_packer \<Rightarrow> (bytes \<times> input_packer) result" where
  "packed_view p = Inr (subarray (ip_buf p) 0 (ip_pos p), p)"

definition pack :: "nat \<Rightarrow> bytes \<Rightarrow> bytes \<Rightarrow> bytes \<Rightarrow> bytes \<Rightarrow> input_packer \<Rightarrow> (bytes \<times> input_packer) result" where
  "pack methodKind urlBytes ipBytes requestIdBytes headers p =
     rbind (writeU8 methodKind (p\<lparr>ip_pos := 0\<rparr>)) (\<lambda>p1.
     rbind (writeLenPrefixed urlBytes p1) (\<lambda>p2.
     rbind (writeLenPrefixed ipBytes p2) (\<lambda>p3.
     rbind (writeLenPrefixed requestIdBytes p3) (\<lambda>p4.
     rbind (writeLenPrefixed headers p4) packed_view))))"

definition packFromStrings ::
  "nat \<Rightarrow> jsstring \<Rightarrow> jsstring option \<Rightarrow> jsstring option \<Rightarrow> bytes \<Rightarrow> input_packer \<Rightarrow> (bytes \<times> input_packer) result" where
  "packFromStrings methodKind url ip requestId headers p =
     rbind (writeU8 methodKind (p\<lparr>ip_pos := 0\<rparr>)) (\<lambda>p1.
     rbind (writeStringLenPrefixed url p1) (\<lambda>p2.
     rbind (write_ip ip p2) (\<lambda>p3.
     rbind ((case requestId of
               Some r \<Rightarrow> (if r = [] then writeLenPrefixed [] else writeStringLenPrefixed r)
             | None \<Rightarrow> writeLenPrefixed []) p3) (\<lambda>p4.
     rbind (writeLenPrefixed headers p4) packed_view))))"

definition packParts ::
  "nat \<Rightarrow> jsstring \<Rightarrow> jsstring option \<Rightarrow> bytes \<Rightarrow> bytes \<Rightarrow> input_packer \<Rightarrow> (bytes \<times> input_packer) result" where
  "packParts methodKind url ip requestId headers p =
     rbind (writeU8 methodKind (p\<lparr>ip_pos := 0\<rparr>)) (\<lambda>p1.
     rbind (writeStringLenPrefixed url p1) (\<lambda>p2.
     rbind (write_ip ip p2) (\<lambda>p3.
     rbind (writeLenPrefixed requestId p3) (\<lambda>p4.
     rbind (writeLenPrefixed headers p4) packed_view))))"

section \<open>Reference layouts\<close>

definition header_layout :: "bytes \<times> jsstring \<Rightarrow> bytes" where
  "header_layout = (\<lambda>(name, v). u16_le (length name) @ name @ item_layout (utf8_encode v))"

definition block_layout :: "(bytes \<times> jsstring) list \<Rightarrow> bytes" where
  "block_layout hs = u16_le (length hs) @ concat (map header_layout hs)"

definition input_layout :: "nat \<Rightarrow> bytes \<Rightarrow> bytes \<Rightarrow> bytes \<Rightarrow> bytes \<Rightarrow> bytes" where
  "input_layout kind url ip rid headers =
     of_nat kind # item_layout url @ item_layout ip @ item_layout rid @ item_layout headers"

section \<open>Appending writers\<close>

text \<open>
  What every writer of this module promises: from a well-formed state it succeeds, keeps the state
  well formed and appends exactly its layout to the bytes written so far.
\<close>

locale appender =
  fixes ok :: "'s \<Rightarrow> bool"
    and content :: "'s \<Rightarrow> bytes"
    and appends :: "('s \<Rightarrow> 's result) \<Rightarrow> bytes \<Rightarrow> bool"
  assumes appends_iff: "appends f a \<longleftrightarrow> (\<forall>s. ok s \<longrightarrow> (\<exists>s'. f s = Inr s' \<and> ok s' \<and> content s' = content s @ a))"
begin

lemma appendsI:
  "(\<And>s. ok s \<Longrightarrow> \<exists>s'. f s = Inr s' \<and> ok s' \<and> content s' = content s @ a) \<Longrightarrow> appends f a"
  by (simp add: appends_iff)

lemma appendsD: "appends f a \<Longrightarrow> ok s \<Longrightarrow> \<exists>s'. f s = Inr s' \<and> ok s' \<and> content s' = content s @ a"
  by (simp add: appends_iff)

lemma appends_Nil: "appends Inr []"
  by (simp add: appends_iff)

lemma appends_bind:
  assumes "appends f a" and "appends g b"
  shows "appends (\<lambda>s. rbind (f s) g) (a @ b)"
proof (rule appendsI)
  fix s assume "ok s"
  then obtain s1 where s1: "f s = Inr s1" "ok s1" "content s1 = content s @ a" using appendsD [OF assms(1)] by blast
  moreover obtain s2 where "g s1 = Inr s2" "ok s2" "content s2 = content s1 @ b" using appendsD [OF assms(2) s1(2)] by blast
  ultimately show "\<exists>s'. rbind (f s) g = Inr s' \<and> ok s' \<and> content s' = content s @ (a @ b)" by simp
qed

end

definition appends_over :: "('s \<Rightarrow> bool) \<Rightarrow> ('s \<Rightarrow> bytes) \<Rightarrow> ('s \<Rightarrow> 's result) \<Rightarrow> bytes \<Rightarrow> bool" where
  "appends_over ok content f a \<longleftrightarrow> (\<forall>s. ok s \<longrightarrow> (\<exists>s'. f s = Inr s' \<and> ok s' \<and> content s' = content s @ a))"

text \<open>Filling a hole: a write at the end of the known prefix, then a patch of its length field.\<close>

lemma take_split: "n \<le> length b \<Longrightarrow> b = take n b @ drop n b"
  by simp

lemma fill_fields:
  assumes "pos + length a \<le> length b"
  shows "put b pos a = Inr (take pos b @ a @ drop (pos + length a) b)"
  using assms by (simp add: put_def)

lemma take_filled: "pos \<le> length b \<Longrightarrow> take (pos + length a) (take pos b @ a @ r) = take pos b @ a"
  by simp

lemma patch_length:
  assumes "length p = pos" and "length l = 4"
  shows "put (p @ l @ e @ r) pos (u32_le n) = Inr (p @ u32_le n @ e @ r)"
  using assms by (simp add: put_def)

section \<open>The input packer appends\<close>

definition ip_ok :: "input_packer \<Rightarrow> bool" where
  "ip_ok p \<longleftrightarrow> ip_pos p \<le> length (ip_buf p) \<and> 0 < length (ip_buf p)"

definition ip_content :: "input_packer \<Rightarrow> bytes" where
  "ip_content p = take (ip_pos p) (ip_buf p)"

interpretation packer: appender ip_ok ip_content "appends_over ip_ok ip_content"
  by unfold_locales (simp add: appends_over_def)

lemma ip_split: "ip_ok p \<Longrightarrow> p = \<lparr>ip_buf = ip_content p @ drop (ip_pos p) (ip_buf p), ip_pos = length (ip_content p)\<rparr>"
  by (cases p) (simp add: ip_ok_def ip_content_def)

lemma ensure_spec:
  assumes ok: "ip_ok p"
  shows "\<exists>r. ensure n p = Inr \<lparr>ip_buf = ip_content p @ r, ip_pos = length (ip_content p)\<rparr>
    \<and> n \<le> length r \<and> ip_content p @ r \<noteq> []"
proof (cases "ip_pos p + n \<le> length (ip_buf p)")
  case True
  then have "ensure n p = Inr p" by (simp add: ensure_def)
  with ok True ip_split [OF ok] show ?thesis
    by (intro exI [of _ "drop (ip_pos p) (ip_buf p)"]) (auto simp: ip_ok_def ip_content_def)
next
  case False
  let ?g = "grow_size (length (ip_buf p) * 2) (ip_pos p + n)" and ?c = "ip_content p"
  have g: "ip_pos p + n \<le> ?g" "length (ip_buf p) * 2 \<le> ?g" "0 < length (ip_buf p)"
    using ok grow_size_ge [of "length (ip_buf p) * 2" "ip_pos p + n"] by (auto simp: ip_ok_def)
  have l: "length ?c = ip_pos p" "subarray (ip_buf p) 0 (ip_pos p) = ?c"
    using ok by (simp_all add: ip_content_def ip_ok_def subarray_def)
  have "put (new_buf ?g) 0 ?c = Inr (?c @ drop (length ?c) (new_buf ?g))"
    using g l by (simp add: put_def)
  then have "ensure n p = Inr \<lparr>ip_buf = ?c @ drop (length ?c) (new_buf ?g), ip_pos = length ?c\<rparr>"
    using False l by (cases p) (simp add: ensure_def Let_def)
  moreover have "?c @ drop (length ?c) (new_buf ?g) \<noteq> []"
  proof -
    have "length (?c @ drop (length ?c) (new_buf ?g)) = ?g" using g l by simp
    moreover have "0 < ?g" using g(2,3) by linarith
    ultimately show ?thesis by (metis length_greater_0_conv)
  qed
  moreover have "n \<le> length (drop (length ?c) (new_buf ?g))" using g l by simp
  ultimately show ?thesis by blast
qed

lemma grown_state:
  assumes "f p = Inr \<lparr>ip_buf = c @ a @ r, ip_pos = length c + length a\<rparr>" and "0 < length a" and "ip_content p = c"
  shows "\<exists>p'. f p = Inr p' \<and> ip_ok p' \<and> ip_content p' = ip_content p @ a"
  using assms by (simp add: ip_ok_def) (simp add: ip_content_def)

lemma writeU8_appends: "appends_over ip_ok ip_content (writeU8 k) [of_nat k]"
proof (rule packer.appendsI)
  fix p assume "ip_ok p"
  then obtain r where r: "ensure 1 p = Inr \<lparr>ip_buf = ip_content p @ r, ip_pos = length (ip_content p)\<rparr>" "1 \<le> length r"
    using ensure_spec [of p 1] by blast
  show "\<exists>p'. writeU8 k p = Inr p' \<and> ip_ok p' \<and> ip_content p' = ip_content p @ [of_nat k]"
    using r(2) by (intro grown_state [where r = "drop 1 r"]) (simp_all add: writeU8_def r(1) [simplified] put_append)
qed

lemma writeLenPrefixed_appends: "appends_over ip_ok ip_content (writeLenPrefixed bs) (item_layout bs)"
proof (rule packer.appendsI)
  fix p assume "ip_ok p"
  then obtain r where r: "ensure (4 + length bs) p = Inr \<lparr>ip_buf = ip_content p @ r, ip_pos = length (ip_content p)\<rparr>"
    "4 + length bs \<le> length r"
    using ensure_spec [of p "4 + length bs"] by blast
  let ?c = "ip_content p" and ?l = "u32_le (length bs)"
  have "put (?c @ r) (length ?c) ?l = Inr ((?c @ ?l) @ drop 4 r)" using r(2) by (simp add: put_append)
  moreover have "put ((?c @ ?l) @ drop 4 r) (length ?c + 4) bs = Inr ((?c @ ?l) @ bs @ drop (length bs) (drop 4 r))"
    using r(2) by (intro put_append) simp_all
  ultimately show "\<exists>p'. writeLenPrefixed bs p = Inr p' \<and> ip_ok p' \<and> ip_content p' = ?c @ item_layout bs"
    by (intro grown_state [where r = "drop (length bs) (drop 4 r)"]) (simp_all add: writeLenPrefixed_def r(1) item_layout_def)
qed

lemma buffer_write_fits:
  "length (utf8_encode s) \<le> length q \<Longrightarrow> start = length p \<Longrightarrow>
     buffer_write s (p @ q) start (length (p @ q)) = (p @ utf8_encode s @ drop (length (utf8_encode s)) q, length (utf8_encode s))"
  by (simp add: buffer_write_def fit_scalars_all utf8_encode_def Let_def)

lemma writeStringLenPrefixed_appends:
  "appends_over ip_ok ip_content (writeStringLenPrefixed s) (item_layout (utf8_encode s))"
proof (rule packer.appendsI)
  fix p assume "ip_ok p"
  then obtain r where r: "ensure (4 + length s * 3) p = Inr \<lparr>ip_buf = ip_content p @ r, ip_pos = length (ip_content p)\<rparr>"
    "4 + length s * 3 \<le> length r"
    using ensure_spec [of p "4 + length s * 3"] by blast
  let ?c = "ip_content p" and ?e = "utf8_encode s"
  have e: "4 + length ?e \<le> length r" using r(2) utf8_encode_length_le [of s] by simp
  have cr: "?c @ r = (?c @ take 4 r) @ drop 4 r" by simp
  have w: "buffer_write s (?c @ r) (length ?c + 4) (length (?c @ r))
      = ((?c @ take 4 r) @ ?e @ drop (length ?e) (drop 4 r), length ?e)"
    unfolding cr using e by (intro buffer_write_fits) simp_all
  have "put (?c @ take 4 r @ ?e @ drop (length ?e) (drop 4 r)) (length ?c) (u32_le (length ?e))
      = Inr (?c @ u32_le (length ?e) @ ?e @ drop (length ?e) (drop 4 r))"
    using e by (intro patch_length) simp_all
  then show "\<exists>p'. writeStringLenPrefixed s p = Inr p' \<and> ip_ok p' \<and> ip_content p' = ?c @ item_layout ?e"
    using w by (intro grown_state [where r = "drop (length ?e) (drop 4 r)"])
      (simp_all add: writeStringLenPrefixed_def r(1) item_layout_def Let_def)
qed

lemma write_ip_appends:
  "appends_over ip_ok ip_content (write_ip ip) (item_layout
     (case ip of Some s \<Rightarrow> (if s = [] then EMPTY_IP_BYTES else utf8_encode s) | None \<Rightarrow> EMPTY_IP_BYTES))"
  by (auto simp: write_ip_def writeLenPrefixed_appends writeStringLenPrefixed_appends split: option.split)

lemma write_rid_appends:
  "appends_over ip_ok ip_content
     (case rid of Some r \<Rightarrow> (if r = [] then writeLenPrefixed [] else writeStringLenPrefixed r) | None \<Rightarrow> writeLenPrefixed [])
     (item_layout (case rid of Some r \<Rightarrow> utf8_encode r | None \<Rightarrow> []))"
  using writeLenPrefixed_appends [of "[]"] by (auto simp: writeStringLenPrefixed_appends split: option.split)

text \<open>Five appended fields from an empty packer give the whole input.\<close>

lemma packed_from_fields:
  assumes "appends_over ip_ok ip_content f1 a1" "appends_over ip_ok ip_content f2 a2" "appends_over ip_ok ip_content f3 a3"
    "appends_over ip_ok ip_content f4 a4" "appends_over ip_ok ip_content f5 a5" and p: "0 < length (ip_buf p)"
  shows "\<exists>p'. rbind (f1 (p\<lparr>ip_pos := 0\<rparr>)) (\<lambda>p1. rbind (f2 p1) (\<lambda>p2. rbind (f3 p2) (\<lambda>p3. rbind (f4 p3) (\<lambda>p4. rbind (f5 p4) packed_view))))
     = Inr (a1 @ a2 @ a3 @ a4 @ a5, p') \<and> 0 < length (ip_buf p')"
proof -
  let ?p = "p\<lparr>ip_pos := 0\<rparr>"
  have "ip_ok ?p" and c: "ip_content ?p = []" using p by (simp_all add: ip_ok_def ip_content_def)
  then obtain p5 where p5: "rbind (rbind (rbind (rbind (f1 ?p) f2) f3) f4) f5 = Inr p5" "ip_ok p5"
    "ip_content p5 = (((a1 @ a2) @ a3) @ a4) @ a5"
    using packer.appendsD [OF packer.appends_bind [OF packer.appends_bind [OF packer.appends_bind
        [OF packer.appends_bind [OF assms(1,2)] assms(3)] assms(4)] assms(5)]] by force
  have "packed_view p5 = Inr (ip_content p5, p5)" by (simp add: packed_view_def ip_content_def subarray_def)
  with p5 show ?thesis
    by (intro exI [of _ p5]) (simp add: rbind_assoc ip_ok_def rbind_Inr_conv, blast?)
qed

section \<open>The header block\<close>

definition bw_ok :: "block_writer \<Rightarrow> bool" where
  "bw_ok w \<longleftrightarrow> 2 \<le> bw_pos w \<and> bw_pos w \<le> length (bw_buf w) \<and> 2 \<le> length (bw_slot w)"

lemma length_header_layout: "length (header_layout (name, v)) = 6 + length name + length (utf8_encode v)"
  by (simp add: header_layout_def)

lemma encode_into_append:
  "length (utf8_encode s) \<le> length q \<Longrightarrow> off = length p \<Longrightarrow>
     node_encodeUtf8Into s (p @ q) off = (p @ utf8_encode s @ drop (length (utf8_encode s)) q, length (utf8_encode s))"
  by (simp add: encodeUtf8Into_fits)

lemma write_pair_fits:
  fixes name :: bytes
  defines "nl \<equiv> length name"
  assumes r: "6 + nl + 3 * length v \<le> length r" and c: "pos = length c"
  shows "write_pair_at (c @ r) pos name v
    = Inr (pos + length (header_layout (name, v)), c @ header_layout (name, v) @ drop (length (header_layout (name, v))) r)"
proof -
  let ?e = "utf8_encode v" and ?n = "u16_le nl"
  have e: "length ?e \<le> 3 * length v" by (rule utf8_encode_length_le)
  have 1: "put (c @ r) pos ?n = Inr ((c @ ?n) @ drop 2 r)" using r by (simp add: put_append c)
  have 2: "put ((c @ ?n) @ drop 2 r) (pos + 2) name = Inr ((c @ ?n @ name) @ drop (2 + nl) r)"
    using r by (subst put_append) (simp_all add: c nl_def add.commute)
  let ?t = "drop (2 + nl) r"
  have t: "4 + length ?e \<le> length ?t" using r e by simp
  have 3: "node_encodeUtf8Into v ((c @ ?n @ name) @ ?t) (pos + 2 + nl + 4)
      = ((c @ ?n @ name @ take 4 ?t) @ ?e @ drop (length ?e) (drop 4 ?t), length ?e)"
  proof -
    have sp: "(c @ ?n @ name) @ ?t = (c @ ?n @ name @ take 4 ?t) @ drop 4 ?t"
      by (simp only: append_assoc append_take_drop_id)
    show ?thesis unfolding sp using t by (intro encode_into_append) (simp_all add: c nl_def)
  qed
  have 4: "put ((c @ ?n @ name) @ take 4 ?t @ ?e @ drop (length ?e) (drop 4 ?t)) (pos + 2 + nl) (u32_le (length ?e))
      = Inr ((c @ ?n @ name) @ u32_le (length ?e) @ ?e @ drop (length ?e) (drop 4 ?t))"
    using t by (intro patch_length) (simp_all add: c nl_def)
  show ?thesis
    using 1 2 3 4
    by (simp add: write_pair_at_def Let_def nl_def [symmetric] header_layout_def item_layout_def ac_simps)
qed

lemma writeHeaderPair_spec:
  assumes "2 \<le> pos" "pos \<le> length buf"
  shows "\<exists>r grew. writeHeaderPair buf pos name v
    = Inr (pos + length (header_layout (name, v)), take pos buf @ header_layout (name, v) @ r, grew)"
proof -
  let ?need = "2 + length name + 4 + length v * 3" and ?c = "take pos buf"
  have c: "pos = length ?c" using assms by simp
  have grown: "\<exists>q. (if length buf < pos + ?need then put (new_buf (max (length buf * 2) (pos + ?need))) 0 (subarray buf 0 pos) else Inr buf)
      = Inr (?c @ q) \<and> ?need \<le> length q"
  proof (cases "length buf < pos + ?need")
    case False
    then show ?thesis by (intro exI [of _ "drop pos buf"]) simp
  next
    case True
    let ?m = "max (length buf * 2) (pos + ?need)"
    have m: "pos + ?need \<le> ?m" by (rule max.cobounded2)
    have "put (new_buf ?m) 0 (subarray buf 0 pos) = Inr (?c @ drop pos (new_buf ?m))"
      using c m by (simp add: put_def subarray_def min.absorb2)
    with True m show ?thesis by (intro exI [of _ "drop pos (new_buf ?m)"]) simp
  qed
  then obtain q where q: "(if length buf < pos + ?need then put (new_buf (max (length buf * 2) (pos + ?need))) 0 (subarray buf 0 pos) else Inr buf)
      = Inr (?c @ q)" "?need \<le> length q" by blast
  have "write_pair_at (?c @ q) pos name v
    = Inr (pos + length (header_layout (name, v)), ?c @ header_layout (name, v) @ drop (length (header_layout (name, v))) q)"
    using q(2) by (intro write_pair_fits [OF _ c]) simp
  then show ?thesis unfolding writeHeaderPair_def Let_def q(1) by simp
qed

lemma write_selected_spec:
  assumes "bw_ok w"
  shows "\<exists>w'. write_selected hs w = Inr w' \<and> bw_ok w' \<and> bw_count w' = bw_count w + length hs
    \<and> take (bw_pos w') (bw_buf w') = take (bw_pos w) (bw_buf w) @ concat (map header_layout hs)"
  using assms
proof (induction hs arbitrary: w)
  case (Cons h hs)
  obtain name v where h: "h = (name, v)" by (cases h)
  let ?l = "header_layout (name, v)"
  obtain r grew where w: "writeHeaderPair (bw_buf w) (bw_pos w) name v
      = Inr (bw_pos w + length ?l, take (bw_pos w) (bw_buf w) @ ?l @ r, grew)"
    using writeHeaderPair_spec [of "bw_pos w" "bw_buf w"] Cons.prems unfolding bw_ok_def by blast
  define w1 where "w1 = \<lparr>bw_slot = (if bw_own w \<and> \<not> grew then take (bw_pos w) (bw_buf w) @ ?l @ r else bw_slot w),
    bw_own = (bw_own w \<and> \<not> grew), bw_buf = take (bw_pos w) (bw_buf w) @ ?l @ r,
    bw_pos = bw_pos w + length ?l, bw_count = bw_count w + 1\<rparr>"
  have "bw_ok w1" using Cons.prems by (simp add: bw_ok_def w1_def)
  then obtain w' where "write_selected hs w1 = Inr w' \<and> bw_ok w' \<and> bw_count w' = bw_count w1 + length hs
    \<and> take (bw_pos w') (bw_buf w') = take (bw_pos w1) (bw_buf w1) @ concat (map header_layout hs)"
    using Cons.IH by blast
  moreover have "take (bw_pos w1) (bw_buf w1) = take (bw_pos w) (bw_buf w) @ ?l"
    using Cons.prems by (simp add: w1_def bw_ok_def)
  moreover have "write_selected (h # hs) w = write_selected hs w1" by (simp add: h w w1_def Let_def)
  ultimately show ?case by (simp add: h w1_def)
qed simp

definition pack_ok :: "pack_state \<Rightarrow> bool" where
  "pack_ok st \<longleftrightarrow> (\<forall>b \<in> set (tls st). 2 \<le> length b) \<and> length (tls st) \<le> MAX_CACHED \<and> tlsIdx st < MAX_CACHED
     \<and> (tlsIdx st = length (tls st) \<or> length (tls st) = MAX_CACHED)
     \<and> jsmap_ok (originCache st) \<and> length (originCache st) \<le> ORIGIN_CACHE_MAX
     \<and> (\<forall>k b. map_of (originCache st) k = Some b \<longrightarrow> b = block_layout [(hdr ''origin'', k)])"

lemma getHeaderBuf_ok:
  assumes "pack_ok st" and "getHeaderBuf st = (i, buf, st')"
  shows "pack_ok st' \<and> i < length (tls st') \<and> tls st' ! i = buf \<and> 2 \<le> length buf \<and> originCache st' = originCache st
    \<and> bw_ok (start_block buf)"
proof -
  have n: "2 \<le> length (new_buf HEADER_BUF_SIZE)" by (simp add: HEADER_BUF_SIZE_def)
  have m: "tlsIdx st < length (tls st) \<Longrightarrow> length (tls st) = MAX_CACHED" using assms(1) by (auto simp: pack_ok_def)
  show ?thesis
    using assms n m
    by (auto simp: getHeaderBuf_def Let_def pack_ok_def bw_ok_def start_block_def MAX_CACHED_def nth_append split: if_splits)
qed

lemma finish_block_spec:
  assumes "bw_ok w" and c: "take (bw_pos w) (bw_buf w) = [a, b] @ rest" and "pack_ok st" and "i < length (tls st)"
  shows "\<exists>st'. finish_block w i st = Inr (u16_le (bw_count w) @ rest, st') \<and> pack_ok st' \<and> originCache st' = originCache st"
proof -
  let ?b = "bw_buf w" and ?n = "u16_le (bw_count w)"
  have l: "2 \<le> bw_pos w" "bw_pos w \<le> length ?b" using assms(1) by (simp_all add: bw_ok_def)
  have p: "put ?b 0 ?n = Inr (?n @ drop 2 ?b)" using l by (simp add: put_def numeral_2_eq_2)
  have "rest = drop 2 (take (bw_pos w) ?b)" by (simp add: c)
  then have "subarray (?n @ drop 2 ?b) 0 (bw_pos w) = ?n @ rest"
    using l by (simp add: subarray_def drop_take)
  moreover have "pack_ok (st\<lparr>tls := (tls st)[i := (if bw_own w then ?n @ drop 2 ?b else bw_slot w)]\<rparr>)"
    using assms(1,3,4) l by (auto simp: pack_ok_def bw_ok_def dest!: set_update_subset_insert [THEN subsetD])
  ultimately show ?thesis by (simp add: finish_block_def p)
qed

lemma write_block_spec:
  assumes "pack_ok st" and "getHeaderBuf st = (i, buf, st1)"
  shows "\<exists>w st2. write_selected hs (start_block buf) = Inr w \<and> bw_count w = length hs
    \<and> finish_block w i st1 = Inr (block_layout hs, st2) \<and> pack_ok st2 \<and> originCache st2 = originCache st"
proof -
  note G = getHeaderBuf_ok [OF assms]
  obtain w where w: "write_selected hs (start_block buf) = Inr w" "bw_ok w" "bw_count w = length hs"
    "take (bw_pos w) (bw_buf w) = take 2 buf @ concat (map header_layout hs)"
    using write_selected_spec [of "start_block buf" hs] G by (auto simp: start_block_def)
  obtain a b where "take 2 buf = [a, b]" using G by (cases buf; cases "tl buf") (auto simp: numeral_2_eq_2)
  with w G obtain st2 where "finish_block w i st1 = Inr (u16_le (bw_count w) @ concat (map header_layout hs), st2)"
    "pack_ok st2" "originCache st2 = originCache st1"
    using finish_block_spec [of w a b "concat (map header_layout hs)" st1 i] by auto
  with w G show ?thesis by (auto simp: block_layout_def)
qed

lemma empty_block: "EMPTY_HEADERS_BLOCK = block_layout []"
  by (simp add: EMPTY_HEADERS_BLOCK_def block_layout_def numeral_2_eq_2)

lemma cache_insert_ok:
  assumes "pack_ok st" and "map_of (originCache st) k = None"
  defines "cache \<equiv> (if ORIGIN_CACHE_MAX \<le> length (originCache st)
     then (case jsmap_keys (originCache st) of [] \<Rightarrow> originCache st | f # _ \<Rightarrow> AList.delete f (originCache st))
     else originCache st)"
  shows "pack_ok (st\<lparr>originCache := AList.update k (block_layout [(hdr ''origin'', k)]) cache\<rparr>)"
proof -
  have c: "jsmap_ok (originCache st)" "length (originCache st) \<le> ORIGIN_CACHE_MAX"
    using assms(1) by (simp_all add: pack_ok_def)
  have new: "jsmap_ok cache \<and> length cache < ORIGIN_CACHE_MAX \<and> map_of cache k = None
      \<and> (\<forall>j b. map_of cache j = Some b \<longrightarrow> map_of (originCache st) j = Some b)"
  proof (cases "ORIGIN_CACHE_MAX \<le> length (originCache st)")
    case True
    then obtain f v m where m: "originCache st = (f, v) # m"
      by (cases "originCache st") (auto simp: ORIGIN_CACHE_MAX_def)
    then have "cache = m" using True delete_first_key [of f v m] c(1) by (simp add: cache_def)
    moreover have "f \<notin> fst ` set m" and "jsmap_ok m" using c(1) by (simp_all add: m jsmap_ok_def)
    moreover have "map_of m j = Some b \<Longrightarrow> j \<in> fst ` set m" for j b by (force dest: map_of_SomeD)
    moreover have "map_of m k = None" using assms(2) by (simp add: m split: if_splits)
    moreover have "length m < ORIGIN_CACHE_MAX" using c(2) by (simp add: m)
    ultimately show ?thesis using m by auto
  next
    case False
    then show ?thesis using c assms(2) by (simp add: cache_def)
  qed
  then have "length (AList.update k (block_layout [(hdr ''origin'', k)]) cache) \<le> ORIGIN_CACHE_MAX"
    by (simp add: length_update_absent)
  with new assms(1) show ?thesis by (auto simp: pack_ok_def split: if_splits)
qed

lemma cachedOriginBlock_spec:
  assumes "pack_ok st"
  shows "\<exists>st'. cachedOriginBlock k st = Inr (block_layout [(hdr ''origin'', k)], st') \<and> pack_ok st'"
proof (cases "map_of (originCache st) k")
  case (Some b)
  with assms show ?thesis by (auto simp: cachedOriginBlock_def pack_ok_def)
next
  case None
  obtain i buf st1 where g: "getHeaderBuf st = (i, buf, st1)" by (cases "getHeaderBuf st") auto
  obtain w st2 where w: "write_selected [(hdr ''origin'', k)] (start_block buf) = Inr w"
    "finish_block w i st1 = Inr (block_layout [(hdr ''origin'', k)], st2)" "pack_ok st2" "originCache st2 = originCache st"
    using write_block_spec [OF assms g] by blast
  have n: "map_of (originCache st2) k = None" using None w(4) by simp
  show ?thesis
    using cache_insert_ok [OF w(3) n] None
    by (simp only: cachedOriginBlock_def option.case g prod.case w(1,2) rbind_simps Let_def) (simp only: sum.inject prod.inject, blast)
qed

lemma origin_block_spec:
  assumes "pack_ok st"
  shows "\<exists>st'. origin_block v st = Inr (block_layout (visit_if ''origin'' MAX_SMALL_HEADER_BYTES v), st') \<and> pack_ok st'"
  using assms cachedOriginBlock_spec by (auto simp: origin_block_def visit_if_def empty_block split: option.split)

lemma gather_general_spec:
  assumes "pack_ok st"
  shows "\<exists>st'. gather_general h plan mk ov cv st = Inr (block_layout (forEachSelectedHeader h plan mk ov cv), st') \<and> pack_ok st'"
proof -
  obtain i buf st1 where g: "getHeaderBuf st = (i, buf, st1)" by (cases "getHeaderBuf st") auto
  obtain w st2 where "write_selected (forEachSelectedHeader h plan mk ov cv) (start_block buf) = Inr w"
    "bw_count w = length (forEachSelectedHeader h plan mk ov cv)"
    "finish_block w i st1 = Inr (block_layout (forEachSelectedHeader h plan mk ov cv), st2)" "pack_ok st2"
    using write_block_spec [OF assms g] by blast
  then show ?thesis
    using getHeaderBuf_ok [OF assms g] by (auto simp: gather_general_def g empty_block)
qed

lemma gather_spec:
  assumes "pack_ok st"
  shows "\<exists>st'. gatherRawHeadersPacked h plan mk ov st = Inr (block_layout (forEachSelectedHeader h plan mk ov None), st') \<and> pack_ok st'"
proof -
  let ?o = "case ov of Some v \<Rightarrow> v | None \<Rightarrow> h ''origin''"
  have cookie: "forEachSelectedHeader h plan mk ov (Some (h ''cookie'')) = forEachSelectedHeader h plan mk ov None"
    by (simp add: forEachSelectedHeader_def)
  consider (none) "\<not> pl_cookie plan" "\<not> pl_cors plan" "\<not> pl_proxy plan" "\<not> pl_proto plan"
    | (cors) "pl_cors plan" "\<not> pl_cookie plan" "\<not> pl_proxy plan" "\<not> pl_proto plan" "mk \<noteq> KIND_OPTIONS"
    | (both) "pl_cors plan" "pl_cookie plan" "\<not> pl_proxy plan" "\<not> pl_proto plan" "mk \<noteq> KIND_OPTIONS"
    | (general) "pl_cookie plan \<or> pl_cors plan \<or> pl_proxy plan \<or> pl_proto plan"
        "\<not> (pl_cors plan \<and> \<not> pl_proxy plan \<and> \<not> pl_proto plan \<and> mk \<noteq> KIND_OPTIONS)"
    by blast
  then show ?thesis
  proof cases
    case none
    then show ?thesis using assms by (simp add: gatherRawHeadersPacked_def forEachSelectedHeader_def empty_block)
  next
    case cors
    then show ?thesis using origin_block_spec [OF assms, of ?o]
      by (simp add: gatherRawHeadersPacked_def forEachSelectedHeader_def Let_def)
  next
    case both
    show ?thesis
    proof (cases "h ''cookie''")
      case None
      with both show ?thesis using origin_block_spec [OF assms, of ?o]
        by (simp add: gatherRawHeadersPacked_def forEachSelectedHeader_def Let_def visit_if_def [of "''cookie''"])
    next
      case (Some c)
      with both show ?thesis using gather_general_spec [OF assms, of h plan mk ov "Some (Some c)"] cookie
        by (simp add: gatherRawHeadersPacked_def Let_def)
    qed
  next
    case general
    then show ?thesis using gather_general_spec [OF assms, of h plan mk ov None]
      by (auto simp: gatherRawHeadersPacked_def Let_def)
  qed
qed

lemma packHeaders_spec:
  assumes "pack_ok st"
  shows "\<exists>st'. packHeaders h m plan st = Inr (block_layout (forEachSelectedHeader h plan (kind_of m) None None), st') \<and> pack_ok st'"
proof -
  obtain i buf st1 where g: "getHeaderBuf st = (i, buf, st1)" by (cases "getHeaderBuf st") auto
  show ?thesis using write_block_spec [OF assms g, of "forEachSelectedHeader h plan (kind_of m) None None"]
    by (auto simp: packHeaders_def g)
qed

lemma prewarm_spec: "pack_ok st \<Longrightarrow> \<exists>st'. prewarmOriginBlocks os st = Inr st' \<and> pack_ok st'"
proof (induction os arbitrary: st)
  case (Cons k os)
  obtain st1 where "cachedOriginBlock k st = Inr (block_layout [(hdr ''origin'', k)], st1)" "pack_ok st1"
    using cachedOriginBlock_spec [OF Cons.prems] by blast
  with Cons show ?case by simp
qed simp

section \<open>States the module can be in\<close>

definition initial_pack_state :: pack_state where
  "initial_pack_state = \<lparr>tls = [], tlsIdx = 0, originCache = []\<rparr>"

inductive pack_reach :: "pack_state \<Rightarrow> bool" where
  pr_init: "pack_reach initial_pack_state"
| pr_gather: "pack_reach st \<Longrightarrow> gatherRawHeadersPacked h plan mk ov st = Inr (b, st') \<Longrightarrow> pack_reach st'"
| pr_pack: "pack_reach st \<Longrightarrow> packHeaders h m plan st = Inr (b, st') \<Longrightarrow> pack_reach st'"
| pr_prewarm: "pack_reach st \<Longrightarrow> prewarmOriginBlocks os st = Inr st' \<Longrightarrow> pack_reach st'"

lemma pack_reach_ok: "pack_reach st \<Longrightarrow> pack_ok st"
proof (induction rule: pack_reach.induct)
  case pr_init
  then show ?case by (simp add: pack_ok_def initial_pack_state_def MAX_CACHED_def)
next
  case (pr_gather st h plan mk ov b st')
  then show ?case using gather_spec [of st h plan mk ov] by auto
next
  case (pr_pack st h m plan b st')
  then show ?case using packHeaders_spec [of st h m plan] by auto
next
  case (pr_prewarm st os st')
  then show ?case using prewarm_spec [of st os] by auto
qed

section \<open>Properties of the packers\<close>

text \<open>
  C37. Header packing is transparent to its caches: in every state that gathers, packs and pre-warms can
  reach, both packing paths give the documented block of exactly the selected headers in order, whatever
  the reused scratch buffers and the origin cache hold, whether or not the value was prefetched, and
  through the buffer growth of oversized blocks; the cache never exceeds eight entries.
\<close>

theorem header_block_reference:
  assumes "pack_reach st" and "ov = None \<or> ov = Some (h ''origin'')"
  shows "\<exists>st1 st2. gatherRawHeadersPacked h plan mk ov st = Inr (block_layout (forEachSelectedHeader h plan mk None None), st1)
    \<and> packHeaders h m plan st = Inr (block_layout (forEachSelectedHeader h plan (kind_of m) None None), st2)
    \<and> length (originCache st1) \<le> ORIGIN_CACHE_MAX \<and> length (tls st1) \<le> MAX_CACHED"
proof -
  have ok: "pack_ok st" by (rule pack_reach_ok [OF assms(1)])
  have "forEachSelectedHeader h plan mk ov None = forEachSelectedHeader h plan mk None None"
    using assms(2) by (auto simp: forEachSelectedHeader_def)
  with gather_spec [OF ok, of h plan mk ov] packHeaders_spec [OF ok, of h m plan] show ?thesis
    by (auto simp: pack_ok_def)
qed

theorem header_block_reference_witness:
  "\<exists>st1. gatherRawHeadersPacked (\<lambda>n. if n = ''origin'' then Some (js ''https://a'') else None)
      \<lparr>pl_cookie = True, pl_cors = True, pl_proxy = False, pl_proto = False\<rparr> 0 None initial_pack_state
    = Inr (block_layout [(hdr ''origin'', js ''https://a'')], st1)"
  using header_block_reference [OF pr_init, of None "\<lambda>n. if n = ''origin'' then Some (js ''https://a'') else None"
      "\<lparr>pl_cookie = True, pl_cors = True, pl_proxy = False, pl_proto = False\<rparr>" 0 "''GET''"]
  by (auto simp: forEachSelectedHeader_def visit_if_def MAX_SMALL_HEADER_BYTES_def js_def)

lemma visit_bound:
  assumes "\<And>s. v = Some s \<Longrightarrow> latin1 s"
  shows "length (concat (map header_layout (visit_if name limit v))) \<le> 6 + length (hdr name) + 2 * limit"
proof (cases v)
  case (Some s)
  have "length (utf8_encode s) \<le> 2 * length s" using assms [OF Some] by (rule utf8_encode_latin1_length)
  then show ?thesis by (auto simp: visit_if_def Some length_header_layout)
qed (simp add: visit_if_def)

lemma length_hdr: "\<forall>c \<in> set name. of_char c < (128 :: nat) \<Longrightarrow> length (hdr name) = length name"
proof -
  assume a: "\<forall>c \<in> set name. of_char c < (128 :: nat)"
  have "ascii (js name)" unfolding ascii_def js_def
  proof
    fix u :: code_unit assume "u \<in> set (map (\<lambda>c. of_nat (of_char c)) name)"
    then obtain c where c: "c \<in> set name" "u = of_nat (of_char c)" by auto
    with a have "(of_char c :: nat) < 128" by blast
    then show "unat u < 128" by (simp add: c unat_of_nat)
  qed
  then show ?thesis by (simp add: hdr_def node_encodeUtf8_def utf8_encode_ascii js_def)
qed

text \<open>
  A packed header block always fits the native limit of 65536 bytes: header values are byte strings
  (every code unit below 256), and with the per-header guards the selected headers never take more,
  even though the guards count code units and the block holds their UTF-8 bytes.
\<close>

theorem header_block_bounded:
  assumes "\<And>n s. h n = Some s \<Longrightarrow> latin1 s"
  shows "length (block_layout (forEachSelectedHeader h plan mk None None)) \<le> 65536"
proof -
  let ?f = "\<lambda>n l. length (concat (map header_layout (visit_if n l (h n))))"
  have L: "length (hdr ''cookie'') = 6" "length (hdr ''origin'') = 6" "length (hdr ''access-control-request-method'') = 29"
    "length (hdr ''access-control-request-headers'') = 30" "length (hdr ''x-forwarded-for'') = 15"
    "length (hdr ''x-real-ip'') = 9" "length (hdr ''x-forwarded-proto'') = 17"
    by (subst length_hdr; simp)+
  have B: "?f n l \<le> 6 + length (hdr n) + 2 * l" for n l by (rule visit_bound) (rule assms)
  have "length (concat (map header_layout (forEachSelectedHeader h plan mk None None)))
      \<le> ?f ''cookie'' 8192 + ?f ''origin'' 2048 + ?f ''access-control-request-method'' 2048
        + ?f ''access-control-request-headers'' 2048 + ?f ''x-forwarded-for'' 8192 + ?f ''x-real-ip'' 2048
        + ?f ''x-forwarded-proto'' 2048"
    by (simp add: forEachSelectedHeader_def MAX_COOKIE_HEADER_BYTES_def MAX_SMALL_HEADER_BYTES_def MAX_XFF_HEADER_BYTES_def)
  also have "\<dots> \<le> 53402"
    using B [of "''cookie''" 8192] B [of "''origin''" 2048] B [of "''access-control-request-method''" 2048]
      B [of "''access-control-request-headers''" 2048] B [of "''x-forwarded-for''" 8192] B [of "''x-real-ip''" 2048]
      B [of "''x-forwarded-proto''" 2048]
    unfolding L by linarith
  finally show ?thesis by (simp add: block_layout_def)
qed

theorem header_block_bounded_witness:
  "length (block_layout (forEachSelectedHeader (\<lambda>n. Some (js ''abc''))
     \<lparr>pl_cookie = True, pl_cors = True, pl_proxy = True, pl_proto = True\<rparr> 6 None None)) \<le> 65536"
  by (rule header_block_bounded) (auto simp: latin1_def js_def)

text \<open>
  The three input packers write the same layout: method kind, then the length-prefixed url, address,
  request id and header block, independently of what an earlier request left in the growable buffer;
  encoding the strings in place gives the bytes that encoding them first and copying would, and an
  absent or empty address becomes the placeholder address.
\<close>

theorem packers_agree:
  fixes ip :: "jsstring option"
  defines "ip_bytes \<equiv> (case ip of Some s \<Rightarrow> (if s = [] then EMPTY_IP_BYTES else utf8_encode s) | None \<Rightarrow> EMPTY_IP_BYTES)"
  assumes "0 < length (ip_buf p)"
  shows "\<exists>p1 p2 p3. pack kind (utf8_encode url) ip_bytes (utf8_encode rid) headers p
        = Inr (input_layout kind (utf8_encode url) ip_bytes (utf8_encode rid) headers, p1)
    \<and> packParts kind url ip (utf8_encode rid) headers p
        = Inr (input_layout kind (utf8_encode url) ip_bytes (utf8_encode rid) headers, p2)
    \<and> packFromStrings kind url ip (Some rid) headers p
        = Inr (input_layout kind (utf8_encode url) ip_bytes (utf8_encode rid) headers, p3)
    \<and> 0 < length (ip_buf p1) \<and> 0 < length (ip_buf p2) \<and> 0 < length (ip_buf p3)"
proof -
  note W = writeU8_appends writeLenPrefixed_appends writeStringLenPrefixed_appends write_ip_appends [of ip, folded ip_bytes_def]
    write_rid_appends [of "Some rid", simplified]
  have "\<exists>p1. pack kind (utf8_encode url) ip_bytes (utf8_encode rid) headers p
      = Inr (input_layout kind (utf8_encode url) ip_bytes (utf8_encode rid) headers, p1) \<and> 0 < length (ip_buf p1)"
    using packed_from_fields [OF W(1) W(2) W(2) W(2) W(2) assms(2), of kind "utf8_encode url" ip_bytes "utf8_encode rid" headers]
    by (simp add: pack_def input_layout_def)
  moreover have "\<exists>p2. packParts kind url ip (utf8_encode rid) headers p
      = Inr (input_layout kind (utf8_encode url) ip_bytes (utf8_encode rid) headers, p2) \<and> 0 < length (ip_buf p2)"
    using packed_from_fields [OF W(1) W(3) W(4) W(2) W(2) assms(2), of kind url "utf8_encode rid" headers]
    by (simp add: packParts_def input_layout_def)
  moreover have "\<exists>p3. packFromStrings kind url ip (Some rid) headers p
      = Inr (input_layout kind (utf8_encode url) ip_bytes (utf8_encode rid) headers, p3) \<and> 0 < length (ip_buf p3)"
    using packed_from_fields [OF W(1) W(3) W(4) W(5) W(2) assms(2), of kind url headers]
    by (simp add: packFromStrings_def input_layout_def)
  ultimately show ?thesis by blast
qed

theorem packers_agree_witness:
  "\<exists>p1. packParts 2 (js ''/a'') None [] [0, 0] (new_packer 0)
     = Inr (input_layout 2 (utf8_encode (js ''/a'')) EMPTY_IP_BYTES [] [0, 0], p1)"
  using packers_agree [of "new_packer 0" 2 "js ''/a''" None "[]" "[0, 0]"] by (auto simp: new_packer_def)

end
