(* ===== verification/IngressHandler.thy ===== *)
theory IngressHandler
  imports StreamResponse IngressPacking IngressDecode Observability
begin

text \<open>
  The pre-baked request handler of \<open>src/src/ingress/handlers.ts\<close>: one call of \<open>run\<close> packs the
  request, checks a buffer out of the pool, calls the native pipeline over one of three transports,
  decodes what it wrote, hands the result to the route callback and gives the buffer back, unless a
  zero-copy response took it over.

  The handler's closure is one record. Buffers have identity, so their contents are a map from buffer
  to bytes. The native entry points, the route callback and the hooks are arguments of each call:
  they may do something different every time. A native call returns the count it reports or throws,
  and in either case the contents it left in the output buffer. The callback is the sequence of its
  calls into the handler, ended by a return or a throw. \<open>hd_events\<close> lists the hook calls and the
  native calls in the order they were made; no code reads it. A custom logger is taken not to throw,
  and the durations it is given are left out.
\<close>

section \<open>Shared helpers\<close>

text \<open>From \<open>src/src/ingress/shared.ts\<close>, for a size that is a number.\<close>

definition DEFAULT_BAKED_OUTPUT_BUFFER_SIZE :: nat where "DEFAULT_BAKED_OUTPUT_BUFFER_SIZE = 131072"
definition MAX_OUTPUT_BUFFER_SIZE :: nat where "MAX_OUTPUT_BUFFER_SIZE = 64 * 1024 * 1024"

definition clampIngressBufferSize :: "rat \<Rightarrow> nat \<Rightarrow> int" where
  "clampIngressBufferSize sz mn = min (int MAX_OUTPUT_BUFFER_SIZE) (max (int mn) \<lfloor>sz\<rfloor>)"

section \<open>The environment of one call\<close>

type_synonym native_call = "nat result \<times> bytes"

record native_ingress =
  ni_components :: "(nat \<Rightarrow> jsstring \<Rightarrow> jsstring \<Rightarrow> bytes \<Rightarrow> bytes \<Rightarrow> bytes option \<Rightarrow> bytes \<Rightarrow> native_call) option"
  ni_ffiPacked :: "bytes \<Rightarrow> bytes option \<Rightarrow> bytes \<Rightarrow> native_call"
  ni_packed :: "bytes \<Rightarrow> bytes option \<Rightarrow> bytes \<Rightarrow> native_call"

text \<open>The hooks throw what is given here; \<open>onError\<close> may be called more than once in a run.\<close>

record run_env =
  re_native :: native_ingress
  re_onRequest :: "js_error option"
  re_onResponse :: "js_error option"
  re_onError :: "nat \<Rightarrow> js_error option"

record http_request =
  hr_method :: string
  hr_url :: jsstring
  hr_headers :: req_headers

record baked_context =
  cx_requestIdHeader :: "jsstring option"
  cx_origin :: "jsstring option"

datatype fn_value = AResponse nat | AValue | AThenable

datatype fn_step = CallZeroCopy | CallThrow js_error | CallReturn fn_value

type_synonym route_fn = "ingress_result \<Rightarrow> baked_context \<Rightarrow> fn_step list"

datatype run_event =
  OnRequest jsstring | OnResponse jsstring nat | OnError jsstring
| LogRequest jsstring nat | LogError jsstring
| FfiCall bool | NapiCall bool

section \<open>The handler\<close>

record handler_config =
  hc_ffi :: bool
  hc_urlNeeded :: bool
  hc_ipNeeded :: bool
  hc_headerPlan :: header_plan
  hc_emitRequestIdHeader :: bool
  hc_zeroCopyTimeoutMs :: nat
  hc_outputBufferSize :: int
  hc_onRequest :: bool
  hc_onResponse :: bool
  hc_onError :: bool
  hc_logger :: bool

record handler =
  hd_cfg :: handler_config
  hd_pool :: buffer_pool
  hd_mem :: "nat \<Rightarrow> bytes"
  hd_scratch :: pack_state
  hd_packer :: input_packer
  hd_ids :: id_counter
  hd_ffiFailures :: nat
  hd_ffiDisabled :: bool
  hd_currentHandle :: "nat option"
  hd_borrows :: bool
  hd_stream :: "body_stream option"
  hd_result :: ingress_result
  hd_ctx :: baked_context
  hd_events :: "run_event list"

definition emit :: "run_event \<Rightarrow> handler \<Rightarrow> handler" where
  "emit e st = st\<lparr>hd_events := hd_events st @ [e]\<rparr>"

definition needRequestIdString :: "handler_config \<Rightarrow> bool" where
  "needRequestIdString c \<longleftrightarrow> hc_emitRequestIdHeader c \<or> hc_onRequest c \<or> hc_onError c \<or> hc_onResponse c \<or> hc_logger c"

section \<open>The circuit breaker\<close>

definition MAX_FFI_FAILURES :: nat where "MAX_FFI_FAILURES = 3"

definition noteFfiFailure :: "handler \<Rightarrow> handler" where
  "noteFfiFailure st =
     (let n = hd_ffiFailures st + 1
      in st\<lparr>hd_ffiFailures := n, hd_ffiDisabled := (hd_ffiDisabled st \<or> MAX_FFI_FAILURES \<le> n)\<rparr>)"

section \<open>Output buffers\<close>

definition output_of :: "handler \<Rightarrow> nat \<Rightarrow> bytes" where
  "output_of st h = hd_mem st (buf_of (hd_pool st) h)"

definition write_output :: "nat \<Rightarrow> bytes \<Rightarrow> handler \<Rightarrow> handler" where
  "write_output h contents st = st\<lparr>hd_mem := (hd_mem st)(buf_of (hd_pool st) h := contents)\<rparr>"

text \<open>A buffer that the pool allocates in \<open>acquire\<close> is zero-filled; a pooled one keeps what it held.\<close>

definition acquire_output :: "handler \<Rightarrow> (nat \<times> handler) result" where
  "acquire_output st =
     rbind (acquire (hd_pool st) (of_int (hc_outputBufferSize (hd_cfg st)))) (\<lambda>(h, p).
       let b = h_buffer (handles p ! h);
           mem = (if uid b < created (hd_pool st) then hd_mem st else (hd_mem st)(uid b := new_buf (u8array.byteLength b)))
       in Inr (h, st\<lparr>hd_pool := p, hd_mem := mem, hd_currentHandle := Some h\<rparr>))"

section \<open>The native call\<close>

record run_input =
  ri_methodKind :: nat
  ri_url :: jsstring
  ri_ip :: "jsstring option"
  ri_rid :: bytes
  ri_headers :: bytes
  ri_body :: "bytes option"

definition pack_input :: "run_input \<Rightarrow> handler \<Rightarrow> (bytes \<times> handler) result" where
  "pack_input ri st =
     rbind (packParts (ri_methodKind ri) (ri_url ri) (ri_ip ri) (ri_rid ri) (ri_headers ri) (hd_packer st)) (\<lambda>(input, pk).
       Inr (input, st\<lparr>hd_packer := pk\<rparr>))"

definition call_napi :: "native_ingress \<Rightarrow> run_input \<Rightarrow> bytes \<Rightarrow> nat \<Rightarrow> handler \<Rightarrow> nat result \<times> handler" where
  "call_napi ni ri input h st =
     (let (r, c) = ni_packed ni input (ri_body ri) (output_of st h)
      in (r, emit (NapiCall (\<not> isl r)) (write_output h c st)))"

definition napi_rerun :: "native_ingress \<Rightarrow> run_input \<Rightarrow> nat \<Rightarrow> handler \<Rightarrow> nat result \<times> handler" where
  "napi_rerun ni ri h st =
     (case pack_input ri st of
        Inl e \<Rightarrow> (Inl e, st)
      | Inr (input, st1) \<Rightarrow> call_napi ni ri input h st1)"

definition ffi_done :: "nat result \<Rightarrow> nat \<Rightarrow> bytes \<Rightarrow> handler \<Rightarrow> handler" where
  "ffi_done r h c st =
     (let st1 = emit (FfiCall (\<not> isl r)) (write_output h c st)
      in if \<not> isl r then st1\<lparr>hd_ffiFailures := 0\<rparr> else noteFfiFailure st1)"

definition dispatch :: "native_ingress \<Rightarrow> run_input \<Rightarrow> nat \<Rightarrow> handler \<Rightarrow> nat result \<times> handler" where
  "dispatch ni ri h st =
     (if hc_ffi (hd_cfg st) \<and> \<not> hd_ffiDisabled st then
        (case ni_components ni of
           Some components \<Rightarrow>
             (let (r, c) = components (ri_methodKind ri) (ri_url ri) (case ri_ip ri of Some s \<Rightarrow> s | None \<Rightarrow> [])
                             (ri_rid ri) (ri_headers ri) (ri_body ri) (output_of st h);
                  st1 = ffi_done r h c st
              in if \<not> isl r then (r, st1) else napi_rerun ni ri h st1)
         | None \<Rightarrow>
             (case pack_input ri st of
                Inl e \<Rightarrow> (Inl e, st)
              | Inr (input, st1) \<Rightarrow>
                  (let (r, c) = ni_ffiPacked ni input (ri_body ri) (output_of st1 h);
                       st2 = ffi_done r h c st1
                   in if \<not> isl r then (r, st2) else call_napi ni ri input h st2)))
      else napi_rerun ni ri h st)"

section \<open>The callback\<close>

text \<open>\<open>zeroCopyResponse\<close> of \<open>src/src/ingress/response/baked-response.ts\<close>.\<close>

definition zeroCopyResponse :: "handler \<Rightarrow> handler result" where
  "zeroCopyResponse st =
     (case hd_currentHandle st of
        None \<Rightarrow> Inl (JsError ''zeroCopyResponse() can only be called from within a run() callback'')
      | Some h \<Rightarrow>
          (let st1 = st\<lparr>hd_borrows := True\<rparr>;
               slice = \<lparr>sl_buffer = h_buffer (handles (hd_pool st) ! h),
                        sl_byteLength = length (bodyJson_baked False (hd_result st))\<rparr>
           in case pooledBodyResponse (hd_pool st) h slice (hc_zeroCopyTimeoutMs (hd_cfg st)) of
                Inl p \<Rightarrow> Inr (st1\<lparr>hd_pool := p\<rparr>)
              | Inr s \<Rightarrow> Inr (st1\<lparr>hd_stream := Some s\<rparr>)))"

fun run_fn :: "fn_step list \<Rightarrow> handler \<Rightarrow> fn_value result \<times> handler" where
  "run_fn [] st = (Inr AValue, st)"
| "run_fn (CallZeroCopy # k) st =
     (case zeroCopyResponse st of Inl e \<Rightarrow> (Inl e, st) | Inr st1 \<Rightarrow> run_fn k st1)"
| "run_fn (CallThrow e # k) st = (Inl e, st)"
| "run_fn (CallReturn v # k) st = (Inr v, st)"

definition assertSyncCallback :: "fn_value \<Rightarrow> unit result" where
  "assertSyncCallback v =
     (if v = AThenable then Inl (JsError ''createIngressHandler().run() callback must be synchronous.'') else Inr ())"

section \<open>One request\<close>

text \<open>The inner \<open>try\<close>: what the native side made of the request, or an internal error in the result.\<close>

definition native_call_phase :: "native_ingress \<Rightarrow> run_input \<Rightarrow> handler \<Rightarrow> unit result \<times> nat option \<times> handler" where
  "native_call_phase ni ri st =
     (case acquire_output st of
        Inl e \<Rightarrow> (Inl e, None, st)
      | Inr (h, st1) \<Rightarrow>
          (case dispatch ni ri h st1 of
             (Inl e, st2) \<Rightarrow> (Inl e, Some h, st2)
           | (Inr written, st2) \<Rightarrow>
               (case refresh_baked (output_of st2 h) (case ri_body ri of Some b \<Rightarrow> b | None \<Rightarrow> []) written (hd_result st2) of
                  Inl e \<Rightarrow> (Inl e, Some h, st2)
                | Inr r \<Rightarrow> (Inr (), Some h, st2\<lparr>hd_result := r\<rparr>))))"

definition call_onError :: "run_env \<Rightarrow> nat \<Rightarrow> jsstring \<Rightarrow> handler \<Rightarrow> unit result \<times> handler" where
  "call_onError env k rid st =
     (if hc_onError (hd_cfg st)
      then (case re_onError env k of
              Some e \<Rightarrow> (Inl e, emit (OnError rid) st)
            | None \<Rightarrow> (Inr (), (if hc_logger (hd_cfg st) then emit (LogError rid) else id) (emit (OnError rid) st)))
      else (Inr (), (if hc_logger (hd_cfg st) then emit (LogError rid) else id) st))"

text \<open>Lines 499 to 585: the second component is the local variable \<open>handle\<close>.\<close>

definition native_phase :: "run_env \<Rightarrow> run_input \<Rightarrow> jsstring \<Rightarrow> handler \<Rightarrow> unit result \<times> nat option \<times> handler" where
  "native_phase env ri rid st =
     (case native_call_phase (re_native env) ri st of
        (Inr _, h, st1) \<Rightarrow> (Inr (), h, st1)
      | (Inl e, h, st1) \<Rightarrow>
          (let (r, st2) = call_onError env 0 rid (st1\<lparr>hd_result := setInternalError (hd_result st1)\<rparr>)
           in (r, h, st2)))"

definition report :: "run_env \<Rightarrow> jsstring \<Rightarrow> fn_value \<Rightarrow> handler \<Rightarrow> unit result \<times> handler" where
  "report env rid out st =
     (let c = hd_cfg st; code = (case out of AResponse s \<Rightarrow> s | _ \<Rightarrow> safeTerminalStatus (hd_result st));
          logged = (\<lambda>st'. if hc_logger c then emit (LogRequest rid code) st' else st')
      in if hc_onResponse c
         then (case re_onResponse env of
                 Some e \<Rightarrow> (Inl e, emit (OnResponse rid code) st)
               | None \<Rightarrow> (Inr (), logged (emit (OnResponse rid code) st)))
         else (Inr (), logged st))"

text \<open>Lines 587 to 616, with the inner \<open>finally\<close>.\<close>

definition callback_phase :: "run_env \<Rightarrow> jsstring \<Rightarrow> route_fn \<Rightarrow> handler \<Rightarrow> fn_value result \<times> handler" where
  "callback_phase env rid fn st =
     (let (out, st1) =
        (case run_fn (fn (hd_result st) (hd_ctx st)) st of
           (Inl e, st1) \<Rightarrow> (Inl e, st1)
         | (Inr v, st1) \<Rightarrow>
             (case assertSyncCallback v of
                Inl e \<Rightarrow> (Inl e, st1)
              | Inr _ \<Rightarrow> (case report env rid v st1 of (Inl e, st2) \<Rightarrow> (Inl e, st2) | (Inr _, st2) \<Rightarrow> (Inr v, st2))))
      in (out, st1\<lparr>hd_result := resetShared (hd_result st1),
                   hd_ctx := \<lparr>cx_requestIdHeader = None, cx_origin = None\<rparr>\<rparr>))"

definition finish :: "nat option \<Rightarrow> handler \<Rightarrow> handler" where
  "finish h st =
     (let p = (case h of Some x \<Rightarrow> (if hd_borrows st then hd_pool st else release (hd_pool st) x) | None \<Rightarrow> hd_pool st)
      in st\<lparr>hd_pool := p, hd_currentHandle := None\<rparr>)"

text \<open>Lines 617 to 641: the outer \<open>catch\<close>, whose error is what \<open>run\<close> throws unless \<open>onError\<close> throws itself.\<close>

definition escape_phase :: "run_env \<Rightarrow> nat \<Rightarrow> jsstring \<Rightarrow> js_error \<Rightarrow> nat option \<Rightarrow> handler \<Rightarrow> js_error \<times> nat option \<times> handler" where
  "escape_phase env k rid e h st =
     (let (h1, st1) = (case h of
             Some x \<Rightarrow> (if hd_borrows st
               then (None, st\<lparr>hd_pool := release (hd_pool st) x, hd_borrows := False\<rparr>) else (h, st))
           | None \<Rightarrow> (None, st));
          (r, st2) = call_onError env k rid st1
      in ((case r of Inl e' \<Rightarrow> e' | Inr _ \<Rightarrow> e), h1, st2))"

definition onError_calls :: "run_event list \<Rightarrow> nat" where
  "onError_calls es = length (filter (\<lambda>e. case e of OnError _ \<Rightarrow> True | _ \<Rightarrow> False) es)"

text \<open>Lines 485 to 616: the outer \<open>try\<close>, with the local variable \<open>handle\<close> as it leaves it.\<close>

definition outer_try :: "run_env \<Rightarrow> http_request \<Rightarrow> nat \<Rightarrow> jsstring option \<Rightarrow> bytes option \<Rightarrow> route_fn \<Rightarrow> bytes \<Rightarrow> jsstring
    \<Rightarrow> handler \<Rightarrow> fn_value result \<times> nat option \<times> handler" where
  "outer_try env req methodKind ip body fn ridBytes rid st =
     (case gatherRawHeadersPacked (hr_headers req) (hc_headerPlan (hd_cfg st)) methodKind (Some (cx_origin (hd_ctx st))) (hd_scratch st) of
        Inl e \<Rightarrow> (Inl e, None, st)
      | Inr (packedHeaders, sc) \<Rightarrow>
          (let ri = \<lparr>ri_methodKind = methodKind,
                     ri_url = (if hc_urlNeeded (hd_cfg st) then hr_url req else []),
                     ri_ip = (if hc_ipNeeded (hd_cfg st) then ip else None),
                     ri_rid = ridBytes, ri_headers = packedHeaders, ri_body = body\<rparr>
           in case native_phase env ri rid (st\<lparr>hd_scratch := sc\<rparr>) of
                (Inl e, h, st1) \<Rightarrow> (Inl e, h, st1)
              | (Inr _, h, st1) \<Rightarrow> (let (out, st2) = callback_phase env rid fn st1 in (out, h, st2))))"

definition run_body :: "run_env \<Rightarrow> http_request \<Rightarrow> nat \<Rightarrow> jsstring option \<Rightarrow> bytes option \<Rightarrow> route_fn \<Rightarrow> bytes \<Rightarrow> jsstring
    \<Rightarrow> handler \<Rightarrow> fn_value result \<times> handler" where
  "run_body env req methodKind ip body fn ridBytes rid st =
     (case outer_try env req methodKind ip body fn ridBytes rid st of
        (Inr v, h, st1) \<Rightarrow> (Inr v, finish h st1)
      | (Inl e, h, st1) \<Rightarrow>
          (let (e', h', st2) = escape_phase env (onError_calls (hd_events st1) - onError_calls (hd_events st)) rid e h st1
           in (Inl e', finish h' st2)))"

definition run :: "run_env \<Rightarrow> http_request \<Rightarrow> jsstring option \<Rightarrow> bytes option \<Rightarrow> route_fn \<Rightarrow> handler \<Rightarrow> fn_value result \<times> handler" where
  "run env req ip body fn st0 =
     (let c = hd_cfg st0;
          methodKind = kind_of (hr_method req);
          (ridBytes, ids) = generateRequestId (hd_ids st0);
          rid = (if needRequestIdString c then node_decodeUtf8 ridBytes else []);
          ctx = \<lparr>cx_requestIdHeader = (if hc_emitRequestIdHeader c then Some rid else None),
                 cx_origin = (if pl_cors (hc_headerPlan c) then hr_headers req ''origin'' else None)\<rparr>;
          st1 = st0\<lparr>hd_ids := ids, hd_ctx := ctx\<rparr>;
          st2 = (if hc_onRequest c then emit (OnRequest rid) st1 else st1);
          st3 = st2\<lparr>hd_currentHandle := None, hd_borrows := False, hd_stream := None\<rparr>
      in case (if hc_onRequest c then re_onRequest env else None) of
           Some e \<Rightarrow> (Inl e, st2)
         | None \<Rightarrow> run_body env req methodKind ip body fn ridBytes rid st3)"

section \<open>Construction\<close>

record handler_options = plan_options +
  ho_limit :: "rat option"
  ho_parseQuery :: bool
  ho_emitMetadataJson :: bool
  ho_allowOrigin :: "jsstring list option"

record runtime_options =
  ru_emitRequestIdHeader :: bool
  ru_outputBufferSize :: "rat option"
  ru_onRequest :: bool
  ru_onResponse :: bool
  ru_onError :: bool
  ru_structuredLog :: bool
  ru_logger :: bool
  ru_maxInFlight :: "rat option"
  ru_zeroCopyTimeoutMs :: "nat option"

definition RATE_LIMIT_U32_MAX :: rat where "RATE_LIMIT_U32_MAX = 4294967295"
definition PREWARM_POOL_BUFFERS :: rat where "PREWARM_POOL_BUFFERS = 16"
definition PREWARM_POOL_BYTES :: rat where "PREWARM_POOL_BYTES = 4 * 1024 * 1024"

definition rateEnabled :: "'a handler_options_scheme \<Rightarrow> bool" where
  "rateEnabled o' = (case ho_limit o' of None \<Rightarrow> False | Some l \<Rightarrow> l \<noteq> RATE_LIMIT_U32_MAX \<and> 0 < l)"

definition handler_plan :: "'a handler_options_scheme \<Rightarrow> header_plan" where
  "handler_plan o' = buildHeaderPlan (plan_options.truncate o')"

definition build_config :: "handler_options \<Rightarrow> runtime_options \<Rightarrow> bool \<Rightarrow> handler_config" where
  "build_config o' ru ffi =
     (let trustEnabled = (po_trustProxy o' = Some True \<or> po_trustedEnabled o' = Some True)
      in \<lparr>hc_ffi = ffi,
          hc_urlNeeded = (ho_parseQuery o' \<or> ho_emitMetadataJson o' \<or> po_https o' = None),
          hc_ipNeeded = (rateEnabled o' \<or> trustEnabled),
          hc_headerPlan = handler_plan o',
          hc_emitRequestIdHeader = ru_emitRequestIdHeader ru,
          hc_zeroCopyTimeoutMs = (case ru_zeroCopyTimeoutMs ru of None \<Rightarrow> 0 | Some t \<Rightarrow> t),
          hc_outputBufferSize = clampIngressBufferSize
            (case ru_outputBufferSize ru of None \<Rightarrow> of_nat DEFAULT_BAKED_OUTPUT_BUFFER_SIZE | Some n \<Rightarrow> n) OUT_DATA_START,
          hc_onRequest = ru_onRequest ru, hc_onResponse = ru_onResponse ru, hc_onError = ru_onError ru,
          hc_logger = (ru_logger ru \<or> ru_structuredLog ru)\<rparr>)"

definition exactOrigins :: "jsstring list \<Rightarrow> jsstring list" where
  "exactOrigins os = filter (\<lambda>x. 0 < length x \<and> length x \<le> 512 \<and> 42 \<notin> set x) os"

definition new_baked_result :: ingress_result where
  "new_baked_result = \<lparr>verdict = 0, errorCode = 0, status = 0, headerVariant = 0, rateRemaining = 0,
     rateResetMs = 0, retryAfterMs = 0, terminal = True, ok = False, isPreflight = False,
     corsAllowed = False, rateLimited = False, trustedProxy = False, bodyValidJson = False,
     schemaValid = False, bodyTruncated = False, req_body = [], r_buf = [], r_len = 0,
     r_bodyJsonStart = OUT_DATA_START, r_bodyJsonLen = 0, r_cookiesBuf = None, r_queryBuf = None,
     r_cookiesDecoded = None, r_queryDecoded = None\<rparr>"

text \<open>
  The scratch buffers, the origin cache and the id counter are module state that the handlers of a
  process share: they come in as arguments. Validation of the options, the lookup of the native
  class and the header templates are not part of this definition.
\<close>

definition createIngressHandler :: "handler_options \<Rightarrow> runtime_options \<Rightarrow> bool \<Rightarrow> pack_state \<Rightarrow> id_counter \<Rightarrow> handler result" where
  "createIngressHandler o' ru ffi scratch ids =
     (let c = build_config o' ru ffi;
          pool = new_pool \<lparr>o_initialSize = Some (of_int (hc_outputBufferSize c)), o_maxBuffers = None,
            o_maxInFlight = ru_maxInFlight ru, o_adaptive = False, o_prefill = Some PREWARM_POOL_BUFFERS,
            o_prefillBytes = Some PREWARM_POOL_BYTES\<rparr>
      in rbind (case ho_allowOrigin o' of
                  Some os \<Rightarrow> (if pl_cors (hc_headerPlan c) then prewarmOriginBlocks (exactOrigins os) scratch else Inr scratch)
                | None \<Rightarrow> Inr scratch) (\<lambda>sc.
           Inr \<lparr>hd_cfg = c, hd_pool = pool, hd_mem = (\<lambda>_. new_buf (initialSize pool)), hd_scratch = sc,
                hd_packer = new_packer 65536, hd_ids = ids, hd_ffiFailures = 0, hd_ffiDisabled = False,
                hd_currentHandle = None, hd_borrows = False, hd_stream = None, hd_result = new_baked_result,
                hd_ctx = \<lparr>cx_requestIdHeader = None, cx_origin = None\<rparr>, hd_events = []\<rparr>))"

end
