(* ===== verification/HandlerBuffers.thy ===== *)
theory HandlerBuffers
  imports IngressHandler
begin

text \<open>
  What each phase of a run of \<open>src/src/ingress/handlers.ts\<close> does with the pooled output buffer: it is
  checked out once, only it is written, and it is given back on every way out unless a zero-copy
  response took it over.
\<close>

section \<open>What each phase leaves alone\<close>

lemma emit_sels [simp]:
  "hd_cfg (emit e st) = hd_cfg st" "hd_pool (emit e st) = hd_pool st" "hd_mem (emit e st) = hd_mem st"
  "hd_scratch (emit e st) = hd_scratch st" "hd_packer (emit e st) = hd_packer st" "hd_ids (emit e st) = hd_ids st"
  "hd_ffiFailures (emit e st) = hd_ffiFailures st" "hd_ffiDisabled (emit e st) = hd_ffiDisabled st"
  "hd_currentHandle (emit e st) = hd_currentHandle st" "hd_borrows (emit e st) = hd_borrows st"
  "hd_stream (emit e st) = hd_stream st" "hd_result (emit e st) = hd_result st" "hd_ctx (emit e st) = hd_ctx st"
  "hd_events (emit e st) = hd_events st @ [e]"
  by (simp_all add: emit_def)

text \<open>The fields that the route and the pool care about.\<close>

definition same_owner :: "handler \<Rightarrow> handler \<Rightarrow> bool" where
  "same_owner st st' \<longleftrightarrow> hd_cfg st' = hd_cfg st \<and> hd_pool st' = hd_pool st \<and> hd_currentHandle st' = hd_currentHandle st
     \<and> hd_borrows st' = hd_borrows st \<and> hd_stream st' = hd_stream st \<and> hd_result st' = hd_result st
     \<and> hd_ctx st' = hd_ctx st \<and> hd_scratch st' = hd_scratch st \<and> hd_ids st' = hd_ids st"

lemma same_owner_refl [simp]: "same_owner st st"
  by (simp add: same_owner_def)

lemma same_owner_trans: "same_owner a b \<Longrightarrow> same_owner b c \<Longrightarrow> same_owner a c"
  by (simp add: same_owner_def)

definition touches_only :: "nat \<Rightarrow> handler \<Rightarrow> handler \<Rightarrow> bool" where
  "touches_only h st st' \<longleftrightarrow> same_owner st st' \<and> (\<forall>u. u \<noteq> buf_of (hd_pool st) h \<longrightarrow> hd_mem st' u = hd_mem st u)"

lemma touches_trans: "touches_only h a b \<Longrightarrow> touches_only h b c \<Longrightarrow> touches_only h a c"
  by (auto simp: touches_only_def same_owner_def)

lemma touches_refl [simp]: "touches_only h st st"
  by (simp add: touches_only_def)

lemma touches_pack: "pack_input ri st = Inr (input, st') \<Longrightarrow> touches_only h st st'"
  by (auto simp: pack_input_def rbind_Inr_conv touches_only_def same_owner_def)

lemma touches_write: "touches_only h st (write_output h c st)"
  by (simp add: touches_only_def same_owner_def write_output_def)

lemma touches_napi: "call_napi ni ri input h st = (r, st') \<Longrightarrow> touches_only h st st'"
  by (auto simp: call_napi_def touches_only_def same_owner_def write_output_def split: prod.splits)

lemma touches_rerun: "napi_rerun ni ri h st = (r, st') \<Longrightarrow> touches_only h st st'"
  by (auto simp: napi_rerun_def split: sum.splits prod.splits intro: touches_trans [OF touches_pack touches_napi])

lemma touches_ffi_done: "touches_only h st (ffi_done r h c st)"
  by (simp add: ffi_done_def noteFfiFailure_def Let_def touches_only_def same_owner_def write_output_def)

lemma touches_dispatch:
  assumes "dispatch ni ri h st = (r, st')"
  shows "touches_only h st st'"
proof (cases "hc_ffi (hd_cfg st) \<and> \<not> hd_ffiDisabled st")
  case False
  with assms show ?thesis by (simp add: dispatch_def touches_rerun)
next
  case T: True
  show ?thesis
  proof (cases "ni_components ni")
    case None
    with assms T show ?thesis
      by (auto simp: dispatch_def Let_def split: sum.splits prod.splits if_splits
          intro: touches_trans [OF touches_pack touches_ffi_done] touches_trans [OF touches_trans [OF touches_pack touches_ffi_done] touches_napi])
  next
    case (Some f)
    with assms T show ?thesis
      by (auto simp: dispatch_def Let_def split: prod.splits if_splits
          intro: touches_ffi_done touches_trans [OF touches_ffi_done touches_rerun])
  qed
qed

section \<open>The buffer of a run\<close>

text \<open>
  \<open>others_kept st st'\<close>: every buffer that was checked out before is still where it was, with its contents.
\<close>

definition others_kept :: "handler \<Rightarrow> handler \<Rightarrow> bool" where
  "others_kept st st' \<longleftrightarrow> (\<forall>x \<in> live (hd_pool st). x \<in> live (hd_pool st')
     \<and> buf_of (hd_pool st') x = buf_of (hd_pool st) x \<and> output_of st' x = output_of st x)"

definition checked_out :: "nat \<Rightarrow> handler \<Rightarrow> handler \<Rightarrow> bool" where
  "checked_out h st st' \<longleftrightarrow> pool_inv (hd_pool st') \<and> h \<notin> live (hd_pool st)
     \<and> live (hd_pool st') = insert h (live (hd_pool st)) \<and> hd_currentHandle st' = Some h
     \<and> hd_borrows st' = hd_borrows st \<and> hd_stream st' = hd_stream st \<and> hd_cfg st' = hd_cfg st
     \<and> others_kept st st'"

lemma others_kept_mem:
  assumes "others_kept st st1" and "touches_only h st1 st2" and "pool_inv (hd_pool st1)" and "h \<in> live (hd_pool st1)"
    and "h \<notin> live (hd_pool st)"
  shows "others_kept st st2"
proof -
  have p: "hd_pool st2 = hd_pool st1" using assms(2) by (simp add: touches_only_def same_owner_def)
  have ne: "buf_of (hd_pool st1) x \<noteq> buf_of (hd_pool st1) h" if "x \<in> live (hd_pool st)" for x
  proof -
    have "inj_on (buf_of (hd_pool st1)) (live (hd_pool st1))" using assms(3) by (simp add: pool_inv_def exclusive_def)
    moreover have "x \<in> live (hd_pool st1)" "x \<noteq> h" using assms(1,5) that by (auto simp: others_kept_def)
    ultimately show ?thesis using assms(4) by (simp add: inj_on_eq_iff)
  qed
  then have "output_of st2 x = output_of st1 x" if "x \<in> live (hd_pool st)" for x
    using that assms(2) by (simp add: output_of_def p touches_only_def)
  with assms(1) show ?thesis by (simp add: others_kept_def p)
qed

lemma others_kept_cong:
  "hd_pool st2 = hd_pool st1 \<Longrightarrow> hd_mem st2 = hd_mem st1 \<Longrightarrow> others_kept st st2 = others_kept st st1"
  by (simp only: others_kept_def output_of_def)

lemma checked_out_cong:
  assumes "hd_pool st2 = hd_pool st1" "hd_mem st2 = hd_mem st1" "hd_cfg st2 = hd_cfg st1"
    "hd_currentHandle st2 = hd_currentHandle st1" "hd_borrows st2 = hd_borrows st1" "hd_stream st2 = hd_stream st1"
  shows "checked_out h st st2 = checked_out h st st1"
  by (simp only: checked_out_def others_kept_cong [OF assms(1,2)] assms)

lemma acquire_output_spec:
  assumes inv: "pool_inv (hd_pool st)" and a: "acquire_output st = Inr (h, st')"
  shows "checked_out h st st' \<and> hd_result st' = hd_result st \<and> hd_ctx st' = hd_ctx st"
proof -
  obtain p where q: "acquire (hd_pool st) (of_int (hc_outputBufferSize (hd_cfg st))) = Inr (h, p)"
    and st': "hd_pool st' = p" "hd_currentHandle st' = Some h" "hd_borrows st' = hd_borrows st"
      "hd_stream st' = hd_stream st" "hd_cfg st' = hd_cfg st" "hd_result st' = hd_result st" "hd_ctx st' = hd_ctx st"
      "hd_mem st' = (let b = h_buffer (handles p ! h) in
         if uid b < created (hd_pool st) then hd_mem st else (hd_mem st)(uid b := new_buf (u8array.byteLength b)))"
    using a by (auto simp: acquire_output_def rbind_Inr_conv Let_def)
  note S = acquire_spec [OF inv q]
  have old: "buf_of (hd_pool st) x < created (hd_pool st)" if "x \<in> live (hd_pool st)" for x
    using inv that by (auto simp: pool_inv_def exclusive_def)
  have mem: "hd_mem st' (buf_of (hd_pool st) x) = hd_mem st (buf_of (hd_pool st) x)" if "x \<in> live (hd_pool st)" for x
    using old [OF that] by (auto simp: st'(8) Let_def)
  have "others_kept st st'"
    using S mem by (simp add: others_kept_def output_of_def st'(1))
  with S show ?thesis by (simp add: checked_out_def st')
qed

lemma native_call_phase_spec:
  assumes inv: "pool_inv (hd_pool st)" and n: "native_call_phase ni ri st = (r, ho, st')"
  shows "case ho of None \<Rightarrow> isl r \<and> st' = st | Some h \<Rightarrow> checked_out h st st' \<and> hd_ctx st' = hd_ctx st"
proof (cases "acquire_output st")
  case (Inl e)
  with n show ?thesis by (auto simp: native_call_phase_def)
next
  case (Inr q)
  obtain h st1 where q: "q = (h, st1)" by force
  obtain r2 st2 where d: "dispatch ni ri h st1 = (r2, st2)" by force
  note A = acquire_output_spec [OF inv, of h st1] and T = touches_dispatch [OF d]
  have c1: "checked_out h st st1" "hd_ctx st1 = hd_ctx st" using A Inr q by auto
  have "others_kept st st2"
    by (rule others_kept_mem [OF _ T]) (use c1(1) in \<open>simp_all add: checked_out_def\<close>)
  with c1 T have c2: "checked_out h st st2" "hd_ctx st2 = hd_ctx st"
    by (simp_all add: checked_out_def touches_only_def same_owner_def)
  have c3: "checked_out h st (st2\<lparr>hd_result := x\<rparr>) \<and> hd_ctx (st2\<lparr>hd_result := x\<rparr>) = hd_ctx st" for x
    using c2 checked_out_cong [of "st2\<lparr>hd_result := x\<rparr>" st2] by simp
  show ?thesis
  proof (cases r2)
    case e: (Inl e)
    with n Inr q d have "ho = Some h" "st' = st2" by (simp_all add: native_call_phase_def)
    with c2 show ?thesis by simp
  next
    case w: (Inr w)
    show ?thesis
    proof (cases "refresh_baked (output_of st2 h) (case ri_body ri of Some b \<Rightarrow> b | None \<Rightarrow> []) w (hd_result st2)")
      case e: (Inl e)
      with w n Inr q d have "ho = Some h" "st' = st2" by (simp_all add: native_call_phase_def)
      with c2 show ?thesis by simp
    next
      case x: (Inr x)
      with w n Inr q d have "ho = Some h" "st' = st2\<lparr>hd_result := x\<rparr>" by (simp_all add: native_call_phase_def)
      with c3 [of x] show ?thesis by simp
    qed
  qed
qed

lemma call_onError_owner: "call_onError env k rid st = (r, st') \<Longrightarrow> same_owner st st' \<and> hd_mem st' = hd_mem st"
  by (auto simp: call_onError_def same_owner_def split: if_splits option.splits)

lemma checked_out_owner:
  "checked_out h st st1 \<Longrightarrow> same_owner st1 st2 \<Longrightarrow> hd_mem st2 = hd_mem st1 \<Longrightarrow> checked_out h st st2"
  using checked_out_cong [of st2 st1 h st] by (simp add: same_owner_def)

lemma native_phase_spec:
  assumes inv: "pool_inv (hd_pool st)" and n: "native_phase env ri rid st = (r, ho, st')"
  shows "case ho of None \<Rightarrow> hd_pool st' = hd_pool st \<and> hd_mem st' = hd_mem st \<and> hd_currentHandle st' = hd_currentHandle st
           \<and> hd_borrows st' = hd_borrows st \<and> hd_stream st' = hd_stream st
       | Some h \<Rightarrow> checked_out h st st'"
proof -
  obtain r1 ho1 st1 where c: "native_call_phase (re_native env) ri st = (r1, ho1, st1)" by (cases "native_call_phase (re_native env) ri st") auto
  note S = native_call_phase_spec [OF inv c]
  show ?thesis
  proof (cases r1)
    case (Inr u)
    with n c have "ho = ho1" "st' = st1" by (simp_all add: native_phase_def)
    with S show ?thesis by (cases ho1) simp_all
  next
    case (Inl e)
    let ?st = "st1\<lparr>hd_result := setInternalError (hd_result st1)\<rparr>"
    obtain st2 where e: "call_onError env 0 rid ?st = (r, st2)" and eq: "ho = ho1" "st' = st2"
      using n c Inl by (auto simp: native_phase_def split: prod.splits)
    note O = call_onError_owner [OF e]
    show ?thesis
    proof (cases ho1)
      case None
      with S O show ?thesis by (simp add: eq same_owner_def)
    next
      case (Some h)
      have "checked_out h st ?st" using S Some checked_out_cong [of ?st st1 h st] by simp
      with O have "checked_out h st st2" by (blast intro: checked_out_owner)
      with Some show ?thesis by (simp add: eq)
    qed
  qed
qed

section \<open>The callback and the end of a run\<close>

definition body_view :: "handler \<Rightarrow> nat \<Rightarrow> body_slice" where
  "body_view st h = \<lparr>sl_buffer = h_buffer (handles (hd_pool st) ! h),
     sl_byteLength = length (bodyJson_baked False (hd_result st))\<rparr>"

text \<open>What a callback can have done to the handler: nothing, or handed the buffer to a response.\<close>

definition fn_left :: "nat \<Rightarrow> handler \<Rightarrow> handler \<Rightarrow> bool" where
  "fn_left h st st' \<longleftrightarrow> hd_cfg st' = hd_cfg st \<and> hd_mem st' = hd_mem st \<and> hd_result st' = hd_result st
     \<and> hd_ctx st' = hd_ctx st \<and> hd_events st' = hd_events st \<and> hd_currentHandle st' = Some h
     \<and> (if hd_borrows st'
        then (case hd_stream st' of
                None \<Rightarrow> sl_byteLength (body_view st h) = 0 \<and> hd_pool st' = release (hd_pool st) h
              | Some s \<Rightarrow> hd_pool st' = hd_pool st
                  \<and> pooledBodyResponse (hd_pool st) h (body_view st h) (hc_zeroCopyTimeoutMs (hd_cfg st)) = Inr s)
        else hd_pool st' = hd_pool st \<and> hd_stream st' = None)"

lemma handles_buffer_release: "h < length (handles p) \<Longrightarrow> h_buffer (handles (release p h) ! h) = h_buffer (handles p ! h)"
  by (simp add: release_def returnHandle_def releaseBuffer_def Let_def)

lemma fn_left_pool: "fn_left h st st1 \<Longrightarrow> hd_pool st1 = hd_pool st \<or> hd_pool st1 = release (hd_pool st) h"
  by (auto simp: fn_left_def split: if_splits option.splits)

lemma zeroCopy_left:
  assumes inv: "pool_inv (hd_pool st)" and h: "h < length (handles (hd_pool st))" and l: "fn_left h st st1" and z: "zeroCopyResponse st1 = Inr st2"
  shows "fn_left h st st2"
proof -
  have v: "body_view st1 h = body_view st h"
    using fn_left_pool [OF l] l h by (auto simp: body_view_def fn_left_def handles_buffer_release)
  have cur: "hd_currentHandle st1 = Some h" "hd_cfg st1 = hd_cfg st" using l by (simp_all add: fn_left_def)
  show ?thesis
  proof (cases "sl_byteLength (body_view st h) = 0")
    case True
    then have st2: "st2 = st1\<lparr>hd_borrows := True, hd_pool := release (hd_pool st1) h\<rparr>"
      using z cur v by (simp add: zeroCopyResponse_def pooledBodyResponse_def body_view_def)
    have "hd_stream st1 = None"
      using l True by (cases "hd_stream st1") (auto simp: fn_left_def pooledBodyResponse_def split: if_splits)
    with True l fn_left_pool [OF l] pool_release.rel_idem [of "hd_pool st" h] inv h show ?thesis by (auto simp: fn_left_def st2)
  next
    case False
    then have p: "hd_pool st1 = hd_pool st"
      using l by (cases "hd_stream st1") (auto simp: fn_left_def split: if_splits)
    let ?r = "pooledBodyResponse (hd_pool st) h (body_view st h) (hc_zeroCopyTimeoutMs (hd_cfg st))"
    obtain s where s: "?r = Inr s" using False by (simp add: pooledBodyResponse_def)
    have "st2 = st1\<lparr>hd_borrows := True, hd_stream := Some s\<rparr>"
      using z cur v p s by (simp add: zeroCopyResponse_def body_view_def Let_def)
    with l p s show ?thesis by (simp add: fn_left_def)
  qed
qed

lemma run_fn_left:
  assumes inv: "pool_inv (hd_pool st)" and h: "h < length (handles (hd_pool st))" and "fn_left h st st1" and "run_fn k st1 = (out, st2)"
  shows "fn_left h st st2"
  using assms(3,4)
proof (induction k st1 arbitrary: out st2 rule: run_fn.induct)
  case (2 k st1)
  show ?case
  proof (cases "zeroCopyResponse st1")
    case (Inl e)
    with 2 show ?thesis by simp
  next
    case (Inr st')
    with 2 zeroCopy_left [OF inv h] show ?thesis by simp
  qed
qed simp_all

lemma run_fn_no_handle: "hd_currentHandle st = None \<Longrightarrow> run_fn k st = (out, st') \<Longrightarrow> st' = st"
  by (induction k st arbitrary: out st' rule: run_fn.induct) (auto simp: zeroCopyResponse_def)

lemma report_owner: "report env rid v st = (r, st') \<Longrightarrow> same_owner st st' \<and> hd_mem st' = hd_mem st"
  by (auto simp: report_def same_owner_def Let_def split: if_splits option.splits)

text \<open>Hooks and the clearing of the decoder do not touch the buffers.\<close>

definition same_buffers :: "handler \<Rightarrow> handler \<Rightarrow> bool" where
  "same_buffers st st' \<longleftrightarrow> hd_pool st' = hd_pool st \<and> hd_mem st' = hd_mem st \<and> hd_borrows st' = hd_borrows st
     \<and> hd_stream st' = hd_stream st \<and> hd_cfg st' = hd_cfg st"

lemma same_buffers_owner: "same_owner st st' \<and> hd_mem st' = hd_mem st \<Longrightarrow> same_buffers st st'"
  by (simp add: same_buffers_def same_owner_def)

lemma callback_phase_buffers:
  assumes "callback_phase env rid fn st = (out, st')"
  obtains r st1 where "run_fn (fn (hd_result st) (hd_ctx st)) st = (r, st1)" and "same_buffers st1 st'"
proof -
  obtain r st1 where r: "run_fn (fn (hd_result st) (hd_ctx st)) st = (r, st1)" by force
  have "same_buffers st1 st'"
  proof (cases r)
    case (Inl e)
    with assms r show ?thesis by (auto simp: callback_phase_def same_buffers_def)
  next
    case (Inr v)
    obtain r2 st2 where p: "report env rid v st1 = (r2, st2)" by force
    note O = same_buffers_owner [OF report_owner [OF p]]
    show ?thesis
    proof (cases "assertSyncCallback v")
      case e: (Inl e)
      with assms r Inr show ?thesis by (auto simp: callback_phase_def same_buffers_def)
    next
      case u: (Inr u)
      with assms r Inr p O show ?thesis by (cases r2) (auto simp: callback_phase_def same_buffers_def)
    qed
  qed
  with r show ?thesis by (rule that)
qed

text \<open>How a run ends: thrown, the buffer is back; returned, it is back unless a response has it.\<close>

definition settled :: "handler \<Rightarrow> fn_value result \<Rightarrow> handler \<Rightarrow> bool" where
  "settled st out st' \<longleftrightarrow> pool_inv (hd_pool st') \<and> hd_currentHandle st' = None \<and> others_kept st st'
     \<and> (case out of
          Inl e \<Rightarrow> live (hd_pool st') = live (hd_pool st)
        | Inr v \<Rightarrow> (case hd_stream st' of
              None \<Rightarrow> live (hd_pool st') = live (hd_pool st)
            | Some s \<Rightarrow> bs_handle s \<notin> live (hd_pool st)
                \<and> live (hd_pool st') = insert (bs_handle s) (live (hd_pool st))
                \<and> resp_inv (s\<lparr>bs_pool := hd_pool st'\<rparr>)))"

lemma release_checked_out:
  assumes c: "checked_out h st st1" and p: "hd_pool st2 = release (hd_pool st1) h" and m: "hd_mem st2 = hd_mem st1"
  shows "pool_inv (hd_pool st2) \<and> live (hd_pool st2) = live (hd_pool st) \<and> others_kept st st2"
proof -
  have l: "h \<in> live (hd_pool st1)" "h \<notin> live (hd_pool st)" "pool_inv (hd_pool st1)" "live (hd_pool st1) = insert h (live (hd_pool st))"
    using c by (simp_all add: checked_out_def)
  have b: "buf_of (hd_pool st2) x = buf_of (hd_pool st1) x" for x
    using buf_of_release [OF live_bound [OF l(1)]] by (simp add: p)
  have "live (hd_pool st2) = live (hd_pool st)" "pool_inv (hd_pool st2)"
    using release_spec [OF l(3,1)] l(2,4) by (auto simp: p)
  moreover have "output_of st2 x = output_of st1 x" for x by (simp add: output_of_def b m)
  then have "others_kept st st2"
    using c calculation(1) by (simp add: checked_out_def others_kept_def b)
  ultimately show ?thesis by simp
qed

lemma released_twice:
  assumes "checked_out h st st1"
  shows "release (release (hd_pool st1) h) h = release (hd_pool st1) h"
  using assms live_bound [of h "hd_pool st1"] pool_release.rel_idem [of "hd_pool st1" h] by (simp add: checked_out_def)

lemma finish_sels [simp]: "hd_mem (finish h st) = hd_mem st" "hd_stream (finish h st) = hd_stream st"
  "hd_currentHandle (finish h st) = None"
  by (simp_all add: finish_def Let_def)

lemma finish_pool: "hd_pool (finish (Some h) st) = (if hd_borrows st then hd_pool st else release (hd_pool st) h)"
  "hd_pool (finish None st) = hd_pool st"
  by (simp_all add: finish_def Let_def)

text \<open>A buffer that the callback saw, possibly handed over, and then the callback threw.\<close>

lemma escape_settled:
  assumes c: "checked_out h st st1" and l: "fn_left h st1 st2" and b: "same_buffers st2 st3"
    and e: "escape_phase env k rid err (Some h) st3 = (err', h', st4)"
  shows "settled st (Inl err') (finish h' st4)"
proof -
  let ?p = "release (hd_pool st1) h"
  define st3' where "st3' = (if hd_borrows st3 then st3\<lparr>hd_pool := release (hd_pool st3) h, hd_borrows := False\<rparr> else st3)"
  obtain r where o: "call_onError env k rid st3' = (r, st4)" and h': "h' = (if hd_borrows st3 then None else Some h)"
    using e by (auto simp: escape_phase_def st3'_def Let_def split: prod.splits if_splits)
  note O = call_onError_owner [OF o]
  have m: "hd_mem (finish h' st4) = hd_mem st1"
    using O l b by (simp add: st3'_def same_buffers_def fn_left_def same_owner_def)
  have p3: "hd_pool st3 = hd_pool st1 \<or> hd_pool st3 = ?p" using fn_left_pool [OF l] b by (simp add: same_buffers_def)
  have "hd_pool (finish h' st4) = ?p"
  proof (cases "hd_borrows st3")
    case True
    with O h' p3 released_twice [OF c] show ?thesis by (auto simp: finish_pool st3'_def same_owner_def)
  next
    case False
    with l b have "hd_pool st3 = hd_pool st1" by (simp add: fn_left_def same_buffers_def)
    with O h' False show ?thesis by (simp add: finish_pool st3'_def same_owner_def)
  qed
  from release_checked_out [OF c this m] show ?thesis by (simp add: settled_def)
qed

lemma return_settled:
  assumes c: "checked_out h st st1" and n: "\<not> hd_borrows st" "hd_stream st = None" and l: "fn_left h st1 st2"
    and b: "same_buffers st2 st3"
  shows "settled st (Inr v) (finish (Some h) st3)"
proof -
  have m: "hd_mem st3 = hd_mem st1" using l b by (simp add: fn_left_def same_buffers_def)
  have hl: "h \<in> live (hd_pool st1)" "pool_inv (hd_pool st1)" "h \<notin> live (hd_pool st)"
    using c by (simp_all add: checked_out_def)
  show ?thesis
  proof (cases "hd_stream st3")
    case None
    have "hd_pool (finish (Some h) st3) = release (hd_pool st1) h"
      using l b None by (auto simp: finish_pool fn_left_def same_buffers_def split: if_splits)
    from release_checked_out [OF c this] m None show ?thesis by (simp add: settled_def)
  next
    case (Some s)
    have "hd_stream st2 = Some s" using b Some by (simp add: same_buffers_def)
    then have bo: "hd_borrows st3" and p: "hd_pool st3 = hd_pool st1"
      and s: "pooledBodyResponse (hd_pool st1) h (body_view st1 h) (hc_zeroCopyTimeoutMs (hd_cfg st1)) = Inr s"
      using l b by (auto simp: fn_left_def same_buffers_def split: if_splits)
    have sh: "bs_handle s = h" "bs_pool s = hd_pool st1"
      using s by (auto simp: pooledBodyResponse_def start_body_def split: if_splits)
    have se: "s\<lparr>bs_pool := hd_pool st1\<rparr> = s" using sh(2) by (cases s) simp
    have "resp_inv (s\<lparr>bs_pool := hd_pool st1\<rparr>)"
      unfolding se by (rule resp_start_inv [OF hl(2,1) _ s]) (simp add: buf_of_def body_view_def)
    moreover have "others_kept st (finish (Some h) st3)"
      using c others_kept_cong [of "finish (Some h) st3" st1 st] bo p m by (simp add: checked_out_def finish_pool)
    ultimately show ?thesis using c Some bo p sh(1) by (simp add: settled_def finish_pool checked_out_def)
  qed
qed

lemma no_buffer_settled:
  assumes "pool_inv (hd_pool st)" and "hd_pool st' = hd_pool st" and "hd_mem st' = hd_mem st"
    and "hd_currentHandle st' = None" and "hd_stream st' = None"
  shows "settled st out st'"
  using assms by (simp add: settled_def others_kept_def output_of_def split: sum.splits)

lemma escape_no_buffer:
  assumes "escape_phase env k rid err None st = (err', h', st')"
  shows "same_owner st (st'\<lparr>hd_currentHandle := hd_currentHandle st\<rparr>) \<and> hd_mem st' = hd_mem st \<and> h' = None"
  using assms by (auto simp: escape_phase_def same_owner_def dest: call_onError_owner split: prod.splits)

lemma fn_left_start:
  assumes "hd_currentHandle st = Some h" "\<not> hd_borrows st" "hd_stream st = None"
  shows "fn_left h st st"
  using assms by (simp add: fn_left_def)

lemma same_buffers_refl [simp]: "same_buffers st st"
  by (simp add: same_buffers_def)

text \<open>The state at the end of the outer \<open>try\<close>, seen from the start of the run.\<close>

definition held :: "handler \<Rightarrow> nat option \<Rightarrow> handler \<Rightarrow> handler \<Rightarrow> handler \<Rightarrow> bool" where
  "held st ho st1 st2 st3 \<longleftrightarrow>
     (case ho of
        None \<Rightarrow> hd_pool st3 = hd_pool st \<and> hd_mem st3 = hd_mem st \<and> hd_stream st3 = None
      | Some h \<Rightarrow> checked_out h st st1 \<and> fn_left h st1 st2 \<and> same_buffers st2 st3)"

lemma held_return:
  assumes "pool_inv (hd_pool st)" "\<not> hd_borrows st" "hd_stream st = None" "held st ho st1 st2 st3"
  shows "settled st (Inr v) (finish ho st3)"
proof (cases ho)
  case None
  with assms show ?thesis by (intro no_buffer_settled) (simp_all add: held_def finish_pool)
next
  case (Some h)
  with assms return_settled [of h st st1 st2 st3] show ?thesis by (simp add: held_def)
qed

lemma held_escape:
  assumes inv: "pool_inv (hd_pool st)" and l: "held st ho st1 st2 st3"
    and e: "escape_phase env k rid err ho st3 = (err', h', st4)"
  shows "settled st (Inl err') (finish h' st4)"
proof (cases ho)
  case None
  with escape_no_buffer [of env k rid err st3 err' h' st4] e l inv show ?thesis
    by (intro no_buffer_settled) (simp_all add: held_def finish_pool same_owner_def)
next
  case (Some h)
  with l e escape_settled [of h st st1 st2 st3] show ?thesis by (simp add: held_def)
qed

lemma callback_held:
  assumes inv: "pool_inv (hd_pool st)" and fresh: "hd_currentHandle st = None" "\<not> hd_borrows st" "hd_stream st = None"
    and n: "native_phase env ri rid st = (r1, ho, st1)" and cb: "callback_phase env rid fn st1 = (r2, st2)"
  obtains st3 where "held st ho st1 st1 st1" and "held st ho st1 st3 st2"
proof -
  obtain r3 st3 where f: "run_fn (fn (hd_result st1) (hd_ctx st1)) st1 = (r3, st3)" and sb: "same_buffers st3 st2"
    using callback_phase_buffers [OF cb] by blast
  note N = native_phase_spec [OF inv n]
  show ?thesis
  proof (cases ho)
    case None
    with N fresh have c: "hd_currentHandle st1 = None" by simp
    from run_fn_no_handle [OF c f] sb N None fresh show ?thesis by (intro that) (simp_all add: held_def same_buffers_def)
  next
    case (Some h)
    with N have c: "checked_out h st st1" by simp
    then have h: "pool_inv (hd_pool st1)" "h < length (handles (hd_pool st1))" "fn_left h st1 st1"
      using live_bound [of h "hd_pool st1"] fresh fn_left_start [of st1 h] by (simp_all add: checked_out_def)
    from run_fn_left [OF h f] c sb h Some show ?thesis by (intro that) (simp_all add: held_def)
  qed
qed

lemma outer_try_cases:
  assumes "outer_try env req mk ip body fn ridBytes rid st = (out, ho, st')"
  obtains (packing) e where "out = Inl e" "ho = None" "st' = st"
  | (native) ri sc e where "native_phase env ri rid (st\<lparr>hd_scratch := sc\<rparr>) = (Inl e, ho, st')" "out = Inl e"
  | (called) ri sc st1 where "native_phase env ri rid (st\<lparr>hd_scratch := sc\<rparr>) = (Inr (), ho, st1)"
      "callback_phase env rid fn st1 = (out, st')"
proof -
  let ?g = "gatherRawHeadersPacked (hr_headers req) (hc_headerPlan (hd_cfg st)) mk (Some (cx_origin (hd_ctx st))) (hd_scratch st)"
  show ?thesis
  proof (cases ?g)
    case (Inl e)
    with assms packing [of e] show ?thesis by (auto simp: outer_try_def)
  next
    case (Inr q)
    obtain hs sc where q: "q = (hs, sc)" by force
    define ri where "ri = \<lparr>ri_methodKind = mk, ri_url = (if hc_urlNeeded (hd_cfg st) then hr_url req else []),
       ri_ip = (if hc_ipNeeded (hd_cfg st) then ip else None), ri_rid = ridBytes, ri_headers = hs, ri_body = body\<rparr>"
    obtain r1 h1 st1 where n: "native_phase env ri rid (st\<lparr>hd_scratch := sc\<rparr>) = (r1, h1, st1)"
      by (cases "native_phase env ri rid (st\<lparr>hd_scratch := sc\<rparr>)") auto
    obtain r2 st2 where cb: "callback_phase env rid fn st1 = (r2, st2)" by force
    have e: "(out, ho, st') = (case r1 of Inl e \<Rightarrow> (Inl e, h1, st1) | Inr _ \<Rightarrow> (r2, h1, st2))"
      using assms Inr q n cb by (cases r1) (simp_all add: outer_try_def ri_def [symmetric])
    show ?thesis
    proof (cases r1)
      case (Inl e')
      with e n native [of ri sc e'] show ?thesis by simp
    next
      case (Inr u)
      with e n cb called [of ri sc st1] show ?thesis by simp
    qed
  qed
qed

lemma outer_try_held:
  assumes inv: "pool_inv (hd_pool st)" and fresh: "hd_currentHandle st = None" "\<not> hd_borrows st" "hd_stream st = None"
    and t: "outer_try env req mk ip body fn ridBytes rid st = (out, ho, st')"
  obtains st1 st2 where "held st ho st1 st2 st'"
proof -
  have sc: "held (st\<lparr>hd_scratch := sc\<rparr>) a b c d = held st a b c d" for sc a b c d
    by (simp add: held_def checked_out_def others_kept_def output_of_def split: option.splits)
  have inv': "pool_inv (hd_pool (st\<lparr>hd_scratch := sc\<rparr>))" "hd_currentHandle (st\<lparr>hd_scratch := sc\<rparr>) = None"
    "\<not> hd_borrows (st\<lparr>hd_scratch := sc\<rparr>)" "hd_stream (st\<lparr>hd_scratch := sc\<rparr>) = None" for sc
    using inv fresh by simp_all
  from t show ?thesis
  proof (cases rule: outer_try_cases)
    case (packing e)
    with fresh that [of st st] show ?thesis by (simp add: held_def)
  next
    case (native ri sc e)
    obtain r2 st2 where "callback_phase env rid fn st' = (r2, st2)" by force
    from callback_held [OF inv' native(1) this] that show ?thesis by (auto simp: sc)
  next
    case (called ri sc st1)
    from callback_held [OF inv' called] that show ?thesis by (auto simp: sc)
  qed
qed

lemma run_body_settled:
  assumes inv: "pool_inv (hd_pool st)" and fresh: "hd_currentHandle st = None" "\<not> hd_borrows st" "hd_stream st = None"
    and r: "run_body env req mk ip body fn ridBytes rid st = (out, st')"
  shows "settled st out st'"
proof -
  obtain res ho st3 where t: "outer_try env req mk ip body fn ridBytes rid st = (res, ho, st3)"
    by (cases "outer_try env req mk ip body fn ridBytes rid st") auto
  obtain st1 st2 where h: "held st ho st1 st2 st3" using outer_try_held [OF inv fresh t] .
  show ?thesis
  proof (cases res)
    case (Inr v)
    with r t have "out = Inr v" "st' = finish ho st3" by (simp_all add: run_body_def)
    with held_return [OF inv fresh(2,3) h] show ?thesis by simp
  next
    case (Inl e)
    let ?k = "onError_calls (hd_events st3) - onError_calls (hd_events st)"
    obtain e' h' st4 where x: "escape_phase env ?k rid e ho st3 = (e', h', st4)"
      by (cases "escape_phase env ?k rid e ho st3") auto
    with r t Inl have "out = Inl e'" "st' = finish h' st4" by (simp_all add: run_body_def)
    with held_escape [OF inv h x] show ?thesis by simp
  qed
qed

end
