(* ===== verification/HandlerBreaker.thy ===== *)
theory HandlerBreaker
  imports HandlerBuffers
begin

text \<open>
  The circuit breaker of \<open>src/src/ingress/handlers.ts\<close> over the history of calls: its counter is the
  length of the current run of failures over the foreign interface, and it never resets once tripped.
\<close>

section \<open>The breaker's history\<close>

definition ffi_log :: "run_event list \<Rightarrow> bool list" where
  "ffi_log es = concat (map (\<lambda>e. case e of FfiCall b \<Rightarrow> [b] | _ \<Rightarrow> []) es)"

lemma ffi_log_append [simp]: "ffi_log (xs @ ys) = ffi_log xs @ ffi_log ys"
  by (simp add: ffi_log_def)

lemma ffi_log_Cons [simp]:
  "ffi_log (OnRequest r # es) = ffi_log es" "ffi_log (OnResponse r k # es) = ffi_log es" "ffi_log (OnError r # es) = ffi_log es"
  "ffi_log (LogRequest r k # es) = ffi_log es" "ffi_log (LogError r # es) = ffi_log es" "ffi_log (NapiCall b # es) = ffi_log es"
  "ffi_log (FfiCall b # es) = b # ffi_log es" "ffi_log [] = []"
  by (simp_all add: ffi_log_def)

definition failing_tail :: "bool list \<Rightarrow> nat" where
  "failing_tail bs = length (takeWhile Not (rev bs))"

lemma failing_tail_snoc [simp]: "failing_tail (bs @ [b]) = (if b then 0 else failing_tail bs + 1)"
  by (simp add: failing_tail_def)

definition trips_late :: "bool list \<Rightarrow> bool" where
  "trips_late bs \<longleftrightarrow> (\<exists>i. i + MAX_FFI_FAILURES < length bs \<and> (\<forall>j < MAX_FFI_FAILURES. \<not> bs ! (i + j)))"

definition breaker_ok :: "handler \<Rightarrow> bool" where
  "breaker_ok st \<longleftrightarrow> hd_ffiFailures st = failing_tail (ffi_log (hd_events st))
     \<and> (hd_ffiDisabled st \<longleftrightarrow> MAX_FFI_FAILURES \<le> hd_ffiFailures st)
     \<and> \<not> trips_late (ffi_log (hd_events st))"

lemma failing_tail_nth: "k < failing_tail bs \<Longrightarrow> \<not> bs ! (length bs - 1 - k)"
proof -
  assume k: "k < failing_tail bs"
  then have "k < length bs" using length_takeWhile_le [of Not "rev bs"] by (simp add: failing_tail_def)
  moreover have "takeWhile Not (rev bs) ! k = rev bs ! k" using k by (intro takeWhile_nth) (simp add: failing_tail_def)
  moreover have "takeWhile Not (rev bs) ! k \<in> set (takeWhile Not (rev bs))" using k by (simp add: failing_tail_def)
  then have "\<not> takeWhile Not (rev bs) ! k" by (rule set_takeWhileD [THEN conjunct2])
  ultimately show ?thesis by (simp add: rev_nth)
qed

lemma all_failed_tail:
  assumes "n \<le> length bs" "\<forall>j < n. \<not> bs ! (length bs - n + j)"
  shows "n \<le> failing_tail bs"
proof -
  have "\<not> rev bs ! k" if "k < n" for k
    using assms that spec [OF assms(2), of "n - 1 - k"] by (simp add: rev_nth)
  then have "takeWhile Not (take n (rev bs)) = take n (rev bs)"
    using assms(1) by (subst takeWhile_eq_all_conv) (auto simp: in_set_conv_nth)
  then have "takeWhile Not (take n (rev bs) @ drop n (rev bs)) = take n (rev bs) @ takeWhile Not (drop n (rev bs))"
    by (intro takeWhile_append2) (metis set_takeWhileD)
  then show ?thesis using assms(1) by (simp add: failing_tail_def)
qed

lemma trips_late_snoc:
  assumes "\<not> trips_late bs" and "failing_tail bs < MAX_FFI_FAILURES"
  shows "\<not> trips_late (bs @ [b])"
proof
  assume "trips_late (bs @ [b])"
  then obtain i where i: "i + MAX_FFI_FAILURES \<le> length bs" and f: "\<forall>j < MAX_FFI_FAILURES. \<not> (bs @ [b]) ! (i + j)"
    by (auto simp: trips_late_def less_Suc_eq_le)
  have f': "\<forall>j < MAX_FFI_FAILURES. \<not> bs ! (i + j)" using f i by (auto simp: nth_append)
  show False
  proof (cases "i + MAX_FFI_FAILURES < length bs")
    case True
    with f' assms(1) show False by (auto simp: trips_late_def)
  next
    case False
    with i have "i = length bs - MAX_FFI_FAILURES" by simp
    with f' i all_failed_tail [of MAX_FFI_FAILURES bs] assms(2) show False by simp
  qed
qed

text \<open>A phase either makes no call through the foreign interface or one, while the breaker is closed.\<close>

definition breaker_same :: "handler \<Rightarrow> handler \<Rightarrow> bool" where
  "breaker_same st st' \<longleftrightarrow> hd_ffiFailures st' = hd_ffiFailures st \<and> hd_ffiDisabled st' = hd_ffiDisabled st
     \<and> ffi_log (hd_events st') = ffi_log (hd_events st)"

lemma breaker_same_refl [simp]: "breaker_same st st"
  by (simp add: breaker_same_def)

lemma breaker_same_trans: "breaker_same a b \<Longrightarrow> breaker_same b c \<Longrightarrow> breaker_same a c"
  by (simp add: breaker_same_def)

lemma breaker_same_ok: "breaker_same st st' \<Longrightarrow> breaker_ok st' = breaker_ok st"
  by (simp add: breaker_same_def breaker_ok_def)

lemma breaker_pack: "pack_input ri st = Inr (input, st') \<Longrightarrow> breaker_same st st'"
  by (auto simp: pack_input_def rbind_Inr_conv breaker_same_def)

lemma breaker_napi: "call_napi ni ri input h st = (r, st') \<Longrightarrow> breaker_same st st'"
  by (auto simp: call_napi_def breaker_same_def write_output_def split: prod.splits)

lemma breaker_rerun: "napi_rerun ni ri h st = (r, st') \<Longrightarrow> breaker_same st st'"
  by (auto simp: napi_rerun_def split: sum.splits prod.splits intro: breaker_same_trans [OF breaker_pack breaker_napi])

lemma breaker_ffi_done: "breaker_ok st \<Longrightarrow> \<not> hd_ffiDisabled st \<Longrightarrow> breaker_ok (ffi_done r h c st)"
  using trips_late_snoc [of "ffi_log (hd_events st)"]
  by (auto simp: breaker_ok_def ffi_done_def noteFfiFailure_def write_output_def Let_def MAX_FFI_FAILURES_def)

lemma breaker_dispatch:
  assumes ok: "breaker_ok st" and d: "dispatch ni ri h st = (r, st')"
  shows "breaker_ok st' \<and> (hd_ffiDisabled st \<longrightarrow> breaker_same st st')"
proof (cases "hc_ffi (hd_cfg st) \<and> \<not> hd_ffiDisabled st")
  case False
  with d breaker_rerun [of ni ri h st r st'] breaker_same_ok [of st st'] ok show ?thesis
    by (simp add: dispatch_def)
next
  case T: True
  then have "breaker_ok st'"
  proof (cases "ni_components ni")
    case (Some f)
    with d T ok breaker_ffi_done [OF ok] show ?thesis
      by (auto simp: dispatch_def Let_def breaker_same_ok dest: breaker_rerun split: prod.splits if_splits)
  next
    case None
    show ?thesis
    proof (cases "pack_input ri st")
      case (Inl e)
      with d T None ok show ?thesis by (simp add: dispatch_def)
    next
      case (Inr q)
      obtain input st1 where q: "q = (input, st1)" by force
      obtain r1 c where n: "ni_ffiPacked ni input (ri_body ri) (output_of st1 h) = (r1, c)" by force
      have b: "breaker_same st st1" using Inr q breaker_pack by blast
      then have k: "breaker_ok (ffi_done r1 h c st1)"
        using ok T breaker_same_ok [OF b] by (intro breaker_ffi_done) (simp_all add: breaker_same_def)
      show ?thesis
      proof (cases "isl r1")
        case True
        then have "call_napi ni ri input h (ffi_done r1 h c st1) = (r, st')"
          using d T None Inr q n by (simp add: dispatch_def)
        from breaker_same_ok [OF breaker_napi [OF this]] k show ?thesis by simp
      next
        case False
        then have "st' = ffi_done r1 h c st1" using d T None Inr q n by (auto simp: dispatch_def)
        with k show ?thesis by simp
      qed
    qed
  qed
  with T show ?thesis by simp
qed

definition breaker_next :: "handler \<Rightarrow> handler \<Rightarrow> bool" where
  "breaker_next st st' \<longleftrightarrow> (breaker_ok st \<longrightarrow> breaker_ok st') \<and> (breaker_ok st \<and> hd_ffiDisabled st \<longrightarrow> breaker_same st st')"

lemma breaker_next_same: "breaker_same st st' \<Longrightarrow> breaker_next st st'"
  by (simp add: breaker_next_def breaker_same_ok)

lemma breaker_next_trans: "breaker_next a b \<Longrightarrow> breaker_next b c \<Longrightarrow> breaker_next a c"
  by (auto simp: breaker_next_def breaker_same_def)

lemma breaker_next_dispatch: "dispatch ni ri h st = (r, st') \<Longrightarrow> breaker_next st st'"
  using breaker_dispatch by (auto simp: breaker_next_def)

lemma breaker_acquire: "acquire_output st = Inr (h, st') \<Longrightarrow> breaker_same st st'"
  by (auto simp: acquire_output_def rbind_Inr_conv breaker_same_def Let_def)

lemma breaker_call_phase:
  assumes n: "native_call_phase ni ri st = (r, ho, st')"
  shows "breaker_next st st'"
proof (cases "acquire_output st")
  case (Inl e)
  with n show ?thesis by (simp add: native_call_phase_def breaker_next_same)
next
  case (Inr q)
  obtain h st1 where q: "q = (h, st1)" by force
  obtain r2 st2 where d: "dispatch ni ri h st1 = (r2, st2)" by force
  have n2: "breaker_next st st2"
    using Inr q by (intro breaker_next_trans [OF breaker_next_same breaker_next_dispatch [OF d]] breaker_acquire) simp
  have "breaker_same st2 st'"
    using n Inr q d by (auto simp: native_call_phase_def breaker_same_def split: sum.splits)
  with n2 show ?thesis by (blast intro: breaker_next_trans breaker_next_same)
qed

lemma breaker_onError: "call_onError env k rid st = (r, st') \<Longrightarrow> breaker_same st st'"
  by (auto simp: call_onError_def breaker_same_def split: if_splits option.splits)

lemma breaker_native_phase:
  assumes n: "native_phase env ri rid st = (r, ho, st')"
  shows "breaker_next st st'"
proof -
  obtain r1 ho1 st1 where c: "native_call_phase (re_native env) ri st = (r1, ho1, st1)"
    by (cases "native_call_phase (re_native env) ri st") auto
  have "breaker_same st1 st'"
  proof (cases r1)
    case (Inl e)
    obtain r2 st2 where o: "call_onError env 0 rid (st1\<lparr>hd_result := setInternalError (hd_result st1)\<rparr>) = (r2, st2)" by force
    with n c Inl breaker_onError [OF o] show ?thesis by (simp add: native_phase_def breaker_same_def)
  next
    case (Inr u)
    with n c show ?thesis by (simp add: native_phase_def)
  qed
  with breaker_call_phase [OF c] show ?thesis by (blast intro: breaker_next_trans breaker_next_same)
qed

lemma breaker_zeroCopy: "zeroCopyResponse st = Inr st' \<Longrightarrow> breaker_same st st'"
  by (auto simp: zeroCopyResponse_def breaker_same_def Let_def split: option.splits sum.splits)

lemma breaker_run_fn: "run_fn k st = (out, st') \<Longrightarrow> breaker_same st st'"
proof (induction k st arbitrary: out st' rule: run_fn.induct)
  case (2 k st)
  then show ?case by (cases "zeroCopyResponse st") (auto dest: breaker_zeroCopy intro: breaker_same_trans)
qed simp_all

lemma breaker_report: "report env rid v st = (r, st') \<Longrightarrow> breaker_same st st'"
  by (auto simp: report_def breaker_same_def Let_def split: if_splits option.splits)

lemma breaker_callback:
  assumes "callback_phase env rid fn st = (out, st')"
  shows "breaker_same st st'"
proof -
  obtain r st1 where f: "run_fn (fn (hd_result st) (hd_ctx st)) st = (r, st1)" by force
  have "breaker_same st1 st'"
  proof (cases r)
    case (Inl e)
    with assms f show ?thesis by (auto simp: callback_phase_def breaker_same_def)
  next
    case (Inr v)
    obtain r2 st2 where p: "report env rid v st1 = (r2, st2)" by force
    with assms f Inr breaker_report [OF p] show ?thesis
      by (cases "assertSyncCallback v"; cases r2) (auto simp: callback_phase_def breaker_same_def)
  qed
  with breaker_run_fn [OF f] show ?thesis by (rule breaker_same_trans)
qed

lemma breaker_finish [simp]: "breaker_same st (finish h st)"
  by (simp add: breaker_same_def finish_def Let_def)

lemma breaker_escape: "escape_phase env k rid e ho st = (e', h', st') \<Longrightarrow> breaker_same st st'"
  by (auto simp: escape_phase_def breaker_same_def Let_def dest!: breaker_onError split: prod.splits option.splits if_splits)

lemma breaker_run_body:
  assumes r: "run_body env req mk ip body fn ridBytes rid st = (out, st')"
  shows "breaker_next st st'"
proof -
  obtain res ho st3 where t: "outer_try env req mk ip body fn ridBytes rid st = (res, ho, st3)"
    by (cases "outer_try env req mk ip body fn ridBytes rid st") auto
  have sc: "breaker_next (st\<lparr>hd_scratch := sc\<rparr>) b = breaker_next st b" for sc b
    by (simp add: breaker_next_def breaker_ok_def breaker_same_def)
  have n3: "breaker_next st st3"
    using t
  proof (cases rule: outer_try_cases)
    case (packing e)
    then show ?thesis by (simp add: breaker_next_same)
  next
    case (native ri sc' e)
    from breaker_native_phase [OF native(1)] show ?thesis by (simp add: sc)
  next
    case (called ri sc' st1)
    from breaker_native_phase [OF called(1)] breaker_callback [OF called(2)] show ?thesis
      by (auto simp: sc intro: breaker_next_trans breaker_next_same)
  qed
  have "breaker_same st3 st'"
  proof (cases res)
    case (Inr v)
    with r t show ?thesis by (auto simp: run_body_def)
  next
    case (Inl e)
    let ?k = "onError_calls (hd_events st3) - onError_calls (hd_events st)"
    obtain e' h' st4 where x: "escape_phase env ?k rid e ho st3 = (e', h', st4)"
      by (cases "escape_phase env ?k rid e ho st3") auto
    with r t Inl have "st' = finish h' st4" by (simp add: run_body_def)
    with breaker_escape [OF x] show ?thesis by (auto intro: breaker_same_trans)
  qed
  with n3 show ?thesis by (blast intro: breaker_next_trans breaker_next_same)
qed

lemma run_cases:
  assumes "run env req ip body fn st = (out, st')"
  obtains (hook) e st2 where "out = Inl e" "st' = st2" "same_buffers st st2" "hd_currentHandle st2 = hd_currentHandle st"
      "breaker_same st st2"
  | (body) mk ridBytes rid st3 where "run_body env req mk ip body fn ridBytes rid st3 = (out, st')"
      "hd_pool st3 = hd_pool st" "hd_mem st3 = hd_mem st" "hd_currentHandle st3 = None" "\<not> hd_borrows st3" "hd_stream st3 = None"
      "breaker_same st st3"
proof -
  let ?c = "hd_cfg st"
  obtain ridBytes ids where g: "generateRequestId (hd_ids st) = (ridBytes, ids)" by force
  define rid where "rid = (if needRequestIdString ?c then node_decodeUtf8 ridBytes else [])"
  define st1 where "st1 = st\<lparr>hd_ids := ids, hd_ctx := \<lparr>cx_requestIdHeader = (if hc_emitRequestIdHeader ?c then Some rid else None),
     cx_origin = (if pl_cors (hc_headerPlan ?c) then hr_headers req ''origin'' else None)\<rparr>\<rparr>"
  define st2 where "st2 = (if hc_onRequest ?c then emit (OnRequest rid) st1 else st1)"
  define st3 where "st3 = st2\<lparr>hd_currentHandle := None, hd_borrows := False, hd_stream := None\<rparr>"
  have R: "run env req ip body fn st = (case (if hc_onRequest ?c then re_onRequest env else None) of
      Some e \<Rightarrow> (Inl e, st2) | None \<Rightarrow> run_body env req (kind_of (hr_method req)) ip body fn ridBytes rid st3)"
    unfolding run_def g st3_def st2_def st1_def rid_def by (simp add: Let_def)
  have p: "same_buffers st st2" "breaker_same st st2" "hd_currentHandle st2 = hd_currentHandle st"
    by (simp_all add: st2_def st1_def same_buffers_def breaker_same_def)
  show ?thesis
  proof (cases "if hc_onRequest ?c then re_onRequest env else None")
    case (Some e)
    with assms R have "out = Inl e" "st' = st2" by simp_all
    with p show ?thesis by (intro hook)
  next
    case None
    with assms R have "run_body env req (kind_of (hr_method req)) ip body fn ridBytes rid st3 = (out, st')" by simp
    then show ?thesis by (rule body) (use p in \<open>simp_all add: st3_def same_buffers_def breaker_same_def\<close>)
  qed
qed

lemma breaker_run: "run env req ip body fn st = (out, st') \<Longrightarrow> breaker_next st st'"
  by (erule run_cases) (auto dest: breaker_run_body intro: breaker_next_same breaker_next_trans)

end
