(* ===== verification/HandlerService.thy ===== *)
theory HandlerService
  imports HandlerBreaker
begin

text \<open>
  A handler in service: the states reached by requests and by responses that give their buffers back,
  the transports behind the native call, and the properties of the handler as a whole.
\<close>

section \<open>A handler in service\<close>

text \<open>
  Requests and the release of buffers by the responses that took them over, in any order.
\<close>

inductive handler_reach :: "handler_options \<Rightarrow> runtime_options \<Rightarrow> handler \<Rightarrow> bool" for o' ru where
  hr_start: "createIngressHandler o' ru ffi sc ids = Inr st \<Longrightarrow> handler_reach o' ru st"
| hr_run: "handler_reach o' ru st \<Longrightarrow> run env req ip body fn st = (out, st') \<Longrightarrow> handler_reach o' ru st'"
| hr_release: "handler_reach o' ru st \<Longrightarrow> h < length (handles (hd_pool st)) \<Longrightarrow>
    handler_reach o' ru (st\<lparr>hd_pool := release (hd_pool st) h\<rparr>)"

definition handler_ok :: "handler \<Rightarrow> bool" where
  "handler_ok st \<longleftrightarrow> pool_inv (hd_pool st) \<and> hd_currentHandle st = None \<and> breaker_ok st"

lemma settled_start:
  "hd_pool st3 = hd_pool st \<Longrightarrow> hd_mem st3 = hd_mem st \<Longrightarrow> settled st3 out st' = settled st out st'"
  by (simp only: settled_def others_kept_def output_of_def)

lemma run_settled:
  assumes inv: "pool_inv (hd_pool st)" and cur: "hd_currentHandle st = None" and r: "run env req ip body fn st = (out, st')"
  shows "settled st out st'"
  using r
proof (cases rule: run_cases)
  case (hook e st2)
  with inv cur show ?thesis by (simp add: settled_def others_kept_def output_of_def same_buffers_def)
next
  case (body mk ridBytes rid st3)
  from run_body_settled [OF _ body(4-6,1)] inv body(2) have "settled st3 out st'" by simp
  then show ?thesis using settled_start [OF body(2,3)] by simp
qed

lemma start_ok: "createIngressHandler o' ru ffi sc ids = Inr st \<Longrightarrow> handler_ok st"
  by (auto simp: createIngressHandler_def Let_def rbind_Inr_conv handler_ok_def new_pool_inv breaker_ok_def
      failing_tail_def trips_late_def MAX_FFI_FAILURES_def)

lemma run_ok:
  assumes "handler_ok st" and "run env req ip body fn st = (out, st')"
  shows "handler_ok st'"
  using assms run_settled [OF _ _ assms(2)] breaker_run [OF assms(2)]
  by (auto simp: handler_ok_def settled_def breaker_next_def)

lemma handler_reach_ok: "handler_reach o' ru st \<Longrightarrow> handler_ok st"
proof (induction rule: handler_reach.induct)
  case (hr_start ffi sc ids st)
  then show ?case by (rule start_ok)
next
  case (hr_run st env req ip body fn out st')
  then show ?case by (blast intro: run_ok)
next
  case (hr_release st h)
  then show ?case by (simp add: handler_ok_def release_live breaker_ok_def)
qed

section \<open>The transports\<close>

text \<open>
  What the three native entry points promise: each runs the same core on the same fields and writes
  its output at the start of the buffer; the two calls over the foreign interface may throw instead,
  leaving anything in the buffer. An absent body is an empty one.
\<close>

definition body_bytes :: "bytes option \<Rightarrow> bytes" where
  "body_bytes b = (case b of None \<Rightarrow> [] | Some x \<Rightarrow> x)"

definition wrote :: "bytes \<Rightarrow> bytes \<Rightarrow> native_call" where
  "wrote out buf = (Inr (length out), out @ drop (length out) buf)"

definition wrote_or_threw :: "bytes \<Rightarrow> bytes \<Rightarrow> native_call \<Rightarrow> bool" where
  "wrote_or_threw out buf q \<longleftrightarrow> q = wrote out buf \<or> isl (fst q) \<and> length (snd q) = length buf"

lemma wrote_or_threwE:
  assumes "wrote_or_threw out buf q"
  obtains "q = wrote out buf" | r c where "q = (r, c)" "isl r" "length c = length buf"
  using assms by (cases q) (auto simp: wrote_or_threw_def)

definition native_conforms :: "native_ingress \<Rightarrow> (nat \<Rightarrow> bytes \<Rightarrow> bytes \<Rightarrow> bytes \<Rightarrow> bytes \<Rightarrow> bytes \<Rightarrow> bytes) \<Rightarrow> bool" where
  "native_conforms ni core \<longleftrightarrow>
     (\<forall>k url ip rid hs body buf. length (core k url ip rid hs (body_bytes body)) \<le> length buf \<longrightarrow>
        ni_packed ni (input_layout k url ip rid hs) body buf = wrote (core k url ip rid hs (body_bytes body)) buf
        \<and> wrote_or_threw (core k url ip rid hs (body_bytes body)) buf (ni_ffiPacked ni (input_layout k url ip rid hs) body buf))
     \<and> (\<forall>f k url ip rid hs body buf. ni_components ni = Some f \<longrightarrow>
        length (core k (utf8_encode url) (utf8_encode ip) rid hs (body_bytes body)) \<le> length buf \<longrightarrow>
        wrote_or_threw (core k (utf8_encode url) (utf8_encode ip) rid hs (body_bytes body)) buf (f k url ip rid hs body buf))"

definition frame_ip :: "run_input \<Rightarrow> bytes" where
  "frame_ip ri = (case ri_ip ri of Some s \<Rightarrow> (if s = [] then EMPTY_IP_BYTES else utf8_encode s) | None \<Rightarrow> EMPTY_IP_BYTES)"

definition served :: "bytes \<Rightarrow> nat \<Rightarrow> nat result \<times> handler \<Rightarrow> bool" where
  "served out h q \<longleftrightarrow> fst q = Inr (length out) \<and> take (length out) (output_of (snd q) h) = out"

lemma output_sels [simp]:
  "output_of (write_output h c st) h = c" "output_of (emit e st) h = output_of st h"
  "output_of (ffi_done r h c st) h = c" "hd_packer (ffi_done r h c st) = hd_packer st"
  by (simp_all add: output_of_def write_output_def ffi_done_def noteFfiFailure_def Let_def)

lemma pack_input_layout:
  assumes "0 < length (ip_buf (hd_packer st))"
  obtains st' where "pack_input ri st = Inr (input_layout (ri_methodKind ri) (utf8_encode (ri_url ri)) (frame_ip ri) (ri_rid ri) (ri_headers ri), st')"
    "output_of st' h = output_of st h" "hd_pool st' = hd_pool st"
proof -
  note W = writeU8_appends writeLenPrefixed_appends writeStringLenPrefixed_appends write_ip_appends [of "ri_ip ri", folded frame_ip_def]
  obtain p' where "packParts (ri_methodKind ri) (ri_url ri) (ri_ip ri) (ri_rid ri) (ri_headers ri) (hd_packer st)
      = Inr (input_layout (ri_methodKind ri) (utf8_encode (ri_url ri)) (frame_ip ri) (ri_rid ri) (ri_headers ri), p')"
    using packed_from_fields [OF W(1) W(3) W(4) W(2) W(2) assms, of "ri_methodKind ri" "ri_url ri" "ri_rid ri" "ri_headers ri"]
    by (auto simp: packParts_def input_layout_def)
  then show ?thesis by (intro that [of "st\<lparr>hd_packer := p'\<rparr>"]) (simp_all add: pack_input_def output_of_def)
qed

lemma napi_served:
  assumes c: "native_conforms ni core"
    and o: "out = core (ri_methodKind ri) (utf8_encode (ri_url ri)) (frame_ip ri) (ri_rid ri) (ri_headers ri) (body_bytes (ri_body ri))"
    and l: "length out \<le> length (output_of st h)"
  shows "served out h (call_napi ni ri (input_layout (ri_methodKind ri) (utf8_encode (ri_url ri)) (frame_ip ri) (ri_rid ri) (ri_headers ri)) h st)"
proof -
  have "ni_packed ni (input_layout (ri_methodKind ri) (utf8_encode (ri_url ri)) (frame_ip ri) (ri_rid ri) (ri_headers ri)) (ri_body ri) (output_of st h)
      = wrote out (output_of st h)"
    using c l unfolding native_conforms_def o by blast
  then show ?thesis by (simp add: call_napi_def served_def wrote_def)
qed

lemma rerun_served:
  assumes "native_conforms ni core" and p: "0 < length (ip_buf (hd_packer st))"
    and "out = core (ri_methodKind ri) (utf8_encode (ri_url ri)) (frame_ip ri) (ri_rid ri) (ri_headers ri) (body_bytes (ri_body ri))"
    and "length out \<le> length (output_of st h)"
  shows "served out h (napi_rerun ni ri h st)"
proof -
  obtain st' where s: "pack_input ri st = Inr (input_layout (ri_methodKind ri) (utf8_encode (ri_url ri)) (frame_ip ri) (ri_rid ri) (ri_headers ri), st')"
    "output_of st' h = output_of st h" using pack_input_layout [OF p] by metis
  with napi_served [OF assms(1,3), of st' h] assms(4) show ?thesis by (simp add: napi_rerun_def)
qed

lemma dispatch_served:
  assumes c: "native_conforms ni core" and p: "0 < length (ip_buf (hd_packer st))"
    and o: "out = core (ri_methodKind ri) (utf8_encode (ri_url ri)) (frame_ip ri) (ri_rid ri) (ri_headers ri) (body_bytes (ri_body ri))"
    and l: "length out \<le> length (output_of st h)"
    and ip: "frame_ip ri = utf8_encode (case ri_ip ri of Some s \<Rightarrow> s | None \<Rightarrow> []) \<or>
      core (ri_methodKind ri) (utf8_encode (ri_url ri)) [] (ri_rid ri) (ri_headers ri) (body_bytes (ri_body ri)) = out"
  shows "served out h (dispatch ni ri h st)"
proof (cases "hc_ffi (hd_cfg st) \<and> \<not> hd_ffiDisabled st")
  case False
  with rerun_served [OF c p o l] show ?thesis by (auto simp: dispatch_def)
next
  case T: True
  let ?i = "input_layout (ri_methodKind ri) (utf8_encode (ri_url ri)) (frame_ip ri) (ri_rid ri) (ri_headers ri)"
  let ?ip = "case ri_ip ri of Some s \<Rightarrow> s | None \<Rightarrow> []"
  show ?thesis
  proof (cases "ni_components ni")
    case (Some f)
    let ?f = "f (ri_methodKind ri) (ri_url ri) ?ip (ri_rid ri) (ri_headers ri) (ri_body ri) (output_of st h)"
    have e: "core (ri_methodKind ri) (utf8_encode (ri_url ri)) (utf8_encode ?ip) (ri_rid ri) (ri_headers ri) (body_bytes (ri_body ri)) = out"
    proof (cases "frame_ip ri = utf8_encode ?ip")
      case True
      with o show ?thesis by simp
    next
      case False
      then have "?ip = []" by (auto simp: frame_ip_def split: option.splits if_splits)
      with ip False show ?thesis by simp
    qed
    have "wrote_or_threw out (output_of st h) ?f"
      using c Some l unfolding native_conforms_def e [symmetric] by blast
    then show ?thesis
    proof (cases rule: wrote_or_threwE)
      case 1
      with T Some show ?thesis by (simp add: dispatch_def served_def wrote_def)
    next
      case (2 r c')
      then have "served out h (napi_rerun ni ri h (ffi_done r h c' st))"
        using rerun_served [OF c _ o, of "ffi_done r h c' st" h] p l by simp
      with T Some 2 show ?thesis by (simp add: dispatch_def)
    qed
  next
    case None
    obtain st1 where s: "pack_input ri st = Inr (?i, st1)" "output_of st1 h = output_of st h" using pack_input_layout [OF p] by metis
    let ?f = "ni_ffiPacked ni ?i (ri_body ri) (output_of st1 h)"
    have "wrote_or_threw out (output_of st h) ?f"
      using c l unfolding native_conforms_def o s(2) by blast
    then show ?thesis
    proof (cases rule: wrote_or_threwE)
      case 1
      with T None s show ?thesis by (simp add: dispatch_def served_def wrote_def)
    next
      case (2 r c')
      then have "served out h (call_napi ni ri ?i h (ffi_done r h c' st1))"
        using napi_served [OF c o, of "ffi_done r h c' st1" h] l s(2) by simp
      with T None s 2 show ?thesis by (simp add: dispatch_def)
    qed
  qed
qed

section \<open>Properties\<close>

text \<open>
  C9. The output buffer of a run is accounted for on every path: whatever the native side, the hooks
  and the route callback do, the pool stays well formed, no run leaves a current handle behind, and
  the buffers other owners hold keep their identity and their contents. A run that throws has given
  its buffer back. A run that returns has given it back too, unless the callback handed it to a
  zero-copy response; then exactly that one buffer is out, and the response owns it.
\<close>

theorem run_buffer_accounted:
  assumes "handler_reach o' ru st" and "run env req ip body fn st = (out, st')"
  shows "pool_inv (hd_pool st') \<and> hd_currentHandle st' = None
    \<and> (\<forall>x \<in> live (hd_pool st). x \<in> live (hd_pool st') \<and> buf_of (hd_pool st') x = buf_of (hd_pool st) x
         \<and> output_of st' x = output_of st x)
    \<and> (case out of
         Inl e \<Rightarrow> live (hd_pool st') = live (hd_pool st)
       | Inr v \<Rightarrow> (case hd_stream st' of
             None \<Rightarrow> live (hd_pool st') = live (hd_pool st)
           | Some s \<Rightarrow> bs_handle s \<notin> live (hd_pool st)
               \<and> live (hd_pool st') = insert (bs_handle s) (live (hd_pool st))
               \<and> resp_inv (s\<lparr>bs_pool := hd_pool st'\<rparr>)))"
  using run_settled [OF _ _ assms(2)] handler_reach_ok [OF assms(1)]
  by (simp add: handler_ok_def settled_def others_kept_def)

definition demo_req :: http_request where
  "demo_req = \<lparr>hr_method = ''GET'', hr_url = js ''/'', hr_headers = (\<lambda>_. None)\<rparr>"

definition demo_handler_options :: handler_options where
  "demo_handler_options = \<lparr>po_parseCookies = None, po_cors = False, po_trustProxy = None, po_trustedEnabled = None,
     po_https = Some True, ho_limit = None, ho_parseQuery = False, ho_emitMetadataJson = False, ho_allowOrigin = None\<rparr>"

definition demo_runtime :: runtime_options where
  "demo_runtime = \<lparr>ru_emitRequestIdHeader = False, ru_outputBufferSize = Some 52, ru_onRequest = True, ru_onResponse = True,
     ru_onError = True, ru_structuredLog = False, ru_logger = False, ru_maxInFlight = Some 2, ru_zeroCopyTimeoutMs = None\<rparr>"

definition demo_handler :: handler where
  "demo_handler = (case createIngressHandler demo_handler_options demo_runtime True initial_pack_state (boot_counter 0 0) of Inr st \<Rightarrow> st)"

text \<open>A native side that accepts with a four-byte body, and one that always throws.\<close>

definition good_output :: bytes where
  "good_output = [0, 0, 200, 0] @ u32_le 1 @ replicate 36 0 @ [4, 0, 0, 0] @ [1, 2, 3, 4]"

definition good_native :: native_ingress where
  "good_native = \<lparr>ni_components = Some (\<lambda>_ _ _ _ _ _ _. (Inr 52, good_output)), ni_ffiPacked = (\<lambda>_ _ _. (Inr 52, good_output)),
     ni_packed = (\<lambda>_ _ _. (Inr 52, good_output))\<rparr>"

definition quiet_hooks :: "native_ingress \<Rightarrow> run_env" where
  "quiet_hooks ni = \<lparr>re_native = ni, re_onRequest = None, re_onResponse = None, re_onError = (\<lambda>_. None)\<rparr>"

lemma demo_start: "createIngressHandler demo_handler_options demo_runtime True initial_pack_state (boot_counter 0 0) = Inr demo_handler"
  by (simp add: demo_handler_def createIngressHandler_def Let_def demo_handler_options_def)

lemma demo_reach: "handler_reach demo_handler_options demo_runtime demo_handler"
  by (rule hr_start [OF demo_start])

definition good_result :: ingress_result where
  "good_result = baked_of good_output [] 52"

lemma good_refresh: "refresh_baked good_output [] 52 r = Inr good_result"
  unfolding good_result_def by (rule refresh_baked_Inr) (simp_all add: good_output_def)

lemma good_body: "length (bodyJson_baked False good_result) = 4"
  by code_simp

lemma demo_handler_sels:
  "hd_cfg demo_handler = \<lparr>hc_ffi = True, hc_urlNeeded = False, hc_ipNeeded = False,
     hc_headerPlan = \<lparr>pl_cookie = False, pl_cors = False, pl_proxy = False, pl_proto = False\<rparr>, hc_emitRequestIdHeader = False,
     hc_zeroCopyTimeoutMs = 0, hc_outputBufferSize = 52, hc_onRequest = True, hc_onResponse = True, hc_onError = True, hc_logger = False\<rparr>"
  "hd_pool demo_handler = new_pool \<lparr>o_initialSize = Some 52, o_maxBuffers = None, o_maxInFlight = Some 2, o_adaptive = False,
     o_prefill = Some 16, o_prefillBytes = Some 4194304\<rparr>"
  "\<not> hd_ffiDisabled demo_handler"
  by (simp_all add: demo_handler_def createIngressHandler_def Let_def demo_handler_options_def demo_runtime_def build_config_def
      rateEnabled_def handler_plan_def buildHeaderPlan_def plan_options.defs clampIngressBufferSize_def MAX_OUTPUT_BUFFER_SIZE_def
      PREWARM_POOL_BUFFERS_def PREWARM_POOL_BYTES_def)


text \<open>What such a run does with a callback that takes the buffer over and then throws or returns.\<close>

definition handed_over :: "nat \<Rightarrow> buffer_pool \<Rightarrow> body_stream" where
  "handed_over h p = \<lparr>bs_handle = h, bs_bytes = \<lparr>sl_buffer = h_buffer (handles p ! h), sl_byteLength = 4\<rparr>, bs_released = False,
     bs_timer = False, bs_queue = [], bs_closeReq = False, bs_closed = False, bs_failed = False, bs_pool = p\<rparr>"

lemmas demo_run_defs = run_def run_body_def outer_try_def gatherRawHeadersPacked_def demo_handler_sels quiet_hooks_def
  native_phase_def native_call_phase_def acquire_output_def dispatch_def good_native_def ffi_done_def write_output_def emit_def
  output_of_def callback_phase_def zeroCopyResponse_def pooledBodyResponse_def start_body_def assertSyncCallback_def report_def
  escape_phase_def call_onError_def finish_def buf_of_def Let_def good_refresh good_body

lemma demo_throw:
  assumes "hd_cfg st = hd_cfg demo_handler" "\<not> hd_ffiDisabled st" "acquire (hd_pool st) 52 = Inr (h, p)"
  shows "case run (quiet_hooks good_native) demo_req None None (\<lambda>_ _. [CallZeroCopy, CallThrow e]) st of
    (out, st') \<Rightarrow> out = Inl e \<and> hd_pool st' = release p h \<and> hd_stream st' = Some (handed_over h p)
      \<and> hd_cfg st' = hd_cfg demo_handler \<and> \<not> hd_ffiDisabled st'"
proof -
  obtain r i where "generateRequestId (hd_ids st) = (r, i)" by force
  with assms show ?thesis by (simp add: demo_run_defs handed_over_def)
qed

lemma demo_return:
  assumes "hd_cfg st = hd_cfg demo_handler" "\<not> hd_ffiDisabled st" "acquire (hd_pool st) 52 = Inr (h, p)"
  shows "case run (quiet_hooks good_native) demo_req None None (\<lambda>_ _. [CallZeroCopy, CallReturn (AResponse n)]) st of
    (out, st') \<Rightarrow> out = Inr (AResponse n) \<and> hd_pool st' = p \<and> hd_stream st' = Some (handed_over h p)"
proof -
  obtain r i where "generateRequestId (hd_ids st) = (r, i)" by force
  with assms show ?thesis by (simp add: demo_run_defs handed_over_def)
qed

lemma take_buffer_frame:
  "take_buffer p n = (b, q) \<Longrightarrow> freeHandles q = freeHandles p \<and> handles q = handles p \<and> maxHandles q = maxHandles p
     \<and> maxInFlight q = maxInFlight p \<and> inFlight q = inFlight p"
  by (auto simp: take_buffer_def fresh_buffer_def Let_def split: option.splits)

lemma released_handle_reused:
  assumes "h \<in> live p" and "length (freeHandles p) < maxHandles p" and "maxInFlight p = 0 \<or> inFlight p \<le> int (maxInFlight p)"
  shows "\<exists>q. acquire (release p h) m = Inr (h, q)"
proof -
  have r: "freeHandles (release p h) = freeHandles p @ [h]" "maxInFlight (release p h) = maxInFlight p"
    "inFlight (release p h) = inFlight p - 1"
    using assms(1,2) by (simp_all add: live_def release_def returnHandle_def releaseBuffer_def Let_def)
  obtain b p1 where t: "take_buffer (release p h) (nat (max 0 \<lfloor>m\<rfloor>)) = (b, p1)" by force
  from r t assms(3) take_buffer_frame [OF t] show ?thesis by (auto simp: acquire_def Let_def)
qed

lemma first_acquire:
  assumes "freeHandles p = []" and "handles p = []" and "int (maxInFlight p) > inFlight p"
  obtains q where "acquire p m = Inr (0, q)" "freeHandles q = []" "maxHandles q = maxHandles p" "maxInFlight q = maxInFlight p"
    "inFlight q = inFlight p + 1"
proof -
  obtain b p1 where t: "take_buffer p (nat (max 0 \<lfloor>m\<rfloor>)) = (b, p1)" by force
  show ?thesis
    by (rule that [of "p1\<lparr>inFlight := inFlight p + 1, handles := [\<lparr>h_buffer = b, h_released = False\<rparr>]\<rparr>"]) (use assms t take_buffer_frame [OF t] in \<open>simp_all add: acquire_def Let_def\<close>)
qed

definition callback_throws :: route_fn where
  "callback_throws = (\<lambda>_ _. [CallZeroCopy, CallThrow (JsError ''route'')])"

definition callback_returns :: route_fn where
  "callback_returns = (\<lambda>_ _. [CallZeroCopy, CallReturn (AResponse 200)])"

definition demo_thrown :: handler where
  "demo_thrown = snd (run (quiet_hooks good_native) demo_req None None callback_throws demo_handler)"

definition demo_next :: handler where
  "demo_next = snd (run (quiet_hooks good_native) demo_req None None callback_returns demo_thrown)"

lemma demo_acquires:
  obtains p q where "acquire (hd_pool demo_handler) 52 = Inr (0, p)" "acquire (release p 0) 52 = Inr (0, q)"
    "pool_inv q" "0 \<in> live q"
proof -
  let ?p = "hd_pool demo_handler"
  have n: "freeHandles ?p = []" "handles ?p = []" "maxInFlight ?p = 2" "inFlight ?p = 0" "maxHandles ?p = 18"
    by (simp_all add: demo_handler_sels new_pool_def clamp_floor_def Let_def)
  then obtain p where p: "acquire ?p 52 = Inr (0, p)" and f: "freeHandles p = []" "maxHandles p = 18" "maxInFlight p = 2" "inFlight p = 1"
    using first_acquire [of ?p 52] by auto
  have "pool_inv ?p" unfolding demo_handler_sels by (rule new_pool_inv)
  note S = acquire_spec [OF this p]
  obtain q where q: "acquire (release p 0) 52 = Inr (0, q)"
    using released_handle_reused [of 0 p 52] S f by auto
  have "pool_inv (release p 0)" using S release_spec [of p 0] by simp
  from acquire_spec [OF this q] show ?thesis using that [OF p q] by simp
qed

text \<open>
  A response that never escaped still gives its buffer back a second time: when the callback throws
  after \<open>zeroCopyResponse\<close>, the run releases the handle, but the stream it built is still armed. If the
  next request checks the same handle out before that stream is pulled, the pull releases the buffer
  under the second response, which has not let go of it.
\<close>

theorem abandoned_response_frees_next:
  "isl (fst (run (quiet_hooks good_native) demo_req None None callback_throws demo_handler))
   \<and> should_pull (the (hd_stream demo_thrown))
   \<and> \<not> bs_released (the (hd_stream demo_next))
   \<and> bs_handle (the (hd_stream demo_next)) \<in> live (hd_pool demo_next)
   \<and> bs_handle (the (hd_stream demo_next))
       \<notin> live (bs_pool (pull_body ((the (hd_stream demo_thrown))\<lparr>bs_pool := hd_pool demo_next\<rparr>)))"
proof -
  obtain p q where a: "acquire (hd_pool demo_handler) 52 = Inr (0, p)" "acquire (release p 0) 52 = Inr (0, q)"
    and q: "pool_inv q" "0 \<in> live q" using demo_acquires .
  note T = demo_throw [OF refl demo_handler_sels(3) a(1), of "JsError ''route''", folded callback_throws_def]
  have t: "isl (fst (run (quiet_hooks good_native) demo_req None None callback_throws demo_handler))"
    "hd_pool demo_thrown = release p 0" "hd_stream demo_thrown = Some (handed_over 0 p)"
    "hd_cfg demo_thrown = hd_cfg demo_handler" "\<not> hd_ffiDisabled demo_thrown"
    using T by (auto simp: demo_thrown_def split: prod.splits)
  have n: "hd_pool demo_next = q" "hd_stream demo_next = Some (handed_over 0 q)"
    using demo_return [OF t(4,5), of 0 q 200] a(2) t(2) by (auto simp: demo_next_def callback_returns_def split: prod.splits)
  have "0 \<notin> live (release q 0)" using release_spec [OF q] by simp
  with t n q show ?thesis
    by (simp add: handed_over_def should_pull_def pull_body_def body_defs)
qed

text \<open>
  C11. The circuit breaker trips exactly when the last three calls over the foreign interface failed,
  however napi re-runs, hooks and callbacks end. Three failures in a row are always the last calls
  of that kind: once tripped, no run calls over the foreign interface again.
\<close>

theorem breaker_trips_once:
  assumes "handler_reach o' ru st"
  shows "(hd_ffiDisabled st \<longleftrightarrow> 3 \<le> length (ffi_log (hd_events st)) \<and>
            (\<forall>j < 3. \<not> ffi_log (hd_events st) ! (length (ffi_log (hd_events st)) - 3 + j)))
    \<and> (\<forall>i. i + 3 < length (ffi_log (hd_events st)) \<longrightarrow> (\<exists>j < 3. ffi_log (hd_events st) ! (i + j)))
    \<and> (hd_ffiDisabled st \<longrightarrow> (\<forall>env req ip body fn. hd_ffiDisabled (snd (run env req ip body fn st))
         \<and> ffi_log (hd_events (snd (run env req ip body fn st))) = ffi_log (hd_events st)))"
proof -
  let ?l = "ffi_log (hd_events st)"
  have b: "breaker_ok st" using handler_reach_ok [OF assms] by (simp add: handler_ok_def)
  have tail: "3 \<le> failing_tail ?l \<longleftrightarrow> 3 \<le> length ?l \<and> (\<forall>j < 3. \<not> ?l ! (length ?l - 3 + j))"
  proof
    assume a: "3 \<le> failing_tail ?l"
    have "failing_tail ?l \<le> length ?l" using length_takeWhile_le [of Not "rev ?l"] by (simp add: failing_tail_def)
    moreover have "\<not> ?l ! (length ?l - 3 + j)" if "j < 3" for j
      using failing_tail_nth [of "2 - j" ?l] that a calculation by (simp add: algebra_simps)
    ultimately show "3 \<le> length ?l \<and> (\<forall>j < 3. \<not> ?l ! (length ?l - 3 + j))" using a by simp
  qed (blast intro: all_failed_tail)
  have "hd_ffiDisabled (snd (run env req ip body fn st)) \<and> ffi_log (hd_events (snd (run env req ip body fn st))) = ?l"
    if "hd_ffiDisabled st" for env req ip body fn
    using breaker_run [of env req ip body fn st "fst (run env req ip body fn st)" "snd (run env req ip body fn st)"] b that
    by (simp add: breaker_next_def breaker_same_def)
  with b tail show ?thesis by (auto simp: breaker_ok_def trips_late_def MAX_FFI_FAILURES_def)
qed

definition bad_native :: native_ingress where
  "bad_native = \<lparr>ni_components = Some (\<lambda>_ _ _ _ _ _ b. (Inl (JsError ''ffi''), b)),
     ni_ffiPacked = (\<lambda>_ _ b. (Inl (JsError ''ffi''), b)), ni_packed = (\<lambda>_ _ b. (Inl (JsError ''napi''), b))\<rparr>"

definition bad_run :: "handler \<Rightarrow> handler" where
  "bad_run st = snd (run (quiet_hooks bad_native) demo_req None None (\<lambda>_ _. [CallReturn (AResponse 500)]) st)"

lemma bad_run_counts:
  assumes "hd_cfg st = hd_cfg demo_handler" "\<not> hd_ffiDisabled st" "acquire (hd_pool st) 52 = Inr (h, p)"
  shows "ffi_log (hd_events (bad_run st)) = ffi_log (hd_events st) @ [False] \<and> hd_cfg (bad_run st) = hd_cfg demo_handler
    \<and> hd_pool (bad_run st) = release p h"
proof -
  obtain r i where g: "generateRequestId (hd_ids st) = (r, i)" by force
  show ?thesis
  proof (cases "packParts (kind_of ''GET'') [] None r EMPTY_HEADERS_BLOCK (hd_packer st)")
    case (Inl e)
    with assms g show ?thesis
      by (simp add: bad_run_def demo_run_defs bad_native_def napi_rerun_def pack_input_def demo_req_def noteFfiFailure_def)
  next
    case (Inr q)
    with assms g show ?thesis
      by (cases q) (simp add: bad_run_def demo_run_defs bad_native_def napi_rerun_def pack_input_def demo_req_def noteFfiFailure_def call_napi_def)
  qed
qed

lemma acquire_room:
  assumes "inFlight p < int (maxInFlight p)"
  obtains h q where "acquire p m = Inr (h, q)" "maxInFlight q = maxInFlight p" "inFlight q = inFlight p + 1"
proof -
  obtain b p1 where t: "take_buffer p (nat (max 0 \<lfloor>m\<rfloor>)) = (b, p1)" by force
  have "\<not> isl (acquire p m)" using assms t by (simp add: acquire_def Let_def)
  then obtain h q where q: "acquire p m = Inr (h, q)" by (cases "acquire p m") auto
  then have "maxInFlight q = maxInFlight p" "inFlight q = inFlight p + 1"
    using assms t take_buffer_frame [OF t] by (auto simp: acquire_def Let_def split: if_splits)
  with q show ?thesis by (rule that)
qed

lemma release_counts: "h \<in> live p \<Longrightarrow> maxInFlight (release p h) = maxInFlight p \<and> inFlight (release p h) = inFlight p - 1"
  by (simp add: live_def release_def returnHandle_def releaseBuffer_def Let_def)

definition idle_demo :: "handler \<Rightarrow> bool" where
  "idle_demo st \<longleftrightarrow> handler_reach demo_handler_options demo_runtime st \<and> hd_cfg st = hd_cfg demo_handler
     \<and> inFlight (hd_pool st) = 0 \<and> maxInFlight (hd_pool st) = 2"

lemma demo_idle: "idle_demo demo_handler"
  by (simp add: idle_demo_def demo_reach demo_handler_sels new_pool_def clamp_floor_def Let_def)

lemma bad_run_idle:
  assumes "idle_demo st" and "\<not> hd_ffiDisabled st"
  shows "idle_demo (bad_run st) \<and> ffi_log (hd_events (bad_run st)) = ffi_log (hd_events st) @ [False]"
proof -
  obtain h p where p: "acquire (hd_pool st) 52 = Inr (h, p)" "maxInFlight p = 2" "inFlight p = 1"
    using acquire_room [of "hd_pool st" 52] assms(1) by (auto simp: idle_demo_def)
  have inv: "pool_inv (hd_pool st)" using assms(1) handler_reach_ok by (auto simp: idle_demo_def handler_ok_def)
  have c: "hd_cfg st = hd_cfg demo_handler" using assms(1) by (simp add: idle_demo_def)
  have "handler_reach demo_handler_options demo_runtime (bad_run st)"
    unfolding bad_run_def by (rule hr_run [OF _ prod.collapse [symmetric]]) (use assms(1) in \<open>simp add: idle_demo_def\<close>)
  with bad_run_counts [OF c assms(2) p(1)] acquire_spec [OF inv p(1)] release_counts [of h p] p show ?thesis
    by (simp add: idle_demo_def)
qed

theorem breaker_trips_once_witness:
  "hd_ffiDisabled (bad_run (bad_run (bad_run demo_handler))) \<and> \<not> hd_ffiDisabled (bad_run (bad_run demo_handler))"
proof -
  have on: "\<not> hd_ffiDisabled st" if "idle_demo st" "length (ffi_log (hd_events st)) < 3" for st
    using breaker_trips_once [of demo_handler_options demo_runtime st] that by (simp add: idle_demo_def)
  have l0: "ffi_log (hd_events demo_handler) = []"
    by (simp add: demo_handler_def createIngressHandler_def Let_def demo_handler_options_def)
  have 1: "idle_demo (bad_run demo_handler) \<and> ffi_log (hd_events (bad_run demo_handler)) = [False]"
    using bad_run_idle [OF demo_idle on [OF demo_idle]] l0 by simp
  then have 2: "idle_demo (bad_run (bad_run demo_handler)) \<and> ffi_log (hd_events (bad_run (bad_run demo_handler))) = [False, False]"
    using bad_run_idle [OF _ on, of "bad_run demo_handler"] by simp
  then have 3: "idle_demo (bad_run (bad_run (bad_run demo_handler)))
      \<and> ffi_log (hd_events (bad_run (bad_run (bad_run demo_handler)))) = [False, False, False]"
    using bad_run_idle [OF _ on, of "bad_run (bad_run demo_handler)"] by simp
  then have "hd_ffiDisabled (bad_run (bad_run (bad_run demo_handler)))"
    using breaker_trips_once [of demo_handler_options demo_runtime "bad_run (bad_run (bad_run demo_handler))"]
    by (simp add: idle_demo_def less_Suc_eq numeral_3_eq_3 nth_Cons')
  with 2 on show ?thesis by simp
qed

theorem run_buffer_accounted_witness: "live (hd_pool demo_thrown) = live (hd_pool demo_handler)"
proof -
  let ?r = "run (quiet_hooks good_native) demo_req None None callback_throws demo_handler"
  have "isl (fst ?r)"
  proof -
    obtain p q where a: "acquire (hd_pool demo_handler) 52 = Inr (0, p)" "acquire (release p 0) 52 = Inr (0, q)"
      and q: "pool_inv q" "0 \<in> live q" using demo_acquires .
    from demo_throw [OF refl demo_handler_sels(3) a(1), of "JsError ''route''", folded callback_throws_def]
    show ?thesis by (auto split: prod.splits)
  qed
  then obtain e where "?r = (Inl e, demo_thrown)" by (cases ?r; cases "fst ?r") (auto simp: demo_thrown_def)
  from run_buffer_accounted [OF demo_reach this] show ?thesis by simp
qed

text \<open>
  C10. The transport does not show. If the native entry points run the same core, the run is served with
  exactly the core's output whichever transport is available, whether calls over the foreign
  interface succeed or throw half way, and whether the breaker has tripped: the count is the length
  of that output, and the decoder sees what it would see of the output alone. The one exception is
  an absent client address, which the component call passes as empty and the packed calls as
  \<open>0.0.0.0\<close>; then the core must not distinguish the two.
\<close>

theorem transport_transparent:
  assumes "native_conforms ni core" and "0 < length (ip_buf (hd_packer st))"
    and "out = core (ri_methodKind ri) (utf8_encode (ri_url ri)) (frame_ip ri) (ri_rid ri) (ri_headers ri) (body_bytes (ri_body ri))"
    and "OUT_DATA_START \<le> length out" and "length out \<le> length (output_of st h)"
    and "frame_ip ri = utf8_encode (case ri_ip ri of Some s \<Rightarrow> s | None \<Rightarrow> []) \<or>
      core (ri_methodKind ri) (utf8_encode (ri_url ri)) [] (ri_rid ri) (ri_headers ri) (body_bytes (ri_body ri)) = out"
    and "dispatch ni ri h st = (r, st')"
  shows "r = Inr (length out) \<and> take (length out) (output_of st' h) = out
    \<and> refresh_baked (output_of st' h) b (length out) d = Inr ((baked_of out b (length out))\<lparr>r_buf := output_of st' h\<rparr>)"
proof -
  have s: "r = Inr (length out)" "take (length out) (output_of st' h) = out"
    using dispatch_served [OF assms(1-3,5,6)] assms(7) by (simp_all add: served_def)
  have l: "length out \<le> length (output_of st' h)"
  proof (rule ccontr)
    assume "\<not> ?thesis"
    then have "length (take (length out) (output_of st' h)) < length out" by simp
    with s(2) show False by simp
  qed
  have "baked_of (output_of st' h) b (length out) = (baked_of out b (length out))\<lparr>r_buf := output_of st' h\<rparr>"
    by (rule baked_of_prefix [OF assms(4)]) (use s(2) in simp)
  with refresh_baked_Inr [OF assms(4) l] s show ?thesis by simp
qed

definition flaky_native :: native_ingress where
  "flaky_native = bad_native\<lparr>ni_packed := (\<lambda>_ _ b. wrote good_output b)\<rparr>"

definition demo_input :: run_input where
  "demo_input = \<lparr>ri_methodKind = 0, ri_url = [], ri_ip = None, ri_rid = [], ri_headers = [0, 0], ri_body = None\<rparr>"

theorem transport_transparent_witness: "fst (dispatch flaky_native demo_input 0 demo_handler) = Inr 52"
proof -
  have c: "native_conforms flaky_native (\<lambda>_ _ _ _ _ _. good_output)"
    by (simp add: native_conforms_def flaky_native_def bad_native_def wrote_or_threw_def)
  have p: "0 < length (ip_buf (hd_packer demo_handler))" and m: "length (output_of demo_handler 0) = 52"
    by (simp_all add: demo_handler_def createIngressHandler_def Let_def demo_handler_options_def new_packer_def output_of_def
        new_pool_def clamp_floor_def build_config_def clampIngressBufferSize_def demo_runtime_def MAX_OUTPUT_BUFFER_SIZE_def)
  have l: "length good_output = 52" by (simp add: good_output_def)
  obtain r st' where d: "dispatch flaky_native demo_input 0 demo_handler = (r, st')" by force
  from transport_transparent [OF c p refl _ _ _ d, of "[]" new_baked_result] show ?thesis by (simp add: l m d)
qed

end
