(* ===== verification/Metrics.thy ===== *)
theory Metrics
  imports Complex_Main Prelude
begin

text \<open>
  The metrics registry of \<open>src/src/shared/metrics.ts\<close>: counters, gauges and histograms with labelled
  series, the per-family cardinality cap with its eviction accounting, and the text exposition.

  Entries are objects with identity: a handle keeps the entry it was created with, also after
  \<open>reset\<close>. Observed numbers are rationals; \<open>num_str\<close> is the number formatting of the runtime, a
  parameter of the renderers.
\<close>

section \<open>Label keys\<close>

definition quote_unit :: code_unit where "quote_unit = 34"
definition bslash_unit :: code_unit where "bslash_unit = 92"
definition newline_unit :: code_unit where "newline_unit = 10"

definition replace_unit :: "code_unit \<Rightarrow> jsstring \<Rightarrow> jsstring \<Rightarrow> jsstring" where
  "replace_unit c r v = concat (map (\<lambda>u. if u = c then r else [u]) v)"

definition escapeLabel :: "jsstring \<Rightarrow> jsstring" where
  "escapeLabel v =
     replace_unit newline_unit [bslash_unit, 110]
       (replace_unit quote_unit [bslash_unit, quote_unit]
         (replace_unit bslash_unit [bslash_unit, bslash_unit] v))"

fun join_with :: "jsstring \<Rightarrow> jsstring list \<Rightarrow> jsstring" where
  "join_with sep [] = []"
| "join_with sep [x] = x"
| "join_with sep (x # xs) = x @ sep @ join_with sep xs"

definition label_part :: "jsstring \<Rightarrow> jsstring \<Rightarrow> jsstring" where
  "label_part name v = name @ js ''='' @ [quote_unit] @ escapeLabel v @ [quote_unit]"

definition nth_or :: "'a \<Rightarrow> 'a list \<Rightarrow> nat \<Rightarrow> 'a" where
  "nth_or d xs i = (if i < length xs then xs ! i else d)"

definition labelKey :: "jsstring list \<Rightarrow> jsstring list \<Rightarrow> jsstring" where
  "labelKey names values =
     (if length names = 0 then []
      else join_with (js '','') (map (\<lambda>i. label_part (names ! i) (nth_or [] values i)) [0..<length names]))"

text \<open>The three passes escape each unit on its own.\<close>

definition esc_unit :: "code_unit \<Rightarrow> jsstring" where
  "esc_unit u = (if u = bslash_unit then [bslash_unit, bslash_unit]
     else if u = quote_unit then [bslash_unit, quote_unit]
     else if u = newline_unit then [bslash_unit, 110] else [u])"

lemma replace_unit_append [simp]: "replace_unit c r (a @ b) = replace_unit c r a @ replace_unit c r b"
  by (simp add: replace_unit_def)

lemma replace_unit_Cons: "replace_unit c r (u # v) = (if u = c then r else [u]) @ replace_unit c r v"
  by (simp add: replace_unit_def)

lemma replace_unit_Nil [simp]: "replace_unit c r [] = []"
  by (simp add: replace_unit_def)

lemma unit_consts: "quote_unit \<noteq> bslash_unit" "newline_unit \<noteq> bslash_unit" "newline_unit \<noteq> quote_unit"
  "(110 :: code_unit) \<noteq> bslash_unit" "(110 :: code_unit) \<noteq> quote_unit" "(110 :: code_unit) \<noteq> newline_unit"
  by (simp_all add: quote_unit_def bslash_unit_def newline_unit_def)

lemma escapeLabel_units: "escapeLabel v = concat (map esc_unit v)"
proof (induction v)
  case (Cons u v)
  have "escapeLabel (u # v) = esc_unit u @ escapeLabel v"
    unfolding escapeLabel_def esc_unit_def using unit_consts by (auto simp: replace_unit_Cons)
  with Cons show ?case by simp
qed (simp add: escapeLabel_def)

text \<open>An escaped value followed by a quote determines the value and what follows.\<close>

lemma esc_unit_cases:
  "esc_unit u = [u] \<and> u \<noteq> quote_unit \<and> u \<noteq> bslash_unit
   \<or> (\<exists>w. esc_unit u = [bslash_unit, w] \<and> (\<forall>u'. esc_unit u' = [bslash_unit, w] \<longrightarrow> u' = u))"
  using unit_consts by (auto simp: esc_unit_def)

lemma esc_unit_inj: "esc_unit u @ x = esc_unit u' @ y \<Longrightarrow> u = u' \<and> x = y"
  using unit_consts by (auto simp: esc_unit_def split: if_splits)

lemma esc_not_quote: "esc_unit u @ x \<noteq> quote_unit # y"
  using unit_consts by (auto simp: esc_unit_def)

lemma escape_prefix_free:
  "escapeLabel v @ quote_unit # x = escapeLabel w @ quote_unit # y \<Longrightarrow> v = w \<and> x = y"
proof (induction v arbitrary: w)
  case Nil
  then show ?case
    by (cases w) (auto simp: escapeLabel_units dest: sym [THEN notE [OF esc_not_quote]])
next
  case (Cons u v)
  show ?case
  proof (cases w)
    case Nil
    with Cons.prems esc_not_quote [of u] show ?thesis by (simp add: escapeLabel_units)
  next
    case (Cons u' w')
    with Cons.prems have "esc_unit u @ (escapeLabel v @ quote_unit # x) = esc_unit u' @ (escapeLabel w' @ quote_unit # y)"
      by (simp add: escapeLabel_units)
    from esc_unit_inj [OF this] Cons.IH Cons show ?thesis by blast
  qed
qed

lemma label_part_free: "label_part n v @ x = label_part n w @ y \<Longrightarrow> v = w \<and> x = y"
  using escape_prefix_free [of v x w y] by (simp add: label_part_def)

lemma join_parts_inj:
  "length vs = length ns \<Longrightarrow> length ws = length ns \<Longrightarrow>
     join_with (js '','') (map2 label_part ns vs) = join_with (js '','') (map2 label_part ns ws) \<Longrightarrow> vs = ws"
proof (induction ns arbitrary: vs ws)
  case (Cons n ns)
  obtain v vs' w ws' where vw: "vs = v # vs'" "ws = w # ws'" "length vs' = length ns" "length ws' = length ns"
    using Cons.prems(1,2) by (auto simp: length_Suc_conv)
  show ?case
  proof (cases ns)
    case Nil
    with vw Cons.prems(3) label_part_free [of n v "[]" w "[]"] show ?thesis by simp
  next
    case (Cons m ms)
    then obtain a as b bs where ab: "vs' = a # as" "ws' = b # bs" using vw by (auto simp: length_Suc_conv)
    have "label_part n v @ (js '','' @ join_with (js '','') (map2 label_part ns vs'))
        = label_part n w @ (js '','' @ join_with (js '','') (map2 label_part ns ws'))"
      using Cons.prems(3) vw Cons ab by simp
    from label_part_free [OF this] Cons.IH [OF vw(3,4)] vw show ?thesis by simp
  qed
qed simp

lemma labelKey_map2: "length values = length names \<Longrightarrow>
  labelKey names values = join_with (js '','') (map2 label_part names values)"
proof -
  assume len: "length values = length names"
  have "map (\<lambda>i. label_part (names ! i) (nth_or [] values i)) [0..<length names] = map2 label_part names values"
    by (rule nth_equalityI) (simp_all add: len nth_or_def)
  then show ?thesis by (auto simp: labelKey_def)
qed

section \<open>Families and the registry\<close>

definition MAX_SERIES_PER_METRIC :: nat where
  "MAX_SERIES_PER_METRIC = 10000"

definition evictOldestHalf :: "('k, 'v) jsmap \<Rightarrow> 'k list \<times> ('k, 'v) jsmap" where
  "evictOldestHalf m =
     (if length m < MAX_SERIES_PER_METRIC then ([], m)
      else let drp = (length m + 1) div 2; dropped = take drp (map fst m)
           in (dropped, fold AList.delete dropped m))"

record series_entry =
  se_name :: jsstring
  se_help :: jsstring
  se_labelNames :: "jsstring list"
  se_values :: "(jsstring, rat) jsmap"

record hist_entry =
  he_name :: jsstring
  he_help :: jsstring
  he_labelNames :: "jsstring list"
  he_buckets :: "rat list"
  he_counts :: "(jsstring, nat list) jsmap"
  he_sums :: "(jsstring, rat) jsmap"

record registry =
  mr_counters :: "(jsstring, nat) jsmap"
  mr_gauges :: "(jsstring, nat) jsmap"
  mr_histograms :: "(jsstring, nat) jsmap"
  mr_series :: "series_entry list"
  mr_hists :: "hist_entry list"
  mr_seriesDropped :: nat

definition createMetrics :: registry where
  "createMetrics = \<lparr>mr_counters = [], mr_gauges = [], mr_histograms = [], mr_series = [], mr_hists = [],
     mr_seriesDropped = 0\<rparr>"

definition reset :: "registry \<Rightarrow> registry" where
  "reset r = r\<lparr>mr_counters := [], mr_gauges := [], mr_histograms := [], mr_seriesDropped := 0\<rparr>"

type_synonym labels = "jsstring \<Rightarrow> jsstring option"

definition key_of :: "jsstring list \<Rightarrow> labels \<Rightarrow> jsstring" where
  "key_of names ls = labelKey names (map (\<lambda>n. case ls n of None \<Rightarrow> [] | Some v \<Rightarrow> v) names)"

definition counter :: "registry \<Rightarrow> jsstring \<Rightarrow> jsstring \<Rightarrow> jsstring list \<Rightarrow> nat \<times> registry" where
  "counter r name help labelNames =
     (case map_of (mr_counters r) name of
        Some e \<Rightarrow> (e, r)
      | None \<Rightarrow> (length (mr_series r),
          r\<lparr>mr_series := mr_series r @ [\<lparr>se_name = name, se_help = help, se_labelNames = labelNames, se_values = []\<rparr>],
            mr_counters := AList.update name (length (mr_series r)) (mr_counters r)\<rparr>))"

definition gauge :: "registry \<Rightarrow> jsstring \<Rightarrow> jsstring \<Rightarrow> jsstring list \<Rightarrow> nat \<times> registry" where
  "gauge r name help labelNames =
     (case map_of (mr_gauges r) name of
        Some e \<Rightarrow> (e, r)
      | None \<Rightarrow> (length (mr_series r),
          r\<lparr>mr_series := mr_series r @ [\<lparr>se_name = name, se_help = help, se_labelNames = labelNames, se_values = []\<rparr>],
            mr_gauges := AList.update name (length (mr_series r)) (mr_gauges r)\<rparr>))"

definition histogram :: "registry \<Rightarrow> jsstring \<Rightarrow> jsstring \<Rightarrow> rat list \<Rightarrow> jsstring list \<Rightarrow> nat \<times> registry" where
  "histogram r name help buckets labelNames =
     (case map_of (mr_histograms r) name of
        Some e \<Rightarrow> (e, r)
      | None \<Rightarrow> (length (mr_hists r),
          r\<lparr>mr_hists := mr_hists r @ [\<lparr>he_name = name, he_help = help, he_labelNames = labelNames,
              he_buckets = sort buckets, he_counts = [], he_sums = []\<rparr>],
            mr_histograms := AList.update name (length (mr_hists r)) (mr_histograms r)\<rparr>))"

text \<open>
  \<open>put_series\<close> is the common body of \<open>counter.inc\<close>, \<open>gauge.inc\<close>, \<open>gauge.dec\<close> and \<open>gauge.set\<close>: a new
  series makes room first; \<open>f\<close> combines with the previous value.
\<close>

definition put_series :: "registry \<Rightarrow> nat \<Rightarrow> labels \<Rightarrow> rat \<Rightarrow> (rat \<Rightarrow> rat) \<Rightarrow> registry" where
  "put_series r e ls v f =
     (let en = mr_series r ! e; key = key_of (se_labelNames en) ls
      in case map_of (se_values en) key of
           None \<Rightarrow>
             (let (dropped, vals) = evictOldestHalf (se_values en)
              in r\<lparr>mr_series := (mr_series r)[e := en\<lparr>se_values := AList.update key v vals\<rparr>],
                   mr_seriesDropped := mr_seriesDropped r + length dropped\<rparr>)
         | Some prev \<Rightarrow> r\<lparr>mr_series := (mr_series r)[e := en\<lparr>se_values := AList.update key (f prev) (se_values en)\<rparr>]\<rparr>)"

definition counter_inc :: "registry \<Rightarrow> nat \<Rightarrow> labels \<Rightarrow> rat \<Rightarrow> registry" where
  "counter_inc r e ls by' = put_series r e ls by' (\<lambda>prev. prev + by')"

definition gauge_inc :: "registry \<Rightarrow> nat \<Rightarrow> labels \<Rightarrow> rat \<Rightarrow> registry" where
  "gauge_inc r e ls by' = put_series r e ls by' (\<lambda>prev. prev + by')"

definition gauge_dec :: "registry \<Rightarrow> nat \<Rightarrow> labels \<Rightarrow> rat \<Rightarrow> registry" where
  "gauge_dec r e ls by' = put_series r e ls (- by') (\<lambda>prev. prev + - by')"

definition gauge_set :: "registry \<Rightarrow> nat \<Rightarrow> labels \<Rightarrow> rat \<Rightarrow> registry" where
  "gauge_set r e ls v = put_series r e ls v (\<lambda>_. v)"

text \<open>The bucket loop: every bound at least the value counts it, the last slot counts everything.\<close>

definition bump_counts :: "rat list \<Rightarrow> rat \<Rightarrow> nat list \<Rightarrow> nat list" where
  "bump_counts buckets v counts =
     map (\<lambda>i. if (if i < length buckets then v \<le> buckets ! i else True) then counts ! i + 1 else counts ! i)
       [0..<length counts]"

definition observe :: "registry \<Rightarrow> nat \<Rightarrow> rat \<Rightarrow> labels \<Rightarrow> registry" where
  "observe r e v ls =
     (let en = mr_hists r ! e; key = key_of (he_labelNames en) ls;
          (dropped, cm, sm, counts) =
            (case map_of (he_counts en) key of
               Some cs \<Rightarrow> ([], he_counts en, he_sums en, cs)
             | None \<Rightarrow> (let (dropped, cm) = evictOldestHalf (he_counts en)
                       in (dropped, cm, fold AList.delete dropped (he_sums en), replicate (length (he_buckets en) + 1) 0)));
          sum = (case map_of sm key of None \<Rightarrow> 0 | Some s \<Rightarrow> s) + v
      in r\<lparr>mr_hists := (mr_hists r)[e := en\<lparr>he_counts := AList.update key (bump_counts (he_buckets en) v counts) cm,
                                        he_sums := AList.update key sum sm\<rparr>],
           mr_seriesDropped := mr_seriesDropped r + length dropped\<rparr>)"

section \<open>The text exposition\<close>

definition braces :: "jsstring \<Rightarrow> jsstring" where
  "braces key = (if key = [] then [] else js ''{'' @ key @ js ''}'')"

definition render_series :: "(rat \<Rightarrow> jsstring) \<Rightarrow> string \<Rightarrow> series_entry \<Rightarrow> jsstring list" where
  "render_series num_str ty e =
     [js ''# HELP '' @ se_name e @ js '' '' @ se_help e, js ''# TYPE '' @ se_name e @ js '' '' @ js ty]
     @ map (\<lambda>(key, v). se_name e @ braces key @ js '' '' @ num_str v) (se_values e)"

definition renderCounter where
  "renderCounter num_str e = render_series num_str ''counter'' e"

definition renderGauge where
  "renderGauge num_str e = render_series num_str ''gauge'' e"

definition bucket_line :: "(rat \<Rightarrow> jsstring) \<Rightarrow> hist_entry \<Rightarrow> jsstring \<Rightarrow> nat list \<Rightarrow> nat \<Rightarrow> jsstring" where
  "bucket_line num_str e key counts i =
     (let leLabel = (if i < length (he_buckets e) then num_str (he_buckets e ! i) else js ''+Inf'');
          le = js ''le='' @ [quote_unit] @ leLabel @ [quote_unit]
      in he_name e @ js ''_bucket{'' @ (if key = [] then le else key @ js '','' @ le) @ js ''} ''
           @ num_str (of_nat (nth_or 0 counts i)))"

definition renderHistogram :: "(rat \<Rightarrow> jsstring) \<Rightarrow> hist_entry \<Rightarrow> jsstring list" where
  "renderHistogram num_str e =
     [js ''# HELP '' @ he_name e @ js '' '' @ he_help e, js ''# TYPE '' @ he_name e @ js '' histogram'']
     @ concat (map (\<lambda>(key, counts).
         map (bucket_line num_str e key counts) [0..<length (he_buckets e) + 1]
         @ [he_name e @ js ''_sum'' @ braces key @ js '' '' @ num_str (case map_of (he_sums e) key of None \<Rightarrow> 0 | Some s \<Rightarrow> s),
            he_name e @ js ''_count'' @ braces key @ js '' ''
              @ num_str (of_nat (if counts = [] then 0 else last counts))]) (he_counts e))"

definition SERIES_DROPPED_METRIC :: jsstring where
  "SERIES_DROPPED_METRIC = js ''castrum_metrics_series_dropped_total''"

definition render :: "(rat \<Rightarrow> jsstring) \<Rightarrow> registry \<Rightarrow> jsstring" where
  "render num_str r =
     (let out = concat (map (\<lambda>(_, e). renderCounter num_str (mr_series r ! e)) (mr_counters r))
            @ concat (map (\<lambda>(_, e). renderGauge num_str (mr_series r ! e)) (mr_gauges r))
            @ concat (map (\<lambda>(_, e). renderHistogram num_str (mr_hists r ! e)) (mr_histograms r))
            @ (if 0 < mr_seriesDropped r \<and> map_of (mr_counters r) SERIES_DROPPED_METRIC = None
                  \<and> map_of (mr_gauges r) SERIES_DROPPED_METRIC = None
                  \<and> map_of (mr_histograms r) SERIES_DROPPED_METRIC = None
               then [js ''# HELP '' @ SERIES_DROPPED_METRIC @ js '' Total metric series evicted by the per-family cardinality cap.'',
                     js ''# TYPE '' @ SERIES_DROPPED_METRIC @ js '' counter'',
                     SERIES_DROPPED_METRIC @ js '' '' @ num_str (of_nat (mr_seriesDropped r))]
               else [])
      in join_with [newline_unit] out @ [newline_unit])"

section \<open>Eviction and the invariant\<close>

lemma evict_spec:
  assumes "jsmap_ok m" and "evictOldestHalf m = (dropped, m')"
  shows "m' = drop (length dropped) m" "dropped = take (length dropped) (map fst m)"
    "length m' + length dropped = length m"
    "length m \<le> MAX_SERIES_PER_METRIC \<Longrightarrow> length m' < MAX_SERIES_PER_METRIC"
proof -
  define n where "n = (if length m < MAX_SERIES_PER_METRIC then 0 else (length m + 1) div 2)"
  have n: "n \<le> length m" by (auto simp: n_def MAX_SERIES_PER_METRIC_def)
  have d: "dropped = take n (map fst m)" and m': "m' = drop n m"
    using assms delete_prefix [OF assms(1)] by (auto simp: evictOldestHalf_def n_def Let_def split: if_splits)
  have ln: "length dropped = n" using n by (simp add: d)
  show "m' = drop (length dropped) m" "dropped = take (length dropped) (map fst m)" using d m' ln by simp_all
  show "length m' + length dropped = length m" using n by (simp add: m' ln)
  show "length m' < MAX_SERIES_PER_METRIC" if "length m \<le> MAX_SERIES_PER_METRIC"
    using that by (auto simp: m' n_def MAX_SERIES_PER_METRIC_def)
qed

lemma jsmap_ok_drop: "jsmap_ok m \<Longrightarrow> jsmap_ok (drop n m)"
  by (simp add: jsmap_ok_def drop_map [symmetric])

definition series_ok :: "series_entry \<Rightarrow> bool" where
  "series_ok e \<longleftrightarrow> jsmap_ok (se_values e) \<and> length (se_values e) \<le> MAX_SERIES_PER_METRIC"

text \<open>The counts a histogram series must have after observing \<open>vals\<close>.\<close>

definition hist_counts :: "rat list \<Rightarrow> rat list \<Rightarrow> nat list" where
  "hist_counts buckets vals = map (\<lambda>b. length (filter (\<lambda>v. v \<le> b) vals)) buckets @ [length vals]"

definition hist_ok :: "hist_entry \<Rightarrow> bool" where
  "hist_ok e \<longleftrightarrow> jsmap_ok (he_counts e) \<and> length (he_counts e) \<le> MAX_SERIES_PER_METRIC \<and> sorted (he_buckets e)
     \<and> map fst (he_sums e) = map fst (he_counts e)
     \<and> (\<forall>key cs. map_of (he_counts e) key = Some cs \<longrightarrow>
          (\<exists>vals. cs = hist_counts (he_buckets e) vals \<and> map_of (he_sums e) key = Some (sum_list vals)))"

definition registry_ok :: "registry \<Rightarrow> bool" where
  "registry_ok r \<longleftrightarrow> (\<forall>e \<in> set (mr_series r). series_ok e) \<and> (\<forall>e \<in> set (mr_hists r). hist_ok e)"

lemma bump_hist: "bump_counts buckets v (hist_counts buckets vals) = hist_counts buckets (vals @ [v])"
  by (rule nth_equalityI) (auto simp: bump_counts_def hist_counts_def nth_append less_Suc_eq)

lemma hist_counts_Nil: "hist_counts buckets [] = replicate (length buckets + 1) 0"
  by (simp add: hist_counts_def map_replicate_const replicate_append_same)

lemma hist_counts_sorted: "sorted buckets \<Longrightarrow> sorted (hist_counts buckets vals)"
proof -
  assume b: "sorted buckets"
  have mono: "length (filter (\<lambda>v. v \<le> a) vals) \<le> length (filter (\<lambda>v. v \<le> c) vals)" if "a \<le> c" for a c :: rat
    using that by (induction vals) (auto intro: order_trans)
  have "sorted (map (\<lambda>b. length (filter (\<lambda>v. v \<le> b) vals)) buckets)"
    using b mono by (simp add: sorted_iff_nth_mono)
  then show ?thesis by (auto simp: hist_counts_def sorted_append)
qed

lemma map_of_drop: "jsmap_ok m \<Longrightarrow> map_of (drop n m) k = Some v \<Longrightarrow> map_of m k = Some v"
  using map_of_SomeD [of "drop n m" k v] set_drop_subset [of n m]
  by (auto simp: jsmap_ok_def map_of_eq_Some_iff)

lemma put_series_entry:
  assumes ok: "series_ok (mr_series r ! e)"
  shows "\<exists>en' n. put_series r e ls v f = r\<lparr>mr_series := (mr_series r)[e := en'], mr_seriesDropped := mr_seriesDropped r + n\<rparr>
    \<and> series_ok en' \<and> length (se_values en') + n = length (se_values (mr_series r ! e))
        + (if map_of (se_values (mr_series r ! e)) (key_of (se_labelNames (mr_series r ! e)) ls) = None then 1 else 0)"
proof -
  let ?en = "mr_series r ! e"
  let ?key = "key_of (se_labelNames ?en) ls"
  have m: "jsmap_ok (se_values ?en)" "length (se_values ?en) \<le> MAX_SERIES_PER_METRIC"
    using ok by (simp_all add: series_ok_def)
  show ?thesis
  proof (cases "map_of (se_values ?en) ?key")
    case None
    obtain dropped vals where ev: "evictOldestHalf (se_values ?en) = (dropped, vals)" by force
    note E = evict_spec [OF m(1) ev]
    have "map_of vals ?key = None"
      using None map_of_drop [OF m(1), of "length dropped" ?key] E(1) by (cases "map_of vals ?key") auto
    then have up: "AList.update ?key v vals = vals @ [(?key, v)]" by (simp add: update_absent map_of_None_keys)
    have "jsmap_ok vals" using m(1) E(1) jsmap_ok_drop by metis
    then have "jsmap_ok (AList.update ?key v vals)" by simp
    with None ev E(3) E(4) [OF m(2)] up show ?thesis
      by (intro exI [of _ "?en\<lparr>se_values := AList.update ?key v vals\<rparr>"] exI [of _ "length dropped"])
        (simp add: put_series_def Let_def series_ok_def)
  next
    case (Some prev)
    with m length_update_present [OF Some, of "f prev"] show ?thesis
      by (intro exI [of _ "?en\<lparr>se_values := AList.update ?key (f prev) (se_values ?en)\<rparr>"] exI [of _ 0])
        (simp add: put_series_def Let_def series_ok_def)
  qed
qed

lemma delete_sums:
  assumes "jsmap_ok cm" "map fst sm = map fst cm" "evictOldestHalf cm = (dropped, cm')"
  shows "fold AList.delete dropped sm = drop (length dropped) sm"
proof -
  have "jsmap_ok sm" using assms(1,2) by (simp add: jsmap_ok_def)
  moreover have "dropped = take (length dropped) (map fst sm)" using evict_spec(2) [OF assms(1,3)] assms(2) by simp
  ultimately show ?thesis using delete_prefix [of sm "length dropped"] by simp
qed

text \<open>What \<open>observe\<close> does to its entry.\<close>

lemma observe_entry:
  assumes ok: "hist_ok (mr_hists r ! e)"
  shows "\<exists>en' n vals. observe r e v ls = r\<lparr>mr_hists := (mr_hists r)[e := en'], mr_seriesDropped := mr_seriesDropped r + n\<rparr>
    \<and> hist_ok en' \<and> he_buckets en' = he_buckets (mr_hists r ! e)
    \<and> map_of (he_counts en') (key_of (he_labelNames (mr_hists r ! e)) ls) = Some (hist_counts (he_buckets en') (vals @ [v]))
    \<and> map_of (he_sums en') (key_of (he_labelNames (mr_hists r ! e)) ls) = Some (sum_list vals + v)
    \<and> (case map_of (he_counts (mr_hists r ! e)) (key_of (he_labelNames (mr_hists r ! e)) ls) of
         None \<Rightarrow> vals = [] | Some cs \<Rightarrow> cs = hist_counts (he_buckets en') vals)
    \<and> length (he_counts en') + n = length (he_counts (mr_hists r ! e))
        + (if map_of (he_counts (mr_hists r ! e)) (key_of (he_labelNames (mr_hists r ! e)) ls) = None then 1 else 0)"
proof -
  let ?en = "mr_hists r ! e"
  let ?key = "key_of (he_labelNames ?en) ls"
  have cm: "jsmap_ok (he_counts ?en)" "length (he_counts ?en) \<le> MAX_SERIES_PER_METRIC"
    and keys: "map fst (he_sums ?en) = map fst (he_counts ?en)" and srt: "sorted (he_buckets ?en)"
    and vals: "\<And>key cs. map_of (he_counts ?en) key = Some cs \<Longrightarrow>
      \<exists>vals. cs = hist_counts (he_buckets ?en) vals \<and> map_of (he_sums ?en) key = Some (sum_list vals)"
    using ok by (auto simp: hist_ok_def)
  have sm: "jsmap_ok (he_sums ?en)" using cm keys by (simp add: jsmap_ok_def)
  show ?thesis
  proof (cases "map_of (he_counts ?en) ?key")
    case (Some cs)
    obtain xs where xs: "cs = hist_counts (he_buckets ?en) xs" "map_of (he_sums ?en) ?key = Some (sum_list xs)"
      using vals [OF Some] by blast
    let ?en' = "?en\<lparr>he_counts := AList.update ?key (bump_counts (he_buckets ?en) v cs) (he_counts ?en),
      he_sums := AList.update ?key (sum_list xs + v) (he_sums ?en)\<rparr>"
    have ks: "?key \<in> set (map fst (he_counts ?en))" using Some by (metis map_of_None_keys option.distinct(1))
    have "hist_ok ?en'"
      unfolding hist_ok_def
      using cm keys srt vals xs ks length_update_present [OF Some, of "bump_counts (he_buckets ?en) v cs"]
      by (auto simp: update_keys bump_hist intro: exI [of _ "xs @ [v]"])
    moreover have "observe r e v ls = r\<lparr>mr_hists := (mr_hists r)[e := ?en'], mr_seriesDropped := mr_seriesDropped r + 0\<rparr>"
      using Some xs by (simp add: observe_def Let_def)
    ultimately show ?thesis
      using Some xs length_update_present [OF Some, of "bump_counts (he_buckets ?en) v cs"]
      by (intro exI [of _ ?en'] exI [of _ 0] exI [of _ xs]) (simp add: bump_hist)
  next
    case None
    obtain dropped cm' where ev: "evictOldestHalf (he_counts ?en) = (dropped, cm')" by force
    note E = evict_spec [OF cm(1) ev]
    let ?sm' = "drop (length dropped) (he_sums ?en)"
    have dk: "map fst ?sm' = map fst cm'" using keys E(1) by (simp add: drop_map [symmetric])
    have nc: "map_of cm' ?key = None"
      using None map_of_drop [OF cm(1), of "length dropped" ?key] E(1) by (cases "map_of cm' ?key") auto
    then have ns: "map_of ?sm' ?key = None" using dk by (simp add: map_of_None_keys)
    let ?cs = "hist_counts (he_buckets ?en) [v]"
    have upc: "AList.update ?key ?cs cm' = cm' @ [(?key, ?cs)]" and ups: "AList.update ?key v ?sm' = ?sm' @ [(?key, v)]"
      using nc ns by (simp_all add: update_absent map_of_None_keys)
    let ?en' = "?en\<lparr>he_counts := AList.update ?key ?cs cm', he_sums := AList.update ?key v ?sm'\<rparr>"
    have okc: "jsmap_ok cm'" using cm(1) E(1) jsmap_ok_drop by metis
    have "\<exists>xs. cs = hist_counts (he_buckets ?en) xs \<and> map_of (he_sums ?en') key = Some (sum_list xs)"
      if m: "map_of (he_counts ?en') key = Some cs" for key cs
    proof (cases "key = ?key")
      case True
      with m show ?thesis by (intro exI [of _ "[v]"]) simp
    next
      case False
      then have "map_of cm' key = Some cs" using m by simp
      moreover from this have "map_of (he_counts ?en) key = Some cs" using map_of_drop [OF cm(1)] E(1) by metis
      then obtain xs where xs: "cs = hist_counts (he_buckets ?en) xs" "map_of (he_sums ?en) key = Some (sum_list xs)"
        using vals by blast
      moreover have "map_of ?sm' key = Some (sum_list xs)"
      proof -
        have "map_of ?sm' key \<noteq> None" using \<open>map_of cm' key = Some cs\<close> dk by (metis map_of_None_keys option.distinct(1))
        then show ?thesis using map_of_drop [OF sm, of "length dropped" key] xs(2) by auto
      qed
      ultimately show ?thesis using False by auto
    qed
    moreover have "jsmap_ok (AList.update ?key ?cs cm')" using okc by simp
    ultimately have "hist_ok ?en'"
      unfolding hist_ok_def using E(4) [OF cm(2)] srt dk upc ups by simp
    moreover have "observe r e v ls = r\<lparr>mr_hists := (mr_hists r)[e := ?en'], mr_seriesDropped := mr_seriesDropped r + length dropped\<rparr>"
      using None ev ns delete_sums [OF cm(1) keys ev] bump_hist [of "he_buckets ?en" v "[]"]
      by (simp add: observe_def Let_def hist_counts_Nil)
    moreover have "length (AList.update ?key ?cs cm') = Suc (length cm')" unfolding upc by simp
    ultimately show ?thesis
      using None E(3)
      by (intro exI [of _ ?en'] exI [of _ "length dropped"] exI [of _ "[]"]) simp
  qed
qed

section \<open>The registry as a state machine\<close>

inductive registry_step :: "registry \<Rightarrow> registry \<Rightarrow> bool" where
  rs_counter: "registry_step r (snd (counter r name help ns))"
| rs_gauge: "registry_step r (snd (gauge r name help ns))"
| rs_histogram: "registry_step r (snd (histogram r name help bs ns))"
| rs_inc: "e < length (mr_series r) \<Longrightarrow> registry_step r (counter_inc r e ls v)"
| rs_ginc: "e < length (mr_series r) \<Longrightarrow> registry_step r (gauge_inc r e ls v)"
| rs_gdec: "e < length (mr_series r) \<Longrightarrow> registry_step r (gauge_dec r e ls v)"
| rs_gset: "e < length (mr_series r) \<Longrightarrow> registry_step r (gauge_set r e ls v)"
| rs_observe: "e < length (mr_hists r) \<Longrightarrow> registry_step r (observe r e v ls)"
| rs_reset: "registry_step r (reset r)"

definition registry_reach :: "registry \<Rightarrow> bool" where
  "registry_reach r \<longleftrightarrow> registry_step\<^sup>*\<^sup>* createMetrics r"

lemma all_update: "\<forall>x \<in> set xs. P x \<Longrightarrow> P y \<Longrightarrow> \<forall>x \<in> set (xs[i := y]). P x"
  using set_update_subset_insert [of xs i y] by blast

lemma put_series_ok:
  assumes "registry_ok r" "e < length (mr_series r)"
  shows "registry_ok (put_series r e ls v f)"
proof -
  have "series_ok (mr_series r ! e)" using assms by (simp add: registry_ok_def)
  from put_series_entry [OF this, of ls v f] obtain en' n where
    p: "put_series r e ls v f = r\<lparr>mr_series := (mr_series r)[e := en'], mr_seriesDropped := mr_seriesDropped r + n\<rparr>" "series_ok en'"
    by (elim exE conjE) (rule that)
  have "\<forall>x \<in> set ((mr_series r)[e := en']). series_ok x"
    using assms(1) p(2) by (intro all_update) (simp_all add: registry_ok_def)
  with assms(1) show ?thesis by (simp add: registry_ok_def p(1))
qed

lemma observe_ok:
  assumes "registry_ok r" "e < length (mr_hists r)"
  shows "registry_ok (observe r e v ls)"
proof -
  have "hist_ok (mr_hists r ! e)" using assms by (simp add: registry_ok_def)
  from observe_entry [OF this, of v ls] obtain en' n where
    p: "observe r e v ls = r\<lparr>mr_hists := (mr_hists r)[e := en'], mr_seriesDropped := mr_seriesDropped r + n\<rparr>" "hist_ok en'"
    by (elim exE conjE) (rule that)
  have "\<forall>x \<in> set ((mr_hists r)[e := en']). hist_ok x"
    using assms(1) p(2) by (intro all_update) (simp_all add: registry_ok_def)
  with assms(1) show ?thesis by (simp add: registry_ok_def p(1))
qed

lemma registry_step_ok: "registry_step r r' \<Longrightarrow> registry_ok r \<Longrightarrow> registry_ok r'"
proof (induction rule: registry_step.induct)
  case (rs_counter r nm hp ns)
  then show ?case by (auto simp: counter_def registry_ok_def series_ok_def split: option.splits)
next
  case (rs_gauge r nm hp ns)
  then show ?case by (auto simp: gauge_def registry_ok_def series_ok_def split: option.splits)
next
  case (rs_histogram r nm hp bs ns)
  then show ?case by (auto simp: histogram_def registry_ok_def hist_ok_def split: option.splits)
next
  case (rs_reset r)
  then show ?case by (simp add: reset_def registry_ok_def)
qed (simp_all add: counter_inc_def gauge_inc_def gauge_dec_def gauge_set_def put_series_ok observe_ok)

lemma registry_reach_ok: "registry_reach r \<Longrightarrow> registry_ok r"
  unfolding registry_reach_def
  by (induction rule: rtranclp_induct) (simp add: createMetrics_def registry_ok_def, simp add: registry_step_ok)

section \<open>Properties\<close>

text \<open>
  Series are never merged: for a family's label names, two value lists have the same series key
  exactly when they are equal, whatever quotes, backslashes, newlines or commas the values hold.
\<close>

theorem labelKey_injective:
  assumes "length vs = length names" and "length ws = length names"
  shows "labelKey names vs = labelKey names ws \<longleftrightarrow> vs = ws"
  using join_parts_inj [OF assms] by (auto simp: labelKey_map2 assms)

theorem labelKey_injective_witness:
  "labelKey [js ''a'', js ''b''] [js ''x'', js ''y''] = labelKey [js ''a'', js ''b''] [js ''x,b='', js ''y'']
     \<longleftrightarrow> [js ''x'', js ''y''] = [js ''x,b='', js ''y'']"
  by (rule labelKey_injective) simp_all

text \<open>
  Histograms count correctly: in every reachable registry, each live series of a histogram has, for
  some sequence of observed values, cumulative bucket counts equal to the number of values up to each
  bound, non-decreasing along the sorted bounds and ending with the total count, and a sum equal to the
  sum of the values; an observation extends exactly that sequence, or starts a new one.
\<close>

theorem histogram_cumulative:
  assumes "registry_reach r" and "e < length (mr_hists r)"
  shows "(\<forall>key cs. map_of (he_counts (mr_hists r ! e)) key = Some cs \<longrightarrow>
      (\<exists>vals. cs = hist_counts (he_buckets (mr_hists r ! e)) vals \<and> sorted cs \<and> last cs = length vals
        \<and> map_of (he_sums (mr_hists r ! e)) key = Some (sum_list vals)))
    \<and> (\<exists>vals. let key = key_of (he_labelNames (mr_hists r ! e)) ls; en' = mr_hists (observe r e v ls) ! e
        in (case map_of (he_counts (mr_hists r ! e)) key of None \<Rightarrow> vals = []
              | Some cs \<Rightarrow> cs = hist_counts (he_buckets (mr_hists r ! e)) vals)
           \<and> map_of (he_counts en') key = Some (hist_counts (he_buckets (mr_hists r ! e)) (vals @ [v])))"
proof -
  have ok: "hist_ok (mr_hists r ! e)" using registry_reach_ok [OF assms(1)] assms(2) by (simp add: registry_ok_def)
  have 1: "\<exists>vals. cs = hist_counts (he_buckets (mr_hists r ! e)) vals \<and> sorted cs \<and> last cs = length vals
        \<and> map_of (he_sums (mr_hists r ! e)) key = Some (sum_list vals)"
    if m: "map_of (he_counts (mr_hists r ! e)) key = Some cs" for key cs
  proof -
    obtain vals where v: "cs = hist_counts (he_buckets (mr_hists r ! e)) vals"
      "map_of (he_sums (mr_hists r ! e)) key = Some (sum_list vals)" using ok m unfolding hist_ok_def by blast
    moreover have "sorted cs" using ok v(1) hist_counts_sorted by (simp add: hist_ok_def)
    moreover have "last cs = length vals" using v(1) by (simp add: hist_counts_def)
    ultimately show ?thesis by blast
  qed
  obtain en' n vals where o: "observe r e v ls = r\<lparr>mr_hists := (mr_hists r)[e := en'], mr_seriesDropped := mr_seriesDropped r + n\<rparr>"
    "he_buckets en' = he_buckets (mr_hists r ! e)"
    "map_of (he_counts en') (key_of (he_labelNames (mr_hists r ! e)) ls) = Some (hist_counts (he_buckets en') (vals @ [v]))"
    "case map_of (he_counts (mr_hists r ! e)) (key_of (he_labelNames (mr_hists r ! e)) ls) of
         None \<Rightarrow> vals = [] | Some cs \<Rightarrow> cs = hist_counts (he_buckets en') vals"
    using observe_entry [OF ok, of v ls] by (elim exE conjE) (rule that)
  have "mr_hists (observe r e v ls) ! e = en'" using o(1) assms(2) by simp
  with 1 o(2-4) show ?thesis by (intro conjI exI [of _ vals]) (auto simp: Let_def split: option.splits)
qed

definition demo_registry :: registry where
  "demo_registry = snd (histogram createMetrics (js ''h'') (js ''help'') [1, 1 / 2] [])"

lemma demo_registry_reach: "registry_reach demo_registry"
  unfolding registry_reach_def demo_registry_def by (rule r_into_rtranclp) (rule rs_histogram)

theorem histogram_cumulative_witness:
  "\<exists>vals. let key = key_of (he_labelNames (mr_hists demo_registry ! 0)) Map.empty;
        en' = mr_hists (observe demo_registry 0 2 Map.empty) ! 0
      in (case map_of (he_counts (mr_hists demo_registry ! 0)) key of None \<Rightarrow> vals = []
              | Some cs \<Rightarrow> cs = hist_counts (he_buckets (mr_hists demo_registry ! 0)) vals)
           \<and> map_of (he_counts en') key = Some (hist_counts (he_buckets (mr_hists demo_registry ! 0)) (vals @ [2]))"
proof -
  have "0 < length (mr_hists demo_registry)" by (simp add: demo_registry_def histogram_def createMetrics_def)
  from histogram_cumulative [OF demo_registry_reach this, of Map.empty 2] show ?thesis by blast
qed

text \<open>
  Cardinality is bounded and accounted for: in every reachable registry no family holds more than
  10000 series, and an increment either updates a present series or adds one, where the live series of
  the family plus the reported drops grow by exactly one.
\<close>

theorem series_bounded:
  assumes "registry_reach r" and "e < length (mr_series r)"
  shows "length (se_values (mr_series r ! e)) \<le> MAX_SERIES_PER_METRIC
    \<and> (let r' = counter_inc r e ls v; vals = se_values (mr_series r ! e); key = key_of (se_labelNames (mr_series r ! e)) ls
       in length (se_values (mr_series r' ! e)) + mr_seriesDropped r'
            = length vals + mr_seriesDropped r + (if map_of vals key = None then 1 else 0)
          \<and> length (se_values (mr_series r' ! e)) \<le> MAX_SERIES_PER_METRIC)"
proof -
  have ok: "series_ok (mr_series r ! e)" using registry_reach_ok [OF assms(1)] assms(2) by (simp add: registry_ok_def)
  obtain en' n where p: "counter_inc r e ls v = r\<lparr>mr_series := (mr_series r)[e := en'], mr_seriesDropped := mr_seriesDropped r + n\<rparr>"
    "series_ok en'" "length (se_values en') + n = length (se_values (mr_series r ! e))
        + (if map_of (se_values (mr_series r ! e)) (key_of (se_labelNames (mr_series r ! e)) ls) = None then 1 else 0)"
    using put_series_entry [OF ok, of ls v "\<lambda>prev. prev + v", folded counter_inc_def] by (elim exE conjE) (rule that)
  have "mr_series (counter_inc r e ls v) ! e = en'" using p(1) assms(2) by simp
  with ok p show ?thesis by (auto simp: Let_def series_ok_def)
qed

theorem series_bounded_witness:
  "length (se_values (mr_series (snd (counter createMetrics (js ''c'') (js ''h'') [])) ! 0)) \<le> MAX_SERIES_PER_METRIC"
proof -
  have "registry_reach (snd (counter createMetrics (js ''c'') (js ''h'') []))"
    unfolding registry_reach_def by (rule r_into_rtranclp) (rule rs_counter)
  then show ?thesis
    using series_bounded [of "snd (counter createMetrics (js ''c'') (js ''h'') [])" 0]
    by (simp add: counter_def createMetrics_def)
qed

text \<open>
  A handle obtained before \<open>reset\<close> writes to a detached family: an increment through it after the
  reset is not rendered (the exposition is the same as without it), unless the detached family overflows
  and raises the drop counter.
\<close>

theorem stale_handle_not_rendered:
  assumes "registry_reach r" and "e < length (mr_series r)"
    and "length (se_values (mr_series r ! e)) < MAX_SERIES_PER_METRIC"
  shows "render num_str (counter_inc (reset r) e ls v) = render num_str (reset r)"
proof -
  have ev: "evictOldestHalf (se_values (mr_series r ! e)) = ([], se_values (mr_series r ! e))"
    using assms(3) by (simp add: evictOldestHalf_def)
  then show ?thesis
    by (simp add: counter_inc_def put_series_def reset_def render_def Let_def split: option.splits)
qed

theorem stale_handle_not_rendered_witness:
  "render (\<lambda>_. js ''1'') (counter_inc (reset (snd (counter createMetrics (js ''c'') (js ''h'') []))) 0 Map.empty 1)
     = render (\<lambda>_. js ''1'') (reset (snd (counter createMetrics (js ''c'') (js ''h'') [])))"
proof -
  have "registry_reach (snd (counter createMetrics (js ''c'') (js ''h'') []))"
    unfolding registry_reach_def by (rule r_into_rtranclp) (rule rs_counter)
  then show ?thesis
    by (rule stale_handle_not_rendered) (simp_all add: counter_def createMetrics_def MAX_SERIES_PER_METRIC_def)
qed

end
