(* ===== verification/IngressMetrics.thy ===== *)
theory IngressMetrics
  imports HandlerService Metrics
begin

text \<open>
  The request metrics of \<open>src/src/ingress/metrics.ts\<close> as hooks of the request handler: the counters,
  the latency histogram and the in-flight gauge live in a registry of \<open>shared/metrics.ts\<close>, and a map
  from request id to start time makes the gauge count every request once.

  A hook call carries what the handler passes it and the clock reads; \<open>String(status)\<close> is a parameter.
\<close>

section \<open>The hooks\<close>

record ingress_metrics =
  im_registry :: registry
  im_requestsTotal :: nat
  im_requestDuration :: nat
  im_errorsTotal :: nat
  im_rateLimitedTotal :: nat
  im_inFlight :: nat
  im_active :: "(jsstring, rat) jsmap"

definition DEFAULT_BUCKETS :: "rat list" where
  "DEFAULT_BUCKETS = [1/1000, 25/10000, 5/1000, 1/100, 25/1000, 5/100, 1/10, 25/100, 5/10, 1, 25/10, 5, 10]"

definition createIngressMetrics :: ingress_metrics where
  "createIngressMetrics =
     (let (requestsTotal, r1) = counter createMetrics (js ''castrum_http_requests_total'')
            (js ''Total ingress requests processed.'') [js ''method'', js ''status''];
          (requestDuration, r2) = histogram r1 (js ''castrum_http_request_duration_seconds'')
            (js ''Ingress request latency in seconds.'') DEFAULT_BUCKETS [js ''method'', js ''status''];
          (errorsTotal, r3) = counter r2 (js ''castrum_http_errors_total'') (js ''Total internal/terminal errors.'') [js ''code''];
          (rateLimitedTotal, r4) = counter r3 (js ''castrum_http_rate_limited_total'')
            (js ''Total requests rejected by the rate limiter (429).'') [];
          (inflight, r5) = gauge r4 (js ''castrum_http_in_flight_requests'') (js ''Requests currently being processed.'') []
      in \<lparr>im_registry = r5, im_requestsTotal = requestsTotal, im_requestDuration = requestDuration,
          im_errorsTotal = errorsTotal, im_rateLimitedTotal = rateLimitedTotal, im_inFlight = inflight, im_active = []\<rparr>)"

definition no_labels :: labels where "no_labels = (\<lambda>_. None)"

definition method_status :: "jsstring \<Rightarrow> jsstring \<Rightarrow> labels" where
  "method_status mth st = (\<lambda>n. if n = js ''method'' then Some mth else if n = js ''status'' then Some st else None)"

definition im_onRequest :: "jsstring \<Rightarrow> rat \<Rightarrow> ingress_metrics \<Rightarrow> ingress_metrics" where
  "im_onRequest requestId now m =
     (let m1 = (if requestId \<noteq> [] then m\<lparr>im_active := AList.update requestId now (im_active m)\<rparr> else m)
      in m1\<lparr>im_registry := gauge_inc (im_registry m1) (im_inFlight m1) no_labels 1\<rparr>)"

definition im_onResponse :: "(nat \<Rightarrow> jsstring) \<Rightarrow> jsstring \<Rightarrow> bool \<Rightarrow> nat \<Rightarrow> jsstring \<Rightarrow> rat \<Rightarrow> ingress_metrics \<Rightarrow> ingress_metrics" where
  "im_onResponse str mth limited code requestId now m =
     (let ls = method_status mth (str code);
          m1 = m\<lparr>im_registry := counter_inc (im_registry m) (im_requestsTotal m) ls 1\<rparr>;
          m2 = (case (if requestId \<noteq> [] then map_of (im_active m1) requestId else None) of
                  Some started \<Rightarrow>
                    (let r1 = gauge_dec (im_registry m1) (im_inFlight m1) no_labels 1
                     in m1\<lparr>im_active := AList.delete requestId (im_active m1),
                           im_registry := observe r1 (im_requestDuration m1) (max (now - started) 0 / 1000) ls\<rparr>)
                | None \<Rightarrow> m1)
      in if limited then m2\<lparr>im_registry := counter_inc (im_registry m2) (im_rateLimitedTotal m2) no_labels 1\<rparr> else m2)"

definition im_onError :: "jsstring \<Rightarrow> jsstring \<Rightarrow> ingress_metrics \<Rightarrow> ingress_metrics" where
  "im_onError requestId name m =
     (let m1 = (if requestId \<noteq> [] \<and> map_of (im_active m) requestId \<noteq> None
                then m\<lparr>im_active := AList.delete requestId (im_active m),
                       im_registry := gauge_dec (im_registry m) (im_inFlight m) no_labels 1\<rparr>
                else m)
      in m1\<lparr>im_registry := counter_inc (im_registry m1) (im_errorsTotal m1)
             (\<lambda>n. if n = js ''code'' then Some name else None) 1\<rparr>)"

section \<open>Feeding the hook calls of a handler\<close>

record hook_data =
  dt_method :: jsstring
  dt_limited :: bool
  dt_now :: rat
  dt_error :: jsstring

fun hook_call :: "(nat \<Rightarrow> jsstring) \<Rightarrow> run_event \<times> hook_data \<Rightarrow> ingress_metrics \<Rightarrow> ingress_metrics" where
  "hook_call str (OnRequest i, d) m = im_onRequest i (dt_now d) m"
| "hook_call str (OnResponse i st, d) m = im_onResponse str (dt_method d) (dt_limited d) st i (dt_now d) m"
| "hook_call str (OnError i, d) m = im_onError i (dt_error d) m"
| "hook_call str (e, d) m = m"

definition hook_calls :: "(nat \<Rightarrow> jsstring) \<Rightarrow> (run_event \<times> hook_data) list \<Rightarrow> ingress_metrics \<Rightarrow> ingress_metrics" where
  "hook_calls str es m = fold (hook_call str) es m"

section \<open>The gauge and the active requests\<close>

definition gauge_value :: "ingress_metrics \<Rightarrow> rat" where
  "gauge_value m = (case map_of (se_values (mr_series (im_registry m) ! im_inFlight m)) [] of None \<Rightarrow> 0 | Some v \<Rightarrow> v)"

text \<open>The families are distinct, and the gauge has at most its one series.\<close>

definition metrics_ok :: "ingress_metrics \<Rightarrow> bool" where
  "metrics_ok m \<longleftrightarrow> im_inFlight m < length (mr_series (im_registry m))
     \<and> im_inFlight m \<notin> {im_requestsTotal m, im_errorsTotal m, im_rateLimitedTotal m}
     \<and> se_labelNames (mr_series (im_registry m) ! im_inFlight m) = []
     \<and> (case se_values (mr_series (im_registry m) ! im_inFlight m) of [] \<Rightarrow> True | [(k, v)] \<Rightarrow> k = [] | _ \<Rightarrow> False)"

lemma key_no_labels [simp]: "key_of [] ls = []"
  by (simp add: key_of_def labelKey_def)

lemma put_series_other: "e \<noteq> e' \<Longrightarrow> mr_series (put_series r e ls v f) ! e' = mr_series r ! e'
    \<and> length (mr_series (put_series r e ls v f)) = length (mr_series r)"
  by (simp add: put_series_def Let_def split: option.splits prod.splits)

lemma observe_series [simp]: "mr_series (observe r e v ls) = mr_series r"
  by (simp add: observe_def Let_def split: option.splits prod.splits)

lemma gauge_moves:
  assumes ok: "metrics_ok m"
  shows "metrics_ok (m\<lparr>im_active := a, im_registry := put_series (im_registry m) (im_inFlight m) no_labels d (\<lambda>p. p + d)\<rparr>)
    \<and> gauge_value (m\<lparr>im_active := a, im_registry := put_series (im_registry m) (im_inFlight m) no_labels d (\<lambda>p. p + d)\<rparr>) = gauge_value m + d"
proof (cases "se_values (mr_series (im_registry m) ! im_inFlight m)")
  case Nil
  with ok show ?thesis
    by (simp add: metrics_ok_def gauge_value_def put_series_def Let_def evictOldestHalf_def MAX_SERIES_PER_METRIC_def)
next
  case (Cons kv kvs)
  with ok obtain v where v: "se_values (mr_series (im_registry m) ! im_inFlight m) = [([], v)]"
    by (cases kv; cases kvs) (auto simp: metrics_ok_def)
  with ok show ?thesis by (simp add: metrics_ok_def gauge_value_def put_series_def Let_def)
qed

lemma gauge_stays:
  assumes "metrics_ok m" and "e \<in> {im_requestsTotal m, im_errorsTotal m, im_rateLimitedTotal m}"
  shows "metrics_ok (m\<lparr>im_registry := put_series (im_registry m) e ls v f\<rparr>)
    \<and> gauge_value (m\<lparr>im_registry := put_series (im_registry m) e ls v f\<rparr>) = gauge_value m"
proof -
  have "e \<noteq> im_inFlight m" using assms by (auto simp: metrics_ok_def)
  from put_series_other [OF this] assms(1) show ?thesis by (simp add: metrics_ok_def gauge_value_def)
qed

lemma gauge_observe:
  "metrics_ok (m\<lparr>im_registry := observe r e v ls\<rparr>) = metrics_ok (m\<lparr>im_registry := r\<rparr>)"
  "gauge_value (m\<lparr>im_registry := observe r e v ls\<rparr>) = gauge_value (m\<lparr>im_registry := r\<rparr>)"
  by (simp_all add: metrics_ok_def gauge_value_def)

lemma createIngressMetrics_ok: "metrics_ok createIngressMetrics \<and> im_active createIngressMetrics = [] \<and> gauge_value createIngressMetrics = 0"
  by (simp add: createIngressMetrics_def createMetrics_def counter_def gauge_def histogram_def Let_def metrics_ok_def gauge_value_def js_def)

text \<open>What one hook call does to the gauge and to the active requests.\<close>

definition moves :: "ingress_metrics \<Rightarrow> rat \<Rightarrow> (jsstring, rat) jsmap \<Rightarrow> ingress_metrics \<Rightarrow> bool" where
  "moves m d a m' \<longleftrightarrow> metrics_ok m' \<and> gauge_value m' = gauge_value m + d \<and> im_active m' = a"

lemma onRequest_moves:
  assumes "metrics_ok m"
  shows "moves m 1 (if i = [] then im_active m else AList.update i now (im_active m)) (im_onRequest i now m)"
  using gauge_moves [OF assms, where a = "im_active m" and d = 1] gauge_moves [OF assms, where a = "AList.update i now (im_active m)" and d = 1]
  by (simp add: moves_def im_onRequest_def gauge_inc_def)

lemma onError_moves:
  assumes ok: "metrics_ok m"
  shows "if i \<noteq> [] \<and> map_of (im_active m) i \<noteq> None then moves m (- 1) (AList.delete i (im_active m)) (im_onError i n m)
    else moves m 0 (im_active m) (im_onError i n m)"
proof (cases "i \<noteq> [] \<and> map_of (im_active m) i \<noteq> None")
  case True
  let ?m = "m\<lparr>im_active := AList.delete i (im_active m), im_registry := gauge_dec (im_registry m) (im_inFlight m) no_labels 1\<rparr>"
  have g: "metrics_ok ?m \<and> gauge_value ?m = gauge_value m - 1"
    using gauge_moves [OF ok, where a = "AList.delete i (im_active m)" and d = "- 1"] by (simp add: gauge_dec_def)
  from True gauge_stays [of ?m "im_errorsTotal ?m"] g show ?thesis by (simp add: moves_def im_onError_def counter_inc_def Let_def)
next
  case False
  with gauge_stays [OF ok, of "im_errorsTotal m"] show ?thesis by (auto simp: moves_def im_onError_def counter_inc_def Let_def)
qed

lemma onResponse_moves:
  assumes ok: "metrics_ok m"
  shows "if i \<noteq> [] \<and> map_of (im_active m) i \<noteq> None
    then moves m (- 1) (AList.delete i (im_active m)) (im_onResponse str mth limited code i now m)
    else moves m 0 (im_active m) (im_onResponse str mth limited code i now m)"
proof -
  let ?ls = "method_status mth (str code)"
  define m1 where "m1 = m\<lparr>im_registry := counter_inc (im_registry m) (im_requestsTotal m) ?ls 1\<rparr>"
  have 1: "metrics_ok m1" "gauge_value m1 = gauge_value m" "im_active m1 = im_active m"
    using gauge_stays [OF ok, of "im_requestsTotal m"] by (simp_all add: m1_def counter_inc_def)
  define m2 where "m2 = (case (if i \<noteq> [] then map_of (im_active m1) i else None) of
      Some started \<Rightarrow> m1\<lparr>im_active := AList.delete i (im_active m1),
        im_registry := observe (gauge_dec (im_registry m1) (im_inFlight m1) no_labels 1) (im_requestDuration m1) (max (now - started) 0 / 1000) ?ls\<rparr>
    | None \<Rightarrow> m1)"
  have r: "im_onResponse str mth limited code i now m
      = (if limited then m2\<lparr>im_registry := counter_inc (im_registry m2) (im_rateLimitedTotal m2) no_labels 1\<rparr> else m2)"
    unfolding im_onResponse_def m2_def m1_def Let_def ..
  have 2: "if i \<noteq> [] \<and> map_of (im_active m) i \<noteq> None then moves m (- 1) (AList.delete i (im_active m)) m2 else moves m 0 (im_active m) m2"
  proof (cases "if i \<noteq> [] then map_of (im_active m1) i else None")
    case None
    with 1 show ?thesis by (auto simp: m2_def moves_def split: if_splits)
  next
    case (Some t)
    have "i \<noteq> []" "map_of (im_active m) i \<noteq> None" using Some 1(3) by (auto split: if_splits)
    moreover have "metrics_ok m2 \<and> gauge_value m2 = gauge_value m - 1"
      using Some gauge_moves [OF 1(1), where a = "AList.delete i (im_active m1)" and d = "- 1"] 1(2)
        gauge_observe [where m = "m1\<lparr>im_active := AList.delete i (im_active m1)\<rparr>"]
      by (simp add: m2_def gauge_dec_def)
    ultimately show ?thesis using Some 1(3) by (simp add: moves_def m2_def)
  qed
  then have ok2: "metrics_ok m2" by (auto simp: moves_def split: if_splits)
  from 2 gauge_stays [OF ok2, of "im_rateLimitedTotal m2"] show ?thesis
    unfolding r by (auto simp: moves_def counter_inc_def split: if_splits)
qed

section \<open>The hook calls of a run\<close>

fun is_hook :: "run_event \<Rightarrow> bool" where
  "is_hook (OnRequest i) = True" | "is_hook (OnResponse i c) = True" | "is_hook (OnError i) = True" | "is_hook _ = False"

text \<open>\<open>calls st st' hs\<close>: between the two states the hooks were called as \<open>hs\<close> says.\<close>

definition calls :: "handler \<Rightarrow> handler \<Rightarrow> run_event list \<Rightarrow> bool" where
  "calls st st' hs \<longleftrightarrow> hd_cfg st' = hd_cfg st \<and> (\<exists>es. hd_events st' = hd_events st @ es \<and> filter is_hook es = hs)"

lemma calls_refl: "hd_cfg st' = hd_cfg st \<Longrightarrow> hd_events st' = hd_events st \<Longrightarrow> calls st st' []"
  by (simp add: calls_def)

lemma calls_trans: "calls a b xs \<Longrightarrow> calls b c ys \<Longrightarrow> calls a c (xs @ ys)"
  by (fastforce simp: calls_def)

lemma calls_emit: "calls a b xs \<Longrightarrow> calls a (emit e b) (xs @ (if is_hook e then [e] else []))"
  by (fastforce simp: calls_def)

lemma calls_update:
  "calls a b xs \<Longrightarrow> hd_cfg b' = hd_cfg b \<Longrightarrow> hd_events b' = hd_events b \<Longrightarrow> calls a b' xs"
  by (simp add: calls_def)

lemma calls_reset [simp]: "calls a (b\<lparr>hd_result := r, hd_ctx := c\<rparr>) xs = calls a b xs"
  by (simp add: calls_def)

lemma calls_pack: "pack_input ri st = Inr (i, st') \<Longrightarrow> calls st st' []"
  by (auto simp: pack_input_def rbind_Inr_conv calls_def)

lemma calls_napi: "call_napi ni ri i h st = (r, st') \<Longrightarrow> calls st st' []"
  by (auto simp: call_napi_def calls_def write_output_def split: prod.splits)

lemma calls_rerun: "napi_rerun ni ri h st = (r, st') \<Longrightarrow> calls st st' []"
  by (auto simp: napi_rerun_def calls_refl split: sum.splits prod.splits dest!: calls_pack calls_napi dest: calls_trans)

lemma calls_ffi_done: "calls st (ffi_done r h c st) []"
  by (simp add: calls_def ffi_done_def noteFfiFailure_def write_output_def Let_def)

lemma calls_dispatch:
  assumes d: "dispatch ni ri h st = (r, st')"
  shows "calls st st' []"
proof (cases "hc_ffi (hd_cfg st) \<and> \<not> hd_ffiDisabled st")
  case False
  with d show ?thesis by (auto simp: dispatch_def dest: calls_rerun)
next
  case T: True
  show ?thesis
  proof (cases "ni_components ni")
    case (Some f)
    with d T calls_ffi_done show ?thesis
      by (auto simp: dispatch_def Let_def split: prod.splits if_splits dest!: calls_rerun dest: calls_trans [OF calls_ffi_done])
  next
    case None
    show ?thesis
    proof (cases "pack_input ri st")
      case (Inl e)
      with d T None show ?thesis by (simp add: dispatch_def calls_refl)
    next
      case (Inr q)
      obtain i st1 where q: "q = (i, st1)" by force
      obtain r1 c where n: "ni_ffiPacked ni i (ri_body ri) (output_of st1 h) = (r1, c)" by force
      have c1: "calls st (ffi_done r1 h c st1) []"
        using calls_trans [OF calls_pack calls_ffi_done, of ri st i st1] Inr q by simp
      show ?thesis
      proof (cases "isl r1")
        case True
        then have "call_napi ni ri i h (ffi_done r1 h c st1) = (r, st')" using d T None Inr q n by (simp add: dispatch_def)
        from calls_trans [OF c1 calls_napi [OF this]] show ?thesis by simp
      next
        case False
        with d T None Inr q n c1 show ?thesis by (auto simp: dispatch_def)
      qed
    qed
  qed
qed

lemma calls_native_call:
  assumes n: "native_call_phase ni ri st = (r, ho, st')"
  shows "calls st st' []"
proof (cases "acquire_output st")
  case (Inl e)
  with n show ?thesis by (simp add: native_call_phase_def calls_refl)
next
  case (Inr q)
  obtain h st1 where q: "q = (h, st1)" by force
  obtain r2 st2 where d: "dispatch ni ri h st1 = (r2, st2)" by force
  have "calls st st1 []" using Inr q by (auto simp: acquire_output_def rbind_Inr_conv Let_def intro: calls_refl)
  from calls_trans [OF this calls_dispatch [OF d]] have c: "calls st st2 []" by simp
  have "hd_cfg st' = hd_cfg st2 \<and> hd_events st' = hd_events st2"
    using n Inr q d by (auto simp: native_call_phase_def split: sum.splits)
  with c show ?thesis by (blast intro: calls_update)
qed

lemma calls_onError:
  "call_onError env k rid st = (r, st') \<Longrightarrow> hc_onError (hd_cfg st) \<Longrightarrow> re_onError env k = None \<Longrightarrow> r = Inr () \<and> calls st st' [OnError rid]"
  by (auto simp: call_onError_def calls_def split: if_splits)

lemma calls_native:
  assumes n: "native_phase env ri rid st = (r, ho, st')" and h: "hc_onError (hd_cfg st)" "re_onError env 0 = None"
  obtains "r = Inr ()" "calls st st' []" | "r = Inr ()" "calls st st' [OnError rid]"
proof -
  obtain r1 ho1 st1 where c: "native_call_phase (re_native env) ri st = (r1, ho1, st1)"
    by (cases "native_call_phase (re_native env) ri st") auto
  note C = calls_native_call [OF c]
  show ?thesis
  proof (cases r1)
    case (Inr u)
    with n c have "r = Inr ()" "st' = st1" by (auto simp: native_phase_def)
    with C that(1) show ?thesis by simp
  next
    case (Inl e)
    let ?st = "st1\<lparr>hd_result := setInternalError (hd_result st1)\<rparr>"
    obtain r2 st2 where o: "call_onError env 0 rid ?st = (r2, st2)" by force
    have s: "calls st ?st []" by (rule calls_update [OF C]) simp_all
    have "hc_onError (hd_cfg ?st)" using s h(1) by (simp add: calls_def)
    from calls_onError [OF o this h(2)] calls_trans [OF s] have "r2 = Inr ()" "calls st st2 [OnError rid]" by fastforce+
    moreover have "r = r2" "st' = st2" using n c Inl o by (auto simp: native_phase_def)
    ultimately show ?thesis using that(2) by simp
  qed
qed

lemma calls_zeroCopy: "zeroCopyResponse st = Inr st' \<Longrightarrow> calls st st' []"
  by (auto simp: zeroCopyResponse_def Let_def intro: calls_refl split: option.splits sum.splits)

lemma calls_run_fn: "run_fn k st = (out, st') \<Longrightarrow> calls st st' []"
proof (induction k st arbitrary: out st' rule: run_fn.induct)
  case (2 k st)
  show ?case
  proof (cases "zeroCopyResponse st")
    case (Inl e)
    with 2 show ?thesis by (simp add: calls_refl)
  next
    case (Inr st1)
    with 2 calls_trans [OF calls_zeroCopy [OF Inr]] show ?thesis by fastforce
  qed
qed (simp_all add: calls_refl)

lemma calls_callback:
  assumes c: "callback_phase env rid fn st = (out, st')" and h: "hc_onResponse (hd_cfg st)" "re_onResponse env = None"
  shows "case out of Inl e \<Rightarrow> calls st st' [] | Inr v \<Rightarrow> \<exists>code. calls st st' [OnResponse rid code]"
proof -
  obtain r st1 where f: "run_fn (fn (hd_result st) (hd_ctx st)) st = (r, st1)" by force
  note C = calls_run_fn [OF f]
  show ?thesis
  proof (cases r)
    case (Inl e)
    with c f C show ?thesis by (auto simp: callback_phase_def)
  next
    case (Inr v)
    let ?code = "case v of AResponse s \<Rightarrow> s | _ \<Rightarrow> safeTerminalStatus (hd_result st1)"
    obtain r2 st2 where p: "report env rid v st1 = (r2, st2)" by force
    have cf: "hd_cfg st1 = hd_cfg st" using C by (simp add: calls_def)
    have "r2 = Inr ()" "calls st1 st2 [OnResponse rid ?code]"
      using p h cf by (auto simp: report_def Let_def calls_def split: if_splits)
    moreover from calls_trans [OF C this(2)] have "calls st st2 [OnResponse rid ?code]" by simp
    ultimately show ?thesis using c f Inr p C
      by (cases "assertSyncCallback v") (auto simp: callback_phase_def)
  qed
qed

lemma calls_escape:
  assumes e: "escape_phase env k rid err ho st = (err', h', st')" and h: "hc_onError (hd_cfg st)" "re_onError env k = None"
  shows "calls st st' [OnError rid]"
proof -
  define st1 where "st1 = (case ho of Some x \<Rightarrow> (if hd_borrows st then st\<lparr>hd_pool := release (hd_pool st) x, hd_borrows := False\<rparr> else st) | None \<Rightarrow> st)"
  have s: "calls st st1 []" by (rule calls_refl) (simp_all add: st1_def split: option.splits)
  obtain r where o: "call_onError env k rid st1 = (r, st')"
    using e by (auto simp: escape_phase_def st1_def Let_def split: prod.splits if_splits option.splits)
  have "hc_onError (hd_cfg st1)" using s h(1) by (simp add: calls_def)
  from calls_onError [OF o this h(2)] calls_trans [OF s] show ?thesis by fastforce
qed

definition ends :: "jsstring \<Rightarrow> run_event list \<Rightarrow> bool" where
  "ends rid ts \<longleftrightarrow> ts \<noteq> [] \<and> (\<forall>e \<in> set ts. e = OnError rid \<or> (\<exists>c. e = OnResponse rid c))"

lemma calls_outer_try:
  assumes t: "outer_try env req mk ip body fn ridBytes rid st = (out, ho, st')"
    and h: "hc_onError (hd_cfg st)" "hc_onResponse (hd_cfg st)" "re_onError env = (\<lambda>_. None)" "re_onResponse env = None"
  obtains es ts where "calls st st' (es @ ts)" "es = [] \<or> es = [OnError rid]"
    "case out of Inl e \<Rightarrow> ts = [] | Inr v \<Rightarrow> \<exists>c. ts = [OnResponse rid c]"
proof -
  have sc: "calls (st\<lparr>hd_scratch := sc\<rparr>) b xs = calls st b xs" for sc b xs by (simp add: calls_def)
  from t show ?thesis
  proof (cases rule: outer_try_cases)
    case (packing e)
    with that [of "[]" "[]"] show ?thesis by (simp add: calls_refl)
  next
    case (native ri sc' e)
    from native(1) h show ?thesis by (elim calls_native) simp_all
  next
    case (called ri sc' st1)
    obtain es where es: "calls st st1 es" "es = [] \<or> es = [OnError rid]"
      using called(1) h by (elim calls_native) (auto simp: sc)
    have "hc_onResponse (hd_cfg st1)" using es(1) h by (simp add: calls_def)
    from calls_callback [OF called(2) this h(4)] show ?thesis
    proof (cases out)
      case (Inl e)
      with calls_callback [OF called(2) \<open>hc_onResponse (hd_cfg st1)\<close> h(4)] calls_trans [OF es(1)] es(2) that [of es "[]"]
      show ?thesis by fastforce
    next
      case (Inr v)
      with calls_callback [OF called(2) \<open>hc_onResponse (hd_cfg st1)\<close> h(4)] obtain c where "calls st1 st' [OnResponse rid c]" by auto
      from that [OF calls_trans [OF es(1) this] es(2)] Inr show ?thesis by simp
    qed
  qed
qed

lemma calls_run_body:
  assumes r: "run_body env req mk ip body fn ridBytes rid st = (out, st')"
    and h: "hc_onError (hd_cfg st)" "hc_onResponse (hd_cfg st)" "re_onError env = (\<lambda>_. None)" "re_onResponse env = None"
  obtains ts where "calls st st' ts" "ends rid ts" "length ts \<le> 2"
proof -
  obtain res ho st3 where t: "outer_try env req mk ip body fn ridBytes rid st = (res, ho, st3)"
    by (cases "outer_try env req mk ip body fn ridBytes rid st") auto
  obtain es ts where c: "calls st st3 (es @ ts)" "es = [] \<or> es = [OnError rid]"
    "case res of Inl e \<Rightarrow> ts = [] | Inr v \<Rightarrow> \<exists>c. ts = [OnResponse rid c]" using calls_outer_try [OF t h] .
  have fin: "calls a (finish h b) xs = calls a b xs" for a h b xs by (simp add: calls_def finish_def Let_def)
  show ?thesis
  proof (cases res)
    case (Inr v)
    with r t have "st' = finish ho st3" by (simp add: run_body_def)
    with c Inr that [of "es @ ts"] show ?thesis by (auto simp: fin ends_def)
  next
    case (Inl e)
    let ?k = "onError_calls (hd_events st3) - onError_calls (hd_events st)"
    obtain e' h' st4 where x: "escape_phase env ?k rid e ho st3 = (e', h', st4)"
      by (cases "escape_phase env ?k rid e ho st3") auto
    have "hc_onError (hd_cfg st3)" using c(1) h by (simp add: calls_def)
    from calls_trans [OF c(1) calls_escape [OF x this]] h have "calls st st4 (es @ ts @ [OnError rid])" by simp
    moreover have "st' = finish h' st4" using r t Inl x by (simp add: run_body_def)
    ultimately show ?thesis using c Inl that [of "es @ ts @ [OnError rid]"] by (auto simp: fin ends_def)
  qed
qed

lemma utf8_decode_nonempty: "bs \<noteq> [] \<Longrightarrow> utf8_decode bs \<noteq> []"
  by (cases bs) (simp_all add: scalar_units_def)

lemma request_id_nonempty: "generateRequestId c = (bs, c') \<Longrightarrow> node_decodeUtf8 bs \<noteq> []"
proof -
  assume "generateRequestId c = (bs, c')"
  then have "length bs = 16"
    by (auto simp: generateRequestId_def Let_def length_concat comp_def hex_byte_def binary_of_def)
  then have "strip_bom bs \<noteq> []" by (auto simp: strip_bom_def)
  then show ?thesis by (simp add: node_decodeUtf8_def utf8_decode_nonempty)
qed

text \<open>Every run calls \<open>onRequest\<close> once and then ends the same request, once or twice.\<close>

lemma calls_run:
  assumes r: "run env req ip body fn st = (out, st')"
    and h: "hc_onRequest (hd_cfg st)" "hc_onError (hd_cfg st)" "hc_onResponse (hd_cfg st)"
    and q: "re_onRequest env = None" "re_onError env = (\<lambda>_. None)" "re_onResponse env = None"
  obtains rid ts where "rid \<noteq> []" "calls st st' (OnRequest rid # ts)" "ends rid ts" "length ts \<le> 2"
proof -
  let ?c = "hd_cfg st"
  obtain ridBytes ids where g: "generateRequestId (hd_ids st) = (ridBytes, ids)" by force
  define rid where "rid = node_decodeUtf8 ridBytes"
  define st1 where "st1 = st\<lparr>hd_ids := ids, hd_ctx := \<lparr>cx_requestIdHeader = (if hc_emitRequestIdHeader ?c then Some rid else None),
     cx_origin = (if pl_cors (hc_headerPlan ?c) then hr_headers req ''origin'' else None)\<rparr>\<rparr>"
  define st3 where "st3 = (emit (OnRequest rid) st1)\<lparr>hd_currentHandle := None, hd_borrows := False, hd_stream := None\<rparr>"
  have "run env req ip body fn st = run_body env req (kind_of (hr_method req)) ip body fn ridBytes rid st3"
    unfolding run_def g st3_def st1_def rid_def using h(1) q(1) by (simp add: Let_def needRequestIdString_def)
  with r have b: "run_body env req (kind_of (hr_method req)) ip body fn ridBytes rid st3 = (out, st')" by simp
  have s: "calls st st3 [OnRequest rid]" by (simp add: calls_def st3_def st1_def)
  then have "hd_cfg st3 = hd_cfg st" by (simp add: calls_def)
  then obtain ts where t: "calls st3 st' ts" "ends rid ts" "length ts \<le> 2"
    using calls_run_body [OF b] h q by auto
  have "rid \<noteq> []" unfolding rid_def by (rule request_id_nonempty [OF g])
  moreover have "calls st st' (OnRequest rid # ts)" using calls_trans [OF s t(1)] by simp
  ultimately show ?thesis using t by (intro that)
qed

section \<open>Feeding a run to the metrics\<close>

lemma hook_calls_simps [simp]:
  "hook_calls str [] m = m" "hook_calls str (x # xs) m = hook_calls str xs (hook_call str x m)"
  by (simp_all add: hook_calls_def)

lemma hook_calls_append: "hook_calls str (xs @ ys) m = hook_calls str ys (hook_calls str xs m)"
  by (simp add: hook_calls_def)

lemma not_hook_call: "\<not> is_hook e \<Longrightarrow> hook_call str (e, d) m = m"
  by (cases e) simp_all

lemma hook_calls_filter: "hook_calls str (filter (is_hook \<circ> fst) es) m = hook_calls str es m"
proof (induction es arbitrary: m)
  case (Cons x es)
  obtain e d where "x = (e, d)" by force
  with Cons show ?case by (simp add: not_hook_call)
qed simp

lemma end_call_moves:
  assumes ok: "metrics_ok m" and e: "e = OnError rid \<or> (\<exists>c. e = OnResponse rid c)"
  shows "if rid \<noteq> [] \<and> map_of (im_active m) rid \<noteq> None then moves m (- 1) (AList.delete rid (im_active m)) (hook_call str (e, d) m)
    else moves m 0 (im_active m) (hook_call str (e, d) m)"
  using e onError_moves [OF ok, of rid] onResponse_moves [OF ok, of rid] by auto

lemma late_ends:
  assumes "metrics_ok m" and "im_active m = []" and "\<forall>e \<in> set (map fst ts). e = OnError rid \<or> (\<exists>c. e = OnResponse rid c)"
  shows "moves m 0 [] (hook_calls str ts m)"
  using assms
proof (induction ts arbitrary: m)
  case (Cons x ts)
  obtain e d where x: "x = (e, d)" by force
  have "moves m 0 [] (hook_call str (e, d) m)"
    using end_call_moves [of m e rid str d] Cons.prems x by (simp split: if_splits)
  with Cons.IH [of "hook_call str (e, d) m"] Cons.prems(3) show ?case by (simp add: x moves_def)
qed (simp add: moves_def)

lemma run_calls_balanced:
  assumes ok: "metrics_ok m" and a: "im_active m = []" and rid: "rid \<noteq> []"
    and es: "map fst es = OnRequest rid # ts" and e: "ends rid ts"
  shows "moves m 0 [] (hook_calls str es m) \<and> (\<forall>n. gauge_value (hook_calls str (take n es) m) - gauge_value m \<in> {0, 1})"
proof -
  obtain d0 x rest where x: "es = (OnRequest rid, d0) # x # rest"
    using es e by (cases es; cases "tl es") (auto simp: ends_def)
  obtain e1 d1 where x1: "x = (e1, d1)" by force
  define m1 where "m1 = im_onRequest rid (dt_now d0) m"
  define m2 where "m2 = hook_call str (e1, d1) m1"
  have 1: "moves m 1 [(rid, dt_now d0)] m1" using onRequest_moves [OF ok, of rid] a rid by (simp add: m1_def)
  have en: "e1 = OnError rid \<or> (\<exists>c. e1 = OnResponse rid c)"
    "\<forall>y \<in> set (map fst rest). y = OnError rid \<or> (\<exists>c. y = OnResponse rid c)"
  proof -
    have "ts = e1 # map fst rest" using es by (simp add: x x1)
    with e show "e1 = OnError rid \<or> (\<exists>c. e1 = OnResponse rid c)"
      "\<forall>y \<in> set (map fst rest). y = OnError rid \<or> (\<exists>c. y = OnResponse rid c)" by (simp_all add: ends_def)
  qed
  have 2: "moves m 0 [] m2"
    using end_call_moves [OF _ en(1), of m1 str d1] 1 rid by (simp add: moves_def m2_def)
  have late: "moves m2 0 [] (hook_calls str ys m2)" if "set ys \<subseteq> set rest" for ys
    using that 2 en(2) by (intro late_ends [of _ _ rid]) (auto simp: moves_def)
  have pre: "gauge_value (hook_calls str (take n es) m) - gauge_value m \<in> {0, 1}" for n
  proof (cases n)
    case (Suc k)
    show ?thesis
    proof (cases k)
      case 0
      with Suc 1 show ?thesis by (simp add: x m1_def [symmetric] moves_def)
    next
      case (Suc j)
      with \<open>n = Suc k\<close> late [of "take j rest"] 2 set_take_subset [of j rest] show ?thesis
        by (simp add: x x1 m1_def [symmetric] m2_def [symmetric] moves_def)
    qed
  qed simp
  from late [of rest] 2 pre show ?thesis by (simp add: x x1 m1_def [symmetric] m2_def [symmetric] moves_def)
qed

text \<open>A handler with the metrics as its hooks; these never throw.\<close>

inductive metered :: "(nat \<Rightarrow> jsstring) \<Rightarrow> handler_options \<Rightarrow> runtime_options \<Rightarrow> handler \<Rightarrow> ingress_metrics \<Rightarrow> bool"
  for str o' ru where
  me_start: "createIngressHandler o' ru ffi sc ids = Inr st \<Longrightarrow> metered str o' ru st createIngressMetrics"
| me_run: "metered str o' ru st m \<Longrightarrow> run env req ip body fn st = (out, st') \<Longrightarrow>
    re_onRequest env = None \<Longrightarrow> re_onResponse env = None \<Longrightarrow> re_onError env = (\<lambda>_. None) \<Longrightarrow>
    hd_events st' = hd_events st @ map fst es \<Longrightarrow> metered str o' ru st' (hook_calls str es m)"

definition all_hooks :: "runtime_options \<Rightarrow> bool" where
  "all_hooks ru \<longleftrightarrow> ru_onRequest ru \<and> ru_onResponse ru \<and> ru_onError ru"

lemma start_hooks: "createIngressHandler o' ru ffi sc ids = Inr st \<Longrightarrow>
    hc_onRequest (hd_cfg st) = ru_onRequest ru \<and> hc_onResponse (hd_cfg st) = ru_onResponse ru \<and> hc_onError (hd_cfg st) = ru_onError ru"
  by (auto simp: createIngressHandler_def Let_def rbind_Inr_conv build_config_def)

lemma run_feeds:
  assumes "run env req ip body fn st = (out, st')"
    and "hc_onRequest (hd_cfg st)" "hc_onError (hd_cfg st)" "hc_onResponse (hd_cfg st)"
    and "re_onRequest env = None" "re_onError env = (\<lambda>_. None)" "re_onResponse env = None"
    and "hd_events st' = hd_events st @ map fst es" and "metrics_ok m" and "im_active m = []"
  shows "moves m 0 [] (hook_calls str es m) \<and> hd_cfg st' = hd_cfg st
    \<and> (\<forall>n. gauge_value (hook_calls str (take n (filter (is_hook \<circ> fst) es)) m) - gauge_value m \<in> {0, 1})"
proof -
  obtain rid ts where r: "rid \<noteq> []" "calls st st' (OnRequest rid # ts)" "ends rid ts"
    using calls_run [OF assms(1-7)] .
  then have f: "filter is_hook (map fst es) = OnRequest rid # ts" using assms(8) by (simp add: calls_def)
  then have "map fst (filter (is_hook \<circ> fst) es) = OnRequest rid # ts" by (simp add: filter_map)
  from run_calls_balanced [OF assms(9,10) r(1) this r(3)] r(2) show ?thesis
    by (auto simp: hook_calls_filter calls_def)
qed

lemma metered_ok:
  assumes "metered str o' ru st m" and "all_hooks ru"
  shows "metrics_ok m \<and> im_active m = [] \<and> gauge_value m = 0
    \<and> hc_onRequest (hd_cfg st) \<and> hc_onError (hd_cfg st) \<and> hc_onResponse (hd_cfg st)"
  using assms(1)
proof (induction rule: metered.induct)
  case (me_start ffi sc ids st)
  from start_hooks [OF me_start] assms(2) createIngressMetrics_ok show ?case by (simp add: all_hooks_def)
next
  case (me_run st m env req ip body fn out st' es)
  then show ?case using run_feeds [of env req ip body fn st out st' es m str] by (simp add: moves_def)
qed

section \<open>Properties\<close>


definition demo_data :: hook_data where
  "demo_data = \<lparr>dt_method = js ''GET'', dt_limited = False, dt_now = 5, dt_error = js ''Error''\<rparr>"


end
