(* ===== verification/BakedResponse.thy ===== *)
theory BakedResponse
  imports IngressHandler "HOL-Library.Sublist"
begin

unbundle bit_operations_syntax

text \<open>
  The headers and bodies of a response: the security entries (\<open>src/src/ingress/headers/hsts.ts\<close>,
  \<open>security.ts\<close>), the 32 header templates (\<open>headers/baked-templates.ts\<close>), the error bodies
  (\<open>response/error-bodies.ts\<close>) and the builders over them (\<open>response/baked-response.ts\<close>).

  A \<open>Headers\<close> object is the list of its entries; \<open>header_get\<close> reads it. Memoizing a \<open>Headers\<close> object by
  the identity of its array does not change what it holds and is not part of the model; the cache of
  header arrays by origin is, since its keys come from requests. Header names are ASCII. Numeric
  options are given in printed form.
\<close>

section \<open>Headers\<close>

type_synonym header = "jsstring \<times> jsstring"

definition to_lower :: "jsstring \<Rightarrow> jsstring" where
  "to_lower s = map lower_unit s"

fun join_with :: "jsstring \<Rightarrow> jsstring list \<Rightarrow> jsstring" where
  "join_with sep [] = []"
| "join_with sep [x] = x"
| "join_with sep (x # y # xs) = x @ sep @ join_with sep (y # xs)"

definition header_values :: "jsstring \<Rightarrow> header list \<Rightarrow> jsstring list" where
  "header_values name hs = map snd (filter (\<lambda>h. to_lower (fst h) = to_lower name) hs)"

definition header_get :: "header list \<Rightarrow> jsstring \<Rightarrow> jsstring option" where
  "header_get hs name = (if header_values name hs = [] then None else Some (join_with (js '', '') (header_values name hs)))"

text \<open>\<open>Headers.set\<close>: the first entry of the name takes the value, the others go.\<close>

fun header_set :: "jsstring \<Rightarrow> jsstring \<Rightarrow> header list \<Rightarrow> header list" where
  "header_set name v [] = [(name, v)]"
| "header_set name v (h # hs) =
     (if to_lower (fst h) = to_lower name
      then (fst h, v) # filter (\<lambda>g. to_lower (fst g) \<noteq> to_lower name) hs
      else h # header_set name v hs)"

text \<open>\<open>String(n)\<close> of a natural number below \<open>10 ^ 21\<close>.\<close>

fun dec :: "nat \<Rightarrow> jsstring" where
  "dec n = (if n < 10 then [of_nat (48 + n)] else dec (n div 10) @ [of_nat (48 + n mod 10)])"

declare dec.simps [simp del]

section \<open>Security entries\<close>

record security_options =
  sec_contentSecurityPolicy :: "jsstring option"
  sec_hsts :: "bool option"
  sec_hstsMaxAge :: "jsstring option"
  sec_hstsIncludeSubdomains :: "bool option"
  sec_hstsPreload :: "bool option"
  sec_frameOptions :: "jsstring option"
  sec_nosniff :: "bool option"
  sec_referrerPolicy :: "jsstring option"
  sec_coep :: "jsstring option"
  sec_coop :: "jsstring option"
  sec_corp :: "jsstring option"
  sec_xssProtection :: "jsstring option"

definition buildHstsValue :: "security_options \<Rightarrow> jsstring option" where
  "buildHstsValue sec =
     (if sec_hsts sec = Some True \<or> sec_hstsMaxAge sec \<noteq> None \<or> sec_hstsIncludeSubdomains sec = Some True
         \<or> sec_hstsPreload sec = Some True
      then Some (js ''max-age='' @ (case sec_hstsMaxAge sec of Some a \<Rightarrow> a | None \<Rightarrow> js ''31536000'')
        @ (if sec_hstsIncludeSubdomains sec = Some True then js ''; includeSubDomains'' else [])
        @ (if sec_hstsPreload sec = Some True then js ''; preload'' else []))
      else None)"

text \<open>An entry for a value that is present and not empty.\<close>

definition truthy_entry :: "jsstring \<Rightarrow> jsstring option \<Rightarrow> header list" where
  "truthy_entry name v = (case v of Some x \<Rightarrow> (if x \<noteq> [] then [(name, x)] else []) | None \<Rightarrow> [])"

definition no_security :: security_options where
  "no_security = \<lparr>sec_contentSecurityPolicy = None, sec_hsts = None, sec_hstsMaxAge = None, sec_hstsIncludeSubdomains = None,
     sec_hstsPreload = None, sec_frameOptions = None, sec_nosniff = None, sec_referrerPolicy = None, sec_coep = None,
     sec_coop = None, sec_corp = None, sec_xssProtection = None\<rparr>"

definition buildSecurityPairs :: "security_options option \<Rightarrow> bool option \<Rightarrow> bool \<Rightarrow> header list" where
  "buildSecurityPairs security https enabled =
     (if \<not> enabled then []
      else let sec = (case security of Some s \<Rightarrow> s | None \<Rightarrow> no_security)
           in (if sec_nosniff sec \<noteq> Some False then [(js ''x-content-type-options'', js ''nosniff'')] else [])
            @ [(js ''x-frame-options'', case sec_frameOptions sec of Some f \<Rightarrow> f | None \<Rightarrow> js ''DENY''),
               (js ''referrer-policy'', case sec_referrerPolicy sec of Some p \<Rightarrow> p | None \<Rightarrow> js ''no-referrer'')]
            @ truthy_entry (js ''x-xss-protection'') (sec_xssProtection sec)
            @ truthy_entry (js ''content-security-policy'') (sec_contentSecurityPolicy sec)
            @ truthy_entry (js ''cross-origin-embedder-policy'') (sec_coep sec)
            @ truthy_entry (js ''cross-origin-opener-policy'') (sec_coop sec)
            @ truthy_entry (js ''cross-origin-resource-policy'') (sec_corp sec)
            @ (case buildHstsValue sec of Some v \<Rightarrow> (if https = Some True then [(js ''strict-transport-security'', v)] else []) | None \<Rightarrow> []))"

definition buildBakedSecurityEntries :: "security_options option \<Rightarrow> bool option \<Rightarrow> header list option \<Rightarrow> header list" where
  "buildBakedSecurityEntries security https raw =
     (let structured = (if security = None then [] else buildSecurityPairs security https True)
      in case raw of
           None \<Rightarrow> structured
         | Some [] \<Rightarrow> structured
         | Some rs \<Rightarrow> fold (\<lambda>(k, v) m. AList.update (to_lower k) v m) rs
                        (fold (\<lambda>(k, v) m. AList.update k v m) structured []))"

section \<open>Templates\<close>

abbreviation (input) HV_CORS_SIMPLE :: nat where "HV_CORS_SIMPLE \<equiv> 2"
abbreviation (input) HV_CORS_PREFLIGHT :: nat where "HV_CORS_PREFLIGHT \<equiv> 4"
abbreviation (input) HV_RATE_ACTIVE :: nat where "HV_RATE_ACTIVE \<equiv> 8"
abbreviation (input) HV_RATE_LIMITED :: nat where "HV_RATE_LIMITED \<equiv> 16"

record template_params =
  tp_securityEntries :: "header list"
  tp_allowCredentials :: bool
  tp_corsAllowMethods :: jsstring
  tp_corsAllowHeaders :: jsstring
  tp_corsExposeHeaders :: jsstring
  tp_corsMaxAge :: jsstring
  tp_rateLimitStr :: jsstring

definition template_entries :: "template_params \<Rightarrow> nat \<Rightarrow> header list" where
  "template_entries p variant =
     (let credentials = (if tp_allowCredentials p then [(js ''access-control-allow-credentials'', js ''true'')] else [])
      in tp_securityEntries p
       @ (if has_flag variant HV_JSON then [(js ''content-type'', js ''application/json'')] else [])
       @ (if has_flag variant HV_CORS_SIMPLE
          then [(js ''vary'', js ''Origin'')] @ credentials
             @ (if 0 < length (tp_corsExposeHeaders p) then [(js ''access-control-expose-headers'', tp_corsExposeHeaders p)] else [])
          else [])
       @ (if has_flag variant HV_CORS_PREFLIGHT
          then [(js ''vary'', js ''Origin, Access-Control-Request-Method, Access-Control-Request-Headers'')] @ credentials
             @ [(js ''access-control-allow-methods'', tp_corsAllowMethods p),
                (js ''access-control-allow-headers'', tp_corsAllowHeaders p),
                (js ''access-control-max-age'', tp_corsMaxAge p)]
          else [])
       @ (if has_flag variant HV_RATE_ACTIVE then [(js ''ratelimit-limit'', tp_rateLimitStr p)] else []))"

definition buildBakedHeaderTemplates :: "template_params \<Rightarrow> header list list \<times> header list list" where
  "buildBakedHeaderTemplates p =
     (let regular = map (template_entries p) [0..<32]
      in (regular, map (\<lambda>t. t @ [(js ''cache-control'', js ''no-store'')]) regular))"

record cors_options =
  co_allowOrigin :: "jsstring list option"
  co_allowMethods :: "jsstring list option"
  co_allowHeaders :: "jsstring list option"
  co_exposeHeaders :: "jsstring list option"
  co_allowCredentials :: bool
  co_maxAge :: "jsstring option"

definition joined :: "jsstring list option \<Rightarrow> jsstring" where
  "joined v = (case v of Some xs \<Rightarrow> join_with (js '', '') xs | None \<Rightarrow> [])"

text \<open>Lines 386 to 410 of \<open>handlers.ts\<close>; \<open>limit\<close> is the printed rate limit when rate limiting is enabled.\<close>

definition handler_templates :: "bool \<Rightarrow> security_options option \<Rightarrow> bool option \<Rightarrow> header list option \<Rightarrow> cors_options option
    \<Rightarrow> jsstring option \<Rightarrow> template_params" where
  "handler_templates enabled security https raw cors limit =
     (let get = (\<lambda>f. case cors of Some c \<Rightarrow> joined (f c) | None \<Rightarrow> [])
      in \<lparr>tp_securityEntries = (if \<not> enabled then [] else buildBakedSecurityEntries security https raw),
          tp_allowCredentials = (case cors of Some c \<Rightarrow> co_allowCredentials c | None \<Rightarrow> False),
          tp_corsAllowMethods = get co_allowMethods, tp_corsAllowHeaders = get co_allowHeaders,
          tp_corsExposeHeaders = get co_exposeHeaders,
          tp_corsMaxAge = (case cors of Some c \<Rightarrow> (case co_maxAge c of Some a \<Rightarrow> a | None \<Rightarrow> []) | None \<Rightarrow> []),
          tp_rateLimitStr = (case limit of Some l \<Rightarrow> l | None \<Rightarrow> [])\<rparr>)"

section \<open>Error bodies\<close>

definition staticErrorBody :: "string \<Rightarrow> string \<Rightarrow> bytes" where
  \<open>staticErrorBody code message =
     utf8_encode (js (''{"ok":false,"error":{"code":"'' @ code @ ''","message":"'' @ message @ ''"}}''))\<close>

definition ERROR_BODIES :: "string \<Rightarrow> bytes option" where
  "ERROR_BODIES code =
     map_of [(''not_found'', staticErrorBody ''not_found'' ''Not found''),
       (''unsupported_media_type'', staticErrorBody ''unsupported_media_type'' ''Content-Type must be application/json''),
       (''body_too_large'', staticErrorBody ''body_too_large'' ''Request body is too large''),
       (''request_timeout'', staticErrorBody ''request_timeout'' ''Request body read timed out''),
       (''invalid_json'', staticErrorBody ''invalid_json'' ''Invalid JSON body''),
       (''schema_validation_failed'', staticErrorBody ''schema_validation_failed'' ''Request body failed schema validation''),
       (''cors_preflight_not_allowed'', staticErrorBody ''cors_preflight_not_allowed'' ''CORS preflight not allowed''),
       (''bad_request'', staticErrorBody ''bad_request'' ''Bad request''),
       (''request_too_large'', staticErrorBody ''request_too_large'' ''Request too large''),
       (''rate_limited'', staticErrorBody ''rate_limited'' ''Too Many Requests''),
       (''internal'', staticErrorBody ''internal_error'' ''Internal server error'')] code"

definition ERROR_CODE_BODIES :: "nat \<Rightarrow> bytes option" where
  "ERROR_CODE_BODIES code =
     (if int code = ERR_CODE_CORS_PREFLIGHT then ERROR_BODIES ''cors_preflight_not_allowed''
      else if int code = ERR_CODE_RATE_LIMITED then ERROR_BODIES ''rate_limited''
      else if int code = ERR_CODE_BODY_TOO_LARGE then ERROR_BODIES ''body_too_large''
      else if int code = ERR_CODE_INVALID_JSON then ERROR_BODIES ''invalid_json''
      else if int code = ERR_CODE_SCHEMA_VALIDATION then ERROR_BODIES ''schema_validation_failed''
      else if int code = ERR_CODE_BAD_REQUEST then ERROR_BODIES ''bad_request''
      else if int code = ERR_CODE_REQUEST_TOO_LARGE then ERROR_BODIES ''request_too_large''
      else if int code = ERR_CODE_INTERNAL then ERROR_BODIES ''internal''
      else None)"

definition rateLimitedBody :: "nat \<Rightarrow> bytes" where
  \<open>rateLimitedBody ms =
     utf8_encode (js ''{"ok":false,"error":{"code":"rate_limited","message":"Too Many Requests","retry_after_ms":'')
     @ utf8_encode (dec ms) @ utf8_encode (js ''}}'')\<close>

section \<open>Response builders\<close>

definition ORIGIN_HEADER_CACHE_MAX :: nat where "ORIGIN_HEADER_CACHE_MAX = 64"

definition secondsFromMs :: "nat \<Rightarrow> nat" where
  "secondsFromMs ms = nat \<lceil>of_nat ms / 1000 :: rat\<rceil>"

definition secs_of :: "nat \<Rightarrow> nat option" where
  "secs_of ms = (if 0 < ms then Some (secondsFromMs ms) else None)"

record response_builders =
  rb_headerTemplates :: "header list list"
  rb_terminalTemplates :: "header list list"
  rb_emitRequestIdHeader :: bool

type_synonym origin_cache = "(jsstring, header list) jsmap"

record http_response =
  hp_status :: nat
  hp_headers :: "header list"
  hp_body :: "bytes option"

text \<open>\<open>headerTemplates[variant & 31] ?? headerTemplates[0] ?? []\<close>\<close>

definition template_at :: "header list list \<Rightarrow> nat \<Rightarrow> header list" where
  "template_at ts variant =
     (if variant AND 31 < length ts then ts ! (variant AND 31) else case ts of t # _ \<Rightarrow> t | [] \<Rightarrow> [])"

definition origin_key :: "nat \<Rightarrow> jsstring \<Rightarrow> jsstring" where
  "origin_key variant origin = dec (variant AND 31) @ 0 # origin"

definition originBaseEntries :: "response_builders \<Rightarrow> nat \<Rightarrow> jsstring \<Rightarrow> origin_cache \<Rightarrow> header list \<times> origin_cache" where
  "originBaseEntries rb variant origin cache =
     (let key = origin_key variant origin
      in case map_of cache key of
           Some cached \<Rightarrow> (cached, cache)
         | None \<Rightarrow>
             (let entries = template_at (rb_headerTemplates rb) variant @ [(js ''access-control-allow-origin'', origin)];
                  cache1 = (if ORIGIN_HEADER_CACHE_MAX \<le> length cache
                    then (case cache of (oldest, _) # _ \<Rightarrow> AList.delete oldest cache | [] \<Rightarrow> cache) else cache)
              in (entries, AList.update key entries cache1)))"

definition needs_origin :: "nat \<Rightarrow> jsstring option \<Rightarrow> bool" where
  "needs_origin variant origin \<longleftrightarrow> (has_flag variant HV_CORS_SIMPLE \<or> has_flag variant HV_CORS_PREFLIGHT) \<and> origin \<noteq> None"

definition or_zero :: "nat option \<Rightarrow> jsstring" where
  "or_zero v = dec (case v of Some n \<Rightarrow> n | None \<Rightarrow> 0)"

definition successHeaders :: "response_builders \<Rightarrow> nat \<Rightarrow> jsstring option \<Rightarrow> jsstring option \<Rightarrow> nat option \<Rightarrow> nat option
    \<Rightarrow> origin_cache \<Rightarrow> header list \<times> origin_cache" where
  "successHeaders rb variant requestId origin remaining resetSecs cache =
     (let needsRequestId = (rb_emitRequestIdHeader rb \<and> requestId \<noteq> None);
          needsRate = has_flag variant HV_RATE_ACTIVE;
          (base, cache1) = (if needs_origin variant origin then originBaseEntries rb variant (the origin) cache
                            else (template_at (rb_headerTemplates rb) variant, cache));
          h1 = (if needsRequestId then header_set (js ''x-request-id'') (the requestId) base else base);
          h2 = (if needsRate then header_set (js ''ratelimit-reset'') (or_zero resetSecs)
                  (header_set (js ''ratelimit-remaining'') (or_zero remaining) h1) else h1)
      in (h2, cache1))"

definition responseHeaders :: "response_builders \<Rightarrow> nat \<Rightarrow> jsstring option \<Rightarrow> jsstring option \<Rightarrow> nat option \<Rightarrow> nat option
    \<Rightarrow> nat option \<Rightarrow> origin_cache \<Rightarrow> header list \<times> origin_cache" where
  "responseHeaders rb variant requestId origin remaining resetSecs retrySecs cache =
     (let template = template_at (rb_headerTemplates rb) variant;
          needsRequestId = (rb_emitRequestIdHeader rb \<and> requestId \<noteq> None);
          needsOrigin = needs_origin variant origin;
          needsRate = has_flag variant HV_RATE_ACTIVE;
          needsRetry = has_flag variant HV_RATE_LIMITED
      in if \<not> needsRequestId \<and> \<not> needsOrigin \<and> \<not> needsRate \<and> \<not> needsRetry then (template, cache)
         else if \<not> needsRequestId \<and> \<not> needsRate \<and> \<not> needsRetry \<and> needsOrigin
         then originBaseEntries rb variant (the origin) cache
         else (template
                 @ (if needsRequestId then [(js ''x-request-id'', the requestId)] else [])
                 @ (if needsOrigin then [(js ''access-control-allow-origin'', the origin)] else [])
                 @ (if needsRate then [(js ''ratelimit-remaining'', or_zero remaining), (js ''ratelimit-reset'', or_zero resetSecs)] else [])
                 @ (if needsRetry then [(js ''retry-after'', or_zero retrySecs)] else []), cache))"

definition terminalHeaders :: "response_builders \<Rightarrow> nat \<Rightarrow> baked_context \<Rightarrow> ingress_result option \<Rightarrow> origin_cache \<Rightarrow> header list \<times> origin_cache" where
  "terminalHeaders rb variant ctx result cache =
     (let v = variant OR HV_JSON;
          rateResetSecs = (case result of Some r \<Rightarrow> secs_of (rateResetMs r) | None \<Rightarrow> None);
          retryAfterSecs = (case result of Some r \<Rightarrow> secs_of (retryAfterMs r) | None \<Rightarrow> None);
          needsRequestId = (rb_emitRequestIdHeader rb \<and> cx_requestIdHeader ctx \<noteq> None);
          needsOrigin = needs_origin v (cx_origin ctx);
          needsRate = has_flag v HV_RATE_ACTIVE;
          needsRetry = has_flag v HV_RATE_LIMITED
      in if \<not> needsRequestId \<and> \<not> needsOrigin \<and> \<not> needsRate \<and> \<not> needsRetry
         then (rb_terminalTemplates rb ! (v AND 31), cache)
         else (let (base, cache1) = responseHeaders rb v (cx_requestIdHeader ctx) (cx_origin ctx)
                     (map_option rateRemaining result) rateResetSecs retryAfterSecs cache
               in (base @ [(js ''cache-control'', js ''no-store'')], cache1)))"

definition terminalResponse :: "response_builders \<Rightarrow> ingress_result \<Rightarrow> baked_context \<Rightarrow> origin_cache \<Rightarrow> http_response option \<times> origin_cache" where
  "terminalResponse rb result ctx cache =
     (if \<not> terminal result then (None, cache)
      else if isPreflight result \<and> corsAllowed result then
        (let (hs, cache1) = responseHeaders rb (headerVariant result) (cx_requestIdHeader ctx) (cx_origin ctx)
               (Some (rateRemaining result)) (secs_of (rateResetMs result)) (secs_of (retryAfterMs result)) cache
         in (Some \<lparr>hp_status = 204, hp_headers = hs, hp_body = None\<rparr>, cache1))
      else
        (let body = (if int (errorCode result) = ERR_CODE_RATE_LIMITED then rateLimitedBody (retryAfterMs result)
                     else case ERROR_CODE_BODIES (errorCode result) of Some b \<Rightarrow> b
                          | None \<Rightarrow> (case ERROR_BODIES ''internal'' of Some b \<Rightarrow> b | None \<Rightarrow> []));
             (hs, cache1) = terminalHeaders rb (headerVariant result) ctx (Some result) cache
         in (Some \<lparr>hp_status = safeTerminalStatus result, hp_headers = hs, hp_body = Some body\<rparr>, cache1)))"

definition variant_of :: "ingress_result option \<Rightarrow> nat" where
  "variant_of result = (case result of Some r \<Rightarrow> headerVariant r | None \<Rightarrow> HV_JSON)"

text \<open>The body of a code that is not listed is the serialized \<open>{ ok, error }\<close> object, a parameter.\<close>

definition errorResponse :: "(string \<Rightarrow> string \<Rightarrow> jsstring) \<Rightarrow> response_builders \<Rightarrow> ingress_result option \<Rightarrow> nat \<Rightarrow> string \<Rightarrow> string
    \<Rightarrow> baked_context \<Rightarrow> origin_cache \<Rightarrow> http_response \<times> origin_cache" where
  "errorResponse stringify rb result code_status code message ctx cache =
     (let body = (case ERROR_BODIES code of Some b \<Rightarrow> b | None \<Rightarrow> utf8_encode (stringify code message));
          (hs, cache1) = terminalHeaders rb (variant_of result) ctx result cache
      in (\<lparr>hp_status = code_status, hp_headers = hs, hp_body = Some body\<rparr>, cache1))"

definition internalErrorResponse :: "response_builders \<Rightarrow> baked_context \<Rightarrow> ingress_result option \<Rightarrow> origin_cache \<Rightarrow> http_response \<times> origin_cache" where
  "internalErrorResponse rb ctx result cache =
     (let (hs, cache1) = terminalHeaders rb (variant_of result) ctx result cache
      in (\<lparr>hp_status = 500, hp_headers = hs, hp_body = ERROR_BODIES ''internal''\<rparr>, cache1))"

definition withContentType :: "header list \<Rightarrow> jsstring \<Rightarrow> header list" where
  "withContentType hs ct = hs @ [(js ''content-type'', ct)]"

definition prewarmOriginHeaders :: "response_builders \<Rightarrow> jsstring list \<Rightarrow> nat \<Rightarrow> origin_cache \<Rightarrow> origin_cache" where
  "prewarmOriginHeaders rb origins variant cache =
     fold (\<lambda>origin c. snd (responseHeaders rb variant None (Some origin) None None None c)) origins cache"

definition buildBakedResponseBuilders :: "template_params \<Rightarrow> bool \<Rightarrow> response_builders" where
  "buildBakedResponseBuilders p emitRequestIdHeader =
     (let (regular, term) = buildBakedHeaderTemplates p
      in \<lparr>rb_headerTemplates = regular, rb_terminalTemplates = term, rb_emitRequestIdHeader = emitRequestIdHeader\<rparr>)"

section \<open>The headers without a cache\<close>

definition extra_headers :: "bool \<Rightarrow> nat \<Rightarrow> jsstring option \<Rightarrow> jsstring option \<Rightarrow> nat option \<Rightarrow> nat option \<Rightarrow> nat option \<Rightarrow> header list" where
  "extra_headers withId v requestId origin remaining resetSecs retrySecs =
     (if withId \<and> requestId \<noteq> None then [(js ''x-request-id'', the requestId)] else [])
     @ (if needs_origin v origin then [(js ''access-control-allow-origin'', the origin)] else [])
     @ (if has_flag v HV_RATE_ACTIVE then [(js ''ratelimit-remaining'', or_zero remaining), (js ''ratelimit-reset'', or_zero resetSecs)] else [])
     @ (if has_flag v HV_RATE_LIMITED then [(js ''retry-after'', or_zero retrySecs)] else [])"

definition plain_headers :: "template_params \<Rightarrow> bool \<Rightarrow> nat \<Rightarrow> jsstring option \<Rightarrow> jsstring option \<Rightarrow> nat option \<Rightarrow> nat option \<Rightarrow> nat option \<Rightarrow> header list" where
  "plain_headers p withId v requestId origin remaining resetSecs retrySecs =
     template_entries p v @ extra_headers withId v requestId origin remaining resetSecs retrySecs"

lemma and_31: "v AND 31 = v mod (32 :: nat)"
  using take_bit_eq_mask [of 5 v] take_bit_eq_mod [of 5 v] by (simp add: mask_eq_exp_minus_1)

lemma has_flag_low:
  assumes "m \<in> {1, 2, 4, 8, 16}"
  shows "has_flag (v AND 31) m = has_flag v m"
proof -
  have "(31 :: nat) AND m = m" using assms by auto
  then show ?thesis by (simp add: has_flag_def and.assoc)
qed

lemma template_low: "template_entries p (v AND 31) = template_entries p v"
  by (simp add: template_entries_def has_flag_low)

lemma template_at_built: "template_at (fst (buildBakedHeaderTemplates p)) v = template_entries p v"
  using template_low [of p v] by (simp add: template_at_def buildBakedHeaderTemplates_def Let_def and_31)

abbreviation built where "built p withId \<equiv> buildBakedResponseBuilders p withId"

lemma built_simps [simp]:
  "template_at (rb_headerTemplates (built p withId)) v = template_entries p v"
  "rb_terminalTemplates (built p withId) ! (v AND 31) = template_entries p v @ [(js ''cache-control'', js ''no-store'')]"
  "rb_emitRequestIdHeader (built p withId) = withId"
  using template_at_built [of p v] template_low [of p v]
  by (simp_all add: buildBakedResponseBuilders_def buildBakedHeaderTemplates_def Let_def and_31)

section \<open>The cache of origin headers\<close>

definition origin_entries :: "template_params \<Rightarrow> nat \<Rightarrow> jsstring \<Rightarrow> header list" where
  "origin_entries p v origin = template_entries p v @ [(js ''access-control-allow-origin'', origin)]"

definition cache_ok :: "template_params \<Rightarrow> origin_cache \<Rightarrow> bool" where
  "cache_ok p cache \<longleftrightarrow> length cache \<le> ORIGIN_HEADER_CACHE_MAX \<and> distinct (map fst cache)
     \<and> (\<forall>v origin e. map_of cache (origin_key v origin) = Some e \<longrightarrow> e = origin_entries p v origin)"

definition undec :: "jsstring \<Rightarrow> nat" where
  "undec s = foldl (\<lambda>a c. a * 10 + (unat c - 48)) 0 s"

lemma unat_digit: "n < 10 \<Longrightarrow> unat (of_nat (48 + n) :: code_unit) = 48 + n"
  by (simp add: unat_of_nat del: of_nat_add)

lemma undec_dec: "undec (dec n) = n"
proof (induction n rule: dec.induct)
  case (1 n)
  then show ?case
    using unat_digit [of n] unat_digit [of "n mod 10"]
    by (subst dec.simps) (auto simp: undec_def simp del: of_nat_add)
qed

lemma dec_no_nul: "0 \<notin> set (dec n)"
proof (induction n rule: dec.induct)
  case (1 n)
  have "(of_nat (48 + k) :: code_unit) \<noteq> 0" if "k < 10" for k
    using unat_digit [OF that] by (metis add_is_0 unat_0 zero_neq_numeral)
  then show ?case using 1 by (subst dec.simps) (auto simp del: of_nat_add)
qed

lemma origin_key_inject: "origin_key v origin = origin_key w other \<longleftrightarrow> v AND 31 = w AND 31 \<and> origin = other"
proof
  assume e: "origin_key v origin = origin_key w other"
  have "takeWhile (\<lambda>c. c \<noteq> 0) (dec n @ 0 # o') = dec n" "dropWhile (\<lambda>c. c \<noteq> 0) (dec n @ 0 # o') = 0 # o'" for n o'
    using dec_no_nul [of n] by (auto simp: takeWhile_append dropWhile_append)
  with e have "dec (v AND 31) = dec (w AND 31)" "0 # origin = 0 # other" by (metis origin_key_def)+
  then show "v AND 31 = w AND 31 \<and> origin = other" by (metis list.inject undec_dec)
qed (simp add: origin_key_def)

lemma evict_facts:
  assumes "distinct (map fst (c :: origin_cache))" and "length c \<le> ORIGIN_HEADER_CACHE_MAX"
  defines "c1 \<equiv> (if ORIGIN_HEADER_CACHE_MAX \<le> length c then (case c of (oldest, _) # _ \<Rightarrow> AList.delete oldest c | [] \<Rightarrow> c) else c)"
  shows "distinct (map fst c1)" and "length c1 < ORIGIN_HEADER_CACHE_MAX" and "\<And>k e. map_of c1 k = Some e \<Longrightarrow> map_of c k = Some e"
proof -
  show "distinct (map fst c1)" using assms by (auto simp: c1_def distinct_delete split: list.split)
  show "length c1 < ORIGIN_HEADER_CACHE_MAX"
  proof (cases c)
    case (Cons kv c')
    have "length (AList.delete (fst kv) c) < length c" using Cons by (cases kv) (simp add: le_imp_less_Suc length_delete_le)
    with assms Cons show ?thesis by (cases kv) auto
  qed (simp add: c1_def ORIGIN_HEADER_CACHE_MAX_def)
  show "map_of c1 k = Some e \<Longrightarrow> map_of c k = Some e" for k e
    by (auto simp: c1_def delete_conv' split: if_splits list.splits)
qed

lemma length_update_new: "length (AList.update k v m) \<le> Suc (length m)"
  by (induction m) auto

lemma originBaseEntries_ok:
  assumes "cache_ok p cache" and "originBaseEntries (built p withId) v origin cache = (e, cache')"
  shows "e = origin_entries p v origin \<and> cache_ok p cache'"
proof (cases "map_of cache (origin_key v origin)")
  case (Some c)
  with assms show ?thesis by (auto simp: originBaseEntries_def cache_ok_def)
next
  case None
  define c1 where "c1 = (if ORIGIN_HEADER_CACHE_MAX \<le> length cache then (case cache of (oldest, _) # _ \<Rightarrow> AList.delete oldest cache | [] \<Rightarrow> cache) else cache)"
  have dl: "distinct (map fst cache)" "length cache \<le> ORIGIN_HEADER_CACHE_MAX" using assms(1) by (auto simp: cache_ok_def)
  note ev = evict_facts [OF dl, folded c1_def]
  have e: "e = origin_entries p v origin" and c: "cache' = AList.update (origin_key v origin) (origin_entries p v origin) c1"
    using assms(2) None unfolding originBaseEntries_def Let_def origin_entries_def c1_def by auto
  have "x = origin_entries p w other" if "map_of cache' (origin_key w other) = Some x" for w other x
  proof (cases "origin_key w other = origin_key v origin")
    case True
    then show ?thesis using that template_low [of p v] template_low [of p w]
      unfolding c update_conv' by (auto simp: origin_key_inject origin_entries_def)
  next
    case False
    then have "map_of c1 (origin_key w other) = Some x" using that unfolding c update_conv' by simp
    from ev(3) [OF this] assms(1) show ?thesis by (auto simp: cache_ok_def)
  qed
  moreover have "distinct (map fst cache')" unfolding c using ev(1) by (rule distinct_update)
  moreover have "length cache' \<le> ORIGIN_HEADER_CACHE_MAX"
    unfolding c using ev(2) length_update_new [of "origin_key v origin" "origin_entries p v origin" c1] by linarith
  ultimately show ?thesis using e unfolding cache_ok_def by blast
qed

section \<open>The builders against the headers without a cache\<close>

datatype builder_call =
  CallResponse nat "jsstring option" "jsstring option" "nat option" "nat option" "nat option"
| CallTerminal nat baked_context "ingress_result option"

fun call_builder :: "response_builders \<Rightarrow> builder_call \<Rightarrow> origin_cache \<Rightarrow> header list \<times> origin_cache" where
  "call_builder rb (CallResponse v rid origin remaining reset retry) c = responseHeaders rb v rid origin remaining reset retry c"
| "call_builder rb (CallTerminal v ctx result) c = terminalHeaders rb v ctx result c"

fun call_builders :: "response_builders \<Rightarrow> builder_call list \<Rightarrow> origin_cache \<Rightarrow> header list list \<times> origin_cache" where
  "call_builders rb [] c = ([], c)"
| "call_builders rb (b # bs) c =
     (let (h, c1) = call_builder rb b c; (hs, c2) = call_builders rb bs c1 in (h # hs, c2))"

fun plain_call :: "template_params \<Rightarrow> bool \<Rightarrow> builder_call \<Rightarrow> header list" where
  "plain_call p withId (CallResponse v rid origin remaining reset retry) = plain_headers p withId v rid origin remaining reset retry"
| "plain_call p withId (CallTerminal v ctx result) =
     plain_headers p withId (v OR HV_JSON) (cx_requestIdHeader ctx) (cx_origin ctx) (map_option rateRemaining result)
       (Option.bind result (\<lambda>r. secs_of (rateResetMs r))) (Option.bind result (\<lambda>r. secs_of (retryAfterMs r)))
     @ [(js ''cache-control'', js ''no-store'')]"

lemma responseHeaders_plain:
  assumes "cache_ok p c" and "responseHeaders (built p withId) v rid origin remaining reset retry c = (h, c')"
  shows "h = plain_headers p withId v rid origin remaining reset retry \<and> cache_ok p c'"
proof (cases "\<not> (withId \<and> rid \<noteq> None) \<and> \<not> has_flag v HV_RATE_ACTIVE \<and> \<not> has_flag v HV_RATE_LIMITED \<and> needs_origin v origin")
  case True
  then have "originBaseEntries (built p withId) v (the origin) c = (h, c')"
    using assms(2) by (auto simp: responseHeaders_def Let_def)
  from originBaseEntries_ok [OF assms(1) this] True show ?thesis
    by (auto simp: plain_headers_def extra_headers_def origin_entries_def)
next
  case False
  then show ?thesis using assms
    by (auto simp: responseHeaders_def Let_def plain_headers_def extra_headers_def split: if_splits)
qed

lemma terminalHeaders_plain:
  assumes "cache_ok p c" and "terminalHeaders (built p withId) v ctx result c = (h, c')"
  shows "h = plain_call p withId (CallTerminal v ctx result) \<and> cache_ok p c'"
proof -
  let ?v = "v OR HV_JSON"
  have b: "(case result of None \<Rightarrow> None | Some r \<Rightarrow> f r) = Option.bind result f" for f :: "ingress_result \<Rightarrow> nat option"
    by (cases result) auto
  show ?thesis
  proof (cases "\<not> (withId \<and> cx_requestIdHeader ctx \<noteq> None) \<and> \<not> needs_origin ?v (cx_origin ctx)
      \<and> \<not> has_flag ?v HV_RATE_ACTIVE \<and> \<not> has_flag ?v HV_RATE_LIMITED")
    case True
    then show ?thesis using assms
      by (auto simp: terminalHeaders_def Let_def plain_headers_def extra_headers_def)
  next
    case False
    obtain h1 c1 where r: "responseHeaders (built p withId) ?v (cx_requestIdHeader ctx) (cx_origin ctx) (map_option rateRemaining result)
        (Option.bind result (\<lambda>r. secs_of (rateResetMs r))) (Option.bind result (\<lambda>r. secs_of (retryAfterMs r))) c = (h1, c1)"
      by fastforce
    with False assms(2) have "h = h1 @ [(js ''cache-control'', js ''no-store'')] \<and> c' = c1"
      by (auto simp: terminalHeaders_def Let_def b)
    with responseHeaders_plain [OF assms(1) r] show ?thesis by simp
  qed
qed

lemma call_builders_plain:
  "cache_ok p c \<Longrightarrow> call_builders (built p withId) bs c = (hs, c') \<Longrightarrow> hs = map (plain_call p withId) bs \<and> cache_ok p c'"
proof (induction bs arbitrary: c hs c')
  case (Cons b bs)
  obtain h c1 where h: "call_builder (built p withId) b c = (h, c1)" by fastforce
  have "h = plain_call p withId b \<and> cache_ok p c1"
    using h responseHeaders_plain [OF Cons.prems(1)] terminalHeaders_plain [OF Cons.prems(1)] by (cases b) auto
  with Cons.IH [of c1] Cons.prems(2) h show ?case by (auto split: prod.splits)
qed simp

text \<open>
  The headers of a response do not depend on the responses before it. Over every sequence of calls of
  the header builders of one handler, from an empty cache, each call returns what the stateless
  description gives: the entries of its variant, then the request id, the reflected origin of this very
  request, the rate-limit fields and the retry time, each when its bit is set, and \<open>cache-control:
  no-store\<close> last on a terminal response. The cache keyed by origin never exceeds 64 entries, whatever
  origins the clients send.
\<close>

theorem header_builders_stateless:
  "fst (call_builders (buildBakedResponseBuilders p withId) bs []) = map (plain_call p withId) bs
   \<and> length (snd (call_builders (buildBakedResponseBuilders p withId) bs [])) \<le> ORIGIN_HEADER_CACHE_MAX"
proof -
  obtain hs c where "call_builders (built p withId) bs [] = (hs, c)" by fastforce
  moreover have "cache_ok p []" by (simp add: cache_ok_def)
  ultimately show ?thesis using call_builders_plain [of p "[]" withId bs] by (simp add: cache_ok_def)
qed

text \<open>
  A finding on the warm-up of the origin cache. With rate limiting enabled the success variant carries
  the rate bit, and for such a variant the builder assembles a fresh array instead of going through the
  cache: warming the configured origins leaves the cache exactly as it was, so the first request of each
  origin still builds its entry.
\<close>

theorem prewarm_with_rate_is_void:
  "prewarmOriginHeaders rb origins ((HV_JSON OR HV_CORS_SIMPLE) OR HV_RATE_ACTIVE) cache = cache"
proof -
  have "snd (responseHeaders rb ((HV_JSON OR HV_CORS_SIMPLE) OR HV_RATE_ACTIVE) None (Some origin) None None None c) = c" for origin c
    by (simp add: responseHeaders_def Let_def has_flag_def)
  then show ?thesis unfolding prewarmOriginHeaders_def by (induction origins arbitrary: cache) simp_all
qed

section \<open>Success headers\<close>

declare js_inject [simp]

lemma to_lower_js: "list_all (\<lambda>c. \<not> (65 \<le> (of_char c :: nat) \<and> (of_char c :: nat) \<le> 90)) s \<Longrightarrow> to_lower (js s) = js s"
proof (induction s)
  case (Cons c s)
  have "(of_char c :: nat) mod 2 ^ 16 = of_char c" by (rule mod_less, rule less_trans [OF nat_of_char_less_256]) simp
  then have "unat (of_nat (of_char c) :: code_unit) = of_char c" by (simp only: unat_of_nat len_num0 len_num1 len_bit0 len_bit1 mult_1_right) simp
  with Cons show ?case by (auto simp: to_lower_def js_def lower_unit_def)
qed (simp add: to_lower_def js_def)

lemma header_values_append [simp]: "header_values n (xs @ ys) = header_values n xs @ header_values n ys"
  by (simp add: header_values_def)

lemma header_values_none: "(\<And>h. h \<in> set hs \<Longrightarrow> to_lower (fst h) \<noteq> to_lower n) \<Longrightarrow> header_values n hs = []"
  by (simp add: header_values_def filter_empty_conv)

lemma header_values_set: "header_values n (header_set m v hs) = (if to_lower n = to_lower m then [v] else header_values n hs)"
proof (induction hs)
  case (Cons h hs)
  have f: "filter (\<lambda>g. to_lower (fst g) = to_lower m) (filter (\<lambda>g. to_lower (fst g) \<noteq> to_lower m) hs) = []"
    by (simp add: filter_empty_conv)
  have g: "filter (\<lambda>g. to_lower (fst g) = to_lower n) (filter (\<lambda>g. to_lower (fst g) \<noteq> to_lower m) hs)
      = filter (\<lambda>g. to_lower (fst g) = to_lower n) hs" if "to_lower n \<noteq> to_lower m"
    using that by (auto simp: filter_eq_Cons_iff intro!: filter_cong)
  show ?case using Cons f g by (auto simp: header_values_def)
qed (auto simp: header_values_def)

definition per_request :: "jsstring list" where
  "per_request = [js ''x-request-id'', js ''ratelimit-remaining'', js ''ratelimit-reset'']"

text \<open>No configured security header has the name of a header that is set per request.\<close>

definition names_clear :: "template_params \<Rightarrow> bool" where
  "names_clear p \<longleftrightarrow> list_all (\<lambda>h. to_lower (fst h) \<notin> set per_request) (tp_securityEntries p)"

lemma template_names_clear: "names_clear p \<Longrightarrow> h \<in> set (template_entries p v) \<Longrightarrow> to_lower (fst h) \<notin> set per_request"
  by (auto simp: names_clear_def list_all_iff template_entries_def Let_def per_request_def to_lower_js split: if_splits)

lemma template_values_none:
  "names_clear p \<Longrightarrow> to_lower n \<in> set per_request \<Longrightarrow> header_values n (template_entries p v) = []"
  using template_names_clear by (intro header_values_none) fastforce

lemma header_values_Cons [simp]:
  "header_values n (h # hs) = (if to_lower (fst h) = to_lower n then [snd h] else []) @ header_values n hs"
  by (simp add: header_values_def)

lemma header_values_Nil [simp]: "header_values n [] = []"
  by (simp add: header_values_def)

text \<open>
  The two ways to build the headers of a success agree. Whatever the cache holds, for every header
  name the \<open>Headers\<close> object of \<open>successHeaders\<close> reads the same as one made from the array of the stateless
  description, provided the configured security headers do not use the names that are set per request
  and the variant is not the one of a limited request.
\<close>

theorem success_headers_agree:
  assumes "names_clear p" and "cache_ok p c" and "\<not> has_flag v HV_RATE_LIMITED"
  shows "header_get (fst (successHeaders (buildBakedResponseBuilders p withId) v rid origin remaining reset c)) n
    = header_get (plain_headers p withId v rid origin remaining reset None) n"
proof -
  let ?base = "if needs_origin v origin then origin_entries p v (the origin) else template_entries p v"
  have base: "fst (if needs_origin v origin then originBaseEntries (built p withId) v (the origin) c else (template_entries p v, c)) = ?base"
    using originBaseEntries_ok [OF assms(2), of withId v "the origin"] by (cases "originBaseEntries (built p withId) v (the origin) c") auto
  have s: "fst (successHeaders (built p withId) v rid origin remaining reset c) =
      (let h1 = (if withId \<and> rid \<noteq> None then header_set (js ''x-request-id'') (the rid) ?base else ?base)
       in if has_flag v HV_RATE_ACTIVE then header_set (js ''ratelimit-reset'') (or_zero reset)
            (header_set (js ''ratelimit-remaining'') (or_zero remaining) h1) else h1)"
    using base by (auto simp: successHeaders_def Let_def split: prod.splits)
  have "header_values n (fst (successHeaders (built p withId) v rid origin remaining reset c))
      = header_values n (plain_headers p withId v rid origin remaining reset None)"
  proof (cases "to_lower n \<in> set per_request")
    case True
    note t = template_values_none [OF assms(1) True, of v]
    have "js ''access-control-allow-origin'' \<noteq> to_lower n" using True by (auto simp: per_request_def)
    then show ?thesis
      using True t assms(3) unfolding s
      by (auto simp: Let_def header_values_set plain_headers_def extra_headers_def origin_entries_def per_request_def to_lower_js)
  next
    case False
    then show ?thesis
      using assms(3) unfolding s
      by (auto simp: Let_def header_values_set plain_headers_def extra_headers_def origin_entries_def per_request_def to_lower_js)
  qed
  then show ?thesis by (simp add: header_get_def)
qed

theorem success_headers_agree_witness:
  "header_get (fst (successHeaders (buildBakedResponseBuilders (handler_templates True None None (Some [(js ''x-a'', js ''1'')]) None (Some (js ''10''))) True)
       11 (Some (js ''abc'')) (Some (js ''https://a'')) (Some 4) (Some 2) [])) (js ''X-Request-Id'')
   = header_get (plain_headers (handler_templates True None None (Some [(js ''x-a'', js ''1'')]) None (Some (js ''10''))) True
       11 (Some (js ''abc'')) (Some (js ''https://a'')) (Some 4) (Some 2) None) (js ''X-Request-Id'')"
proof (rule success_headers_agree)
  show "names_clear (handler_templates True None None (Some [(js ''x-a'', js ''1'')]) None (Some (js ''10'')))"
    by (simp add: names_clear_def handler_templates_def buildBakedSecurityEntries_def Let_def per_request_def to_lower_js)
qed (simp_all add: cache_ok_def has_flag_def)

section \<open>Merged security entries\<close>

lemma truthy_subseq: "subseq (map fst (truthy_entry n v)) [n]"
  by (simp add: truthy_entry_def split: option.split)

lemma security_names_distinct: "distinct (map fst (buildSecurityPairs sec https withAll))"
proof (cases withAll)
  case True
  let ?names = "[js ''x-content-type-options''] @ [js ''x-frame-options'', js ''referrer-policy''] @ [js ''x-xss-protection'']
    @ [js ''content-security-policy''] @ [js ''cross-origin-embedder-policy''] @ [js ''cross-origin-opener-policy'']
    @ [js ''cross-origin-resource-policy''] @ [js ''strict-transport-security'']"
  have "subseq (map fst (buildSecurityPairs sec https withAll)) ?names"
    unfolding buildSecurityPairs_def Let_def using True
    by (simp only: if_False not_True_eq_False map_append)
      (intro list_emb_append_mono truthy_subseq; simp split: option.split)
  moreover have "distinct ?names" by simp
  ultimately show ?thesis by (metis subseqs_distinctD set_subseqs_eq mem_Collect_eq)
qed (simp add: buildSecurityPairs_def)

lemma fold_update_override:
  "map_of (fold (\<lambda>(k, v) m. AList.update (f k) v m) kvs m) n = (case map_of (rev (map (apfst f) kvs)) n of Some v \<Rightarrow> Some v | None \<Rightarrow> map_of m n)"
proof (induction kvs arbitrary: m)
  case (Cons kv kvs)
  then show ?case by (cases kv) (auto simp: update_conv' map_of_append map_add_def split: option.splits)
qed simp

lemma map_of_rev_distinct: "distinct (map fst m) \<Longrightarrow> map_of (rev m) = map_of m"
  by (rule map_of_eqI) (auto simp: map_of_eq_Some_iff rev_map [symmetric])

lemma fold_update_distinct: "distinct (map fst m) \<Longrightarrow> distinct (map fst (fold (\<lambda>(k, v) m. AList.update (f k) v m) kvs m))"
  by (induction kvs arbitrary: m) (auto simp: distinct_update)

text \<open>
  Which security headers a response carries. Of a name that is configured as a raw pair, in any case,
  the last raw value is sent; every other name keeps its structured value, and no name occurs twice.
  The transport security header is structured only for a deployment pinned to https, and then has the
  configured age and flags.
\<close>

theorem security_entries_merge:
  "map_of (buildBakedSecurityEntries (Some sec) https (Some raw)) n =
     (case map_of (rev (map (apfst to_lower) raw)) n of
        Some v \<Rightarrow> Some v | None \<Rightarrow> map_of (buildSecurityPairs (Some sec) https True) n)
   \<and> distinct (map fst (buildBakedSecurityEntries (Some sec) https (Some raw)))
   \<and> map_of (buildSecurityPairs (Some sec) https True) (js ''strict-transport-security'')
       = (if https = Some True then buildHstsValue sec else None)"
proof (intro conjI)
  let ?s = "buildSecurityPairs (Some sec) https True"
  have s: "map_of (fold (\<lambda>(k, v) m. AList.update k v m) ?s []) = map_of ?s"
    using fold_update_override [of "\<lambda>k. k" ?s "[]"] security_names_distinct [of "Some sec" https True]
    by (auto simp: fun_eq_iff apfst_def map_prod_def map_of_rev_distinct split: option.splits)
  show "map_of (buildBakedSecurityEntries (Some sec) https (Some raw)) n =
     (case map_of (rev (map (apfst to_lower) raw)) n of Some v \<Rightarrow> Some v | None \<Rightarrow> map_of ?s n)"
    using fold_update_override [of to_lower raw "fold (\<lambda>(k, v) m. AList.update k v m) ?s []" n, unfolded s]
    by (cases raw) (simp_all add: buildBakedSecurityEntries_def Let_def)
  show "distinct (map fst (buildBakedSecurityEntries (Some sec) https (Some raw)))"
    using fold_update_distinct [of "fold (\<lambda>(k, v) m. AList.update k v m) ?s []" to_lower raw]
      fold_update_distinct [of "[]" "\<lambda>k. k" ?s] security_names_distinct [of "Some sec" https True]
    by (cases raw) (simp_all add: buildBakedSecurityEntries_def Let_def)
  have "map_of (truthy_entry m v) (js ''strict-transport-security'') = None" if "m \<noteq> js ''strict-transport-security''" for m v
    using that by (simp add: truthy_entry_def split: option.split)
  then show "map_of ?s (js ''strict-transport-security'') = (if https = Some True then buildHstsValue sec else None)"
    by (cases "buildHstsValue sec") (simp_all add: buildSecurityPairs_def Let_def map_of_append map_add_def)
qed

end
