(* ===== verification/PathMatcher.thy ===== *)
theory PathMatcher
  imports Codec Observability "HOL-Library.Product_Lexorder"
begin

text \<open>
  The dynamic path matcher of \<open>src/src/ingress/path-matcher.ts\<close>: patterns with \<open>:param\<close> and \<open>*\<close>
  segments are compiled to regular expressions, ordered by how specific they are, and tried in turn
  after the exact paths.

  The regular expressions the source builds have one shape only, segments joined by a slash, so a
  pattern is its list of segments and \<open>match_segs\<close> is the backtracking matcher of JavaScript on that
  shape: a group tries its longest match first. \<open>decodeURIComponent\<close> is written out; a thrown
  \<open>URIError\<close> is \<open>None\<close>. The handler map of a route is a type variable.
\<close>

section \<open>Percent decoding\<close>

definition pct_octet :: "jsstring \<Rightarrow> (byte \<times> jsstring) option" where
  "pct_octet s =
     (case s of c # h # l # r \<Rightarrow>
        if c = 37 \<and> hex_unit h \<and> hex_unit l then Some (of_nat (16 * hex_value h + hex_value l), r) else None
      | _ \<Rightarrow> None)"

fun pct_octets :: "nat \<Rightarrow> jsstring \<Rightarrow> (bytes \<times> jsstring) option" where
  "pct_octets 0 s = Some ([], s)"
| "pct_octets (Suc n) s =
     (case pct_octet s of None \<Rightarrow> None
      | Some (b, r) \<Rightarrow> (case pct_octets n r of None \<Rightarrow> None | Some (bs, r') \<Rightarrow> Some (b # bs, r')))"

text \<open>How many octets follow the lead byte, \<open>None\<close> for a byte that cannot lead.\<close>

definition trailing_octets :: "byte \<Rightarrow> nat option" where
  "trailing_octets b =
     (if unat b < 0x80 then Some 0 else if unat b < 0xC0 then None else if unat b < 0xE0 then Some 1
      else if unat b < 0xF0 then Some 2 else if unat b < 0xF8 then Some 3 else None)"

definition pct_scalar :: "jsstring \<Rightarrow> (nat \<times> jsstring) option" where
  "pct_scalar s =
     (case pct_octet s of None \<Rightarrow> None
      | Some (b, r) \<Rightarrow>
          (case trailing_octets b of None \<Rightarrow> None
           | Some n \<Rightarrow>
               (case pct_octets n r of None \<Rightarrow> None
                | Some (bs, r') \<Rightarrow>
                    (case utf8_next b bs of (code, rem) \<Rightarrow> if rem = [] then Some (code, r') else None))))"

lemma pct_octet_shorter: "pct_octet s = Some (b, r) \<Longrightarrow> length s = 3 + length r"
  by (auto simp: pct_octet_def split: list.splits if_splits)

lemma pct_octets_shorter: "pct_octets n s = Some (bs, r) \<Longrightarrow> length s = 3 * n + length r"
  by (induction n arbitrary: s bs r) (auto dest!: pct_octet_shorter split: option.splits)

lemma pct_scalar_shorter: "pct_scalar s = Some (n, r) \<Longrightarrow> length r < length s"
  by (auto simp: pct_scalar_def dest!: pct_octet_shorter pct_octets_shorter split: option.splits prod.splits if_splits)

function decodeURIComponent :: "jsstring \<Rightarrow> jsstring option" where
  "decodeURIComponent [] = Some []"
| "decodeURIComponent (c # s) =
     (if c \<noteq> 37 then map_option ((#) c) (decodeURIComponent s)
      else case pct_scalar (c # s) of None \<Rightarrow> None
           | Some (code, r) \<Rightarrow> map_option ((@) (scalar_units code)) (decodeURIComponent r))"
  by pat_completeness auto
termination
  by (relation "measure length") (auto dest: pct_scalar_shorter)

definition safeDecode :: "jsstring \<Rightarrow> jsstring" where
  "safeDecode value = (case decodeURIComponent value of Some d \<Rightarrow> d | None \<Rightarrow> value)"

section \<open>Compiled patterns\<close>

datatype pseg = Star | Param jsstring | Static jsstring

definition parse_seg :: "jsstring \<Rightarrow> pseg" where
  "parse_seg seg =
     (if seg = [42] then Star
      else case seg of c # name \<Rightarrow> (if c = 58 then Param name else Static seg) | [] \<Rightarrow> Static seg)"

record 'm dynamic_pattern =
  dp_segs :: "pseg list"
  dp_paramNames :: "jsstring list"
  dp_rest :: bool
  dp_methods :: 'm
  dp_staticSegments :: nat

fun param_names :: "pseg list \<Rightarrow> jsstring list" where
  "param_names [] = []"
| "param_names (Param n # ps) = n # param_names ps"
| "param_names (p # ps) = param_names ps"

fun is_static :: "pseg \<Rightarrow> bool" where
  "is_static (Static s) = True"
| "is_static p = False"

definition pattern_segs :: "jsstring \<Rightarrow> pseg list" where
  "pattern_segs path = map parse_seg (filter (\<lambda>s. 0 < length s) (split_on 47 path))"

definition compile_pattern :: "jsstring \<Rightarrow> 'm \<Rightarrow> 'm dynamic_pattern" where
  "compile_pattern path methods =
     (let ps = pattern_segs path
      in \<lparr>dp_segs = ps, dp_paramNames = param_names ps, dp_rest = (Star \<in> set ps), dp_methods = methods,
          dp_staticSegments = length (filter is_static ps)\<rparr>)"

definition is_dynamic :: "jsstring \<Rightarrow> bool" where
  "is_dynamic path \<longleftrightarrow> 58 \<in> set path \<or> 42 \<in> set path"

text \<open>The order of \<open>dynamic.sort\<close>: more static segments first, then fewer parameters; the sort is stable.\<close>

definition specificity :: "'m dynamic_pattern \<Rightarrow> int \<times> nat" where
  "specificity d = (- int (dp_staticSegments d), length (dp_paramNames d))"

record 'm path_matcher =
  pm_exact :: "(jsstring, 'm) jsmap"
  pm_dynamic :: "'m dynamic_pattern list"

definition buildPathMatcher :: "(jsstring \<times> 'm) list \<Rightarrow> 'm path_matcher" where
  "buildPathMatcher routes =
     (let exact = fold (\<lambda>(path, methods) m. AList.update path methods m) (filter (\<lambda>(path, _). \<not> is_dynamic path) routes) [];
          dynamic = map (\<lambda>(path, methods). compile_pattern path methods) (filter (\<lambda>(path, _). is_dynamic path) routes)
      in \<lparr>pm_exact = exact, pm_dynamic = sort_key specificity dynamic\<rparr>)"

section \<open>Matching\<close>

definition line_end :: "code_unit \<Rightarrow> bool" where
  "line_end c \<longleftrightarrow> unat c \<in> {10, 13, 0x2028, 0x2029}"

text \<open>The first success among the lengths from \<open>hi\<close> down to \<open>lo\<close>.\<close>

primrec greedy :: "nat \<Rightarrow> (nat \<Rightarrow> 'a option) \<Rightarrow> nat \<Rightarrow> 'a option" where
  "greedy lo f 0 = (if lo = 0 then f 0 else None)"
| "greedy lo f (Suc n) = (if Suc n < lo then None else case f (Suc n) of Some x \<Rightarrow> Some x | None \<Rightarrow> greedy lo f n)"

definition starts_with :: "jsstring \<Rightarrow> jsstring \<Rightarrow> bool" where
  "starts_with p s \<longleftrightarrow> take (length p) s = p"

text \<open>What follows a segment: the next ones after a slash, or the end of the expression.\<close>

definition after_seg :: "bool \<Rightarrow> bool \<Rightarrow> (jsstring \<Rightarrow> jsstring list option) \<Rightarrow> jsstring \<Rightarrow> jsstring list option" where
  "after_seg rest fin next s =
     (if fin then (if rest \<or> s = [] \<or> s = [47] then Some [] else None)
      else case s of c # s' \<Rightarrow> if c = 47 then next s' else None | [] \<Rightarrow> None)"

primrec match_segs :: "pseg list \<Rightarrow> bool \<Rightarrow> jsstring \<Rightarrow> jsstring list option" where
  "match_segs [] rest s = Some []"
| "match_segs (p # ps) rest s =
     (let k = after_seg rest (ps = []) (match_segs ps rest) in
      case p of
        Static lit \<Rightarrow> if starts_with lit s then k (drop (length lit) s) else None
      | Param _ \<Rightarrow> greedy 1 (\<lambda>n. map_option ((#) (take n s)) (k (drop n s))) (length (takeWhile (\<lambda>c. c \<noteq> 47) s))
      | Star \<Rightarrow> greedy 0 (\<lambda>n. map_option ((#) (take n s)) (k (drop n s))) (length (takeWhile (\<lambda>c. \<not> line_end c) s)))"

definition re_exec :: "'m dynamic_pattern \<Rightarrow> jsstring \<Rightarrow> jsstring list option" where
  "re_exec d pathname =
     (case pathname of c # s \<Rightarrow> if c = 47 then match_segs (dp_segs d) (dp_rest d) s else None | [] \<Rightarrow> None)"

type_synonym params = "(jsstring, jsstring) jsmap"

text \<open>Assigning a string to \<open>__proto__\<close> of an object literal has no effect.\<close>

definition set_param :: "jsstring \<Rightarrow> jsstring \<Rightarrow> params \<Rightarrow> params" where
  "set_param name v ps = (if name = js ''__proto__'' then ps else AList.update name v ps)"

definition pattern_params :: "'m dynamic_pattern \<Rightarrow> jsstring list \<Rightarrow> params" where
  "pattern_params d groups =
     (let ps = fold (\<lambda>(name, raw). set_param name (safeDecode raw)) (zip (dp_paramNames d) groups) []
      in if dp_rest d \<and> length (dp_paramNames d) < length groups
         then set_param [42] (safeDecode (groups ! length (dp_paramNames d))) ps else ps)"

record 'm path_match =
  pt_methods :: 'm
  pt_params :: params

fun first_match :: "'m dynamic_pattern list \<Rightarrow> jsstring \<Rightarrow> 'm path_match option" where
  "first_match [] pathname = None"
| "first_match (d # ds) pathname =
     (case re_exec d pathname of
        Some groups \<Rightarrow> Some \<lparr>pt_methods = dp_methods d, pt_params = pattern_params d groups\<rparr>
      | None \<Rightarrow> first_match ds pathname)"

definition match_path :: "'m path_matcher \<Rightarrow> jsstring \<Rightarrow> 'm path_match option" where
  "match_path pm pathname =
     (case map_of (pm_exact pm) pathname of
        Some methods \<Rightarrow> Some \<lparr>pt_methods = methods, pt_params = []\<rparr>
      | None \<Rightarrow> first_match (pm_dynamic pm) pathname)"

section \<open>Segments of a path\<close>

fun join_segs :: "jsstring list \<Rightarrow> jsstring" where
  "join_segs [] = []"
| "join_segs [x] = x"
| "join_segs (x # y # xs) = x @ 47 # join_segs (y # xs)"

lemma split_on_ne [simp]: "split_on c s \<noteq> []"
  by (cases s) (auto split: list.splits)

lemma split_on_Cons:
  "split_on c s = takeWhile (\<lambda>u. u \<noteq> c) s # (case dropWhile (\<lambda>u. u \<noteq> c) s of [] \<Rightarrow> [] | _ # r \<Rightarrow> split_on c r)"
  by (induction s) (auto split: list.splits)

lemma split_on_single: "c \<notin> set s \<Longrightarrow> split_on c s = [s]"
  by (induction s) auto

lemma split_on_sep: "c \<notin> set x \<Longrightarrow> split_on c (x @ c # r) = x # split_on c r"
  by (induction x) auto

lemma split_on_join: "xs \<noteq> [] \<Longrightarrow> \<forall>x\<in>set xs. 47 \<notin> set x \<Longrightarrow> split_on 47 (join_segs xs) = xs"
  by (induction xs rule: join_segs.induct) (auto simp: split_on_single split_on_sep)

lemma join_split_on: "join_segs (split_on 47 s) = s"
proof (induction s)
  case (Cons u s)
  then show ?case
    by (cases "split_on 47 s" rule: join_segs.cases) auto
qed simp

lemma split_on_parts: "x \<in> set (split_on c s) \<Longrightarrow> c \<notin> set x \<and> set x \<subseteq> set s"
proof (induction s arbitrary: x)
  case (Cons u s)
  then show ?case by (cases "split_on c s") (fastforce split: if_splits)+
qed simp

section \<open>A pattern against the segments of a path\<close>

text \<open>
  The declarative reading of a pattern whose \<open>*\<close>, if it has one, is its last segment: the segments of
  the path one by one, a static one equal, a parameter not empty, then an optional trailing slash, or
  everything that is left for the \<open>*\<close>.
\<close>

fun ref_bind :: "pseg list \<Rightarrow> jsstring list \<Rightarrow> (jsstring \<times> jsstring) list option" where
  "ref_bind [] xs = (if xs = [] \<or> xs = [[]] then Some [] else None)"
| "ref_bind (p # ps) [] = None"
| "ref_bind (Star # ps) (x # xs) = Some [([42], takeWhile (\<lambda>c. \<not> line_end c) (join_segs (x # xs)))]"
| "ref_bind (Static l # ps) (x # xs) = (if x = l then ref_bind ps xs else None)"
| "ref_bind (Param n # ps) (x # xs) = (if x \<noteq> [] then map_option ((#) (n, x)) (ref_bind ps xs) else None)"

fun star_last :: "pseg list \<Rightarrow> bool" where
  "star_last [] = True"
| "star_last (Star # ps) = (ps = [])"
| "star_last (p # ps) = star_last ps"

fun seg_clean :: "pseg \<Rightarrow> bool" where
  "seg_clean (Static l) = (47 \<notin> set l)"
| "seg_clean p = True"

lemma greedy_top: "lo \<le> n \<Longrightarrow> f n = Some x \<Longrightarrow> greedy lo f n = Some x"
  by (cases n) auto

lemma greedy_only: "\<forall>m < n. f m = None \<Longrightarrow> greedy lo f n = (if lo \<le> n then f n else None)"
proof (induction n)
  case (Suc n)
  then show ?case by (cases "lo = Suc n") (auto split: option.splits)
qed simp

lemma drop_short_run: "m < length (takeWhile P s) \<Longrightarrow> \<exists>c r. drop m s = c # r \<and> P c"
proof -
  assume m: "m < length (takeWhile P s)"
  then have "drop m s = s ! m # drop (Suc m) s"
    by (metis Cons_nth_drop_Suc length_takeWhile_le order_less_le_trans)
  moreover have "P (s ! m)" using m by (metis nth_mem set_takeWhileD takeWhile_nth)
  ultimately show ?thesis by blast
qed

lemma greedy_param:
  fixes s :: jsstring
  defines "t \<equiv> takeWhile (\<lambda>c. c \<noteq> 47) s"
  shows "greedy 1 (\<lambda>n. map_option ((#) (take n s)) (after_seg rest fin k (drop n s))) (length t)
    = (if t = [] then None else map_option ((#) t) (after_seg rest fin k (dropWhile (\<lambda>c. c \<noteq> 47) s)))"
proof -
  have t: "take (length t) s = t" "drop (length t) s = dropWhile (\<lambda>c. c \<noteq> 47) s"
    by (simp_all add: t_def takeWhile_eq_take [symmetric] dropWhile_eq_drop [symmetric])
  show ?thesis
  proof (cases "fin \<and> rest")
    case True
    then show ?thesis using t by (cases "t = []") (auto intro!: greedy_top simp: after_seg_def Suc_le_eq)
  next
    case False
    have "\<forall>m < length t. map_option ((#) (take m s)) (after_seg rest fin k (drop m s)) = None"
    proof (intro allI impI)
      fix m assume "m < length t"
      then obtain c r where "drop m s = c # r" "c \<noteq> 47" using drop_short_run unfolding t_def by blast
      with False show "map_option ((#) (take m s)) (after_seg rest fin k (drop m s)) = None"
        by (auto simp: after_seg_def)
    qed
    from greedy_only [OF this, of 1] show ?thesis using t by (auto simp: Suc_le_eq)
  qed
qed

lemma greedy_star_end:
  "greedy 0 (\<lambda>n. map_option ((#) (take n s)) (after_seg True True k (drop n s))) (length (takeWhile P s)) = Some [takeWhile P s]"
  by (rule greedy_top) (simp_all add: after_seg_def takeWhile_eq_take [symmetric])

lemma static_after:
  assumes "47 \<notin> set lit" and "\<not> (rest \<and> fin)"
  shows "(if starts_with lit s then after_seg rest fin k (drop (length lit) s) else None)
    = (if takeWhile (\<lambda>c. c \<noteq> 47) s = lit then after_seg rest fin k (dropWhile (\<lambda>c. c \<noteq> 47) s) else None)"
proof (cases "starts_with lit s")
  case True
  then obtain r where s: "s = lit @ r" by (metis append_take_drop_id starts_with_def)
  have tw: "takeWhile (\<lambda>c. c \<noteq> 47) s = lit @ takeWhile (\<lambda>c. c \<noteq> 47) r"
    and dw: "dropWhile (\<lambda>c. c \<noteq> 47) s = dropWhile (\<lambda>c. c \<noteq> 47) r"
    unfolding s using assms(1) by (subst takeWhile_append2 dropWhile_append2; auto)+
  have "drop (length lit) s = r" using s by simp
  with True show ?thesis
    unfolding tw dw using assms(2) by (cases r) (auto simp: after_seg_def)
next
  case False
  have "take (length (takeWhile (\<lambda>c. c \<noteq> 47) s)) s = takeWhile (\<lambda>c. c \<noteq> 47) s"
    by (simp add: takeWhile_eq_take [symmetric])
  with False show ?thesis by (auto simp: starts_with_def)
qed

lemma after_seg_ref:
  "after_seg False True k s = map_option (map snd) (ref_bind [] (case s of [] \<Rightarrow> [] | _ # r \<Rightarrow> split_on 47 r))"
  if "s = [] \<or> hd s = 47"
proof (cases s)
  case (Cons c r)
  have "split_on 47 r = [[]] \<longleftrightarrow> r = []"
    by (metis join_segs.simps(2) join_split_on split_on.simps(1))
  with Cons that show ?thesis by (auto simp: after_seg_def)
qed (simp add: after_seg_def)

lemma hd_dropWhile_ne: "dropWhile (\<lambda>c. c \<noteq> x) s = [] \<or> hd (dropWhile (\<lambda>c. c \<noteq> x) s) = x"
  using hd_dropWhile [of "\<lambda>c. c \<noteq> x" s] by blast

lemma after_seg_next:
  assumes "ps \<noteq> []" and "\<And>s. match_segs ps rest s = map_option (map snd) (ref_bind ps (split_on 47 s))"
    and "d = [] \<or> hd d = 47"
  shows "after_seg rest False (match_segs ps rest) d
    = map_option (map snd) (ref_bind ps (case d of [] \<Rightarrow> [] | _ # r \<Rightarrow> split_on 47 r))"
proof (cases d)
  case Nil
  with assms(1) show ?thesis by (cases ps) (simp_all add: after_seg_def)
next
  case (Cons c r)
  with assms(2,3) show ?thesis by (simp add: after_seg_def)
qed

text \<open>What follows a segment that is no \<open>*\<close>, in both cases.\<close>

lemma after_seg_rest:
  assumes ih: "ps \<noteq> [] \<Longrightarrow> \<forall>s. match_segs ps (Star \<in> set ps) s = map_option (map snd) (ref_bind ps (split_on 47 s))"
  shows "after_seg (Star \<in> set ps) (ps = []) (match_segs ps (Star \<in> set ps)) (dropWhile (\<lambda>c. c \<noteq> 47) s)
    = map_option (map snd) (ref_bind ps (case dropWhile (\<lambda>c. c \<noteq> 47) s of [] \<Rightarrow> [] | _ # r \<Rightarrow> split_on 47 r))"
proof (cases "ps = []")
  case True
  then show ?thesis using after_seg_ref [OF hd_dropWhile_ne [of 47 s]] by simp
next
  case False
  with ih have "\<And>s. match_segs ps (Star \<in> set ps) s = map_option (map snd) (ref_bind ps (split_on 47 s))" by blast
  from after_seg_next [OF False this hd_dropWhile_ne] False show ?thesis by simp
qed

theorem match_segs_reference:
  assumes "star_last ps" and "ps \<noteq> []" and "\<forall>p\<in>set ps. seg_clean p"
  shows "\<forall>s. match_segs ps (Star \<in> set ps) s = map_option (map snd) (ref_bind ps (split_on 47 s))"
  using assms
proof (induction ps)
  case (Cons p ps)
  show ?case
  proof (cases p)
    case Star
    then have ps: "ps = []" using Cons.prems by simp
    show ?thesis
    proof
      fix s
      have "ref_bind [Star] (split_on 47 s) = Some [([42], takeWhile (\<lambda>c. \<not> line_end c) s)]"
        by (cases "split_on 47 s") (use join_split_on [of s] in auto)
      then show "match_segs (p # ps) (Star \<in> set (p # ps)) s = map_option (map snd) (ref_bind (p # ps) (split_on 47 s))"
        using greedy_star_end [of s _ "\<lambda>c. \<not> line_end c"] Star ps by simp
    qed
  next
    case (Param n)
    have ih: "ps \<noteq> [] \<Longrightarrow> \<forall>s. match_segs ps (Star \<in> set ps) s = map_option (map snd) (ref_bind ps (split_on 47 s))"
      using Cons Param by simp
    show ?thesis
      using after_seg_rest [OF ih] Param
      by (simp add: greedy_param split_on_Cons [of 47] option.map_comp comp_def del: split_on.simps One_nat_def)
  next
    case (Static lit)
    have ih: "ps \<noteq> [] \<Longrightarrow> \<forall>s. match_segs ps (Star \<in> set ps) s = map_option (map snd) (ref_bind ps (split_on 47 s))"
      using Cons Static by simp
    have "47 \<notin> set lit" "\<not> (Star \<in> set ps \<and> ps = [])" using Cons.prems Static by auto
    from static_after [OF this, of _ "match_segs ps (Star \<in> set ps)"] show ?thesis
      using after_seg_rest [OF ih] Static
      by (simp add: split_on_Cons [of 47] del: split_on.simps)
  qed
qed simp

text \<open>The groups are bound to the names in order.\<close>

lemma ref_bind_names:
  "star_last ps \<Longrightarrow> ref_bind ps xs = Some bs \<Longrightarrow> map fst bs = param_names ps @ (if Star \<in> set ps then [[42]] else [])"
  by (induction ps xs arbitrary: bs rule: ref_bind.induct) (auto split: if_splits)

definition bind_params :: "(jsstring \<times> jsstring) list \<Rightarrow> params" where
  "bind_params bs = fold (\<lambda>(name, raw). set_param name (safeDecode raw)) bs []"

lemma zip_split: "length ns = length vs \<Longrightarrow> zip ns vs = bs \<Longrightarrow> map fst bs = ns \<and> map snd bs = vs"
  by auto

lemma pattern_params_bind:
  assumes "map fst bs = dp_paramNames d @ (if dp_rest d then [[42]] else [])"
  shows "pattern_params d (map snd bs) = bind_params bs"
proof (cases "dp_rest d")
  case False
  then have "zip (dp_paramNames d) (map snd bs) = bs" using assms by (metis append_Nil2 zip_map_fst_snd)
  then show ?thesis using False by (simp add: pattern_params_def bind_params_def)
next
  case True
  then obtain bs' v where bs: "bs = bs' @ [([42], v)]" and n: "map fst bs' = dp_paramNames d"
    using assms by (cases bs rule: rev_cases) auto
  have "zip (dp_paramNames d) (map snd bs' @ [v]) = bs'"
    by (metis n append_Nil2 length_map zip_append1 zip_map_fst_snd take_all_iff le_refl append_eq_conv_conj zip_append zip_Nil)
  moreover have "length (dp_paramNames d) = length bs'" using n by (metis length_map)
  ultimately show ?thesis using True bs
    by (simp add: pattern_params_def bind_params_def Let_def nth_append)
qed

section \<open>The most specific pattern\<close>

text \<open>The dynamic routes that match a path, with what they bind.\<close>

definition bind_path :: "jsstring \<Rightarrow> jsstring \<Rightarrow> (jsstring \<times> jsstring) list option" where
  "bind_path path pathname =
     (case pathname of c # s \<Rightarrow> if c = 47 then ref_bind (pattern_segs path) (split_on 47 s) else None | [] \<Rightarrow> None)"

definition candidates :: "(jsstring \<times> 'm) list \<Rightarrow> jsstring \<Rightarrow> ('m dynamic_pattern \<times> (jsstring \<times> jsstring) list) list" where
  "candidates routes pathname =
     concat (map (\<lambda>(path, m). if is_dynamic path
         then (case bind_path path pathname of Some bs \<Rightarrow> [(compile_pattern path m, bs)] | None \<Rightarrow> [])
         else []) routes)"

definition reference_match :: "(jsstring \<times> 'm) list \<Rightarrow> jsstring \<Rightarrow> 'm path_match option" where
  "reference_match routes pathname =
     (case map_of (filter (\<lambda>(path, _). \<not> is_dynamic path) routes) pathname of
        Some m \<Rightarrow> Some \<lparr>pt_methods = m, pt_params = []\<rparr>
      | None \<Rightarrow>
          (let cs = candidates routes pathname
           in case filter (\<lambda>c. \<forall>c' \<in> set cs. specificity (fst c) \<le> specificity (fst c')) cs of
                [] \<Rightarrow> None
              | (d, bs) # _ \<Rightarrow> Some \<lparr>pt_methods = dp_methods d, pt_params = bind_params bs\<rparr>))"

lemma first_match_filter:
  "first_match ds pathname =
     (case filter (\<lambda>d. re_exec d pathname \<noteq> None) ds of
        [] \<Rightarrow> None
      | d # _ \<Rightarrow> Some \<lparr>pt_methods = dp_methods d, pt_params = pattern_params d (the (re_exec d pathname))\<rparr>)"
  by (induction ds) (auto split: option.splits)

lemma sort_key_first:
  assumes "sort_key f xs = y # ys"
  shows "\<exists>zs. filter (\<lambda>x. \<forall>x' \<in> set xs. f x \<le> f x') xs = y # zs"
proof -
  have y: "y \<in> set xs" and m: "\<forall>x' \<in> set xs. f y \<le> f x'"
    using assms sorted_sort_key [of f xs] set_sort [of f xs] by auto
  have "filter (\<lambda>x. \<forall>x' \<in> set xs. f x \<le> f x') xs = filter (\<lambda>x. f x = f y) xs"
    using y m by (intro filter_cong) (auto intro: antisym)
  also have "\<dots> = filter (\<lambda>x. f x = f y) (sort_key f xs)" by (simp add: sort_key_stable)
  finally show ?thesis using assms by simp
qed

lemma fold_update_map_of: "distinct (map fst kvs) \<Longrightarrow> map_of (fold (\<lambda>(k, v) m. AList.update k v m) kvs m) = map_of m ++ map_of kvs"
proof (induction kvs arbitrary: m)
  case (Cons kv kvs)
  have "map_of kvs (fst kv) = None" using Cons.prems by (simp add: map_of_eq_None_iff)
  then show ?case using Cons by (cases kv) (auto simp: update_conv' map_add_def fun_eq_iff split: option.splits)
qed simp

lemma fold_update_in:
  "map_of (fold (\<lambda>(k, v) m. AList.update k v m) kvs m) k = Some v \<Longrightarrow> (k, v) \<in> set kvs \<or> map_of m k = Some v"
  by (induction kvs arbitrary: m) (fastforce simp: update_conv' split: if_splits)+

lemma parse_seg_clean: "47 \<notin> set x \<Longrightarrow> seg_clean (parse_seg x)"
  by (auto simp: parse_seg_def split: list.splits)

lemma pattern_segs_clean: "p \<in> set (pattern_segs path) \<Longrightarrow> seg_clean p"
  by (auto simp: pattern_segs_def dest: split_on_parts intro!: parse_seg_clean)

lemma set_join: "set (join_segs xs) \<subseteq> insert 47 (\<Union>x\<in>set xs. set x)"
  by (induction xs rule: join_segs.induct) auto

lemma pattern_segs_ne: "is_dynamic path \<Longrightarrow> pattern_segs path \<noteq> []"
proof
  assume d: "is_dynamic path" and "pattern_segs path = []"
  then have "\<forall>x \<in> set (split_on 47 path). x = []" by (auto simp: pattern_segs_def filter_empty_conv)
  then have "set path \<subseteq> {47}" using set_join [of "split_on 47 path"] unfolding join_split_on by fastforce
  with d show False by (auto simp: is_dynamic_def)
qed


lemma star_in_pattern: "Star \<in> set (pattern_segs path) \<Longrightarrow> is_dynamic path"
  by (auto simp: pattern_segs_def parse_seg_def is_dynamic_def dest: split_on_parts split: if_splits list.splits)

lemma param_in_pattern: "Param n \<in> set (pattern_segs path) \<Longrightarrow> is_dynamic path"
  by (auto simp: pattern_segs_def parse_seg_def is_dynamic_def dest: split_on_parts split: if_splits list.splits)

lemma re_exec_compiled:
  assumes "is_dynamic path" and "star_last (pattern_segs path)"
  shows "re_exec (compile_pattern path m) pathname = map_option (map snd) (bind_path path pathname)"
  using match_segs_reference [OF assms(2) pattern_segs_ne [OF assms(1)]] pattern_segs_clean [of _ path]
  by (auto simp: re_exec_def bind_path_def compile_pattern_def Let_def split: list.splits)

definition stars_last :: "(jsstring \<times> 'm) list \<Rightarrow> bool" where
  "stars_last routes \<longleftrightarrow> (\<forall>(path, _) \<in> set routes. star_last (pattern_segs path))"

text \<open>The candidates are the compiled patterns that match, and their bindings are the parameters the matcher reports.\<close>

lemma candidates_matching:
  assumes "stars_last routes"
  shows "map fst (candidates routes pathname) =
      filter (\<lambda>d. re_exec d pathname \<noteq> None)
        (map (\<lambda>(path, m). compile_pattern path m) (filter (\<lambda>(path, _). is_dynamic path) routes))"
  using assms
proof (induction routes)
  case (Cons r routes)
  obtain path m where r: "r = (path, m)" by (cases r)
  have sl: "star_last (pattern_segs path)" and "stars_last routes" using Cons.prems r by (auto simp: stars_last_def)
  with Cons.IH r show ?case
    by (cases "is_dynamic path"; cases "bind_path path pathname") (simp_all add: candidates_def re_exec_compiled)
qed (simp add: candidates_def)

lemma compiled_params:
  assumes "is_dynamic path" and sl: "star_last (pattern_segs path)" and b: "bind_path path pathname = Some bs"
  shows "pattern_params (compile_pattern path m) (the (re_exec (compile_pattern path m) pathname)) = bind_params bs"
proof -
  have "map fst bs = dp_paramNames (compile_pattern path m) @ (if dp_rest (compile_pattern path m) then [[42]] else [])"
    using ref_bind_names [OF sl, of _ bs] b
    by (auto simp: compile_pattern_def Let_def bind_path_def split: list.splits if_splits)
  from pattern_params_bind [OF this] show ?thesis using b by (simp add: re_exec_compiled [OF assms(1) sl])
qed

lemma candidates_bind:
  assumes "stars_last routes"
  shows "map (\<lambda>c. pattern_params (fst c) (the (re_exec (fst c) pathname))) (candidates routes pathname)
    = map (\<lambda>c. bind_params (snd c)) (candidates routes pathname)"
  using assms
proof (induction routes)
  case (Cons r routes)
  obtain path m where r: "r = (path, m)" by (cases r)
  have sl: "star_last (pattern_segs path)" and "stars_last routes" using Cons.prems r by (auto simp: stars_last_def)
  with Cons.IH r show ?case
    by (cases "is_dynamic path"; cases "bind_path path pathname") (simp_all add: candidates_def compiled_params del: map_eq_conv)
qed (simp add: candidates_def)



section \<open>Round trip of encoded values\<close>

text \<open>
  A client's encoding of a value: the characters it keeps are written as they are, every other one as
  the escapes of its UTF-8 bytes. \<open>encodeURIComponent\<close> is the instance that keeps the unreserved characters.
\<close>

definition pct_byte :: "byte \<Rightarrow> jsstring" where
  "pct_byte b = [37, hex_char (unat b div 16), hex_char (unat b mod 16)]"

definition encode_with :: "(nat \<Rightarrow> bool) \<Rightarrow> jsstring \<Rightarrow> jsstring" where
  "encode_with keep s = concat (map (\<lambda>n. if keep n then scalar_units n else concat (map pct_byte (enc_scalar n))) (scalars s))"

lemma hex_char_not: "n < 16 \<Longrightarrow> hex_char n \<noteq> 47"
  using unat_hex_char [of n] by (auto simp: word_unat_eq_iff split: if_splits)

lemma pct_octet_byte: "pct_octet (pct_byte b @ r) = Some (b, r)"
proof -
  have "unat b < 256" using unsigned_less [of b] by simp
  then have "unat b div 16 < 16" by (simp add: div_less_iff_less_mult)
  then show ?thesis
    using hex_char_ok [of "unat b div 16"] hex_char_ok [of "unat b mod 16"]
    by (simp add: pct_byte_def pct_octet_def)
qed

lemma pct_octets_bytes: "pct_octets (length bs) (concat (map pct_byte bs) @ r) = Some (bs, r)"
  by (induction bs) (simp_all add: pct_octet_byte)

lemma enc_scalar_trailing:
  assumes "is_scalar n" and "enc_scalar n = b # bs"
  shows "trailing_octets b = Some (length bs)"
proof -
  have "n < 0x110000" using assms(1) by (simp add: is_scalar_def)
  then have "n div 64 < 0x20 \<or> 0x800 \<le> n" "n div 4096 < 0x10 \<or> 0x10000 \<le> n" "n div 262144 < 8" by auto
  then show ?thesis using assms(2)
    by (auto simp: enc_scalar_def trailing_octets_def unat_of_nat simp del: of_nat_add split: if_splits)
qed

lemma pct_scalar_enc:
  assumes "is_scalar n"
  shows "pct_scalar (concat (map pct_byte (enc_scalar n)) @ r) = Some (n, r)"
proof -
  obtain b bs where e: "enc_scalar n = b # bs" and u: "\<And>q. utf8_next b (bs @ q) = (n, q)"
    using utf8_next_enc_scalar [OF assms] by blast
  show ?thesis
    using u [of "[]"] by (simp add: e pct_scalar_def pct_octet_byte pct_octets_bytes enc_scalar_trailing [OF assms e])
qed

lemma decode_kept: "37 \<notin> set k \<Longrightarrow> decodeURIComponent (k @ r) = map_option ((@) k) (decodeURIComponent r)"
proof (induction k)
  case (Cons c k)
  then show ?case by (cases "decodeURIComponent r") auto
qed (cases "decodeURIComponent r"; simp)

lemma decode_escaped:
  assumes "is_scalar n"
  shows "decodeURIComponent (concat (map pct_byte (enc_scalar n)) @ r) = map_option ((@) (scalar_units n)) (decodeURIComponent r)"
proof -
  let ?s = "concat (map pct_byte (enc_scalar n)) @ r"
  obtain b bs where e: "enc_scalar n = b # bs" using utf8_next_enc_scalar [OF assms] by blast
  then obtain t where t: "?s = 37 # t" by (simp add: pct_byte_def)
  show ?thesis using pct_scalar_enc [OF assms, of r] unfolding t by simp
qed

lemma scalar_units_other:
  assumes "n \<noteq> c" and "c < 0xD800" and "is_scalar n"
  shows "of_nat c \<notin> set (scalar_units n)"
proof -
  have "(n - 0x10000) div 1024 < 0x400" using assms(3) by (auto simp: is_scalar_def)
  then show ?thesis using assms
    by (auto simp: scalar_units_def is_scalar_def word_unat_eq_iff unat_of_nat simp del: of_nat_add)
qed

lemma decode_encode_scalars:
  assumes "\<not> keep 37" and "\<forall>n \<in> set ns. is_scalar n"
  shows "decodeURIComponent (concat (map (\<lambda>n. if keep n then scalar_units n else concat (map pct_byte (enc_scalar n))) ns))
    = Some (concat (map scalar_units ns))"
  using assms(2)
proof (induction ns)
  case (Cons n ns)
  have "37 \<notin> set (scalar_units n)" if "keep n"
    using scalar_units_other [of n 37] that assms(1) Cons.prems by auto
  then show ?case using Cons by (auto simp: decode_kept decode_escaped)
qed simp

lemma safeDecode_encode: "\<not> keep 37 \<Longrightarrow> well_formed v \<Longrightarrow> safeDecode (encode_with keep v) = v"
  using decode_encode_scalars [of keep "scalars v"] scalars_are_scalars [of _ v]
  by (simp add: safeDecode_def encode_with_def scalars_units)

text \<open>The path of a pattern with encoded values in place of its parameters.\<close>

fun fill_segs :: "(nat \<Rightarrow> bool) \<Rightarrow> pseg list \<Rightarrow> jsstring list \<Rightarrow> jsstring list" where
  "fill_segs keep (Static l # ps) vs = l # fill_segs keep ps vs"
| "fill_segs keep (Param n # ps) (v # vs) = encode_with keep v # fill_segs keep ps vs"
| "fill_segs keep ps vs = []"

definition fill_path :: "(nat \<Rightarrow> bool) \<Rightarrow> jsstring \<Rightarrow> jsstring list \<Rightarrow> jsstring" where
  "fill_path keep path vs = 47 # join_segs (fill_segs keep (pattern_segs path) vs)"

lemma pct_bytes_clean: "47 \<notin> set (concat (map pct_byte bs))"
proof -
  have "unat b div 16 < 16" for b :: byte using unsigned_less [of b] by (simp add: div_less_iff_less_mult)
  then have "47 \<notin> set (pct_byte b)" for b
    using hex_char_not [of "unat b div 16"] hex_char_not [of "unat b mod 16"] by (auto simp: pct_byte_def)
  then show ?thesis by auto
qed

lemma encode_clean: "\<not> keep 47 \<Longrightarrow> 47 \<notin> set (encode_with keep v)"
proof -
  assume k: "\<not> keep 47"
  have "47 \<notin> set (if keep n then scalar_units n else concat (map pct_byte (enc_scalar n)))" if "n \<in> set (scalars v)" for n
    using scalar_units_other [of n 47] pct_bytes_clean [of "enc_scalar n"] scalars_are_scalars [OF that] k
    by (cases "n = 47") (simp_all del: set_concat)
  then show ?thesis unfolding encode_with_def by (simp only: set_concat set_map) blast
qed

lemma encode_ne: "v \<noteq> [] \<Longrightarrow> encode_with keep v \<noteq> []"
proof -
  assume "v \<noteq> []"
  then have "scalars v \<noteq> []" by (cases v rule: scalars.cases) auto
  then obtain n ns where "scalars v = n # ns" by (cases "scalars v") auto
  moreover have "scalar_units n \<noteq> []" "enc_scalar n \<noteq> []" by (simp_all add: scalar_units_def enc_scalar_def)
  ultimately show ?thesis by (cases "enc_scalar n") (auto simp: encode_with_def pct_byte_def)
qed

definition fit_values :: "pseg list \<Rightarrow> jsstring list \<Rightarrow> bool" where
  "fit_values ps vs \<longleftrightarrow> length vs = length (param_names ps) \<and> list_all (\<lambda>v. v \<noteq> [] \<and> well_formed v) vs"

lemma fill_segs_clean:
  assumes "\<not> keep 47" and "\<forall>p\<in>set ps. seg_clean p"
  shows "x \<in> set (fill_segs keep ps vs) \<Longrightarrow> 47 \<notin> set x"
  using assms by (induction keep ps vs rule: fill_segs.induct) (auto simp: encode_clean)

lemma ref_bind_fill:
  assumes "Star \<notin> set ps" and "fit_values ps vs"
  shows "ref_bind ps (fill_segs keep ps vs) = Some (zip (param_names ps) (map (encode_with keep) vs))"
  using assms
proof (induction keep ps vs rule: fill_segs.induct)
  case (2 keep n ps v vs)
  then show ?case by (simp add: fit_values_def encode_ne)
qed (auto simp: fit_values_def)

lemma fill_segs_ne: "ps \<noteq> [] \<Longrightarrow> Star \<notin> set ps \<Longrightarrow> fit_values ps vs \<Longrightarrow> fill_segs keep ps vs \<noteq> []"
  by (cases "(keep, ps, vs)" rule: fill_segs.cases) (auto simp: fit_values_def)

lemma bind_params_distinct:
  assumes "\<not> keep 37" and "length ns = length vs" and "distinct ns" and "js ''__proto__'' \<notin> set ns" and "list_all well_formed vs"
  shows "map_of (bind_params (zip ns (map (encode_with keep) vs))) = map_of (zip ns vs)"
proof -
  have "fold (\<lambda>(name, raw). set_param name (safeDecode raw)) (zip ns (map (encode_with keep) vs)) m
      = fold (\<lambda>(k, v) m. AList.update k v m) (zip ns vs) m" for m
    using assms(2,4,5)
    by (induction ns vs arbitrary: m rule: list_induct2) (auto simp: set_param_def safeDecode_encode assms(1))
  then show ?thesis
    using fold_update_map_of [of "zip ns vs" "[]"] assms(2,3) by (simp add: bind_params_def)
qed

lemma star_free_last: "Star \<notin> set ps \<Longrightarrow> star_last ps"
  by (induction ps rule: star_last.induct) auto

text \<open>
  A link built from a pattern is matched by it and gives back the values. Take a pattern without \<open>*\<close>,
  one non-empty well-formed string per parameter, and any percent-encoding that at least escapes the
  slash and the percent sign; the path with the encoded values in place of the parameters is matched
  by the compiled pattern, and the parameters it reports are exactly the values.
\<close>

theorem path_params_roundtrip:
  assumes "\<not> keep 37" and "\<not> keep 47" and "is_dynamic path" and "Star \<notin> set (pattern_segs path)"
    and "fit_values (pattern_segs path) vs" and "distinct (param_names (pattern_segs path))"
    and "js ''__proto__'' \<notin> set (param_names (pattern_segs path))"
  shows "\<exists>groups. re_exec (compile_pattern path m) (fill_path keep path vs) = Some groups
    \<and> map_of (pattern_params (compile_pattern path m) groups) = map_of (zip (param_names (pattern_segs path)) vs)"
proof -
  let ?ps = "pattern_segs path" and ?d = "compile_pattern path m"
  let ?bs = "zip (param_names ?ps) (map (encode_with keep) vs)"
  note sl = star_free_last [OF assms(4)]
  have "split_on 47 (join_segs (fill_segs keep ?ps vs)) = fill_segs keep ?ps vs"
    using assms pattern_segs_clean [of _ path] pattern_segs_ne [OF assms(3)]
    by (intro split_on_join) (auto simp: fill_segs_ne dest: fill_segs_clean [rotated 2])
  then have b: "bind_path path (fill_path keep path vs) = Some ?bs"
    using assms(4,5) by (simp add: bind_path_def fill_path_def ref_bind_fill)
  have "map_of (bind_params ?bs) = map_of (zip (param_names ?ps) vs)"
    using assms by (intro bind_params_distinct) (auto simp: fit_values_def list_all_iff)
  then show ?thesis
    using re_exec_compiled [OF assms(3) sl, of m] compiled_params [OF assms(3) sl b, of m] b by simp
qed

theorem path_params_roundtrip_witness:
  "\<exists>groups. re_exec (compile_pattern (js ''/u/:id'') ()) (fill_path (\<lambda>n. n \<notin> {37, 47}) (js ''/u/:id'') [js ''a/b%'']) = Some groups
    \<and> map_of (pattern_params (compile_pattern (js ''/u/:id'') ()) groups) = map_of (zip [js ''id''] [js ''a/b%''])"
proof -
  have p: "pattern_segs (js ''/u/:id'') = [Static (js ''u''), Param (js ''id'')]"
    by (simp add: pattern_segs_def js_def parse_seg_def)
  show ?thesis
    using path_params_roundtrip [of "\<lambda>n. n \<notin> {37, 47}" "js ''/u/:id''" "[js ''a/b%'']" "()"]
    unfolding p by (simp add: is_dynamic_def fit_values_def js_def is_high_def is_low_def)
qed

section \<open>A rest pattern hides its sibling parameter\<close>

lemma first_match_best:
  assumes "first_match (sort_key specificity ds) pathname = Some r"
  obtains d where "d \<in> set ds" and "re_exec d pathname \<noteq> None" and "pt_methods r = dp_methods d"
    and "\<And>d'. d' \<in> set ds \<Longrightarrow> re_exec d' pathname \<noteq> None \<Longrightarrow> specificity d \<le> specificity d'"
proof -
  let ?m = "\<lambda>d. re_exec d pathname \<noteq> None"
  have e: "filter ?m (sort_key specificity ds) = sort_key specificity (filter ?m ds)" by (rule filter_sort)
  show ?thesis
  proof (cases "sort_key specificity (filter ?m ds)")
    case Nil
    then show ?thesis using assms unfolding first_match_filter e by simp
  next
    case (Cons d ds')
    have "set (d # ds') = set (filter ?m ds)" unfolding Cons [symmetric] by (rule set_sort)
    moreover have "\<forall>d' \<in> set (d # ds'). specificity d \<le> specificity d'"
      using sorted_sort_key [of specificity "filter ?m ds"] unfolding Cons by simp
    moreover have "pt_methods r = dp_methods d" using assms unfolding first_match_filter e Cons by auto
    ultimately show ?thesis by (intro that [of d]) auto
  qed
qed

lemma ref_bind_rest: "ref_bind (ls @ [Param n]) xs \<noteq> None \<Longrightarrow> ref_bind (ls @ [Star]) xs \<noteq> None"
proof (induction ls xs rule: ref_bind.induct)
  case (1 xs)
  then show ?case by (cases xs) auto
qed (auto split: if_splits)

lemma star_last_append: "Star \<notin> set ls \<Longrightarrow> star_last (ls @ [p])"
  by (induction ls rule: star_last.induct) (cases p; auto)+

lemma param_names_append [simp]: "param_names (xs @ ys) = param_names xs @ param_names ys"
  by (induction xs rule: param_names.induct) auto

text \<open>
  A finding on the order of the patterns. Where two routes differ only in their last segment, \<open>*\<close> in one
  and a parameter in the other, as \<open>/files/*\<close> and \<open>/files/:id\<close>, the parameter route is never chosen: the
  rest pattern has as many static segments and fewer parameters, so it is tried first, and it fits every
  path that the other one fits. The handlers of the parameter route are unreachable.
\<close>

theorem rest_hides_param:
  assumes "(a, mA) \<in> set routes" and "(b, mB) \<in> set routes"
    and a: "pattern_segs a = ls @ [Star]" and b: "pattern_segs b = ls @ [Param n]" and ls: "Star \<notin> set ls"
    and only: "\<And>p. (p, mB) \<in> set routes \<Longrightarrow> p = b"
  shows "match_path (buildPathMatcher routes) pathname \<noteq> Some \<lparr>pt_methods = mB, pt_params = params\<rparr>"
proof
  assume r: "match_path (buildPathMatcher routes) pathname = Some \<lparr>pt_methods = mB, pt_params = params\<rparr>"
  let ?ds = "map (\<lambda>(path, m). compile_pattern path m) (filter (\<lambda>(path, _). is_dynamic path) routes)"
  have da: "is_dynamic a" and db: "is_dynamic b"
    using star_in_pattern [of a] param_in_pattern [of n b] a b by simp_all
  have "map_of (pm_exact (buildPathMatcher routes)) pathname \<noteq> Some mB"
  proof
    assume "map_of (pm_exact (buildPathMatcher routes)) pathname = Some mB"
    then have "(pathname, mB) \<in> set (filter (\<lambda>(path, _). \<not> is_dynamic path) routes)"
      by (auto simp: buildPathMatcher_def Let_def dest!: fold_update_in)
    with only db show False by auto
  qed
  with r have "first_match (sort_key specificity ?ds) pathname = Some \<lparr>pt_methods = mB, pt_params = params\<rparr>"
    by (simp add: match_path_def buildPathMatcher_def Let_def split: option.splits)
  then obtain d where d: "d \<in> set ?ds" "re_exec d pathname \<noteq> None" "dp_methods d = mB"
    and best: "\<And>d'. d' \<in> set ?ds \<Longrightarrow> re_exec d' pathname \<noteq> None \<Longrightarrow> specificity d \<le> specificity d'"
    by (rule first_match_best) simp
  from d(1) obtain p m where "(p, m) \<in> set routes" "d = compile_pattern p m" by auto
  with d(3) only have d: "d = compile_pattern b mB" "re_exec (compile_pattern b mB) pathname \<noteq> None"
    using d(2) by (auto simp: compile_pattern_def Let_def)
  have "re_exec (compile_pattern a mA) pathname \<noteq> None"
    using d(2) ref_bind_rest [of ls n] star_last_append [OF ls]
    by (auto simp: re_exec_compiled da db a b bind_path_def split: list.splits if_splits)
  moreover have "compile_pattern a mA \<in> set ?ds" using assms(1) da by force
  ultimately have "specificity d \<le> specificity (compile_pattern a mA)" using best by blast
  then show False by (simp add: d(1) specificity_def compile_pattern_def Let_def a b less_eq_prod_def)
qed

theorem rest_hides_param_witness:
  "match_path (buildPathMatcher [(js ''/f/:id'', 0 :: nat), (js ''/f/*'', 1)]) (js ''/f/x'')
    \<noteq> Some \<lparr>pt_methods = 0, pt_params = [(js ''id'', js ''x'')]\<rparr>"
  by (rule rest_hides_param [where a = "js ''/f/*''" and mA = 1 and b = "js ''/f/:id''" and ls = "[Static (js ''f'')]" and n = "js ''id''"])
    (auto simp: pattern_segs_def js_def parse_seg_def)

end
