(* ===== verification/IngressBody.thy ===== *)
theory IngressBody
  imports Prelude
begin

text \<open>
  Reading request bodies: \<open>src/src/ingress/body.ts\<close>.

  The shared deadline watchdog is a state machine over its set of tracked entries. A body read runs
  against the sequence of events its races can settle with, in the order in which they happen: chunks
  and the end of the stream, a rejected read, the deadline and the client's abort. Running out of
  events means the read is still pending, which is \<open>None\<close>. The declared length is the number the
  \<open>Content-Length\<close> header converts to (\<open>None\<close> inside for not finite).
\<close>

section \<open>The deadline watchdog\<close>

record watchdog_entry =
  deadlineWall :: nat
  settled :: bool
  rejected :: bool

record watchdog =
  inflight :: "nat list"
  wd_timer :: bool
  entries :: "watchdog_entry list"

definition initial_watchdog :: watchdog where
  "initial_watchdog = \<lparr>inflight = [], wd_timer = False, entries = []\<rparr>"

definition sweep_entry :: "nat \<Rightarrow> watchdog \<Rightarrow> nat \<Rightarrow> watchdog" where
  "sweep_entry now w i =
     (let e = entries w ! i
      in if settled e then w\<lparr>inflight := remove1 i (inflight w)\<rparr>
         else if deadlineWall e \<le> now
         then w\<lparr>entries := (entries w)[i := e\<lparr>settled := True, rejected := True\<rparr>], inflight := remove1 i (inflight w)\<rparr>
         else w)"

definition stop_if_idle :: "watchdog \<Rightarrow> watchdog" where
  "stop_if_idle w = (if inflight w = [] \<and> wd_timer w then w\<lparr>wd_timer := False\<rparr> else w)"

definition sweep :: "nat \<Rightarrow> watchdog \<Rightarrow> watchdog" where
  "sweep now w = stop_if_idle (foldl (sweep_entry now) w (inflight w))"

definition track :: "nat \<Rightarrow> watchdog \<Rightarrow> watchdog" where
  "track i w = w\<lparr>inflight := (if i \<in> set (inflight w) then inflight w else inflight w @ [i]), wd_timer := True\<rparr>"

definition untrack :: "nat \<Rightarrow> watchdog \<Rightarrow> watchdog" where
  "untrack i w =
     stop_if_idle (w\<lparr>entries := (entries w)[i := (entries w ! i)\<lparr>settled := True\<rparr>], inflight := remove1 i (inflight w)\<rparr>)"

definition createDeadline :: "nat \<Rightarrow> nat \<Rightarrow> watchdog \<Rightarrow> nat \<times> watchdog" where
  "createDeadline now deadlineMs w =
     (let i = length (entries w)
      in (i, track i (w\<lparr>entries := entries w @ [\<lparr>deadlineWall = now + deadlineMs, settled = False, rejected = False\<rparr>]\<rparr>)))"

section \<open>Races\<close>

datatype read_error = BodyTooLarge | RequestTimeout | RequestAborted | ReadFailed

datatype read_event = Chunk bytes | NoValue | Done | ReadRejected | DeadlineFired | AbortFired

text \<open>The first event that a race with these guards settles with; others do not concern it.\<close>

fun race :: "bool \<Rightarrow> bool \<Rightarrow> read_event list \<Rightarrow> (read_event \<times> read_event list) option" where
  "race dl abort [] = None"
| "race dl abort (DeadlineFired # es) = (if dl then Some (DeadlineFired, es) else race dl abort es)"
| "race dl abort (AbortFired # es) = (if abort then Some (AbortFired, es) else race dl abort es)"
| "race dl abort (e # es) = Some (e, es)"

lemma race_shorter: "race dl abort es = Some (e, es') \<Longrightarrow> length es' < length es"
  by (induction dl abort es rule: race.induct) (auto split: if_splits)

section \<open>Reading\<close>

datatype buffered = NoBytesMethod | Buffered bytes | StillPending

record body_request =
  br_aborted :: bool
  br_signal :: bool
  br_declared :: "int option option"
  br_buffered :: buffered
  br_hasBody :: bool
  br_abortedAfter :: bool

text \<open>What the \<open>finally\<close> blocks released, and what the read returned or threw.\<close>

record read_outcome =
  ro_result :: "read_error + bytes"
  ro_deadlineMade :: bool
  ro_deadlineCancelled :: bool
  ro_listenerMade :: bool
  ro_listenerRemoved :: bool
  ro_readerCancelled :: bool
  ro_buffered :: nat

definition plain_outcome :: "read_error + bytes \<Rightarrow> read_outcome" where
  "plain_outcome r = \<lparr>ro_result = r, ro_deadlineMade = False, ro_deadlineCancelled = False, ro_listenerMade = False,
     ro_listenerRemoved = False, ro_readerCancelled = False, ro_buffered = (case r of Inl _ \<Rightarrow> 0 | Inr b \<Rightarrow> length b)\<rparr>"

text \<open>Every path ends with the re-check of the signal and of the size.\<close>

definition checked_bytes :: "body_request \<Rightarrow> nat \<Rightarrow> bool \<Rightarrow> bytes \<Rightarrow> read_error + bytes" where
  "checked_bytes req maxBytes guard bs =
     (if br_aborted req \<or> br_abortedAfter req then Inl RequestAborted
      else if guard \<and> maxBytes < length bs then Inl BodyTooLarge
      else Inr bs)"

definition event_error :: "read_event \<Rightarrow> read_error" where
  "event_error e = (case e of DeadlineFired \<Rightarrow> RequestTimeout | AbortFired \<Rightarrow> RequestAborted | _ \<Rightarrow> ReadFailed)"

text \<open>
  One raced read of the whole body (\<open>bytes()\<close> or \<open>arrayBuffer()\<close>): only a chunk event carries it.
\<close>

definition read_raced :: "body_request \<Rightarrow> nat \<Rightarrow> bool \<Rightarrow> bool \<Rightarrow> read_event list \<Rightarrow> read_outcome option" where
  "read_raced req maxBytes guard dl es =
     (case race dl (br_signal req) es of
        None \<Rightarrow> None
      | Some (e, _) \<Rightarrow>
          Some \<lparr>ro_result = (case e of Chunk bs \<Rightarrow> checked_bytes req maxBytes guard bs | _ \<Rightarrow> Inl (event_error e)),
                ro_deadlineMade = dl, ro_deadlineCancelled = dl, ro_listenerMade = br_signal req,
                ro_listenerRemoved = br_signal req, ro_readerCancelled = False,
                ro_buffered = (case e of Chunk bs \<Rightarrow> length bs | _ \<Rightarrow> 0)\<rparr>)"

definition read_declared :: "body_request \<Rightarrow> nat \<Rightarrow> bool \<Rightarrow> nat \<Rightarrow> read_event list \<Rightarrow> read_outcome option" where
  "read_declared req maxBytes guard deadline es =
     (case br_buffered req of
        Buffered bs \<Rightarrow> Some (plain_outcome (checked_bytes req maxBytes guard bs))
      | _ \<Rightarrow> read_raced req maxBytes guard (0 < deadline) es)"

text \<open>\<open>concatUint8Arrays\<close>: the single chunk itself, otherwise a fresh buffer filled chunk by chunk.\<close>

fun fill_chunks :: "bytes list \<Rightarrow> bytes \<Rightarrow> nat \<Rightarrow> bytes result" where
  "fill_chunks [] out offset = Inr out"
| "fill_chunks (c # cs) out offset = rbind (put out offset c) (\<lambda>out'. fill_chunks cs out' (offset + length c))"

definition concatUint8Arrays :: "bytes list \<Rightarrow> nat \<Rightarrow> bytes result" where
  "concatUint8Arrays chunks tot =
     (case chunks of [] \<Rightarrow> Inr [] | [c] \<Rightarrow> Inr c | _ \<Rightarrow> fill_chunks chunks (new_buf tot) 0)"

definition stream_outcome :: "body_request \<Rightarrow> bool \<Rightarrow> bool \<Rightarrow> nat \<Rightarrow> read_error + bytes \<Rightarrow> read_outcome" where
  "stream_outcome req dl completed tot r =
     \<lparr>ro_result = r, ro_deadlineMade = dl, ro_deadlineCancelled = dl, ro_listenerMade = br_signal req,
      ro_listenerRemoved = br_signal req, ro_readerCancelled = (\<not> completed), ro_buffered = tot\<rparr>"

function stream_loop :: "body_request \<Rightarrow> nat \<Rightarrow> bool \<Rightarrow> bool \<Rightarrow> bytes list \<Rightarrow> nat \<Rightarrow> read_event list \<Rightarrow> read_outcome option" where
  "stream_loop req maxBytes guard dl chunks tot es =
     (case race dl (br_signal req) es of
        None \<Rightarrow> None
      | Some (Done, _) \<Rightarrow>
          Some (stream_outcome req dl True tot
            (case concatUint8Arrays chunks tot of Inl _ \<Rightarrow> Inl ReadFailed | Inr b \<Rightarrow> Inr b))
      | Some (NoValue, es') \<Rightarrow> stream_loop req maxBytes guard dl chunks tot es'
      | Some (Chunk value, es') \<Rightarrow>
          (let tot' = tot + length value
           in if guard \<and> maxBytes < tot' then Some (stream_outcome req dl False tot (Inl BodyTooLarge))
              else stream_loop req maxBytes guard dl (chunks @ [value]) tot' es')
      | Some (e, _) \<Rightarrow> Some (stream_outcome req dl False tot (Inl (event_error e))))"
  by pat_completeness auto
termination
  by (relation "measure (\<lambda>(req, m, g, dl, cs, t, es). length es)") (auto dest: race_shorter)

declare stream_loop.simps [simp del]

definition readBodyWithLimit :: "body_request \<Rightarrow> nat \<Rightarrow> bool \<Rightarrow> nat option \<Rightarrow> read_event list \<Rightarrow> read_outcome option" where
  "readBodyWithLimit req maxBytes guard timeoutMs es =
     (if br_aborted req then Some (plain_outcome (Inl RequestAborted))
      else
        let deadline = (case timeoutMs of None \<Rightarrow> 0 | Some t \<Rightarrow> t)
        in case br_declared req of
             Some (Some declaredLen) \<Rightarrow>
               (if guard \<and> int maxBytes < declaredLen then Some (plain_outcome (Inl BodyTooLarge))
                else read_declared req maxBytes guard deadline es)
           | _ \<Rightarrow>
               (if \<not> br_hasBody req then Some (plain_outcome (Inr []))
                else stream_loop req maxBytes guard (0 < deadline) [] 0 es))"

definition readRequestBodyOnce :: "body_request \<Rightarrow> nat \<Rightarrow> bool \<Rightarrow> nat option \<Rightarrow> read_event list \<Rightarrow> read_outcome option" where
  "readRequestBodyOnce req maxBytes guard timeoutMs es =
     (if \<not> br_hasBody req then Some (plain_outcome (Inr [])) else readBodyWithLimit req maxBytes guard timeoutMs es)"

section \<open>The watchdog's invariant\<close>

definition watchdog_ok :: "watchdog \<Rightarrow> bool" where
  "watchdog_ok w \<longleftrightarrow> distinct (inflight w) \<and> (wd_timer w \<longleftrightarrow> inflight w \<noteq> [])
     \<and> (\<forall>i. i \<in> set (inflight w) \<longleftrightarrow> i < length (entries w) \<and> \<not> settled (entries w ! i))
     \<and> (\<forall>i < length (entries w). rejected (entries w ! i) \<longrightarrow> settled (entries w ! i))"

inductive watchdog_step :: "watchdog \<Rightarrow> watchdog \<Rightarrow> bool" where
  ws_sweep: "watchdog_step w (sweep now w)"
| ws_create: "watchdog_step w (snd (createDeadline now ms w))"
| ws_untrack: "i < length (entries w) \<Longrightarrow> watchdog_step w (untrack i w)"

text \<open>One sweep, entry by entry: exactly the overdue entries of the list are settled and removed.\<close>

definition expire :: "nat \<Rightarrow> watchdog_entry \<Rightarrow> watchdog_entry" where
  "expire now e = (if \<not> settled e \<and> deadlineWall e \<le> now then e\<lparr>settled := True, rejected := True\<rparr> else e)"

lemma sweep_entry_simps:
  "entries (sweep_entry now w i) = (entries w)[i := expire now (entries w ! i)]"
  "inflight (sweep_entry now w i)
     = (if settled (expire now (entries w ! i)) then remove1 i (inflight w) else inflight w)"
  "wd_timer (sweep_entry now w i) = wd_timer w"
  by (auto simp: sweep_entry_def expire_def Let_def)

lemma sweep_loop:
  assumes "distinct is" and "\<forall>i \<in> set is. i < length (entries w)" and "distinct (inflight w)"
  shows "entries (foldl (sweep_entry now) w is)
      = map (\<lambda>i. if i \<in> set is then expire now (entries w ! i) else entries w ! i) [0..<length (entries w)]
    \<and> distinct (inflight (foldl (sweep_entry now) w is))
    \<and> set (inflight (foldl (sweep_entry now) w is))
      = set (inflight w) - {i \<in> set is. settled (expire now (entries w ! i))}
    \<and> wd_timer (foldl (sweep_entry now) w is) = wd_timer w"
  using assms
proof (induction "is" arbitrary: w)
  case Nil
  then show ?case by (simp add: map_nth)
next
  case (Cons i "is")
  let ?w = "sweep_entry now w i"
  have l: "length (entries ?w) = length (entries w)" by (simp add: sweep_entry_simps)
  have d: "distinct (inflight ?w)" using Cons.prems(3) by (simp add: sweep_entry_simps)
  have same: "entries ?w ! j = entries w ! j" if "j \<in> set is" for j
  proof -
    have "i \<noteq> j" using that Cons.prems(1) by auto
    then show ?thesis by (simp add: sweep_entry_simps)
  qed
  have IH: "entries (foldl (sweep_entry now) ?w is)
      = map (\<lambda>j. if j \<in> set is then expire now (entries ?w ! j) else entries ?w ! j) [0..<length (entries ?w)]
    \<and> distinct (inflight (foldl (sweep_entry now) ?w is))
    \<and> set (inflight (foldl (sweep_entry now) ?w is))
      = set (inflight ?w) - {j \<in> set is. settled (expire now (entries ?w ! j))}
    \<and> wd_timer (foldl (sweep_entry now) ?w is) = wd_timer ?w"
    using Cons.prems d by (intro Cons.IH) (simp_all add: l)
  have e: "map (\<lambda>j. if j \<in> set is then expire now (entries ?w ! j) else entries ?w ! j) [0..<length (entries ?w)]
      = map (\<lambda>j. if j \<in> set (i # is) then expire now (entries w ! j) else entries w ! j) [0..<length (entries w)]"
    unfolding l using Cons.prems(1,2) by (intro map_cong refl) (auto simp: sweep_entry_simps nth_list_update)
  have s: "set (inflight ?w) - {j \<in> set is. settled (expire now (entries ?w ! j))}
      = set (inflight w) - {j \<in> set (i # is). settled (expire now (entries w ! j))}"
    using Cons.prems(1,3) same by (auto simp: sweep_entry_simps(2))
  show ?case using IH e s by (simp add: sweep_entry_simps(3))
qed

lemma stop_if_idle_ok:
  assumes "distinct (inflight w)" and "inflight w \<noteq> [] \<Longrightarrow> wd_timer w"
    and "\<And>i. i \<in> set (inflight w) \<longleftrightarrow> i < length (entries w) \<and> \<not> settled (entries w ! i)"
    and "\<And>i. i < length (entries w) \<Longrightarrow> rejected (entries w ! i) \<Longrightarrow> settled (entries w ! i)"
  shows "watchdog_ok (stop_if_idle w)"
proof (cases "inflight w = []")
  case True
  with assms(3,4) show ?thesis by (auto simp: stop_if_idle_def watchdog_ok_def)
next
  case False
  with assms show ?thesis by (auto simp: stop_if_idle_def watchdog_ok_def)
qed

lemma sweep_result:
  assumes "watchdog_ok w"
  shows "entries (sweep now w) = map (expire now) (entries w) \<and> watchdog_ok (sweep now w)"
proof -
  let ?v = "foldl (sweep_entry now) w (inflight w)"
  have i: "distinct (inflight w)" "\<forall>i \<in> set (inflight w). i < length (entries w)"
    using assms by (auto simp: watchdog_ok_def)
  have idle: "expire now (entries w ! j) = entries w ! j" if "j < length (entries w)" "j \<notin> set (inflight w)" for j
    using assms that by (auto simp: watchdog_ok_def expire_def)
  note L = sweep_loop [OF i i(1), of now]
  have en: "entries ?v = map (expire now) (entries w)"
    using L idle by (intro nth_equalityI) auto
  have inf: "set (inflight ?v) = {j. j < length (entries w) \<and> \<not> settled (expire now (entries w ! j))}"
    using L assms idle by (auto simp: watchdog_ok_def)
  have t: "inflight ?v \<noteq> [] \<Longrightarrow> wd_timer ?v"
  proof -
    assume "inflight ?v \<noteq> []"
    then have "set (inflight w) \<noteq> {}" using L by (metis Diff_empty Diff_eq_empty_iff empty_subsetI set_empty)
    then show ?thesis using L assms by (simp add: watchdog_ok_def)
  qed
  have rej: "rejected (expire now e) \<longrightarrow> settled (expire now e)" if "rejected e \<longrightarrow> settled e" for e
    using that by (simp add: expire_def)
  have "watchdog_ok (stop_if_idle ?v)"
  proof (rule stop_if_idle_ok)
    show "distinct (inflight ?v)" using L by blast
    show "inflight ?v \<noteq> [] \<Longrightarrow> wd_timer ?v" by (rule t)
    show "i \<in> set (inflight ?v) \<longleftrightarrow> i < length (entries ?v) \<and> \<not> settled (entries ?v ! i)" for i
      unfolding en by (auto simp: inf)
    show "settled (entries ?v ! i)" if "i < length (entries ?v)" "rejected (entries ?v ! i)" for i
      using that rej assms unfolding en by (simp add: watchdog_ok_def)
  qed
  then show ?thesis by (simp add: sweep_def stop_if_idle_def en)
qed

lemma untrack_ok:
  assumes "watchdog_ok w" and "i < length (entries w)"
  shows "watchdog_ok (untrack i w)"
proof -
  let ?v = "w\<lparr>entries := (entries w)[i := (entries w ! i)\<lparr>settled := True\<rparr>], inflight := remove1 i (inflight w)\<rparr>"
  have d: "distinct (inflight w)" using assms(1) by (simp add: watchdog_ok_def)
  have s: "j \<in> set (remove1 i (inflight w)) \<longleftrightarrow> j < length (entries w) \<and> \<not> settled ((entries w)[i := (entries w ! i)\<lparr>settled := True\<rparr>] ! j)" for j
    using assms d by (cases "j = i") (simp_all add: watchdog_ok_def)
  have r: "\<forall>j < length (entries w). rejected ((entries w)[i := (entries w ! i)\<lparr>settled := True\<rparr>] ! j)
      \<longrightarrow> settled ((entries w)[i := (entries w ! i)\<lparr>settled := True\<rparr>] ! j)"
    using assms by (auto simp: watchdog_ok_def nth_list_update)
  show ?thesis
    unfolding untrack_def
  proof (rule stop_if_idle_ok)
    show "inflight ?v \<noteq> [] \<Longrightarrow> wd_timer ?v" using assms(1) by (auto simp: watchdog_ok_def)
  qed (use d s r in simp_all)
qed

lemma create_ok:
  assumes "watchdog_ok w"
  shows "watchdog_ok (snd (createDeadline now ms w)) \<and> fst (createDeadline now ms w) \<in> set (inflight (snd (createDeadline now ms w)))"
  using assms by (auto simp: createDeadline_def track_def Let_def watchdog_ok_def nth_append less_Suc_eq)

lemma watchdog_step_ok: "watchdog_step w v \<Longrightarrow> watchdog_ok w \<Longrightarrow> watchdog_ok v"
  by (induction rule: watchdog_step.induct) (simp_all add: sweep_result untrack_ok create_ok)

lemma initial_watchdog_ok: "watchdog_ok initial_watchdog"
  by (simp add: watchdog_ok_def initial_watchdog_def)

lemma watchdog_reach_ok: "watchdog_step\<^sup>*\<^sup>* initial_watchdog w \<Longrightarrow> watchdog_ok w"
  by (induction rule: rtranclp_induct) (blast intro: watchdog_step_ok initial_watchdog_ok)+

text \<open>A finished entry is final: no later step changes whether it was rejected.\<close>

lemma settled_stays:
  assumes "watchdog_step w v" and "i < length (entries w)" and "settled (entries w ! i)" and "watchdog_ok w"
  shows "i < length (entries v) \<and> entries v ! i = entries w ! i"
  using assms
proof (induction rule: watchdog_step.induct)
  case (ws_sweep w now)
  then show ?case using sweep_result [of w now] by (simp add: expire_def)
next
  case (ws_create w now ms)
  then show ?case by (simp add: createDeadline_def track_def Let_def nth_append)
next
  case (ws_untrack j w)
  then show ?case by (cases "i = j") (simp_all add: untrack_def stop_if_idle_def)
qed

lemma settled_forever:
  assumes "watchdog_step\<^sup>*\<^sup>* w v" and "watchdog_ok w" and "i < length (entries w)" and "settled (entries w ! i)"
  shows "i < length (entries v) \<and> entries v ! i = entries w ! i \<and> watchdog_ok v"
  using assms(1)
proof (induction rule: rtranclp_induct)
  case base
  with assms show ?case by simp
next
  case (step v u)
  then show ?case using settled_stays [of v u i] watchdog_step_ok [of v u] assms(4) by simp
qed

section \<open>Facts about reads\<close>

lemma fill_chunks_concat:
  "length (concat cs) = length q \<Longrightarrow> off = length p \<Longrightarrow> fill_chunks cs (p @ q) off = Inr (p @ concat cs)"
proof (induction cs arbitrary: p q off)
  case (Cons c cs)
  have "put (p @ q) off c = Inr ((p @ c) @ drop (length c) q)" using Cons.prems by (simp add: put_append)
  moreover have "fill_chunks cs ((p @ c) @ drop (length c) q) (off + length c) = Inr ((p @ c) @ concat cs)"
    using Cons.prems by (intro Cons.IH) simp_all
  ultimately show ?case by simp
qed simp

lemma concatUint8Arrays_concat: "tot = length (concat cs) \<Longrightarrow> concatUint8Arrays cs tot = Inr (concat cs)"
  using fill_chunks_concat [of cs "new_buf tot" 0 "[]"]
  by (auto simp: concatUint8Arrays_def split: list.split)

text \<open>The chunks an event list delivers before the end of the stream.\<close>

fun chunks_of :: "read_event list \<Rightarrow> bytes list" where
  "chunks_of [] = []"
| "chunks_of (Chunk b # es) = b # chunks_of es"
| "chunks_of (Done # es) = []"
| "chunks_of (_ # es) = chunks_of es"

lemma chunks_of_race: "race dl ab es = Some (e, es') \<Longrightarrow> chunks_of es = chunks_of (e # es')"
  by (induction dl ab es rule: race.induct) (auto split: if_splits)

lemma race_deadline: "DeadlineFired \<in> set es \<Longrightarrow> race True ab es \<noteq> None"
  by (induction es rule: chunks_of.induct) (auto split: if_splits) 

lemma race_deadline_rest:
  "DeadlineFired \<in> set es \<Longrightarrow> race True ab es = Some (e, es') \<Longrightarrow> e \<noteq> DeadlineFired \<Longrightarrow> DeadlineFired \<in> set es'"
proof (induction es)
  case (Cons x es)
  then show ?case by (cases x) (auto split: if_splits)
qed simp

definition good_outcome :: "body_request \<Rightarrow> nat \<Rightarrow> bool \<Rightarrow> bytes \<Rightarrow> read_outcome \<Rightarrow> bool" where
  "good_outcome req maxBytes guard whole ro \<longleftrightarrow>
     ro_deadlineCancelled ro = ro_deadlineMade ro \<and> ro_listenerRemoved ro = ro_listenerMade ro
     \<and> (\<forall>b. ro_result ro = Inr b \<longrightarrow> b = whole \<and> \<not> ro_readerCancelled ro)
     \<and> (guard \<longrightarrow> (\<forall>b. ro_result ro = Inr b \<longrightarrow> length b \<le> maxBytes))"

lemma stream_loop_outcome:
  assumes "stream_loop req maxBytes guard dl cs tot es = Some ro" and "tot = length (concat cs)"
    and "guard \<longrightarrow> tot \<le> maxBytes"
  shows "good_outcome req maxBytes guard (concat (cs @ chunks_of es)) ro \<and> (guard \<longrightarrow> ro_buffered ro \<le> maxBytes)
    \<and> (ro_result ro = Inl BodyTooLarge \<longrightarrow> guard \<and> maxBytes < length (concat (cs @ chunks_of es)))
    \<and> (isl (ro_result ro) \<longrightarrow> ro_readerCancelled ro)"
  using assms
proof (induction req maxBytes guard dl cs tot es rule: stream_loop.induct)
  case (1 req maxBytes guard dl cs tot es)
  note S = stream_loop.simps [of req maxBytes guard dl cs tot es]
  obtain e es' where r: "race dl (br_signal req) es = Some (e, es')"
    using "1.prems"(1) unfolding S by (cases "race dl (br_signal req) es") auto
  have ch: "chunks_of es = chunks_of (e # es')" by (rule chunks_of_race [OF r])
  have stop: ?case if "e \<in> {ReadRejected, DeadlineFired, AbortFired}"
  proof -
    have "ro = stream_outcome req dl False tot (Inl (event_error e))"
      using that "1.prems"(1) unfolding S by (auto simp: r)
    moreover have "event_error e \<noteq> BodyTooLarge" using that by (auto simp: event_error_def)
    ultimately show ?thesis using "1.prems" by (simp add: stream_outcome_def good_outcome_def)
  qed
  show ?case
  proof (cases e)
    case (Chunk v)
    show ?thesis
    proof (cases "guard \<and> maxBytes < tot + length v")
      case True
      then have "ro = stream_outcome req dl False tot (Inl BodyTooLarge)"
        using "1.prems"(1) unfolding S by (simp add: r Chunk Let_def)
      with True "1.prems" ch Chunk show ?thesis by (simp add: stream_outcome_def good_outcome_def)
    next
      case False
      then have "stream_loop req maxBytes guard dl (cs @ [v]) (tot + length v) es' = Some ro"
        using "1.prems"(1) unfolding S r Chunk by (simp add: Let_def split: if_splits)
      moreover have "guard \<longrightarrow> tot + length v \<le> maxBytes" using False by auto
      ultimately show ?thesis
        using "1.IH"(1) [OF r refl Chunk refl False] "1.prems"(2) ch Chunk by simp
    qed
  next
    case NoValue
    then have "stream_loop req maxBytes guard dl cs tot es' = Some ro"
      using "1.prems"(1) unfolding S by (simp add: r)
    then show ?thesis using "1.IH"(2) [OF r refl NoValue] "1.prems" ch NoValue by simp
  next
    case Done
    then have "ro = stream_outcome req dl True tot (Inr (concat cs))"
      using "1.prems"(1,2) unfolding S by (simp add: r concatUint8Arrays_concat)
    with "1.prems" ch Done show ?thesis by (simp add: stream_outcome_def good_outcome_def)
  qed (rule stop, simp)+
qed

lemma stream_loop_deadline:
  "DeadlineFired \<in> set es \<Longrightarrow> stream_loop req maxBytes guard True cs tot es \<noteq> None"
proof (induction req maxBytes guard "True" cs tot es rule: stream_loop.induct)
  case (1 req maxBytes guard cs tot es)
  note S = stream_loop.simps [of req maxBytes guard True cs tot es]
  obtain e es' where r: "race True (br_signal req) es = Some (e, es')" using race_deadline [OF "1.prems", of "br_signal req"] by auto
  have rest: "e \<noteq> DeadlineFired \<Longrightarrow> DeadlineFired \<in> set es'" by (rule race_deadline_rest [OF "1.prems" r])
  show ?case
  proof (cases e)
    case (Chunk v)
    then show ?thesis
      using "1.hyps"(1) [OF r refl Chunk refl] rest unfolding S by (simp add: r Let_def)
  next
    case NoValue
    then show ?thesis using "1.hyps"(2) [OF r refl NoValue] rest unfolding S by (simp add: r)
  qed (unfold S, simp_all add: r)
qed

lemma read_raced_outcome:
  assumes "read_raced req maxBytes guard dl es = Some ro"
  shows "ro_deadlineCancelled ro = ro_deadlineMade ro \<and> ro_listenerRemoved ro = ro_listenerMade ro
    \<and> (guard \<longrightarrow> (\<forall>b. ro_result ro = Inr b \<longrightarrow> length b \<le> maxBytes))"
  using assms by (auto simp: read_raced_def checked_bytes_def split: option.splits read_event.splits if_splits)

lemma guard_respected:
  assumes r: "readBodyWithLimit req maxBytes True t es = Some ro" and b: "ro_result ro = Inr b"
  shows "length b \<le> maxBytes"
proof (cases "br_aborted req")
  case True
  with r b show ?thesis by (auto simp: readBodyWithLimit_def plain_outcome_def)
next
  case na: False
  let ?d = "case t of None \<Rightarrow> 0 | Some t \<Rightarrow> t"
  show ?thesis
  proof (cases "\<exists>n. br_declared req = Some (Some n)")
    case True
    then obtain n where n: "br_declared req = Some (Some n)" by blast
    show ?thesis
    proof (cases "int maxBytes < n")
      case True
      with r b n na show ?thesis by (auto simp: readBodyWithLimit_def plain_outcome_def)
    next
      case False
      then have rd: "read_declared req maxBytes True ?d es = Some ro" using r n na by (simp add: readBodyWithLimit_def Let_def)
      show ?thesis
      proof (cases "br_buffered req")
        case (Buffered bs)
        with rd b show ?thesis by (auto simp: read_declared_def plain_outcome_def checked_bytes_def split: if_splits)
      qed (use rd b read_raced_outcome [of req maxBytes True "0 < ?d" es ro] in \<open>simp_all add: read_declared_def\<close>)
    qed
  next
    case False
    then have d: "br_declared req = None \<or> br_declared req = Some None" by (metis option.exhaust)
    show ?thesis
    proof (cases "br_hasBody req")
      case True
      with d na r have "stream_loop req maxBytes True (0 < ?d) [] 0 es = Some ro" by (auto simp: readBodyWithLimit_def Let_def)
      from stream_loop_outcome [OF this] b show ?thesis by (auto simp: good_outcome_def)
    next
      case False
      with d na r b show ?thesis by (auto simp: readBodyWithLimit_def Let_def plain_outcome_def)
    qed
  qed
qed

lemma read_settles:
  assumes "DeadlineFired \<in> set es" and "0 < ms"
  shows "readBodyWithLimit req maxBytes guard (Some ms) es \<noteq> None"
proof -
  have "read_raced req maxBytes guard True es \<noteq> None"
    using race_deadline [OF assms(1), of "br_signal req"] by (auto simp: read_raced_def split: option.splits)
  then show ?thesis
    using assms stream_loop_deadline [OF assms(1)]
    by (auto simp: readBodyWithLimit_def Let_def read_declared_def split: option.splits buffered.splits)
qed

section \<open>Properties\<close>

text \<open>
  The shared deadline watchdog is exact: in every state it can reach, its interval runs exactly while
  a read is tracked; a sweep rejects precisely the tracked reads whose deadline has passed and leaves
  all others as they were; and a read that was cancelled or rejected is never touched again, so no
  read is rejected after it completed and none is rejected twice.
\<close>

theorem watchdog_exact:
  assumes "watchdog_step\<^sup>*\<^sup>* initial_watchdog w"
  shows "(wd_timer w \<longleftrightarrow> inflight w \<noteq> [])
    \<and> (\<forall>i < length (entries w). entries (sweep now w) ! i =
         (if \<not> settled (entries w ! i) \<and> deadlineWall (entries w ! i) \<le> now
          then (entries w ! i)\<lparr>settled := True, rejected := True\<rparr> else entries w ! i))
    \<and> (\<forall>i < length (entries w). \<forall>v. watchdog_step\<^sup>*\<^sup>* (untrack i w) v \<longrightarrow>
         rejected (entries v ! i) = rejected (entries w ! i))"
proof (intro conjI allI impI)
  have ok: "watchdog_ok w" by (rule watchdog_reach_ok [OF assms])
  then show "wd_timer w \<longleftrightarrow> inflight w \<noteq> []" by (simp add: watchdog_ok_def)
  show "entries (sweep now w) ! i = (if \<not> settled (entries w ! i) \<and> deadlineWall (entries w ! i) \<le> now
      then (entries w ! i)\<lparr>settled := True, rejected := True\<rparr> else entries w ! i)" if "i < length (entries w)" for i
    using sweep_result [OF ok, of now] that by (simp add: expire_def)
  show "rejected (entries v ! i) = rejected (entries w ! i)"
    if i: "i < length (entries w)" and r: "watchdog_step\<^sup>*\<^sup>* (untrack i w) v" for i v
  proof -
    have e: "entries (untrack i w) ! i = (entries w ! i)\<lparr>settled := True\<rparr>" "i < length (entries (untrack i w))"
      using i by (simp_all add: untrack_def stop_if_idle_def)
    have "entries v ! i = entries (untrack i w) ! i"
      using settled_forever [OF r untrack_ok [OF ok i] e(2)] e(1) by simp
    then show ?thesis by (simp add: e(1))
  qed
qed

theorem watchdog_exact_witness:
  "wd_timer (snd (createDeadline 0 100 initial_watchdog)) \<longleftrightarrow> inflight (snd (createDeadline 0 100 initial_watchdog)) \<noteq> []"
  proof -
  have "watchdog_step\<^sup>*\<^sup>* initial_watchdog (snd (createDeadline 0 100 initial_watchdog))"
    by (rule r_into_rtranclp) (rule ws_create)
  from watchdog_exact [OF this] show ?thesis by blast
qed

text \<open>
  C36. A streamed body read is safe and cleans up after itself, whatever order chunks, the end of the
  stream, errors, the deadline and a client abort arrive in: with the guard on it never holds or returns
  more than \<open>maxBytes\<close>; a body it returns is exactly the concatenation of the chunks; it reports too
  large only when the chunks exceed the limit; every settled read has detached its deadline and its
  abort listener and, unless the stream ended, cancelled the reader; and with a deadline set it settles
  once the deadline fires, so a client that trickles for ever cannot hold it.
\<close>

theorem streamed_body_read:
  assumes "\<not> br_aborted req" and "br_declared req = None \<or> br_declared req = Some None" and "br_hasBody req"
  shows "(\<forall>ro. readBodyWithLimit req maxBytes guard t es = Some ro \<longrightarrow>
      (\<forall>b. ro_result ro = Inr b \<longrightarrow> b = concat (chunks_of es) \<and> (guard \<longrightarrow> length b \<le> maxBytes))
      \<and> (guard \<longrightarrow> ro_buffered ro \<le> maxBytes)
      \<and> (ro_result ro = Inl BodyTooLarge \<longrightarrow> guard \<and> maxBytes < length (concat (chunks_of es)))
      \<and> ro_deadlineCancelled ro = ro_deadlineMade ro \<and> ro_listenerRemoved ro = ro_listenerMade ro
      \<and> (ro_readerCancelled ro \<longleftrightarrow> isl (ro_result ro)))
    \<and> (DeadlineFired \<in> set es \<and> (\<exists>ms. t = Some ms \<and> 0 < ms) \<longrightarrow> readBodyWithLimit req maxBytes guard t es \<noteq> None)"
proof -
  let ?dl = "0 < (case t of None \<Rightarrow> 0 | Some x \<Rightarrow> x)"
  have r: "readBodyWithLimit req maxBytes guard t es = stream_loop req maxBytes guard ?dl [] 0 es"
    using assms by (auto simp: readBodyWithLimit_def Let_def)
  show ?thesis
    unfolding r
  proof (intro conjI allI impI)
    fix ro assume "stream_loop req maxBytes guard ?dl [] 0 es = Some ro"
    from stream_loop_outcome [OF this] have O: "good_outcome req maxBytes guard (concat (chunks_of es)) ro"
      "guard \<longrightarrow> ro_buffered ro \<le> maxBytes" "ro_result ro = Inl BodyTooLarge \<longrightarrow> guard \<and> maxBytes < length (concat (chunks_of es))"
      "isl (ro_result ro) \<longrightarrow> ro_readerCancelled ro" by simp_all
    show "b = concat (chunks_of es)" if "ro_result ro = Inr b" for b using O(1) that by (simp add: good_outcome_def)
    show "length b \<le> maxBytes" if "ro_result ro = Inr b" guard for b using O(1) that unfolding good_outcome_def by blast
    show "ro_buffered ro \<le> maxBytes" if guard using O(2) that by blast
    show guard if "ro_result ro = Inl BodyTooLarge" using O(3) that by blast
    show "maxBytes < length (concat (chunks_of es))" if "ro_result ro = Inl BodyTooLarge" using O(3) that by blast
    show "ro_deadlineCancelled ro = ro_deadlineMade ro" "ro_listenerRemoved ro = ro_listenerMade ro"
      using O(1) by (simp_all add: good_outcome_def)
    show "ro_readerCancelled ro \<longleftrightarrow> isl (ro_result ro)"
      using O(1,4) by (cases "ro_result ro") (auto simp: good_outcome_def)
  next
    assume "DeadlineFired \<in> set es \<and> (\<exists>ms. t = Some ms \<and> 0 < ms)"
    then show "stream_loop req maxBytes guard ?dl [] 0 es \<noteq> None" using stream_loop_deadline by auto
  qed
qed

definition demo_body :: body_request where
  "demo_body = \<lparr>br_aborted = False, br_signal = True, br_declared = None, br_buffered = NoBytesMethod, br_hasBody = True, br_abortedAfter = False\<rparr>"

theorem streamed_body_read_witness:
  "readBodyWithLimit demo_body 3 True (Some 10) [Chunk [1, 2], NoValue, DeadlineFired] \<noteq> None"
  using streamed_body_read [of demo_body 3 True "Some 10" "[Chunk [1, 2], NoValue, DeadlineFired]"]
  by (simp add: demo_body_def)

text \<open>
  Every way of reading a body respects the size guard and the abort: with the guard on, no path
  (an already buffered body, a raced whole read, a stream, with or without a declared length that may
  lie) returns more than \<open>maxBytes\<close>; a declared length over the limit is refused without reading; and a
  request that is aborted on entry is refused without reading, deadline or listener.
\<close>

theorem body_guard_every_path:
  "(\<forall>ro b. readRequestBodyOnce req maxBytes True t es = Some ro \<longrightarrow> ro_result ro = Inr b \<longrightarrow> length b \<le> maxBytes)
   \<and> (\<forall>n. \<not> br_aborted req \<longrightarrow> br_declared req = Some (Some n) \<longrightarrow> int maxBytes < n \<longrightarrow>
        readBodyWithLimit req maxBytes True t es = Some (plain_outcome (Inl BodyTooLarge)))
   \<and> (br_aborted req \<longrightarrow> readBodyWithLimit req maxBytes guard t es = Some (plain_outcome (Inl RequestAborted)))"
proof (intro conjI allI impI)
  fix ro b assume r: "readRequestBodyOnce req maxBytes True t es = Some ro" and b: "ro_result ro = Inr b"
  show "length b \<le> maxBytes"
  proof (cases "br_hasBody req")
    case True
    with r have "readBodyWithLimit req maxBytes True t es = Some ro" by (simp add: readRequestBodyOnce_def)
    then show ?thesis using guard_respected b by blast
  next
    case False
    with r b show ?thesis by (auto simp: readRequestBodyOnce_def plain_outcome_def)
  qed
qed (simp_all add: readBodyWithLimit_def)

theorem body_guard_every_path_witness:
  "readBodyWithLimit (demo_body\<lparr>br_declared := Some (Some 9)\<rparr>) 3 True None [] = Some (plain_outcome (Inl BodyTooLarge))"
  using body_guard_every_path [of "demo_body\<lparr>br_declared := Some (Some 9)\<rparr>" 3 None "[]" True]
  by (simp add: demo_body_def)

end
