(* ===== verification/RouteWire.thy ===== *)
theory RouteWire
  imports WireObject IngressBody
begin

text \<open>
  The per-route native stack: the byte helpers of \<open>src/src/ingress/packing/route-wire.ts\<close>, the
  compiled route of \<open>native-route.ts\<close> and its request handler \<open>routes/native.ts\<close>.

  The native stack is a parameter: compiling a descriptor and running a frame into an output buffer,
  with the needed-size convention its documentation gives (the size of the result is returned, and
  the buffer is written only when it fits), and it may throw. The handler reads the body with
  \<open>readBodyWithLimit\<close>, over the events its races see. A run that throws leaves the reused output buffer as it was; its contents never matter to
  a later run.
\<close>

section \<open>The wire\<close>

abbreviation (input) ROUTE_DESC_MAGIC :: nat where "ROUTE_DESC_MAGIC \<equiv> 0x524f5554"
abbreviation (input) ROUTE_DESC_VERSION :: nat where "ROUTE_DESC_VERSION \<equiv> 3"

datatype route_stage = ParseQuery | ParseCookies | ValidateQuery | ValidateCookies | ValidateBody | RequireJsonBody

fun ROUTE_STAGE :: "route_stage \<Rightarrow> nat" where
  "ROUTE_STAGE ParseQuery = 0"
| "ROUTE_STAGE ParseCookies = 1"
| "ROUTE_STAGE ValidateQuery = 2"
| "ROUTE_STAGE ValidateCookies = 3"
| "ROUTE_STAGE ValidateBody = 4"
| "ROUTE_STAGE RequireJsonBody = 5"

record route_limits =
  maxBodyBytes :: nat
  maxQueryBytes :: nat
  maxCookieBytes :: nat
  maxPairs :: nat

text \<open>Sequential \<open>put\<close>s at a moving position, as the encoders write them.\<close>

fun put_seq :: "bytes list \<Rightarrow> bytes \<Rightarrow> nat \<Rightarrow> (bytes \<times> nat) result" where
  "put_seq [] out pos = Inr (out, pos)"
| "put_seq (f # fs) out pos = rbind (put out pos f) (\<lambda>out'. put_seq fs out' (pos + length f))"

definition descriptor_size :: "route_stage list \<Rightarrow> (nat \<times> bytes) list \<Rightarrow> nat" where
  "descriptor_size pipeline schemas =
     foldl (\<lambda>total (part, bs). total + (1 + 4 + length bs)) (8 + 16 + 4 + length pipeline + 4) schemas"

definition encodeRouteDescriptor :: "route_stage list \<Rightarrow> (nat \<times> bytes) list \<Rightarrow> route_limits \<Rightarrow> bytes result" where
  "encodeRouteDescriptor pipeline schemas limits =
     (let out = new_buf (descriptor_size pipeline schemas)
      in rbind (put_seq [u32_le ROUTE_DESC_MAGIC, u32_le ROUTE_DESC_VERSION] out 0) (\<lambda>(o1, p1).
         rbind (put_seq (map u32_le [maxBodyBytes limits, maxQueryBytes limits, maxCookieBytes limits, maxPairs limits]) o1 p1) (\<lambda>(o2, p2).
         rbind (put_seq [u32_le (length pipeline)] o2 p2) (\<lambda>(o3, p3).
         rbind (put_seq (map (\<lambda>stage. [of_nat (ROUTE_STAGE stage)]) pipeline) o3 p3) (\<lambda>(o4, p4).
         rbind (put_seq [u32_le (length schemas)] o4 p4) (\<lambda>(o5, p5).
         rbind (put_seq (concat (map (\<lambda>(part, bs). [[of_nat part], u32_le (length bs), bs]) schemas)) o5 p5) (\<lambda>(o6, p6).
           Inr o6)))))))"

definition packRouteFrame :: "jsstring \<Rightarrow> jsstring \<Rightarrow> bytes option \<Rightarrow> bytes result" where
  "packRouteFrame query cookie body =
     (let q = node_encodeUtf8 query; c = node_encodeUtf8 cookie;
          bb = (case body of Some b \<Rightarrow> b | None \<Rightarrow> []);
          hasBody = (bb \<noteq> []);
          total = 4 + 4 + length q + 4 + length c + (if hasBody then 4 + length bb else 0)
      in rbind (put_seq [u32_le (if hasBody then 1 else 0), u32_le (length q), q, u32_le (length c), c] (new_buf total) 0) (\<lambda>(o1, p1).
           if hasBody then rbind (put_seq [u32_le (length bb), bb] o1 p1) (\<lambda>(o2, p2). Inr o2) else Inr o1))"

record route_result =
  rr_flags :: nat
  rr_errorCode :: nat
  rr_query :: "(jsstring \<times> jsstring) list"
  rr_cookie :: "(jsstring \<times> jsstring) list"

text \<open>
  \<open>readPairs\<close>: the counts and lengths are read through the view, which throws past the end; the
  strings through \<open>subarray\<close>, which clamps.
\<close>

definition route_string :: "bytes \<Rightarrow> nat \<Rightarrow> (jsstring \<times> nat) result" where
  "route_string buf pos =
     rbind (get_uint 4 buf pos) (\<lambda>n. Inr (node_decodeUtf8 (subarray buf (pos + 4) (pos + 4 + n)), pos + 4 + n))"

fun route_pairs :: "bytes \<Rightarrow> nat \<Rightarrow> nat \<Rightarrow> ((jsstring \<times> jsstring) list \<times> nat) result" where
  "route_pairs buf pos 0 = Inr ([], pos)"
| "route_pairs buf pos (Suc k) =
     rbind (route_string buf pos) (\<lambda>(name, p1).
     rbind (route_string buf p1) (\<lambda>(value, p2).
     rbind (route_pairs buf p2 k) (\<lambda>(rest, p3). Inr ((name, value) # rest, p3))))"

definition read_section :: "bool \<Rightarrow> bytes \<Rightarrow> nat \<Rightarrow> ((jsstring \<times> jsstring) list \<times> nat) result" where
  "read_section present buf pos =
     (if present then rbind (get_uint 4 buf pos) (\<lambda>count. route_pairs buf (pos + 4) count) else Inr ([], pos))"

definition decodeRouteResult :: "bytes \<Rightarrow> bool \<Rightarrow> bool \<Rightarrow> route_result result" where
  "decodeRouteResult buf query cookie =
     rbind (get_uint 4 buf 0) (\<lambda>flags.
     rbind (get_uint 4 buf 4) (\<lambda>errorCode.
     rbind (read_section query buf 8) (\<lambda>(q, p1).
     rbind (read_section cookie buf p1) (\<lambda>(c, p2).
       Inr \<lparr>rr_flags = flags, rr_errorCode = errorCode, rr_query = q, rr_cookie = c\<rparr>))))"

section \<open>The compiled route\<close>

record route_plan =
  rp_parseQuery :: bool
  rp_parseCookies :: bool
  rp_requireJsonBody :: bool
  rp_validateBody :: bool
  rp_schema :: "bytes option"
  rp_maxBodyBytes :: "nat option"
  rp_maxQueryBytes :: "nat option"
  rp_maxCookieBytes :: "nat option"
  rp_maxPairs :: "nat option"

definition default_of :: "nat \<Rightarrow> nat option \<Rightarrow> nat" where
  "default_of d v = (case v of None \<Rightarrow> d | Some x \<Rightarrow> x)"

definition plan_limits :: "route_plan \<Rightarrow> route_limits" where
  "plan_limits p = \<lparr>maxBodyBytes = default_of (2 * 1024 * 1024) (rp_maxBodyBytes p),
     maxQueryBytes = default_of 8192 (rp_maxQueryBytes p), maxCookieBytes = default_of 8192 (rp_maxCookieBytes p),
     maxPairs = default_of 0 (rp_maxPairs p)\<rparr>"

definition plan_stages :: "route_plan \<Rightarrow> route_stage list" where
  "plan_stages p = (if rp_parseQuery p then [ParseQuery] else []) @ (if rp_parseCookies p then [ParseCookies] else [])
     @ (if rp_validateBody p then [ValidateBody] else []) @ (if rp_requireJsonBody p then [RequireJsonBody] else [])"

definition plan_schemas :: "route_plan \<Rightarrow> (nat \<times> bytes) list" where
  "plan_schemas p = (case rp_schema p of Some s \<Rightarrow> (if rp_validateBody p then [(3, s)] else []) | None \<Rightarrow> [])"

text \<open>
  The transports: \<open>ffi\<close> compiles to a handle (zero or a throw is a failure), \<open>napi\<close> to an object.
  Both run a frame into a buffer and return the written size with the buffer.
\<close>

type_synonym native_run = "bytes \<Rightarrow> bytes \<Rightarrow> (nat \<times> bytes) result"

record native_transport =
  nt_ffi :: "(bytes \<Rightarrow> native_run result) option"
  nt_napi :: "bytes \<Rightarrow> native_run option"

record native_route =
  nr_parseQuery :: bool
  nr_parseCookies :: bool
  nr_ffi :: "native_run option"
  nr_napi :: "native_run option"
  nr_out :: bytes

definition compileFfi :: "(bytes \<Rightarrow> native_run result) \<Rightarrow> bytes \<Rightarrow> native_run option" where
  "compileFfi compile descriptor = (case compile descriptor of Inl e \<Rightarrow> None | Inr r \<Rightarrow> Some r)"

definition createNativeRoute :: "native_transport \<Rightarrow> route_plan \<Rightarrow> native_route result" where
  "createNativeRoute nt p =
     rbind (encodeRouteDescriptor (plan_stages p) (plan_schemas p) (plan_limits p)) (\<lambda>descriptor.
       let h = (case nt_ffi nt of None \<Rightarrow> None | Some c \<Rightarrow> compileFfi c descriptor)
       in Inr \<lparr>nr_parseQuery = rp_parseQuery p, nr_parseCookies = rp_parseCookies p, nr_ffi = h,
            nr_napi = (if h = None then nt_napi nt descriptor else None), nr_out = new_buf 256\<rparr>)"

text \<open>Run, grow to the exact reported size, run once more.\<close>

definition run_growing :: "native_run \<Rightarrow> bytes \<Rightarrow> bytes \<Rightarrow> (nat \<times> bytes) result" where
  "run_growing run frame out =
     rbind (run frame out) (\<lambda>(written, out1).
       if length out1 < written
       then rbind (run frame (new_buf written)) (\<lambda>(written2, out2).
              if length out2 < written2 then Inl (JsError ''native route: output still too small after grow'')
              else Inr (written2, out2))
       else Inr (written, out1))"

definition runFrame :: "native_route \<Rightarrow> bytes \<Rightarrow> (route_result \<times> native_route) result" where
  "runFrame nr frame =
     (case (case nr_ffi nr of Some f \<Rightarrow> Some f | None \<Rightarrow> nr_napi nr) of
        None \<Rightarrow> Inl (JsError ''native route: already destroyed'')
      | Some run \<Rightarrow>
          rbind (run_growing run frame (nr_out nr)) (\<lambda>(written, out).
          rbind (decodeRouteResult (subarray out 0 written) (nr_parseQuery nr) (nr_parseCookies nr)) (\<lambda>r.
            Inr (r, nr\<lparr>nr_out := out\<rparr>))))"

definition route_run :: "native_route \<Rightarrow> jsstring \<Rightarrow> jsstring \<Rightarrow> bytes option \<Rightarrow> (route_result \<times> native_route) result" where
  "route_run nr query cookie body = rbind (packRouteFrame query cookie body) (runFrame nr)"

definition route_destroy :: "native_route \<Rightarrow> native_route" where
  "route_destroy nr = nr\<lparr>nr_ffi := None, nr_napi := None\<rparr>"

section \<open>The request handler\<close>

datatype route_response =
  Aborted499
| Terminal nat string string
| Responded "jsstring \<Rightarrow> jsstring option" "jsstring \<Rightarrow> jsstring option" bytes

text \<open>\<open>pairsToRecord\<close>: own properties, the last value of a name wins.\<close>

definition pairsToRecord :: "(jsstring \<times> jsstring) list \<Rightarrow> jsstring \<Rightarrow> jsstring option" where
  "pairsToRecord pairs = foldl (\<lambda>out (k, v). out(k \<mapsto> v)) Map.empty pairs"

definition query_of :: "jsstring \<Rightarrow> jsstring" where
  "query_of url = drop 1 (dropWhile (\<lambda>u. u \<noteq> 63) url)"

record native_request =
  rq_url :: jsstring
  rq_cookie :: "jsstring option"
  rq_abortedAfterBody :: bool
  rq_body :: body_request

definition native_respond :: "native_route \<Rightarrow> native_request \<Rightarrow> bytes option \<Rightarrow> route_response \<times> native_route" where
  "native_respond nr req body =
     (case route_run nr (query_of (rq_url req)) (case rq_cookie req of None \<Rightarrow> [] | Some c \<Rightarrow> c) body of
        Inl e \<Rightarrow> (Terminal 500 ''INTERNAL'' ''Native route run failed'', nr)
      | Inr (r, nr') \<Rightarrow>
          (if rr_errorCode r \<noteq> 0
           then (if rr_errorCode r = 400 then Terminal 400 ''INVALID_JSON'' ''Request body must be valid JSON''
                 else if rr_errorCode r = 422 then Terminal 422 ''VALIDATION_FAILED'' ''Request body failed schema validation''
                 else Terminal 400 ''BAD_REQUEST'' ''Bad request'')
           else Responded (if nr_parseQuery nr then pairsToRecord (rr_query r) else Map.empty)
                  (if nr_parseCookies nr then pairsToRecord (rr_cookie r) else Map.empty)
                  (case body of None \<Rightarrow> [] | Some b \<Rightarrow> b), nr'))"

definition nativeRouteHandler ::
  "native_route \<Rightarrow> bool \<Rightarrow> nat \<Rightarrow> nat \<Rightarrow> native_request \<Rightarrow> read_event list \<Rightarrow> (route_response \<times> native_route) option" where
  "nativeRouteHandler nr readBody maxBody bodyTimeoutMs req es =
     (if br_aborted (rq_body req) then Some (Aborted499, nr)
      else if \<not> readBody then Some (native_respond nr req None)
      else (case readBodyWithLimit (rq_body req) maxBody True (Some bodyTimeoutMs) es of
              None \<Rightarrow> None
            | Some ro \<Rightarrow> Some (case ro_result ro of
                Inl e \<Rightarrow> (if e = RequestAborted then (Aborted499, nr)
                          else (Terminal (if e = RequestTimeout then 408 else if e = BodyTooLarge then 413 else 400)
                                  ''BAD_REQUEST'' ''Request body read failed'', nr))
              | Inr b \<Rightarrow> (if rq_abortedAfterBody req then (Aborted499, nr) else native_respond nr req (Some b)))))"

section \<open>Layouts\<close>

lemma put_seq_append:
  "length (concat fs) \<le> length q \<Longrightarrow> pos = length p \<Longrightarrow>
     put_seq fs (p @ q) pos = Inr (p @ concat fs @ drop (length (concat fs)) q, pos + length (concat fs))"
proof (induction fs arbitrary: p q pos)
  case (Cons f fs)
  have 1: "put (p @ q) pos f = Inr ((p @ f) @ drop (length f) q)" using Cons.prems by (simp add: put_append)
  have "put_seq fs ((p @ f) @ drop (length f) q) (pos + length f)
      = Inr ((p @ f) @ concat fs @ drop (length (concat fs)) (drop (length f) q), pos + length f + length (concat fs))"
    using Cons.prems by (intro Cons.IH) simp_all
  with 1 show ?case by (simp add: ac_simps)
qed simp

lemma put_seq_fresh:
  "length (concat fs) = n \<Longrightarrow> put_seq fs (new_buf (n + m)) 0 = Inr (concat fs @ drop n (new_buf (n + m)), n)"
  using put_seq_append [of fs "new_buf (n + m)" 0 "[]"] by simp

definition schema_layout :: "nat \<times> bytes \<Rightarrow> bytes" where
  "schema_layout = (\<lambda>(part, bs). of_nat part # item_layout bs)"

definition descriptor_layout :: "route_stage list \<Rightarrow> (nat \<times> bytes) list \<Rightarrow> route_limits \<Rightarrow> bytes" where
  "descriptor_layout pipeline schemas limits = u32_le ROUTE_DESC_MAGIC @ u32_le ROUTE_DESC_VERSION
     @ u32_le (maxBodyBytes limits) @ u32_le (maxQueryBytes limits) @ u32_le (maxCookieBytes limits) @ u32_le (maxPairs limits)
     @ u32_le (length pipeline) @ map (\<lambda>st. of_nat (ROUTE_STAGE st)) pipeline
     @ u32_le (length schemas) @ concat (map schema_layout schemas)"

definition frame_layout :: "jsstring \<Rightarrow> jsstring \<Rightarrow> bytes option \<Rightarrow> bytes" where
  "frame_layout query cookie body =
     (let bb = (case body of Some b \<Rightarrow> b | None \<Rightarrow> [])
      in u32_le (if bb \<noteq> [] then 1 else 0) @ item_layout (node_encodeUtf8 query) @ item_layout (node_encodeUtf8 cookie)
         @ (if bb \<noteq> [] then item_layout bb else []))"

definition result_layout :: "bool \<Rightarrow> bool \<Rightarrow> route_result \<Rightarrow> bytes" where
  "result_layout query cookie r = u32_le (rr_flags r) @ u32_le (rr_errorCode r)
     @ (if query then pairs_layout node_encodeUtf8 (rr_query r) else [])
     @ (if cookie then pairs_layout node_encodeUtf8 (rr_cookie r) else [])"

lemma put_seq_more:
  "put_seq (fs @ gs) out pos = rbind (put_seq fs out pos) (\<lambda>(o', p'). put_seq gs o' p')"
  by (induction fs arbitrary: out pos) (simp_all add: rbind_assoc)

lemma descriptor_size_layout: "descriptor_size pipeline schemas = length (descriptor_layout pipeline schemas limits)"
proof -
  have "foldl (\<lambda>total (part, bs). total + (1 + 4 + length bs)) n schemas = n + length (concat (map schema_layout schemas))" for n
    by (induction schemas arbitrary: n) (auto simp: schema_layout_def)
  then show ?thesis by (simp add: descriptor_size_def descriptor_layout_def)
qed

lemma encodeRouteDescriptor_layout: "encodeRouteDescriptor pipeline schemas limits = Inr (descriptor_layout pipeline schemas limits)"
proof -
  let ?fs = "[u32_le ROUTE_DESC_MAGIC, u32_le ROUTE_DESC_VERSION]
    @ map u32_le [maxBodyBytes limits, maxQueryBytes limits, maxCookieBytes limits, maxPairs limits]
    @ [u32_le (length pipeline)] @ map (\<lambda>stage. [of_nat (ROUTE_STAGE stage)]) pipeline @ [u32_le (length schemas)]
    @ concat (map (\<lambda>(part, bs). [[of_nat part], u32_le (length bs), bs]) schemas)"
  have s: "concat (concat (map (\<lambda>(part, bs). [[of_nat part], u32_le (length bs), bs]) schemas)) = concat (map schema_layout schemas)"
    by (induction schemas) (auto simp: schema_layout_def item_layout_def)
  have st: "concat (map (\<lambda>stage. [of_nat (ROUTE_STAGE stage)]) pipeline) = map (\<lambda>st. of_nat (ROUTE_STAGE st)) pipeline"
    by (induction pipeline) simp_all
  have c: "concat ?fs = descriptor_layout pipeline schemas limits"
    unfolding concat_append s st by (simp add: descriptor_layout_def)
  have "put_seq ?fs (new_buf (descriptor_size pipeline schemas)) 0
      = Inr (descriptor_layout pipeline schemas limits, descriptor_size pipeline schemas)"
    using put_seq_append [of ?fs "new_buf (descriptor_size pipeline schemas)" 0 "[]"]
    unfolding c by (simp add: descriptor_size_layout [of pipeline schemas limits])
  moreover have "encodeRouteDescriptor pipeline schemas limits
      = rbind (put_seq ?fs (new_buf (descriptor_size pipeline schemas)) 0) (\<lambda>(o', p'). Inr o')"
    unfolding put_seq_more rbind_assoc encodeRouteDescriptor_def Let_def by (simp add: case_prod_unfold rbind_assoc)
  ultimately show ?thesis by simp
qed

lemma put_seq_exact:
  assumes "n = length (concat fs)"
  shows "put_seq fs (new_buf n) 0 = Inr (concat fs, n)"
  using put_seq_append [of fs "new_buf n" 0 "[]"] by (simp add: assms)

lemma packRouteFrame_layout: "packRouteFrame query cookie body = Inr (frame_layout query cookie body)"
proof -
  define q where "q = node_encodeUtf8 query"
  define c where "c = node_encodeUtf8 cookie"
  define bb where "bb = (case body of Some b \<Rightarrow> b | None \<Rightarrow> [])"
  define fs where "fs = [u32_le (if bb \<noteq> [] then 1 else 0), u32_le (length q), q, u32_le (length c), c]"
  define gs where "gs = (if bb \<noteq> [] then [u32_le (length bb), bb] else [])"
  define n where "n = 4 + 4 + length q + 4 + length c + (if bb \<noteq> [] then 4 + length bb else 0)"
  have "put_seq (fs @ gs) (new_buf n) 0 = Inr (concat (fs @ gs), n)"
    by (rule put_seq_exact) (simp add: fs_def gs_def n_def)
  then have "rbind (put_seq fs (new_buf n) 0) (\<lambda>(o1, p1). rbind (put_seq gs o1 p1) (\<lambda>(o2, p2). Inr o2)) = Inr (concat (fs @ gs))"
    unfolding put_seq_more by (cases "put_seq fs (new_buf n) 0") auto
  moreover have "packRouteFrame query cookie body
      = rbind (put_seq fs (new_buf n) 0) (\<lambda>(o1, p1). rbind (put_seq gs o1 p1) (\<lambda>(o2, p2). Inr o2))"
    unfolding packRouteFrame_def Let_def q_def [symmetric] c_def [symmetric] bb_def [symmetric] n_def [symmetric] fs_def [symmetric]
    by (cases "bb = []") (simp_all add: gs_def case_prod_unfold)
  moreover have "concat (fs @ gs) = frame_layout query cookie body"
    by (simp add: frame_layout_def Let_def item_layout_def fs_def gs_def q_def c_def bb_def)
  ultimately show ?thesis by simp
qed

section \<open>Decoding results\<close>

lemma route_string_layout:
  assumes "node_text s" and "length (node_encodeUtf8 s) < 2 ^ 32" and "pos = length p"
  shows "route_string (p @ item_layout (node_encodeUtf8 s) @ q) pos = Inr (s, pos + length (item_layout (node_encodeUtf8 s)))"
proof -
  let ?e = "node_encodeUtf8 s"
  have g: "get_uint 4 (p @ u32_le (length ?e) @ ?e @ q) pos = Inr (length ?e)"
    using assms by (intro get_uint_le) simp_all
  have b: "subarray ((p @ u32_le (length ?e)) @ ?e @ q) (pos + 4) (pos + 4 + length ?e) = ?e"
    using assms(3) by (intro subarray_append) simp_all
  show ?thesis
    using g b node.dec_enc [OF assms(1)] by (simp add: route_string_def item_layout_def ac_simps)
qed

lemma route_pairs_layout:
  assumes "\<forall>kv \<in> set kvs. pair_ok node_encodeUtf8 node_text kv" and "pos = length p"
  shows "route_pairs (p @ concat (map (pair_layout node_encodeUtf8) kvs) @ q) pos (length kvs)
    = Inr (kvs, pos + length (concat (map (pair_layout node_encodeUtf8) kvs)))"
  using assms
proof (induction kvs arbitrary: p pos)
  case (Cons kv kvs)
  obtain k v where kv: "kv = (k, v)" by (cases kv)
  let ?k = "item_layout (node_encodeUtf8 k)" and ?v = "item_layout (node_encodeUtf8 v)"
  let ?rest = "concat (map (pair_layout node_encodeUtf8) kvs) @ q"
  have ok: "node_text k" "node_text v" "length (node_encodeUtf8 k) < 2 ^ 32" "length (node_encodeUtf8 v) < 2 ^ 32"
    using Cons.prems(1) by (auto simp: kv pair_ok_def)
  have 1: "route_string (p @ ?k @ ?v @ ?rest) pos = Inr (k, pos + length ?k)"
    using ok Cons.prems(2) by (intro route_string_layout) simp_all
  have 2: "route_string ((p @ ?k) @ ?v @ ?rest) (pos + length ?k) = Inr (v, pos + length ?k + length ?v)"
    using ok Cons.prems(2) by (intro route_string_layout) simp_all
  have 3: "route_pairs ((p @ ?k @ ?v) @ ?rest) (pos + length ?k + length ?v) (length kvs)
      = Inr (kvs, pos + length ?k + length ?v + length (concat (map (pair_layout node_encodeUtf8) kvs)))"
    using Cons.prems by (intro Cons.IH) simp_all
  have pl: "pair_layout node_encodeUtf8 kv = ?k @ ?v" by (simp add: kv pair_layout_def)
  have buf: "p @ concat (map (pair_layout node_encodeUtf8) (kv # kvs)) @ q = p @ ?k @ ?v @ ?rest" by (simp add: pl)
  show ?case unfolding buf using 1 2 3 by (simp add: kv pl [unfolded kv] del: length_item_layout)
qed simp

definition section_ok :: "(jsstring \<times> jsstring) list \<Rightarrow> bool" where
  "section_ok kvs \<longleftrightarrow> (\<forall>kv \<in> set kvs. pair_ok node_encodeUtf8 node_text kv) \<and> length kvs < 2 ^ 32"

lemma read_section_layout:
  assumes "present \<Longrightarrow> section_ok kvs" and "pos = length p"
  shows "read_section present (p @ (if present then pairs_layout node_encodeUtf8 kvs else []) @ q) pos
    = Inr (if present then kvs else [], pos + length (if present then pairs_layout node_encodeUtf8 kvs else []))"
proof (cases present)
  case True
  let ?cs = "concat (map (pair_layout node_encodeUtf8) kvs)"
  have "get_uint 4 (p @ u32_le (length kvs) @ ?cs @ q) pos = Inr (length kvs)"
    using assms True by (intro get_uint_le) (simp_all add: section_ok_def)
  moreover have "route_pairs ((p @ u32_le (length kvs)) @ ?cs @ q) (pos + 4) (length kvs) = Inr (kvs, pos + 4 + length ?cs)"
    using assms True by (intro route_pairs_layout) (simp_all add: section_ok_def)
  ultimately show ?thesis using True by (simp add: read_section_def pairs_layout_def)
qed (simp add: read_section_def)

lemma decode_layout:
  assumes "rr_flags r < 2 ^ 32" "rr_errorCode r < 2 ^ 32" "query \<Longrightarrow> section_ok (rr_query r)" "cookie \<Longrightarrow> section_ok (rr_cookie r)"
    "\<not> query \<Longrightarrow> rr_query r = []" "\<not> cookie \<Longrightarrow> rr_cookie r = []"
  shows "decodeRouteResult (result_layout query cookie r) query cookie = Inr r"
proof -
  let ?f = "u32_le (rr_flags r)" and ?e = "u32_le (rr_errorCode r)"
  let ?q = "if query then pairs_layout node_encodeUtf8 (rr_query r) else []"
  let ?c = "if cookie then pairs_layout node_encodeUtf8 (rr_cookie r) else []"
  have f: "get_uint 4 ([] @ ?f @ ?e @ ?q @ ?c) 0 = Inr (rr_flags r)" using assms by (intro get_uint_le) simp_all
  have e: "get_uint 4 (?f @ ?e @ ?q @ ?c) 4 = Inr (rr_errorCode r)" using assms by (intro get_uint_le) simp_all
  have q: "read_section query ((?f @ ?e) @ ?q @ ?c) 8 = Inr (if query then rr_query r else [], 8 + length ?q)"
    using assms by (intro read_section_layout) simp_all
  have c: "read_section cookie ((?f @ ?e @ ?q) @ ?c @ []) (8 + length ?q) = Inr (if cookie then rr_cookie r else [], 8 + length ?q + length ?c)"
    using assms by (intro read_section_layout) simp_all
  have l: "result_layout query cookie r = ?f @ ?e @ ?q @ ?c" by (simp add: result_layout_def)
  show ?thesis
    unfolding l decodeRouteResult_def using f e q c assms(5,6) by (cases r) (simp split del: if_split, simp)
qed

section \<open>Running a compiled route\<close>

text \<open>
  The documented convention of the native run: it reports the size of the frame's result and writes it
  when the buffer is large enough.
\<close>

definition conforms :: "native_run \<Rightarrow> (bytes \<Rightarrow> bytes) \<Rightarrow> bool" where
  "conforms run res \<longleftrightarrow> (\<forall>frame out. run frame out = Inr (length (res frame),
     if length (res frame) \<le> length out then res frame @ drop (length (res frame)) out else out))"

lemma run_growing_conforms:
  assumes "conforms run res"
  shows "\<exists>out'. run_growing run frame out = Inr (length (res frame), res frame @ out')"
  using assms by (auto simp: run_growing_def conforms_def)

definition active_run :: "native_route \<Rightarrow> native_run option" where
  "active_run nr = (case nr_ffi nr of Some f \<Rightarrow> Some f | None \<Rightarrow> nr_napi nr)"

lemma runFrame_conforms:
  assumes "active_run nr = Some run" and "conforms run res"
    and "decodeRouteResult (res frame) (nr_parseQuery nr) (nr_parseCookies nr) = Inr r"
  shows "\<exists>out'. runFrame nr frame = Inr (r, nr\<lparr>nr_out := out'\<rparr>)"
proof -
  obtain out' where "run_growing run frame (nr_out nr) = Inr (length (res frame), res frame @ out')"
    using run_growing_conforms [OF assms(2)] by blast
  moreover have "subarray (res frame @ out') 0 (length (res frame)) = res frame" by (simp add: subarray_prefix)
  ultimately show ?thesis using assms by (auto simp: runFrame_def active_run_def)
qed

lemma pairsToRecord_last: "pairsToRecord pairs = map_of (rev pairs)"
proof -
  have "foldl (\<lambda>out (k, v). out(k \<mapsto> v)) m pairs = m ++ map_of (rev pairs)" for m
    by (induction pairs arbitrary: m) (auto simp: fun_eq_iff map_add_def split: option.splits)
  then show ?thesis by (simp add: pairsToRecord_def)
qed

section \<open>Properties\<close>


definition demo_plan :: route_plan where
  "demo_plan = \<lparr>rp_parseQuery = True, rp_parseCookies = False, rp_requireJsonBody = False, rp_validateBody = False,
     rp_schema = None, rp_maxBodyBytes = None, rp_maxQueryBytes = None, rp_maxCookieBytes = None, rp_maxPairs = None\<rparr>"

definition demo_result :: route_result where
  "demo_result = \<lparr>rr_flags = 1, rr_errorCode = 0, rr_query = [(js ''a'', js ''1'')], rr_cookie = []\<rparr>"

definition demo_run :: native_run where
  "demo_run frame out = (let res = result_layout True False demo_result
     in Inr (length res, if length res \<le> length out then res @ drop (length res) out else out))"

definition demo_transport :: native_transport where
  "demo_transport = \<lparr>nt_ffi = None, nt_napi = (\<lambda>_. Some demo_run)\<rparr>"

lemma demo_section: "section_ok [(js ''a'', js ''1'')]"
proof -
  have a: "ascii (js ''a'')" "ascii (js ''1'')" by (simp_all add: ascii_def js_def)
  have "node_text (js ''a'')" "node_text (js ''1'')"
    by (simp_all add: node_text_def js_def is_high_def is_low_def)
  with a show ?thesis by (simp add: section_ok_def pair_ok_def node_encodeUtf8_def utf8_encode_ascii js_def)
qed

definition demo_route :: native_route where
  "demo_route = \<lparr>nr_parseQuery = True, nr_parseCookies = False, nr_ffi = None, nr_napi = Some demo_run, nr_out = new_buf 256\<rparr>"


lemma native_respond_outcome:
  assumes "native_respond nr req body = (resp, nr')"
  shows "(\<exists>st c m. resp = Terminal st c m \<and> st \<in> {400, 422, 500})
    \<or> (\<exists>r. route_run nr (query_of (rq_url req)) (case rq_cookie req of None \<Rightarrow> [] | Some c \<Rightarrow> c) body = Inr (r, nr')
        \<and> rr_errorCode r = 0
        \<and> resp = Responded (if nr_parseQuery nr then map_of (rev (rr_query r)) else Map.empty)
             (if nr_parseCookies nr then map_of (rev (rr_cookie r)) else Map.empty) (case body of None \<Rightarrow> [] | Some b \<Rightarrow> b))"
proof (cases "route_run nr (query_of (rq_url req)) (case rq_cookie req of None \<Rightarrow> [] | Some c \<Rightarrow> c) body")
  case (Inl e)
  with assms show ?thesis by (auto simp: native_respond_def)
next
  case (Inr x)
  obtain r n where x: "x = (r, n)" by force
  show ?thesis
  proof (cases "rr_errorCode r = 0")
    case True
    then show ?thesis using assms unfolding pairsToRecord_last [symmetric]
      by (intro disjI2 exI [of _ r]) (simp add: native_respond_def Inr x)
  next
    case False
    then show ?thesis using assms by (auto simp: native_respond_def Inr x)
  qed
qed

text \<open>
  The native-route handler answers every request in exactly one documented way: a request that is
  already aborted, or aborts while its body is read, gets 499; failures become 400, 408, 413, 422 or
  500; the responder runs only when the body was read completely, within the size limit, and the
  native verdict was zero, with each name bound to its last value; and with a body timeout a request
  whose deadline fires is always answered.
\<close>

theorem native_handler_outcome:
  "(\<forall>resp nr'. nativeRouteHandler nr readBody maxBody ms req es = Some (resp, nr') \<longrightarrow>
      (br_aborted (rq_body req) \<longrightarrow> resp = Aborted499 \<and> nr' = nr)
    \<and> (\<forall>st c m. resp = Terminal st c m \<longrightarrow> st \<in> {400, 408, 413, 422, 500})
    \<and> (\<forall>q c b. resp = Responded q c b \<longrightarrow>
         (if readBody then length b \<le> maxBody else b = [])
         \<and> (\<exists>r. route_run nr (query_of (rq_url req)) (case rq_cookie req of None \<Rightarrow> [] | Some c \<Rightarrow> c) (if readBody then Some b else None) = Inr (r, nr')
              \<and> rr_errorCode r = 0 \<and> q = (if nr_parseQuery nr then map_of (rev (rr_query r)) else Map.empty)
              \<and> c = (if nr_parseCookies nr then map_of (rev (rr_cookie r)) else Map.empty))))
   \<and> (0 < ms \<longrightarrow> DeadlineFired \<in> set es \<longrightarrow> nativeRouteHandler nr readBody maxBody ms req es \<noteq> None)"
proof (intro conjI allI impI)
  fix resp nr' assume h: "nativeRouteHandler nr readBody maxBody ms req es = Some (resp, nr')"
  show "br_aborted (rq_body req) \<Longrightarrow> resp = Aborted499" "br_aborted (rq_body req) \<Longrightarrow> nr' = nr"
    using h by (simp_all add: nativeRouteHandler_def)
  have cases: "resp = Aborted499 \<or> (\<exists>st c m. resp = Terminal st c m \<and> st \<in> {400, 408, 413})
      \<or> \<not> readBody \<and> native_respond nr req None = (resp, nr')
      \<or> readBody \<and> (\<exists>ro b. readBodyWithLimit (rq_body req) maxBody True (Some ms) es = Some ro \<and> ro_result ro = Inr b
           \<and> native_respond nr req (Some b) = (resp, nr'))"
    using h unfolding nativeRouteHandler_def by (auto split: if_splits option.splits sum.splits)
  note R = native_respond_outcome [of nr req None resp nr'] native_respond_outcome [of nr req _ resp nr']
  show "st \<in> {400, 408, 413, 422, 500}" if "resp = Terminal st c m" for st c m
    using cases R that by auto
  fix q c b assume r: "resp = Responded q c b"
  show "if readBody then length b \<le> maxBody else b = []"
  proof (cases readBody)
    case True
    with cases r obtain ro b' where ro: "readBodyWithLimit (rq_body req) maxBody True (Some ms) es = Some ro" "ro_result ro = Inr b'"
      "native_respond nr req (Some b') = (resp, nr')" by auto
    have "b' = b" using native_respond_outcome [OF ro(3)] r by auto
    then show ?thesis using guard_respected [OF ro(1)] ro(2) True by auto
  next
    case False
    with cases R(1) r show ?thesis by auto
  qed
  show "\<exists>r. route_run nr (query_of (rq_url req)) (case rq_cookie req of None \<Rightarrow> [] | Some c \<Rightarrow> c) (if readBody then Some b else None) = Inr (r, nr')
      \<and> rr_errorCode r = 0 \<and> q = (if nr_parseQuery nr then map_of (rev (rr_query r)) else Map.empty)
      \<and> c = (if nr_parseCookies nr then map_of (rev (rr_cookie r)) else Map.empty)"
  proof (cases readBody)
    case True
    with cases r obtain b' where "native_respond nr req (Some b') = (resp, nr')" by auto
    from native_respond_outcome [OF this] r True show ?thesis by auto
  next
    case False
    with cases R(1) r show ?thesis by auto
  qed
next
  assume "0 < ms" "DeadlineFired \<in> set es"
  then show "nativeRouteHandler nr readBody maxBody ms req es \<noteq> None"
    using read_settles [of es ms "rq_body req" maxBody True] by (auto simp: nativeRouteHandler_def split: option.splits)
qed

theorem native_handler_outcome_witness:
  "nativeRouteHandler demo_route True 10 5 \<lparr>rq_url = js ''/?a=1'', rq_cookie = None, rq_abortedAfterBody = False,
     rq_body = demo_body\<rparr> [Chunk [1], DeadlineFired] \<noteq> None"
  using native_handler_outcome [of demo_route True 10 5
      "\<lparr>rq_url = js ''/?a=1'', rq_cookie = None, rq_abortedAfterBody = False, rq_body = demo_body\<rparr>" "[Chunk [1], DeadlineFired]"]
  by simp

text \<open>
  A result section cut short inside its last value is accepted: the reader checks the counts and
  lengths but not the end of the last string, so a truncated result decodes to a shorter value instead
  of being refused.
\<close>

theorem truncated_result_accepted:
  assumes "node_text k" and "length (node_encodeUtf8 k) < 2 ^ 32" and "length v \<le> n" and "n < 2 ^ 32"
    and "flags < 2 ^ 32" and "err < 2 ^ 32"
  shows "decodeRouteResult (u32_le flags @ u32_le err @ u32_le 1 @ item_layout (node_encodeUtf8 k) @ u32_le n @ v) True False
     = Inr \<lparr>rr_flags = flags, rr_errorCode = err, rr_query = [(k, node_decodeUtf8 v)], rr_cookie = []\<rparr>"
proof -
  let ?h = "u32_le flags @ u32_le err" and ?k = "item_layout (node_encodeUtf8 k)"
  let ?b = "u32_le flags @ u32_le err @ u32_le 1 @ ?k @ u32_le n @ v"
  have f: "get_uint 4 ([] @ u32_le flags @ u32_le err @ u32_le 1 @ ?k @ u32_le n @ v) 0 = Inr flags"
    "get_uint 4 (u32_le flags @ u32_le err @ u32_le 1 @ ?k @ u32_le n @ v) 4 = Inr err"
    "get_uint 4 (?h @ u32_le 1 @ ?k @ u32_le n @ v) 8 = Inr 1"
    "get_uint 4 ((?h @ u32_le 1 @ ?k) @ u32_le n @ v) (12 + length ?k) = Inr n"
    using assms by (intro get_uint_le; simp)+
  have k: "route_string ((?h @ u32_le 1) @ ?k @ u32_le n @ v) 12 = Inr (k, 12 + length ?k)"
    using assms by (intro route_string_layout) simp_all
  have v: "route_string ?b (12 + length ?k) = Inr (node_decodeUtf8 v, 12 + length ?k + 4 + n)"
    using f(4) assms(3) by (simp add: route_string_def subarray_def)
  show ?thesis
    using f k v by (simp add: decodeRouteResult_def read_section_def numeral_eq_Suc [of num.One] del: length_item_layout)
qed

theorem truncated_result_accepted_witness:
  "decodeRouteResult (u32_le 1 @ u32_le 0 @ u32_le 1 @ item_layout (node_encodeUtf8 (js ''a'')) @ u32_le 5 @ [98]) True False
     = Inr \<lparr>rr_flags = 1, rr_errorCode = 0, rr_query = [(js ''a'', node_decodeUtf8 [98])], rr_cookie = []\<rparr>"
  using demo_section by (intro truncated_result_accepted) (simp_all add: section_ok_def pair_ok_def)

end
