(* ===== verification/Router.thy ===== *)
theory Router
  imports PathMatcher RouteWire WireObject HandlerService
begin

text \<open>
  The route table: \<open>buildRouteHandlers\<close> of \<open>src/src/ingress/server.ts\<close>, which wires the methods of each
  route, and \<open>createIngressRouter\<close> of \<open>src/src/ingress/router.ts\<close>, which compiles a handler per route and
  dispatches requests over the path matcher.

  A wired handler is the factory that made it with the arguments it was given (\<open>wired\<close>); the handlers
  themselves are indexed by number. A method table is a JavaScript object, so a lookup may find a member of
  \<open>Object.prototype\<close>; method names called \<open>__proto__\<close> are outside the model. Functions supplied by the user
  and prebuilt responses are type variables.
\<close>

section \<open>Routes\<close>

record route_opts =
  op_getIp :: bool
  op_copyBody :: "bool option"
  op_maxBodyBytes :: "nat option"
  op_bodyTimeoutMs :: "nat option"
  op_fallback :: "nat option"

datatype terminal_style = Castrum | Ignex

record 'f responder_spec =
  rs_ingress :: nat
  rs_handler :: 'f
  rs_methods :: "jsstring list option"
  rs_terminalStyle :: "terminal_style option"
  rs_readBody :: "bool option"

record 'f native_spec =
  ns_plan :: route_plan
  ns_handler :: 'f
  ns_methods :: "jsstring list option"
  ns_readBody :: "bool option"

text \<open>\<open>static\<close> is a factory or a response, \<open>read\<close> a compiled handler or a raw function.\<close>

record ('f, 'r) baked_route =
  br_static :: "('f + 'r) option"
  br_read :: "(nat + 'f) option"
  br_write :: "nat option"
  br_echo :: "nat option"
  br_cookies :: "nat option"
  br_delete :: "nat option"
  br_responder :: "'f responder_spec option"
  br_native :: "'f native_spec option"
  br_maxBodyBytes :: "nat option"
  br_bodyTimeoutMs :: "nat option"

datatype ('f, 'r) wired =
  Prebuilt 'r
| GuardRaw 'f
| ReadHandler nat route_opts
| HeadHandler nat route_opts
| JsonWriteHandler nat route_opts
| EchoHandler nat route_opts
| DeleteHandler nat route_opts
| OptionsHandler nat route_opts
| GuardResponder nat 'f "terminal_style option" "bool option" route_opts
| GuardNative native_route 'f "bool option" route_opts

type_synonym ('f, 'r) methods = "(jsstring, ('f, 'r) wired) jsmap"

section \<open>Wiring one route\<close>

definition wire_get :: "route_opts \<Rightarrow> ('f, 'r) baked_route \<Rightarrow> ('f, 'r) methods \<Rightarrow> ('f, 'r) methods" where
  "wire_get opts spec ms =
     (case br_static spec of
        Some (Inl f) \<Rightarrow> AList.update (js ''GET'') (GuardRaw f) ms
      | Some (Inr r) \<Rightarrow> AList.update (js ''GET'') (Prebuilt r) ms
      | None \<Rightarrow>
          (case br_read spec of
             Some (Inr f) \<Rightarrow> AList.update (js ''GET'') (GuardRaw f) ms
           | Some (Inl i) \<Rightarrow> AList.update (js ''HEAD'') (HeadHandler i opts) (AList.update (js ''GET'') (ReadHandler i opts) ms)
           | None \<Rightarrow> ms))"

definition wire_write :: "nat option \<Rightarrow> route_opts \<Rightarrow> ('f, 'r) baked_route \<Rightarrow> ('f, 'r) methods \<Rightarrow> ('f, 'r) methods" where
  "wire_write fallback opts spec ms =
     (case br_write spec of None \<Rightarrow> ms
      | Some i \<Rightarrow>
          (let h = JsonWriteHandler i (opts\<lparr>op_fallback := Some (case fallback of Some g \<Rightarrow> g | None \<Rightarrow> i)\<rparr>)
           in AList.update (js ''PATCH'') h (AList.update (js ''PUT'') h (AList.update (js ''POST'') h ms))))"

definition wire_plain :: "route_opts \<Rightarrow> ('f, 'r) baked_route \<Rightarrow> ('f, 'r) methods \<Rightarrow> ('f, 'r) methods" where
  "wire_plain opts spec ms =
     (let ms1 = (case br_echo spec of Some i \<Rightarrow> AList.update (js ''POST'') (EchoHandler i opts) ms | None \<Rightarrow> ms);
          ms2 = (case br_cookies spec of Some i \<Rightarrow> (if br_static spec = None then AList.update (js ''GET'') (ReadHandler i opts) ms1 else ms1)
                 | None \<Rightarrow> ms1)
      in case br_delete spec of Some i \<Rightarrow> AList.update (js ''DELETE'') (DeleteHandler i opts) ms2 | None \<Rightarrow> ms2)"

definition wired_methods :: "('f, 'r) baked_route \<Rightarrow> jsstring list option \<Rightarrow> jsstring list" where
  "wired_methods spec ms =
     filter (\<lambda>m. \<not> (br_static spec \<noteq> None \<and> m = js ''GET'')) (case ms of None \<Rightarrow> [js ''GET''] | Some xs \<Rightarrow> xs)"

definition wire_all :: "jsstring list \<Rightarrow> 'w \<Rightarrow> (jsstring, 'w) jsmap \<Rightarrow> (jsstring, 'w) jsmap" where
  "wire_all names w ms = fold (\<lambda>m. AList.update m w) names ms"

definition wire_responder :: "route_opts \<Rightarrow> ('f, 'r) baked_route \<Rightarrow> ('f, 'r) methods \<Rightarrow> ('f, 'r) methods" where
  "wire_responder opts spec ms =
     (case br_responder spec of None \<Rightarrow> ms
      | Some s \<Rightarrow> wire_all (wired_methods spec (rs_methods s))
          (GuardResponder (rs_ingress s) (rs_handler s) (rs_terminalStyle s) (rs_readBody s) opts) ms)"

text \<open>The native route is compiled only when a method is left to wire it to, and compiling may throw.\<close>

definition wire_native :: "native_transport \<Rightarrow> route_opts \<Rightarrow> ('f, 'r) baked_route \<Rightarrow> ('f, 'r) methods \<Rightarrow> ('f, 'r) methods result" where
  "wire_native nt opts spec ms =
     (case br_native spec of None \<Rightarrow> Inr ms
      | Some s \<Rightarrow>
          (let names = wired_methods spec (ns_methods s)
           in if 0 < length names
              then rbind (createNativeRoute nt (ns_plan s)) (\<lambda>nr.
                     Inr (wire_all names (GuardNative nr (ns_handler s) (ns_readBody s) opts) ms))
              else Inr ms))"

definition primary :: "('f, 'r) baked_route \<Rightarrow> nat option" where
  "primary spec =
     (let live = (br_static spec = None)
      in case br_delete spec of Some i \<Rightarrow> Some i
         | None \<Rightarrow>
             (case (if live then (case br_read spec of Some (Inl i) \<Rightarrow> Some i | _ \<Rightarrow> None) else None) of Some i \<Rightarrow> Some i
              | None \<Rightarrow>
                  (case (if live then br_cookies spec else None) of Some i \<Rightarrow> Some i
                   | None \<Rightarrow> (case br_write spec of Some i \<Rightarrow> Some i | None \<Rightarrow> br_echo spec))))"

record server_opts =
  so_getIp :: bool
  so_copyBody :: "bool option"
  so_fallback :: "nat option"

definition route_options :: "server_opts \<Rightarrow> ('f, 'r) baked_route \<Rightarrow> route_opts" where
  "route_options so spec = \<lparr>op_getIp = so_getIp so, op_copyBody = so_copyBody so, op_maxBodyBytes = br_maxBodyBytes spec,
     op_bodyTimeoutMs = br_bodyTimeoutMs spec, op_fallback = None\<rparr>"

definition route_methods :: "native_transport \<Rightarrow> server_opts \<Rightarrow> ('f, 'r) baked_route \<Rightarrow> ('f, 'r) methods result" where
  "route_methods nt so spec =
     (let opts = route_options so spec
      in rbind (wire_native nt opts spec (wire_responder opts spec (wire_plain opts spec
                 (wire_write (so_fallback so) opts spec (wire_get opts spec []))))) (\<lambda>ms.
           Inr (case primary spec of Some i \<Rightarrow> AList.update (js ''OPTIONS'') (OptionsHandler i opts) ms | None \<Rightarrow> ms)))"

fun buildRouteHandlers :: "native_transport \<Rightarrow> server_opts \<Rightarrow> (jsstring \<times> ('f, 'r) baked_route) list
    \<Rightarrow> (jsstring \<times> ('f, 'r) methods) list result" where
  "buildRouteHandlers nt so [] = Inr []"
| "buildRouteHandlers nt so ((path, spec) # routes) =
     rbind (route_methods nt so spec) (\<lambda>ms.
       rbind (buildRouteHandlers nt so routes) (\<lambda>rs. Inr ((path, ms) # rs)))"

section \<open>The precedence of the wiring\<close>

text \<open>
  Which handler a method of a route gets, read off the table: a native route comes before a responder,
  a responder before the plain handlers, and a preflight handler before everything for \<open>OPTIONS\<close>.
\<close>

definition plain_handler :: "nat option \<Rightarrow> route_opts \<Rightarrow> ('f, 'r) baked_route \<Rightarrow> jsstring \<Rightarrow> ('f, 'r) wired option" where
  "plain_handler fallback opts spec m =
     (if m = js ''GET'' then
        (case br_static spec of
           Some (Inl f) \<Rightarrow> Some (GuardRaw f)
         | Some (Inr r) \<Rightarrow> Some (Prebuilt r)
         | None \<Rightarrow> (case (br_cookies spec, br_read spec) of
                      (Some i, _) \<Rightarrow> Some (ReadHandler i opts)
                    | (None, Some (Inl i)) \<Rightarrow> Some (ReadHandler i opts)
                    | (None, Some (Inr f)) \<Rightarrow> Some (GuardRaw f)
                    | (None, None) \<Rightarrow> None))
      else if m = js ''HEAD'' then
        (case (br_static spec, br_read spec) of (None, Some (Inl i)) \<Rightarrow> Some (HeadHandler i opts) | _ \<Rightarrow> None)
      else if m = js ''DELETE'' then map_option (\<lambda>i. DeleteHandler i opts) (br_delete spec)
      else if m = js ''POST'' \<and> br_echo spec \<noteq> None then map_option (\<lambda>i. EchoHandler i opts) (br_echo spec)
      else if m \<in> {js ''POST'', js ''PUT'', js ''PATCH''} then
        map_option (\<lambda>i. JsonWriteHandler i (opts\<lparr>op_fallback := Some (case fallback of Some g \<Rightarrow> g | None \<Rightarrow> i)\<rparr>)) (br_write spec)
      else None)"

definition responder_handler :: "nat option \<Rightarrow> route_opts \<Rightarrow> ('f, 'r) baked_route \<Rightarrow> jsstring \<Rightarrow> ('f, 'r) wired option" where
  "responder_handler fallback opts spec m =
     (case br_responder spec of
        Some t \<Rightarrow> (if m \<in> set (wired_methods spec (rs_methods t))
          then Some (GuardResponder (rs_ingress t) (rs_handler t) (rs_terminalStyle t) (rs_readBody t) opts)
          else plain_handler fallback opts spec m)
      | None \<Rightarrow> plain_handler fallback opts spec m)"

definition method_handler :: "native_transport \<Rightarrow> server_opts \<Rightarrow> ('f, 'r) baked_route \<Rightarrow> jsstring \<Rightarrow> ('f, 'r) wired option" where
  "method_handler nt so spec m =
     (let opts = route_options so spec; other = responder_handler (so_fallback so) opts spec m
      in case (if m = js ''OPTIONS'' then primary spec else None) of
           Some i \<Rightarrow> Some (OptionsHandler i opts)
         | None \<Rightarrow>
             (case br_native spec of
                Some s \<Rightarrow> (if m \<in> set (wired_methods spec (ns_methods s))
                  then (case createNativeRoute nt (ns_plan s) of
                          Inr nr \<Rightarrow> Some (GuardNative nr (ns_handler s) (ns_readBody s) opts) | Inl e \<Rightarrow> None)
                  else other)
              | None \<Rightarrow> other))"

lemma wire_all_lookup: "map_of (wire_all names w ms) m = (if m \<in> set names then Some w else map_of ms m)"
proof -
  have "map_of (fold (\<lambda>m. AList.update m w) names ms) m = (if m \<in> set names then Some w else map_of ms m)"
    by (induction names arbitrary: ms) (auto simp: update_conv')
  then show ?thesis by (simp add: wire_all_def)
qed

declare js_inject [simp]

lemma wire_get_lookup:
  "map_of (wire_get opts spec []) m =
     (case br_static spec of
        Some v \<Rightarrow> (if m = js ''GET'' then Some (case v of Inl f \<Rightarrow> GuardRaw f | Inr r \<Rightarrow> Prebuilt r) else None)
      | None \<Rightarrow>
          (case br_read spec of None \<Rightarrow> None
           | Some v \<Rightarrow>
               (if m = js ''GET'' then Some (case v of Inl i \<Rightarrow> ReadHandler i opts | Inr f \<Rightarrow> GuardRaw f)
                else if m = js ''HEAD'' then (case v of Inl i \<Rightarrow> Some (HeadHandler i opts) | Inr f \<Rightarrow> None) else None)))"
  by (auto simp: wire_get_def update_conv' split: option.split sum.split)

lemma wire_plain_lookup:
  "map_of (wire_plain opts spec (wire_write fallback opts spec (wire_get opts spec []))) m = plain_handler fallback opts spec m"
proof -
  have w: "map_of (wire_write fallback opts spec ms) m =
      (if m \<in> {js ''POST'', js ''PUT'', js ''PATCH''} \<and> br_write spec \<noteq> None
       then map_option (\<lambda>i. JsonWriteHandler i (opts\<lparr>op_fallback := Some (case fallback of Some g \<Rightarrow> g | None \<Rightarrow> i)\<rparr>)) (br_write spec)
       else map_of ms m)" for ms
    by (cases "br_write spec") (auto simp: wire_write_def Let_def update_conv')
  have p: "map_of (wire_plain opts spec ms) m =
      (if m = js ''DELETE'' \<and> br_delete spec \<noteq> None then map_option (\<lambda>i. DeleteHandler i opts) (br_delete spec)
       else if m = js ''GET'' \<and> br_cookies spec \<noteq> None \<and> br_static spec = None then map_option (\<lambda>i. ReadHandler i opts) (br_cookies spec)
       else if m = js ''POST'' \<and> br_echo spec \<noteq> None then map_option (\<lambda>i. EchoHandler i opts) (br_echo spec)
       else map_of ms m)" for ms
    by (cases "br_delete spec"; cases "br_cookies spec"; cases "br_echo spec") (auto simp: wire_plain_def Let_def update_conv')
  show ?thesis
    unfolding p w wire_get_lookup plain_handler_def
    by (cases "br_static spec"; cases "br_read spec"; cases "br_cookies spec") (auto split: sum.split)
qed

lemma wire_responder_lookup:
  "map_of (wire_responder opts spec (wire_plain opts spec (wire_write fallback opts spec (wire_get opts spec [])))) m
     = responder_handler fallback opts spec m"
  by (simp add: wire_responder_def responder_handler_def wire_all_lookup wire_plain_lookup split: option.split)

lemma route_methods_lookup:
  assumes "route_methods nt so spec = Inr ms"
  shows "map_of ms m = method_handler nt so spec m"
proof (cases "br_native spec")
  case None
  with assms show ?thesis
    by (auto simp: route_methods_def method_handler_def wire_native_def Let_def rbind_def wire_responder_lookup update_conv' split: option.split)
next
  case (Some s)
  with assms show ?thesis
    by (cases "createNativeRoute nt (ns_plan s)"; cases "wired_methods spec (ns_methods s)")
      (auto simp: route_methods_def method_handler_def wire_native_def Let_def rbind_def wire_responder_lookup wire_all_lookup update_conv' split: option.split)
qed


section \<open>The router\<close>

record ('f, 'r) router_spec =
  sp_options :: "handler_options option"
  sp_read :: bool
  sp_write :: bool
  sp_echo :: bool
  sp_cookies :: bool
  sp_delete :: bool
  sp_responder :: "('f \<times> jsstring list option \<times> bool option) option"
  sp_native :: "'f native_spec option"
  sp_terminalStyle :: "terminal_style option"
  sp_static :: "('f + 'r) option"
  sp_raw :: "'f option"
  sp_maxBodyBytes :: "nat option"
  sp_bodyTimeoutMs :: "nat option"

definition no_route :: "('f, 'r) baked_route" where
  "no_route = \<lparr>br_static = None, br_read = None, br_write = None, br_echo = None, br_cookies = None, br_delete = None,
     br_responder = None, br_native = None, br_maxBodyBytes = None, br_bodyTimeoutMs = None\<rparr>"

text \<open>A route that is served without a compiled handler.\<close>

definition promoted :: "('f, 'r) router_spec \<Rightarrow> ('f, 'r) baked_route option" where
  "promoted sp =
     (let limits = no_route\<lparr>br_maxBodyBytes := sp_maxBodyBytes sp, br_bodyTimeoutMs := sp_bodyTimeoutMs sp\<rparr>
      in case sp_static sp of Some v \<Rightarrow> Some (limits\<lparr>br_static := Some v\<rparr>)
         | None \<Rightarrow>
             (case sp_raw sp of Some f \<Rightarrow> Some (no_route\<lparr>br_read := Some (Inr f)\<rparr>)
              | None \<Rightarrow> (case sp_native sp of Some s \<Rightarrow> Some (limits\<lparr>br_native := Some s\<rparr>) | None \<Rightarrow> None)))"

definition compiled_route :: "terminal_style option \<Rightarrow> nat \<Rightarrow> ('f, 'r) router_spec \<Rightarrow> ('f, 'r) baked_route" where
  "compiled_route style i sp =
     (let limits = no_route\<lparr>br_maxBodyBytes := sp_maxBodyBytes sp, br_bodyTimeoutMs := sp_bodyTimeoutMs sp\<rparr>;
          flag = (\<lambda>b. if b then Some i else None)
      in case sp_responder sp of
           Some (f, ms, rb) \<Rightarrow>
             limits\<lparr>br_responder := Some \<lparr>rs_ingress = i, rs_handler = f, rs_methods = ms,
               rs_terminalStyle = (case sp_terminalStyle sp of Some t \<Rightarrow> Some t | None \<Rightarrow> style), rs_readBody = rb\<rparr>\<rparr>
         | None \<Rightarrow>
             limits\<lparr>br_read := map_option Inl (flag (sp_read sp)), br_write := flag (sp_write sp), br_echo := flag (sp_echo sp),
               br_cookies := flag (sp_cookies sp), br_delete := flag (sp_delete sp)\<rparr>)"

record router_options =
  ro_getIp :: bool
  ro_copyBody :: "bool option"
  ro_terminalStyle :: "terminal_style option"

definition default_options :: handler_options where
  "default_options = \<lparr>po_parseCookies = None, po_cors = False, po_trustProxy = None, po_trustedEnabled = None, po_https = None,
     ho_limit = None, ho_parseQuery = False, ho_emitMetadataJson = False, ho_allowOrigin = None\<rparr>"

text \<open>
  Compiling the routes in order; each compiled handler takes over the module state the previous one left,
  and a warning is counted for a rate limit without an address resolver.
\<close>

record compile_state =
  cs_compiled :: "(jsstring \<times> handler) list"
  cs_scratch :: pack_state
  cs_ids :: id_counter
  cs_warned :: bool
  cs_warnings :: nat

definition warnRateLimitWithoutGetIp :: "compile_state \<Rightarrow> compile_state" where
  "warnRateLimitWithoutGetIp st =
     (if cs_warned st then st else st\<lparr>cs_warned := True, cs_warnings := cs_warnings st + 1\<rparr>)"

definition compile_handler :: "router_options \<Rightarrow> runtime_options \<Rightarrow> bool \<Rightarrow> jsstring \<Rightarrow> handler_options option \<Rightarrow> compile_state
    \<Rightarrow> (nat \<times> compile_state) result" where
  "compile_handler ro ru ffi path opts st =
     (let o' = (case opts of Some x \<Rightarrow> x | None \<Rightarrow> default_options)
      in rbind (createIngressHandler o' ru ffi (cs_scratch st) (cs_ids st)) (\<lambda>h.
           let st1 = st\<lparr>cs_compiled := cs_compiled st @ [(path, h)], cs_scratch := hd_scratch h\<rparr>;
               st2 = (if rateEnabled o' \<and> \<not> ro_getIp ro then warnRateLimitWithoutGetIp st1 else st1)
           in Inr (length (cs_compiled st), st2)))"

fun compile_routes :: "router_options \<Rightarrow> runtime_options \<Rightarrow> bool \<Rightarrow> (jsstring \<times> ('f, 'r) router_spec) list \<Rightarrow> compile_state
    \<Rightarrow> ((jsstring \<times> ('f, 'r) baked_route) list \<times> compile_state) result" where
  "compile_routes ro ru ffi [] st = Inr ([], st)"
| "compile_routes ro ru ffi ((path, sp) # specs) st =
     rbind (case promoted sp of
              Some r \<Rightarrow> Inr (r, st)
            | None \<Rightarrow> rbind (compile_handler ro ru ffi path (sp_options sp) st) (\<lambda>(i, st1).
                        Inr (compiled_route (ro_terminalStyle ro) i sp, st1))) (\<lambda>(r, st1).
       rbind (compile_routes ro ru ffi specs st1) (\<lambda>(rs, st2). Inr ((path, r) # rs, st2)))"

record ('f, 'r) ingress_router =
  rt_compiled :: "(jsstring \<times> handler) list"
  rt_routes :: "(jsstring \<times> ('f, 'r) methods) list"
  rt_match :: "('f, 'r) methods path_matcher"

definition prewarm :: "run_env \<Rightarrow> (jsstring \<times> handler) list \<Rightarrow> (jsstring \<times> handler) list result" where
  "prewarm env hs =
     foldr (\<lambda>(path, h) acc.
       (case run env \<lparr>hr_method = ''GET'', hr_url = js ''http://localhost:0/prewarm'', hr_headers = (\<lambda>_. None)\<rparr>
               (Some (js ''127.0.0.1'')) None (\<lambda>_ _. [CallReturn AValue]) h of
          (Inl e, _) \<Rightarrow> Inl e
        | (Inr _, h') \<Rightarrow> rbind acc (\<lambda>hs'. Inr ((path, h') # hs')))) hs (Inr [])"

definition router_server_opts :: "router_options \<Rightarrow> server_opts" where
  "router_server_opts ro = \<lparr>so_getIp = ro_getIp ro, so_copyBody = ro_copyBody ro, so_fallback = None\<rparr>"

definition createIngressRouter :: "native_transport \<Rightarrow> run_env \<Rightarrow> router_options \<Rightarrow> runtime_options \<Rightarrow> bool \<Rightarrow> bool
    \<Rightarrow> (jsstring \<times> ('f, 'r) router_spec) list \<Rightarrow> compile_state \<Rightarrow> ('f, 'r) ingress_router result" where
  "createIngressRouter nt env ro ru ffi warmOnCreate specs st =
     rbind (compile_routes ro ru ffi specs st) (\<lambda>(bakedRoutes, st1).
       rbind (buildRouteHandlers nt (router_server_opts ro) bakedRoutes) (\<lambda>routes.
         rbind (if warmOnCreate then prewarm env (cs_compiled st1) else Inr (cs_compiled st1)) (\<lambda>compiled.
           Inr \<lparr>rt_compiled = compiled, rt_routes = routes, rt_match = buildPathMatcher routes\<rparr>)))"

section \<open>Dispatch\<close>

text \<open>
  What \<open>fetch\<close> does with a request: answer with a bare status, call a wired handler, clone a prebuilt
  response, or call a function of \<open>Object.prototype\<close> that the method name happens to name. The pathname is
  \<open>None\<close> when the request's URL does not parse.
\<close>

datatype ('f, 'r) fetched = Answer nat | Call "('f, 'r) wired" params | Clone 'r | CallInherited jsstring

fun call_wired :: "params \<Rightarrow> ('f, 'r) wired \<Rightarrow> ('f, 'r) fetched" where
  "call_wired ps (Prebuilt r) = Clone r"
| "call_wired ps w = Call w ps"

definition dispatch_method :: "('f, 'r) methods path_match \<Rightarrow> jsstring \<Rightarrow> ('f, 'r) fetched" where
  "dispatch_method m mth =
     (case map_of (pt_methods m) mth of
        Some w \<Rightarrow> call_wired (pt_params m) w
      | None \<Rightarrow>
          (if mth \<in> set object_prototype then CallInherited mth
           else case (if mth = js ''OPTIONS'' then map_of (pt_methods m) (js ''OPTIONS'') else None) of
                  Some w \<Rightarrow> Call w (pt_params m)
                | None \<Rightarrow> Answer 405))"

definition fetch :: "('f, 'r) ingress_router \<Rightarrow> jsstring option \<Rightarrow> jsstring \<Rightarrow> ('f, 'r) fetched" where
  "fetch rt pathname mth =
     (case pathname of
        None \<Rightarrow> Answer 400
      | Some p \<Rightarrow> (case match_path (rt_match rt) p of None \<Rightarrow> Answer 404 | Some m \<Rightarrow> dispatch_method m mth))"

section \<open>Which handler a request reaches\<close>

text \<open>Matching does not look at the methods of a route.\<close>

definition relabel :: "('a \<Rightarrow> 'b) \<Rightarrow> 'a dynamic_pattern \<Rightarrow> 'b dynamic_pattern" where
  "relabel f d = \<lparr>dp_segs = dp_segs d, dp_paramNames = dp_paramNames d, dp_rest = dp_rest d, dp_methods = f (dp_methods d),
     dp_staticSegments = dp_staticSegments d\<rparr>"

definition relabel_match :: "('a \<Rightarrow> 'b) \<Rightarrow> 'a path_match \<Rightarrow> 'b path_match" where
  "relabel_match f m = \<lparr>pt_methods = f (pt_methods m), pt_params = pt_params m\<rparr>"

lemma relabel_facts [simp]:
  "specificity (relabel f d) = specificity d" "re_exec (relabel f d) p = re_exec d p"
  "pattern_params (relabel f d) g = pattern_params d g" "dp_methods (relabel f d) = f (dp_methods d)"
  by (simp_all add: relabel_def specificity_def re_exec_def pattern_params_def Let_def split: list.split)

lemma compile_relabel: "compile_pattern path (f m) = relabel f (compile_pattern path m)"
  by (simp add: relabel_def compile_pattern_def Let_def)

lemma insort_relabel: "insort_key specificity (relabel f d) (map (relabel f) ds) = map (relabel f) (insort_key specificity d ds)"
  by (induction ds) auto

lemma sort_relabel: "sort_key specificity (map (relabel f) ds) = map (relabel f) (sort_key specificity ds)"
  by (induction ds) (simp_all add: insort_relabel)

lemma first_match_relabel: "first_match (map (relabel f) ds) p = map_option (relabel_match f) (first_match ds p)"
  by (induction ds) (auto simp: relabel_match_def split: option.split)

lemma update_relabel: "AList.update k (f v) (map (apsnd f) m) = map (apsnd f) (AList.update k v m)"
  by (induction m) auto

lemma fold_update_relabel:
  "fold (\<lambda>(k, v) m. AList.update k v m) (map (apsnd f) kvs) (map (apsnd f) m) = map (apsnd f) (fold (\<lambda>(k, v) m. AList.update k v m) kvs m)"
  by (induction kvs arbitrary: m) (auto simp: update_relabel)

lemma map_of_apsnd: "map_of (map (apsnd f) m) k = map_option f (map_of m k)"
  by (induction m) auto

lemma filter_apsnd: "filter (\<lambda>(k, _). P k) (map (apsnd f) xs) = map (apsnd f) (filter (\<lambda>(k, _). P k) xs)"
  by (induction xs) auto

lemma match_path_relabel:
  "match_path (buildPathMatcher (map (apsnd f) routes)) p = map_option (relabel_match f) (match_path (buildPathMatcher routes) p)"
proof -
  have d: "map (\<lambda>(path, m). compile_pattern path m) (map (apsnd f) rs) = map (relabel f) (map (\<lambda>(path, m). compile_pattern path m) rs)" for rs
    by (induction rs) (auto simp: compile_relabel)
  have e: "pm_exact (buildPathMatcher (map (apsnd f) routes)) = map (apsnd f) (pm_exact (buildPathMatcher routes))"
    using fold_update_relabel [of f _ "[]"] by (simp add: buildPathMatcher_def Let_def filter_apsnd)
  have y: "pm_dynamic (buildPathMatcher (map (apsnd f) routes)) = map (relabel f) (pm_dynamic (buildPathMatcher routes))"
    unfolding buildPathMatcher_def Let_def path_matcher.simps filter_apsnd d sort_relabel ..
  show ?thesis
    unfolding match_path_def e y map_of_apsnd first_match_relabel
    by (simp add: relabel_match_def split: option.split)
qed

lemma buildRouteHandlers_table:
  "buildRouteHandlers nt so routes = Inr table \<Longrightarrow>
     table = map (apsnd (\<lambda>spec. projr (route_methods nt so spec))) routes
     \<and> (\<forall>(path, spec) \<in> set routes. \<not> isl (route_methods nt so spec))"
  by (induction nt so routes arbitrary: table rule: buildRouteHandlers.induct)
    (auto simp: rbind_def split: sum.splits)

lemma match_path_in:
  assumes "match_path (buildPathMatcher routes) p = Some r"
  shows "\<exists>path. (path, pt_methods r) \<in> set routes"
proof (cases "map_of (pm_exact (buildPathMatcher routes)) p")
  case (Some m)
  then have "(p, m) \<in> set routes" by (auto simp: buildPathMatcher_def Let_def dest!: fold_update_in)
  with Some assms show ?thesis by (auto simp: match_path_def)
next
  case None
  let ?ds = "map (\<lambda>(path, m). compile_pattern path m) (filter (\<lambda>(path, _). is_dynamic path) routes)"
  from None assms have "first_match (sort_key specificity ?ds) p = Some r" by (simp add: match_path_def buildPathMatcher_def Let_def)
  then obtain d where "d \<in> set ?ds" "pt_methods r = dp_methods d" by (rule first_match_best)
  then show ?thesis by (auto simp: compile_pattern_def Let_def)
qed

text \<open>
  What a router does with a request. A URL that does not parse is answered 400, a path that no route
  matches 404. Otherwise the route chosen by its path alone decides: the method reaches the handler that
  the precedence of that route's wiring names, with the matched parameters (a prebuilt response is
  cloned), and a method that is not wired is answered 405, except that a method named like a function of
  \<open>Object.prototype\<close> makes the router call that function.
\<close>

theorem router_fetch_outcome:
  assumes "createIngressRouter nt env ro ru ffi warm specs st = Inr rt"
    and "compile_routes ro ru ffi specs st = Inr (baked, st1)"
  shows "fetch rt pathname mth =
    (case pathname of None \<Rightarrow> Answer 400
     | Some p \<Rightarrow>
         (case match_path (buildPathMatcher baked) p of None \<Rightarrow> Answer 404
          | Some r \<Rightarrow>
              (case method_handler nt (router_server_opts ro) (pt_methods r) mth of
                 Some w \<Rightarrow> call_wired (pt_params r) w
               | None \<Rightarrow> if mth \<in> set object_prototype then CallInherited mth else Answer 405)))"
proof (cases pathname)
  case (Some p)
  let ?so = "router_server_opts ro" and ?f = "\<lambda>spec. projr (route_methods nt (router_server_opts ro) spec)"
  obtain table where t: "buildRouteHandlers nt ?so baked = Inr table" and m: "rt_match rt = buildPathMatcher table"
    using assms by (auto simp: createIngressRouter_def rbind_def split: sum.splits)
  note tab = buildRouteHandlers_table [OF t]
  have match: "match_path (rt_match rt) p = map_option (relabel_match ?f) (match_path (buildPathMatcher baked) p)"
    using tab m match_path_relabel [of ?f baked p] by simp
  show ?thesis
  proof (cases "match_path (buildPathMatcher baked) p")
    case None
    then show ?thesis using Some match by (simp add: fetch_def)
  next
    case (Some r)
    then obtain path where "(path, pt_methods r) \<in> set baked" using match_path_in by blast
    with tab obtain ms where ms: "route_methods nt ?so (pt_methods r) = Inr ms"
      by (cases "route_methods nt ?so (pt_methods r)") auto
    then have "map_of ms mth = method_handler nt ?so (pt_methods r) mth"
      using route_methods_lookup [OF ms] by simp
    with Some ms match \<open>pathname = Some p\<close> show ?thesis
      by (auto simp: fetch_def dispatch_method_def relabel_match_def split: option.split)
  qed
qed (simp add: fetch_def)

definition sample_specs :: "(jsstring \<times> (unit, nat) router_spec) list" where
  "sample_specs = [(js ''/ok'', \<lparr>sp_options = None, sp_read = False, sp_write = False, sp_echo = False, sp_cookies = False,
     sp_delete = False, sp_responder = None, sp_native = None, sp_terminalStyle = None, sp_static = Some (Inr 7), sp_raw = None,
     sp_maxBodyBytes = None, sp_bodyTimeoutMs = None\<rparr>)]"

definition sample_transport :: native_transport where
  "sample_transport = \<lparr>nt_ffi = None, nt_napi = (\<lambda>_. None)\<rparr>"

definition sample_env :: run_env where
  "sample_env = \<lparr>re_native = \<lparr>ni_components = None, ni_ffiPacked = (\<lambda>_ _ out. (Inr 0, out)), ni_packed = (\<lambda>_ _ out. (Inr 0, out))\<rparr>,
     re_onRequest = None, re_onResponse = None, re_onError = (\<lambda>_. None)\<rparr>"

definition sample_router :: "(unit, nat) ingress_router result" where
  "sample_router = createIngressRouter sample_transport sample_env \<lparr>ro_getIp = False, ro_copyBody = None, ro_terminalStyle = None\<rparr>
     \<lparr>ru_emitRequestIdHeader = False, ru_outputBufferSize = None, ru_onRequest = False, ru_onResponse = False, ru_onError = False,
       ru_structuredLog = False, ru_logger = False, ru_maxInFlight = None, ru_zeroCopyTimeoutMs = None\<rparr> False False sample_specs
     \<lparr>cs_compiled = [], cs_scratch = \<lparr>tls = [], tlsIdx = 0, originCache = []\<rparr>, cs_ids = boot_counter 0 0, cs_warned = False, cs_warnings = 0\<rparr>"

theorem router_fetch_outcome_witness:
  "fetch (projr sample_router) (Some (js ''/ok'')) (js ''GET'') = Clone 7
   \<and> fetch (projr sample_router) (Some (js ''/ok'')) (js ''PUT'') = Answer 405
   \<and> fetch (projr sample_router) (Some (js ''/ok'')) (js ''toString'') = CallInherited (js ''toString'')"
proof -
  have r: "sample_router = Inr (projr sample_router)"
    by (simp add: sample_router_def createIngressRouter_def sample_specs_def promoted_def Let_def rbind_def route_methods_def
        wire_get_def wire_write_def wire_plain_def wire_responder_def wire_native_def primary_def no_route_def)
  note r = r [unfolded sample_router_def]
  let ?spec = "no_route\<lparr>br_static := Some (Inr 7)\<rparr> :: (unit, nat) baked_route"
  let ?ro = "\<lparr>ro_getIp = False, ro_copyBody = None, ro_terminalStyle = None\<rparr>"
  have mp: "match_path (buildPathMatcher [(js ''/ok'', x)]) (js ''/ok'') = Some \<lparr>pt_methods = x, pt_params = []\<rparr>" for x :: "(unit, nat) baked_route"
    by (simp add: buildPathMatcher_def match_path_def is_dynamic_def js_def)
  have mh: "method_handler sample_transport (router_server_opts ?ro) ?spec m = plain_handler None (route_options (router_server_opts ?ro) ?spec) ?spec m" for m
    by (simp add: method_handler_def responder_handler_def primary_def router_server_opts_def no_route_def)
  have "compile_routes ?ro ru False sample_specs st = Inr ([(js ''/ok'', ?spec)], st)" for ru st
    by (simp add: sample_specs_def promoted_def no_route_def rbind_def)
  note o = router_fetch_outcome [OF r this, where pathname = "Some (js ''/ok'')", unfolded option.case mp path_match.simps mh]
  show ?thesis unfolding sample_router_def o by (simp add: plain_handler_def no_route_def object_prototype_def)
qed

end
