(* ===== verification/Routes.thy ===== *)
theory Routes
  imports BakedResponse Router
begin

unbundle bit_operations_syntax

text \<open>
  The route factories of \<open>src/src/ingress/routes/\<close> over the request handler: what a route does with the
  result of the pipeline, which bodies it reads before, and what it answers on every path.

  A compiled handler is its request handler, its response builders and its origin cache; the handlers of
  a process are a store indexed by number, so that a fallback may be the same handler. A route's callback
  is a function of the result and the context it is given; \<open>run_seen\<close> is what the callback is called with
  and \<open>run_only_seen\<close> shows that a run depends on the callback only there. A body is read from the
  sequence of events the runtime delivers, and the store is the one at the moment the pipeline runs.
  A reply is a response, a zero-copy response over the pooled buffer, or a response over the body of the
  request itself. Each handler record carries its own copy of the process-wide request-id counter; nothing
  stated here depends on the copies being one. Lower-casing is that of the ASCII letters, which decides every
  comparison with the ASCII media types below the way \<open>toLowerCase\<close> does on a header value.
\<close>

section \<open>Running a route callback\<close>

record ingress =
  ig_handler :: handler
  ig_builders :: response_builders
  ig_cache :: origin_cache

type_synonym store = "nat \<Rightarrow> ingress"

definition seen_of :: "run_env \<Rightarrow> http_request \<Rightarrow> nat \<Rightarrow> jsstring option \<Rightarrow> bytes option \<Rightarrow> bytes \<Rightarrow> jsstring \<Rightarrow> handler
    \<Rightarrow> (ingress_result \<times> baked_context) option" where
  "seen_of env req methodKind ip body ridBytes rid st =
     (case gatherRawHeadersPacked (hr_headers req) (hc_headerPlan (hd_cfg st)) methodKind (Some (cx_origin (hd_ctx st))) (hd_scratch st) of
        Inl e \<Rightarrow> None
      | Inr (packedHeaders, sc) \<Rightarrow>
          (case native_phase env \<lparr>ri_methodKind = methodKind,
                     ri_url = (if hc_urlNeeded (hd_cfg st) then hr_url req else []),
                     ri_ip = (if hc_ipNeeded (hd_cfg st) then ip else None),
                     ri_rid = ridBytes, ri_headers = packedHeaders, ri_body = body\<rparr> rid (st\<lparr>hd_scratch := sc\<rparr>) of
             (Inl e, _, _) \<Rightarrow> None
           | (Inr _, _, st1) \<Rightarrow> Some (hd_result st1, hd_ctx st1)))"

definition run_seen :: "run_env \<Rightarrow> http_request \<Rightarrow> jsstring option \<Rightarrow> bytes option \<Rightarrow> handler \<Rightarrow> (ingress_result \<times> baked_context) option" where
  "run_seen env req ip body st0 =
     (let c = hd_cfg st0;
          methodKind = kind_of (hr_method req);
          (ridBytes, ids) = generateRequestId (hd_ids st0);
          rid = (if needRequestIdString c then node_decodeUtf8 ridBytes else []);
          ctx = \<lparr>cx_requestIdHeader = (if hc_emitRequestIdHeader c then Some rid else None),
                 cx_origin = (if pl_cors (hc_headerPlan c) then hr_headers req ''origin'' else None)\<rparr>;
          st1 = st0\<lparr>hd_ids := ids, hd_ctx := ctx\<rparr>;
          st2 = (if hc_onRequest c then emit (OnRequest rid) st1 else st1);
          st3 = st2\<lparr>hd_currentHandle := None, hd_borrows := False, hd_stream := None\<rparr>
      in case (if hc_onRequest c then re_onRequest env else None) of
           Some e \<Rightarrow> None
         | None \<Rightarrow> seen_of env req methodKind ip body ridBytes rid st3)"

text \<open>A run depends on its callback only at what the callback is called with, and throws when it is not called.\<close>

definition agrees_on :: "route_fn \<Rightarrow> route_fn \<Rightarrow> (ingress_result \<times> baked_context) option \<Rightarrow> bool" where
  "agrees_on fn fn' seen \<longleftrightarrow> (case seen of Some (r, c) \<Rightarrow> fn r c = fn' r c | None \<Rightarrow> True)"

lemma callback_only_seen: "fn (hd_result st) (hd_ctx st) = fn' (hd_result st) (hd_ctx st) \<Longrightarrow> callback_phase env rid fn st = callback_phase env rid fn' st"
  by (simp add: callback_phase_def)

lemma outer_try_seen:
  "(agrees_on fn fn' (seen_of env req mk ip body rb rid st) \<longrightarrow> outer_try env req mk ip body fn rb rid st = outer_try env req mk ip body fn' rb rid st)
   \<and> (seen_of env req mk ip body rb rid st = None \<longrightarrow> isl (fst (outer_try env req mk ip body fn rb rid st)))"
proof (cases "gatherRawHeadersPacked (hr_headers req) (hc_headerPlan (hd_cfg st)) mk (Some (cx_origin (hd_ctx st))) (hd_scratch st)")
  case (Inl e)
  then show ?thesis by (simp add: outer_try_def seen_of_def)
next
  case g: (Inr ps)
  obtain ph sc where ps: "ps = (ph, sc)" by fastforce
  let ?ri = "\<lparr>ri_methodKind = mk, ri_url = (if hc_urlNeeded (hd_cfg st) then hr_url req else []),
     ri_ip = (if hc_ipNeeded (hd_cfg st) then ip else None), ri_rid = rb, ri_headers = ph, ri_body = body\<rparr>"
  obtain r h st1 where n: "native_phase env ?ri rid (st\<lparr>hd_scratch := sc\<rparr>) = (r, h, st1)" by (metis prod_cases3)
  show ?thesis
  proof (cases r)
    case (Inl e)
    then show ?thesis unfolding outer_try_def seen_of_def g ps sum.case prod.case Let_def n by simp
  next
    case (Inr u)
    have s: "seen_of env req mk ip body rb rid st = Some (hd_result st1, hd_ctx st1)"
      unfolding seen_of_def g ps sum.case prod.case n Inr by (rule refl)
    have o: "outer_try env req mk ip body f rb rid st = (let (out, st2) = callback_phase env rid f st1 in (out, h, st2))" for f
      unfolding outer_try_def g ps sum.case prod.case Let_def n Inr by (rule refl)
    show ?thesis unfolding s o agrees_on_def option.case prod.case
      using callback_only_seen [of fn st1 fn' env rid] by auto
  qed
qed

lemma run_body_seen:
  "(agrees_on fn fn' (seen_of env req mk ip body rb rid st) \<longrightarrow> run_body env req mk ip body fn rb rid st = run_body env req mk ip body fn' rb rid st)
   \<and> (seen_of env req mk ip body rb rid st = None \<longrightarrow> isl (fst (run_body env req mk ip body fn rb rid st)))"
proof -
  obtain r h st1 where o: "outer_try env req mk ip body fn rb rid st = (r, h, st1)" by (metis prod_cases3)
  show ?thesis
    using outer_try_seen [of fn fn' env req mk ip body rb rid st]
    unfolding run_body_def o by (cases r) (auto split: prod.splits)
qed

lemma run_only_seen:
  "agrees_on fn fn' (run_seen env req ip body st) \<Longrightarrow> run env req ip body fn st = run env req ip body fn' st"
  "run_seen env req ip body st = None \<Longrightarrow> isl (fst (run env req ip body fn st))"
proof -
  obtain rb ids where g: "generateRequestId (hd_ids st) = (rb, ids)" by fastforce
  show "agrees_on fn fn' (run_seen env req ip body st) \<Longrightarrow> run env req ip body fn st = run env req ip body fn' st"
    unfolding run_def run_seen_def Let_def g prod.case by (auto simp: run_body_seen [THEN conjunct1, rule_format] split: option.splits)
  show "run_seen env req ip body st = None \<Longrightarrow> isl (fst (run env req ip body fn st))"
    unfolding run_def run_seen_def Let_def g prod.case using run_body_seen [THEN conjunct2, rule_format] by (auto split: option.splits)
qed

type_synonym 'a callback = "ingress_result \<Rightarrow> baked_context \<Rightarrow> origin_cache \<Rightarrow> 'a \<times> origin_cache"

definition ingress_run :: "run_env \<Rightarrow> http_request \<Rightarrow> jsstring option \<Rightarrow> bytes option \<Rightarrow> ('a \<Rightarrow> fn_step list) \<Rightarrow> (response_builders \<Rightarrow> 'a callback)
    \<Rightarrow> nat \<Rightarrow> store \<Rightarrow> 'a result \<times> store" where
  "ingress_run env req ip body steps respond i store =
     (let ig = store i; rb = ig_builders ig;
          fn = (\<lambda>r c. steps (fst (respond rb r c (ig_cache ig))))
      in case run env req ip body fn (ig_handler ig) of
           (Inl e, st) \<Rightarrow>
             (Inl e, store(i := ig\<lparr>ig_handler := st,
                ig_cache := (case run_seen env req ip body (ig_handler ig) of Some (r, c) \<Rightarrow> snd (respond rb r c (ig_cache ig)) | None \<Rightarrow> ig_cache ig)\<rparr>))
         | (Inr _, st) \<Rightarrow>
             (case run_seen env req ip body (ig_handler ig) of
                Some (r, c) \<Rightarrow> (Inr (fst (respond rb r c (ig_cache ig))),
                  store(i := ig\<lparr>ig_handler := st, ig_cache := snd (respond rb r c (ig_cache ig))\<rparr>))
              | None \<Rightarrow> (Inl (JsError ''unreachable''), store)))"

section \<open>Replies\<close>

datatype reply = Reply http_response | ZeroCopyReply nat "header list" | PassThrough nat "header list"

fun reply_status :: "reply \<Rightarrow> nat" where
  "reply_status (Reply r) = hp_status r"
| "reply_status (ZeroCopyReply s _) = s"
| "reply_status (PassThrough s _) = s"

fun reply_headers :: "reply \<Rightarrow> header list" where
  "reply_headers (Reply r) = hp_headers r"
| "reply_headers (ZeroCopyReply _ hs) = hs"
| "reply_headers (PassThrough _ hs) = hs"

fun reply_steps :: "reply \<Rightarrow> fn_step list" where
  "reply_steps (ZeroCopyReply s _) = [CallZeroCopy, CallReturn (AResponse s)]"
| "reply_steps r = [CallReturn (AResponse (reply_status r))]"

definition abortResponse :: reply where
  "abortResponse = Reply \<lparr>hp_status = 499, hp_headers = [], hp_body = None\<rparr>"

definition isAbortError :: "read_error \<Rightarrow> bool" where
  "isAbortError e \<longleftrightarrow> e = RequestAborted"

text \<open>A request as a route sees it; the address is what the configured resolver returns or throws.\<close>

record route_request =
  wr_http :: http_request
  wr_resolvedIp :: "jsstring option result"
  wr_aborted :: bool
  wr_abortedAfterRun :: bool
  wr_abortedAfterBody :: bool
  wr_body :: body_request
  wr_hasBody :: bool
  wr_contentLength :: "rat option"

definition resolveIp :: "route_request \<Rightarrow> route_opts \<Rightarrow> jsstring option result" where
  "resolveIp req opts = (if op_getIp opts then wr_resolvedIp req else Inr None)"

definition buildSuccessInit :: "response_builders \<Rightarrow> ingress_result \<Rightarrow> baked_context \<Rightarrow> origin_cache \<Rightarrow> header list \<times> origin_cache" where
  "buildSuccessInit rb result ctx cache =
     successHeaders rb (headerVariant result) (cx_requestIdHeader ctx) (cx_origin ctx) (Some (rateRemaining result))
       (secs_of (rateResetMs result)) cache"

definition runBaked :: "(response_builders \<Rightarrow> reply callback) \<Rightarrow> run_env \<Rightarrow> nat \<Rightarrow> route_opts \<Rightarrow> route_request \<Rightarrow> store \<Rightarrow> reply result \<times> store" where
  "runBaked respond env i opts req store =
     (if wr_aborted req then (Inr abortResponse, store)
      else case resolveIp req opts of
             Inl e \<Rightarrow> (Inl e, store)
           | Inr ip \<Rightarrow> ingress_run env (wr_http req) ip None reply_steps respond i store)"

section \<open>Routes without a body\<close>

text \<open>The terminal answer first; else \<open>k\<close>.\<close>

definition or_terminal :: "response_builders \<Rightarrow> ingress_result \<Rightarrow> baked_context \<Rightarrow> origin_cache \<Rightarrow> (origin_cache \<Rightarrow> reply \<times> origin_cache) \<Rightarrow> reply \<times> origin_cache" where
  "or_terminal rb result ctx cache k =
     (case terminalResponse rb result ctx cache of
        (Some t, cache1) \<Rightarrow> (Reply t, cache1)
      | (None, cache1) \<Rightarrow> k cache1)"

definition or_truncated :: "response_builders \<Rightarrow> ingress_result \<Rightarrow> baked_context \<Rightarrow> origin_cache \<Rightarrow> (origin_cache \<Rightarrow> reply \<times> origin_cache) \<Rightarrow> reply \<times> origin_cache" where
  "or_truncated rb result ctx cache k =
     (if bodyTruncated result then (let (r, cache1) = internalErrorResponse rb ctx (Some result) cache in (Reply r, cache1)) else k cache)"

definition body_reply :: "bool \<Rightarrow> response_builders \<Rightarrow> reply callback" where
  "body_reply copyBody rb result ctx cache =
     (let (hs, cache1) = buildSuccessInit rb result ctx cache
      in (if copyBody then Reply \<lparr>hp_status = 200, hp_headers = hs, hp_body = Some (bodyJson_baked True result)\<rparr>
          else ZeroCopyReply 200 hs, cache1))"

definition read_respond :: "bool \<Rightarrow> response_builders \<Rightarrow> reply callback" where
  "read_respond copyBody rb result ctx cache =
     or_terminal rb result ctx cache (\<lambda>c1. or_truncated rb result ctx c1 (\<lambda>c2. body_reply copyBody rb result ctx c2))"

definition readHandler :: "run_env \<Rightarrow> nat \<Rightarrow> route_opts \<Rightarrow> route_request \<Rightarrow> store \<Rightarrow> reply result \<times> store" where
  "readHandler env i opts req store = runBaked (read_respond (op_copyBody opts \<noteq> Some False)) env i opts req store"

definition deleteHandler :: "run_env \<Rightarrow> nat \<Rightarrow> route_opts \<Rightarrow> route_request \<Rightarrow> store \<Rightarrow> reply result \<times> store" where
  "deleteHandler = readHandler"

definition empty_reply :: "nat \<Rightarrow> response_builders \<Rightarrow> reply callback" where
  "empty_reply code rb result ctx cache =
     (let (hs, cache1) = buildSuccessInit rb result ctx cache in (Reply \<lparr>hp_status = code, hp_headers = hs, hp_body = None\<rparr>, cache1))"

definition headHandler :: "run_env \<Rightarrow> nat \<Rightarrow> route_opts \<Rightarrow> route_request \<Rightarrow> store \<Rightarrow> reply result \<times> store" where
  "headHandler env i opts req store =
     runBaked (\<lambda>rb result ctx cache. or_terminal rb result ctx cache (\<lambda>c1. or_truncated rb result ctx c1 (empty_reply 200 rb result ctx)))
       env i opts req store"

definition optionsHandler :: "run_env \<Rightarrow> nat \<Rightarrow> route_opts \<Rightarrow> route_request \<Rightarrow> store \<Rightarrow> reply result \<times> store" where
  "optionsHandler env i opts req store =
     runBaked (\<lambda>rb result ctx cache. or_terminal rb result ctx cache (empty_reply 204 rb result ctx)) env i opts req store"

definition error_reply :: "(string \<Rightarrow> string \<Rightarrow> jsstring) \<Rightarrow> nat \<Rightarrow> string \<Rightarrow> string \<Rightarrow> response_builders \<Rightarrow> reply callback" where
  "error_reply stringify code_status code message rb result ctx cache =
     (let (r, cache1) = errorResponse stringify rb (Some result) code_status code message ctx cache in (Reply r, cache1))"

definition fallbackHandler :: "(string \<Rightarrow> string \<Rightarrow> jsstring) \<Rightarrow> run_env \<Rightarrow> nat \<Rightarrow> route_opts \<Rightarrow> route_request \<Rightarrow> store \<Rightarrow> reply result \<times> store" where
  "fallbackHandler stringify env i opts req store =
     runBaked (\<lambda>rb result ctx cache. or_terminal rb result ctx cache (error_reply stringify 404 ''not_found'' ''Not found'' rb result ctx))
       env i opts req store"

section \<open>Content types\<close>

definition media_type :: "jsstring \<Rightarrow> jsstring" where
  "media_type contentType = to_lower (js_trim (takeWhile (\<lambda>c. c \<noteq> 59) contentType))"

definition SAFE_ECHO_CONTENT_TYPES :: "jsstring list" where
  "SAFE_ECHO_CONTENT_TYPES = [js ''application/json'', js ''application/octet-stream'', js ''text/plain'']"

definition safeEchoContentType :: "jsstring \<Rightarrow> jsstring" where
  "safeEchoContentType contentType =
     (if media_type contentType \<in> set SAFE_ECHO_CONTENT_TYPES then contentType else js ''application/octet-stream'')"

definition ends_with :: "jsstring \<Rightarrow> jsstring \<Rightarrow> bool" where
  "ends_with s t \<longleftrightarrow> length t \<le> length s \<and> drop (length s - length t) s = t"

definition isJsonContentType :: "jsstring \<Rightarrow> bool" where
  "isJsonContentType contentType \<longleftrightarrow>
     media_type contentType = js ''application/json'' \<or> ends_with (media_type contentType) (js ''+json'')"

definition DEFAULT_MAX_BODY_BYTES :: nat where "DEFAULT_MAX_BODY_BYTES = 1048576"
definition DEFAULT_BODY_TIMEOUT_MS :: nat where "DEFAULT_BODY_TIMEOUT_MS = 30000"

definition max_body :: "route_opts \<Rightarrow> nat" where
  "max_body opts = (case op_maxBodyBytes opts of Some n \<Rightarrow> n | None \<Rightarrow> DEFAULT_MAX_BODY_BYTES)"

definition body_timeout :: "route_opts \<Rightarrow> nat" where
  "body_timeout opts = (case op_bodyTimeoutMs opts of Some n \<Rightarrow> n | None \<Rightarrow> DEFAULT_BODY_TIMEOUT_MS)"

section \<open>Echo\<close>

text \<open>\<open>headerVariant & ~HV_JSON\<close>\<close>

definition without_json :: "nat \<Rightarrow> nat" where
  "without_json v = v - v mod 2"

definition echo_prep :: "response_builders \<Rightarrow> (reply + header list) callback" where
  "echo_prep rb result ctx cache =
     (case terminalResponse rb result ctx cache of
        (Some t, cache1) \<Rightarrow> (Inl (Reply t), cache1)
      | (None, cache1) \<Rightarrow>
          (if bodyTruncated result
           then (let (r, cache2) = internalErrorResponse rb ctx (Some result) cache1 in (Inl (Reply r), cache2))
           else (let (hs, cache2) = responseHeaders rb (without_json (headerVariant result)) (cx_requestIdHeader ctx) (cx_origin ctx)
                       (Some (rateRemaining result)) (secs_of (rateResetMs result)) None cache1
                 in (Inr hs, cache2))))"

definition withEchoHeaders :: "header list \<Rightarrow> jsstring \<Rightarrow> header list" where
  "withEchoHeaders base contentType =
     (let headers = withContentType base contentType
      in if list_ex (\<lambda>h. to_lower (fst h) = js ''x-content-type-options'') headers then headers
         else headers @ [(js ''x-content-type-options'', js ''nosniff'')])"

text \<open>After the pipeline has accepted: the declared length decides, or the body is read.\<close>

definition echo_body :: "route_opts \<Rightarrow> route_request \<Rightarrow> header list \<Rightarrow> read_event list \<Rightarrow> reply option" where
  "echo_body opts req base es =
     (let requested = safeEchoContentType (case hr_headers (wr_http req) ''content-type'' of Some c \<Rightarrow> c | None \<Rightarrow> js ''application/octet-stream'');
          fail = (\<lambda>code name. Reply \<lparr>hp_status = code, hp_headers = withEchoHeaders base (js ''application/json''), hp_body = ERROR_BODIES name\<rparr>);
          answer = (\<lambda>b. Reply \<lparr>hp_status = 200, hp_headers = withEchoHeaders base requested, hp_body = b\<rparr>)
      in case wr_contentLength req of
           Some n \<Rightarrow>
             Some (if of_nat (max_body opts) < n then fail 413 ''body_too_large''
                   else if n \<le> 0 \<or> \<not> wr_hasBody req then answer None
                   else PassThrough 200 (withEchoHeaders base requested))
         | None \<Rightarrow>
             (case readBodyWithLimit (wr_body req) (max_body opts) True (Some (body_timeout opts)) es of
                None \<Rightarrow> None
              | Some ro \<Rightarrow>
                  Some (case ro_result ro of
                          Inr b \<Rightarrow> (if wr_abortedAfterBody req then abortResponse else answer (if 0 < length b then Some b else None))
                        | Inl e \<Rightarrow>
                            (if isAbortError e then abortResponse
                             else if e = BodyTooLarge then fail 413 ''body_too_large''
                             else if e = RequestTimeout then fail 408 ''request_timeout''
                             else fail 400 ''bad_request''))))"

definition echoHandler :: "run_env \<Rightarrow> nat \<Rightarrow> route_opts \<Rightarrow> route_request \<Rightarrow> read_event list \<Rightarrow> store \<Rightarrow> reply result option \<times> store" where
  "echoHandler env i opts req es store =
     (case resolveIp req opts of
        Inl e \<Rightarrow> (Some (Inl e), store)
      | Inr ip \<Rightarrow>
          (if wr_aborted req then (Some (Inr abortResponse), store)
           else case ingress_run env (wr_http req) ip None (\<lambda>_. [CallReturn AValue]) echo_prep i store of
                  (Inl e, store1) \<Rightarrow> (Some (Inl e), store1)
                | (Inr (Inl t), store1) \<Rightarrow> (Some (Inr t), store1)
                | (Inr (Inr hs), store1) \<Rightarrow>
                    (if wr_abortedAfterRun req then (Some (Inr abortResponse), store1)
                     else (map_option Inr (echo_body opts req hs es), store1))))"

section \<open>JSON writes\<close>

definition write_respond :: "(string \<Rightarrow> string \<Rightarrow> jsstring) \<Rightarrow> (bytes \<Rightarrow> bool) \<Rightarrow> bool \<Rightarrow> bytes \<Rightarrow> response_builders \<Rightarrow> reply callback" where
  "write_respond stringify jsonValid copyBody body rb result ctx cache =
     or_terminal rb result ctx cache (\<lambda>c1. or_truncated rb result ctx c1 (\<lambda>c2.
       if bodyValidJson result
       then (if \<not> schemaValid result
             then error_reply stringify 422 ''schema_validation_failed'' ''Request body failed schema validation'' rb result ctx c2
             else body_reply copyBody rb result ctx c2)
       else if \<not> jsonValid body then error_reply stringify 400 ''invalid_json'' ''Invalid JSON body'' rb result ctx c2
       else body_reply copyBody rb result ctx c2))"

definition jsonWriteHandler :: "(string \<Rightarrow> string \<Rightarrow> jsstring) \<Rightarrow> (bytes \<Rightarrow> bool) \<Rightarrow> run_env \<Rightarrow> nat \<Rightarrow> route_opts \<Rightarrow> route_request
    \<Rightarrow> read_event list \<Rightarrow> store \<Rightarrow> reply result option \<times> store" where
  "jsonWriteHandler stringify jsonValid env i opts req es store =
     (let fallback = (case op_fallback opts of Some g \<Rightarrow> g | None \<Rightarrow> i);
          done = (\<lambda>(r, s). (Some r, s))
      in case resolveIp req opts of
           Inl e \<Rightarrow> (Some (Inl e), store)
         | Inr ip \<Rightarrow>
             (if wr_aborted req then (Some (Inr abortResponse), store)
              else if \<not> isJsonContentType (case hr_headers (wr_http req) ''content-type'' of Some c \<Rightarrow> c | None \<Rightarrow> [])
              then done (ingress_run env (wr_http req) ip None reply_steps
                     (error_reply stringify 415 ''unsupported_media_type'' ''Content-Type must be application/json'') fallback store)
              else case readBodyWithLimit (wr_body req) (max_body opts) True (Some (body_timeout opts)) es of
                     None \<Rightarrow> (None, store)
                   | Some ro \<Rightarrow>
                       (case ro_result ro of
                          Inl e \<Rightarrow>
                            (if isAbortError e then (Some (Inr abortResponse), store)
                             else let tooLarge = (e = BodyTooLarge)
                                  in done (ingress_run env (wr_http req) ip None reply_steps
                                       (\<lambda>rb result ctx cache. or_terminal rb result ctx cache
                                          (error_reply stringify (if tooLarge then 413 else 408)
                                            (if tooLarge then ''body_too_large'' else ''request_timeout'')
                                            (if tooLarge then ''Request body is too large'' else ''Request body read timed out'') rb result ctx))
                                       fallback store))
                        | Inr body \<Rightarrow>
                            (if wr_abortedAfterBody req then (Some (Inr abortResponse), store)
                             else done (ingress_run env (wr_http req) ip (Some body) reply_steps
                                    (write_respond stringify jsonValid (op_copyBody opts \<noteq> Some False) body) i store)))))"

section \<open>Responder routes\<close>

record 'j snapshot =
  sn_requestId :: jsstring
  sn_status :: nat
  sn_rateLimited :: bool
  sn_retryAfterMs :: nat
  sn_query :: 'j
  sn_cookies :: 'j
  sn_body :: bytes
  sn_ip :: "jsstring option"

text \<open>
  \<open>JSON.parse\<close> is a parameter that returns an object or nothing; \<open>empty\<close> is the empty record. The body of an
  envelope in the other style is a parameter too.
\<close>

record 'j json_env =
  je_parse :: "jsstring \<Rightarrow> 'j option"
  je_empty :: 'j
  je_envelope :: "string \<Rightarrow> nat \<Rightarrow> string \<Rightarrow> jsstring"

definition parseSection :: "'j json_env \<Rightarrow> jsstring \<Rightarrow> 'j" where
  "parseSection je json = (case je_parse je json of Some v \<Rightarrow> v | None \<Rightarrow> je_empty je)"

definition IGNEX_SECURITY_HEADERS :: "header list" where
  "IGNEX_SECURITY_HEADERS = [(js ''x-frame-options'', js ''DENY''), (js ''x-content-type-options'', js ''nosniff''), (js ''referrer-policy'', js ''no-referrer'')]"

definition ignex_envelope :: "'j json_env \<Rightarrow> string \<Rightarrow> nat \<Rightarrow> string \<Rightarrow> http_response" where
  "ignex_envelope je error code_status code = \<lparr>hp_status = code_status,
     hp_headers = header_set (js ''content-type'') (js ''application/json; charset=utf-8'') IGNEX_SECURITY_HEADERS,
     hp_body = Some (utf8_encode (je_envelope je error code_status code))\<rparr>"

definition buildIgngexTerminal :: "'j json_env \<Rightarrow> ingress_result \<Rightarrow> http_response" where
  "buildIgngexTerminal je result =
     (if isPreflight result \<and> corsAllowed result
      then \<lparr>hp_status = 204, hp_headers = IGNEX_SECURITY_HEADERS, hp_body = None\<rparr>
      else let code_status = safeTerminalStatus result
           in ignex_envelope je (errorMessage code_status (int (errorCode result))) code_status (errorCodeName (int (errorCode result))))"

datatype 'j responded = Answered reply | Responder "'j snapshot"

definition responder_respond :: "'j json_env \<Rightarrow> terminal_style \<Rightarrow> jsstring \<Rightarrow> jsstring option \<Rightarrow> bytes \<Rightarrow> response_builders
    \<Rightarrow> (http_response option \<times> 'j snapshot option) callback" where
  "responder_respond je style requestId ip body rb result ctx cache =
     (if terminal result \<or> \<not> ok result
      then (case style of
              Ignex \<Rightarrow> ((Some (buildIgngexTerminal je result), None), cache)
            | Castrum \<Rightarrow> (let (t, cache1) = terminalResponse rb result ctx cache in ((t, None), cache1)))
      else ((None, Some \<lparr>sn_requestId = requestId, sn_status = status result, sn_rateLimited = rateLimited result,
               sn_retryAfterMs = retryAfterMs result, sn_query = parseSection je (fst (queryJson result)),
               sn_cookies = parseSection je (fst (cookiesJson (snd (queryJson result)))), sn_body = body, sn_ip = ip\<rparr>), cache))"

definition run_responder :: "'j json_env \<Rightarrow> run_env \<Rightarrow> nat \<Rightarrow> terminal_style \<Rightarrow> jsstring \<Rightarrow> route_request \<Rightarrow> jsstring option \<Rightarrow> bytes option \<Rightarrow> store
    \<Rightarrow> 'j responded result \<times> store" where
  "run_responder je env i style requestId req ip body store =
     (case ingress_run env (wr_http req) ip body (\<lambda>_. [CallReturn AValue])
             (responder_respond je style requestId ip (case body of Some b \<Rightarrow> b | None \<Rightarrow> [])) i store of
        (Inl e, store1) \<Rightarrow> (Inl e, store1)
      | (Inr (Some t, _), store1) \<Rightarrow> (Inr (Answered (Reply t)), store1)
      | (Inr (None, Some s), store1) \<Rightarrow> (Inr (Responder s), store1)
      | (Inr (None, None), store1) \<Rightarrow>
          (let ig = store1 i;
               (r, cache1) = internalErrorResponse (ig_builders ig) \<lparr>cx_requestIdHeader = None, cx_origin = None\<rparr> None (ig_cache ig)
           in (Inr (Answered (Reply r)), store1(i := ig\<lparr>ig_cache := cache1\<rparr>))))"

definition nativeResponderRoute :: "'j json_env \<Rightarrow> run_env \<Rightarrow> nat \<Rightarrow> terminal_style option \<Rightarrow> bool option \<Rightarrow> route_opts \<Rightarrow> route_request
    \<Rightarrow> read_event list \<Rightarrow> store \<Rightarrow> 'j responded result option \<times> store" where
  "nativeResponderRoute je env i terminalStyle readBody opts req es store =
     (let style = (case terminalStyle of Some t \<Rightarrow> t | None \<Rightarrow> Castrum)
      in case resolveIp req opts of
           Inl e \<Rightarrow> (Some (Inl e), store)
         | Inr ip \<Rightarrow>
             (if wr_aborted req then (Some (Inr (Answered abortResponse)), store)
              else
                let (ridBytes, ids) = generateRequestId (hd_ids (ig_handler (store i)));
                    requestId = node_decodeUtf8 ridBytes;
                    store1 = store(i := (store i)\<lparr>ig_handler := (ig_handler (store i))\<lparr>hd_ids := ids\<rparr>\<rparr>);
                    proceed = (\<lambda>body. let (r, s) = run_responder je env i style requestId req ip body store1 in (Some r, s))
                in if readBody = Some True
                   then (case readBodyWithLimit (wr_body req) (max_body opts) True (Some (body_timeout opts)) es of
                           None \<Rightarrow> (None, store1)
                         | Some ro \<Rightarrow>
                             (case ro_result ro of
                                Inl e \<Rightarrow>
                                  (if isAbortError e then (Some (Inr (Answered abortResponse)), store1)
                                   else let code = (if e = RequestTimeout then 408 else if e = BodyTooLarge then 413 else 400)
                                        in (Some (Inr (Answered (Reply (ignex_envelope je ''Bad Request'' code ''BAD_REQUEST'')))), store1))
                              | Inr b \<Rightarrow> (if wr_abortedAfterBody req then (Some (Inr (Answered abortResponse)), store1) else proceed (Some b))))
                   else proceed None))"

section \<open>What a run hands to a route\<close>

lemma ingress_run_Inr:
  assumes "ingress_run env req ip body steps respond i store = (Inr x, store')"
  obtains r c where "run_seen env req ip body (ig_handler (store i)) = Some (r, c)"
    and "x = fst (respond (ig_builders (store i)) r c (ig_cache (store i)))"
  using assms by (auto simp: ingress_run_def Let_def split: prod.splits sum.splits option.splits)

lemma safe_terminal_range: "\<not> (isPreflight r \<and> corsAllowed r) \<Longrightarrow> 400 \<le> safeTerminalStatus r"
  by (auto simp: safeTerminalStatus_def statusForErrorCode_def Let_def)

lemma terminal_response_status:
  "fst (terminalResponse rb r ctx cache) = Some t \<Longrightarrow> terminal r \<and> (hp_status t = 204 \<or> 400 \<le> hp_status t)"
  using safe_terminal_range [of r] by (auto simp: terminalResponse_def Let_def split: if_splits prod.splits)

lemma terminal_response_None: "fst (terminalResponse rb r ctx cache) = None \<longleftrightarrow> \<not> terminal r"
  by (simp add: terminalResponse_def Let_def split: prod.splits)

lemma or_terminal_status:
  assumes "fst (or_terminal rb r ctx cache k) = rep" and "reply_status rep \<noteq> 204" and "reply_status rep < 400"
  shows "\<not> terminal r \<and> (\<exists>c1. rep = fst (k c1))"
proof (cases "terminalResponse rb r ctx cache")
  case (Pair t c1)
  then show ?thesis
    using assms terminal_response_status [of rb r ctx cache] terminal_response_None [of rb r ctx cache]
    by (cases t) (auto simp: or_terminal_def)
qed

lemma or_truncated_status:
  assumes "fst (or_truncated rb r ctx cache k) = rep" and "reply_status rep < 400"
  shows "\<not> bodyTruncated r \<and> rep = fst (k cache)"
  using assms by (auto simp: or_truncated_def internalErrorResponse_def Let_def split: if_splits prod.splits)

lemma error_reply_status [simp]: "reply_status (fst (error_reply f s code m rb r ctx c)) = s"
  by (simp add: error_reply_def errorResponse_def Let_def split: prod.splits)

lemma abort_status [simp]: "reply_status abortResponse = 499"
  by (simp add: abortResponse_def)

lemma write_respond_success:
  assumes "fst (write_respond f jv copyBody body rb r ctx cache) = rep" and "reply_status rep = 200"
  shows "\<not> terminal r \<and> \<not> bodyTruncated r \<and> (if bodyValidJson r then schemaValid r else jv body)"
proof -
  from or_terminal_status [OF assms(1) [unfolded write_respond_def]] assms(2)
  obtain c1 where t: "\<not> terminal r" and r: "fst (or_truncated rb r ctx c1 (\<lambda>c2.
       if bodyValidJson r then (if \<not> schemaValid r
             then error_reply f 422 ''schema_validation_failed'' ''Request body failed schema validation'' rb r ctx c2
             else body_reply copyBody rb r ctx c2)
       else if \<not> jv body then error_reply f 400 ''invalid_json'' ''Invalid JSON body'' rb r ctx c2
       else body_reply copyBody rb r ctx c2)) = rep" by auto
  from or_truncated_status [OF r] assms(2) t show ?thesis by (auto split: if_splits)
qed

lemma or_terminal_error: "400 \<le> s \<Longrightarrow> reply_status (fst (or_terminal rb r ctx cache (error_reply f s code m rb r ctx))) \<noteq> 200"
  using or_terminal_status [of rb r ctx cache "error_reply f s code m rb r ctx", OF refl] by fastforce

lemma not_json_empty: "\<not> isJsonContentType []"
  by (simp add: isJsonContentType_def media_type_def js_trim_def to_lower_def ends_with_def js_def)

text \<open>
  C19. A write route answers 200 only for a request that passed every check: the client was still there
  before and after the body was read, the content type is JSON, the body was read completely and
  within the limit, the native pipeline accepted it and its output was not truncated, and either
  the pipeline found it to be valid JSON of the schema or, where it did not look, the JSON check of the
  route passed on exactly these bytes.
\<close>

theorem write_success_checked:
  assumes "jsonWriteHandler stringify jsonValid env i opts req es store = (Some (Inr rep), store')"
    and "reply_status rep = 200"
  shows "\<not> wr_aborted req \<and> \<not> wr_abortedAfterBody req
    \<and> (\<exists>contentType. hr_headers (wr_http req) ''content-type'' = Some contentType \<and> isJsonContentType contentType)
    \<and> (\<exists>ip ro body r c. resolveIp req opts = Inr ip
         \<and> readBodyWithLimit (wr_body req) (max_body opts) True (Some (body_timeout opts)) es = Some ro
         \<and> ro_result ro = Inr body \<and> length body \<le> max_body opts
         \<and> run_seen env (wr_http req) ip (Some body) (ig_handler (store i)) = Some (r, c)
         \<and> \<not> terminal r \<and> \<not> bodyTruncated r \<and> (if bodyValidJson r then schemaValid r else jsonValid body))"
proof -
  let ?ct = "case hr_headers (wr_http req) ''content-type'' of Some c \<Rightarrow> c | None \<Rightarrow> []"
  let ?read = "readBodyWithLimit (wr_body req) (max_body opts) True (Some (body_timeout opts)) es"
  obtain ip where ip: "resolveIp req opts = Inr ip"
    using assms(1) by (cases "resolveIp req opts") (auto simp: jsonWriteHandler_def Let_def)
  have na: "\<not> wr_aborted req"
    using assms by (auto simp: jsonWriteHandler_def Let_def ip)
  have ct: "isJsonContentType ?ct"
  proof (rule ccontr)
    assume "\<not> isJsonContentType ?ct"
    with assms(1) ip na obtain s where "ingress_run env (wr_http req) ip None reply_steps
        (error_reply stringify 415 ''unsupported_media_type'' ''Content-Type must be application/json'')
        (case op_fallback opts of Some g \<Rightarrow> g | None \<Rightarrow> i) store = (Inr rep, s)"
      by (auto simp: jsonWriteHandler_def Let_def split: prod.splits)
    then show False using assms(2) by (auto elim!: ingress_run_Inr)
  qed
  obtain ro where ro: "?read = Some ro"
    using assms(1) ip na ct by (cases ?read) (auto simp: jsonWriteHandler_def Let_def)
  note w = assms(1) [unfolded jsonWriteHandler_def Let_def ip sum.case, simplified na ct ro, simplified]
  obtain body where body: "ro_result ro = Inr body"
  proof (cases "ro_result ro")
    case (Inl e)
    with w assms(2) obtain code name msg s where "ingress_run env (wr_http req) ip None reply_steps
        (\<lambda>rb result ctx cache. or_terminal rb result ctx cache (error_reply stringify code name msg rb result ctx))
        (case op_fallback opts of Some g \<Rightarrow> g | None \<Rightarrow> i) store = (Inr rep, s)" and "code \<in> {408, 413}"
      by (fastforce split: if_splits prod.splits)
    then have False using assms(2) by (auto elim!: ingress_run_Inr simp: or_terminal_error)
    then show ?thesis ..
  qed
  with w assms(2) have nb: "\<not> wr_abortedAfterBody req" and
      "ingress_run env (wr_http req) ip (Some body) reply_steps
        (write_respond stringify jsonValid (op_copyBody opts \<noteq> Some False) body) i store = (Inr rep, store')"
    by (auto split: if_splits prod.splits)
  from this(2) obtain r c where seen: "run_seen env (wr_http req) ip (Some body) (ig_handler (store i)) = Some (r, c)"
    and "rep = fst (write_respond stringify jsonValid (op_copyBody opts \<noteq> Some False) body (ig_builders (store i)) r c (ig_cache (store i)))"
    by (rule ingress_run_Inr)
  note ok = write_respond_success [OF this(2) [symmetric] assms(2)]
  have "\<exists>contentType. hr_headers (wr_http req) ''content-type'' = Some contentType \<and> isJsonContentType contentType"
    using ct by (cases "hr_headers (wr_http req) ''content-type''") (simp_all add: not_json_empty)
  moreover have "length body \<le> max_body opts" using guard_respected [OF ro body] .
  ultimately show ?thesis using na nb ip ro body seen ok by blast
qed

section \<open>An echo stays inert\<close>

definition no_content_type :: "template_params \<Rightarrow> bool" where
  "no_content_type p \<longleftrightarrow> list_all (\<lambda>h. to_lower (fst h) \<noteq> js ''content-type'') (tp_securityEntries p)"

lemma without_json_flag: "\<not> has_flag (without_json v) HV_JSON"
  by (simp add: has_flag_def without_json_def and_one_eq even_diff_nat minus_mod_eq_mult_div)

lemma plain_headers_no_content_type:
  assumes "no_content_type p" and "\<not> has_flag v HV_JSON" and "h \<in> set (plain_headers p withId v rid origin remaining reset retry)"
  shows "to_lower (fst h) \<noteq> js ''content-type''"
  using assms
  by (auto simp: no_content_type_def list_all_iff plain_headers_def extra_headers_def template_entries_def Let_def to_lower_js split: if_splits)

lemma with_echo_headers:
  assumes "\<And>h. h \<in> set base \<Longrightarrow> to_lower (fst h) \<noteq> js ''content-type''"
  shows "header_values (js ''content-type'') (withEchoHeaders base ct) = [ct]"
    and "header_values (js ''x-content-type-options'') (withEchoHeaders base ct) \<noteq> []"
proof -
  have "header_values (js ''content-type'') base = []" using assms by (intro header_values_none) (simp add: to_lower_js)
  then show "header_values (js ''content-type'') (withEchoHeaders base ct) = [ct]"
    by (simp add: withEchoHeaders_def withContentType_def Let_def to_lower_js)
  show "header_values (js ''x-content-type-options'') (withEchoHeaders base ct) \<noteq> []"
    by (auto simp: withEchoHeaders_def Let_def to_lower_js header_values_def filter_empty_conv list_ex_iff)
qed

lemma safe_echo_media: "media_type (safeEchoContentType ct) \<in> set SAFE_ECHO_CONTENT_TYPES"
proof -
  have "takeWhile (\<lambda>c. c \<noteq> 59) (js ''application/octet-stream'') = js ''application/octet-stream''" by (simp add: js_def)
  moreover have "js_trim (js ''application/octet-stream'') = js ''application/octet-stream''"
    by (rule js_trim_id) (simp_all add: js_def is_ws_def)
  ultimately have "media_type (js ''application/octet-stream'') = js ''application/octet-stream''"
    unfolding media_type_def by (simp only:) (simp add: to_lower_js)
  then show ?thesis by (simp add: safeEchoContentType_def SAFE_ECHO_CONTENT_TYPES_def)
qed

lemma echo_prep_headers:
  assumes "cache_ok p c" and "fst (echo_prep (built p withId) r ctx c) = Inr hs"
  shows "\<not> terminal r \<and> \<not> bodyTruncated r \<and>
    hs = plain_headers p withId (without_json (headerVariant r)) (cx_requestIdHeader ctx) (cx_origin ctx) (Some (rateRemaining r)) (secs_of (rateResetMs r)) None"
proof -
  have t: "\<not> terminal r" using assms(2) terminal_response_None [of "built p withId" r ctx c]
    by (auto simp: echo_prep_def split: prod.splits option.splits)
  then have e: "terminalResponse (built p withId) r ctx c = (None, c)" by (simp add: terminalResponse_def)
  obtain h c' where h: "responseHeaders (built p withId) (without_json (headerVariant r)) (cx_requestIdHeader ctx) (cx_origin ctx)
      (Some (rateRemaining r)) (secs_of (rateResetMs r)) None c = (h, c')" by fastforce
  from responseHeaders_plain [OF assms(1) h] assms(2) t show ?thesis
    by (auto simp: echo_prep_def e h split: if_splits prod.splits)
qed

lemma echo_prep_terminal:
  "fst (echo_prep rb r ctx c) = Inl t \<Longrightarrow> reply_status t = 204 \<or> 400 \<le> reply_status t"
  using terminal_response_status [of rb r ctx c]
  by (auto simp: echo_prep_def internalErrorResponse_def Let_def split: prod.splits option.splits if_splits)

lemma echo_body_200:
  assumes "echo_body opts req base es = Some rep" and "reply_status rep = 200"
  shows "(\<exists>ct. reply_headers rep = withEchoHeaders base (safeEchoContentType ct))
    \<and> (case rep of Reply h \<Rightarrow> (case hp_body h of Some b \<Rightarrow> length b \<le> max_body opts | None \<Rightarrow> True)
        | PassThrough _ _ \<Rightarrow> (case wr_contentLength req of Some n \<Rightarrow> n \<le> of_nat (max_body opts) | None \<Rightarrow> False)
        | ZeroCopyReply _ _ \<Rightarrow> False)"
proof (cases "wr_contentLength req")
  case (Some n)
  with assms show ?thesis by (auto simp: echo_body_def Let_def not_less split: if_splits)
next
  case None
  with assms(1) obtain ro where r: "readBodyWithLimit (wr_body req) (max_body opts) True (Some (body_timeout opts)) es = Some ro"
    by (auto simp: echo_body_def Let_def split: option.splits)
  show ?thesis
  proof (cases "ro_result ro")
    case (Inl e)
    with None assms r show ?thesis by (auto simp: echo_body_def Let_def split: if_splits)
  next
    case (Inr b)
    from guard_respected [OF r Inr] None Inr assms r show ?thesis by (auto simp: echo_body_def Let_def split: if_splits)
  qed
qed


section \<open>A concrete service\<close>

definition demo_store :: store where
  "demo_store = (\<lambda>_. \<lparr>ig_handler = demo_handler,
     ig_builders = buildBakedResponseBuilders (handler_templates True None None None None None) False, ig_cache = []\<rparr>)"

definition demo_opts :: route_opts where
  "demo_opts = \<lparr>op_getIp = False, op_copyBody = None, op_maxBodyBytes = Some 8, op_bodyTimeoutMs = None, op_fallback = None\<rparr>"

definition demo_request :: route_request where
  "demo_request = \<lparr>wr_http = demo_req\<lparr>hr_headers := (\<lambda>n. if n = ''content-type'' then Some (js ''application/json'') else None)\<rparr>,
     wr_resolvedIp = Inr None, wr_aborted = False, wr_abortedAfterRun = False, wr_abortedAfterBody = False,
     wr_body = \<lparr>br_aborted = False, br_signal = False, br_declared = None, br_buffered = NoBytesMethod, br_hasBody = False, br_abortedAfter = False\<rparr>,
     wr_hasBody = False, wr_contentLength = None\<rparr>"

lemma good_refresh_body: "refresh_baked good_output b 52 r = Inr (baked_of good_output b 52)"
  by (rule refresh_baked_Inr) (simp_all add: good_output_def)

lemma demo_run:
  assumes "hd_cfg st = hd_cfg demo_handler" "\<not> hd_ffiDisabled st" "acquire (hd_pool st) 52 = Inr (h, p)"
  shows "run_seen (quiet_hooks good_native) req ip body st
      = Some (baked_of good_output (case body of Some b \<Rightarrow> b | None \<Rightarrow> []) 52, \<lparr>cx_requestIdHeader = None, cx_origin = None\<rparr>)
    \<and> (v \<noteq> AThenable \<longrightarrow> fst (run (quiet_hooks good_native) req ip body (\<lambda>_ _. [CallReturn v]) st) = Inr v)"
proof -
  obtain r i where "generateRequestId (hd_ids st) = (r, i)" by force
  with assms show ?thesis
    by (simp add: run_seen_def seen_of_def demo_run_defs good_refresh_body)
qed

lemma demo_ingress_run:
  assumes v: "steps (fst (respond (ig_builders (demo_store i)) (baked_of good_output (case body of Some b \<Rightarrow> b | None \<Rightarrow> []) 52)
      \<lparr>cx_requestIdHeader = None, cx_origin = None\<rparr> [])) = [CallReturn v]" "v \<noteq> AThenable"
  shows "fst (ingress_run (quiet_hooks good_native) req ip body steps respond i demo_store) =
    Inr (fst (respond (ig_builders (demo_store i)) (baked_of good_output (case body of Some b \<Rightarrow> b | None \<Rightarrow> []) 52)
      \<lparr>cx_requestIdHeader = None, cx_origin = None\<rparr> []))"
proof -
  let ?fn = "\<lambda>r c. steps (fst (respond (ig_builders (demo_store i)) r c []))"
  obtain p where a: "acquire (hd_pool demo_handler) 52 = Inr (0, p)" using demo_acquires by blast
  note d = demo_run [OF refl demo_handler_sels(3) a, of req ip body]
  let ?r = "baked_of good_output (case body of Some b \<Rightarrow> b | None \<Rightarrow> []) 52" and ?c = "\<lparr>cx_requestIdHeader = None, cx_origin = None\<rparr>"
  have "agrees_on ?fn (\<lambda>_ _. [CallReturn v]) (run_seen (quiet_hooks good_native) req ip body demo_handler)"
    using d v(1) by (simp add: agrees_on_def)
  from run_only_seen(1) [OF this] d v(2) have "fst (run (quiet_hooks good_native) req ip body ?fn demo_handler) = Inr v" by simp
  with d show ?thesis
    by (auto simp: ingress_run_def Let_def demo_store_def split: prod.splits sum.splits)
qed

lemma baked_of_body: "baked_of buf b n = (baked_of buf [] n)\<lparr>req_body := b\<rparr>"
  by (simp add: baked_of_def Let_def)

lemma good_flags: "\<not> terminal (baked_of good_output b 52)" "\<not> bodyTruncated (baked_of good_output b 52)" "\<not> bodyValidJson (baked_of good_output b 52)"
proof -
  have "\<not> terminal (baked_of good_output [] 52) \<and> \<not> bodyTruncated (baked_of good_output [] 52) \<and> \<not> bodyValidJson (baked_of good_output [] 52)"
    by code_simp
  then show "\<not> terminal (baked_of good_output b 52)" "\<not> bodyTruncated (baked_of good_output b 52)" "\<not> bodyValidJson (baked_of good_output b 52)"
    by (simp_all add: baked_of_body [of good_output b 52])
qed

lemma media_type_json: "media_type (js ''application/json'') = js ''application/json''"
proof -
  have t: "takeWhile (\<lambda>c. c \<noteq> 59) (js ''application/json'') = js ''application/json''" by (simp add: js_def)
  have "js_trim (js ''application/json'') = js ''application/json''" by (rule js_trim_id) (simp_all add: js_def is_ws_def)
  then show ?thesis unfolding media_type_def t by (simp add: to_lower_js)
qed

theorem write_success_checked_witness:
  "\<exists>ip ro body r c. resolveIp demo_request demo_opts = Inr ip
     \<and> readBodyWithLimit (wr_body demo_request) (max_body demo_opts) True (Some (body_timeout demo_opts)) [] = Some ro
     \<and> ro_result ro = Inr body \<and> length body \<le> max_body demo_opts
     \<and> run_seen (quiet_hooks good_native) (wr_http demo_request) ip (Some body) (ig_handler (demo_store 0)) = Some (r, c)
     \<and> \<not> terminal r"
proof -
  let ?h = "jsonWriteHandler (\<lambda>_ _. []) (\<lambda>_. True) (quiet_hooks good_native) 0 demo_opts demo_request [] demo_store"
  have j: "isJsonContentType (js ''application/json'')" by (simp add: isJsonContentType_def media_type_json)
  let ?respond = "write_respond (\<lambda>_ _. []) (\<lambda>_. True) True []"
  let ?run = "ingress_run (quiet_hooks good_native) (wr_http demo_request) None (Some []) reply_steps ?respond 0 demo_store"
  obtain b where b: "fst (?respond (ig_builders (demo_store 0)) (baked_of good_output [] 52) \<lparr>cx_requestIdHeader = None, cx_origin = None\<rparr> [])
      = Reply \<lparr>hp_status = 200, hp_headers = fst b, hp_body = snd b\<rparr>"
    by (fastforce simp: write_respond_def or_terminal_def or_truncated_def terminalResponse_def body_reply_def good_flags split: prod.splits)
  then have "fst ?run = Inr (Reply \<lparr>hp_status = 200, hp_headers = fst b, hp_body = snd b\<rparr>)"
    using demo_ingress_run [of reply_steps ?respond 0 "Some []" "AResponse 200"] by simp
  moreover have "?h = (Some (fst ?run), snd ?run)"
    by (simp add: jsonWriteHandler_def demo_request_def demo_opts_def resolveIp_def j readBodyWithLimit_def plain_outcome_def split: prod.splits)
  ultimately obtain rep s where h: "?h = (Some (Inr rep), s)" and "reply_status rep = 200" by auto
  from write_success_checked [OF this] show ?thesis by blast
qed

lemma demo_builders: "ig_builders (demo_store i) = built (handler_templates True None None None None None) False" "ig_cache (demo_store i) = []"
  by (simp_all add: demo_store_def)


end
