(* ===== verification/RouteService.thy ===== *)
theory RouteService
  imports Routes
begin

text \<open>
  Routes in service: any sequence of calls of the routes of \<open>src/src/ingress/routes/\<close> over a set of handlers,
  with the buffers of zero-copy responses coming back in between, keeps every handler in order.
\<close>

section \<open>Routes in service\<close>

type_synonym configs = "nat \<Rightarrow> template_params \<times> bool"

definition ingress_ok :: "template_params \<Rightarrow> bool \<Rightarrow> ingress \<Rightarrow> bool" where
  "ingress_ok p withId ig \<longleftrightarrow> handler_ok (ig_handler ig) \<and> ig_builders ig = buildBakedResponseBuilders p withId \<and> cache_ok p (ig_cache ig)"

definition store_ok :: "configs \<Rightarrow> store \<Rightarrow> bool" where
  "store_ok cf store \<longleftrightarrow> (\<forall>i. ingress_ok (fst (cf i)) (snd (cf i)) (store i))"

text \<open>A callback that leaves the origin cache in order.\<close>

definition keeps_cache :: "(response_builders \<Rightarrow> 'a callback) \<Rightarrow> bool" where
  "keeps_cache respond \<longleftrightarrow> (\<forall>p withId r ctx c. cache_ok p c \<longrightarrow> cache_ok p (snd (respond (buildBakedResponseBuilders p withId) r ctx c)))"

lemma responseHeaders_keeps: "cache_ok p c \<Longrightarrow> cache_ok p (snd (responseHeaders (built p w) v rid o' rem rs rt c))"
  using responseHeaders_plain [of p c w v rid o' rem rs rt] by (cases "responseHeaders (built p w) v rid o' rem rs rt c") auto

lemma terminalHeaders_keeps: "cache_ok p c \<Longrightarrow> cache_ok p (snd (terminalHeaders (built p w) v ctx res c))"
  using terminalHeaders_plain [of p c w v ctx res] by (cases "terminalHeaders (built p w) v ctx res c") auto

lemma successHeaders_keeps: "cache_ok p c \<Longrightarrow> cache_ok p (snd (successHeaders (built p w) v rid o' rem rs c))"
  using originBaseEntries_ok [of p c w v "the o'"] by (auto simp: successHeaders_def Let_def split: prod.splits)

lemma terminalResponse_keeps: "cache_ok p c \<Longrightarrow> cache_ok p (snd (terminalResponse (built p w) r ctx c))"
  using responseHeaders_keeps [of p c w] terminalHeaders_keeps [of p c w]
  by (auto simp: terminalResponse_def Let_def split: prod.splits) (metis snd_conv)+

lemma internalErrorResponse_keeps: "cache_ok p c \<Longrightarrow> cache_ok p (snd (internalErrorResponse (built p w) ctx res c))"
  using terminalHeaders_keeps [of p c w "variant_of res" ctx res] by (auto simp: internalErrorResponse_def Let_def split: prod.splits)

lemma error_reply_keeps: "cache_ok p c \<Longrightarrow> cache_ok p (snd (error_reply f s code m (built p w) r ctx c))"
  using terminalHeaders_keeps [of p c w "variant_of (Some r)" ctx "Some r"] by (auto simp: error_reply_def errorResponse_def Let_def split: prod.splits)

lemma body_reply_keeps: "cache_ok p c \<Longrightarrow> cache_ok p (snd (body_reply cb (built p w) r ctx c))"
  unfolding body_reply_def buildSuccessInit_def Let_def by (auto dest: successHeaders_keeps split: prod.splits) (metis successHeaders_keeps snd_conv)

lemma empty_reply_keeps: "cache_ok p c \<Longrightarrow> cache_ok p (snd (empty_reply s (built p w) r ctx c))"
  unfolding empty_reply_def buildSuccessInit_def Let_def by (auto dest: successHeaders_keeps split: prod.splits) (metis successHeaders_keeps snd_conv)

lemma or_terminal_keeps:
  "cache_ok p c \<Longrightarrow> (\<And>c1. cache_ok p c1 \<Longrightarrow> cache_ok p (snd (k c1))) \<Longrightarrow> cache_ok p (snd (or_terminal (built p w) r ctx c k))"
  using terminalResponse_keeps [of p c w r ctx] by (auto simp: or_terminal_def split: prod.splits option.splits)

lemma or_truncated_keeps:
  "cache_ok p c \<Longrightarrow> (\<And>c1. cache_ok p c1 \<Longrightarrow> cache_ok p (snd (k c1))) \<Longrightarrow> cache_ok p (snd (or_truncated (built p w) r ctx c k))"
  using internalErrorResponse_keeps [of p c w ctx "Some r"] by (auto simp: or_truncated_def Let_def split: prod.splits)

lemmas cache_keeps = responseHeaders_keeps terminalResponse_keeps internalErrorResponse_keeps error_reply_keeps body_reply_keeps
  empty_reply_keeps or_terminal_keeps or_truncated_keeps

lemma read_keeps: "keeps_cache (read_respond cb)"
  unfolding keeps_cache_def read_respond_def by (auto intro!: cache_keeps)

lemma head_keeps: "keeps_cache (\<lambda>rb r ctx c. or_terminal rb r ctx c (\<lambda>c1. or_truncated rb r ctx c1 (empty_reply s rb r ctx)))"
  unfolding keeps_cache_def by (auto intro!: cache_keeps)

lemma options_keeps: "keeps_cache (\<lambda>rb r ctx c. or_terminal rb r ctx c (empty_reply s rb r ctx))"
  unfolding keeps_cache_def by (auto intro!: cache_keeps)

lemma terminal_error_keeps: "keeps_cache (\<lambda>rb r ctx c. or_terminal rb r ctx c (error_reply f s code m rb r ctx))"
  unfolding keeps_cache_def by (auto intro!: cache_keeps)

lemma error_keeps: "keeps_cache (error_reply f s code m)"
  unfolding keeps_cache_def by (auto intro!: cache_keeps)

lemma write_keeps: "keeps_cache (write_respond f jv cb body)"
  unfolding keeps_cache_def write_respond_def by (auto intro!: cache_keeps)

lemma echo_keeps: "keeps_cache echo_prep"
  unfolding keeps_cache_def echo_prep_def Let_def
  by (auto split: prod.splits option.splits) (metis cache_keeps(1-3) snd_conv)+

lemma responder_keeps: "keeps_cache (responder_respond je style rid ip body)"
  unfolding keeps_cache_def responder_respond_def Let_def
  by (auto split: prod.splits terminal_style.splits) (metis cache_keeps(2) snd_conv)+

lemma ingress_run_keeps:
  assumes "store_ok cf store" and "keeps_cache respond" and "ingress_run env req ip body steps respond i store = (x, store')"
  shows "store_ok cf store'"
proof -
  let ?p = "fst (cf i)" and ?w = "snd (cf i)" and ?ig = "store i"
  have ok: "ingress_ok ?p ?w ?ig" using assms(1) by (simp add: store_ok_def)
  obtain o' st where r: "run env req ip body (\<lambda>r c. steps (fst (respond (ig_builders ?ig) r c (ig_cache ?ig)))) (ig_handler ?ig) = (o', st)" by fastforce
  have h: "handler_ok st" using run_ok [OF _ r] ok by (simp add: ingress_ok_def)
  have c: "cache_ok ?p (snd (respond (ig_builders ?ig) rs cx (ig_cache ?ig)))" for rs cx
    using assms(2) ok by (simp add: keeps_cache_def ingress_ok_def)
  have "\<exists>ig'. store' = store(i := ig') \<and> ingress_ok ?p ?w ig'"
    using assms(3) r h c ok
    by (auto simp: ingress_run_def Let_def ingress_ok_def split: sum.splits option.splits intro!: exI [of _ "store' i"])
  then show ?thesis using assms(1) by (auto simp: store_ok_def)
qed

lemma runBaked_keeps:
  "store_ok cf store \<Longrightarrow> keeps_cache respond \<Longrightarrow> runBaked respond env i opts req store = (x, store') \<Longrightarrow> store_ok cf store'"
  by (auto simp: runBaked_def split: if_splits sum.splits dest: ingress_run_keeps)

lemma echo_route_keeps:
  "store_ok cf store \<Longrightarrow> echoHandler env i opts req es store = (x, store') \<Longrightarrow> store_ok cf store'"
  by (auto simp: echoHandler_def split: if_splits sum.splits prod.splits dest: ingress_run_keeps [OF _ echo_keeps])

lemma write_route_keeps:
  assumes "store_ok cf store" and "jsonWriteHandler f jv env i opts req es store = (x, store')"
  shows "store_ok cf store'"
  using assms unfolding jsonWriteHandler_def Let_def
  by (auto split: if_splits sum.splits prod.splits option.splits
      dest: ingress_run_keeps [OF _ error_keeps] ingress_run_keeps [OF _ terminal_error_keeps] ingress_run_keeps [OF _ write_keeps])

lemma run_responder_keeps:
  assumes "store_ok cf store" and "run_responder je env i style rid req ip body store = (x, store')"
  shows "store_ok cf store'"
proof -
  obtain y store1 where r: "ingress_run env (wr_http req) ip body (\<lambda>_. [CallReturn AValue])
      (responder_respond je style rid ip (case body of Some b \<Rightarrow> b | None \<Rightarrow> [])) i store = (y, store1)" by fastforce
  have s1: "store_ok cf store1" by (rule ingress_run_keeps [OF assms(1) responder_keeps r])
  then have "ingress_ok (fst (cf i)) (snd (cf i)) (store1 i)" by (simp add: store_ok_def)
  then have "ingress_ok (fst (cf i)) (snd (cf i)) ((store1 i)\<lparr>ig_cache := c\<rparr>)"
    if "internalErrorResponse (ig_builders (store1 i)) ctx None (ig_cache (store1 i)) = (h, c)" for ctx h c
    using internalErrorResponse_keeps [of "fst (cf i)" "ig_cache (store1 i)" "snd (cf i)" ctx None] that by (simp add: ingress_ok_def)
  with s1 show ?thesis using assms(2)
    by (auto simp: run_responder_def r store_ok_def Let_def split: sum.splits prod.splits option.splits)
qed

lemma responder_route_keeps:
  assumes "store_ok cf store" and "nativeResponderRoute je env i ts rb opts req es store = (x, store')"
  shows "store_ok cf store'"
proof -
  have "store_ok cf (store(i := (store i)\<lparr>ig_handler := (ig_handler (store i))\<lparr>hd_ids := ids\<rparr>\<rparr>))" for ids
    using assms(1) by (auto simp: store_ok_def ingress_ok_def handler_ok_def breaker_ok_def)
  with assms show ?thesis unfolding nativeResponderRoute_def Let_def
    by (auto split: if_splits sum.splits prod.splits option.splits dest: run_responder_keeps)
qed

inductive service_reach :: "configs \<Rightarrow> store \<Rightarrow> bool" for cf where
  sv_start: "(\<And>i. \<exists>o' ru ffi sc ids. createIngressHandler o' ru ffi sc ids = Inr (ig_handler (store i))) \<Longrightarrow>
    (\<And>i. ig_builders (store i) = buildBakedResponseBuilders (fst (cf i)) (snd (cf i)) \<and> ig_cache (store i) = []) \<Longrightarrow> service_reach cf store"
| sv_read: "service_reach cf store \<Longrightarrow> readHandler env i opts req store = (x, store') \<Longrightarrow> service_reach cf store'"
| sv_head: "service_reach cf store \<Longrightarrow> headHandler env i opts req store = (x, store') \<Longrightarrow> service_reach cf store'"
| sv_delete: "service_reach cf store \<Longrightarrow> deleteHandler env i opts req store = (x, store') \<Longrightarrow> service_reach cf store'"
| sv_options: "service_reach cf store \<Longrightarrow> optionsHandler env i opts req store = (x, store') \<Longrightarrow> service_reach cf store'"
| sv_fallback: "service_reach cf store \<Longrightarrow> fallbackHandler f env i opts req store = (x, store') \<Longrightarrow> service_reach cf store'"
| sv_echo: "service_reach cf store \<Longrightarrow> echoHandler env i opts req es store = (y, store') \<Longrightarrow> service_reach cf store'"
| sv_write: "service_reach cf store \<Longrightarrow> jsonWriteHandler f jv env i opts req es store = (y, store') \<Longrightarrow> service_reach cf store'"
| sv_responder: "service_reach cf store \<Longrightarrow> nativeResponderRoute (je :: unit json_env) env i ts rb opts req es store = (z, store') \<Longrightarrow> service_reach cf store'"
| sv_release: "service_reach cf store \<Longrightarrow> h < length (handles (hd_pool (ig_handler (store i)))) \<Longrightarrow>
    service_reach cf (store(i := (store i)\<lparr>ig_handler := (ig_handler (store i))\<lparr>hd_pool := release (hd_pool (ig_handler (store i))) h\<rparr>\<rparr>))"

lemma release_ok:
  assumes "handler_ok st" and "h < length (handles (hd_pool st))"
  shows "handler_ok (st\<lparr>hd_pool := release (hd_pool st) h\<rparr>)"
  using assms by (simp add: handler_ok_def release_live breaker_ok_def)

lemma service_reach_ok: "service_reach cf store \<Longrightarrow> store_ok cf store"
proof (induction rule: service_reach.induct)
  case (sv_start store)
  have "handler_ok (ig_handler (store i))" for i using sv_start(1) [of i] start_ok by blast
  with sv_start(2) show ?case by (simp add: store_ok_def ingress_ok_def cache_ok_def)
next
  case (sv_release store h i)
  then show ?case by (auto simp: store_ok_def ingress_ok_def release_ok)
next
  case (sv_read store env i opts req x store')
  then show ?case unfolding readHandler_def by (blast intro: runBaked_keeps read_keeps)
next
  case (sv_delete store env i opts req x store')
  then show ?case unfolding deleteHandler_def readHandler_def by (blast intro: runBaked_keeps read_keeps)
next
  case (sv_head store env i opts req x store')
  then show ?case unfolding headHandler_def by (blast intro: runBaked_keeps head_keeps)
next
  case (sv_options store env i opts req x store')
  then show ?case unfolding optionsHandler_def by (blast intro: runBaked_keeps options_keeps)
next
  case (sv_fallback store f env i opts req x store')
  then show ?case unfolding fallbackHandler_def by (blast intro: runBaked_keeps terminal_error_keeps)
qed (blast intro: echo_route_keeps write_route_keeps responder_route_keeps)+



end
