(* ===== verification/FastHeaders.thy ===== *)
theory FastHeaders
  imports Routes
begin

unbundle bit_operations_syntax

text \<open>
  Response headers of the fast path: \<open>src/src/ingress/headers/cors.ts\<close> (the precomputed CORS strings),
  \<open>headers/fast-templates.ts\<close> (the 32 templates and the per-request headers over them) and
  \<open>response/terminal.ts\<close> (the terminal answer). A header list is a \<open>Headers\<close> object in insertion order;
  a rate limit is a whole number.
\<close>

section \<open>CORS strings\<close>

record cors_static =
  cs_allowMethodsJoined :: jsstring
  cs_allowHeadersJoined :: jsstring
  cs_exposeHeadersJoined :: jsstring
  cs_maxAgeString :: "jsstring option"
  cs_isWildcard :: bool
  cs_credentials :: bool

definition joined_or :: "jsstring list option \<Rightarrow> jsstring \<Rightarrow> jsstring" where
  "joined_or v d = (case v of Some xs \<Rightarrow> (if xs \<noteq> [] then join_with (js '', '') xs else d) | None \<Rightarrow> d)"

definition cors_wildcard :: "cors_options \<Rightarrow> bool" where
  "cors_wildcard cors = (case co_allowOrigin cors of None \<Rightarrow> True | Some os \<Rightarrow> os = [] \<or> js ''*'' \<in> set os)"

definition buildCorsStaticStrings :: "cors_options option \<Rightarrow> cors_static option" where
  "buildCorsStaticStrings cors =
     map_option (\<lambda>c. \<lparr>cs_allowMethodsJoined = joined_or (co_allowMethods c) (js ''GET, HEAD, POST''),
       cs_allowHeadersJoined = joined_or (co_allowHeaders c) [],
       cs_exposeHeadersJoined = joined_or (co_exposeHeaders c) [],
       cs_maxAgeString = co_maxAge c, cs_isWildcard = cors_wildcard c, cs_credentials = co_allowCredentials c\<rparr>) cors"

section \<open>Templates\<close>

record header_template =
  ht_entries :: "header list"
  ht_needsOriginEcho :: bool
  ht_needsRateDynamic :: bool
  ht_needsRetryAfter :: bool
  ht_needsDynamicHsts :: bool

record response_context =
  rc_templates :: "header_template list"
  rc_corsStatic :: "cors_static option"
  rc_hstsValue :: "jsstring option"

record response_options =
  fo_cors :: "cors_options option"
  fo_security :: "security_options option"
  fo_https :: "bool option"
  fo_enableSecurityHeaders :: "bool option"
  fo_rateLimit :: "nat option option"

definition security_of :: "'a response_options_scheme \<Rightarrow> security_options" where
  "security_of o' = (case fo_security o' of Some s \<Rightarrow> s | None \<Rightarrow> no_security)"

definition cors_vary_pairs :: "cors_static option \<Rightarrow> header list" where
  "cors_vary_pairs cs = (case cs of None \<Rightarrow> []
     | Some c \<Rightarrow> [(js ''vary'', js ''Origin'')]
         @ (if \<not> cs_isWildcard c then [(js ''vary'', js ''Access-Control-Request-Method''), (js ''vary'', js ''Access-Control-Request-Headers'')] else []))"

definition cors_policy_pairs :: "cors_static option \<Rightarrow> header list" where
  "cors_policy_pairs cs = (case cs of None \<Rightarrow> []
     | Some c \<Rightarrow> (if cs_credentials c then [(js ''access-control-allow-credentials'', js ''true'')] else [])
         @ (if cs_exposeHeadersJoined c \<noteq> [] then [(js ''access-control-expose-headers'', cs_exposeHeadersJoined c)] else []))"

definition cors_preflight_pairs :: "cors_static option \<Rightarrow> header list" where
  "cors_preflight_pairs cs = (case cs of None \<Rightarrow> []
     | Some c \<Rightarrow> [(js ''access-control-allow-methods'', cs_allowMethodsJoined c)]
         @ (if cs_allowHeadersJoined c \<noteq> [] then [(js ''access-control-allow-headers'', cs_allowHeadersJoined c)] else [])
         @ truthy_entry (js ''access-control-max-age'') (cs_maxAgeString c))"

definition rate_limit_ceiling :: "nat option option \<Rightarrow> header list" where
  "rate_limit_ceiling rl = (case rl of Some (Some n) \<Rightarrow> (if 0 < n then [(js ''x-ratelimit-limit'', dec n)] else []) | _ \<Rightarrow> [])"

definition fast_template :: "'a response_options_scheme \<Rightarrow> nat \<Rightarrow> header_template" where
  "fast_template o' variant =
     (let securityEnabled = (fo_enableSecurityHeaders o' \<noteq> Some False);
          corsStatic = buildCorsStaticStrings (fo_cors o');
          hstsIsDynamic = (fo_https o' = None \<and> buildHstsValue (security_of o') \<noteq> None);
          securityPairs = buildSecurityPairs (Some (security_of o')) (fo_https o') securityEnabled;
          isCorsSimple = has_flag variant HV_CORS_SIMPLE;
          isCorsPreflight = has_flag variant HV_CORS_PREFLIGHT;
          isRateActive = has_flag variant HV_RATE_ACTIVE;
          isRateLimited = has_flag variant HV_RATE_LIMITED
      in \<lparr>ht_entries = (if securityEnabled then securityPairs else [])
            @ cors_vary_pairs corsStatic
            @ (if isCorsSimple \<or> isCorsPreflight then cors_policy_pairs corsStatic else [])
            @ (if isCorsPreflight then cors_preflight_pairs corsStatic else [])
            @ (if isRateActive then rate_limit_ceiling (fo_rateLimit o') else []),
          ht_needsOriginEcho = (isCorsSimple \<or> isCorsPreflight),
          ht_needsRateDynamic = isRateActive,
          ht_needsRetryAfter = isRateLimited,
          ht_needsDynamicHsts = hstsIsDynamic\<rparr>)"

definition buildHeaderTemplates :: "'a response_options_scheme \<Rightarrow> header_template list" where
  "buildHeaderTemplates o' = map (fast_template o') [0..<32]"

definition buildResponseContext :: "'a response_options_scheme \<Rightarrow> response_context" where
  "buildResponseContext o' = \<lparr>rc_templates = buildHeaderTemplates o', rc_corsStatic = buildCorsStaticStrings (fo_cors o'),
     rc_hstsValue = buildHstsValue (security_of o')\<rparr>"

section \<open>Headers of one response\<close>

definition EMPTY_HEADER_TEMPLATE :: header_template where
  "EMPTY_HEADER_TEMPLATE = \<lparr>ht_entries = [], ht_needsOriginEcho = False, ht_needsRateDynamic = False,
     ht_needsRetryAfter = False, ht_needsDynamicHsts = False\<rparr>"

definition pick_template :: "header_template list \<Rightarrow> nat \<Rightarrow> header_template" where
  "pick_template ts v = (if v mod 32 < length ts then ts ! (v mod 32) else if 0 < length ts then ts ! 0 else EMPTY_HEADER_TEMPLATE)"

definition set_if :: "bool \<Rightarrow> jsstring \<Rightarrow> jsstring \<Rightarrow> header list \<Rightarrow> header list" where
  "set_if c name v hs = (if c then header_set name v hs else hs)"

definition headersForResult :: "response_context \<Rightarrow> 'a fast_result_scheme \<Rightarrow> req_headers \<Rightarrow> jsstring \<Rightarrow> header list" where
  "headersForResult ctx r req requestId =
     (let template = pick_template (rc_templates ctx) (headerVariant r);
          h0 = ht_entries template;
          h1 = set_if (requestId \<noteq> []) (js ''x-request-id'') requestId h0;
          h2 = (case (rc_corsStatic ctx, req ''origin'') of
                  (Some cs, Some origin) \<Rightarrow>
                    set_if (ht_needsOriginEcho template \<and> corsAllowed r \<and> origin \<noteq> []) (js ''access-control-allow-origin'')
                      (if cs_isWildcard cs \<and> \<not> cs_credentials cs then js ''*'' else origin) h1
                | _ \<Rightarrow> h1);
          h3 = set_if (ht_needsRateDynamic template) (js ''x-ratelimit-remaining'') (dec (rateRemaining r)) h2;
          h4 = set_if (ht_needsRateDynamic template \<and> 0 < rateResetMs r) (js ''x-ratelimit-reset'') (dec (secondsFromMs (rateResetMs r))) h3;
          h5 = set_if (ht_needsRetryAfter template \<and> 0 < retryAfterMs r) (js ''retry-after'') (dec (max 1 (secondsFromMs (retryAfterMs r)))) h4
      in case rc_hstsValue ctx of
           Some v \<Rightarrow> set_if (ht_needsDynamicHsts template \<and> f_https r \<and> v \<noteq> []) (js ''strict-transport-security'') v h5
         | None \<Rightarrow> h5)"

section \<open>Terminal answers\<close>

text \<open>\<open>JSON.stringify\<close> of a string: control characters and lone surrogates are escaped.\<close>

definition hex_unit :: "nat \<Rightarrow> code_unit" where
  "hex_unit n = (if n < 10 then of_nat (48 + n) else of_nat (87 + n))"

definition json_unit :: "code_unit \<Rightarrow> jsstring" where
  "json_unit c =
     (if c = 34 \<or> c = 92 then [92, c]
      else if c = 8 then js [CHR 0x5C, CHR ''b''] else if c = 9 then js [CHR 0x5C, CHR ''t'']
      else if c = 10 then js [CHR 0x5C, CHR ''n''] else if c = 12 then js [CHR 0x5C, CHR ''f'']
      else if c = 13 then js [CHR 0x5C, CHR ''r'']
      else if unat c < 32 \<or> is_high c \<or> is_low c
      then [92, 117] @ map (\<lambda>k. hex_unit (unat c div 16 ^ k mod 16)) [3, 2, 1, 0]
      else [c])"

fun json_units :: "jsstring \<Rightarrow> jsstring" where
  "json_units [] = []"
| "json_units [c] = json_unit c"
| "json_units (c # d # cs) = (if is_high c \<and> is_low d then c # d # json_units cs else json_unit c @ json_units (d # cs))"

definition json_string :: "jsstring \<Rightarrow> jsstring" where
  "json_string s = [34] @ json_units s @ [34]"

definition terminal_payload :: "nat \<Rightarrow> int \<Rightarrow> jsstring \<Rightarrow> jsstring" where
  "terminal_payload code_status errCode requestId =
     js ''{'' @ json_string (js ''error'') @ js '':{'' @ json_string (js ''code'') @ js '':'' @ json_string (js (errorCodeName errCode))
     @ js '','' @ json_string (js ''status'') @ js '':'' @ dec code_status
     @ js '','' @ json_string (js ''message'') @ js '':'' @ json_string (js (errorMessage code_status errCode))
     @ (if requestId \<noteq> [] then js '','' @ json_string (js ''requestId'') @ js '':'' @ json_string requestId else [])
     @ js ''}}''"

text \<open>
  \<open>safeTerminalStatus\<close> and the answer for a result whose error code is \<open>errCode\<close>: that of a decoded result is
  a byte, that of a context built without the native side may be the negative timeout code.
\<close>

definition terminal_status :: "int \<Rightarrow> 'a ingress_result_scheme \<Rightarrow> nat" where
  "terminal_status errCode r =
     (if isPreflight r \<and> corsAllowed r then 204
      else let s = normalizeResponseStatus (status r) errCode False
           in if 400 \<le> s then s else if errCode \<noteq> ERR_CODE_NONE then statusForErrorCode errCode False else 500)"

lemma terminal_status_decoded: "terminal_status (int (errorCode r)) r = safeTerminalStatus r"
  by (simp add: terminal_status_def safeTerminalStatus_def)

definition buildTerminalResponse :: "response_context \<Rightarrow> 'a fast_result_scheme \<Rightarrow> int \<Rightarrow> req_headers \<Rightarrow> jsstring \<Rightarrow> http_response option" where
  "buildTerminalResponse ctx r errCode req requestId =
     (if \<not> terminal r then None
      else let headers = headersForResult ctx r req requestId
           in if isPreflight r \<and> corsAllowed r then Some \<lparr>hp_status = 204, hp_headers = headers, hp_body = None\<rparr>
              else let code_status = terminal_status errCode r
                   in Some \<lparr>hp_status = code_status,
                        hp_headers = header_set (js ''cache-control'') (js ''no-store'')
                          (header_set (js ''content-type'') (js ''application/json; charset=utf-8'') headers),
                        hp_body = Some (utf8_encode (terminal_payload code_status errCode requestId))\<rparr>)"

section \<open>What the headers say\<close>

lemma pick_built: "pick_template (rc_templates (buildResponseContext o')) v = fast_template o' (v mod 32)"
  by (simp add: pick_template_def buildResponseContext_def buildHeaderTemplates_def)

lemma values_set_if: "header_values n (set_if c m v hs) = (if c \<and> to_lower n = to_lower m then [v] else header_values n hs)"
  by (simp add: set_if_def header_values_set)

definition security_names :: "string list" where
  "security_names = [''x-content-type-options'', ''x-frame-options'', ''referrer-policy'', ''x-xss-protection'', ''content-security-policy'',
     ''cross-origin-embedder-policy'', ''cross-origin-opener-policy'', ''cross-origin-resource-policy'']"

definition cors_names :: "string list" where
  "cors_names = [''vary'', ''access-control-allow-credentials'', ''access-control-expose-headers'', ''access-control-allow-methods'',
     ''access-control-allow-headers'', ''access-control-max-age'', ''x-ratelimit-limit'']"

definition hsts_entry :: "'a response_options_scheme \<Rightarrow> header list" where
  "hsts_entry o' = (if fo_enableSecurityHeaders o' \<noteq> Some False \<and> fo_https o' = Some True
     then (case buildHstsValue (security_of o') of Some v \<Rightarrow> [(js ''strict-transport-security'', v)] | None \<Rightarrow> []) else [])"

lemma truthy_name: "h \<in> set (truthy_entry n v) \<Longrightarrow> fst h = n"
  by (auto simp: truthy_entry_def split: option.splits if_splits)

lemma security_pairs_split:
  "\<exists>pre. buildSecurityPairs (Some sec) https enabled = pre @ (case buildHstsValue sec of
      Some v \<Rightarrow> (if enabled \<and> https = Some True then [(js ''strict-transport-security'', v)] else []) | None \<Rightarrow> [])
    \<and> fst ` set pre \<subseteq> js ` set security_names"
proof (cases enabled)
  case True
  have n: "fst ` set (truthy_entry (js m) v) \<subseteq> js ` set security_names" if "m \<in> set security_names" for m v
    using that truthy_name by fastforce
  let ?pre = "(if sec_nosniff sec \<noteq> Some False then [(js ''x-content-type-options'', js ''nosniff'')] else [])
            @ [(js ''x-frame-options'', case sec_frameOptions sec of Some f \<Rightarrow> f | None \<Rightarrow> js ''DENY''),
               (js ''referrer-policy'', case sec_referrerPolicy sec of Some p \<Rightarrow> p | None \<Rightarrow> js ''no-referrer'')]
            @ truthy_entry (js ''x-xss-protection'') (sec_xssProtection sec)
            @ truthy_entry (js ''content-security-policy'') (sec_contentSecurityPolicy sec)
            @ truthy_entry (js ''cross-origin-embedder-policy'') (sec_coep sec)
            @ truthy_entry (js ''cross-origin-opener-policy'') (sec_coop sec)
            @ truthy_entry (js ''cross-origin-resource-policy'') (sec_corp sec)"
  have "fst ` set ?pre \<subseteq> js ` set security_names"
    unfolding set_append image_Un by (intro Un_least n) (auto simp: security_names_def)
  moreover have "buildSecurityPairs (Some sec) https enabled = ?pre @ (case buildHstsValue sec of
      Some v \<Rightarrow> (if enabled \<and> https = Some True then [(js ''strict-transport-security'', v)] else []) | None \<Rightarrow> [])"
    using True by (simp add: buildSecurityPairs_def split: option.split)
  ultimately show ?thesis by blast
qed (auto simp: buildSecurityPairs_def split: option.split)

lemma cors_pair_names:
  "fst ` set (cors_vary_pairs cs) \<subseteq> js ` set cors_names" "fst ` set (cors_policy_pairs cs) \<subseteq> js ` set cors_names"
  "fst ` set (cors_preflight_pairs cs) \<subseteq> js ` set cors_names" "fst ` set (rate_limit_ceiling rl) \<subseteq> js ` set cors_names"
  by (auto simp: cors_vary_pairs_def cors_policy_pairs_def cors_preflight_pairs_def rate_limit_ceiling_def cors_names_def
      dest: truthy_name split: option.splits if_splits)

lemma if_names: "fst ` set xs \<subseteq> N \<Longrightarrow> fst ` set (if b then xs else []) \<subseteq> N"
  by (cases b) simp_all

lemma fast_template_split:
  "\<exists>pre post. ht_entries (fast_template o' v) = pre @ hsts_entry o' @ post
    \<and> fst ` set (pre @ post) \<subseteq> js ` set (security_names @ cors_names)"
proof -
  let ?en = "fo_enableSecurityHeaders o' \<noteq> Some False" and ?cs = "buildCorsStaticStrings (fo_cors o')"
  obtain pre where b: "buildSecurityPairs (Some (security_of o')) (fo_https o') ?en = pre @ (case buildHstsValue (security_of o') of
      Some v \<Rightarrow> (if ?en \<and> fo_https o' = Some True then [(js ''strict-transport-security'', v)] else []) | None \<Rightarrow> [])"
    and n: "fst ` set pre \<subseteq> js ` set security_names" using security_pairs_split by blast
  let ?pre = "if ?en then pre else []"
  let ?post = "cors_vary_pairs ?cs @ (if has_flag v HV_CORS_SIMPLE \<or> has_flag v HV_CORS_PREFLIGHT then cors_policy_pairs ?cs else [])
     @ (if has_flag v HV_CORS_PREFLIGHT then cors_preflight_pairs ?cs else []) @ (if has_flag v HV_RATE_ACTIVE then rate_limit_ceiling (fo_rateLimit o') else [])"
  have "fst ` set ?post \<subseteq> js ` set cors_names" unfolding set_append image_Un by (intro Un_least if_names cors_pair_names)
  then have "fst ` set (?pre @ ?post) \<subseteq> js ` set (security_names @ cors_names)" using n by auto
  moreover have "ht_entries (fast_template o' v) = ?pre @ hsts_entry o' @ ?post"
    unfolding fast_template_def Let_def hsts_entry_def header_template.simps using b
    by (cases ?en) (simp_all split: option.split)
  ultimately show ?thesis by blast
qed

lemma lower_names: "n \<in> set (security_names @ cors_names) \<Longrightarrow> to_lower (js n) = js n"
  by (rule to_lower_js) (auto simp: security_names_def cors_names_def)

lemma values_outside:
  assumes "fst ` set hs \<subseteq> js ` set (security_names @ cors_names)" and "n \<notin> set (security_names @ cors_names)" "to_lower (js n) = js n"
  shows "header_values (js n) hs = []"
proof (rule header_values_none)
  fix h assume "h \<in> set hs"
  then obtain m where "fst h = js m" "m \<in> set (security_names @ cors_names)" using assms(1) by blast
  with assms(2,3) lower_names show "to_lower (fst h) \<noteq> to_lower (js n)" by (metis js_inject)
qed

lemma template_values:
  assumes "n \<notin> set (security_names @ cors_names)" "to_lower (js n) = js n"
  shows "header_values (js n) (ht_entries (fast_template o' v)) = header_values (js n) (hsts_entry o')"
proof -
  obtain pre post where "ht_entries (fast_template o' v) = pre @ hsts_entry o' @ post"
    and "fst ` set (pre @ post) \<subseteq> js ` set (security_names @ cors_names)" using fast_template_split by blast
  then show ?thesis using values_outside [OF _ assms, of pre] values_outside [OF _ assms, of post] by (simp add: image_Un)
qed

lemma hsts_values: "header_values (js ''strict-transport-security'') (hsts_entry o') = map snd (hsts_entry o')"
  by (simp add: hsts_entry_def split: option.split)

lemma hsts_nonempty: "buildHstsValue sec = Some v \<Longrightarrow> v \<noteq> []"
  by (auto simp: buildHstsValue_def js_def split: if_splits)

lemma dynamic_lower: "n \<in> {''x-request-id'', ''access-control-allow-origin'', ''x-ratelimit-remaining'', ''x-ratelimit-reset'', ''retry-after'',
    ''strict-transport-security'', ''content-type'', ''cache-control''} \<Longrightarrow> to_lower (js n) = js n"
  by (rule to_lower_js) auto

lemma dynamic_not_static: "n \<in> {''x-request-id'', ''access-control-allow-origin'', ''x-ratelimit-remaining'', ''x-ratelimit-reset'', ''retry-after'',
    ''strict-transport-security'', ''content-type'', ''cache-control''} \<Longrightarrow> n \<notin> set (security_names @ cors_names)"
  by (auto simp: security_names_def cors_names_def)

lemma dynamic_values:
  assumes "n \<in> {''x-request-id'', ''access-control-allow-origin'', ''x-ratelimit-remaining'', ''x-ratelimit-reset'', ''retry-after''}"
  shows "header_values (js n) (ht_entries (fast_template o' v)) = []"
proof -
  have "header_values (js n) (ht_entries (fast_template o' v)) = header_values (js n) (hsts_entry o')"
    using assms by (intro template_values dynamic_lower dynamic_not_static) auto
  moreover have "js ''strict-transport-security'' \<noteq> js n" using assms by (auto simp: js_inject)
  then have "to_lower (js ''strict-transport-security'') \<noteq> to_lower (js n)"
    using assms by (subst (1 2) dynamic_lower) auto
  then have "header_values (js n) (hsts_entry o') = []" by (simp add: hsts_entry_def split: option.split)
  ultimately show ?thesis by simp
qed

lemma lower_literals:
  "to_lower (js ''x-request-id'') = js ''x-request-id''"
  "to_lower (js ''access-control-allow-origin'') = js ''access-control-allow-origin''"
  "to_lower (js ''x-ratelimit-remaining'') = js ''x-ratelimit-remaining''"
  "to_lower (js ''x-ratelimit-reset'') = js ''x-ratelimit-reset''"
  "to_lower (js ''retry-after'') = js ''retry-after''"
  "to_lower (js ''strict-transport-security'') = js ''strict-transport-security''"
  by (simp_all add: dynamic_lower)

lemma dynamic_literals:
  "header_values (js ''x-request-id'') (ht_entries (fast_template o' v)) = []"
  "header_values (js ''access-control-allow-origin'') (ht_entries (fast_template o' v)) = []"
  "header_values (js ''x-ratelimit-remaining'') (ht_entries (fast_template o' v)) = []"
  "header_values (js ''x-ratelimit-reset'') (ht_entries (fast_template o' v)) = []"
  "header_values (js ''retry-after'') (ht_entries (fast_template o' v)) = []"
  by (simp_all add: dynamic_values)

lemma hsts_literal:
  "header_values (js ''strict-transport-security'') (ht_entries (fast_template o' v)) = map snd (hsts_entry o')"
  unfolding hsts_values [symmetric] by (intro template_values dynamic_lower dynamic_not_static) simp_all

lemmas dynamic_simps = dynamic_literals hsts_literal lower_literals js_inject values_set_if

lemma fast_template_needs:
  "ht_needsOriginEcho (fast_template o' v) = (has_flag v HV_CORS_SIMPLE \<or> has_flag v HV_CORS_PREFLIGHT)"
  "ht_needsRateDynamic (fast_template o' v) = has_flag v HV_RATE_ACTIVE" "ht_needsRetryAfter (fast_template o' v) = has_flag v HV_RATE_LIMITED"
  "ht_needsDynamicHsts (fast_template o' v) = (fo_https o' = None \<and> buildHstsValue (security_of o') \<noteq> None)"
  by (simp_all add: fast_template_def Let_def)

lemma context_parts:
  "rc_corsStatic (buildResponseContext o') = buildCorsStaticStrings (fo_cors o')"
  "rc_hstsValue (buildResponseContext o') = buildHstsValue (security_of o')"
  by (simp_all add: buildResponseContext_def)

lemmas fast_header_simps = headersForResult_def Let_def pick_built fast_template_needs context_parts dynamic_simps buildCorsStaticStrings_def

lemma fast_origin_header:
  "header_values (js ''access-control-allow-origin'') (headersForResult (buildResponseContext o') r req rid) =
     (case (fo_cors o', req ''origin'') of
        (Some c, Some origin) \<Rightarrow>
          (if (has_flag (headerVariant r mod 32) HV_CORS_SIMPLE \<or> has_flag (headerVariant r mod 32) HV_CORS_PREFLIGHT) \<and> corsAllowed r \<and> origin \<noteq> []
           then [if cors_wildcard c \<and> \<not> co_allowCredentials c then js ''*'' else origin] else [])
      | _ \<Rightarrow> [])"
  by (simp add: fast_header_simps split: option.split)

text \<open>
  C25. The fast path's headers are exactly what the options and the verdict call for, whatever the template
  holds: the request id once when there is one; the origin answered only to an allowed cross-origin
  request, as a star only for an open policy without credentials; the rate counters on rate-limited
  routes; a retry time of at least one second; and strict transport security when the scheme is
  secure, which an option fixes or each request decides, in the latter case also with the security
  headers switched off.
\<close>

theorem fast_headers_exact:
  "let hs = headersForResult (buildResponseContext o') r req rid; v = headerVariant r mod 32
   in header_values (js ''x-request-id'') hs = (if rid \<noteq> [] then [rid] else [])
    \<and> header_values (js ''access-control-allow-origin'') hs =
        (case (fo_cors o', req ''origin'') of
           (Some c, Some origin) \<Rightarrow>
             (if (has_flag v HV_CORS_SIMPLE \<or> has_flag v HV_CORS_PREFLIGHT) \<and> corsAllowed r \<and> origin \<noteq> []
              then [if cors_wildcard c \<and> \<not> co_allowCredentials c then js ''*'' else origin] else [])
         | _ \<Rightarrow> [])
    \<and> header_values (js ''x-ratelimit-remaining'') hs = (if has_flag v HV_RATE_ACTIVE then [dec (rateRemaining r)] else [])
    \<and> header_values (js ''x-ratelimit-reset'') hs =
        (if has_flag v HV_RATE_ACTIVE \<and> 0 < rateResetMs r then [dec (secondsFromMs (rateResetMs r))] else [])
    \<and> header_values (js ''retry-after'') hs =
        (if has_flag v HV_RATE_LIMITED \<and> 0 < retryAfterMs r then [dec (max 1 (secondsFromMs (retryAfterMs r)))] else [])
    \<and> header_values (js ''strict-transport-security'') hs =
        (case buildHstsValue (security_of o') of
           Some val \<Rightarrow> (if (if fo_https o' = None then f_https r else fo_https o' = Some True \<and> fo_enableSecurityHeaders o' \<noteq> Some False)
                       then [val] else [])
         | None \<Rightarrow> [])"
proof -
  have n: "buildHstsValue (security_of o') \<noteq> Some []" using hsts_nonempty by blast
  show ?thesis
    unfolding Let_def
    by (intro conjI fast_origin_header) (use n in \<open>auto simp: fast_header_simps hsts_entry_def split: option.split\<close>)
qed

end
