(* ===== verification/FastIngress.thy ===== *)
theory FastIngress
  imports FastHeaders
begin

unbundle bit_operations_syntax

text \<open>
  The fast path: \<open>src/src/ingress/options.ts\<close> (option checks), \<open>fast.ts\<close> (the packed-input handler over
  one reused buffer and one reused result), \<open>sync.ts\<close> and \<open>context.ts\<close> (the synchronous wrapper and the
  asynchronous ingress that reads the body and returns a context).

  The options are the object as it is passed, for the checks, and the fields the code reads from it. The
  native constructor and the native call are arguments. A callback is what it does with the decoded
  result: return a value, return a thenable, or throw; it does not call back into the same handler.
  Configured header values are legal ones, and console warnings are left out.
\<close>

section \<open>Options\<close>

datatype js_number = NumNaN | NumInfinite bool | Num rat

datatype opt_value = VNum js_number | VObj "(string \<times> opt_value) list" | VOther

definition KNOWN_INGRESS_OPTION_KEYS :: "string list" where
  "KNOWN_INGRESS_OPTION_KEYS = [''trustProxy'', ''trustedProxies'', ''parseCookies'', ''parseQuery'', ''requireJsonBody'', ''schema'',
     ''cors'', ''rateLimit'', ''security'', ''https'', ''maxBodyBytes'', ''enableSecurityHeaders'', ''enableRequestIds'',
     ''enableBodySizeGuard'', ''emitMetadataJson'', ''readBody'', ''outputBufferSize'', ''bodyTimeoutMs'', ''onError'',
     ''onRequest'', ''onResponse'', ''limits'', ''warmOnCreate'']"

fun assertKnownIngressOptions :: "(string \<times> opt_value) list \<Rightarrow> string \<Rightarrow> unit result" where
  "assertKnownIngressOptions [] label = Inr ()"
| "assertKnownIngressOptions ((key, v) # kvs) label =
     (if key \<notin> set KNOWN_INGRESS_OPTION_KEYS then Inl (TypeError (label @ '': unknown option '' @ key))
      else assertKnownIngressOptions kvs label)"

text \<open>A path is an option and, for a nested one, the name inside it.\<close>

definition NON_NEGATIVE_NUMBER_OPTIONS :: "(string \<times> string option) list" where
  "NON_NEGATIVE_NUMBER_OPTIONS = [(''maxBodyBytes'', None), (''bodyTimeoutMs'', None), (''outputBufferSize'', None),
     (''rateLimit'', Some ''limit''), (''rateLimit'', Some ''windowMs''), (''rateLimit'', Some ''maxEntries''),
     (''limits'', Some ''maxUrlBytes''), (''limits'', Some ''maxQueryBytes''), (''limits'', Some ''maxCookieBytes''),
     (''limits'', Some ''maxHeadersBytes''), (''limits'', Some ''maxHeaders''), (''limits'', Some ''maxPairs'')]"

fun bad_number :: "opt_value option \<Rightarrow> bool" where
  "bad_number (Some (VNum (Num q))) = (q < 0)"
| "bad_number (Some (VNum _)) = True"
| "bad_number _ = False"

definition assertNonNegativeNumber :: "opt_value option \<Rightarrow> string \<Rightarrow> string \<Rightarrow> unit result" where
  "assertNonNegativeNumber v path label =
     (if bad_number v then Inl (TypeError (label @ '': option '' @ path @ '' must be a finite, non-negative number'')) else Inr ())"

definition option_at :: "(string \<times> opt_value) list \<Rightarrow> string \<times> string option \<Rightarrow> opt_value option" where
  "option_at kvs p =
     (case snd p of
        None \<Rightarrow> map_of kvs (fst p)
      | Some inner \<Rightarrow> (case map_of kvs (fst p) of Some (VObj obj) \<Rightarrow> map_of obj inner | _ \<Rightarrow> None))"

definition path_name :: "string \<times> string option \<Rightarrow> string" where
  "path_name p = fst p @ (case snd p of Some inner \<Rightarrow> ''.'' @ inner | None \<Rightarrow> [])"

fun assert_values :: "(string \<times> string option) list \<Rightarrow> (string \<times> opt_value) list \<Rightarrow> string \<Rightarrow> unit result" where
  "assert_values [] kvs label = Inr ()"
| "assert_values (p # ps) kvs label =
     rbind (assertNonNegativeNumber (option_at kvs p) (path_name p) label) (\<lambda>_. assert_values ps kvs label)"

definition assertIngressOptionValues :: "(string \<times> opt_value) list \<Rightarrow> string \<Rightarrow> unit result" where
  "assertIngressOptionValues kvs label = assert_values NON_NEGATIVE_NUMBER_OPTIONS kvs label"

section \<open>The fast handler\<close>

record fast_options = response_options +
  fo_raw :: "(string \<times> opt_value) list"
  fo_parseCookies :: "bool option"
  fo_trustProxy :: "bool option"
  fo_trustedEnabled :: "bool option"
  fo_outputBufferSize :: "rat option"
  fo_onError :: bool

record fast_handler =
  fh_plan :: header_plan
  fh_ffi :: bool
  fh_onError :: bool
  fh_output :: bytes
  fh_scratch :: pack_state
  fh_packer :: input_packer
  fh_result :: fast_result

definition DEFAULT_FAST_OUTPUT_BUFFER_SIZE :: nat where "DEFAULT_FAST_OUTPUT_BUFFER_SIZE = 262144"

text \<open>The state of a new \<open>FastIngressResult\<close>, which is also that of an invalidated one.\<close>

definition new_fast_result :: fast_result where
  "new_fast_result = invalidate_fast \<lparr>verdict = 0, errorCode = 0, status = 0, headerVariant = 0, rateRemaining = 0,
     rateResetMs = 0, retryAfterMs = 0, terminal = True, ok = False, isPreflight = False, corsAllowed = False,
     rateLimited = False, trustedProxy = False, bodyValidJson = False, schemaValid = False, bodyTruncated = False,
     req_body = [], r_buf = [], r_len = 0, r_bodyJsonStart = OUT_DATA_START, r_bodyJsonLen = 0, r_cookiesBuf = None,
     r_queryBuf = None, r_cookiesDecoded = None, r_queryDecoded = None, f_flags = 0, f_https = False, f_hasCookies = False,
     f_hasQuery = False, f_rateLimit = 0, f_requestId = []\<rparr>"

definition createIngressFast :: "'a fast_options_scheme \<Rightarrow> unit result \<Rightarrow> bool \<Rightarrow> pack_state \<Rightarrow> fast_handler result" where
  "createIngressFast o' made ffi scratch =
     rbind (assertKnownIngressOptions (fo_raw o') ''createIngressFast'') (\<lambda>_.
     rbind (assertIngressOptionValues (fo_raw o') ''createIngressFast'') (\<lambda>_.
     if fo_security o' \<noteq> None \<or> fo_enableSecurityHeaders o' \<noteq> None
     then Inl (TypeError ''createIngressFast: security / enableSecurityHeaders are not supported on the raw fast path'')
     else rbind made (\<lambda>_.
       Inr \<lparr>fh_plan = buildHeaderPlan \<lparr>po_parseCookies = fo_parseCookies o', po_cors = (fo_cors o' \<noteq> None),
              po_trustProxy = fo_trustProxy o', po_trustedEnabled = fo_trustedEnabled o', po_https = fo_https o'\<rparr>,
            fh_ffi = ffi, fh_onError = fo_onError o',
            fh_output = new_buf (nat (clampIngressBufferSize
              (case fo_outputBufferSize o' of Some s \<Rightarrow> s | None \<Rightarrow> of_nat DEFAULT_FAST_OUTPUT_BUFFER_SIZE) OUT_DATA_START)),
            fh_scratch = scratch, fh_packer = new_packer 65536, fh_result = new_fast_result\<rparr>)))"

datatype 'a fn_out = FnThrow js_error | FnThenable | FnValue 'a

definition sync_result :: "string \<Rightarrow> 'a fn_out \<Rightarrow> 'a result" where
  "sync_result label out =
     (case out of FnThrow e \<Rightarrow> Inl e | FnThenable \<Rightarrow> Inl (JsError (label @ '' callback must be synchronous.'')) | FnValue x \<Rightarrow> Inr x)"

text \<open>The \<open>try\<close> block of \<open>run\<close>: pack, call, decode.\<close>

definition fast_native :: "native_ingress \<Rightarrow> http_request \<Rightarrow> jsstring option \<Rightarrow> bytes option \<Rightarrow> jsstring \<Rightarrow> fast_handler \<Rightarrow> unit result \<times> fast_handler" where
  "fast_native ni req ip body requestId st =
     (case packHeaders (hr_headers req) (hr_method req) (fh_plan st) (fh_scratch st) of
        Inl e \<Rightarrow> (Inl e, st)
      | Inr (headers, sc) \<Rightarrow>
          (case packFromStrings (kind_of (hr_method req)) (hr_url req) ip (Some requestId) headers (fh_packer st) of
             Inl e \<Rightarrow> (Inl e, st\<lparr>fh_scratch := sc\<rparr>)
           | Inr (input, p) \<Rightarrow>
               (let (r, contents) = (if fh_ffi st then ni_ffiPacked ni else ni_packed ni) input body (fh_output st);
                    st1 = st\<lparr>fh_scratch := sc, fh_packer := p, fh_output := contents\<rparr>
                in case r of
                     Inl e \<Rightarrow> (Inl e, st1)
                   | Inr written \<Rightarrow>
                       (case refresh_fast (subarray contents 0 written) (case body of Some b \<Rightarrow> b | None \<Rightarrow> []) requestId (fh_result st) of
                          Inl e \<Rightarrow> (Inl e, st1)
                        | Inr r' \<Rightarrow> (Inr (), st1\<lparr>fh_result := r'\<rparr>)))))"

text \<open>The answer of the callback, whether \<open>onError\<close> was called (what it throws is swallowed), and the state.\<close>

definition fast_run :: "native_ingress \<Rightarrow> http_request \<Rightarrow> jsstring option \<Rightarrow> bytes option \<Rightarrow> jsstring \<Rightarrow> (fast_result \<Rightarrow> 'a fn_out)
    \<Rightarrow> fast_handler \<Rightarrow> 'a result \<times> bool \<times> fast_handler" where
  "fast_run ni req ip body requestId fn st =
     (let (failed, st1) = (case fast_native ni req ip body requestId st of
            (Inl e, st1) \<Rightarrow> (True, st1\<lparr>fh_result := setInternalError_fast requestId (fh_result st1)\<rparr>)
          | (Inr _, st1) \<Rightarrow> (False, st1))
      in (sync_result ''createIngressFast().run()'' (fn (fh_result st1)), failed \<and> fh_onError st1,
          st1\<lparr>fh_result := invalidate_fast (fh_result st1)\<rparr>))"

section \<open>The synchronous wrapper\<close>

text \<open>A thrown check inside the wrapped callback is a throw of the callback.\<close>

definition sync_run :: "native_ingress \<Rightarrow> http_request \<Rightarrow> jsstring option \<Rightarrow> bytes option \<Rightarrow> jsstring \<Rightarrow> (fast_result \<Rightarrow> 'a fn_out)
    \<Rightarrow> fast_handler \<Rightarrow> 'a result \<times> bool \<times> fast_handler" where
  "sync_run ni req ip body requestId fn =
     fast_run ni req ip body requestId
       (\<lambda>r. case sync_result ''createIngressSync().run()'' (fn r) of Inl e \<Rightarrow> FnThrow e | Inr x \<Rightarrow> FnValue x)"

section \<open>Contexts\<close>

text \<open>
  A snapshot has the public fields of a result and the values its accessors return; it has no
  buffers, so these fields of the record are those of an invalidated result. Its error code is
  \<open>ic_errorCode\<close>, which may be the negative timeout code.
\<close>

record ingress_context = fast_result +
  ic_errorCode :: int
  ic_cookiesJson :: jsstring
  ic_queryJson :: jsstring
  ic_bodyJson :: bytes
  ic_response :: "http_response option"

definition without_views :: "fast_result \<Rightarrow> fast_result" where
  "without_views r = r\<lparr>r_buf := [], r_len := 0, r_bodyJsonStart := OUT_DATA_START, r_bodyJsonLen := 0, r_cookiesBuf := None,
     r_queryBuf := None, r_cookiesDecoded := None, r_queryDecoded := None\<rparr>"

definition snapshotResult :: "fast_result \<Rightarrow> ingress_context" where
  "snapshotResult r = fast_result.extend (without_views r) \<lparr>ic_errorCode = int (errorCode r), ic_cookiesJson = fst (cookiesJson r), ic_queryJson = fst (queryJson r),
     ic_bodyJson = bodyJsonSlice r, ic_response = None\<rparr>"

record ingress_options = fast_options +
  io_readBody :: "bool option"
  io_requireJsonBody :: "bool option"
  io_schema :: bool
  io_enableBodySizeGuard :: "bool option"
  io_maxBodyBytes :: "nat option"
  io_bodyTimeoutMs :: "nat option"
  io_enableRequestIds :: "bool option"
  io_onRequest :: bool
  io_onResponse :: bool

definition staticCorsAllowed :: "'a response_options_scheme \<Rightarrow> req_headers \<Rightarrow> bool" where
  "staticCorsAllowed o' req =
     (case (fo_cors o', req ''origin'') of
        (Some cors, Some origin) \<Rightarrow>
          origin \<noteq> [] \<and>
          (case co_allowOrigin cors of
             None \<Rightarrow> \<not> co_allowCredentials cors
           | Some list \<Rightarrow> (if list = [] \<or> js ''*'' \<in> set list then \<not> co_allowCredentials cors else origin \<in> set list))
      | _ \<Rightarrow> False)"

definition syntheticContext :: "req_headers \<Rightarrow> jsstring \<Rightarrow> 'a fast_options_scheme \<Rightarrow> response_context \<Rightarrow> nat \<Rightarrow> int \<Rightarrow> ingress_context" where
  "syntheticContext req requestId o' responseCtx code_status errCode =
     (let allowed = staticCorsAllowed o' req;
          base = fast_result.extend (new_fast_result\<lparr>status := code_status, verdict := 1, f_flags := 0, errorCode := nat errCode,
            terminal := True, ok := False, f_https := (fo_https o' = Some True),
            trustedProxy := (fo_trustProxy o' = Some True \<or> fo_trustedEnabled o' = Some True),
            corsAllowed := allowed, rateLimited := (errCode = ERR_CODE_RATE_LIMITED),
            f_rateLimit := (case fo_rateLimit o' of Some (Some n) \<Rightarrow> n | _ \<Rightarrow> 0),
            headerVariant := HV_JSON + (if allowed then HV_CORS_SIMPLE else 0), f_requestId := requestId\<rparr>)
            \<lparr>ic_errorCode = errCode, ic_cookiesJson = js ''{}'', ic_queryJson = js ''{}'', ic_bodyJson = [], ic_response = None\<rparr>
      in base\<lparr>ic_response := buildTerminalResponse responseCtx base errCode req requestId\<rparr>)"

definition internalContext :: "req_headers \<Rightarrow> jsstring \<Rightarrow> 'a fast_options_scheme \<Rightarrow> response_context \<Rightarrow> ingress_context" where
  "internalContext req requestId o' responseCtx = syntheticContext req requestId o' responseCtx 500 ERR_CODE_INTERNAL"

section \<open>The asynchronous ingress\<close>

definition stripSecurityOptions :: "ingress_options \<Rightarrow> ingress_options" where
  "stripSecurityOptions o' = o'\<lparr>fo_security := None, fo_enableSecurityHeaders := None,
     fo_raw := filter (\<lambda>kv. fst kv \<noteq> ''security'' \<and> fst kv \<noteq> ''enableSecurityHeaders'') (fo_raw o')\<rparr>"

definition body_guard :: "ingress_options \<Rightarrow> bool" where
  "body_guard o' \<longleftrightarrow> io_enableBodySizeGuard o' \<noteq> Some False"

definition body_max :: "ingress_options \<Rightarrow> nat" where
  "body_max o' = (case io_maxBodyBytes o' of Some n \<Rightarrow> n | None \<Rightarrow> DEFAULT_MAX_BODY_BYTES)"

definition wantsBody :: "ingress_options \<Rightarrow> bool" where
  "wantsBody o' \<longleftrightarrow> io_readBody o' = Some True \<or> io_requireJsonBody o' = Some True \<or> io_schema o'
     \<or> io_readBody o' \<noteq> Some False \<and> body_guard o'"

record async_request =
  aq_http :: http_request
  aq_body :: body_request
  aq_contentLength :: "rat option"

text \<open>What the hooks throw, by the number of their call; the calls made, in order.\<close>

record async_env =
  ae_native :: native_ingress
  ae_onRequest :: "js_error option"
  ae_onResponse :: "nat \<Rightarrow> js_error option"
  ae_onError :: "nat \<Rightarrow> js_error option"

datatype async_event = EvRequest jsstring | EvError | EvResponse nat

definition report_error :: "async_env \<Rightarrow> ingress_options \<Rightarrow> async_event list \<Rightarrow> unit result \<times> async_event list" where
  "report_error env o' ev =
     (if fo_onError o'
      then (case ae_onError env (count_list ev EvError) of Some e \<Rightarrow> (Inl e, ev @ [EvError]) | None \<Rightarrow> (Inr (), ev @ [EvError]))
      else (Inr (), ev))"

definition emitResponse :: "async_env \<Rightarrow> ingress_options \<Rightarrow> ingress_context \<Rightarrow> async_event list \<Rightarrow> ingress_context result \<times> async_event list" where
  "emitResponse env o' context ev =
     (if io_onResponse o'
      then (let ev' = ev @ [EvResponse (status context)]
            in case ae_onResponse env (length (filter (\<lambda>e. \<exists>n. e = EvResponse n) ev)) of Some e \<Rightarrow> (Inl e, ev') | None \<Rightarrow> (Inr context, ev'))
      else (Inr context, ev))"

definition run_stage :: "async_env \<Rightarrow> ingress_options \<Rightarrow> response_context \<Rightarrow> http_request \<Rightarrow> jsstring option \<Rightarrow> jsstring \<Rightarrow> bytes option
    \<Rightarrow> async_event list \<Rightarrow> fast_handler \<Rightarrow> ingress_context result \<times> async_event list \<times> fast_handler" where
  "run_stage env o' responseCtx req ip requestId body ev st =
     (case sync_run (ae_native env) req ip body requestId
             (\<lambda>r. let snapshot = snapshotResult r
                  in FnValue (snapshot\<lparr>ic_response := buildTerminalResponse responseCtx snapshot (ic_errorCode snapshot) (hr_headers req) requestId\<rparr>)) st of
        (res, reported, st1) \<Rightarrow>
          (let ev1 = (if reported then ev @ [EvError] else ev)
           in case res of
                Inl e \<Rightarrow> (Inl e, ev1, st1)
              | Inr context \<Rightarrow> (let (r, ev2) = emitResponse env o' context ev1 in (r, ev2, st1))))"

definition async_try :: "async_env \<Rightarrow> ingress_options \<Rightarrow> response_context \<Rightarrow> async_request \<Rightarrow> jsstring option \<Rightarrow> jsstring \<Rightarrow> read_event list
    \<Rightarrow> async_event list \<Rightarrow> fast_handler \<Rightarrow> (ingress_context result \<times> async_event list \<times> fast_handler) option" where
  "async_try env o' responseCtx req ip requestId es ev st =
     (let guard = body_guard o'; max = body_max o';
          synthetic = (\<lambda>code_status errCode.
            let (r, ev1) = emitResponse env o' (syntheticContext (hr_headers (aq_http req)) requestId o' responseCtx code_status errCode) ev
            in Some (r, ev1, st))
      in if guard \<and> (case aq_contentLength req of Some n \<Rightarrow> of_nat max < n | None \<Rightarrow> False)
         then synthetic 413 ERR_CODE_BODY_TOO_LARGE
         else if wantsBody o' \<and> br_hasBody (aq_body req)
         then (case readRequestBodyOnce (aq_body req) max guard
                      (Some (case io_bodyTimeoutMs o' of Some t \<Rightarrow> t | None \<Rightarrow> DEFAULT_BODY_TIMEOUT_MS)) es of
                 None \<Rightarrow> None
               | Some ro \<Rightarrow>
                   (case ro_result ro of
                      Inr b \<Rightarrow> Some (run_stage env o' responseCtx (aq_http req) ip requestId (Some b) ev st)
                    | Inl e \<Rightarrow>
                        (if e = BodyTooLarge then synthetic 413 ERR_CODE_BODY_TOO_LARGE
                         else if e = RequestTimeout then synthetic 408 ERR_CODE_REQUEST_TIMEOUT
                         else (case report_error env o' ev of
                                 (Inl e', ev1) \<Rightarrow> Some (Inl e', ev1, st)
                               | (Inr _, ev1) \<Rightarrow> Some (Inl (JsError ''body read failed''), ev1, st)))))
         else Some (run_stage env o' responseCtx (aq_http req) ip requestId None ev st))"

definition ingressAsync :: "async_env \<Rightarrow> ingress_options \<Rightarrow> response_context \<Rightarrow> async_request \<Rightarrow> jsstring option \<Rightarrow> read_event list
    \<Rightarrow> id_counter \<Rightarrow> fast_handler \<Rightarrow> (ingress_context result \<times> async_event list \<times> fast_handler) option \<times> id_counter" where
  "ingressAsync env o' responseCtx req ip es ids0 st =
     (let (requestId, ids) = (if io_enableRequestIds o' = Some False then ([], ids0)
            else let (b, i) = generateRequestId ids0 in (node_decodeUtf8 b, i));
          ev = (if io_onRequest o' then [EvRequest requestId] else [])
      in case (if io_onRequest o' then ae_onRequest env else None) of
           Some e \<Rightarrow> (Some (Inl e, ev, st), ids)
         | None \<Rightarrow>
             (case async_try env o' responseCtx req ip requestId es ev st of
                None \<Rightarrow> (None, ids)
              | Some (Inr context, ev1, st1) \<Rightarrow> (Some (Inr context, ev1, st1), ids)
              | Some (Inl e, ev1, st1) \<Rightarrow>
                  (case report_error env o' ev1 of
                     (Inl e', ev2) \<Rightarrow> (Some (Inl e', ev2, st1), ids)
                   | (Inr _, ev2) \<Rightarrow>
                       (let (r, ev3) = emitResponse env o' (internalContext (hr_headers (aq_http req)) requestId o' responseCtx) ev2
                        in (Some (r, ev3, st1), ids)))))"

definition createIngress :: "ingress_options \<Rightarrow> unit result \<Rightarrow> bool \<Rightarrow> pack_state \<Rightarrow> (fast_handler \<times> response_context) result" where
  "createIngress o' made ffi scratch =
     rbind (createIngressFast (stripSecurityOptions o') made ffi scratch) (\<lambda>st. Inr (st, buildResponseContext o'))"

section \<open>A run of the fast handler\<close>

lemma invalidate_new: "invalidate_fast r = new_fast_result"
  by (cases r) (simp add: new_fast_result_def invalidate_fast_def resetShared_def)

lemma internal_error_new: "setInternalError_fast requestId r = new_fast_result\<lparr>f_requestId := requestId\<rparr>"
  by (simp add: setInternalError_fast_def invalidate_new)

lemma refresh_fast_total:
  "\<exists>r'. refresh_fast buf body requestId r = Inr r' \<and> (\<forall>s. refresh_fast buf body requestId s = Inr r')"
proof (cases "length buf < OUT_DATA_START")
  case True
  then show ?thesis by (simp add: refresh_fast_def internal_error_new)
next
  case False
  then have L: "OUT_DATA_START \<le> length buf" by simp
  have "refresh_fast buf body requestId s = refresh_fast buf body requestId new_fast_result" for s
    using L
    by (cases s) (simp add: refresh_fast_def get_fld Let_def setRateWindow_Inr [OF L] updateOkTerminal_def setSections_def
        new_fast_result_def invalidate_fast_def resetShared_def)
  with refresh_fast_Inr [OF L, of body requestId new_fast_result] show ?thesis by metis
qed

text \<open>What the native side is given, what it answers, and what a fresh decoder makes of it.\<close>

definition ip_field :: "jsstring option \<Rightarrow> bytes" where
  "ip_field ip = (case ip of Some s \<Rightarrow> (if s = [] then EMPTY_IP_BYTES else utf8_encode s) | None \<Rightarrow> EMPTY_IP_BYTES)"

definition native_answer :: "native_ingress \<Rightarrow> bool \<Rightarrow> header_plan \<Rightarrow> http_request \<Rightarrow> jsstring option \<Rightarrow> bytes option \<Rightarrow> jsstring \<Rightarrow> bytes \<Rightarrow> native_call" where
  "native_answer ni ffi plan req ip body requestId out =
     (if ffi then ni_ffiPacked ni else ni_packed ni)
       (input_layout (kind_of (hr_method req)) (utf8_encode (hr_url req)) (ip_field ip) (utf8_encode requestId)
          (block_layout (forEachSelectedHeader (hr_headers req) plan (kind_of (hr_method req)) None None)))
       body out"

definition fast_view :: "native_call \<Rightarrow> bytes option \<Rightarrow> jsstring \<Rightarrow> fast_result" where
  "fast_view answer body requestId =
     (case answer of
        (Inl e, _) \<Rightarrow> new_fast_result\<lparr>f_requestId := requestId\<rparr>
      | (Inr written, contents) \<Rightarrow>
          (case refresh_fast (take written contents) (case body of Some b \<Rightarrow> b | None \<Rightarrow> []) requestId new_fast_result of
             Inr r \<Rightarrow> r | Inl e \<Rightarrow> new_fast_result\<lparr>f_requestId := requestId\<rparr>))"

definition fast_ok :: "fast_handler \<Rightarrow> bool" where
  "fast_ok st \<longleftrightarrow> pack_ok (fh_scratch st) \<and> 0 < length (ip_buf (fh_packer st)) \<and> fh_result st = new_fast_result"

lemma packFromStrings_layout:
  assumes "0 < length (ip_buf p)"
  shows "\<exists>p'. packFromStrings kind url ip (Some rid) headers p
    = Inr (input_layout kind (utf8_encode url) (ip_field ip) (utf8_encode rid) headers, p') \<and> 0 < length (ip_buf p')"
  using packed_from_fields [OF writeU8_appends writeStringLenPrefixed_appends write_ip_appends [of ip, folded ip_field_def]
      write_rid_appends [of "Some rid", simplified] writeLenPrefixed_appends assms, of kind url headers]
  by (simp add: packFromStrings_def input_layout_def)

lemma fast_run_spec:
  assumes "fast_ok st" and a_def: "a = native_answer ni (fh_ffi st) (fh_plan st) req ip body rid (fh_output st)"
  shows "\<exists>st'. fast_run ni req ip body rid fn st =
      (sync_result ''createIngressFast().run()'' (fn (fast_view a body rid)), isl (fst a) \<and> fh_onError st, st')
    \<and> fast_ok st' \<and> fh_output st' = snd a \<and> fh_plan st' = fh_plan st \<and> fh_ffi st' = fh_ffi st \<and> fh_onError st' = fh_onError st"
proof -
  let ?hs = "block_layout (forEachSelectedHeader (hr_headers req) (fh_plan st) (kind_of (hr_method req)) None None)"
  obtain sc where h: "packHeaders (hr_headers req) (hr_method req) (fh_plan st) (fh_scratch st) = Inr (?hs, sc)" "pack_ok sc"
    using packHeaders_spec assms(1) unfolding fast_ok_def by blast
  obtain p where p: "packFromStrings (kind_of (hr_method req)) (hr_url req) ip (Some rid) ?hs (fh_packer st)
      = Inr (input_layout (kind_of (hr_method req)) (utf8_encode (hr_url req)) (ip_field ip) (utf8_encode rid) ?hs, p)" "0 < length (ip_buf p)"
    using packFromStrings_layout assms(1) unfolding fast_ok_def by blast
  obtain r contents where a: "a = (r, contents)" by fastforce
  note call = a [unfolded a_def native_answer_def]
  let ?st1 = "st\<lparr>fh_scratch := sc, fh_packer := p, fh_output := contents\<rparr>"
  show ?thesis
  proof (cases r)
    case (Inl e)
    with h p call have "fast_native ni req ip body rid st = (Inl e, ?st1)" by (simp add: fast_native_def)
    with h(2) p(2) Inl a show ?thesis by (simp add: fast_run_def fast_ok_def invalidate_new internal_error_new fast_view_def)
  next
    case (Inr w)
    let ?b = "case body of Some b \<Rightarrow> b | None \<Rightarrow> []"
    obtain r' where r': "refresh_fast (take w contents) ?b rid s = Inr r'" for s using refresh_fast_total by blast
    with h p call Inr have "fast_native ni req ip body rid st = (Inr (), ?st1\<lparr>fh_result := r'\<rparr>)"
      by (simp add: fast_native_def subarray_def)
    with h(2) p(2) Inr a r' show ?thesis by (simp add: fast_run_def fast_ok_def invalidate_new fast_view_def)
  qed
qed

text \<open>
  States of a fast handler: it is created, runs requests, and the packing scratch it shares with the
  other handlers of the process may be used by them in between.
\<close>

inductive fast_reach :: "'a fast_options_scheme \<Rightarrow> fast_handler \<Rightarrow> bool" for o' where
  fr_start: "pack_reach sc \<Longrightarrow> createIngressFast o' made ffi sc = Inr st \<Longrightarrow> fast_reach o' st"
| fr_run: "fast_reach o' st \<Longrightarrow> fast_run ni req ip body rid (fn :: fast_result \<Rightarrow> unit fn_out) st = (r, reported, st') \<Longrightarrow> fast_reach o' st'"
| fr_scratch: "fast_reach o' st \<Longrightarrow> pack_reach sc \<Longrightarrow> fast_reach o' (st\<lparr>fh_scratch := sc\<rparr>)"

lemma fast_reach_ok: "fast_reach o' st \<Longrightarrow> fast_ok st"
proof (induction rule: fast_reach.induct)
  case (fr_start sc made ffi st)
  then show ?case
    by (auto simp: createIngressFast_def rbind_Inr_conv fast_ok_def pack_reach_ok new_packer_def new_buf_def split: if_splits)
next
  case (fr_run st ni req ip body rid fn r reported st')
  with fast_run_spec [OF fr_run.IH refl, of ni req ip body rid fn] show ?case by auto
next
  case (fr_scratch st sc)
  then show ?case by (simp add: fast_ok_def pack_reach_ok)
qed

text \<open>
  C23. A request on the fast path sees only itself, although buffer, packer and result object are reused for
  every request: in every state the handler can be in, the native side is handed the documented
  frame of this request, the callback sees what a fresh decoder makes of the bytes the native
  side reports to have written, or an internal error with this request's id when the call throws,
  a thrown or asynchronous callback is an error of the caller, and the result is void afterwards.
\<close>

theorem fast_run_isolated:
  assumes "fast_reach o' st"
  shows "\<exists>a st'. a = native_answer ni (fh_ffi st) (fh_plan st) req ip body rid (fh_output st)
    \<and> fast_run ni req ip body rid fn st =
      ((case fn (fast_view a body rid) of
          FnValue x \<Rightarrow> Inr x | FnThrow e \<Rightarrow> Inl e
        | FnThenable \<Rightarrow> Inl (JsError ''createIngressFast().run() callback must be synchronous.'')),
       isl (fst a) \<and> fh_onError st, st')
    \<and> fh_result st' = new_fast_result \<and> fh_output st' = snd a"
  using fast_run_spec [OF fast_reach_ok [OF assms] refl, of ni req ip body rid fn]
  by (auto simp: sync_result_def fast_ok_def split: fn_out.splits)

section \<open>What the asynchronous ingress answers\<close>

lemma fast_reach_onError: "fast_reach o' st \<Longrightarrow> fh_onError st = fo_onError o'"
proof (induction rule: fast_reach.induct)
  case (fr_start sc made ffi st)
  then show ?case by (auto simp: createIngressFast_def rbind_Inr_conv split: if_splits)
next
  case (fr_run st ni req ip body rid fn r reported st')
  with fast_run_spec [OF fast_reach_ok [OF fr_run.hyps(1)] refl, of ni req ip body rid fn] show ?case by auto
qed simp

text \<open>What reading the body gives: an error, no body, or its bytes; nothing while the client stalls without a deadline.\<close>

definition async_body :: "ingress_options \<Rightarrow> async_request \<Rightarrow> read_event list \<Rightarrow> (read_error + bytes option) option" where
  "async_body o' req es =
     (if body_guard o' \<and> (case aq_contentLength req of Some n \<Rightarrow> of_nat (body_max o') < n | None \<Rightarrow> False) then Some (Inl BodyTooLarge)
      else if wantsBody o' \<and> br_hasBody (aq_body req)
      then map_option (\<lambda>ro. case ro_result ro of Inl e \<Rightarrow> Inl e | Inr b \<Rightarrow> Inr (Some b))
             (readRequestBodyOnce (aq_body req) (body_max o') (body_guard o')
                (Some (case io_bodyTimeoutMs o' of Some t \<Rightarrow> t | None \<Rightarrow> DEFAULT_BODY_TIMEOUT_MS)) es)
      else Some (Inr None))"

definition read_error_context :: "ingress_options \<Rightarrow> response_context \<Rightarrow> req_headers \<Rightarrow> jsstring \<Rightarrow> read_error \<Rightarrow> ingress_context" where
  "read_error_context o' rc req rid e =
     (case e of BodyTooLarge \<Rightarrow> syntheticContext req rid o' rc 413 ERR_CODE_BODY_TOO_LARGE
      | RequestTimeout \<Rightarrow> syntheticContext req rid o' rc 408 ERR_CODE_REQUEST_TIMEOUT
      | _ \<Rightarrow> syntheticContext req rid o' rc 500 ERR_CODE_INTERNAL)"

definition answered_context :: "response_context \<Rightarrow> req_headers \<Rightarrow> jsstring \<Rightarrow> fast_result \<Rightarrow> ingress_context" where
  "answered_context rc req rid r =
     (snapshotResult r)\<lparr>ic_response := buildTerminalResponse rc (snapshotResult r) (int (errorCode r)) req rid\<rparr>"

definition request_id :: "ingress_options \<Rightarrow> id_counter \<Rightarrow> jsstring" where
  "request_id o' ids = (if io_enableRequestIds o' = Some False then [] else node_decodeUtf8 (fst (generateRequestId ids)))"

definition quiet :: "async_env \<Rightarrow> bool" where
  "quiet env \<longleftrightarrow> ae_onRequest env = None \<and> ae_onResponse env = (\<lambda>_. None) \<and> ae_onError env = (\<lambda>_. None)"

lemma quiet_hooks_simps:
  assumes "quiet env"
  shows "report_error env o' ev = (Inr (), ev @ (if fo_onError o' then [EvError] else []))"
    and "emitResponse env o' c ev = (Inr c, ev @ (if io_onResponse o' then [EvResponse (status c)] else []))"
  using assms by (simp_all add: report_error_def emitResponse_def quiet_def Let_def)

lemma status_answered: "status (answered_context rc req rid r) = status r" "ic_errorCode (snapshotResult r) = int (errorCode r)"
  by (simp_all add: answered_context_def snapshotResult_def without_views_def fast_result.extend_def)

lemma run_stage_spec:
  assumes "fast_reach (stripSecurityOptions o') st" and "quiet env"
    and a: "a = native_answer (ae_native env) (fh_ffi st) (fh_plan st) req ip body rid (fh_output st)"
  shows "\<exists>st'. run_stage env o' rc req ip rid body ev st =
    (Inr (answered_context rc (hr_headers req) rid (fast_view a body rid)),
     ev @ (if isl (fst a) \<and> fo_onError o' then [EvError] else [])
        @ (if io_onResponse o' then [EvResponse (status (fast_view a body rid))] else []), st')"
proof -
  have e: "fh_onError st = fo_onError o'" using fast_reach_onError [OF assms(1)] by (simp add: stripSecurityOptions_def)
  obtain st' where "sync_run (ae_native env) req ip body rid
       (\<lambda>r. FnValue ((snapshotResult r)\<lparr>ic_response := buildTerminalResponse rc (snapshotResult r) (ic_errorCode (snapshotResult r)) (hr_headers req) rid\<rparr>)) st
     = (Inr (answered_context rc (hr_headers req) rid (fast_view a body rid)), isl (fst a) \<and> fo_onError o', st')"
    unfolding sync_run_def
    using fast_run_spec [OF fast_reach_ok [OF assms(1)] a, of "\<lambda>r. FnValue (answered_context rc (hr_headers req) rid r)"]
    by (auto simp: e sync_result_def answered_context_def status_answered(2))
  then show ?thesis by (simp add: run_stage_def Let_def quiet_hooks_simps [OF assms(2)] status_answered(1))
qed

lemma async_try_spec:
  assumes "quiet env"
  shows "async_try env o' rc req ip rid es ev st =
    (case async_body o' req es of
       None \<Rightarrow> None
     | Some (Inl e) \<Rightarrow> Some (if e = BodyTooLarge \<or> e = RequestTimeout
         then let c = read_error_context o' rc (hr_headers (aq_http req)) rid e
              in (Inr c, ev @ (if io_onResponse o' then [EvResponse (status c)] else []), st)
         else (Inl (JsError ''body read failed''), ev @ (if fo_onError o' then [EvError] else []), st))
     | Some (Inr body) \<Rightarrow> Some (run_stage env o' rc (aq_http req) ip rid body ev st))"
  unfolding async_try_def async_body_def Let_def quiet_hooks_simps [OF assms] prod.case
  by (simp add: read_error_context_def split: option.split sum.split)

lemma ingressAsync_quiet:
  assumes "quiet env" and rid: "rid = request_id o' ids"
    and ev: "ev = (if io_onRequest o' then [EvRequest rid] else [])"
  shows "fst (ingressAsync env o' rc req ip es ids st) =
    (case async_try env o' rc req ip rid es ev st of
       None \<Rightarrow> None
     | Some (Inr c, ev1, st1) \<Rightarrow> Some (Inr c, ev1, st1)
     | Some (Inl e, ev1, st1) \<Rightarrow>
         (let c = internalContext (hr_headers (aq_http req)) rid o' rc
          in Some (Inr c, ev1 @ (if fo_onError o' then [EvError] else []) @ (if io_onResponse o' then [EvResponse (status c)] else []), st1)))"
proof -
  obtain b i where g: "generateRequestId ids = (b, i)" by fastforce
  have h: "(if io_onRequest o' then ae_onRequest env else None) = None" using assms(1) by (simp add: quiet_def)
  have r: "(if io_enableRequestIds o' = Some False then ([], ids) else let (b, i) = generateRequestId ids in (node_decodeUtf8 b, i))
      = (rid, if io_enableRequestIds o' = Some False then ids else i)" by (simp add: g rid request_id_def)
  show ?thesis
    unfolding ingressAsync_def r unfolding Let_def prod.case h option.case quiet_hooks_simps [OF assms(1)] unfolding ev [symmetric]
    by (simp split: option.split sum.split)
qed


section \<open>Contexts without the native side\<close>

lemma synthetic_sels:
  "terminal (syntheticContext req rid o' rc s code)" "\<not> isPreflight (syntheticContext req rid o' rc s code)"
  "status (syntheticContext req rid o' rc s code) = s"
  "corsAllowed (syntheticContext req rid o' rc s code) = staticCorsAllowed o' req"
  "headerVariant (syntheticContext req rid o' rc s code) = HV_JSON + (if staticCorsAllowed o' req then HV_CORS_SIMPLE else 0)"
  by (simp_all add: syntheticContext_def Let_def fast_result.extend_def new_fast_result_def invalidate_fast_def resetShared_def)

lemma lower_body_headers: "to_lower (js ''content-type'') = js ''content-type''" "to_lower (js ''cache-control'') = js ''cache-control''"
  by (simp_all add: dynamic_lower)

text \<open>
  An answer the ingress makes up itself, for an oversized or stalled body or an internal error, has the
  announced status and never opens a cross-origin policy: it names the caller's origin only when the
  policy lists that origin, a star only for an open policy without credentials, and no
  origin at all under an open policy with credentials.
\<close>

theorem synthetic_cors_sound:
  assumes "s \<in> {408, 413, 500}"
  shows "\<exists>resp. ic_response (syntheticContext req rid o' (buildResponseContext o') s code) = Some resp \<and> hp_status resp = s
    \<and> header_values (js ''access-control-allow-origin'') (hp_headers resp) =
      (case (fo_cors o', req ''origin'') of
         (Some cors, Some origin) \<Rightarrow>
           (if origin = [] then []
            else if cors_wildcard cors then (if co_allowCredentials cors then [] else [js ''*''])
            else if \<exists>origins. co_allowOrigin cors = Some origins \<and> origin \<in> set origins then [origin] else [])
       | _ \<Rightarrow> [])"
proof -
  let ?c = "syntheticContext req rid o' (buildResponseContext o') s code"
  have st: "normalizeResponseStatus s code False = s" using assms by (auto simp: normalizeResponseStatus_def isValidResponseStatus_def)
  have hv: "has_flag 3 2" "\<not> has_flag (Suc 0) 2" "\<not> has_flag (Suc 0) 4" by (simp_all add: has_flag_def)
  obtain base where b: "?c = base\<lparr>ic_response := buildTerminalResponse (buildResponseContext o') base code req rid\<rparr>"
    unfolding syntheticContext_def Let_def by blast
  have sel: "terminal base" "\<not> isPreflight base" "status base = s" "corsAllowed base = staticCorsAllowed o' req"
    "headerVariant base = HV_JSON + (if staticCorsAllowed o' req then HV_CORS_SIMPLE else 0)"
    using synthetic_sels [of req rid o' "buildResponseContext o'" s code] unfolding b by simp_all
  have ts: "terminal_status code base = s" using assms by (auto simp: terminal_status_def sel st)
  have "ic_response ?c = buildTerminalResponse (buildResponseContext o') base code req rid" by (simp add: b)
  also have "\<dots> = Some \<lparr>hp_status = s, hp_headers = header_set (js ''cache-control'') (js ''no-store'')
        (header_set (js ''content-type'') (js ''application/json; charset=utf-8'') (headersForResult (buildResponseContext o') base req rid)),
      hp_body = Some (utf8_encode (terminal_payload s code rid))\<rparr>"
    by (simp add: buildTerminalResponse_def sel ts)
  finally show ?thesis
    by (auto simp: header_values_set lower_body_headers lower_literals js_inject fast_origin_header sel hv staticCorsAllowed_def cors_wildcard_def
        split: option.splits if_splits)
qed

section \<open>Construction\<close>

lemma known_iff: "assertKnownIngressOptions kvs label = Inr () \<longleftrightarrow> fst ` set kvs \<subseteq> set KNOWN_INGRESS_OPTION_KEYS"
  by (induction kvs label rule: assertKnownIngressOptions.induct) auto

lemma values_iff: "assert_values ps kvs label = Inr () \<longleftrightarrow> filter (\<lambda>p. bad_number (option_at kvs p)) ps = []"
  by (induction ps kvs label rule: assert_values.induct) (simp_all add: assertNonNegativeNumber_def)

lemma clamp_bounds: "48 \<le> nat (clampIngressBufferSize q 48) \<and> nat (clampIngressBufferSize q 48) \<le> MAX_OUTPUT_BUFFER_SIZE"
  unfolding clampIngressBufferSize_def MAX_OUTPUT_BUFFER_SIZE_def by auto


section \<open>A concrete ingress\<close>

definition demo_ingress_options :: ingress_options where
  "demo_ingress_options = \<lparr>fo_cors = None, fo_security = None, fo_https = None, fo_enableSecurityHeaders = None, fo_rateLimit = None,
     fo_raw = [(''maxBodyBytes'', VNum (Num 8))], fo_parseCookies = None, fo_trustProxy = None, fo_trustedEnabled = None,
     fo_outputBufferSize = Some 52, fo_onError = True, io_readBody = None, io_requireJsonBody = None, io_schema = False,
     io_enableBodySizeGuard = None, io_maxBodyBytes = Some 8, io_bodyTimeoutMs = None, io_enableRequestIds = Some False,
     io_onRequest = False, io_onResponse = True\<rparr>"

definition demo_fast :: fast_handler where
  "demo_fast = (case createIngressFast (stripSecurityOptions demo_ingress_options) (Inr ()) True initial_pack_state of Inr st \<Rightarrow> st)"

lemma demo_fast_created: "createIngressFast (stripSecurityOptions demo_ingress_options) (Inr ()) True initial_pack_state = Inr demo_fast"
  by (simp add: demo_fast_def createIngressFast_def stripSecurityOptions_def demo_ingress_options_def KNOWN_INGRESS_OPTION_KEYS_def
      assertIngressOptionValues_def NON_NEGATIVE_NUMBER_OPTIONS_def assertNonNegativeNumber_def option_at_def)

lemma demo_fast_reach: "fast_reach (stripSecurityOptions demo_ingress_options) demo_fast"
  by (rule fr_start [OF pr_init demo_fast_created])

theorem fast_run_isolated_witness:
  "\<exists>st'. fast_run good_native demo_req None None (js ''a'') (\<lambda>r. FnValue (f_requestId r)) demo_fast
     = (Inr (f_requestId (fast_view (Inr 52, good_output) None (js ''a''))), False, st') \<and> fh_result st' = new_fast_result"
  using fast_run_isolated [OF demo_fast_reach, of good_native demo_req None None "js ''a''" "\<lambda>r. FnValue (f_requestId r)"]
  by (auto simp: native_answer_def good_native_def)

definition quiet_async :: async_env where
  "quiet_async = \<lparr>ae_native = good_native, ae_onRequest = None, ae_onResponse = (\<lambda>_. None), ae_onError = (\<lambda>_. None)\<rparr>"

definition gone_request :: async_request where
  "gone_request = \<lparr>aq_http = demo_req, aq_body = \<lparr>br_aborted = True, br_signal = True, br_declared = None, br_buffered = NoBytesMethod,
     br_hasBody = True, br_abortedAfter = True\<rparr>, aq_contentLength = Some 0\<rparr>"


theorem synthetic_cors_sound_witness:
  "\<exists>resp. ic_response (syntheticContext (\<lambda>_. Some (js ''https://x'')) [] demo_ingress_options (buildResponseContext demo_ingress_options) 413 3)
     = Some resp \<and> hp_status resp = 413 \<and> header_values (js ''access-control-allow-origin'') (hp_headers resp) = []"
  using synthetic_cors_sound [of 413 "\<lambda>_. Some (js ''https://x'')" "[]" demo_ingress_options 3]
  by (simp add: demo_ingress_options_def)

end
