(* ===== verification/ServerGuard.thy ===== *)
theory ServerGuard
  imports FastIngress
begin

text \<open>
  Fault containment and small server pieces: \<open>src/src/ingress/server-error.ts\<close> (the masked 500 and the guard
  around user handlers), \<open>health.ts\<close> (probes) and \<open>createIngressServer\<close> of \<open>server.ts\<close> (the Bun server's options).

  A thrown value is an error with its message or another value with what \<open>String\<close> makes of it, which is
  nothing when the conversion itself throws. A handler returns, throws, or returns a thenable, which may
  lack \<open>catch\<close> and may never settle. What the hooks throw is swallowed by the code and so not
  represented. The response type is left open.
\<close>

section \<open>The masked 500\<close>

datatype thrown = ThrownError jsstring | ThrownOther "jsstring option"

fun toError :: "thrown \<Rightarrow> thrown + jsstring" where
  "toError (ThrownError m) = Inr m"
| "toError (ThrownOther (Some s)) = Inr s"
| "toError (ThrownOther None) = Inl (ThrownError (js ''Cannot convert object to primitive value''))"

record server_error_opts =
  se_onError :: bool
  se_logger :: bool

datatype server_event = SeError jsstring | SeLog jsstring

definition INTERNAL_HEADERS :: "header list" where
  "INTERNAL_HEADERS = [(js ''content-type'', js ''application/json; charset=utf-8'')]"

definition internal_response :: http_response where
  "internal_response = \<lparr>hp_status = 500, hp_headers = INTERNAL_HEADERS, hp_body = ERROR_BODIES ''internal''\<rparr>"

definition log_line :: "jsstring \<Rightarrow> jsstring" where
  "log_line message = js ''{'' @ json_string (js ''level'') @ js '':'' @ json_string (js ''error'') @ js '',''
     @ json_string (js ''msg'') @ js '':'' @ json_string (js ''unhandled_handler_error'') @ js '',''
     @ json_string (js ''error'') @ js '':'' @ json_string message @ js ''}''"

definition createServerErrorHandler :: "server_error_opts \<Rightarrow> thrown \<Rightarrow> (thrown + http_response) \<times> server_event list" where
  "createServerErrorHandler opts error =
     (case toError error of
        Inl e \<Rightarrow> (Inl e, [])
      | Inr message \<Rightarrow>
          (Inr internal_response,
           (if se_onError opts then [SeError message] else []) @ (if se_logger opts then [SeLog (log_line message)] else [])))"

section \<open>The guard\<close>

datatype 'r settled = Resolved 'r | Rejected thrown

datatype 'r handler_out = Returns 'r | Throws thrown | Thenable bool "'r settled option"

definition no_catch :: thrown where
  "no_catch = ThrownError (js ''thenable.catch is not a function'')"

text \<open>The value the caller ends up with, if the handler settles.\<close>

definition guardRouteHandler :: "(thrown \<Rightarrow> (thrown + 'r) \<times> server_event list) \<Rightarrow> 'r handler_out \<Rightarrow> (thrown + 'r) option \<times> server_event list" where
  "guardRouteHandler onServerError out =
     (let masked = (\<lambda>e. case onServerError e of (r, ev) \<Rightarrow> (Some r, ev))
      in case out of
           Returns r \<Rightarrow> (Some (Inr r), [])
         | Throws e \<Rightarrow> masked e
         | Thenable hasCatch s \<Rightarrow>
             (if \<not> hasCatch then masked no_catch
              else case s of
                     None \<Rightarrow> (None, [])
                   | Some (Resolved r) \<Rightarrow> (Some (Inr r), [])
                   | Some (Rejected e) \<Rightarrow> masked e))"

definition printable :: "thrown \<Rightarrow> bool" where
  "printable e \<longleftrightarrow> e \<noteq> ThrownOther None"

lemma masked_printable: "printable e \<Longrightarrow> \<exists>m. toError e = Inr m"
  by (cases e rule: toError.cases) (simp_all add: printable_def)

text \<open>
  A guarded route contains every failure of its handler whose thrown value can be printed: once the
  handler has settled the caller has a response; a successful one is passed through untouched
  and without a hook call; a failure is the fixed masked 500, whatever was thrown, and each
  configured hook hears of it exactly once, first \<open>onError\<close> and then the log.
\<close>

theorem guarded_route_contained:
  assumes "case out of Throws e \<Rightarrow> printable e | Thenable _ (Some (Rejected e)) \<Rightarrow> printable e | Thenable c None \<Rightarrow> \<not> c | _ \<Rightarrow> True"
  shows "case guardRouteHandler (createServerErrorHandler opts) out of
      (None, _) \<Rightarrow> False
    | (Some (Inl _), _) \<Rightarrow> False
    | (Some (Inr r), ev) \<Rightarrow>
        (if ev = [] \<and> (\<exists>r'. out = Returns r' \<or> out = Thenable True (Some (Resolved r')))
         then out = Returns r \<or> out = Thenable True (Some (Resolved r))
         else r = internal_response
           \<and> length (filter (\<lambda>e. \<exists>m. e = SeError m) ev) = (if se_onError opts then 1 else 0)
           \<and> length (filter (\<lambda>e. \<exists>m. e = SeLog m) ev) = (if se_logger opts then 1 else 0)
           \<and> length ev = (if se_onError opts then 1 else 0) + (if se_logger opts then 1 else 0))"
proof (cases out)
  case (Returns r)
  then show ?thesis by (simp add: guardRouteHandler_def)
next
  case (Throws e)
  with assms obtain m where "toError e = Inr m" using masked_printable by auto
  with Throws show ?thesis by (simp add: guardRouteHandler_def createServerErrorHandler_def)
next
  case (Thenable c s)
  show ?thesis
  proof (cases "c \<and> (\<exists>r. s = Some (Resolved r))")
    case True
    with Thenable show ?thesis by (auto simp: guardRouteHandler_def)
  next
    case False
    obtain e m where e: "toError e = Inr m" and g: "guardRouteHandler (createServerErrorHandler opts) out
        = (case createServerErrorHandler opts e of (r, ev) \<Rightarrow> (Some r, ev))"
    proof (cases c)
      case False
      then show ?thesis using that [of no_catch] Thenable by (simp add: guardRouteHandler_def no_catch_def)
    next
      case True
      with \<open>\<not> (c \<and> _)\<close> assms Thenable obtain e where "s = Some (Rejected e)" "printable e"
        by (cases s) (auto split: settled.splits)
      with True Thenable masked_printable [of e] that [of e] show ?thesis by (auto simp: guardRouteHandler_def)
    qed
    have "\<not> (\<exists>r'. out = Returns r' \<or> out = Thenable True (Some (Resolved r')))" using False Thenable by auto
    with e g show ?thesis by (simp add: createServerErrorHandler_def)
  qed
qed

theorem guarded_route_contained_witness:
  "guardRouteHandler (createServerErrorHandler \<lparr>se_onError = True, se_logger = False\<rparr>) (Throws (ThrownError (js ''boom'')))
     = (Some (Inr internal_response), [SeError (js ''boom'')])"
  using guarded_route_contained [of "Throws (ThrownError (js ''boom''))" "\<lparr>se_onError = True, se_logger = False\<rparr>"]
  by (simp add: printable_def guardRouteHandler_def createServerErrorHandler_def)

section \<open>Probes\<close>

definition jsonResponse :: "nat \<Rightarrow> string \<Rightarrow> http_response" where
  "jsonResponse code_status state = \<lparr>hp_status = code_status,
     hp_headers = [(js ''content-type'', js ''application/json''), (js ''cache-control'', js ''no-store'')],
     hp_body = Some (utf8_encode (js ''{'' @ json_string (js ''status'') @ js '':'' @ json_string (js state) @ js ''}''))\<rparr>"

definition livenessHandler :: http_response where
  "livenessHandler = jsonResponse 200 ''ok''"

definition staticLiveness :: http_response where
  "staticLiveness = jsonResponse 200 ''ok''"

text \<open>A check gives a truth value or fails, or never answers.\<close>

datatype check_out = CheckGives bool | CheckFails

definition readinessHandler :: "check_out option option \<Rightarrow> http_response option" where
  "readinessHandler check =
     (case check of
        None \<Rightarrow> Some (jsonResponse 200 ''ready'')
      | Some None \<Rightarrow> None
      | Some (Some (CheckGives b)) \<Rightarrow> Some (if b then jsonResponse 200 ''ready'' else jsonResponse 503 ''not_ready'')
      | Some (Some CheckFails) \<Rightarrow> Some (jsonResponse 503 ''not_ready''))"

definition healthHandler :: "check_out option option \<Rightarrow> http_response option" where
  "healthHandler check = (case check of None \<Rightarrow> Some livenessHandler | Some c \<Rightarrow> readinessHandler (Some c))"

section \<open>The Bun server\<close>

definition DEFAULT_MAX_REQUEST_BODY_SIZE :: nat where "DEFAULT_MAX_REQUEST_BODY_SIZE = 16 * 1024 * 1024"

record serve_options =
  sv_hostname :: "jsstring option"
  sv_port :: nat
  sv_idleTimeout :: "nat option"
  sv_maxRequestBodySize :: "nat option"
  sv_reusePort :: bool
  sv_fallback :: "nat option"

record bun_config =
  bc_hostname :: jsstring
  bc_port :: nat
  bc_idleTimeout :: nat
  bc_maxRequestBodySize :: nat
  bc_reusePort :: bool
  bc_fetch :: "nat option"

definition bun_config_of :: "serve_options \<Rightarrow> bun_config" where
  "bun_config_of o' = \<lparr>bc_hostname = (case sv_hostname o' of Some h \<Rightarrow> h | None \<Rightarrow> js ''0.0.0.0''), bc_port = sv_port o',
     bc_idleTimeout = (case sv_idleTimeout o' of Some t \<Rightarrow> t | None \<Rightarrow> 30),
     bc_maxRequestBodySize = (case sv_maxRequestBodySize o' of Some n \<Rightarrow> n | None \<Rightarrow> DEFAULT_MAX_REQUEST_BODY_SIZE),
     bc_reusePort = sv_reusePort o', bc_fetch = sv_fallback o'\<rparr>"

text \<open>\<open>serve\<close> is \<open>Bun.serve\<close>: it throws, or gives the port it reports, when it reports one. The port of the server.\<close>

definition createIngressServer :: "bool \<Rightarrow> (bun_config \<Rightarrow> thrown + nat option) \<Rightarrow> thrown + unit \<Rightarrow> serve_options \<Rightarrow> thrown + nat" where
  "createIngressServer isBun serve routesBuilt o' =
     (if \<not> isBun then Inl (ThrownError (js ''createIngressServer is Bun-only''))
      else case routesBuilt of
             Inl e \<Rightarrow> Inl e
           | Inr _ \<Rightarrow>
               (let c = bun_config_of o';
                    port = (\<lambda>p. case p of Some n \<Rightarrow> n | None \<Rightarrow> sv_port o')
                in case serve c of
                     Inr p \<Rightarrow> Inr (port p)
                   | Inl e \<Rightarrow> (if sv_reusePort o' then map_sum id port (serve (c\<lparr>bc_reusePort := False\<rparr>)) else Inl e)))"

section \<open>Graceful shutdown\<close>

text \<open>The stop calls made, with their \<open>force\<close> argument; what a handle throws is ignored.\<close>

record shutdown_state =
  sd_handles :: "nat list"
  sd_timeoutMs :: nat
  sd_listening :: bool
  sd_shuttingDown :: bool
  sd_timer :: "nat option"
  sd_stops :: "(nat \<times> bool) list"

definition gracefulShutdown :: "nat list \<Rightarrow> nat option \<Rightarrow> shutdown_state" where
  "gracefulShutdown hs timeoutMs = \<lparr>sd_handles = hs, sd_timeoutMs = (case timeoutMs of Some t \<Rightarrow> t | None \<Rightarrow> 5000),
     sd_listening = True, sd_shuttingDown = False, sd_timer = None, sd_stops = []\<rparr>"

datatype shutdown_event = Signal nat | Tick nat | Cleanup

fun shutdown_step :: "shutdown_event \<Rightarrow> shutdown_state \<Rightarrow> shutdown_state" where
  "shutdown_step (Signal now) s =
     (if \<not> sd_listening s \<or> sd_shuttingDown s then s
      else s\<lparr>sd_shuttingDown := True, sd_stops := sd_stops s @ map (\<lambda>h. (h, False)) (sd_handles s), sd_timer := Some (now + sd_timeoutMs s)\<rparr>)"
| "shutdown_step (Tick now) s =
     (case sd_timer s of
        Some t \<Rightarrow> (if t \<le> now then s\<lparr>sd_timer := None, sd_stops := sd_stops s @ map (\<lambda>h. (h, True)) (sd_handles s)\<rparr> else s)
      | None \<Rightarrow> s)"
| "shutdown_step Cleanup s = s\<lparr>sd_listening := False\<rparr>"

definition shutdown_inv :: "nat list \<Rightarrow> nat \<Rightarrow> shutdown_state \<Rightarrow> bool" where
  "shutdown_inv hs t s \<longleftrightarrow> sd_handles s = hs \<and> sd_timeoutMs s = t
     \<and> (if \<not> sd_shuttingDown s then sd_timer s = None \<and> sd_stops s = []
        else if sd_timer s \<noteq> None then sd_stops s = map (\<lambda>h. (h, False)) hs
        else sd_stops s = map (\<lambda>h. (h, False)) hs @ map (\<lambda>h. (h, True)) hs)"

lemma shutdown_inv_step: "shutdown_inv hs t s \<Longrightarrow> shutdown_inv hs t (shutdown_step e s)"
  by (cases e) (auto simp: shutdown_inv_def split: option.splits if_splits)

lemma shutdown_inv_run: "shutdown_inv hs t s \<Longrightarrow> shutdown_inv hs t (fold shutdown_step es s)"
  by (induction es arbitrary: s) (auto intro: shutdown_inv_step)

text \<open>
  However often the signals arrive, and whatever is cleaned up meanwhile, each server is asked to drain
  once and forced to close at most once, never before every server was asked to drain.
\<close>

theorem shutdown_drains_then_forces:
  "sd_stops (fold shutdown_step es (gracefulShutdown hs t)) \<in>
     {[], map (\<lambda>h. (h, False)) hs, map (\<lambda>h. (h, False)) hs @ map (\<lambda>h. (h, True)) hs}"
proof -
  have "shutdown_inv hs (case t of Some n \<Rightarrow> n | None \<Rightarrow> 5000) (gracefulShutdown hs t)"
    by (simp add: shutdown_inv_def gracefulShutdown_def)
  from shutdown_inv_run [OF this, of es] show ?thesis by (auto simp: shutdown_inv_def split: if_splits)
qed

end
