(* ===== verification/NodeServer.thy ===== *)
theory NodeServer
  imports ServerGuard
begin

unbundle bit_operations_syntax

text \<open>
  The node:http adapter, \<open>src/src/ingress/server-node.ts\<close>: a node request becomes a web request, the route
  table is asked, and the web response is written to the node response.

  The URL parser and the \<open>Request\<close> constructor are parameters, as are the handlers: what a route answers
  is given for the request at hand, and may be missing for ever. A response body is the chunks its
  stream delivers and whether it then ends or fails. A write is accepted, or held back until the
  socket drains, which may never happen. Method names are those the node parser lets
  through, so none of them names a member of \<open>Object.prototype\<close>.
\<close>

section \<open>Requests\<close>

datatype in_value = HUndefined | HOne jsstring | HMany "jsstring list"

record incoming =
  in_method :: "jsstring option"
  in_url :: "jsstring option"
  in_headers :: "(jsstring \<times> in_value) list"
  in_contentLength :: "js_number option"
  in_transferEncoding :: bool
  in_complete :: bool

record web_request =
  wq_url :: jsstring
  wq_method :: jsstring
  wq_headers :: "header list"
  wq_streams_body :: bool

fun number_greater :: "js_number option \<Rightarrow> rat \<Rightarrow> bool" where
  "number_greater (Some (Num q)) n = (n < q)"
| "number_greater (Some (NumInfinite positive)) n = positive"
| "number_greater _ n = False"

definition requestHasBody :: "incoming \<Rightarrow> bool" where
  "requestHasBody req \<longleftrightarrow> number_greater (in_contentLength req) 0 \<or> in_transferEncoding req"

fun copy_header :: "jsstring \<times> in_value \<Rightarrow> header list \<Rightarrow> header list" where
  "copy_header (key, HUndefined) hs = hs"
| "copy_header (key, HOne v) hs = header_set key v hs"
| "copy_header (key, HMany vs) hs = hs @ map (\<lambda>v. (key, v)) vs"

definition host_of :: "incoming \<Rightarrow> jsstring" where
  "host_of req = (case map_of (in_headers req) (js ''host'') of Some (HOne h) \<Rightarrow> h | _ \<Rightarrow> js ''localhost'')"

record web_env =
  we_url :: "jsstring \<Rightarrow> jsstring \<Rightarrow> jsstring option"
  we_pathname :: "jsstring \<Rightarrow> jsstring"
  we_accepts :: "web_request \<Rightarrow> bool"

definition nodeRequestToWebRequest :: "web_env \<Rightarrow> incoming \<Rightarrow> thrown + web_request" where
  "nodeRequestToWebRequest we req =
     (case we_url we (case in_url req of Some u \<Rightarrow> u | None \<Rightarrow> js ''/'') (js ''http://'' @ host_of req) of
        None \<Rightarrow> Inl (ThrownError (js ''Invalid URL''))
      | Some url \<Rightarrow>
          (let mth = (case in_method req of Some m \<Rightarrow> m | None \<Rightarrow> js ''GET'');
               bodyForbidden = (mth = js ''GET'' \<or> mth = js ''HEAD'');
               w = \<lparr>wq_url = url, wq_method = mth, wq_headers = fold copy_header (in_headers req) [],
                    wq_streams_body = (requestHasBody req \<and> \<not> bodyForbidden)\<rparr>
           in if we_accepts we w then Inr w else Inl (ThrownError (js ''Failed to construct Request''))))"

text \<open>The signal of the web request after what happened on the node request; a close carries \<open>complete\<close> at that moment.\<close>

datatype conn_event = ConnAborted | ConnClosed bool

definition signal_aborted :: "conn_event list \<Rightarrow> bool" where
  "signal_aborted es \<longleftrightarrow> list_ex (\<lambda>e. e = ConnAborted \<or> e = ConnClosed False) es"

section \<open>Responses\<close>

record node_response =
  nr_status :: nat
  nr_headers :: "header list"
  nr_body :: "(bytes list \<times> thrown option) option"

record server_response =
  sr_status :: nat
  sr_headers :: "(jsstring, jsstring list) jsmap"
  sr_headersSent :: bool
  sr_body :: bytes
  sr_ended :: bool
  sr_destroyed :: bool
  sr_keepAlive :: bool

definition fresh_response :: server_response where
  "fresh_response = \<lparr>sr_status = 200, sr_headers = [], sr_headersSent = False, sr_body = [], sr_ended = False, sr_destroyed = False, sr_keepAlive = True\<rparr>"

definition setHeader :: "jsstring \<Rightarrow> jsstring list \<Rightarrow> server_response \<Rightarrow> server_response" where
  "setHeader name vs res = res\<lparr>sr_headers := AList.update (to_lower name) vs (sr_headers res)\<rparr>"

definition res_end :: "bytes \<Rightarrow> server_response \<Rightarrow> server_response" where
  "res_end b res = res\<lparr>sr_body := sr_body res @ b, sr_headersSent := True, sr_ended := True\<rparr>"

definition drainUnreadBody :: "incoming \<Rightarrow> server_response \<Rightarrow> server_response" where
  "drainUnreadBody req res =
     (if \<not> in_complete req \<and> requestHasBody req
      then (let res1 = res\<lparr>sr_keepAlive := False\<rparr>
            in if \<not> sr_headersSent res1 then setHeader (js ''connection'') [js ''close''] res1 else res1)
      else res)"

datatype write_ack = Accepted | HeldThenDrained | HeldForever

datatype write_end = Written | WriteThrew thrown | WriteStuck

fun write_chunks :: "write_ack list \<Rightarrow> bytes list \<Rightarrow> server_response \<Rightarrow> bool \<times> server_response" where
  "write_chunks acks [] res = (True, res)"
| "write_chunks acks (c # cs) res =
     (let res1 = res\<lparr>sr_body := sr_body res @ c, sr_headersSent := True\<rparr>
      in case acks of
           HeldForever # _ \<Rightarrow> (False, res1)
         | _ # acks' \<Rightarrow> write_chunks acks' cs res1
         | [] \<Rightarrow> write_chunks [] cs res1)"

definition copy_headers :: "header list \<Rightarrow> server_response \<Rightarrow> server_response" where
  "copy_headers hs res =
     (let cookies = header_values (js ''set-cookie'') hs;
          res1 = (if cookies \<noteq> [] then setHeader (js ''set-cookie'') cookies res else res)
      in fold (\<lambda>h r. if to_lower (fst h) = js ''set-cookie'' then r else setHeader (fst h) [snd h] r) hs res1)"

definition writeResponse :: "incoming \<Rightarrow> write_ack list \<Rightarrow> node_response \<Rightarrow> server_response \<Rightarrow> write_end \<times> server_response" where
  "writeResponse req acks response res =
     (let res1 = copy_headers (nr_headers response) ((drainUnreadBody req res)\<lparr>sr_status := nr_status response\<rparr>)
      in if in_method req = Some (js ''HEAD'') then (Written, res_end [] res1)
         else case nr_body response of
                None \<Rightarrow> (Written, res_end [] res1)
              | Some (chunks, failure) \<Rightarrow>
                  (case write_chunks acks chunks res1 of
                     (False, res2) \<Rightarrow> (WriteStuck, res2)
                   | (True, res2) \<Rightarrow> (case failure of Some e \<Rightarrow> (WriteThrew e, res2) | None \<Rightarrow> (Written, res_end [] res2))))"

section \<open>The request listener\<close>

record ('f, 'r) listener =
  ln_maxRequestBodySize :: "nat option"
  ln_match :: "('f, 'r) methods path_matcher"
  ln_fallback :: bool
  ln_errors :: server_error_opts

text \<open>What a route, a static response and the fallback answer; a route may never answer.\<close>

record ('f, 'r) answers =
  an_route :: "('f, 'r) wired \<Rightarrow> (jsstring, jsstring) jsmap \<Rightarrow> web_request \<Rightarrow> (thrown + node_response) option"
  an_static :: "'r \<Rightarrow> (thrown + node_response) option"
  an_fallback :: "web_request \<Rightarrow> (thrown + node_response) option"

definition as_node :: "http_response \<Rightarrow> node_response" where
  "as_node r = \<lparr>nr_status = hp_status r, nr_headers = hp_headers r, nr_body = map_option (\<lambda>b. ([b], None)) (hp_body r)\<rparr>"

definition not_found :: node_response where
  "not_found = \<lparr>nr_status = 404, nr_headers = [(js ''content-type'', js ''text/plain;charset=UTF-8'')],
     nr_body = Some ([utf8_encode (js ''Not Found'')], None)\<rparr>"

definition too_large_body :: bytes where
  "too_large_body = utf8_encode (js ''{'' @ json_string (js ''error'') @ js '':{'' @ json_string (js ''code'') @ js '':''
     @ json_string (js ''body_too_large'') @ js '','' @ json_string (js ''message'') @ js '':''
     @ json_string (js ''Request body is too large'') @ js ''}}'')"

definition reject_too_large :: "server_response \<Rightarrow> server_response" where
  "reject_too_large res =
     res_end too_large_body
       (setHeader (js ''content-length'') [dec (length too_large_body)]
         (setHeader (js ''content-type'') [js ''application/json'']
           ((setHeader (js ''connection'') [js ''close''] (res\<lparr>sr_keepAlive := False\<rparr>))\<lparr>sr_status := 413\<rparr>)))"

definition route_answer :: "('f, 'r) answers \<Rightarrow> ('f, 'r) listener \<Rightarrow> web_env \<Rightarrow> web_request \<Rightarrow> (thrown + node_response) option" where
  "route_answer an lis we w =
     (let fallback = (if ln_fallback lis then an_fallback an w else Some (Inr not_found))
      in case match_path (ln_match lis) (we_pathname we (wq_url w)) of
           None \<Rightarrow> fallback
         | Some m \<Rightarrow>
             (case map_of (pt_methods m) (wq_method w) of
                None \<Rightarrow> fallback
              | Some (Prebuilt r) \<Rightarrow> an_static an r
              | Some h \<Rightarrow> an_route an h (pt_params m) w))"

text \<open>The outer \<open>catch\<close>: a masked 500 while nothing was sent, else the socket is dropped; the hooks hear either way.\<close>

definition listener_catch :: "('f, 'r) listener \<Rightarrow> incoming \<Rightarrow> write_ack list \<Rightarrow> thrown \<Rightarrow> server_response \<Rightarrow> write_end \<times> server_response \<times> server_event list" where
  "listener_catch lis req acks e res =
     (case createServerErrorHandler (ln_errors lis) e of
        (Inl e', ev) \<Rightarrow> (WriteThrew e', res, ev)
      | (Inr masked, ev) \<Rightarrow>
          (if \<not> sr_headersSent res
           then (let (w, res1) = writeResponse req acks (as_node masked) res in (w, res1, ev))
           else (Written, res\<lparr>sr_destroyed := True\<rparr>, ev)))"

definition listener_serve :: "web_env \<Rightarrow> ('f, 'r) answers \<Rightarrow> ('f, 'r) listener \<Rightarrow> incoming \<Rightarrow> write_ack list \<Rightarrow> write_ack list \<Rightarrow> server_response
    \<Rightarrow> (write_end \<times> server_response \<times> server_event list) option" where
  "listener_serve we an lis req acks acks' res =
     (case nodeRequestToWebRequest we req of
        Inl e \<Rightarrow> Some (listener_catch lis req acks' e res)
      | Inr w \<Rightarrow>
          (case route_answer an lis we w of
             None \<Rightarrow> None
           | Some (Inl e) \<Rightarrow> Some (listener_catch lis req acks' e res)
           | Some (Inr r) \<Rightarrow>
               (case writeResponse req acks r res of
                  (WriteThrew e, res1) \<Rightarrow> Some (listener_catch lis req acks' e res1)
                | (w, res1) \<Rightarrow> Some (w, res1, []))))"

definition makeRequestListener :: "web_env \<Rightarrow> ('f, 'r) answers \<Rightarrow> ('f, 'r) listener \<Rightarrow> incoming \<Rightarrow> write_ack list \<Rightarrow> write_ack list \<Rightarrow> server_response
    \<Rightarrow> (write_end \<times> server_response \<times> server_event list) option" where
  "makeRequestListener we an lis req acks acks' res =
     (if (case ln_maxRequestBodySize lis of Some n \<Rightarrow> number_greater (in_contentLength req) (of_nat n) | None \<Rightarrow> False)
      then Some (Written, reject_too_large res, [])
      else listener_serve we an lis req acks acks' res)"

section \<open>Upgrades and malformed requests\<close>

definition token_char :: "code_unit \<Rightarrow> bool" where
  "token_char c \<longleftrightarrow> 48 \<le> unat c \<and> unat c \<le> 57 \<or> 65 \<le> unat c \<and> unat c \<le> 90 \<or> 97 \<le> unat c \<and> unat c \<le> 122
     \<or> c \<in> set (js [CHR ''!'', CHR ''#'', CHR ''$'', CHR ''%'', CHR ''&'', CHR 0x27, CHR ''*'', CHR ''+'', CHR ''-'', CHR ''.'', CHR 0x5E,
          CHR ''_'', CHR 0x60, CHR 0x7C, CHR 0x7E])"

definition WS_PROTOCOL_TOKEN :: "jsstring \<Rightarrow> bool" where
  "WS_PROTOCOL_TOKEN s \<longleftrightarrow> s \<noteq> [] \<and> list_all token_char s"

abbreviation (input) crlf :: jsstring where "crlf \<equiv> [13, 10]"

definition formatWebSocketHandshake :: "jsstring \<Rightarrow> jsstring option \<Rightarrow> thrown + jsstring" where
  "formatWebSocketHandshake accept protocol =
     (if list_ex (\<lambda>c. c = 13 \<or> c = 10) accept then Inl (ThrownError (js ''invalid Sec-WebSocket-Accept value''))
      else Inr (js ''HTTP/1.1 101 Switching Protocols'' @ crlf @ js ''Upgrade: websocket'' @ crlf @ js ''Connection: Upgrade'' @ crlf
        @ js ''Sec-WebSocket-Accept: '' @ accept @ crlf
        @ (case protocol of
             Some pr \<Rightarrow> (if WS_PROTOCOL_TOKEN pr then js ''Sec-WebSocket-Protocol: '' @ pr @ crlf else [])
           | None \<Rightarrow> [])
        @ crlf))"

datatype socket_event = SockWrite jsstring | SockDestroy | SockHanded

text \<open>The configured hook throws, declines, or gives the handshake values; \<open>onUpgrade\<close> may throw.\<close>

definition makeUpgradeListener :: "web_env \<Rightarrow> (thrown + (jsstring \<times> jsstring option) option) option \<Rightarrow> thrown option option \<Rightarrow> incoming \<Rightarrow> socket_event list" where
  "makeUpgradeListener we upgrade onUpgrade req =
     (case nodeRequestToWebRequest we req of
        Inl e \<Rightarrow> [SockDestroy]
      | Inr w \<Rightarrow>
          (case upgrade of
             Some (Inl e) \<Rightarrow> [SockDestroy]
           | Some (Inr (Some (accept, protocol))) \<Rightarrow>
               (if accept = [] then [SockDestroy]
                else case formatWebSocketHandshake accept protocol of
                       Inl e \<Rightarrow> [SockDestroy]
                     | Inr raw \<Rightarrow> SockWrite raw # (case onUpgrade of None \<Rightarrow> [] | Some None \<Rightarrow> [SockHanded] | Some (Some e) \<Rightarrow> [SockHanded, SockDestroy]))
           | _ \<Rightarrow> [SockDestroy]))"

definition client_error_answer :: "bool \<Rightarrow> bool \<Rightarrow> jsstring option" where
  "client_error_answer writable isHeaderOverflow =
     (if \<not> writable then None
      else let code_status = (if isHeaderOverflow then 431 else 400);
               reason = (if isHeaderOverflow then ''Request Header Fields Too Large'' else ''Bad Request'');
               code = (if isHeaderOverflow then ''headers_too_large'' else ''bad_request'');
               body = js ''{'' @ json_string (js ''error'') @ js '':{'' @ json_string (js ''code'') @ js '':'' @ json_string (js code)
                 @ js '','' @ json_string (js ''message'') @ js '':'' @ json_string (js reason) @ js ''}}''
           in Some (js ''HTTP/1.1 '' @ dec code_status @ js '' '' @ js reason @ crlf @ js ''Content-Type: application/json'' @ crlf
                @ js ''Content-Length: '' @ dec (length (utf8_encode body)) @ crlf @ js ''Connection: close'' @ crlf @ crlf @ body))"

definition DEFAULT_SOCKET_TIMEOUT_MS :: nat where "DEFAULT_SOCKET_TIMEOUT_MS = 30000"

record node_settings =
  nd_keepAliveTimeout :: nat
  nd_requestTimeout :: nat
  nd_headersTimeout :: nat
  nd_maxRequestsPerSocket :: nat
  nd_upgrades :: bool
  nd_hostname :: jsstring

definition createIngressServerNode :: "nat option \<Rightarrow> nat option \<Rightarrow> nat option \<Rightarrow> nat option \<Rightarrow> bool \<Rightarrow> jsstring option \<Rightarrow> node_settings" where
  "createIngressServerNode idleTimeout requestTimeoutMs headersTimeoutMs maxRequestsPerSocket upgrades hostname =
     \<lparr>nd_keepAliveTimeout = (case idleTimeout of Some t \<Rightarrow> t | None \<Rightarrow> 30) * 1000,
      nd_requestTimeout = (case requestTimeoutMs of Some t \<Rightarrow> t | None \<Rightarrow> DEFAULT_SOCKET_TIMEOUT_MS),
      nd_headersTimeout = (case headersTimeoutMs of Some t \<Rightarrow> t | None \<Rightarrow> DEFAULT_SOCKET_TIMEOUT_MS),
      nd_maxRequestsPerSocket = (case maxRequestsPerSocket of Some n \<Rightarrow> n | None \<Rightarrow> 1000),
      nd_upgrades = upgrades, nd_hostname = (case hostname of Some h \<Rightarrow> h | None \<Rightarrow> js ''0.0.0.0'')\<rparr>"

section \<open>What is written\<close>

definition drains :: "write_ack list \<Rightarrow> bool" where
  "drains acks \<longleftrightarrow> HeldForever \<notin> set acks"

lemma write_chunks_drains:
  "drains acks \<Longrightarrow> write_chunks acks cs res =
     (True, res\<lparr>sr_body := sr_body res @ concat cs, sr_headersSent := (sr_headersSent res \<or> cs \<noteq> [])\<rparr>)"
  by (induction acks cs res rule: write_chunks.induct) (auto simp: drains_def Let_def split: list.splits write_ack.splits)

lemma copy_fold_frame:
  "fold (\<lambda>h r. if to_lower (fst h) = js ''set-cookie'' then r else setHeader (fst h) [snd h] r) hs res
     = res\<lparr>sr_headers := fold (\<lambda>h m. if to_lower (fst h) = js ''set-cookie'' then m else AList.update (to_lower (fst h)) [snd h] m) hs (sr_headers res)\<rparr>"
  by (induction hs arbitrary: res) (auto simp: setHeader_def)

definition copied :: "header list \<Rightarrow> (jsstring, jsstring list) jsmap \<Rightarrow> (jsstring, jsstring list) jsmap" where
  "copied hs m = fold (\<lambda>h m. if to_lower (fst h) = js ''set-cookie'' then m else AList.update (to_lower (fst h)) [snd h] m) hs
     (if header_values (js ''set-cookie'') hs \<noteq> [] then AList.update (js ''set-cookie'') (header_values (js ''set-cookie'') hs) m else m)"

lemma lower_cookie: "to_lower (js ''set-cookie'') = js ''set-cookie''"
  by (simp add: to_lower_js)

lemma copy_headers_copied: "copy_headers hs res = res\<lparr>sr_headers := copied hs (sr_headers res)\<rparr>"
  by (simp add: copy_headers_def copy_fold_frame copied_def Let_def setHeader_def lower_cookie)

lemma copied_fold_values:
  assumes "to_lower n = n"
  shows "map_of (fold (\<lambda>h m. if to_lower (fst h) = js ''set-cookie'' then m else AList.update (to_lower (fst h)) [snd h] m) hs m) n =
    (if n = js ''set-cookie'' \<or> header_values n hs = [] then map_of m n else Some [last (header_values n hs)])"
  by (induction hs arbitrary: m) (auto simp: assms update_conv')

lemma copied_values:
  assumes "to_lower n = n"
  shows "map_of (copied hs m) n =
    (if header_values n hs = [] then map_of m n else if n = js ''set-cookie'' then Some (header_values n hs) else Some [last (header_values n hs)])"
  by (auto simp: copied_def copied_fold_values [OF assms] update_conv')

definition prepared :: "incoming \<Rightarrow> node_response \<Rightarrow> server_response \<Rightarrow> server_response" where
  "prepared req r res = copy_headers (nr_headers r) ((drainUnreadBody req res)\<lparr>sr_status := nr_status r\<rparr>)"

definition unread :: "incoming \<Rightarrow> bool" where
  "unread req \<longleftrightarrow> \<not> in_complete req \<and> requestHasBody req"

lemma prepared_sels:
  "sr_status (prepared req r res) = nr_status r" "sr_body (prepared req r res) = sr_body res" "sr_ended (prepared req r res) = sr_ended res"
  "sr_destroyed (prepared req r res) = sr_destroyed res" "sr_headersSent (prepared req r res) = sr_headersSent res"
  "sr_keepAlive (prepared req r res) = (sr_keepAlive res \<and> \<not> unread req)"
  by (simp_all add: prepared_def copy_headers_copied drainUnreadBody_def setHeader_def unread_def Let_def)

lemma prepared_header:
  assumes "to_lower n = n" and "header_values n (nr_headers r) \<noteq> []"
  shows "map_of (sr_headers (prepared req r res)) n =
    Some (if n = js ''set-cookie'' then header_values n (nr_headers r) else [last (header_values n (nr_headers r))])"
  using assms by (simp add: prepared_def copy_headers_copied copied_values)

lemma prepared_keeps:
  assumes "to_lower n = n" and "header_values n (nr_headers r) = []" and "n \<noteq> js ''connection''"
  shows "map_of (sr_headers (prepared req r res)) n = map_of (sr_headers res) n"
  using assms by (simp add: prepared_def copy_headers_copied copied_values drainUnreadBody_def setHeader_def Let_def update_conv' to_lower_js)

abbreviation (input) is_head :: "incoming \<Rightarrow> bool" where "is_head req \<equiv> in_method req = Some (js ''HEAD'')"

definition body_bytes_of :: "node_response \<Rightarrow> bytes" where
  "body_bytes_of r = (case nr_body r of Some (cs, _) \<Rightarrow> concat cs | None \<Rightarrow> [])"

definition failure_of :: "node_response \<Rightarrow> thrown option" where
  "failure_of r = (case nr_body r of Some (_, f) \<Rightarrow> f | None \<Rightarrow> None)"

lemma writeResponse_spec:
  assumes "drains acks"
  shows "writeResponse req acks r res =
    (if is_head req then (Written, res_end [] (prepared req r res))
     else case failure_of r of
            None \<Rightarrow> (Written, res_end (body_bytes_of r) (prepared req r res))
          | Some e \<Rightarrow> (WriteThrew e, (prepared req r res)\<lparr>sr_body := sr_body res @ body_bytes_of r,
              sr_headersSent := (sr_headersSent res \<or> (\<exists>cs f. nr_body r = Some (cs, f) \<and> cs \<noteq> []))\<rparr>))"
proof (cases "nr_body r")
  case None
  then show ?thesis by (simp add: writeResponse_def prepared_def [symmetric] failure_of_def body_bytes_of_def)
next
  case (Some b)
  obtain cs f where b: "b = (cs, f)" by fastforce
  show ?thesis
    unfolding writeResponse_def prepared_def [symmetric] Some b option.case prod.case Let_def write_chunks_drains [OF assms]
    by (auto simp: failure_of_def body_bytes_of_def Some b res_end_def prepared_sels split: option.splits)
qed

lemma as_node_internal: "failure_of (as_node internal_response) = None" "nr_status (as_node internal_response) = 500"
  by (simp_all add: as_node_def failure_of_def internal_response_def split: option.split)

definition hook_calls :: "server_error_opts \<Rightarrow> thrown \<Rightarrow> server_event list" where
  "hook_calls opts e = snd (createServerErrorHandler opts e)"

lemma error_handler_printable: "printable e \<Longrightarrow> createServerErrorHandler opts e = (Inr internal_response, hook_calls opts e)"
  using masked_printable [of e] by (auto simp: createServerErrorHandler_def hook_calls_def)

lemma listener_catch_spec:
  assumes "drains acks" and "printable e"
  shows "listener_catch lis req acks e res =
    (Written, if sr_headersSent res then res\<lparr>sr_destroyed := True\<rparr>
       else res_end (if is_head req then [] else body_bytes_of (as_node internal_response)) (prepared req (as_node internal_response) res),
     hook_calls (ln_errors lis) e)"
  using assms by (simp add: listener_catch_def error_handler_printable writeResponse_spec as_node_internal)

text \<open>What the handlers made of a request: an answer, a failure, or nothing yet.\<close>

definition over_cap :: "('f, 'r) listener \<Rightarrow> incoming \<Rightarrow> bool" where
  "over_cap lis req \<longleftrightarrow> (case ln_maxRequestBodySize lis of Some n \<Rightarrow> number_greater (in_contentLength req) (of_nat n) | None \<Rightarrow> False)"

definition route_outcome :: "web_env \<Rightarrow> ('f, 'r) answers \<Rightarrow> ('f, 'r) listener \<Rightarrow> incoming \<Rightarrow> (thrown + node_response) option" where
  "route_outcome we an lis req = (case nodeRequestToWebRequest we req of Inl e \<Rightarrow> Some (Inl e) | Inr w \<Rightarrow> route_answer an lis we w)"

definition tame :: "thrown + node_response \<Rightarrow> bool" where
  "tame x \<longleftrightarrow> (case x of Inl e \<Rightarrow> printable e | Inr r \<Rightarrow> (case failure_of r of Some e \<Rightarrow> printable e | None \<Rightarrow> True))"

lemma listener_serve_spec:
  assumes "drains acks" "drains acks'" and x: "route_outcome we an lis req = Some x" "tame x"
  shows "listener_serve we an lis req acks acks' res = Some
    (case x of
       Inl e \<Rightarrow> listener_catch lis req acks' e res
     | Inr r \<Rightarrow>
         (case (if is_head req then None else failure_of r) of
            None \<Rightarrow> (Written, res_end (if is_head req then [] else body_bytes_of r) (prepared req r res), [])
          | Some e \<Rightarrow> listener_catch lis req acks' e ((prepared req r res)\<lparr>sr_body := sr_body res @ body_bytes_of r,
              sr_headersSent := (sr_headersSent res \<or> (\<exists>cs f. nr_body r = Some (cs, f) \<and> cs \<noteq> []))\<rparr>)))"
  using x
  by (auto simp: listener_serve_def route_outcome_def writeResponse_spec [OF assms(1)] split: sum.splits option.splits)

lemma to_lower_idem: "to_lower (to_lower s) = to_lower s"
proof -
  have "lower_unit (lower_unit u) = lower_unit u" for u
  proof (cases "65 \<le> unat u \<and> unat u \<le> 90")
    case True
    then have "unat (u + 32) = unat u + 32" by (subst unat_add_lem [THEN iffD1]) simp_all
    with True show ?thesis by (simp add: lower_unit_def)
  qed (simp add: lower_unit_def)
  then show ?thesis by (simp add: to_lower_def)
qed



text \<open>
  When a body stream fails before its first byte, the masked 500 goes out with the headers of the answer
  that failed: every header the failed answer had set, other than the content type, stays, a
  declared content length included.
\<close>

theorem failed_stream_leaves_headers:
  assumes "drains acks" "drains acks'" and "\<not> over_cap lis req" and "\<not> is_head req"
    and "route_outcome we an lis req = Some (Inr r)" and "nr_body r = Some ([], Some e)" "printable e"
    and "header_values n (nr_headers r) \<noteq> []" "to_lower n \<notin> {js ''content-type'', js ''connection'', js ''set-cookie''}"
  shows "\<exists>res ev. makeRequestListener we an lis req acks acks' fresh_response = Some (Written, res, ev) \<and> sr_status res = 500
    \<and> map_of (sr_headers res) (to_lower n) = Some [last (header_values n (nr_headers r))]"
proof -
  have t: "tame (Inr r)" using assms(6,7) by (simp add: tame_def failure_of_def)
  have fe: "failure_of r = Some e" using assms(6) by (simp add: failure_of_def)
  note L = listener_serve_spec [OF assms(1,2,5) t, of fresh_response]
  have m: "makeRequestListener we an lis req acks acks' fresh_response = listener_serve we an lis req acks acks' fresh_response"
    using assms(3) by (simp add: makeRequestListener_def over_cap_def [symmetric])
  have hv: "header_values (to_lower n) (nr_headers r) = header_values n (nr_headers r)" by (simp add: header_values_def to_lower_idem)
  have old: "map_of (sr_headers (prepared req r res)) (to_lower n) = Some [last (header_values n (nr_headers r))]" for res
    using prepared_header [of "to_lower n" r req res] assms(8,9) by (simp add: hv to_lower_idem)
  have "header_values (to_lower n) (nr_headers (as_node internal_response)) = []"
    using assms(9) by (auto simp: as_node_def internal_response_def INTERNAL_HEADERS_def to_lower_idem to_lower_js)
  then have "map_of (sr_headers (prepared req (as_node internal_response) res)) (to_lower n) = map_of (sr_headers res) (to_lower n)" for res
    using assms(9) by (intro prepared_keeps) (simp_all add: to_lower_idem)
  with assms(4,6) fe show ?thesis
    unfolding m L
    by (simp add: listener_catch_spec [OF assms(2,7)] fresh_response_def res_end_def prepared_sels as_node_internal old body_bytes_of_def)
qed

theorem failed_stream_leaves_headers_witness:
  "\<exists>res ev. makeRequestListener \<lparr>we_url = (\<lambda>u _. Some u), we_pathname = id, we_accepts = (\<lambda>_. True)\<rparr>
      \<lparr>an_route = (\<lambda>(_ :: (unit, unit) wired) _ _. None), an_static = (\<lambda>_. None),
       an_fallback = (\<lambda>_. Some (Inr \<lparr>nr_status = 200, nr_headers = [(js ''content-length'', js ''9'')], nr_body = Some ([], Some (ThrownError []))\<rparr>))\<rparr>
      \<lparr>ln_maxRequestBodySize = None, ln_match = buildPathMatcher [], ln_fallback = True, ln_errors = \<lparr>se_onError = True, se_logger = False\<rparr>\<rparr>
      \<lparr>in_method = None, in_url = None, in_headers = [], in_contentLength = None, in_transferEncoding = False, in_complete = True\<rparr>
      [] [] fresh_response = Some (Written, res, ev) \<and> sr_status res = 500 \<and> map_of (sr_headers res) (js ''content-length'') = Some [js ''9'']"
proof -
  let ?we = "\<lparr>we_url = (\<lambda>u _. Some u), we_pathname = id, we_accepts = (\<lambda>_. True)\<rparr>"
  let ?r = "\<lparr>nr_status = 200, nr_headers = [(js ''content-length'', js ''9'')], nr_body = Some ([], Some (ThrownError []))\<rparr>"
  let ?an = "\<lparr>an_route = (\<lambda>(_ :: (unit, unit) wired) _ _. None), an_static = (\<lambda>_. None), an_fallback = (\<lambda>_. Some (Inr ?r))\<rparr>"
  let ?lis = "\<lparr>ln_maxRequestBodySize = None, ln_match = buildPathMatcher [], ln_fallback = True, ln_errors = \<lparr>se_onError = True, se_logger = False\<rparr>\<rparr>"
  let ?req = "\<lparr>in_method = None, in_url = None, in_headers = [], in_contentLength = None, in_transferEncoding = False, in_complete = True\<rparr>"
  have m: "match_path (buildPathMatcher ([] :: (jsstring \<times> (unit, unit) methods) list)) p = None" for p
    by (simp add: match_path_def buildPathMatcher_def)
  have o: "route_outcome ?we ?an ?lis ?req = Some (Inr ?r)"
    by (simp add: route_outcome_def nodeRequestToWebRequest_def route_answer_def Let_def m)
  have l: "to_lower (js ''content-length'') = js ''content-length''" by (simp add: to_lower_js)
  show ?thesis
    using failed_stream_leaves_headers [OF _ _ _ _ o, of "[]" "[]" "ThrownError []" "js ''content-length''"]
    by (simp add: drains_def over_cap_def printable_def l js_inject)
qed

section \<open>Static responses\<close>

text \<open>
  A prebuilt response under node: its body can be read once. Calls of \<open>materializeStaticResponse\<close>, the end of the
  one body read, and the delivery to a waiting call come in any order; \<open>sc_reads\<close> counts the reads.
\<close>

datatype static_cache = Uncached | Reading | Cached "bytes option" | Broken thrown

record static_cell =
  sc_response :: node_response
  sc_cache :: static_cache
  sc_reads :: nat
  sc_waiting :: nat
  sc_given :: "(thrown + node_response) list"

definition static_headers :: "header list \<Rightarrow> header list" where
  "static_headers hs = filter (\<lambda>h. to_lower (fst h) \<noteq> js ''content-length'' \<and> to_lower (fst h) \<noteq> js ''transfer-encoding'') hs"

definition replay :: "node_response \<Rightarrow> bytes option \<Rightarrow> node_response" where
  "replay r body = r\<lparr>nr_headers := static_headers (nr_headers r), nr_body := map_option (\<lambda>b. ([b], None)) body\<rparr>"

definition materializeStaticResponse :: "static_cell \<Rightarrow> static_cell" where
  "materializeStaticResponse c =
     (let c1 = (if sc_cache c = Uncached
                then (if nr_body (sc_response c) = None then c\<lparr>sc_cache := Cached None\<rparr> else c\<lparr>sc_cache := Reading, sc_reads := sc_reads c + 1\<rparr>)
                else c)
      in c1\<lparr>sc_waiting := sc_waiting c1 + 1\<rparr>)"

definition body_read :: "static_cell \<Rightarrow> static_cell" where
  "body_read c = (if sc_cache c = Reading
     then c\<lparr>sc_cache := (case nr_body (sc_response c) of
              Some (_, Some e) \<Rightarrow> Broken e
            | Some (cs, None) \<Rightarrow> (if sc_reads c = 1 then Cached (Some (concat cs)) else Broken (ThrownError (js ''Body is unusable'')))
            | None \<Rightarrow> Cached None)\<rparr>
     else c)"

definition deliver :: "static_cell \<Rightarrow> static_cell" where
  "deliver c = (if sc_waiting c = 0 then c
     else case sc_cache c of
            Cached b \<Rightarrow> c\<lparr>sc_waiting := sc_waiting c - 1, sc_given := sc_given c @ [Inr (replay (sc_response c) b)]\<rparr>
          | Broken e \<Rightarrow> c\<lparr>sc_waiting := sc_waiting c - 1, sc_given := sc_given c @ [Inl e]\<rparr>
          | _ \<Rightarrow> c)"

definition fresh_cell :: "node_response \<Rightarrow> static_cell" where
  "fresh_cell r = \<lparr>sc_response = r, sc_cache = Uncached, sc_reads = 0, sc_waiting = 0, sc_given = []\<rparr>"

inductive static_reach :: "node_response \<Rightarrow> nat \<Rightarrow> static_cell \<Rightarrow> bool" for r where
  st_start: "static_reach r 0 (fresh_cell r)"
| st_call: "static_reach r n c \<Longrightarrow> static_reach r (Suc n) (materializeStaticResponse c)"
| st_read: "static_reach r n c \<Longrightarrow> static_reach r n (body_read c)"
| st_deliver: "static_reach r n c \<Longrightarrow> static_reach r n (deliver c)"

definition static_result :: "node_response \<Rightarrow> thrown + node_response" where
  "static_result r = (case failure_of r of Some e \<Rightarrow> Inl e | None \<Rightarrow> Inr (replay r (map_option (\<lambda>_. body_bytes_of r) (nr_body r))))"

definition static_ok :: "node_response \<Rightarrow> nat \<Rightarrow> static_cell \<Rightarrow> bool" where
  "static_ok r n c \<longleftrightarrow> sc_response c = r \<and> sc_reads c \<le> 1 \<and> length (sc_given c) + sc_waiting c = n
     \<and> set (sc_given c) \<subseteq> {static_result r}
     \<and> (case sc_cache c of
          Uncached \<Rightarrow> sc_reads c = 0
        | Reading \<Rightarrow> sc_reads c = 1 \<and> nr_body r \<noteq> None
        | Cached b \<Rightarrow> static_result r = Inr (replay r b)
        | Broken e \<Rightarrow> static_result r = Inl e)"

lemma static_result_none: "nr_body r = None \<Longrightarrow> static_result r = Inr (replay r None)"
  by (simp add: static_result_def failure_of_def)

lemma static_reach_ok: "static_reach r n c \<Longrightarrow> static_ok r n c"
proof (induction rule: static_reach.induct)
  case st_start
  then show ?case by (simp add: static_ok_def fresh_cell_def)
next
  case (st_call n c)
  then show ?case
    by (cases "sc_cache c"; auto simp: static_ok_def materializeStaticResponse_def Let_def dest: static_result_none)
next
  case (st_read n c)
  then show ?case
    by (auto simp: static_ok_def body_read_def static_result_def failure_of_def body_bytes_of_def
        split: static_cache.splits option.splits if_splits)
next
  case (st_deliver n c)
  then show ?case by (auto simp: static_ok_def deliver_def split: static_cache.splits)
qed

text \<open>
  A prebuilt response can be served any number of times under node although its body is a one-shot
  stream: however the requests, the one body read and the deliveries interleave, the body is read at
  most once, no call is lost, and every call gets the same answer: status, headers without the framing of the original
  stream, and the whole body; or, if that read failed, its error.
\<close>

theorem static_replayed:
  assumes "static_reach r n c"
  shows "sc_reads c \<le> 1 \<and> length (sc_given c) + sc_waiting c = n \<and> set (sc_given c) \<subseteq> {static_result r}"
  using static_reach_ok [OF assms] by (simp add: static_ok_def)

theorem static_replayed_witness:
  "let r = \<lparr>nr_status = 200, nr_headers = [], nr_body = Some ([[1], [2]], None)\<rparr>;
       c = deliver (deliver (body_read (materializeStaticResponse (materializeStaticResponse (fresh_cell r)))))
   in sc_given c = [static_result r, static_result r]"
proof -
  let ?r = "\<lparr>nr_status = 200, nr_headers = [], nr_body = Some ([[1], [2]], None)\<rparr>"
  let ?c = "deliver (deliver (body_read (materializeStaticResponse (materializeStaticResponse (fresh_cell ?r)))))"
  have "static_reach ?r 2 ?c"
    unfolding numeral_2_eq_2 by (intro st_deliver st_read st_call st_start)
  from static_replayed [OF this] have "set (sc_given ?c) \<subseteq> {static_result ?r}" by blast
  moreover have "length (sc_given ?c) = 2" by code_simp
  then obtain x y where "sc_given ?c = [x, y]" by (auto simp: length_Suc_conv numeral_2_eq_2)
  ultimately show ?thesis by (simp add: Let_def)
qed

section \<open>Handshakes\<close>

text \<open>The lines of a head: what the peer reads, split at each line feed.\<close>

fun lines_of :: "jsstring \<Rightarrow> jsstring list" where
  "lines_of [] = [[]]"
| "lines_of (c # cs) = (if c = 10 then [] # lines_of cs else (case lines_of cs of l # ls \<Rightarrow> (c # l) # ls | [] \<Rightarrow> [[c]]))"

lemma lines_of_nonempty: "lines_of s \<noteq> []"
  by (induction s) (auto split: list.splits)

lemma lines_of_line: "10 \<notin> set l \<Longrightarrow> lines_of (l @ 10 # rest) = l # lines_of rest"
  by (induction l) auto

lemma token_no_lf: "WS_PROTOCOL_TOKEN p \<Longrightarrow> 10 \<notin> set p \<and> 13 \<notin> set p"
  by (auto simp: WS_PROTOCOL_TOKEN_def list_all_iff token_char_def js_def)

text \<open>
  An upgrade answer cannot be used to smuggle headers: whatever accept key and subprotocol the caller
  passes, even reflected from the client, the head consists of the status line, the two fixed headers, the accept
  header, at most one subprotocol header and the blank line, and nothing after it.
\<close>

theorem handshake_not_injectable:
  "case formatWebSocketHandshake accept protocol of
     Inl e \<Rightarrow> 10 \<in> set accept \<or> 13 \<in> set accept
   | Inr raw \<Rightarrow> lines_of raw = map (\<lambda>l. l @ [13]) ([js ''HTTP/1.1 101 Switching Protocols'', js ''Upgrade: websocket'', js ''Connection: Upgrade'',
         js ''Sec-WebSocket-Accept: '' @ accept] @
         (case protocol of Some p \<Rightarrow> (if WS_PROTOCOL_TOKEN p then [js ''Sec-WebSocket-Protocol: '' @ p] else []) | None \<Rightarrow> []) @ [[]]) @ [[]]
       \<and> 13 \<notin> set accept"
proof (cases "list_ex (\<lambda>c. c = 13 \<or> c = 10) accept")
  case True
  then show ?thesis by (auto simp: formatWebSocketHandshake_def list_ex_iff)
next
  case False
  have L: "lines_of ((l @ [13]) @ 10 # rest) = (l @ [13]) # lines_of rest" if "10 \<notin> set l" for l rest
    by (rule lines_of_line) (use that in simp)
  have fixed: "10 \<notin> set (js ''HTTP/1.1 101 Switching Protocols'')" "10 \<notin> set (js ''Upgrade: websocket'')" "10 \<notin> set (js ''Connection: Upgrade'')"
    "10 \<notin> set (js ''Sec-WebSocket-Accept: '')" "10 \<notin> set (js ''Sec-WebSocket-Protocol: '')" by (simp_all add: js_def)
  have a: "10 \<notin> set accept" "13 \<notin> set accept" using False by (auto simp: list_ex_iff)
  let ?prot = "case protocol of Some p \<Rightarrow> (if WS_PROTOCOL_TOKEN p then [js ''Sec-WebSocket-Protocol: '' @ p] else []) | None \<Rightarrow> []"
  have p: "lines_of ((case protocol of Some pr \<Rightarrow> (if WS_PROTOCOL_TOKEN pr then js ''Sec-WebSocket-Protocol: '' @ pr @ [13, 10] else []) | None \<Rightarrow> [])
      @ [13, 10]) = map (\<lambda>l. l @ [13]) (?prot @ [[]]) @ [[]]"
    using fixed(5) token_no_lf L [of "js ''Sec-WebSocket-Protocol: '' @ the protocol" "[13, 10]"] by (auto split: option.split)
  show ?thesis
    using False a fixed L [of "js ''HTTP/1.1 101 Switching Protocols''"] L [of "js ''Upgrade: websocket''"] L [of "js ''Connection: Upgrade''"]
      L [of "js ''Sec-WebSocket-Accept: '' @ accept"] p
    by (simp add: formatWebSocketHandshake_def)
qed

end
