(* ===== verification/NativeCall.thy ===== *)
theory NativeCall
  imports Codec
begin

text \<open>
  Calling a native symbol that writes into a buffer (\<open>src/src/native/ffi/build/util.ts\<close>).  A symbol
  is a function of the attempt's number and of the output buffer: it returns the byte count it
  reports and the buffer afterwards, so two attempts of one operation may answer differently.
  \<open>growExact\<close> is the grow-and-retry loop; with its outcome the model returns the sizes of the
  buffers it allocated, one for each native call.

  The interface \<open>needed_size\<close> is the convention of the C ABI: zero for an error, the written count
  when the answer fits, the exact size it needs otherwise.  It says nothing on an answer of length
  zero beyond that, which the loop cannot tell from an error.
\<close>

type_synonym native_write = "nat \<Rightarrow> bytes \<Rightarrow> nat \<times> bytes"

section \<open>Helpers\<close>

definition flag :: "bool option \<Rightarrow> nat" where
  "flag v = (if v = Some True then 1 else 0)"

text \<open>\<open>Buffer.allocUnsafe\<close> leaves whatever the pages held: \<open>junk\<close>.\<close>

definition allocOut :: "(nat \<Rightarrow> byte) \<Rightarrow> nat \<Rightarrow> bytes" where
  "allocOut junk n = (if 512 \<le> n then map junk [0..<n] else new_buf n)"

lemma length_allocOut [simp]: "length (allocOut junk n) = n"
  by (simp add: allocOut_def)

function grow_loop ::
  "(nat \<Rightarrow> nat \<Rightarrow> byte) \<Rightarrow> native_write \<Rightarrow> nat \<Rightarrow> string \<Rightarrow> nat \<Rightarrow> nat \<Rightarrow> nat list \<times> bytes result" where
  "grow_loop junk wr mx err k cap =
     (let (w, out) = wr k (allocOut (junk k) cap) in
      if w = 0 then ([cap], Inl (JsError err))
      else if w \<le> cap then ([cap], Inr (subarray out 0 w))
      else if mx < w then ([cap], Inl (JsError err))
      else let (sizes, r) = grow_loop junk wr mx err (k + 1) (min w mx) in (cap # sizes, r))"
  by pat_completeness auto
termination
  by (relation "measure (\<lambda>(junk, wr, mx, err, k, cap). mx - cap)") auto

declare grow_loop.simps [simp del]

definition growExact ::
  "(nat \<Rightarrow> nat \<Rightarrow> byte) \<Rightarrow> native_write \<Rightarrow> nat \<Rightarrow> nat \<Rightarrow> string \<Rightarrow> nat list \<times> bytes result" where
  "growExact junk wr initial mx err = grow_loop junk wr mx err 0 (min (max initial 16) mx)"

definition writeOrThrow :: "nat \<Rightarrow> nat \<Rightarrow> string \<Rightarrow> nat result" where
  "writeOrThrow w inputLen label =
     (if w = 0 \<and> inputLen \<noteq> 0
      then Inl (JsError (label @ '': invalid input or output buffer too small'')) else Inr w)"

record rate_check =
  allowed :: bool
  remaining :: nat
  resetMs :: int

text \<open>\<open>getBigInt64\<close>: the two's complement reading of eight little-endian bytes.\<close>

definition get_int64 :: "bytes \<Rightarrow> nat \<Rightarrow> int result" where
  "get_int64 bs off =
     rbind (get_uint 8 bs off) (\<lambda>n. Inr (if n < 2 ^ 63 then int n else int n - 2 ^ 64))"

definition unpackRateCheck :: "bytes \<Rightarrow> rate_check result" where
  "unpackRateCheck out =
     rbind (get_uint 4 out 1) (\<lambda>rem.
     rbind (get_int64 out 5) (\<lambda>rst.
       Inr \<lparr>allowed = (0 < length out \<and> out ! 0 = 1), remaining = rem, resetMs = rst\<rparr>))"

definition b64Len :: "nat \<Rightarrow> nat" where
  "b64Len n = (if n = 0 then 0 else (n + 2) div 3 * 4 - (3 - n mod 3) mod 3)"

text \<open>\<open>String(n).length\<close> of a non-negative integer below the exponent notation.\<close>

fun decimal_digits :: "nat \<Rightarrow> string" where
  "decimal_digits n =
     (if n < 10 then [char_of (48 + n)] else decimal_digits (n div 10) @ [char_of (48 + n mod 10)])"

declare decimal_digits.simps [simp del]

definition argon2PhcLength :: "nat \<Rightarrow> nat \<Rightarrow> nat \<Rightarrow> nat \<Rightarrow> nat \<Rightarrow> nat" where
  "argon2PhcLength m t p saltLen outLen =
     15 + 2 + length (decimal_digits m) + 3 + length (decimal_digits t) + 3 +
     length (decimal_digits p) + 1 + b64Len saltLen + 1 + b64Len outLen"

definition cstr :: "jsstring option \<Rightarrow> string \<Rightarrow> jsstring result" where
  "cstr s label = (case s of None \<Rightarrow> Inl (JsError label) | Some x \<Rightarrow> Inr x)"

section \<open>The retry loop on any native behaviour\<close>

lemma grow_loop_fst_nonempty: "fst (grow_loop junk wr mx err k cap) \<noteq> []"
  by (subst grow_loop.simps) (simp add: Let_def split_beta)

lemma grow_loop_once:
  assumes "wr k (allocOut (junk k) cap) = (w, out)"
  shows "w = 0 \<or> mx < w \<and> cap < w \<Longrightarrow> grow_loop junk wr mx err k cap = ([cap], Inl (JsError err))"
    and "0 < w \<Longrightarrow> w \<le> cap \<Longrightarrow> grow_loop junk wr mx err k cap = ([cap], Inr (subarray out 0 w))"
    and "cap < w \<Longrightarrow> w \<le> mx \<Longrightarrow> grow_loop junk wr mx err k cap =
      (cap # fst (grow_loop junk wr mx err (k + 1) w), snd (grow_loop junk wr mx err (k + 1) w))"
  by (subst grow_loop.simps, auto simp: assms min_def split_beta)+

lemma grow_loop_cases:
  obtains (stop) w out r where "wr k (allocOut (junk k) cap) = (w, out)"
      "grow_loop junk wr mx err k cap = ([cap], r)"
      "r = Inl (JsError err) \<or> 0 < w \<and> w \<le> cap \<and> r = Inr (subarray out 0 w)"
  | (retry) w out where "wr k (allocOut (junk k) cap) = (w, out)" "cap < w" "w \<le> mx"
      "grow_loop junk wr mx err k cap =
        (cap # fst (grow_loop junk wr mx err (k + 1) w), snd (grow_loop junk wr mx err (k + 1) w))"
proof -
  obtain w out where w: "wr k (allocOut (junk k) cap) = (w, out)" by fastforce
  note once = grow_loop_once [where wr = wr and k = k and junk = junk and cap = cap and mx = mx
    and err = err, OF w]
  consider "w = 0 \<or> mx < w \<and> cap < w" | "0 < w" "w \<le> cap" | "cap < w" "w \<le> mx" by linarith
  then show ?thesis
    by cases (use once w that in \<open>blast | metis\<close>)+
qed

lemma grow_loop_sizes:
  "cap \<le> mx \<Longrightarrow> s = fst (grow_loop junk wr mx err k cap) \<Longrightarrow>
   s \<noteq> [] \<and> hd s = cap \<and> sorted_wrt (<) s \<and> set s \<subseteq> {cap..mx} \<and> length s \<le> Suc (mx - cap)"
proof (induction junk wr mx err k cap arbitrary: s rule: grow_loop.induct)
  case (1 junk wr mx err k cap)
  show ?case
  proof (cases rule: grow_loop_cases [where wr = wr and k = k and junk = junk and cap = cap and mx = mx and err = err])
    case (retry w out)
    let ?s = "fst (grow_loop junk wr mx err (k + 1) w)"
    have "?s \<noteq> [] \<and> sorted_wrt (<) ?s \<and> set ?s \<subseteq> {w..mx} \<and> length ?s \<le> Suc (mx - w)"
      using "1.IH" [OF retry(1) [symmetric] refl] retry(2,3) by (simp add: min_def)
    with retry "1.prems" show ?thesis by fastforce
  qed (use "1.prems" in simp)
qed

text \<open>A symbol of the C ABI never changes the length of the buffer.\<close>

definition in_place :: "native_write \<Rightarrow> bool" where
  "in_place wr \<longleftrightarrow> (\<forall>k out. length (snd (wr k out)) = length out)"

lemma grow_loop_result:
  assumes "in_place wr"
  shows "grow_loop junk wr mx err k cap = (s, r) \<Longrightarrow>
    r = Inl (JsError err) \<or> (\<exists>b. r = Inr b \<and> b \<noteq> [] \<and> length b \<le> last s)"
  using assms
proof (induction junk wr mx err k cap arbitrary: s rule: grow_loop.induct)
  case (1 junk wr mx err k cap)
  show ?case
  proof (cases rule: grow_loop_cases [where wr = wr and k = k and junk = junk and cap = cap and mx = mx and err = err])
    case (stop w out r')
    have "length out = cap"
      using "1.prems"(2) stop(1) by (metis in_place_def length_allocOut snd_conv)
    with stop "1.prems"(1) show ?thesis by (auto simp: subarray_def)
  next
    case (retry w out)
    let ?g = "grow_loop junk wr mx err (k + 1) w"
    have "r = Inl (JsError err) \<or> (\<exists>b. r = Inr b \<and> b \<noteq> [] \<and> length b \<le> last (fst ?g))"
      using "1.IH" [OF retry(1) [symmetric] refl, of "fst ?g"] retry "1.prems"
      by (simp add: min_def prod_eq_iff)
    moreover have "fst ?g \<noteq> []"
      using grow_loop_sizes [OF retry(3) refl] by blast
    ultimately show ?thesis using retry(4) "1.prems"(1) by auto
  qed
qed

text \<open>
  C14. the grow-and-retry loop ends for every native symbol, whatever counts it reports, and its
  allocations are bounded: the buffer sizes it tries start at the clamped initial size, strictly
  increase and never pass the maximum, so there are at most as many calls as sizes up to the
  maximum; it returns the error or a non-empty result that lies within the last buffer.
\<close>

theorem grow_terminates:
  assumes "in_place wr"
  shows "\<exists>s r. growExact junk wr initial mx err = (s, r) \<and>
    s \<noteq> [] \<and> hd s = min (max initial 16) mx \<and> sorted_wrt (<) s \<and> (\<forall>c \<in> set s. c \<le> mx) \<and>
    length s \<le> Suc (mx - hd s) \<and>
    (r = Inl (JsError err) \<or> (\<exists>b. r = Inr b \<and> b \<noteq> [] \<and> length b \<le> last s))"
proof -
  obtain s r where g: "growExact junk wr initial mx err = (s, r)" by fastforce
  then have l: "grow_loop junk wr mx err 0 (min (max initial 16) mx) = (s, r)"
    by (simp add: growExact_def)
  have "s = fst (grow_loop junk wr mx err 0 (min (max initial 16) mx))" by (simp add: l)
  from grow_loop_sizes [OF _ this] have "s \<noteq> [] \<and> hd s = min (max initial 16) mx \<and> sorted_wrt (<) s \<and>
      set s \<subseteq> {min (max initial 16) mx..mx} \<and> length s \<le> Suc (mx - min (max initial 16) mx)" by simp
  moreover have "r = Inl (JsError err) \<or> (\<exists>b. r = Inr b \<and> b \<noteq> [] \<and> length b \<le> last s)"
    by (rule grow_loop_result [OF assms l])
  ultimately show ?thesis using g by auto
qed

text \<open>A symbol that always asks for one byte more: the loop still stops, at the maximum.\<close>

definition greedy :: native_write where
  "greedy k out = (Suc (length out), out)"

theorem grow_terminates_witness:
  "\<exists>s r. growExact (\<lambda>_ _. 0) greedy 0 18 ''too small'' = (s, r) \<and> hd s = 16 \<and> length s \<le> 3 \<and>
     (\<forall>c \<in> set s. c \<le> 18)"
proof -
  have "in_place greedy" by (simp add: in_place_def greedy_def)
  from grow_terminates [OF this, of "\<lambda>_ _. 0" 0 18 "''too small''"]
  show ?thesis by auto
qed

section \<open>The needed-size convention\<close>

locale needed_size =
  fixes wr :: native_write
    and ans :: "nat \<Rightarrow> bytes option"
  assumes kept: "length (snd (wr k out)) = length out"
    and miss: "ans k = None \<Longrightarrow> fst (wr k out) = 0"
    and fits: "ans k = Some b \<Longrightarrow> length b \<le> length out \<Longrightarrow> wr k out = (length b, b @ drop (length b) out)"
    and small: "ans k = Some b \<Longrightarrow> length out < length b \<Longrightarrow> fst (wr k out) = length b"
begin

lemma in_place_wr: "in_place wr"
  by (simp add: in_place_def kept)

lemma written: "ans k = Some b \<Longrightarrow> fst (wr k out) = length b"
  using fits small by (metis fst_conv linorder_not_less)

text \<open>A buffer that the answer fits is the answer's prefix and otherwise untouched.\<close>

lemma confined:
  "ans k = Some b \<Longrightarrow> length b \<le> length out \<Longrightarrow>
   take (length b) (snd (wr k out)) = b \<and> drop (length b) (snd (wr k out)) = drop (length b) out"
  by (simp add: fits)

lemma grow_answer:
  assumes "\<forall>k. map_option length (ans k) = map_option length (ans 0)"
    and "cap = min (max initial 16) mx"
  shows "growExact junk wr initial mx err =
    (case ans 0 of None \<Rightarrow> ([cap], Inl (JsError err))
     | Some b \<Rightarrow>
         if b = [] \<or> mx < length b then ([cap], Inl (JsError err))
         else if length b \<le> cap then ([cap], Inr b)
         else ([cap, length b], Inr (the (ans 1))))"
proof -
  obtain w out where w: "wr 0 (allocOut (junk 0) cap) = (w, out)" by fastforce
  note once = grow_loop_once [where wr = wr and k = 0 and junk = junk and cap = cap and mx = mx
    and err = err, OF w]
  have g: "growExact junk wr initial mx err = grow_loop junk wr mx err 0 cap"
    by (simp add: growExact_def assms(2))
  show ?thesis
  proof (cases "ans 0")
    case None
    then have "w = 0" using miss [OF None, of "allocOut (junk 0) cap"] by (simp add: w)
    with None g once(1) show ?thesis by simp
  next
    case (Some b)
    have wb: "w = length b" using written [OF Some, of "allocOut (junk 0) cap"] by (simp add: w)
    consider (bad) "b = [] \<or> mx < length b" | (one) "b \<noteq> []" "length b \<le> mx" "length b \<le> cap"
      | (two) "b \<noteq> []" "length b \<le> mx" "cap < length b" by linarith
    then show ?thesis
    proof cases
      case bad
      then have "w = 0 \<or> mx < w \<and> cap < w" using wb assms(2) by auto
      with once(1) g Some bad show ?thesis by simp
    next
      case one
      have "out = b @ drop (length b) (allocOut (junk 0) cap)"
        using fits [OF Some, of "allocOut (junk 0) cap"] one(3) w by simp
      then have "subarray out 0 w = b" by (simp add: subarray_def wb)
      with once(2) g Some one wb show ?thesis by simp
    next
      case two
      obtain b' where b': "ans 1 = Some b'" "length b' = length b"
        using assms(1) [rule_format, of 1] Some by (cases "ans 1") auto
      have "wr 1 (allocOut (junk 1) (length b)) = (length b, b')"
        using fits [OF b'(1), of "allocOut (junk 1) (length b)"] b'(2) by simp
      then have "grow_loop junk wr mx err 1 (length b) = ([length b], Inr b')"
        using grow_loop_once(2) [where wr = wr and k = 1 and junk = junk and cap = "length b"] two b'(2)
        by (simp add: subarray_def)
      with once(3) g Some two wb b' show ?thesis by simp
    qed
  qed
qed

lemma grow_const:
  assumes "\<forall>k. ans k = a"
  shows "snd (growExact junk wr initial mx err) =
      (case a of None \<Rightarrow> Inl (JsError err)
       | Some b \<Rightarrow> if b \<noteq> [] \<and> length b \<le> mx then Inr b else Inl (JsError err))"
    and "length (fst (growExact junk wr initial mx err)) \<le> 2"
  using grow_answer [of "min (max initial 16) mx" initial mx junk err] assms
  by (auto split: option.split)

end

end
