(* ===== verification/NativeCompress.thy ===== *)
theory NativeCompress
  imports NativeCall
begin

text \<open>
  Compression across the native boundary: the streaming cores of \<open>src/rust/payload/compress.rs\<close>
  and their C exports (\<open>src/rust/ffi/payload.rs\<close>), and the wrappers of
  \<open>src/src/native/ffi/build/compress.ts\<close> over them.  The codecs themselves (flate2, brotli) are
  parameters: an encoder is the list of chunks it writes and whether it then succeeds, a decoder is
  the content its reader yields, whether the reader fails at its end, and how many bytes each read
  delivers.

  Both exports are shown to follow the needed-size convention, whatever the chunks and the read
  sizes; the wrapper theorems rest on these interpretations.
\<close>

section \<open>The streaming cores\<close>

datatype stream_error = Io | TooSmall nat | ExceedsMax nat

record counting_writer =
  cw_out :: bytes
  cw_pos :: nat
  cw_overflow :: nat

definition counting_write :: "bytes \<Rightarrow> counting_writer \<Rightarrow> counting_writer" where
  "counting_write buf w =
     (let cap = length (cw_out w) - cw_pos w;
          tk = min cap (length buf) in
      \<lparr>cw_out = take (cw_pos w) (cw_out w) @ take tk buf @ drop (cw_pos w + tk) (cw_out w),
       cw_pos = cw_pos w + tk,
       cw_overflow = cw_overflow w + (length buf - tk)\<rparr>)"

text \<open>An encoder run: the chunks it writes to its sink and whether it finished.\<close>

type_synonym encoder_run = "bytes list \<times> bool"

definition compress_into :: "encoder_run \<Rightarrow> bytes \<Rightarrow> (stream_error + nat) \<times> bytes" where
  "compress_into run out =
     (let w = fold counting_write (fst run) \<lparr>cw_out = out, cw_pos = 0, cw_overflow = 0\<rparr> in
      (if \<not> snd run then Inl Io
       else if 0 < cw_overflow w then Inl (TooSmall (cw_pos w + cw_overflow w))
       else Inr (cw_pos w), cw_out w))"

text \<open>
  A reader: the bytes it has still to yield and whether it fails once they are out.  \<open>gran\<close> bounds
  the size of one read by the position; a read into a non-empty buffer yields at least one byte
  unless the stream is at its end.
\<close>

type_synonym reader = "bytes \<times> bool"

definition stream_read :: "(nat \<Rightarrow> nat) \<Rightarrow> nat \<Rightarrow> reader \<Rightarrow> (stream_error + bytes \<times> reader)" where
  "stream_read gran m r =
     (if fst r = [] then (if snd r then Inl Io else Inr ([], r))
      else (let n = min m (Suc (gran (length (fst r)))) in
            Inr (take n (fst r), (drop n (fst r), snd r))))"

lemma stream_read_progress:
  "stream_read gran m r = Inr (b, r') \<Longrightarrow> b \<noteq> [] \<Longrightarrow> length (fst r') < length (fst r)"
  by (cases r) (auto simp: stream_read_def Let_def split: if_splits)

text \<open>The first loop: read into the rest of the buffer until it is full or the stream ends.\<close>

function fill_loop :: "(nat \<Rightarrow> nat) \<Rightarrow> nat \<Rightarrow> bytes \<Rightarrow> reader \<Rightarrow> (stream_error + reader) \<times> bytes" where
  "fill_loop gran cap got r =
     (if length got < cap then
        (case stream_read gran (cap - length got) r of
           Inl e \<Rightarrow> (Inl e, got)
         | Inr (b, r') \<Rightarrow> if b = [] then (Inr r', got) else fill_loop gran cap (got @ b) r')
      else (Inr r, got))"
  by pat_completeness auto
termination
  by (relation "measure (\<lambda>(gran, cap, got, r). length (fst r))") (auto dest: stream_read_progress)

text \<open>The second loop: count what is left through a scratch of 4096 bytes, up to the cap.\<close>

function count_loop :: "(nat \<Rightarrow> nat) \<Rightarrow> nat \<Rightarrow> nat \<Rightarrow> reader \<Rightarrow> stream_error + nat" where
  "count_loop gran mx seen r =
     (case stream_read gran 4096 r of
        Inl e \<Rightarrow> Inl e
      | Inr (b, r') \<Rightarrow>
          if b = [] then Inr seen
          else if mx < seen + length b then Inl (ExceedsMax mx)
          else count_loop gran mx (seen + length b) r')"
  by pat_completeness auto
termination
  by (relation "measure (\<lambda>(gran, mx, seen, r). length (fst r))") (auto dest: stream_read_progress)

declare fill_loop.simps [simp del] count_loop.simps [simp del]

definition decompress_into ::
  "(nat \<Rightarrow> nat) \<Rightarrow> reader \<Rightarrow> nat \<Rightarrow> bytes \<Rightarrow> (stream_error + nat) \<times> bytes" where
  "decompress_into gran dec mx out =
     (let (st, got) = fill_loop gran (length out) [] dec;
          out' = got @ drop (length got) out;
          written = length got in
      (case st of
         Inl e \<Rightarrow> Inl e
       | Inr r \<Rightarrow>
           if mx < written then Inl (ExceedsMax mx)
           else if written < length out then Inr written
           else (case count_loop gran mx written r of
                   Inl e \<Rightarrow> Inl e
                 | Inr tot \<Rightarrow> if written < tot then Inl (TooSmall tot) else Inr written),
       out'))"

text \<open>The C export: the written count, the needed size, or zero.\<close>

definition stream_export :: "(stream_error + nat) \<times> bytes \<Rightarrow> nat \<times> bytes" where
  "stream_export r =
     (case fst r of Inr w \<Rightarrow> w | Inl (TooSmall n) \<Rightarrow> n | Inl _ \<Rightarrow> 0, snd r)"

definition castrum_compress :: "(bytes \<Rightarrow> nat \<Rightarrow> encoder_run) \<Rightarrow> bytes \<Rightarrow> nat \<Rightarrow> bytes \<Rightarrow> nat \<times> bytes" where
  "castrum_compress enc data extra out = stream_export (compress_into (enc data extra) out)"

definition castrum_decompress ::
  "(nat \<Rightarrow> nat) \<Rightarrow> (bytes \<Rightarrow> reader) \<Rightarrow> bytes \<Rightarrow> nat \<Rightarrow> bytes \<Rightarrow> nat \<times> bytes" where
  "castrum_decompress gran dec data mx out = stream_export (decompress_into gran (dec data) mx out)"

definition castrum_gzip_isize :: "bytes \<Rightarrow> nat" where
  "castrum_gzip_isize s =
     (if length s < 18 then 0
      else if s ! 0 \<noteq> 0x1f \<or> s ! 1 \<noteq> 0x8b then 0
      else le_nat (drop (length s - 4) s))"

section \<open>The wrappers\<close>

definition MAX_DECOMPRESSED :: nat where "MAX_DECOMPRESSED = 64 * 1024 * 1024"
definition COMPRESS_INITIAL_CAP :: nat where "COMPRESS_INITIAL_CAP = 16 * 1024"
definition COMPRESS_MAX_CAP :: nat where "COMPRESS_MAX_CAP = 1024 * 1024"
definition COMPRESS_HEADROOM :: nat where "COMPRESS_HEADROOM = 64"
definition DECOMPRESS_GUESS_MULTIPLIER_GZIP :: nat where "DECOMPRESS_GUESS_MULTIPLIER_GZIP = 16"
definition DECOMPRESS_GUESS_MULTIPLIER_BROTLI :: nat where "DECOMPRESS_GUESS_MULTIPLIER_BROTLI = 32"
definition DECOMPRESS_FALLBACK_CAP :: nat where "DECOMPRESS_FALLBACK_CAP = 4 * 1024 * 1024"
definition DECOMPRESS_MIN_INITIAL :: nat where "DECOMPRESS_MIN_INITIAL = 1024"

lemmas compress_constants = MAX_DECOMPRESSED_def COMPRESS_INITIAL_CAP_def COMPRESS_MAX_CAP_def
  COMPRESS_HEADROOM_def DECOMPRESS_GUESS_MULTIPLIER_GZIP_def DECOMPRESS_GUESS_MULTIPLIER_BROTLI_def
  DECOMPRESS_FALLBACK_CAP_def DECOMPRESS_MIN_INITIAL_def

type_synonym raw_codec = "bytes \<Rightarrow> nat \<Rightarrow> bytes \<Rightarrow> nat \<times> bytes"

definition or_default :: "nat \<Rightarrow> nat option \<Rightarrow> nat" where
  "or_default d v = (case v of None \<Rightarrow> d | Some x \<Rightarrow> x)"

text \<open>What every caller-buffer wrapper of the convention does with the reported count.\<close>

definition checked_into :: "string \<Rightarrow> string \<Rightarrow> bytes \<Rightarrow> nat \<times> bytes \<Rightarrow> nat result \<times> bytes" where
  "checked_into bad small output r =
     (if fst r = 0 then Inl (JsError bad)
      else if length output < fst r then Inl (JsError small) else Inr (fst r), snd r)"

type_synonym junk = "nat \<Rightarrow> nat \<Rightarrow> byte"

definition gzipCompress ::
  "junk \<Rightarrow> raw_codec \<Rightarrow> bytes \<Rightarrow> nat option \<Rightarrow> nat list \<times> bytes result" where
  "gzipCompress junk raw data level =
     growExact junk (\<lambda>k out. raw data (min (or_default 6 level) 9) out)
       (min (length data + COMPRESS_HEADROOM) COMPRESS_INITIAL_CAP)
       (max (length data * 2 + COMPRESS_HEADROOM) COMPRESS_MAX_CAP)
       ''gzip compress: output buffer too small''"

definition gzipCompressInto :: "raw_codec \<Rightarrow> bytes \<Rightarrow> bytes \<Rightarrow> nat option \<Rightarrow> nat result \<times> bytes" where
  "gzipCompressInto raw data output level =
     checked_into ''gzip compress: invalid input'' ''gzip compress: output buffer too small'' output
       (raw data (min (or_default 6 level) 9) output)"

definition ffi_gzipDecompress ::
  "junk \<Rightarrow> raw_codec \<Rightarrow> (bytes \<Rightarrow> nat) \<Rightarrow> bytes \<Rightarrow> nat option \<Rightarrow> nat list \<times> bytes result" where
  "ffi_gzipDecompress junk raw gzipIsize data maxDecompressed =
     (let mx = or_default MAX_DECOMPRESSED maxDecompressed;
          isize = gzipIsize data;
          initial = (if isize \<noteq> 0 then min isize mx
                     else min (length data * DECOMPRESS_GUESS_MULTIPLIER_GZIP) DECOMPRESS_FALLBACK_CAP) in
      growExact junk (\<lambda>k out. raw data mx out) initial mx
        ''gzip decompress: invalid stream or exceeded max decompressed size'')"

definition gzipDecompressInto :: "raw_codec \<Rightarrow> bytes \<Rightarrow> bytes \<Rightarrow> nat option \<Rightarrow> nat result \<times> bytes" where
  "gzipDecompressInto raw data output maxDecompressed =
     (let mx = or_default MAX_DECOMPRESSED maxDecompressed in
      checked_into ''gzip decompress: invalid stream or exceeded max decompressed size''
        ''gzip decompress: output buffer too small'' output (raw data mx output))"

definition brotliCompress ::
  "junk \<Rightarrow> raw_codec \<Rightarrow> bytes \<Rightarrow> nat option \<Rightarrow> nat list \<times> bytes result" where
  "brotliCompress junk raw data quality =
     growExact junk (\<lambda>k out. raw data (min (or_default 5 quality) 11) out)
       (min (length data + COMPRESS_HEADROOM) COMPRESS_INITIAL_CAP)
       (max (length data * 2 + COMPRESS_HEADROOM) COMPRESS_MAX_CAP)
       ''brotli compress: output buffer too small''"

definition brotliCompressInto :: "raw_codec \<Rightarrow> bytes \<Rightarrow> bytes \<Rightarrow> nat option \<Rightarrow> nat result \<times> bytes" where
  "brotliCompressInto raw data output quality =
     checked_into ''brotli compress: invalid input'' ''brotli compress: output buffer too small'' output
       (raw data (min (or_default 5 quality) 11) output)"

definition ffi_brotliDecompress ::
  "junk \<Rightarrow> raw_codec \<Rightarrow> bytes \<Rightarrow> nat option \<Rightarrow> nat list \<times> bytes result" where
  "ffi_brotliDecompress junk raw data maxDecompressed =
     (let mx = or_default MAX_DECOMPRESSED maxDecompressed in
      growExact junk (\<lambda>k out. raw data mx out)
        (min (max (length data * DECOMPRESS_GUESS_MULTIPLIER_BROTLI) DECOMPRESS_MIN_INITIAL)
          DECOMPRESS_FALLBACK_CAP) mx
        ''brotli decompress: invalid stream or exceeded max decompressed size'')"

definition brotliDecompressInto :: "raw_codec \<Rightarrow> bytes \<Rightarrow> bytes \<Rightarrow> nat option \<Rightarrow> nat result \<times> bytes" where
  "brotliDecompressInto raw data output maxDecompressed =
     (let mx = or_default MAX_DECOMPRESSED maxDecompressed in
      checked_into ''brotli decompress: invalid stream or exceeded max decompressed size''
        ''brotli decompress: output buffer too small'' output (raw data mx output))"

section \<open>The exports follow the convention\<close>

definition counting_state :: "bytes \<Rightarrow> bytes \<Rightarrow> counting_writer" where
  "counting_state out s =
     \<lparr>cw_out = take (length out) s @ drop (length s) out, cw_pos = min (length out) (length s),
      cw_overflow = length s - length out\<rparr>"

lemma counting_write_state: "counting_write buf (counting_state out s) = counting_state out (s @ buf)"
  by (cases "length s \<le> length out")
    (auto simp: counting_write_def counting_state_def Let_def min_def)

lemma counting_fold: "fold counting_write cs (counting_state out s) = counting_state out (s @ concat cs)"
  by (induction cs arbitrary: s) (simp_all add: counting_write_state)

lemma compress_into_spec:
  "compress_into (cs, ok) out =
     (if \<not> ok then Inl Io
      else if length out < length (concat cs) then Inl (TooSmall (length (concat cs)))
      else Inr (length (concat cs)),
      take (length out) (concat cs) @ drop (length (concat cs)) out)"
proof -
  have "\<lparr>cw_out = out, cw_pos = 0, cw_overflow = 0\<rparr> = counting_state out []"
    by (simp add: counting_state_def)
  then show ?thesis
    using counting_fold [of cs out "[]"] by (auto simp: compress_into_def counting_state_def)
qed

text \<open>What an encoder run answers, and what a stream answers under a cap.\<close>

definition run_answer :: "encoder_run \<Rightarrow> bytes option" where
  "run_answer run = (if snd run then Some (concat (fst run)) else None)"

definition stream_answer :: "reader \<Rightarrow> nat \<Rightarrow> bytes option" where
  "stream_answer r mx = (if snd r \<or> mx < length (fst r) then None else Some (fst r))"

interpretation compressed: needed_size "\<lambda>k. castrum_compress enc data extra"
  "\<lambda>k. run_answer (enc data extra)" for enc data extra
  by (unfold_locales; cases "enc data extra")
    (auto simp: castrum_compress_def stream_export_def compress_into_spec run_answer_def split: if_splits)

lemma split_read:
  assumes "n \<le> m" and "m \<le> length d"
  shows "take n d @ take (m - length (take n d)) (drop n d) = take m d"
    and "drop (m - length (take n d)) (drop n d) = drop m d"
  using assms take_add [of n "m - n" d] by (simp_all add: min_def)

lemma fill_loop_spec:
  "length got \<le> cap \<Longrightarrow> fill_loop gran cap got (d, fl) =
     (if length got + length d < cap then (if fl then Inl Io else Inr ([], fl), got @ d)
      else (Inr (drop (cap - length got) d, fl), got @ take (cap - length got) d))"
proof (induction "length d" arbitrary: d got rule: less_induct)
  case less
  show ?case
  proof (cases "length got < cap \<and> d \<noteq> []")
    case True
    let ?n = "min (cap - length got) (Suc (gran (length d)))"
    have n: "0 < ?n" "?n \<le> cap - length got" using True by auto
    have rd: "stream_read gran (cap - length got) (d, fl) = Inr (take ?n d, (drop ?n d, fl))"
      using True by (simp add: stream_read_def Let_def)
    have ne: "take ?n d \<noteq> []" using True by auto
    have "fill_loop gran cap got (d, fl) = fill_loop gran cap (got @ take ?n d) (drop ?n d, fl)"
      using True ne by (subst fill_loop.simps) (simp add: rd del: take_eq_Nil take_eq_Nil2)
    also have "\<dots> = (if length (got @ take ?n d) + length (drop ?n d) < cap
        then (if fl then Inl Io else Inr ([], fl), (got @ take ?n d) @ drop ?n d)
        else (Inr (drop (cap - length (got @ take ?n d)) (drop ?n d), fl),
              (got @ take ?n d) @ take (cap - length (got @ take ?n d)) (drop ?n d)))"
      using True n less.prems by (intro less.hyps) (auto simp del: min_less_iff_conj)
    also have "length (got @ take ?n d) + length (drop ?n d) = length got + length d"
      by simp
    also have "(got @ take ?n d) @ drop ?n d = got @ d" by simp
    finally have eq: "fill_loop gran cap got (d, fl) =
        (if length got + length d < cap then (if fl then Inl Io else Inr ([], fl), got @ d)
         else (Inr (drop (cap - length (got @ take ?n d)) (drop ?n d), fl),
               (got @ take ?n d) @ take (cap - length (got @ take ?n d)) (drop ?n d)))" .
    show ?thesis
    proof (cases "length got + length d < cap")
      case False
      then have "cap - length got \<le> length d" by linarith
      from split_read [OF n(2) this] eq False show ?thesis by (simp add: diff_diff_left del: min_less_iff_conj)
    qed (simp add: eq)
  next
    case False
    then show ?thesis
      using less.prems by (subst fill_loop.simps) (auto simp: stream_read_def)
  qed
qed

lemma count_loop_spec:
  "seen \<le> mx \<Longrightarrow> count_loop gran mx seen (d, fl) =
     (if seen + length d \<le> mx then (if fl then Inl Io else Inr (seen + length d)) else Inl (ExceedsMax mx))"
proof (induction "length d" arbitrary: d seen rule: less_induct)
  case less
  show ?case
  proof (cases "d = []")
    case False
    let ?n = "min 4096 (Suc (gran (length d)))"
    have rd: "stream_read gran 4096 (d, fl) = Inr (take ?n d, (drop ?n d, fl))"
      using False by (simp add: stream_read_def Let_def)
    have ne: "take ?n d \<noteq> []" using False by simp
    show ?thesis
    proof (cases "mx < seen + length (take ?n d)")
      case True
      then show ?thesis using ne by (subst count_loop.simps) (auto simp: rd)
    next
      case fits: False
      have "count_loop gran mx seen (d, fl) = count_loop gran mx (seen + length (take ?n d)) (drop ?n d, fl)"
        using ne fits by (subst count_loop.simps) (simp add: rd)
      also have "\<dots> = (if seen + length (take ?n d) + length (drop ?n d) \<le> mx
          then (if fl then Inl Io else Inr (seen + length (take ?n d) + length (drop ?n d)))
          else Inl (ExceedsMax mx))"
        using False fits by (intro less.hyps) auto
      also have "seen + length (take ?n d) + length (drop ?n d) = seen + length d" by simp
      finally show ?thesis .
    qed
  qed (use less.prems in \<open>subst count_loop.simps, auto simp: stream_read_def\<close>)
qed

interpretation decompressed: needed_size "\<lambda>k. castrum_decompress gran dec data mx"
  "\<lambda>k. stream_answer (dec data) mx" for gran dec data mx
  by (unfold_locales; cases "dec data")
    (auto simp: castrum_decompress_def stream_export_def decompress_into_def fill_loop_spec
      count_loop_spec stream_answer_def Let_def split: if_splits)

section \<open>The loop under the convention\<close>

text \<open>
  over a symbol that follows the needed-size convention the retry loop returns exactly the
  native answer: it yields a result if and only if there is an answer that is neither empty nor
  longer than the maximum, the result is that answer, every other case is the error of the caller,
  and the native operation runs at most twice.
\<close>

theorem grow_exact:
  assumes "needed_size wr (\<lambda>_. a)"
  shows "snd (growExact junk wr initial mx err) =
      (case a of None \<Rightarrow> Inl (JsError err)
       | Some b \<Rightarrow> if b \<noteq> [] \<and> length b \<le> mx then Inr b else Inl (JsError err)) \<and>
    length (fst (growExact junk wr initial mx err)) \<le> 2"
  using needed_size.grow_const [OF assms] by blast

text \<open>A sample encoder: the identity in chunks of one byte, after a marker byte.\<close>

definition sample_enc :: "bytes \<Rightarrow> nat \<Rightarrow> encoder_run" where
  "sample_enc data extra = (map (\<lambda>b. [b]) (0x1f # data), True)"

definition sample_dec :: "bytes \<Rightarrow> reader" where
  "sample_dec z = (tl z, z = [])"

theorem grow_exact_witness:
  "snd (growExact (\<lambda>_ _. 0) (\<lambda>k. castrum_compress sample_enc [1, 2] 6) 0 64 ''e'') = Inr [0x1f, 1, 2]"
proof -
  have "needed_size (\<lambda>k. castrum_compress sample_enc [1, 2] 6) (\<lambda>_. run_answer (sample_enc [1, 2] 6))"
    by (rule compressed.needed_size_axioms)
  from grow_exact [OF this] show ?thesis
    by (simp add: run_answer_def sample_enc_def)
qed

section \<open>The whole stack\<close>

lemma ffi_gzipDecompress_answer:
  assumes "mx = or_default MAX_DECOMPRESSED maxD"
  shows "snd (ffi_gzipDecompress junk (castrum_decompress gran dec) isize z maxD) =
      (case stream_answer (dec z) mx of
         Some b \<Rightarrow> if b \<noteq> [] then Inr b
           else Inl (JsError ''gzip decompress: invalid stream or exceeded max decompressed size'')
       | None \<Rightarrow> Inl (JsError ''gzip decompress: invalid stream or exceeded max decompressed size''))"
    and "length (fst (ffi_gzipDecompress junk (castrum_decompress gran dec) isize z maxD)) \<le> 2"
  using decompressed.grow_const [of dec z mx "stream_answer (dec z) mx" junk gran _ mx] assms
  by (auto simp: ffi_gzipDecompress_def Let_def stream_answer_def)

lemma ffi_brotliDecompress_answer:
  assumes "mx = or_default MAX_DECOMPRESSED maxD"
  shows "snd (ffi_brotliDecompress junk (castrum_decompress gran dec) z maxD) =
      (case stream_answer (dec z) mx of
         Some b \<Rightarrow> if b \<noteq> [] then Inr b
           else Inl (JsError ''brotli decompress: invalid stream or exceeded max decompressed size'')
       | None \<Rightarrow> Inl (JsError ''brotli decompress: invalid stream or exceeded max decompressed size''))"
    and "length (fst (ffi_brotliDecompress junk (castrum_decompress gran dec) z maxD)) \<le> 2"
  using decompressed.grow_const [of dec z mx "stream_answer (dec z) mx" junk gran _ mx] assms
  by (auto simp: ffi_brotliDecompress_def Let_def stream_answer_def)

lemma compress_answer:
  assumes "run_answer (enc data l) = Some z" and "z \<noteq> []"
    and "length z \<le> max (length data * 2 + COMPRESS_HEADROOM) COMPRESS_MAX_CAP"
  shows "l = min (or_default 6 lv) 9 \<Longrightarrow> snd (gzipCompress junk (castrum_compress enc) data lv) = Inr z"
    and "l = min (or_default 5 lv) 11 \<Longrightarrow> snd (brotliCompress junk (castrum_compress enc) data lv) = Inr z"
  using compressed.grow_const [of enc data l "Some z"] assms
  by (simp_all add: gzipCompress_def brotliCompress_def)



text \<open>
  the caller-buffer decompressors agree with the allocating ones and stay inside the buffer:
  when one returns a count, the count fits, the buffer holds the decompressed bytes up to it and is
  untouched behind it, and the allocating wrapper returns the same bytes.
\<close>

theorem decompress_into_agrees:
  assumes "gzipDecompressInto (castrum_decompress gran dec) data output maxD = (Inr w, out) \<or>
    brotliDecompressInto (castrum_decompress gran dec) data output maxD = (Inr w, out)"
  shows "0 < w \<and> w \<le> length output \<and> length out = length output \<and> drop w out = drop w output \<and>
    snd (ffi_gzipDecompress junk (castrum_decompress gran dec) isize data maxD) = Inr (take w out) \<and>
    snd (ffi_brotliDecompress junk (castrum_decompress gran dec) data maxD) = Inr (take w out)"
proof -
  let ?mx = "or_default MAX_DECOMPRESSED maxD"
  let ?r = "castrum_decompress gran dec data ?mx output"
  have r: "0 < w" "w \<le> length output" "fst ?r = w" "snd ?r = out"
    using assms by (auto simp: gzipDecompressInto_def brotliDecompressInto_def checked_into_def Let_def
      split: if_splits)
  obtain b where b: "stream_answer (dec data) ?mx = Some b"
    using decompressed.miss [of dec data ?mx gran "output"] r by (cases "stream_answer (dec data) ?mx") auto
  have w: "w = length b" using decompressed.written [of dec data ?mx b gran "output"] b r(3) by simp
  have "out = b @ drop (length b) output"
    using decompressed.fits [of dec data ?mx b "output" gran] b r w by auto
  then show ?thesis
    using r w b ffi_gzipDecompress_answer(1) [OF refl, of junk gran dec isize data maxD]
      ffi_brotliDecompress_answer(1) [OF refl, of junk gran dec data maxD] by auto
qed

theorem decompress_into_agrees_witness:
  "snd (ffi_brotliDecompress (\<lambda>_ _. 0) (castrum_decompress (\<lambda>n. 0) sample_dec) [0x1f, 7, 8] None) = Inr [7, 8]"
proof -
  have "gzipDecompressInto (castrum_decompress (\<lambda>n. 0) sample_dec) [0x1f, 7, 8] [1, 1, 1] None =
      (Inr 2, [7, 8, 1])"
    by (simp add: gzipDecompressInto_def castrum_decompress_def decompress_into_def fill_loop_spec
        sample_dec_def or_default_def compress_constants stream_export_def checked_into_def Let_def)
  with decompress_into_agrees [of "\<lambda>n. 0" sample_dec "[0x1f, 7, 8]" "[1, 1, 1]" None 2 "[7, 8, 1]" "\<lambda>_ _. 0"]
  show ?thesis by simp
qed

text \<open>
  the size guess of the gzip wrapper trusts the trailer: eighteen bytes with the gzip magic and
  a forged size make it allocate the full cap before anything of the stream has been checked, also
  when the stream is invalid.
\<close>

theorem forged_trailer_allocates_cap:
  assumes "snd (dec (0x1f # 0x8b # replicate 12 0 @ [0xff, 0xff, 0xff, 0xff]))"
  shows "ffi_gzipDecompress junk (castrum_decompress gran dec) castrum_gzip_isize
      (0x1f # 0x8b # replicate 12 0 @ [0xff, 0xff, 0xff, 0xff]) None =
    ([64 * 1024 * 1024], Inl (JsError ''gzip decompress: invalid stream or exceeded max decompressed size''))"
proof -
  let ?z = "0x1f # 0x8b # replicate 12 0 @ [0xff, 0xff, 0xff, 0xff] :: bytes"
  have isz: "castrum_gzip_isize ?z = 4294967295"
    by (simp add: castrum_gzip_isize_def)
  have "stream_answer (dec ?z) MAX_DECOMPRESSED = None"
    using assms by (simp add: stream_answer_def)
  then show ?thesis
    using decompressed.grow_answer [of dec ?z MAX_DECOMPRESSED MAX_DECOMPRESSED "min 4294967295 MAX_DECOMPRESSED"
        MAX_DECOMPRESSED junk gran] isz
    by (simp add: ffi_gzipDecompress_def or_default_def compress_constants)
qed

theorem forged_trailer_allocates_cap_witness:
  "fst (ffi_gzipDecompress (\<lambda>_ _. 0) (castrum_decompress (\<lambda>_. 0) (\<lambda>z. ([], True))) castrum_gzip_isize
     (0x1f # 0x8b # replicate 12 0 @ [0xff, 0xff, 0xff, 0xff]) None) = [64 * 1024 * 1024]"
  using forged_trailer_allocates_cap [of "\<lambda>z. ([], True)" "\<lambda>_ _. 0" "\<lambda>_. 0"] by simp

end
