(* ===== verification/NativeCodecs.thy ===== *)
theory NativeCodecs
  imports NativeCompress
begin

text \<open>
  The codec and crypto wrappers of the native surface (\<open>src/src/native/ffi/build/codecs.ts\<close>) and
  the scratch buffers they share (\<open>src/src/native/ffi/build.ts\<close>).  A native symbol is a parameter;
  a \<open>cstring\<close> argument reaches it as the UTF-8 bytes of the string up to the first NUL
  (\<open>cstring_arg\<close>).  The exports with an older convention, zero for an error and for a buffer that
  is too small, are modelled where they are short: hex and AEAD (\<open>src/rust/ffi\<close>), which interpret
  the interface \<open>count_or_zero\<close>.
\<close>

section \<open>The binding context\<close>

record bind_ctx =
  encodeScratch :: bytes
  jsonSumOut :: bytes
  dateScratch :: bytes
  rateScratch :: bytes

definition new_ctx :: bind_ctx where
  "new_ctx = \<lparr>encodeScratch = [], jsonSumOut = new_buf 9, dateScratch = new_buf 9, rateScratch = new_buf 13\<rparr>"

definition encode_scratch_for :: "nat \<Rightarrow> bind_ctx \<Rightarrow> bind_ctx" where
  "encode_scratch_for n c =
     (if length (encodeScratch c) < n then c\<lparr>encodeScratch := new_buf n\<rparr> else c)"

text \<open>What the callee of a \<open>cstring\<close> argument reads.\<close>

definition cstring_arg :: "jsstring \<Rightarrow> bytes" where
  "cstring_arg s = takeWhile (\<lambda>b. b \<noteq> 0) (utf8_encode s)"

type_synonym raw_out = "bytes \<Rightarrow> nat \<times> bytes"

section \<open>Hex, percent and base64 codecs\<close>

definition hexEncodeInto :: "(bytes \<Rightarrow> raw_out) \<Rightarrow> bytes \<Rightarrow> bytes \<Rightarrow> nat result \<times> bytes" where
  "hexEncodeInto raw input output =
     (if length output < length input * 2
      then (Inl (JsError ''hex encode: output buffer too small''), output)
      else (let r = raw input output in (Inr (fst r), snd r)))"

definition urlEncodeInto :: "(bytes \<Rightarrow> raw_out) \<Rightarrow> bytes \<Rightarrow> bytes \<Rightarrow> nat result \<times> bytes" where
  "urlEncodeInto raw input output =
     (let r = raw input output in
      (if fst r = 0 \<and> length input \<noteq> 0 then Inl (JsError ''url encode: output buffer too small'')
       else Inr (fst r), snd r))"

definition hexDecodeInto :: "(bytes \<Rightarrow> raw_out) \<Rightarrow> bytes \<Rightarrow> bytes \<Rightarrow> nat result \<times> bytes" where
  "hexDecodeInto raw input output =
     (let r = raw input output in (writeOrThrow (fst r) (length input) ''hex decode'', snd r))"

definition urlDecodeInto :: "(bytes \<Rightarrow> raw_out) \<Rightarrow> bytes \<Rightarrow> bytes \<Rightarrow> nat result \<times> bytes" where
  "urlDecodeInto raw input output =
     (let r = raw input output in (writeOrThrow (fst r) (length input) ''url decode'', snd r))"

type_synonym raw_b64 = "bytes \<Rightarrow> nat \<Rightarrow> nat \<Rightarrow> raw_out"

text \<open>\<open>flag(padding ?? true)\<close>.\<close>

definition padding_flag :: "bool option \<Rightarrow> nat" where
  "padding_flag p = flag (case p of None \<Rightarrow> Some True | Some b \<Rightarrow> Some b)"

definition base64DecodeInto ::
  "raw_b64 \<Rightarrow> bytes \<Rightarrow> bytes \<Rightarrow> bool option \<Rightarrow> bool option \<Rightarrow> nat result \<times> bytes" where
  "base64DecodeInto raw input output urlSafe padding =
     (let r = raw input (flag urlSafe) (padding_flag padding) output in
      (writeOrThrow (fst r) (length input) ''base64 decode'', snd r))"

definition base64EncodeInto ::
  "raw_b64 \<Rightarrow> bytes \<Rightarrow> bytes \<Rightarrow> bool option \<Rightarrow> bool option \<Rightarrow> nat result \<times> bytes" where
  "base64EncodeInto raw input output urlSafe padding =
     (let r = raw input (flag urlSafe) (padding_flag padding) output in
      (writeOrThrow (fst r) (length input) ''base64 encode'', snd r))"

text \<open>
  The string-returning encoders: the written prefix of the shared scratch is decoded before the
  call returns; the scratch keeps what the native side left in it.
\<close>

definition scratch_text ::
  "(bytes \<Rightarrow> jsstring) \<Rightarrow> nat \<Rightarrow> (bytes \<Rightarrow> nat result \<times> bytes) \<Rightarrow> bind_ctx \<Rightarrow> jsstring result \<times> bind_ctx" where
  "scratch_text dec n into c =
     (let c1 = encode_scratch_for n c;
          r = into (encodeScratch c1) in
      (rbind (fst r) (\<lambda>w. Inr (dec (subarray (snd r) 0 w))), c1\<lparr>encodeScratch := snd r\<rparr>))"

definition hexEncode ::
  "(bytes \<Rightarrow> jsstring) \<Rightarrow> (bytes \<Rightarrow> raw_out) \<Rightarrow> bytes \<Rightarrow> bind_ctx \<Rightarrow> jsstring result \<times> bind_ctx" where
  "hexEncode dec raw input = scratch_text dec (length input * 2) (hexEncodeInto raw input)"

definition urlEncode ::
  "(bytes \<Rightarrow> jsstring) \<Rightarrow> (bytes \<Rightarrow> raw_out) \<Rightarrow> bytes \<Rightarrow> bind_ctx \<Rightarrow> jsstring result \<times> bind_ctx" where
  "urlEncode dec raw input = scratch_text dec (length input * 3) (urlEncodeInto raw input)"

definition base64Encode ::
  "(bytes \<Rightarrow> jsstring) \<Rightarrow> raw_b64 \<Rightarrow> bytes \<Rightarrow> bool option \<Rightarrow> bool option \<Rightarrow> bind_ctx \<Rightarrow>
   jsstring result \<times> bind_ctx" where
  "base64Encode dec raw input urlSafe padding =
     scratch_text dec ((length input + 2) div 3 * 4) (\<lambda>out. base64EncodeInto raw input out urlSafe padding)"

definition hmacSha256 ::
  "(bytes \<Rightarrow> jsstring) \<Rightarrow> (bytes \<Rightarrow> bytes \<Rightarrow> raw_out) \<Rightarrow> bytes \<Rightarrow> bytes \<Rightarrow> bind_ctx \<Rightarrow>
   jsstring result \<times> bind_ctx" where
  "hmacSha256 dec raw key data =
     scratch_text dec 64 (\<lambda>out.
       let r = raw key data out in
       (if fst r = 0 then Inl (JsError ''hmac sha256: output buffer too small'') else Inr (fst r), snd r))"

definition alloc_bytes :: "nat result \<times> bytes \<Rightarrow> bytes result" where
  "alloc_bytes r = rbind (fst r) (\<lambda>w. Inr (subarray (snd r) 0 w))"

definition hexDecode :: "(nat \<Rightarrow> byte) \<Rightarrow> (bytes \<Rightarrow> raw_out) \<Rightarrow> bytes \<Rightarrow> bytes result" where
  "hexDecode junk raw input = alloc_bytes (hexDecodeInto raw input (allocOut junk (length input div 2)))"

definition urlDecode :: "(nat \<Rightarrow> byte) \<Rightarrow> (bytes \<Rightarrow> raw_out) \<Rightarrow> bytes \<Rightarrow> bytes result" where
  "urlDecode junk raw input = alloc_bytes (urlDecodeInto raw input (allocOut junk (length input)))"

definition base64Decode ::
  "(nat \<Rightarrow> byte) \<Rightarrow> raw_b64 \<Rightarrow> bytes \<Rightarrow> bool option \<Rightarrow> bool option \<Rightarrow> bytes result" where
  "base64Decode junk raw input urlSafe padding =
     alloc_bytes (base64DecodeInto raw input (allocOut junk ((length input * 3 + 3) div 4)) urlSafe padding)"

section \<open>Checksums and verdicts\<close>

text \<open>\<open>Number(...) >>> 0\<close>, and the \<open>=== 1\<close> of every verdict.\<close>

definition crc32 :: "(bytes \<Rightarrow> nat) \<Rightarrow> bytes \<Rightarrow> nat" where
  "crc32 raw input = raw input mod 2 ^ 32"

definition verdict :: "nat \<Rightarrow> bool" where
  "verdict n \<longleftrightarrow> n = 1"

definition validate_text :: "(bytes \<Rightarrow> nat) \<Rightarrow> jsstring \<Rightarrow> bool" where
  "validate_text raw input \<longleftrightarrow> \<not> hasNul input \<and> verdict (raw (cstring_arg input))"

definition validate_bytes :: "(bytes \<Rightarrow> nat) \<Rightarrow> bytes \<Rightarrow> bool" where
  "validate_bytes raw input \<longleftrightarrow> verdict (raw input)"

definition hexValidateBatchInto ::
  "(bytes \<Rightarrow> nat \<Rightarrow> raw_out) \<Rightarrow> bytes \<Rightarrow> nat \<Rightarrow> bytes \<Rightarrow> nat result \<times> bytes" where
  "hexValidateBatchInto raw input width output =
     (if width = 0 \<or> 4096 < width
      then (Inl (JsError ''hex validate batch: width must be 1..=4096''), output)
      else (let r = raw input (width mod 2 ^ 32) output in (Inr (fst r), snd r)))"

definition hexValidateBatchStr ::
  "(bytes \<Rightarrow> nat \<Rightarrow> raw_out) \<Rightarrow> (bytes \<Rightarrow> nat \<Rightarrow> raw_out) \<Rightarrow> jsstring \<Rightarrow> nat \<Rightarrow> bytes \<Rightarrow> nat result \<times> bytes" where
  "hexValidateBatchStr raw rawStr ids width output =
     (if width = 0 \<or> 4096 < width
      then (Inl (JsError ''hex validate batch: width must be 1..=4096''), output)
      else if hasNul ids then
        (let r = raw (utf8_encode ids) (width mod 2 ^ 32) output in (Inr (fst r), snd r))
      else (let r = rawStr (cstring_arg ids) (width mod 2 ^ 32) output in (Inr (fst r), snd r)))"

definition regexEscapeInto :: "(bytes \<Rightarrow> raw_out) \<Rightarrow> bytes \<Rightarrow> bytes \<Rightarrow> nat result \<times> bytes" where
  "regexEscapeInto raw input output =
     (let r = raw input output in
      (if fst r = 0 then Inl (JsError ''regex escape: output buffer too small'') else Inr (fst r), snd r))"

definition regexEscapeStr ::
  "junk \<Rightarrow> (bytes \<Rightarrow> jsstring) \<Rightarrow> (bytes \<Rightarrow> raw_out) \<Rightarrow> (bytes \<Rightarrow> jsstring option) \<Rightarrow> jsstring \<Rightarrow>
   jsstring option result" where
  "regexEscapeStr junk dec raw rawStr input =
     (if \<not> hasNul input then Inr (rawStr (cstring_arg input))
      else rbind (snd (growExact junk (\<lambda>k out. raw (utf8_encode input) out) 16 (2 ^ 20)
                   ''regex escape: output buffer too small''))
             (\<lambda>b. Inr (Some (dec b))))"

text \<open>\<open>out[0] === 0\<close>: false past the end, where the element is \<open>undefined\<close>.\<close>

definition byte_zero :: "bytes \<Rightarrow> bool" where
  "byte_zero out \<longleftrightarrow> 0 < length out \<and> out ! 0 = 0"

definition jsonSumIds :: "(bytes \<Rightarrow> raw_out) \<Rightarrow> bytes \<Rightarrow> bind_ctx \<Rightarrow> int result \<times> bind_ctx" where
  "jsonSumIds raw input c =
     (let r = raw input (jsonSumOut c) in
      (if fst r = 0 then Inl (JsError ''json sum ids: output buffer too small'')
       else if byte_zero (snd r)
       then Inl (JsError ''json sum ids: expected an array of objects with numeric ids'')
       else get_int64 (snd r) 1, c\<lparr>jsonSumOut := snd r\<rparr>))"

section \<open>Tokens, cookies, keys\<close>

definition wsAcceptKey :: "(bytes \<Rightarrow> jsstring option) \<Rightarrow> jsstring \<Rightarrow> jsstring result" where
  "wsAcceptKey raw key = cstr (raw (cstring_arg key)) ''ws accept key: bad key''"

definition wsAcceptKeyInto :: "(bytes \<Rightarrow> raw_out) \<Rightarrow> bytes \<Rightarrow> bytes \<Rightarrow> nat result \<times> bytes" where
  "wsAcceptKeyInto raw key output =
     checked_into ''ws accept key: bad key'' ''ws accept key: output buffer too small'' output (raw key output)"

definition etag :: "(bytes \<Rightarrow> nat \<Rightarrow> jsstring option) \<Rightarrow> bytes \<Rightarrow> bool option \<Rightarrow> jsstring result" where
  "etag raw data weak = cstr (raw data (flag weak)) ''etag: invalid input''"

definition etagInto :: "(bytes \<Rightarrow> nat \<Rightarrow> raw_out) \<Rightarrow> bytes \<Rightarrow> bytes \<Rightarrow> bool option \<Rightarrow> nat result \<times> bytes" where
  "etagInto raw data output weak =
     checked_into ''etag: invalid input'' ''etag: output buffer too small'' output
       (raw data (flag weak) output)"

definition randomToken :: "(nat \<Rightarrow> jsstring option) \<Rightarrow> nat \<Rightarrow> jsstring result" where
  "randomToken raw byteLen =
     cstr (raw byteLen) ''random token: output buffer too small or random source failed''"

definition randomTokenInto :: "(nat \<Rightarrow> raw_out) \<Rightarrow> nat \<Rightarrow> bytes \<Rightarrow> nat result \<times> bytes" where
  "randomTokenInto raw byteLen output =
     checked_into ''random token: random source failed or byteLen exceeds 16 MiB''
       ''random token: output buffer too small'' output (raw byteLen output)"

definition hmacSha256Into :: "(bytes \<Rightarrow> bytes \<Rightarrow> raw_out) \<Rightarrow> bytes \<Rightarrow> bytes \<Rightarrow> bytes \<Rightarrow> nat result \<times> bytes" where
  "hmacSha256Into raw key data output =
     (if length output < 64 then (Inl (JsError ''hmac sha256: output buffer too small''), output)
      else (let r = raw key data output in
            (if fst r = 0 then Inl (JsError ''hmac sha256: output buffer too small'') else Inr (fst r), snd r)))"

definition signCookie :: "(bytes \<Rightarrow> bytes \<Rightarrow> jsstring option) \<Rightarrow> bytes \<Rightarrow> bytes \<Rightarrow> jsstring result" where
  "signCookie raw value secret = cstr (raw value secret) ''sign cookie: invalid input''"

definition signCookieInto :: "(bytes \<Rightarrow> bytes \<Rightarrow> raw_out) \<Rightarrow> bytes \<Rightarrow> bytes \<Rightarrow> bytes \<Rightarrow> nat result \<times> bytes" where
  "signCookieInto raw value secret output =
     checked_into ''sign cookie: invalid input'' ''sign cookie: output buffer too small'' output
       (raw value secret output)"

definition verifyCookieInto ::
  "(bytes \<Rightarrow> bytes \<Rightarrow> raw_out) \<Rightarrow> bytes \<Rightarrow> bytes \<Rightarrow> bytes \<Rightarrow> nat option result \<times> bytes" where
  "verifyCookieInto raw cookie secret output =
     (let r = raw cookie secret output in
      (if fst r = 0 then Inr None
       else if length output < fst r then Inl (JsError ''verify cookie: output buffer too small'')
       else Inr (Some (fst r)), snd r))"

definition csrfToken :: "(bytes \<Rightarrow> jsstring option) \<Rightarrow> bytes \<Rightarrow> jsstring result" where
  "csrfToken raw secret =
     cstr (raw secret) ''csrf token: output buffer too small or random source failed''"

definition csrfTokenInto :: "(bytes \<Rightarrow> raw_out) \<Rightarrow> bytes \<Rightarrow> bytes \<Rightarrow> nat result \<times> bytes" where
  "csrfTokenInto raw secret output =
     checked_into ''csrf token: random source failed'' ''csrf token: output buffer too small'' output
       (raw secret output)"

record argon_params =
  mCost :: nat
  tCost :: nat
  pCost :: nat
  outLen :: nat

definition passwordHash ::
  "junk \<Rightarrow> (bytes \<Rightarrow> jsstring) \<Rightarrow> (bytes \<Rightarrow> bytes \<Rightarrow> argon_params \<Rightarrow> native_write) \<Rightarrow>
   bytes \<Rightarrow> bytes \<Rightarrow> argon_params \<Rightarrow> nat list \<times> jsstring result" where
  "passwordHash junk dec raw password salt ps =
     (let g = growExact junk (raw password salt ps)
                (argon2PhcLength (mCost ps) (tCost ps) (pCost ps) (length salt) (outLen ps))
                (2 * 1024 * 1024) ''password hash: output buffer too small'' in
      (fst g, rbind (snd g) (\<lambda>b. Inr (dec b))))"

definition passwordHashBcrypt ::
  "(nat \<Rightarrow> byte) \<Rightarrow> (bytes \<Rightarrow> jsstring) \<Rightarrow> (bytes \<Rightarrow> nat \<Rightarrow> raw_out) \<Rightarrow> bytes \<Rightarrow> nat \<Rightarrow> jsstring result" where
  "passwordHashBcrypt junk dec raw password cost =
     (let r = raw password cost (allocOut junk 64) in
      if fst r = 0 then Inl (JsError ''password hash bcrypt: output buffer too small'')
      else Inr (dec (subarray (snd r) 0 (fst r))))"

definition pbkdf2Sha256 ::
  "(nat \<Rightarrow> byte) \<Rightarrow> (bytes \<Rightarrow> bytes \<Rightarrow> nat \<Rightarrow> nat \<Rightarrow> raw_out) \<Rightarrow> bytes \<Rightarrow> bytes \<Rightarrow> nat \<Rightarrow> nat \<Rightarrow> bytes result" where
  "pbkdf2Sha256 junk raw password salt rounds dkLen =
     (let dk = min (max dkLen 1) (1024 * 1024);
          r = raw password salt rounds dkLen (allocOut junk dk) in
      if fst r = 0 then Inl (JsError ''pbkdf2: output buffer too small'')
      else Inr (subarray (snd r) 0 (fst r)))"

type_synonym raw_aead = "bytes \<Rightarrow> bytes \<Rightarrow> bytes \<Rightarrow> nat \<Rightarrow> raw_out"

definition aeadEncrypt ::
  "(nat \<Rightarrow> byte) \<Rightarrow> raw_aead \<Rightarrow> bytes \<Rightarrow> bytes \<Rightarrow> bytes \<Rightarrow> nat option \<Rightarrow> bytes result" where
  "aeadEncrypt junk raw key nonce plaintext algorithm =
     (let r = raw key nonce plaintext (or_default 0 algorithm) (allocOut junk (length plaintext + 16)) in
      if fst r = 0 then Inl (JsError ''aead encrypt: output buffer too small or bad parameters'')
      else Inr (subarray (snd r) 0 (fst r)))"

definition aeadEncryptInto ::
  "raw_aead \<Rightarrow> bytes \<Rightarrow> bytes \<Rightarrow> bytes \<Rightarrow> bytes \<Rightarrow> nat option \<Rightarrow> nat result \<times> bytes" where
  "aeadEncryptInto raw key nonce plaintext output algorithm =
     (if length output < length plaintext + 16
      then (Inl (JsError ''aead encrypt: output buffer too small''), output)
      else (let r = raw key nonce plaintext (or_default 0 algorithm) output in
            (if fst r = 0 then Inl (JsError ''aead encrypt: output buffer too small or bad parameters'')
             else Inr (fst r), snd r)))"

definition aeadDecrypt ::
  "(nat \<Rightarrow> byte) \<Rightarrow> raw_aead \<Rightarrow> bytes \<Rightarrow> bytes \<Rightarrow> bytes \<Rightarrow> nat option \<Rightarrow> bytes option" where
  "aeadDecrypt junk raw key nonce ciphertext algorithm =
     (let r = raw key nonce ciphertext (or_default 0 algorithm) (allocOut junk (length ciphertext)) in
      if fst r = 0 then None else Some (subarray (snd r) 0 (fst r)))"

section \<open>The exports behind them\<close>

text \<open>The convention of the older exports: zero also for a buffer that is too small.\<close>

locale count_or_zero =
  fixes raw :: raw_out
    and ans :: "bytes option"
  assumes kept: "length (snd (raw out)) = length out"
    and miss: "ans = None \<Longrightarrow> fst (raw out) = 0"
    and fits: "ans = Some b \<Longrightarrow> length b \<le> length out \<Longrightarrow> raw out = (length b, b @ drop (length b) out)"
    and small: "ans = Some b \<Longrightarrow> length out < length b \<Longrightarrow> fst (raw out) = 0"
begin

lemma written_prefix:
  "ans = Some b \<Longrightarrow> length b \<le> length out \<Longrightarrow> subarray (snd (raw out)) 0 (fst (raw out)) = b"
  by (simp add: fits subarray_def)

lemma count_positive: "0 < fst (raw out) \<Longrightarrow> ans = Some b \<Longrightarrow> length b \<le> length out"
  by (metis linorder_not_less less_irrefl small)

end

definition lower_digit :: "nat \<Rightarrow> byte" where
  "lower_digit n = (if n < 10 then of_nat (48 + n) else of_nat (87 + n))"

definition hex_lower :: "bytes \<Rightarrow> bytes" where
  "hex_lower bs = concat (map (\<lambda>b. [lower_digit (unat b div 16), lower_digit (unat b mod 16)]) bs)"

definition hex_val :: "byte \<Rightarrow> nat option" where
  "hex_val b =
     (let n = unat b in
      if 48 \<le> n \<and> n \<le> 57 then Some (n - 48)
      else if 97 \<le> n \<and> n \<le> 102 then Some (n - 87)
      else if 65 \<le> n \<and> n \<le> 70 then Some (n - 55) else None)"

definition castrum_hex_encode :: "bytes \<Rightarrow> raw_out" where
  "castrum_hex_encode data out =
     (if length out < length data * 2 then (0, out)
      else (length data * 2, hex_lower data @ drop (length data * 2) out))"

text \<open>The decoded bytes before the first invalid digit, and whether there was none.\<close>

fun hex_pairs :: "bytes \<Rightarrow> bytes \<times> bool" where
  "hex_pairs (a # b # bs) =
     (case (hex_val a, hex_val b) of
        (Some hi, Some lo) \<Rightarrow> (of_nat (hi * 16 + lo) # fst (hex_pairs bs), snd (hex_pairs bs))
      | _ \<Rightarrow> ([], False))"
| "hex_pairs _ = ([], True)"

definition castrum_hex_decode :: "bytes \<Rightarrow> raw_out" where
  "castrum_hex_decode input out =
     (if odd (length input) then (0, out)
      else if length out < length input div 2 then (0, out)
      else (if snd (hex_pairs input) then length input div 2 else 0,
            fst (hex_pairs input) @ drop (length (fst (hex_pairs input))) out))"

text \<open>The shared tail of the AEAD exports: zero for a failure or a short buffer, else the copy.\<close>

definition copy_out :: "bytes option \<Rightarrow> raw_out" where
  "copy_out r out =
     (case r of None \<Rightarrow> (0, out)
      | Some b \<Rightarrow> if length out < length b then (0, out) else (length b, b @ drop (length b) out))"

definition castrum_aead ::
  "(nat \<Rightarrow> bytes \<Rightarrow> bytes \<Rightarrow> bytes \<Rightarrow> bytes option) \<Rightarrow> raw_aead" where
  "castrum_aead core key nonce input alg out =
     (if 1 < alg then (0, out) else copy_out (core alg key nonce input) out)"

lemma length_hex_lower [simp]: "length (hex_lower bs) = length bs * 2"
  by (induction bs) (simp_all add: hex_lower_def)

lemma hex_pairs_length: "even (length bs) \<Longrightarrow> snd (hex_pairs bs) \<Longrightarrow> length (fst (hex_pairs bs)) = length bs div 2"
  by (induction bs rule: hex_pairs.induct) (auto split: option.splits)

lemma hex_pairs_length_le: "length (fst (hex_pairs bs)) \<le> length bs div 2"
  by (induction bs rule: hex_pairs.induct) (auto split: option.splits)

definition hex_answer :: "bytes \<Rightarrow> bytes option" where
  "hex_answer input =
     (if even (length input) \<and> snd (hex_pairs input) then Some (fst (hex_pairs input)) else None)"

interpretation hex_encoded: count_or_zero "castrum_hex_encode data" "Some (hex_lower data)" for data
  by unfold_locales (auto simp: castrum_hex_encode_def)

interpretation hex_decoded: count_or_zero "castrum_hex_decode input" "hex_answer input" for input
  using hex_pairs_length_le [of input] hex_pairs_length [of input]
  by unfold_locales (auto simp: castrum_hex_decode_def hex_answer_def split: if_splits)

interpretation aead: count_or_zero "castrum_aead core key nonce input alg"
  "if 1 < alg then None else core alg key nonce input" for core key nonce input alg
  by (unfold_locales; cases "core alg key nonce input") (auto simp: castrum_aead_def copy_out_def split: if_splits)

section \<open>Round trips through the surface\<close>

lemma unat_lower_digit: "n < 16 \<Longrightarrow> unat (lower_digit n) = (if n < 10 then 48 + n else 87 + n)"
  by (simp add: lower_digit_def unat_of_nat_byte del: of_nat_add)

lemma hex_val_digit: "n < 16 \<Longrightarrow> hex_val (lower_digit n) = Some n"
  by (simp add: hex_val_def unat_lower_digit Let_def)

lemma hex_pairs_lower: "hex_pairs (hex_lower bs) = (bs, True)"
proof (induction bs)
  case (Cons b bs)
  have d: "unat b div 16 < 16" using unat_byte_lt [of b] by linarith
  have "of_nat (unat b div 16 * 16 + unat b mod 16) = b" by (simp del: of_nat_add of_nat_mult)
  with Cons d show ?case by (simp add: hex_lower_def hex_val_digit del: of_nat_add of_nat_mult)
qed (simp add: hex_lower_def)

lemma hex_lower_ascii: "b \<in> set (hex_lower bs) \<Longrightarrow> unat b < 0x80"
proof -
  assume "b \<in> set (hex_lower bs)"
  then obtain c :: byte where c: "b = lower_digit (unat c div 16) \<or> b = lower_digit (unat c mod 16)"
    by (auto simp: hex_lower_def)
  have "unat c div 16 < 16" "unat c mod 16 < 16" using unat_byte_lt [of c] by linarith+
  with c show "unat b < 0x80" by (auto simp: unat_lower_digit)
qed

lemma ascii_text:
  assumes "\<forall>b \<in> set bs. unat b < 0x80"
  shows "node_decodeUtf8 bs = latin1_string bs" and "node_encodeUtf8 (latin1_string bs) = bs"
proof -
  have "strip_bom bs = bs"
    using assms set_take_subset [of 3 bs] by (fastforce simp: strip_bom_def)
  then show "node_decodeUtf8 bs = latin1_string bs"
    by (simp add: node_decodeUtf8_def utf8_decode_ascii assms)
  have u: "unat (of_nat (unat b) :: code_unit) = unat b" for b :: byte
    using unat_byte_lt [of b] unfolding unat_of_nat_unit by (intro mod_less) linarith
  have e: "(of_nat (unat (of_nat (unat b) :: code_unit)) :: byte) = b" for b
    by (subst u) simp
  have "ascii (latin1_string bs)"
    using assms u by (auto simp: ascii_def latin1_string_def)
  moreover have "map (\<lambda>c. of_nat (unat c)) (latin1_string bs) = bs"
    unfolding latin1_string_def map_map o_def e by simp
  ultimately show "node_encodeUtf8 (latin1_string bs) = bs"
    by (simp add: node_encodeUtf8_def utf8_encode_ascii)
qed

lemma hexEncode_text:
  "hexEncode node_decodeUtf8 castrum_hex_encode data c =
     (Inr (latin1_string (hex_lower data)),
      (encode_scratch_for (length data * 2) c)\<lparr>encodeScratch :=
         hex_lower data @ drop (length data * 2) (encodeScratch (encode_scratch_for (length data * 2) c))\<rparr>)"
proof -
  let ?s = "encodeScratch (encode_scratch_for (length data * 2) c)"
  have len: "length data * 2 \<le> length ?s" by (simp add: encode_scratch_for_def)
  then have "castrum_hex_encode data ?s = (length data * 2, hex_lower data @ drop (length data * 2) ?s)"
    by (simp add: castrum_hex_encode_def)
  moreover have "node_decodeUtf8 (hex_lower data) = latin1_string (hex_lower data)"
    using hex_lower_ascii by (intro ascii_text) blast
  ultimately show ?thesis
    using len by (simp add: hexEncode_def scratch_text_def hexEncodeInto_def Let_def subarray_def)
qed

text \<open>
  hex text survives the whole stack for every payload, the empty one included, and for every
  state of the shared scratch: the encoder's string has two characters for each byte, and decoding
  its UTF-8 gives back the payload.
\<close>

theorem hex_stack_roundtrip:
  "\<exists>s c'. hexEncode node_decodeUtf8 castrum_hex_encode data c = (Inr s, c') \<and>
     length s = 2 * length data \<and> hexDecode junk castrum_hex_decode (node_encodeUtf8 s) = Inr data"
proof -
  have "node_encodeUtf8 (latin1_string (hex_lower data)) = hex_lower data"
    using hex_lower_ascii by (intro ascii_text) blast
  moreover have "hexDecode junk castrum_hex_decode (hex_lower data) = Inr data"
    using hex_decoded.fits [of "hex_lower data" data "allocOut junk (length data)"]
    by (auto simp: hex_answer_def hex_pairs_lower hexDecode_def hexDecodeInto_def alloc_bytes_def
        writeOrThrow_def subarray_def Let_def)
  ultimately show ?thesis by (simp add: hexEncode_text latin1_string_def)
qed

text \<open>
  C31. what one side seals the other opens: with an authenticated cipher whose ciphertext is the
  plaintext's length and sixteen bytes, the encrypt wrapper returns the ciphertext and the decrypt
  wrapper the plaintext; a genuine ciphertext of the empty plaintext is reported as the failure
  \<open>null\<close>.
\<close>

theorem aead_stack_roundtrip:
  assumes "seal (or_default 0 alg) key nonce pt = Some ct" and "open' (or_default 0 alg) key nonce ct = Some pt"
    and "length ct = length pt + 16" and "or_default 0 alg \<le> 1"
  shows "aeadEncrypt junk (castrum_aead seal) key nonce pt alg = Inr ct \<and>
    aeadDecrypt junk' (castrum_aead open') key nonce ct alg = (if pt = [] then None else Some pt)"
  using assms aead.fits [of "or_default 0 alg" seal key nonce pt ct "allocOut junk (length pt + 16)"]
    aead.fits [of "or_default 0 alg" open' key nonce ct pt "allocOut junk' (length ct)"]
  by (auto simp: aeadEncrypt_def aeadDecrypt_def Let_def subarray_def)

theorem aead_stack_roundtrip_witness:
  "aeadDecrypt (\<lambda>_. 0) (castrum_aead (\<lambda>_ _ _ c. Some (drop 16 c))) [] [] (replicate 16 0) None = None \<and>
   aeadDecrypt (\<lambda>_. 0) (castrum_aead (\<lambda>_ _ _ c. Some (drop 16 c))) [] [] (replicate 16 0 @ [5]) None = Some [5]"
  using aead_stack_roundtrip [of "\<lambda>_ _ _ p. Some (replicate 16 0 @ p)" None "[]" "[]" "[]" "replicate 16 0"
      "\<lambda>_ _ _ c. Some (drop 16 c)" "\<lambda>_. 0" "\<lambda>_. 0"]
    aead_stack_roundtrip [of "\<lambda>_ _ _ p. Some (replicate 16 0 @ p)" None "[]" "[]" "[5]" "replicate 16 0 @ [5]"
      "\<lambda>_ _ _ c. Some (drop 16 c)" "\<lambda>_. 0" "\<lambda>_. 0"]
  by (simp add: or_default_def)

section \<open>Password hashing runs once\<close>

text \<open>The number of base64 characters of \<open>n\<close> bytes without padding: one for every six bits.\<close>

lemma b64Len_groups: "b64Len n = (8 * n + 5) div 6"
proof -
  let ?q = "n div 3"
  have q: "n = 3 * ?q + n mod 3" by simp
  have r: "n mod 3 < 3" by simp
  then consider "n mod 3 = 0" | "n mod 3 = 1" | "n mod 3 = 2" by linarith
  then show ?thesis
  proof cases
    case 1
    have "(n + 2) div 3 = ?q" "(8 * n + 5) div 6 = 4 * ?q" using q 1 by linarith+
    with 1 show ?thesis by (simp add: b64Len_def)
  next
    case 2
    have "(n + 2) div 3 = Suc ?q" "(8 * n + 5) div 6 = 4 * ?q + 2" using q 2 by linarith+
    with 2 show ?thesis by (simp add: b64Len_def)
  next
    case 3
    have "(n + 2) div 3 = Suc ?q" "(8 * n + 5) div 6 = 4 * ?q + 3" using q 3 by linarith+
    with 3 show ?thesis by (simp add: b64Len_def)
  qed
qed

definition phc_string :: "argon_params \<Rightarrow> string \<Rightarrow> string \<Rightarrow> string" where
  "phc_string ps salt_text hash_text =
     ''$argon2id$v=19$'' @ ''m='' @ decimal_digits (mCost ps) @ '',t='' @ decimal_digits (tCost ps) @
     '',p='' @ decimal_digits (pCost ps) @ ''$'' @ salt_text @ ''$'' @ hash_text"

lemma phc_length:
  assumes "length salt_text = (8 * saltLen + 5) div 6" and "length hash_text = (8 * outLen ps + 5) div 6"
  shows "length (phc_string ps salt_text hash_text) =
    argon2PhcLength (mCost ps) (tCost ps) (pCost ps) saltLen (outLen ps)"
  using assms by (simp add: phc_string_def argon2PhcLength_def b64Len_groups)

text \<open>
  the argon2 wrapper sizes its buffer so that the hash runs exactly once: for every salt and
  every cost, when the native side answers with a PHC string of the documented format, the first
  buffer has exactly its length and the loop makes a single native call.
\<close>

theorem password_hash_single_pass:
  assumes "needed_size (raw password salt ps) (\<lambda>_. Some phc)"
    and "length phc = length (phc_string ps salt_text hash_text)"
    and "length salt_text = (8 * length salt + 5) div 6" and "length hash_text = (8 * outLen ps + 5) div 6"
    and "length phc \<le> 2 * 1024 * 1024"
  shows "passwordHash junk dec raw password salt ps = ([length phc], Inr (dec phc))"
proof -
  let ?n = "argon2PhcLength (mCost ps) (tCost ps) (pCost ps) (length salt) (outLen ps)"
  have n: "length phc = ?n" using assms(2) phc_length [OF assms(3,4)] by simp
  have big: "16 \<le> ?n" by (simp add: argon2PhcLength_def)
  then have "phc \<noteq> []" using n by auto
  then show ?thesis
    using needed_size.grow_answer [OF assms(1) _ refl, where initial = ?n and mx = "2 * 1024 * 1024"
        and junk = junk and err = "''password hash: output buffer too small''"] n big assms(5)
    by (simp add: passwordHash_def Let_def)
qed

definition sample_params :: argon_params where
  "sample_params = \<lparr>mCost = 19456, tCost = 2, pCost = 1, outLen = 32\<rparr>"

definition sample_phc :: bytes where
  "sample_phc = replicate (length (phc_string sample_params (replicate 24 CHR ''a'') (replicate 43 CHR ''b''))) 36"

text \<open>A symbol that follows the convention for one fixed answer.\<close>

definition answering :: "bytes \<Rightarrow> native_write" where
  "answering b k out = (length b, if length b \<le> length out then b @ drop (length b) out else out)"

lemma answering_needed_size: "needed_size (answering b) (\<lambda>_. Some b)"
  by unfold_locales (auto simp: answering_def)

theorem password_hash_single_pass_witness:
  "fst (passwordHash (\<lambda>_ _. 0) node_decodeUtf8 (\<lambda>_ _ _. answering sample_phc) [] (replicate 18 0) sample_params) =
     [length sample_phc]"
proof -
  have "length (decimal_digits 19456) = 5" "length (decimal_digits 2) = 1" "length (decimal_digits 1) = 1"
    by (simp_all add: decimal_digits.simps)
  then have small: "length sample_phc \<le> 2 * 1024 * 1024"
    by (simp add: sample_phc_def phc_string_def sample_params_def)
  show ?thesis
    using password_hash_single_pass [where raw = "\<lambda>_ _ _. answering sample_phc" and password = "[]"
        and salt = "replicate 18 0" and ps = sample_params and phc = sample_phc and junk = "\<lambda>_ _. 0"
        and dec = node_decodeUtf8 and salt_text = "replicate 24 CHR ''a''" and hash_text = "replicate 43 CHR ''b''"]
      answering_needed_size [of sample_phc] small
    by (simp add: sample_phc_def sample_params_def)
qed

end
