(* ===== verification/NativeParse.thy ===== *)
theory NativeParse
  imports NativeCodecs
begin

text \<open>
  The parser and wire-format wrappers of the native surface
  (\<open>src/src/native/ffi/build/parse.ts\<close>, and \<open>jsonPatch\<close> of \<open>build/compress.ts\<close>), with the two
  one-slot memos of the SSE encoder.  The native parsers are parameters; three of their exports
  with a fixed packed verdict (\<open>castrum_json_sum_ids\<close>, \<open>castrum_parse_http_date\<close> and
  \<open>write_rate_check\<close> of \<open>src/rust/ffi\<close>) are modelled, so that the reads of the shared verdict
  buffers are checked against what is written there.
\<close>

section \<open>Packed parsers\<close>

definition httpParseRequestPackedInto :: "(bytes \<Rightarrow> raw_out) \<Rightarrow> bytes \<Rightarrow> bytes \<Rightarrow> nat result \<times> bytes" where
  "httpParseRequestPackedInto raw input output =
     (let r = raw input output in
      (if fst r = 0 \<and> length input \<noteq> 0
       then Inl (JsError ''http parse: output buffer too small or malformed request'')
       else Inr (fst r), snd r))"

definition queryParsePackedInto :: "(bytes \<Rightarrow> raw_out) \<Rightarrow> bytes \<Rightarrow> bytes \<Rightarrow> nat result \<times> bytes" where
  "queryParsePackedInto raw input output =
     checked_into ''query parse: output buffer too small'' ''query parse: output buffer too small'' output
       (raw input output)"

definition cookieParsePackedInto :: "(bytes \<Rightarrow> raw_out) \<Rightarrow> bytes \<Rightarrow> bytes \<Rightarrow> nat result \<times> bytes" where
  "cookieParsePackedInto raw input output =
     checked_into ''cookie parse: output buffer too small'' ''cookie parse: output buffer too small'' output
       (raw input output)"

definition formParsePackedInto :: "(bytes \<Rightarrow> raw_out) \<Rightarrow> bytes \<Rightarrow> bytes \<Rightarrow> nat result \<times> bytes" where
  "formParsePackedInto raw input output =
     checked_into ''form parse: output buffer too small'' ''form parse: output buffer too small'' output
       (raw input output)"

definition multipartParsePackedInto ::
  "(bytes \<Rightarrow> bytes \<Rightarrow> raw_out) \<Rightarrow> bytes \<Rightarrow> bytes \<Rightarrow> bytes \<Rightarrow> nat result \<times> bytes" where
  "multipartParsePackedInto raw body boundary output =
     checked_into ''multipart parse: output buffer too small or malformed body''
       ''multipart parse: output buffer too small or malformed body'' output (raw body boundary output)"

definition multipartParsePacked ::
  "junk \<Rightarrow> (bytes \<Rightarrow> bytes \<Rightarrow> raw_out) \<Rightarrow> bytes \<Rightarrow> bytes \<Rightarrow> nat list \<times> bytes result" where
  "multipartParsePacked junk raw body boundary =
     growExact junk (\<lambda>k out. raw body boundary out)
       (min (length body + length boundary + 64) (64 * 1024)) (128 * 1024 * 1024)
       ''multipart parse: output buffer too small''"

definition jsonParsePacked :: "junk \<Rightarrow> (bytes \<Rightarrow> raw_out) \<Rightarrow> bytes \<Rightarrow> nat list \<times> bytes result" where
  "jsonParsePacked junk raw input =
     growExact junk (\<lambda>k out. raw input out)
       (min (length input + length input div 2) (16 * 1024 * 1024))
       (max (1024 * 1024) (length input * 16))
       ''json parse packed: invalid JSON or output buffer too small''"

section \<open>WebSocket frames\<close>

type_synonym raw_frame = "nat \<Rightarrow> bytes \<Rightarrow> nat \<Rightarrow> nat \<Rightarrow> raw_out"

definition wsFrameEncode ::
  "(nat \<Rightarrow> byte) \<Rightarrow> raw_frame \<Rightarrow> nat \<Rightarrow> bytes \<Rightarrow> bool option \<Rightarrow> bool option \<Rightarrow> bytes result" where
  "wsFrameEncode junk raw opcode payload masked fin =
     (let r = raw opcode payload (flag masked) (flag fin) (allocOut junk (length payload + 14)) in
      if fst r = 0 then Inl (JsError ''ws frame encode: output buffer too small'')
      else Inr (subarray (snd r) 0 (fst r)))"

definition wsFrameEncodeInto ::
  "raw_frame \<Rightarrow> nat \<Rightarrow> bytes \<Rightarrow> bool option \<Rightarrow> bool option \<Rightarrow> bytes \<Rightarrow> nat result \<times> bytes" where
  "wsFrameEncodeInto raw opcode payload masked fin output =
     (if length output < length payload + 14
      then (Inl (JsError ''ws frame encode: output buffer too small''), output)
      else (let r = raw opcode payload (flag masked) (flag fin) output in
            (if fst r = 0 then Inl (JsError ''ws frame encode: output buffer too small'')
             else Inr (fst r), snd r)))"

definition wsFrameDecodePacked :: "(bytes \<Rightarrow> raw_out) \<Rightarrow> bytes \<Rightarrow> bytes option" where
  "wsFrameDecodePacked raw data =
     (let r = raw data (new_buf (length data + 6)) in
      if fst r = 0 then None else Some (subarray (snd r) 0 (fst r)))"

definition wsFrameDecodePackedInto :: "(bytes \<Rightarrow> raw_out) \<Rightarrow> bytes \<Rightarrow> bytes \<Rightarrow> nat option \<times> bytes" where
  "wsFrameDecodePackedInto raw data output =
     (let r = raw data output in (if fst r = 0 then None else Some (fst r), snd r))"

section \<open>Verdicts in the shared scratch\<close>

text \<open>
  One attempt in the scratch, and when that is too small one in an exact buffer of its own; \<open>lim\<close> is
  the largest size for which the retry is made (no bound for the header parsers).
\<close>

definition scratch_retry ::
  "raw_out \<Rightarrow> nat \<Rightarrow> nat option \<Rightarrow> string \<Rightarrow> bind_ctx \<Rightarrow> bytes result \<times> bind_ctx" where
  "scratch_retry raw n lim err c =
     (let c1 = encode_scratch_for n c;
          r1 = raw (encodeScratch c1);
          c2 = c1\<lparr>encodeScratch := snd r1\<rparr>;
          again = length (encodeScratch c1) < fst r1 \<and> (case lim of None \<Rightarrow> True | Some m \<Rightarrow> fst r1 \<le> m);
          cap = (if again then fst r1 else length (encodeScratch c1));
          r = (if again then raw (new_buf (fst r1)) else r1) in
      (if fst r = 0 \<or> cap < fst r then Inl (JsError err) else Inr (subarray (snd r) 0 (fst r)), c2))"

definition parseMediaType :: "(bytes \<Rightarrow> raw_out) \<Rightarrow> bytes \<Rightarrow> bind_ctx \<Rightarrow> bytes result \<times> bind_ctx" where
  "parseMediaType raw input =
     scratch_retry (raw input) (length input * 2 + 128) None
       ''media type parse: invalid media type or output buffer too small''"

definition parseAcceptEncoding :: "(bytes \<Rightarrow> raw_out) \<Rightarrow> bytes \<Rightarrow> bind_ctx \<Rightarrow> bytes result \<times> bind_ctx" where
  "parseAcceptEncoding raw input =
     scratch_retry (raw input) (length input * 2 + 128) None
       ''accept encoding parse: output buffer too small''"

definition MAX_JSON_PATCH_OUTPUT :: nat where "MAX_JSON_PATCH_OUTPUT = 128 * 1024 * 1024"

definition jsonPatch ::
  "(bytes \<Rightarrow> jsstring) \<Rightarrow> (bytes \<Rightarrow> bytes \<Rightarrow> raw_out) \<Rightarrow> bytes \<Rightarrow> bytes \<Rightarrow> bind_ctx \<Rightarrow>
   jsstring result \<times> bind_ctx" where
  "jsonPatch dec raw doc patch c =
     (let r = scratch_retry (raw doc patch) (min (max (length doc) (length patch) + 16) (64 * 1024))
                (Some MAX_JSON_PATCH_OUTPUT)
                ''json patch: output buffer too small or patch inapplicable'' c in
      (rbind (fst r) (\<lambda>b. Inr (dec b)), snd r))"

definition parseHttpDate :: "(bytes \<Rightarrow> raw_out) \<Rightarrow> bytes \<Rightarrow> bind_ctx \<Rightarrow> int option result \<times> bind_ctx" where
  "parseHttpDate raw input c =
     (let r = raw input (dateScratch c) in
      (if fst r = 0 then Inl (JsError ''http date parse: output buffer too small'')
       else if byte_zero (snd r) then Inr None
       else rbind (get_int64 (snd r) 1) (\<lambda>n. Inr (Some n)), c\<lparr>dateScratch := snd r\<rparr>))"

text \<open>\<open>secs ?? 0\<close>.\<close>

definition secs_or_zero :: "int option \<Rightarrow> int" where
  "secs_or_zero secs = (case secs of None \<Rightarrow> 0 | Some n \<Rightarrow> n)"

definition httpDateInto :: "(int \<Rightarrow> raw_out) \<Rightarrow> int \<Rightarrow> bytes \<Rightarrow> nat result \<times> bytes" where
  "httpDateInto raw secs output =
     (let r = raw secs output in
      (if fst r = 0 then Inl (JsError ''http date: output buffer too small or year out of range'')
       else Inr (fst r), snd r))"

definition httpDate ::
  "(bytes \<Rightarrow> jsstring) \<Rightarrow> (int \<Rightarrow> jsstring) \<Rightarrow> (int \<Rightarrow> raw_out) \<Rightarrow> int option \<Rightarrow> bind_ctx \<Rightarrow>
   jsstring \<times> bind_ctx" where
  "httpDate dec toUTCString raw secs c =
     (let c1 = encode_scratch_for 32 c;
          r = raw (secs_or_zero secs) (encodeScratch c1) in
      (if fst r \<noteq> 0 then dec (subarray (snd r) 0 (fst r)) else toUTCString (secs_or_zero secs * 1000),
       c1\<lparr>encodeScratch := snd r\<rparr>))"

section \<open>Server-sent events\<close>

record sse_slot =
  memo_str :: "jsstring option"
  memo_bytes :: bytes

record sse_memo =
  sseMemoEvent :: sse_slot
  sseMemoId :: sse_slot

definition empty_slot :: sse_slot where
  "empty_slot = \<lparr>memo_str = None, memo_bytes = []\<rparr>"

definition sseMemoEncode :: "(jsstring \<Rightarrow> bytes) \<Rightarrow> jsstring \<Rightarrow> sse_slot \<Rightarrow> bytes \<times> sse_slot" where
  "sseMemoEncode enc s slot =
     (if Some s = memo_str slot then (memo_bytes slot, slot)
      else (enc s, \<lparr>memo_str = Some s, memo_bytes = enc s\<rparr>))"

definition sse_field :: "(jsstring \<Rightarrow> bytes) \<Rightarrow> jsstring option \<Rightarrow> sse_slot \<Rightarrow> bytes \<times> sse_slot" where
  "sse_field enc v slot = (case v of None \<Rightarrow> ([], slot) | Some s \<Rightarrow> sseMemoEncode enc s slot)"

definition sse_flags :: "jsstring option \<Rightarrow> jsstring option \<Rightarrow> nat option \<Rightarrow> nat" where
  "sse_flags event ident retry =
     (if event = None then 0 else 1) + (if ident = None then 0 else 2) + (if retry = None then 0 else 4)"

type_synonym raw_sse = "bytes \<Rightarrow> bytes \<Rightarrow> bytes \<Rightarrow> nat \<Rightarrow> nat \<Rightarrow> raw_out"

definition sseEncodeEvent ::
  "junk \<Rightarrow> (jsstring \<Rightarrow> bytes) \<Rightarrow> raw_sse \<Rightarrow> jsstring option \<Rightarrow> bytes \<Rightarrow> jsstring option \<Rightarrow> nat option \<Rightarrow>
   sse_memo \<Rightarrow> bytes result \<times> sse_memo" where
  "sseEncodeEvent junk enc raw event data ident retry m =
     (let (ev, se) = sse_field enc event (sseMemoEvent m);
          (idv, si) = sse_field enc ident (sseMemoId m) in
      (snd (growExact junk (\<lambda>k out. raw ev data idv (sse_flags event ident retry) (or_default 0 retry) out)
         (length data + 64) (2 ^ 20) ''sse encode: output buffer too small''),
       \<lparr>sseMemoEvent = se, sseMemoId = si\<rparr>))"

definition sseEncodeEventInto ::
  "(jsstring \<Rightarrow> bytes) \<Rightarrow> raw_sse \<Rightarrow> jsstring option \<Rightarrow> bytes \<Rightarrow> jsstring option \<Rightarrow> nat option \<Rightarrow> bytes \<Rightarrow>
   sse_memo \<Rightarrow> (nat result \<times> bytes) \<times> sse_memo" where
  "sseEncodeEventInto enc raw event data ident retry output m =
     (let (ev, se) = sse_field enc event (sseMemoEvent m);
          (idv, si) = sse_field enc ident (sseMemoId m) in
      (checked_into ''sse encode: invalid UTF-8 in event/id'' ''sse encode: output buffer too small'' output
         (raw ev data idv (sse_flags event ident retry) (or_default 0 retry) output),
       \<lparr>sseMemoEvent = se, sseMemoId = si\<rparr>))"

section \<open>The fixed verdicts\<close>

definition int64_bytes :: "int \<Rightarrow> bytes" where
  "int64_bytes n = u64_le (nat (n mod 2 ^ 64))"

definition castrum_json_sum_ids :: "(bytes \<Rightarrow> int option) \<Rightarrow> bytes \<Rightarrow> raw_out" where
  "castrum_json_sum_ids core data out =
     (case core data of
        Some n \<Rightarrow> if 9 \<le> length out then (9, 1 # int64_bytes n @ drop 9 out) else (9, out)
      | None \<Rightarrow> if 1 \<le> length out then (1, 0 # drop 1 out) else (1, out))"

definition castrum_parse_http_date :: "(bytes \<Rightarrow> int option) \<Rightarrow> bytes \<Rightarrow> raw_out" where
  "castrum_parse_http_date parse data out =
     (case parse data of
        Some n \<Rightarrow> if length out < 9 then (9, out) else (9, 1 # int64_bytes n @ drop 9 out)
      | None \<Rightarrow> if length out < 1 then (1, out) else (1, 0 # drop 1 out))"

definition write_rate_check :: "bool \<Rightarrow> nat \<Rightarrow> int \<Rightarrow> raw_out" where
  "write_rate_check ok rem reset out =
     (if length out < 13 then (13, out)
      else (13, (if ok then 1 else 0) # u32_le rem @ int64_bytes reset @ drop 13 out))"

lemma length_int64_bytes [simp]: "length (int64_bytes n) = 8"
  by (simp add: int64_bytes_def)

lemma get_int64_bytes:
  assumes "- (2 ^ 63) \<le> n" and "n < 2 ^ 63" and "off = length p"
  shows "get_int64 (p @ int64_bytes n @ q) off = Inr n"
proof -
  let ?m = "nat (n mod 2 ^ 64)"
  have lt: "?m < 256 ^ 8" by (simp add: nat_less_iff)
  then have a: "get_uint 8 (p @ int64_bytes n @ q) off = Inr ?m"
    unfolding int64_bytes_def by (rule get_uint_le [OF assms(3)])
  have b: "(if ?m < 2 ^ 63 then int ?m else int ?m - 2 ^ 64) = n"
  proof (cases "0 \<le> n")
    case True
    then show ?thesis using assms(2) by (simp add: nat_less_iff)
  next
    case False
    have "n mod 2 ^ 64 = n + 2 ^ 64"
      using False assms(1) by (intro mod_pos_pos_trivial [THEN trans [OF mod_add_self2 [symmetric]]]) auto
    then show ?thesis using False assms(1) by (simp add: nat_less_iff)
  qed
  show ?thesis by (simp only: get_int64_def a rbind_simps b)
qed

section \<open>The SSE memos are transparent\<close>

definition slot_ok :: "(jsstring \<Rightarrow> bytes) \<Rightarrow> sse_slot \<Rightarrow> bool" where
  "slot_ok enc slot \<longleftrightarrow> (\<forall>s. memo_str slot = Some s \<longrightarrow> memo_bytes slot = enc s)"

definition memo_ok :: "(jsstring \<Rightarrow> bytes) \<Rightarrow> sse_memo \<Rightarrow> bool" where
  "memo_ok enc m \<longleftrightarrow> slot_ok enc (sseMemoEvent m) \<and> slot_ok enc (sseMemoId m)"

definition encoded_field :: "(jsstring \<Rightarrow> bytes) \<Rightarrow> jsstring option \<Rightarrow> bytes" where
  "encoded_field enc v = (case v of None \<Rightarrow> [] | Some s \<Rightarrow> enc s)"

lemma sse_field_transparent:
  "slot_ok enc slot \<Longrightarrow> fst (sse_field enc v slot) = encoded_field enc v \<and> slot_ok enc (snd (sse_field enc v slot))"
  by (auto simp: sse_field_def sseMemoEncode_def slot_ok_def encoded_field_def split: option.split)

lemma sse_event_transparent:
  assumes "memo_ok enc m"
  shows "fst (sseEncodeEvent junk enc raw event data ident retry m) =
      snd (growExact junk (\<lambda>k out. raw (encoded_field enc event) data (encoded_field enc ident)
        (sse_flags event ident retry) (or_default 0 retry) out)
        (length data + 64) (2 ^ 20) ''sse encode: output buffer too small'')"
    and "memo_ok enc (snd (sseEncodeEvent junk enc raw event data ident retry m))"
  using sse_field_transparent [of enc "sseMemoEvent m" event] sse_field_transparent [of enc "sseMemoId m" ident]
    assms
  by (auto simp: sseEncodeEvent_def memo_ok_def split_beta Let_def)

end
