(* ===== verification/NativeInstances.thy ===== *)
theory NativeInstances
  imports NativeParse
begin

text \<open>
  The handle-based wrappers of the native surface (\<open>src/src/native/ffi/build/instances.ts\<close>,
  \<open>build/metrics.ts\<close>) and two properties of the surface as a whole: no call sees what earlier
  calls left in the shared buffers, and no string argument is cut at a NUL without notice.  A
  compiled native object is its handle; the symbols are parameters.
\<close>

section \<open>Compiled instances\<close>

definition conditionalIsNotModified ::
  "(nat \<Rightarrow> bytes \<Rightarrow> bytes \<Rightarrow> nat \<Rightarrow> nat) \<Rightarrow> nat \<Rightarrow> bytes option \<Rightarrow> bytes option \<Rightarrow> bool" where
  "conditionalIsNotModified raw inner ifNoneMatch ifModifiedSince \<longleftrightarrow>
     (let flags = (if ifNoneMatch = None then 0 else 1) + (if ifModifiedSince = None then 0 else 2);
          inm = (case ifNoneMatch of None \<Rightarrow> [] | Some v \<Rightarrow> v);
          ims = (case ifModifiedSince of None \<Rightarrow> [] | Some v \<Rightarrow> v) in
      verdict (raw inner inm ims flags))"

definition acceptNegotiatorNegotiateServer ::
  "(bytes \<Rightarrow> jsstring) \<Rightarrow> (nat \<Rightarrow> bytes \<Rightarrow> jsstring option) \<Rightarrow> nat \<Rightarrow> bytes \<Rightarrow> jsstring option" where
  "acceptNegotiatorNegotiateServer dec raw inner header =
     (let txt = dec header in if hasNul txt then None else raw inner (cstring_arg txt))"

definition jwtSignerSign ::
  "junk \<Rightarrow> (nat \<Rightarrow> bytes \<Rightarrow> int \<Rightarrow> raw_out) \<Rightarrow> nat \<Rightarrow> bytes \<Rightarrow> int \<Rightarrow> nat list \<times> bytes result" where
  "jwtSignerSign junk raw inner claimsJson nowSeconds =
     growExact junk (\<lambda>k out. raw inner claimsJson nowSeconds out)
       (min (length claimsJson + 128) (64 * 1024)) (1024 * 1024)
       ''jwt signer: invalid claims JSON or output buffer too small''"

definition jwtSignerVerify ::
  "(nat \<Rightarrow> bytes \<Rightarrow> int \<Rightarrow> raw_out) \<Rightarrow> nat \<Rightarrow> bytes \<Rightarrow> int \<Rightarrow> bytes option" where
  "jwtSignerVerify raw inner token nowSeconds =
     (let cap = min (length token + 256) (64 * 1024);
          r = raw inner token nowSeconds (new_buf cap) in
      if fst r = 0 then None
      else if cap < fst r then
        (let r2 = raw inner token nowSeconds (new_buf (fst r)) in
         if fst r2 = 0 then None else Some (subarray (snd r2) 0 (fst r2)))
      else Some (subarray (snd r) 0 (fst r)))"

definition templateRender ::
  "junk \<Rightarrow> (nat \<Rightarrow> bytes \<Rightarrow> raw_out) \<Rightarrow> nat \<Rightarrow> bytes \<Rightarrow> nat list \<times> bytes result" where
  "templateRender junk raw inner contextJson =
     growExact junk (\<lambda>k out. raw inner contextJson out)
       (min (length contextJson + 128) (64 * 1024)) (1024 * 1024)
       ''template render: invalid context JSON or render failed''"

definition queryValidate :: "(nat \<Rightarrow> bytes \<Rightarrow> nat) \<Rightarrow> nat \<Rightarrow> jsstring \<Rightarrow> bool" where
  "queryValidate raw inner qs = (if hasNul qs then False else verdict (raw inner (cstring_arg qs)))"

definition cookieValidate :: "(nat \<Rightarrow> bytes \<Rightarrow> nat) \<Rightarrow> nat \<Rightarrow> jsstring \<Rightarrow> bool" where
  "cookieValidate raw inner header = (if hasNul header then False else verdict (raw inner (cstring_arg header)))"

definition sessionSeal ::
  "(bytes \<Rightarrow> bytes \<Rightarrow> int \<Rightarrow> bytes \<Rightarrow> jsstring option) \<Rightarrow> jsstring \<Rightarrow> jsstring \<Rightarrow> int \<Rightarrow> jsstring \<Rightarrow> jsstring option" where
  "sessionSeal raw ident dataJson expSecs secret =
     raw (cstring_arg ident) (cstring_arg dataJson) expSecs (cstring_arg secret)"

definition sessionOpen ::
  "(bytes \<Rightarrow> bytes \<Rightarrow> raw_out) \<Rightarrow> jsstring \<Rightarrow> jsstring \<Rightarrow> bytes \<Rightarrow> nat \<times> bytes" where
  "sessionOpen raw token secret output = raw (cstring_arg token) (cstring_arg secret) output"

text \<open>A NUL in the key denies without a native call; time is truncated to an integer before.\<close>

definition rateLimiterCheck ::
  "(nat \<Rightarrow> bytes \<Rightarrow> int \<Rightarrow> raw_out) \<Rightarrow> nat \<Rightarrow> jsstring \<Rightarrow> int \<Rightarrow> bind_ctx \<Rightarrow> rate_check result \<times> bind_ctx" where
  "rateLimiterCheck raw inner key nowMs c =
     (if hasNul key then (Inr \<lparr>allowed = False, remaining = 0, resetMs = 0\<rparr>, c)
      else (let r = raw inner (cstring_arg key) nowMs (rateScratch c) in
            (if fst r = 0 then Inl (JsError ''rate limiter check: null handle'')
             else unpackRateCheck (snd r), c\<lparr>rateScratch := snd r\<rparr>)))"

definition rateLimiterCheckKey ::
  "(nat \<Rightarrow> int \<Rightarrow> int \<Rightarrow> raw_out) \<Rightarrow> nat \<Rightarrow> int \<Rightarrow> int \<Rightarrow> bind_ctx \<Rightarrow> rate_check result \<times> bind_ctx" where
  "rateLimiterCheckKey raw inner key nowMs c =
     (let r = raw inner key nowMs (rateScratch c) in
      (if fst r = 0 then Inl (JsError ''rate limiter check: null handle'')
       else unpackRateCheck (snd r), c\<lparr>rateScratch := snd r\<rparr>))"

definition jwtSignBytesInto ::
  "(bytes \<Rightarrow> bytes \<Rightarrow> int \<Rightarrow> int \<Rightarrow> raw_out) \<Rightarrow> bytes \<Rightarrow> bytes \<Rightarrow> int \<Rightarrow> int \<Rightarrow> bytes \<Rightarrow> nat result \<times> bytes" where
  "jwtSignBytesInto raw claimsJson secret ttl now output =
     checked_into ''jwt sign: invalid claims JSON'' ''jwt sign: output buffer too small'' output
       (raw claimsJson secret ttl now output)"

definition urlBuilderResolve ::
  "junk \<Rightarrow> (nat \<Rightarrow> bytes \<Rightarrow> raw_out) \<Rightarrow> nat \<Rightarrow> bytes \<Rightarrow> nat list \<times> bytes result" where
  "urlBuilderResolve junk raw inner reference =
     growExact junk (\<lambda>k out. raw inner reference out)
       (min (length reference * 2 + 128) (64 * 1024)) (1024 * 1024)
       ''url builder resolve: invalid reference or output buffer too small''"

section \<open>Key pairs\<close>

text \<open>
  \<open>(b[o] ?? 0) | (b[o+1] ?? 0) << 8 | ...\<close>: four bytes as a signed 32-bit number, zero for a missing
  one; and \<open>subarray\<close> with arguments that may be negative, counted from the end.
\<close>

definition byte_or_zero :: "bytes \<Rightarrow> int \<Rightarrow> byte" where
  "byte_or_zero bs i = (if 0 \<le> i \<and> nat i < length bs then bs ! nat i else 0)"

definition le_i32 :: "bytes \<Rightarrow> int \<Rightarrow> int" where
  "le_i32 bs off =
     (let n = le_nat (map (\<lambda>j. byte_or_zero bs (off + int j)) [0..<4]) in
      if n < 2 ^ 31 then int n else int n - 2 ^ 32)"

definition view_index :: "nat \<Rightarrow> int \<Rightarrow> nat" where
  "view_index len i = (if i < 0 then nat (max 0 (int len + i)) else min (nat i) len)"

definition int_subarray :: "bytes \<Rightarrow> int \<Rightarrow> int \<Rightarrow> bytes" where
  "int_subarray bs a b = subarray bs (view_index (length bs) a) (view_index (length bs) b)"

definition ed25519GenerateKeypair :: "junk \<Rightarrow> native_write \<Rightarrow> (bytes \<times> bytes) result" where
  "ed25519GenerateKeypair junk raw =
     rbind (snd (growExact junk raw 100 1024 ''ed25519 keypair generation failed'')) (\<lambda>blob.
       let privLen = le_i32 blob 0;
           pubStart = 4 + privLen;
           pubLen = le_i32 blob pubStart in
       Inr (int_subarray blob 4 (4 + privLen),
            int_subarray blob (pubStart + 4) (pubStart + 4 + pubLen)))"

definition ed25519Sign ::
  "junk \<Rightarrow> (bytes \<Rightarrow> bytes \<Rightarrow> raw_out) \<Rightarrow> bytes \<Rightarrow> bytes \<Rightarrow> bytes result" where
  "ed25519Sign junk raw msg privateKey =
     snd (growExact junk (\<lambda>k out. raw privateKey msg out) 64 64 ''ed25519 sign failed (invalid private key)'')"

section \<open>Ingress and routes\<close>

definition ingressHandlePacked ::
  "(nat \<Rightarrow> bytes \<Rightarrow> bytes \<Rightarrow> raw_out) \<Rightarrow> nat \<Rightarrow> bytes \<Rightarrow> bytes option \<Rightarrow> bytes \<Rightarrow> nat result \<times> bytes" where
  "ingressHandlePacked raw inner input body output =
     (let r = raw inner input (case body of None \<Rightarrow> [] | Some b \<Rightarrow> b) output in
      (if fst r = 0 then Inl (JsError ''ingress handle: output buffer too small or pipeline error'')
       else Inr (fst r), snd r))"

definition ingressHandleComponents ::
  "(nat \<Rightarrow> nat \<Rightarrow> bytes \<Rightarrow> bytes \<Rightarrow> bytes \<Rightarrow> bytes \<Rightarrow> bytes \<Rightarrow> raw_out) \<Rightarrow> nat \<Rightarrow> nat \<Rightarrow> jsstring \<Rightarrow> jsstring \<Rightarrow>
   bytes \<Rightarrow> bytes \<Rightarrow> bytes option \<Rightarrow> bytes \<Rightarrow> nat result \<times> bytes" where
  "ingressHandleComponents raw inner methodKind url ip rid headers body output =
     (let r = raw inner methodKind (cstring_arg url) (cstring_arg ip) rid headers
                (case body of None \<Rightarrow> [] | Some b \<Rightarrow> b) output in
      (if fst r = 0 then Inl (JsError ''ingress components: output buffer too small or pipeline error'')
       else Inr (fst r), snd r))"

definition ingressLayout :: "raw_out \<Rightarrow> bytes \<Rightarrow> nat result \<times> bytes" where
  "ingressLayout raw out =
     (let r = raw out in
      (if fst r \<noteq> length out then Inl (JsError ''ingress layout: output buffer too small'')
       else Inr (fst r), snd r))"

definition routeCompile :: "(bytes \<Rightarrow> nat) \<Rightarrow> bytes \<Rightarrow> nat result" where
  "routeCompile raw descriptor =
     (if raw descriptor = 0 then Inl (JsError ''route compile: invalid route descriptor'')
      else Inr (raw descriptor))"

definition routeRun :: "(nat \<Rightarrow> bytes \<Rightarrow> raw_out) \<Rightarrow> nat \<Rightarrow> bytes \<Rightarrow> bytes \<Rightarrow> nat result \<times> bytes" where
  "routeRun raw handle frame output =
     (let r = raw handle frame output in
      (if fst r = 0 then Inl (JsError ''route run: malformed frame or pipeline error'')
       else Inr (fst r), snd r))"

section \<open>Metrics\<close>

definition throwIfNul :: "jsstring \<Rightarrow> string \<Rightarrow> unit result" where
  "throwIfNul value what =
     (if hasNul value then Inl (JsError (''metrics: '' @ what @ '' must not contain a NUL character (U+0000)''))
      else Inr ())"

definition METRICS_DECLARE_ERR :: nat where "METRICS_DECLARE_ERR = 0xffffffff"

text \<open>The message names the family, which is a run-time string; the model keeps its kind.\<close>

definition declareOrThrow :: "nat \<Rightarrow> string \<Rightarrow> nat result" where
  "declareOrThrow n what =
     (if n = METRICS_DECLARE_ERR
      then Inl (JsError (''metrics: failed to declare '' @ what @ '' (invalid name/labels/buckets)''))
      else Inr n)"

definition metricsCreate :: "nat \<Rightarrow> nat result" where
  "metricsCreate h = (if h = 0 then Inl (JsError ''metrics: registry allocation failed'') else Inr h)"

definition metricsCounter :: "(nat \<Rightarrow> bytes \<Rightarrow> bytes \<Rightarrow> nat) \<Rightarrow> nat \<Rightarrow> jsstring \<Rightarrow> jsstring \<Rightarrow> nat result" where
  "metricsCounter raw handle name labelKeys =
     rbind (throwIfNul name ''counter name'') (\<lambda>_.
     rbind (throwIfNul labelKeys ''counter label keys'') (\<lambda>_.
       declareOrThrow (raw handle (cstring_arg name) (cstring_arg labelKeys)) ''counter''))"

definition metricsGauge :: "(nat \<Rightarrow> bytes \<Rightarrow> bytes \<Rightarrow> nat) \<Rightarrow> nat \<Rightarrow> jsstring \<Rightarrow> jsstring \<Rightarrow> nat result" where
  "metricsGauge raw handle name labelKeys =
     rbind (throwIfNul name ''gauge name'') (\<lambda>_.
     rbind (throwIfNul labelKeys ''gauge label keys'') (\<lambda>_.
       declareOrThrow (raw handle (cstring_arg name) (cstring_arg labelKeys)) ''gauge''))"

definition metricsHistogram ::
  "(nat \<Rightarrow> bytes \<Rightarrow> bytes \<Rightarrow> bytes \<Rightarrow> nat) \<Rightarrow> nat \<Rightarrow> jsstring \<Rightarrow> jsstring \<Rightarrow> jsstring \<Rightarrow> nat result" where
  "metricsHistogram raw handle name labelKeys bucketsCsv =
     rbind (throwIfNul name ''histogram name'') (\<lambda>_.
     rbind (throwIfNul labelKeys ''histogram label keys'') (\<lambda>_.
       declareOrThrow (raw handle (cstring_arg name) (cstring_arg labelKeys) (cstring_arg bucketsCsv)) ''histogram''))"

definition metricsRecordStr :: "(nat \<Rightarrow> nat \<Rightarrow> bytes \<Rightarrow> 'v \<Rightarrow> nat) \<Rightarrow> nat \<Rightarrow> nat \<Rightarrow> jsstring \<Rightarrow> 'v \<Rightarrow> bool result" where
  "metricsRecordStr raw handle series values amount =
     rbind (throwIfNul values ''label values'') (\<lambda>_.
       Inr (verdict (raw handle series (cstring_arg values) amount)))"

definition metricsGaugeSetStr :: "(nat \<Rightarrow> nat \<Rightarrow> bytes \<Rightarrow> 'v \<Rightarrow> nat) \<Rightarrow> nat \<Rightarrow> nat \<Rightarrow> jsstring \<Rightarrow> 'v \<Rightarrow> bool result" where
  "metricsGaugeSetStr raw handle series values amount =
     rbind (throwIfNul values ''label values'') (\<lambda>_.
       Inr (verdict (raw handle series (cstring_arg values) amount)))"

definition metricsRender :: "(nat \<Rightarrow> raw_out) \<Rightarrow> nat \<Rightarrow> bytes \<Rightarrow> nat result \<times> bytes" where
  "metricsRender raw handle output =
     (let r = raw handle output in
      (if fst r = 0 then Inl (JsError ''metrics render: registry handle invalid or render failed'')
       else Inr (fst r), snd r))"

definition metricsSnapshot :: "(nat \<Rightarrow> raw_out) \<Rightarrow> nat \<Rightarrow> bytes \<Rightarrow> nat result \<times> bytes" where
  "metricsSnapshot raw handle output =
     (let r = raw handle output in
      (if fst r = 0 then Inl (JsError ''metrics snapshot: registry handle invalid'')
       else Inr (fst r), snd r))"

section \<open>String arguments\<close>


lemma of_nat_byte_nonzero: "0 < k \<Longrightarrow> k < 256 \<Longrightarrow> (of_nat k :: byte) \<noteq> 0"
  by (metis mod_less neq0_conv unat_0 unat_of_nat_byte)

lemma enc_scalar_nul:
  assumes "is_scalar n"
  shows "0 \<in> set (enc_scalar n) \<longleftrightarrow> n = 0"
proof -
  have n: "n < 0x110000" using assms by (simp add: is_scalar_def)
  have c: "(of_nat (0x80 + m mod 64) :: byte) \<noteq> 0" for m
    by (rule of_nat_byte_nonzero) (simp_all add: less_trans [OF mod_less_divisor])
  have "n < 0x800 \<Longrightarrow> (of_nat (0xC0 + n div 64) :: byte) \<noteq> 0"
    by (rule of_nat_byte_nonzero) linarith+
  moreover have "n < 0x10000 \<Longrightarrow> (of_nat (0xE0 + n div 4096) :: byte) \<noteq> 0"
    by (rule of_nat_byte_nonzero) linarith+
  moreover have "(of_nat (0xF0 + n div 262144) :: byte) \<noteq> 0"
    using n by (intro of_nat_byte_nonzero) linarith+
  moreover have "n < 0x80 \<Longrightarrow> (of_nat n :: byte) = 0 \<longleftrightarrow> n = 0"
    using of_nat_byte_nonzero [of n] by auto
  ultimately show ?thesis
    using c by (auto simp: enc_scalar_def simp del: of_nat_add split: if_splits) 
qed

lemma unit_scalar_nul: "unit_scalar c = 0 \<longleftrightarrow> c = 0"
  by (auto simp: unit_scalar_def is_high_def is_low_def unat_eq_zero)

lemma scalars_nul: "0 \<in> set (scalars s) \<longleftrightarrow> 0 \<in> set s"
  by (induction s rule: scalars.induct)
    (auto simp: unit_scalar_nul pair_scalar_def is_high_def is_low_def)

lemma utf8_nul: "0 \<in> set (utf8_encode s) \<longleftrightarrow> hasNul s"
proof -
  have "0 \<in> set (utf8_encode s) \<longleftrightarrow> (\<exists>n \<in> set (scalars s). 0 \<in> set (enc_scalar n))"
    by (auto simp: utf8_encode_def)
  also have "\<dots> \<longleftrightarrow> 0 \<in> set (scalars s)"
    using enc_scalar_nul scalars_are_scalars by blast
  finally show ?thesis by (simp add: scalars_nul hasNul_def)
qed

lemma cstring_arg_exact: "cstring_arg s = utf8_encode s \<longleftrightarrow> \<not> hasNul s"
  unfolding cstring_arg_def utf8_nul [symmetric] takeWhile_eq_all_conv by auto

lemma cstring_arg_guarded [simp]: "\<not> hasNul s \<Longrightarrow> cstring_arg s = utf8_encode s"
  by (simp add: cstring_arg_exact)



section \<open>No call sees an earlier one\<close>

text \<open>The calls that use the buffers of the binding context, and the symbols behind them.\<close>

datatype ctx_call =
    CHex bytes
  | CUrl bytes
  | CBase64 bytes "bool option" "bool option"
  | CHmac bytes bytes
  | CPatch bytes bytes
  | CMedia bytes
  | CAccept bytes
  | CDate "int option"
  | CSum bytes
  | CParseDate bytes
  | CRate nat jsstring int

record ctx_natives =
  n_hex :: "bytes \<Rightarrow> raw_out"
  n_url :: "bytes \<Rightarrow> raw_out"
  n_base64 :: raw_b64
  n_hmac :: "bytes \<Rightarrow> bytes \<Rightarrow> raw_out"
  n_patch :: "bytes \<Rightarrow> bytes \<Rightarrow> raw_out"
  n_media :: "bytes \<Rightarrow> raw_out"
  n_accept :: "bytes \<Rightarrow> raw_out"
  n_date :: "int \<Rightarrow> raw_out"
  n_sum :: "bytes \<Rightarrow> raw_out"
  n_parse_date :: "bytes \<Rightarrow> raw_out"
  n_rate :: "nat \<Rightarrow> bytes \<Rightarrow> int \<Rightarrow> raw_out"
  n_decode :: "bytes \<Rightarrow> jsstring"
  n_utc :: "int \<Rightarrow> jsstring"

datatype call_value = VText jsstring | VBytes bytes | VInt "int option" | VRate rate_check

definition map_value :: "('a \<Rightarrow> call_value) \<Rightarrow> 'a result \<times> bind_ctx \<Rightarrow> call_value result \<times> bind_ctx" where
  "map_value f r = (rbind (fst r) (\<lambda>x. Inr (f x)), snd r)"

fun surface :: "ctx_natives \<Rightarrow> ctx_call \<Rightarrow> bind_ctx \<Rightarrow> call_value result \<times> bind_ctx" where
  "surface N (CHex i) c = map_value VText (hexEncode (n_decode N) (n_hex N) i c)"
| "surface N (CUrl i) c = map_value VText (urlEncode (n_decode N) (n_url N) i c)"
| "surface N (CBase64 i u p) c = map_value VText (base64Encode (n_decode N) (n_base64 N) i u p c)"
| "surface N (CHmac k d) c = map_value VText (hmacSha256 (n_decode N) (n_hmac N) k d c)"
| "surface N (CPatch d p) c = map_value VText (jsonPatch (n_decode N) (n_patch N) d p c)"
| "surface N (CMedia i) c = map_value VBytes (parseMediaType (n_media N) i c)"
| "surface N (CAccept i) c = map_value VBytes (parseAcceptEncoding (n_accept N) i c)"
| "surface N (CDate t) c =
     (let r = httpDate (n_decode N) (n_utc N) (n_date N) t c in (Inr (VText (fst r)), snd r))"
| "surface N (CSum i) c = map_value (\<lambda>n. VInt (Some n)) (jsonSumIds (n_sum N) i c)"
| "surface N (CParseDate i) c = map_value VInt (parseHttpDate (n_parse_date N) i c)"
| "surface N (CRate h k t) c = map_value VRate (rateLimiterCheck (n_rate N) h k t c)"

fun surface_run :: "ctx_natives \<Rightarrow> ctx_call list \<Rightarrow> bind_ctx \<Rightarrow> bind_ctx" where
  "surface_run N [] c = c"
| "surface_run N (x # xs) c = surface_run N xs (snd (surface N x c))"

text \<open>
  What the wrappers rely on: the conventions, the worst-case sizes of the string encoders, the cap
  of the patch engine, and the fixed verdicts of the three exports modelled above.
\<close>

definition sized :: "raw_out \<Rightarrow> nat \<Rightarrow> bool" where
  "sized raw n \<longleftrightarrow> (\<exists>a. count_or_zero raw a \<and> (\<forall>b. a = Some b \<longrightarrow> length b \<le> n))"

definition needed :: "raw_out \<Rightarrow> nat option \<Rightarrow> bool" where
  "needed raw lim \<longleftrightarrow> (\<exists>a. needed_size (\<lambda>_. raw) (\<lambda>_. a) \<and> (\<forall>b m. a = Some b \<longrightarrow> lim = Some m \<longrightarrow> length b \<le> m))"

definition surface_laws :: "ctx_natives \<Rightarrow> bool" where
  "surface_laws N \<longleftrightarrow>
     (\<forall>i. sized (n_hex N i) (length i * 2)) \<and> (\<forall>i. sized (n_url N i) (length i * 3)) \<and>
     (\<forall>i u p. sized (n_base64 N i u p) ((length i + 2) div 3 * 4)) \<and>
     (\<forall>k d. sized (n_hmac N k d) 64) \<and> (\<forall>t. sized (n_date N t) 32) \<and>
     (\<forall>d p. needed (n_patch N d p) (Some MAX_JSON_PATCH_OUTPUT)) \<and>
     (\<forall>i. needed (n_media N i) None) \<and> (\<forall>i. needed (n_accept N i) None) \<and>
     (\<exists>core. n_sum N = castrum_json_sum_ids core) \<and> (\<exists>parse. n_parse_date N = castrum_parse_http_date parse) \<and>
     (\<forall>h k t. \<exists>ok rem rst. n_rate N h k t = write_rate_check ok rem rst)"

definition ctx_ok :: "bind_ctx \<Rightarrow> bool" where
  "ctx_ok c \<longleftrightarrow> length (jsonSumOut c) = 9 \<and> length (dateScratch c) = 9 \<and> length (rateScratch c) = 13"

lemma scratch_for_ok [simp]:
  "ctx_ok (encode_scratch_for n c) = ctx_ok c" "n \<le> length (encodeScratch (encode_scratch_for n c))"
  "ctx_ok (c\<lparr>encodeScratch := b\<rparr>) = ctx_ok c"
  by (simp_all add: encode_scratch_for_def ctx_ok_def)

lemma sized_answer:
  assumes "sized raw n"
  obtains b where "\<And>out. n \<le> length out \<Longrightarrow> fst (raw out) = length b \<and> subarray (snd (raw out)) 0 (length b) = b"
proof -
  obtain a where a: "count_or_zero raw a" and n: "\<And>b. a = Some b \<Longrightarrow> length b \<le> n"
    using assms unfolding sized_def by blast
  show ?thesis
  proof (cases a)
    case None
    show ?thesis
      by (rule that [of "[]"]) (use count_or_zero.miss [OF a None] in \<open>simp add: subarray_def\<close>)
  next
    case (Some b)
    have "raw out = (length b, b @ drop (length b) out)" if "n \<le> length out" for out
      using count_or_zero.fits [OF a Some, of out] n [OF Some] that by linarith
    then show ?thesis by (intro that [of b]) (simp add: subarray_def)
  qed
qed

text \<open>A string encoder that only looks at the count has one value for every scratch.\<close>

lemma scratch_text_fixed:
  assumes "sized raw n" and "\<And>out. n \<le> length out \<Longrightarrow> into out = (f (fst (raw out)), snd (raw out))"
    and "\<And>w x. f w = Inr x \<Longrightarrow> x = w"
  shows "\<exists>v. \<forall>c. fst (scratch_text dec n into c) = v"
proof -
  obtain b where b: "\<And>out. n \<le> length out \<Longrightarrow>
      fst (raw out) = length b \<and> subarray (snd (raw out)) 0 (length b) = b"
    using sized_answer [OF assms(1)] by blast
  have "fst (scratch_text dec n into c) = rbind (f (length b)) (\<lambda>w. Inr (dec b))" for c
  proof (cases "f (length b)")
    case (Inr x)
    then have "x = length b" by (rule assms(3))
    then show ?thesis
      using Inr b [of "encodeScratch (encode_scratch_for n c)"]
      by (simp add: scratch_text_def Let_def assms(2))
  qed (use b [of "encodeScratch (encode_scratch_for n c)"] in \<open>simp add: scratch_text_def Let_def assms(2)\<close>)
  then show ?thesis by blast
qed

lemma scratch_retry_fixed:
  assumes "needed raw lim"
  shows "\<exists>v. \<forall>c. fst (scratch_retry raw n lim err c) = v"
proof -
  obtain a where a: "needed_size (\<lambda>_. raw) (\<lambda>_. a)"
    and m: "\<And>b m. a = Some b \<Longrightarrow> lim = Some m \<Longrightarrow> length b \<le> m"
    using assms unfolding needed_def by blast
  note ns = needed_size.miss [OF a, simplified] needed_size.written [OF a] needed_size.fits [OF a]
  let ?v = "case a of None \<Rightarrow> Inl (JsError err) | Some b \<Rightarrow> if b = [] then Inl (JsError err) else Inr b"
  have "fst (scratch_retry raw n lim err c) = ?v" for c
  proof (cases a)
    case None
    then have "fst (raw out) = 0" for out by (rule ns(1))
    then show ?thesis using None by (simp add: scratch_retry_def Let_def)
  next
    case (Some b)
    let ?out = "encodeScratch (encode_scratch_for n c)"
    have w: "fst (raw out) = length b" for out by (rule ns(2) [OF Some])
    have fit: "raw out = (length b, b @ drop (length b) out)" if "length b \<le> length out" for out
      by (rule ns(3) [OF Some that])
    show ?thesis
    proof (cases "length b \<le> length ?out")
      case True
      then show ?thesis using Some fit [OF True] by (auto simp: scratch_retry_def Let_def subarray_def)
    next
      case False
      have "case lim of None \<Rightarrow> True | Some m \<Rightarrow> length b \<le> m"
        using m [OF Some] by (cases lim) auto
      then show ?thesis
        using Some False fit [of "new_buf (length b)"] w [of ?out]
        by (cases lim) (auto simp: scratch_retry_def Let_def subarray_def)
    qed
  qed
  then show ?thesis by blast
qed

lemma encoders_fixed:
  assumes "surface_laws N"
  shows "\<exists>v. \<forall>c. fst (hexEncode (n_decode N) (n_hex N) i c) = v"
    and "\<exists>v. \<forall>c. fst (urlEncode (n_decode N) (n_url N) i c) = v"
    and "\<exists>v. \<forall>c. fst (base64Encode (n_decode N) (n_base64 N) i u p c) = v"
    and "\<exists>v. \<forall>c. fst (hmacSha256 (n_decode N) (n_hmac N) k d c) = v"
  unfolding hexEncode_def urlEncode_def base64Encode_def hmacSha256_def
  by (rule scratch_text_fixed [where raw = "n_hex N i" and f = Inr],
      use assms in \<open>auto simp: surface_laws_def hexEncodeInto_def Let_def\<close>)
    (rule scratch_text_fixed [where raw = "n_url N i" and f = "\<lambda>w. if w = 0 \<and> length i \<noteq> 0
        then Inl (JsError ''url encode: output buffer too small'') else Inr w"],
      use assms in \<open>auto simp: surface_laws_def urlEncodeInto_def Let_def split: if_splits\<close>,
     rule scratch_text_fixed [where raw = "n_base64 N i (flag u) (padding_flag p)"
        and f = "\<lambda>w. writeOrThrow w (length i) ''base64 encode''"],
      use assms in \<open>auto simp: surface_laws_def base64EncodeInto_def writeOrThrow_def Let_def split: if_splits\<close>,
     rule scratch_text_fixed [where raw = "n_hmac N k d" and f = "\<lambda>w. if w = 0
        then Inl (JsError ''hmac sha256: output buffer too small'') else Inr w"],
      use assms in \<open>auto simp: surface_laws_def Let_def split: if_splits\<close>)

lemma date_fixed: "surface_laws N \<Longrightarrow> \<exists>v. \<forall>c. fst (httpDate (n_decode N) (n_utc N) (n_date N) t c) = v"
proof -
  assume "surface_laws N"
  then have "sized (n_date N (secs_or_zero t)) 32" by (simp add: surface_laws_def)
  then obtain b where b: "\<And>out. 32 \<le> length out \<Longrightarrow> fst (n_date N (secs_or_zero t) out) = length b \<and>
      subarray (snd (n_date N (secs_or_zero t) out)) 0 (length b) = b"
    using sized_answer by blast
  have "fst (httpDate (n_decode N) (n_utc N) (n_date N) t c) =
      (if b \<noteq> [] then n_decode N b else n_utc N (secs_or_zero t * 1000))" for c
    using b [of "encodeScratch (encode_scratch_for 32 c)"] by (simp add: httpDate_def Let_def)
  then show ?thesis by blast
qed

lemma surface_ctx_ok: "surface_laws N \<Longrightarrow> ctx_ok c \<Longrightarrow> ctx_ok (snd (surface N x c))"
proof (cases x)
  case (CSum i)
  assume "surface_laws N" "ctx_ok c"
  then show ?thesis
    by (auto simp: CSum surface_laws_def ctx_ok_def map_value_def jsonSumIds_def castrum_json_sum_ids_def
        Let_def split: option.splits)
next
  case (CParseDate i)
  assume "surface_laws N" "ctx_ok c"
  then show ?thesis
    by (auto simp: CParseDate surface_laws_def ctx_ok_def map_value_def parseHttpDate_def
        castrum_parse_http_date_def Let_def split: option.splits)
next
  case (CRate h k t)
  assume "surface_laws N" "ctx_ok c"
  moreover from this obtain ok rem rst where "n_rate N h (cstring_arg k) t = write_rate_check ok rem rst"
    unfolding surface_laws_def by blast
  ultimately show ?thesis
    by (auto simp: CRate ctx_ok_def map_value_def rateLimiterCheck_def write_rate_check_def Let_def)
qed (simp_all add: map_value_def hexEncode_def urlEncode_def base64Encode_def hmacSha256_def scratch_text_def
      jsonPatch_def parseMediaType_def parseAcceptEncoding_def scratch_retry_def httpDate_def Let_def)

lemma fixed_value: "\<exists>v. \<forall>c. fst (f c) = v \<Longrightarrow> fst (map_value g (f c)) = fst (map_value g (f c'))"
  by (metis fst_conv map_value_def)

lemma surface_fixed:
  assumes "surface_laws N" and "ctx_ok c" and "ctx_ok c'"
  shows "fst (surface N x c) = fst (surface N x c')"
proof (cases x)
  case (CSum i)
  obtain core where core: "n_sum N = castrum_json_sum_ids core" using assms(1) unfolding surface_laws_def by blast
  have "fst (jsonSumIds (n_sum N) i c) = fst (jsonSumIds (n_sum N) i c')"
    using assms(2,3)
    by (cases "core i") (auto simp: core ctx_ok_def jsonSumIds_def castrum_json_sum_ids_def byte_zero_def Let_def)
  then show ?thesis by (simp add: CSum map_value_def)
next
  case (CParseDate i)
  obtain parse where parse: "n_parse_date N = castrum_parse_http_date parse"
    using assms(1) unfolding surface_laws_def by blast
  have "fst (parseHttpDate (n_parse_date N) i c) = fst (parseHttpDate (n_parse_date N) i c')"
    using assms(2,3)
    by (cases "parse i") (auto simp: parse ctx_ok_def parseHttpDate_def castrum_parse_http_date_def byte_zero_def Let_def)
  then show ?thesis by (simp add: CParseDate map_value_def)
next
  case (CRate h k t)
  obtain ok rem rst where r: "n_rate N h (cstring_arg k) t = write_rate_check ok rem rst"
    using assms(1) unfolding surface_laws_def by blast
  have "fst (rateLimiterCheck (n_rate N) h k t c) = fst (rateLimiterCheck (n_rate N) h k t c')"
    using assms(2,3) by (simp add: r ctx_ok_def rateLimiterCheck_def write_rate_check_def Let_def del: cstring_arg_guarded)
  then show ?thesis by (simp add: CRate map_value_def)
next
  case (CPatch d p)
  have "needed (n_patch N d p) (Some MAX_JSON_PATCH_OUTPUT)" using assms(1) by (simp add: surface_laws_def)
  from scratch_retry_fixed [OF this] show ?thesis
    by (simp add: CPatch map_value_def jsonPatch_def Let_def) metis
next
  case (CMedia i)
  have "needed (n_media N i) None" using assms(1) by (simp add: surface_laws_def)
  from scratch_retry_fixed [OF this] show ?thesis
    unfolding CMedia surface.simps parseMediaType_def by (rule fixed_value)
next
  case (CAccept i)
  have "needed (n_accept N i) None" using assms(1) by (simp add: surface_laws_def)
  from scratch_retry_fixed [OF this] show ?thesis
    unfolding CAccept surface.simps parseAcceptEncoding_def by (rule fixed_value)
next
  case (CDate t)
  then show ?thesis using date_fixed [OF assms(1), of t] by (auto simp: Let_def)
next
  case (CHex i)
  from encoders_fixed(1) [OF assms(1)] show ?thesis unfolding CHex surface.simps by (rule fixed_value)
next
  case (CUrl i)
  from encoders_fixed(2) [OF assms(1)] show ?thesis unfolding CUrl surface.simps by (rule fixed_value)
next
  case (CBase64 i u p)
  from encoders_fixed(3) [OF assms(1)] show ?thesis unfolding CBase64 surface.simps by (rule fixed_value)
next
  case (CHmac k d)
  from encoders_fixed(4) [OF assms(1)] show ?thesis unfolding CHmac surface.simps by (rule fixed_value)
qed

lemma surface_run_ok: "surface_laws N \<Longrightarrow> ctx_ok c \<Longrightarrow> ctx_ok (surface_run N xs c)"
  by (induction xs arbitrary: c) (simp_all add: surface_ctx_ok)

lemma new_ctx_ok: "ctx_ok new_ctx"
  by (simp add: ctx_ok_def new_ctx_def)


text \<open>Symbols that follow the laws: copies of the input, and the three fixed verdicts.\<close>

definition sample_natives :: ctx_natives where
  "sample_natives =
     \<lparr>n_hex = castrum_hex_encode, n_url = (\<lambda>i. copy_out (Some i)), n_base64 = (\<lambda>i _ _. copy_out (Some i)),
      n_hmac = (\<lambda>k d. copy_out (Some (replicate 64 48))),
      n_patch = (\<lambda>d p. answering [7] 0), n_media = (\<lambda>i. answering i 0), n_accept = (\<lambda>i. answering i 0),
      n_date = (\<lambda>t. copy_out None), n_sum = castrum_json_sum_ids (\<lambda>i. Some (int (length i))),
      n_parse_date = castrum_parse_http_date (\<lambda>_. None), n_rate = (\<lambda>_ _ _. write_rate_check True 5 0),
      n_decode = node_decodeUtf8, n_utc = (\<lambda>_. [])\<rparr>"

lemma copy_out_sized: "(\<forall>b. a = Some b \<longrightarrow> length b \<le> n) \<Longrightarrow> sized (copy_out a) n"
  unfolding sized_def
  by (intro exI [of _ a] conjI, unfold_locales) (auto simp: copy_out_def split: option.splits)

lemma answering_needed: "(\<forall>m. lim = Some m \<longrightarrow> length b \<le> m) \<Longrightarrow> needed (answering b 0) lim"
  unfolding needed_def
  by (intro exI [of _ "Some b"] conjI, unfold_locales) (auto simp: answering_def)

lemma sample_laws: "surface_laws sample_natives"
proof -
  have "sized (castrum_hex_encode i) (length i * 2)" for i
    unfolding sized_def using hex_encoded.count_or_zero_axioms [of i] by force
  moreover have "length i \<le> (length i + 2) div 3 * 4" for i :: bytes
    by linarith
  ultimately show ?thesis
    by (auto simp: surface_laws_def sample_natives_def MAX_JSON_PATCH_OUTPUT_def
        intro!: copy_out_sized answering_needed)
qed


section \<open>Generated keys\<close>

lemma byte_or_zero_nth: "i < length bs \<Longrightarrow> byte_or_zero bs (int i) = bs ! i"
  by (simp add: byte_or_zero_def)

lemma le_i32_field:
  assumes "n < 2 ^ 31" and "off = int (length p)"
  shows "le_i32 (p @ u32_le n @ q) off = int n"
proof -
  have "map (\<lambda>j. byte_or_zero (p @ u32_le n @ q) (off + int j)) [0..<4] = u32_le n"
  proof (rule nth_equalityI)
    fix i
    assume "i < length (map (\<lambda>j. byte_or_zero (p @ u32_le n @ q) (off + int j)) [0..<4])"
    then have i: "i < 4" by simp
    have "byte_or_zero (p @ u32_le n @ q) (int (length p + i)) = u32_le n ! i"
      using i by (subst byte_or_zero_nth) (auto simp: nth_append)
    then show "map (\<lambda>j. byte_or_zero (p @ u32_le n @ q) (off + int j)) [0..<4] ! i = u32_le n ! i"
      using i assms(2) by simp
  qed simp
  moreover have "le_nat (u32_le n) = n" using assms(1) by (intro le_nat_le_bytes_id) simp
  ultimately show ?thesis using assms(1) by (simp add: le_i32_def)
qed

text \<open>
  the key pair comes back as it was packed: for every private and public key whose blob the
  loop can hold, also when two attempts of the generator produce different keys of the same sizes,
  the wrapper returns the pair of one attempt, unmixed.
\<close>

theorem keypair_unpacked:
  assumes "\<forall>k. length (priv k) = m \<and> length (pub k) = n" and "8 + m + n \<le> 1024"
    and "needed_size raw (\<lambda>k. Some (u32_le m @ priv k @ u32_le n @ pub k))"
  shows "\<exists>k. ed25519GenerateKeypair junk raw = Inr (priv k, pub k)"
proof -
  let ?blob = "\<lambda>k. u32_le m @ priv k @ u32_le n @ pub k"
  have ne: "u32_le j \<noteq> []" for j
    by (metis length_0_conv length_le_bytes zero_neq_numeral)
  have "\<exists>k. snd (growExact junk raw 100 1024 ''ed25519 keypair generation failed'') = Inr (?blob k)"
    using needed_size.grow_answer [OF assms(3) _ refl, where initial = 100 and mx = 1024 and junk = junk
        and err = "''ed25519 keypair generation failed''"] assms(1,2) by (auto simp: ne)
  then obtain k where k: "snd (growExact junk raw 100 1024 ''ed25519 keypair generation failed'') = Inr (?blob k)"
    by blast
  have pl: "le_i32 (?blob k) 0 = int m"
    using le_i32_field [of m 0 "[]"] assms(2) by simp
  have ql: "le_i32 (?blob k) (4 + int m) = int n"
    using le_i32_field [of n "4 + int m" "u32_le m @ priv k"] assms(1,2) by simp
  have "int_subarray (?blob k) 4 (4 + int m) = priv k"
    using subarray_append [of 4 "u32_le m" "4 + m" "priv k" "u32_le n @ pub k"] assms(1)
    by (simp add: int_subarray_def view_index_def nat_add_distrib)
  moreover have "int_subarray (?blob k) (4 + int m + 4) (4 + int m + 4 + int n) = pub k"
    using subarray_append [of "8 + m" "u32_le m @ priv k @ u32_le n" "8 + m + n" "pub k" "[]"] assms(1)
    by (simp add: int_subarray_def view_index_def nat_add_distrib)
  ultimately show ?thesis
    by (intro exI [of _ k]) (simp add: ed25519GenerateKeypair_def k pl ql Let_def)
qed

theorem keypair_unpacked_witness:
  "ed25519GenerateKeypair (\<lambda>_ _. 0) (answering (u32_le 2 @ [1, 2] @ u32_le 3 @ [4, 5, 6])) = Inr ([1, 2], [4, 5, 6])"
  using keypair_unpacked [of "\<lambda>_. [1, 2]" 2 "\<lambda>_. [4, 5, 6]" 3
      "answering (u32_le 2 @ [1, 2] @ u32_le 3 @ [4, 5, 6])" "\<lambda>_ _. 0"]
    answering_needed_size [of "u32_le 2 @ [1, 2] @ u32_le 3 @ [4, 5, 6]"] by simp

end
