(* ===== verification/JsonPacked.thy ===== *)
theory JsonPacked
  imports Codec
begin

text \<open>
  The packed JSON decoder (\<open>src/src/rust-ffi/scalar/json-packed.ts\<close>): the native parser emits a
  deduplicated string table and a stream of tokens with start and end markers, and
  \<open>decodeJsonPacked\<close> runs that stream over an explicit stack of frames.  A JavaScript object is
  its prototype slot and its own properties in insertion order; \<open>obj[key] = v\<close> is an assignment,
  so a key \<open>__proto__\<close> reaches the setter inherited from \<open>Object.prototype\<close>.  The decoder of one
  table entry is a parameter: \<open>CString\<close> under Bun, the text codec elsewhere.

  The parsed document \<open>jdoc\<close>, its layout \<open>pack_json\<close> and the value \<open>JSON.parse\<close> gives it are the
  specification the decoder is compared with.
\<close>

section \<open>Values and assignment\<close>

text \<open>
  A number is the eight bytes of its IEEE image.  The first argument of \<open>JObj\<close> is the prototype:
  \<open>None\<close> for \<open>Object.prototype\<close>, else what the setter stored.
\<close>

datatype jsval =
    JUndef
  | JNull
  | JBool bool
  | JNum bytes
  | JStr jsstring
  | JArr "jsval list"
  | JObj "jsval option" "(jsstring \<times> jsval) list"

definition proto_key :: jsstring where
  "proto_key = js ''__proto__''"

text \<open>Whether an assignment to \<open>__proto__\<close> finds the inherited setter on this prototype chain.\<close>

fun inherits_setter :: "jsval option \<Rightarrow> bool" where
  "inherits_setter (Some (JObj p props)) =
     (proto_key \<notin> set (map fst props) \<and> inherits_setter p)"
| "inherits_setter (Some JNull) = False"
| "inherits_setter _ = True"

fun is_prototype :: "jsval \<Rightarrow> bool" where
  "is_prototype JNull = True"
| "is_prototype (JArr _) = True"
| "is_prototype (JObj _ _) = True"
| "is_prototype _ = False"

type_synonym json_obj = "jsval option \<times> (jsstring \<times> jsval) list"

definition assign_prop :: "json_obj \<Rightarrow> jsstring \<Rightarrow> jsval \<Rightarrow> json_obj" where
  "assign_prop ob key v =
     (let (p, props) = ob in
      if key = proto_key \<and> key \<notin> set (map fst props) \<and> inherits_setter p
      then (if is_prototype v then (Some v, props) else (p, props))
      else (p, AList.update key v props))"

section \<open>The decoder\<close>

record json_frame =
  isObj :: bool
  fr_arr :: "jsval list"
  fr_obj :: json_obj
  fr_key :: jsstring

definition new_frame :: "bool \<Rightarrow> json_frame" where
  "new_frame b = \<lparr>isObj = b, fr_arr = [], fr_obj = (None, []), fr_key = []\<rparr>"

definition fastDecodeUtf8 :: "(bytes \<Rightarrow> jsstring) \<Rightarrow> bytes \<Rightarrow> jsstring" where
  "fastDecodeUtf8 dec bs = (if bs = [] then [] else dec bs)"

text \<open>The string table: \<open>strCount\<close> entries from \<open>p\<close>; a short last entry is the clamped slice.\<close>

fun read_strings :: "(bytes \<Rightarrow> jsstring) \<Rightarrow> bytes \<Rightarrow> nat \<Rightarrow> nat \<Rightarrow> (jsstring list \<times> nat) result" where
  "read_strings dec bs 0 p = Inr ([], p)"
| "read_strings dec bs (Suc i) p =
     rbind (get_uint 4 bs p) (\<lambda>n.
     rbind (read_strings dec bs i (p + 4 + n)) (\<lambda>(ss, q).
       Inr (fastDecodeUtf8 dec (subarray bs (p + 4) (p + 4 + n)) # ss, q)))"

text \<open>\<open>strings[i]\<close> past the end of the table is \<open>undefined\<close>, as a key the text \<open>undefined\<close>.\<close>

definition string_value :: "jsstring list \<Rightarrow> nat \<Rightarrow> jsval" where
  "string_value ss i = (if i < length ss then JStr (ss ! i) else JUndef)"

definition string_key :: "jsstring list \<Rightarrow> nat \<Rightarrow> jsstring" where
  "string_key ss i = (if i < length ss then ss ! i else js ''undefined'')"

text \<open>The running state: the stack, innermost frame first, and the root.\<close>

type_synonym json_state = "json_frame list \<times> jsval"

definition attach_value :: "jsval \<Rightarrow> json_state \<Rightarrow> json_state" where
  "attach_value v st =
     (case fst st of
        [] \<Rightarrow> ([], v)
      | f # fs \<Rightarrow>
          ((if isObj f then f\<lparr>fr_obj := assign_prop (fr_obj f) (fr_key f) v\<rparr>
            else f\<lparr>fr_arr := fr_arr f @ [v]\<rparr>) # fs, snd st))"

definition popFrame :: "json_state \<Rightarrow> (json_frame \<times> json_state) result" where
  "popFrame st =
     (case fst st of
        [] \<Rightarrow> Inl (JsError ''json parse: malformed packed stream'')
      | f # fs \<Rightarrow> Inr (f, (fs, snd st)))"

definition set_key :: "jsstring \<Rightarrow> json_state \<Rightarrow> json_state result" where
  "set_key k st =
     (case fst st of
        [] \<Rightarrow> Inl (TypeError ''undefined is not an object'')
      | f # fs \<Rightarrow> Inr (f\<lparr>fr_key := k\<rparr> # fs, snd st))"

text \<open>One token; the position after it comes first.\<close>

definition json_token ::
  "jsstring list \<Rightarrow> bytes \<Rightarrow> nat \<Rightarrow> json_state \<Rightarrow> (nat \<times> json_state) result" where
  "json_token ss bs p st =
     rbind (get_uint 1 bs p) (\<lambda>t.
       if t = 0 then Inr (p + 1, attach_value JNull st)
       else if t = 1 then Inr (p + 1, attach_value (JBool False) st)
       else if t = 2 then Inr (p + 1, attach_value (JBool True) st)
       else if t = 3 then
         rbind (get_uint 8 bs (p + 1)) (\<lambda>n. Inr (p + 9, attach_value (JNum (le_bytes 8 n)) st))
       else if t = 4 then
         rbind (get_uint 4 bs (p + 1)) (\<lambda>i. Inr (p + 5, attach_value (string_value ss i) st))
       else if t = 5 then Inr (p + 1, (new_frame False # fst st, snd st))
       else if t = 6 then Inr (p + 1, (new_frame True # fst st, snd st))
       else if t = 7 then
         rbind (popFrame st) (\<lambda>(f, st'). Inr (p + 1, attach_value (JArr (fr_arr f)) st'))
       else if t = 8 then
         rbind (popFrame st) (\<lambda>(f, st').
           Inr (p + 1, attach_value (JObj (fst (fr_obj f)) (snd (fr_obj f))) st'))
       else if t = 9 then
         rbind (get_uint 4 bs (p + 1)) (\<lambda>i.
         rbind (set_key (string_key ss i) st) (\<lambda>st'. Inr (p + 5, st')))
       else Inl (JsError ''json parse: malformed packed token''))"

lemma json_token_advances: "json_token ss bs p st = Inr (q, st') \<Longrightarrow> p < q"
  by (auto simp: json_token_def rbind_Inr_conv split: if_splits)

function json_loop ::
  "jsstring list \<Rightarrow> bytes \<Rightarrow> nat \<Rightarrow> nat \<Rightarrow> json_state \<Rightarrow> (nat \<times> json_state) result" where
  "json_loop ss bs e p st =
     (if p < e then rbind (json_token ss bs p st) (\<lambda>(q, st'). json_loop ss bs e q st')
      else Inr (p, st))"
  by pat_completeness auto
termination
  by (relation "measure (\<lambda>(ss, bs, e, p, st). e - p)") (auto dest: json_token_advances)

declare json_loop.simps [simp del]

definition decodeJsonPacked :: "(bytes \<Rightarrow> jsstring) \<Rightarrow> bytes \<Rightarrow> jsval result" where
  "decodeJsonPacked dec bs =
     rbind (get_uint 4 bs 0) (\<lambda>strCount.
     rbind (read_strings dec bs strCount 4) (\<lambda>(ss, p).
     rbind (get_uint 4 bs p) (\<lambda>treeLen.
     rbind (json_loop ss bs (p + 4 + treeLen) (p + 4) ([], JUndef)) (\<lambda>(q, st).
       if q \<noteq> p + 4 + treeLen \<or> fst st \<noteq> []
       then Inl (JsError ''json parse: malformed packed stream'')
       else Inr (snd st)))))"

section \<open>The specification\<close>

datatype jdoc =
    DNull
  | DBool bool
  | DNum bytes
  | DStr jsstring
  | DArr "jdoc list"
  | DObj "(jsstring \<times> jdoc) list"

text \<open>The value of a document under \<open>JSON.parse\<close>: own properties, the last duplicate wins.\<close>

fun json_value :: "jdoc \<Rightarrow> jsval" where
  "json_value DNull = JNull"
| "json_value (DBool b) = JBool b"
| "json_value (DNum n) = JNum n"
| "json_value (DStr s) = JStr s"
| "json_value (DArr ds) = JArr (map json_value ds)"
| "json_value (DObj kvs) = JObj None (fold (\<lambda>(k, d). AList.update k (json_value d)) kvs [])"

text \<open>The value the assignments of the decoder build.\<close>

fun assigned :: "jdoc \<Rightarrow> jsval" where
  "assigned DNull = JNull"
| "assigned (DBool b) = JBool b"
| "assigned (DNum n) = JNum n"
| "assigned (DStr s) = JStr s"
| "assigned (DArr ds) = JArr (map assigned ds)"
| "assigned (DObj kvs) =
     (let ob = fold (\<lambda>(k, d) ob. assign_prop ob k (assigned d)) kvs (None, []) in JObj (fst ob) (snd ob))"

fun doc_strings :: "jdoc \<Rightarrow> jsstring set" where
  "doc_strings (DStr s) = {s}"
| "doc_strings (DArr ds) = \<Union> (set (map doc_strings ds))"
| "doc_strings (DObj kvs) = \<Union> (set (map (\<lambda>(k, d). insert k (doc_strings d)) kvs))"
| "doc_strings _ = {}"

fun doc_numbers :: "jdoc \<Rightarrow> bytes set" where
  "doc_numbers (DNum n) = {n}"
| "doc_numbers (DArr ds) = \<Union> (set (map doc_numbers ds))"
| "doc_numbers (DObj kvs) = \<Union> (set (map (\<lambda>(k, d). doc_numbers d) kvs))"
| "doc_numbers _ = {}"

fun proto_free :: "jdoc \<Rightarrow> bool" where
  "proto_free (DArr ds) = list_all proto_free ds"
| "proto_free (DObj kvs) = list_all (\<lambda>(k, d). k \<noteq> proto_key \<and> proto_free d) kvs"
| "proto_free _ = True"

text \<open>The documented layout, for a table \<open>ss\<close> and an encoder of its entries.\<close>

definition string_index :: "jsstring list \<Rightarrow> jsstring \<Rightarrow> nat" where
  "string_index ss s = length (takeWhile (\<lambda>t. t \<noteq> s) ss)"

fun json_tree :: "jsstring list \<Rightarrow> jdoc \<Rightarrow> bytes" where
  "json_tree ss DNull = [0]"
| "json_tree ss (DBool b) = [if b then 2 else 1]"
| "json_tree ss (DNum n) = 3 # n"
| "json_tree ss (DStr s) = 4 # u32_le (string_index ss s)"
| "json_tree ss (DArr ds) = 5 # concat (map (json_tree ss) ds) @ [7]"
| "json_tree ss (DObj kvs) =
     6 # concat (map (\<lambda>(k, d). 9 # u32_le (string_index ss k) @ json_tree ss d) kvs) @ [8]"

definition pack_json :: "(jsstring \<Rightarrow> bytes) \<Rightarrow> jsstring list \<Rightarrow> jdoc \<Rightarrow> bytes" where
  "pack_json enc ss d =
     u32_le (length ss) @ concat (map (\<lambda>s. u32_le (length (enc s)) @ enc s) ss) @
     u32_le (length (json_tree ss d)) @ json_tree ss d"


section \<open>Running the stream of one document\<close>

lemma string_index_hit:
  "s \<in> set ss \<Longrightarrow> string_index ss s < length ss \<and> ss ! string_index ss s = s"
proof -
  assume s: "s \<in> set ss"
  then have lt: "length (takeWhile (\<lambda>t. t \<noteq> s) ss) < length ss"
    by (induction ss) auto
  from nth_length_takeWhile [OF lt] lt show ?thesis
    by (simp add: string_index_def)
qed

lemma tag_at: "p = length pre \<Longrightarrow> get_uint (Suc 0) (pre @ t # post) p = Inr (unat t)"
  using get_uint_append [of p pre "[t]" 1 post] by simp

lemma field_at:
  "p = length pre + 1 \<Longrightarrow> length f = k \<Longrightarrow> get_uint k (pre @ t # f @ post) p = Inr (le_nat f)"
  using get_uint_append [of p "pre @ [t]" f k post] by simp

lemma json_loop_step:
  "p < e \<Longrightarrow> json_token ss bs p st = Inr (q, st') \<Longrightarrow> json_loop ss bs e p st = json_loop ss bs e q st'"
  by (subst json_loop.simps) simp

text \<open>The stream covers the document: its strings are in the table, its numbers have eight bytes.\<close>

definition covers :: "jsstring list \<Rightarrow> jdoc \<Rightarrow> bool" where
  "covers ss d \<longleftrightarrow> doc_strings d \<subseteq> set ss \<and> (\<forall>n \<in> doc_numbers d. length n = 8) \<and> length ss < 2 ^ 32"

lemma covers_simps:
  "covers ss (DStr s) \<longleftrightarrow> s \<in> set ss \<and> length ss < 2 ^ 32"
  "covers ss (DNum n) \<longleftrightarrow> length n = 8 \<and> length ss < 2 ^ 32"
  "covers ss (DArr ds) \<longleftrightarrow> (\<forall>d \<in> set ds. covers ss d) \<and> length ss < 2 ^ 32"
  "covers ss (DObj kvs) \<longleftrightarrow> (\<forall>(k, d) \<in> set kvs. k \<in> set ss \<and> covers ss d) \<and> length ss < 2 ^ 32"
  by (auto simp: covers_def)

lemma index_field:
  assumes "s \<in> set ss" and "length ss < 2 ^ 32" and "p = length pre + 1"
  shows "get_uint 4 (pre @ t # u32_le (string_index ss s) @ post) p = Inr (string_index ss s)"
  using string_index_hit [OF assms(1)] assms(2,3)
  by (simp add: field_at le_nat_le_bytes_id)

lemma array_end:
  assumes "p = length pre" and "p < e"
  shows "json_loop ss (pre @ 7 # post) e p (f # fs, r) =
    json_loop ss (pre @ 7 # post) e (p + 1) (attach_value (JArr (fr_arr f)) (fs, r))"
  by (rule json_loop_step [OF assms(2)])
    (simp add: json_token_def tag_at [OF assms(1)] popFrame_def)

lemma object_end:
  assumes "p = length pre" and "p < e"
  shows "json_loop ss (pre @ 8 # post) e p (f # fs, r) =
    json_loop ss (pre @ 8 # post) e (p + 1)
      (attach_value (JObj (fst (fr_obj f)) (snd (fr_obj f))) (fs, r))"
  by (rule json_loop_step [OF assms(2)])
    (simp add: json_token_def tag_at [OF assms(1)] popFrame_def)

lemma container_start:
  assumes "p = length pre" and "p < e"
  shows "json_loop ss (pre @ 5 # post) e p (fs, r) =
      json_loop ss (pre @ 5 # post) e (p + 1) (new_frame False # fs, r)"
    and "json_loop ss (pre @ 6 # post) e p (fs, r) =
      json_loop ss (pre @ 6 # post) e (p + 1) (new_frame True # fs, r)"
  by (rule json_loop_step [OF assms(2)], simp add: json_token_def tag_at [OF assms(1)])+

lemma key_token:
  assumes "p = length pre" and "p < e" and "k \<in> set ss" and "length ss < 2 ^ 32"
  shows "json_loop ss (pre @ 9 # u32_le (string_index ss k) @ post) e p (f # fs, r) =
    json_loop ss (pre @ 9 # u32_le (string_index ss k) @ post) e (p + 5) (f\<lparr>fr_key := k\<rparr> # fs, r)"
  using string_index_hit [OF assms(3)] assms
  by (intro json_loop_step)
    (simp_all add: json_token_def tag_at index_field set_key_def string_key_def)

text \<open>
  The stream of one document, inside any stream and over any stack, has the effect of attaching
  the document's value.
\<close>

abbreviation runs_as :: "jsstring list \<Rightarrow> jdoc \<Rightarrow> bool" where
  "runs_as ss d \<equiv> \<forall>pre post e st. length pre + length (json_tree ss d) \<le> e \<longrightarrow>
     json_loop ss (pre @ json_tree ss d @ post) e (length pre) st =
     json_loop ss (pre @ json_tree ss d @ post) e (length pre + length (json_tree ss d))
       (attach_value (assigned d) st)"

lemma runs_asD:
  "runs_as ss d \<Longrightarrow> p = length pre \<Longrightarrow> p + length (json_tree ss d) \<le> e \<Longrightarrow>
   json_loop ss (pre @ json_tree ss d @ post) e p st =
   json_loop ss (pre @ json_tree ss d @ post) e (p + length (json_tree ss d)) (attach_value (assigned d) st)"
  by blast

lemma run_elements:
  assumes "\<forall>d \<in> set ds. runs_as ss d" and "p = length pre"
    and "p + length (concat (map (json_tree ss) ds)) \<le> e" and "\<not> isObj f"
  shows "json_loop ss (pre @ concat (map (json_tree ss) ds) @ post) e p (f # fs, r) =
    json_loop ss (pre @ concat (map (json_tree ss) ds) @ post) e
      (p + length (concat (map (json_tree ss) ds))) (f\<lparr>fr_arr := fr_arr f @ map assigned ds\<rparr> # fs, r)"
  using assms
proof (induction ds arbitrary: pre p f)
  case (Cons d ds)
  let ?t = "json_tree ss d" and ?ts = "concat (map (json_tree ss) ds)"
  let ?f = "f\<lparr>fr_arr := fr_arr f @ [assigned d]\<rparr>"
  have first: "json_loop ss (pre @ ?t @ ?ts @ post) e p (f # fs, r) =
      json_loop ss (pre @ ?t @ ?ts @ post) e (p + length ?t) (attach_value (assigned d) (f # fs, r))"
    using Cons.prems by (intro runs_asD) auto
  have att: "attach_value (assigned d) (f # fs, r) = (?f # fs, r)"
    using Cons.prems(4) by (simp add: attach_value_def)
  have "json_loop ss ((pre @ ?t) @ ?ts @ post) e (p + length ?t) (?f # fs, r) =
      json_loop ss ((pre @ ?t) @ ?ts @ post) e (p + length ?t + length ?ts)
        (?f\<lparr>fr_arr := fr_arr ?f @ map assigned ds\<rparr> # fs, r)"
    using Cons.prems by (intro Cons.IH) auto
  with first att show ?case by (simp add: add.assoc)
qed simp

abbreviation json_entry :: "jsstring list \<Rightarrow> jsstring \<times> jdoc \<Rightarrow> bytes" where
  "json_entry ss \<equiv> \<lambda>(k, d). 9 # u32_le (string_index ss k) @ json_tree ss d"

abbreviation assign_entry :: "jsstring \<times> jdoc \<Rightarrow> json_obj \<Rightarrow> json_obj" where
  "assign_entry \<equiv> \<lambda>(k, d) ob. assign_prop ob k (assigned d)"

lemma run_entries:
  assumes "\<forall>(k, d) \<in> set kvs. k \<in> set ss \<and> runs_as ss d" and "length ss < 2 ^ 32" and "p = length pre"
    and "p + length (concat (map (json_entry ss) kvs)) \<le> e" and "isObj f"
  shows "\<exists>k'. json_loop ss (pre @ concat (map (json_entry ss) kvs) @ post) e p (f # fs, r) =
    json_loop ss (pre @ concat (map (json_entry ss) kvs) @ post) e
      (p + length (concat (map (json_entry ss) kvs)))
      (f\<lparr>fr_key := k', fr_obj := fold assign_entry kvs (fr_obj f)\<rparr> # fs, r)"
  using assms
proof (induction kvs arbitrary: pre p f)
  case Nil
  then show ?case by (intro exI [of _ "fr_key f"]) simp
next
  case (Cons kd kvs)
  obtain k d where kd: "kd = (k, d)" by (cases kd)
  let ?ix = "u32_le (string_index ss k)" and ?t = "json_tree ss d"
    and ?ts = "concat (map (json_entry ss) kvs)"
  let ?f = "f\<lparr>fr_key := k, fr_obj := assign_prop (fr_obj f) k (assigned d)\<rparr>"
  have "json_loop ss (pre @ 9 # ?ix @ ?t @ ?ts @ post) e p (f # fs, r) =
      json_loop ss ((pre @ 9 # ?ix) @ ?t @ ?ts @ post) e (p + 5) (f\<lparr>fr_key := k\<rparr> # fs, r)"
    using Cons.prems by (subst key_token) (auto simp: kd)
  also have "\<dots> = json_loop ss ((pre @ 9 # ?ix) @ ?t @ ?ts @ post) e (p + 5 + length ?t)
      (attach_value (assigned d) (f\<lparr>fr_key := k\<rparr> # fs, r))"
    using Cons.prems by (intro runs_asD) (auto simp: kd)
  also have "attach_value (assigned d) (f\<lparr>fr_key := k\<rparr> # fs, r) = (?f # fs, r)"
    using Cons.prems(5) by (simp add: attach_value_def)
  finally have first: "json_loop ss (pre @ 9 # ?ix @ ?t @ ?ts @ post) e p (f # fs, r) =
      json_loop ss ((pre @ 9 # ?ix @ ?t) @ ?ts @ post) e (p + 5 + length ?t) (?f # fs, r)"
    by simp
  have "\<exists>k'. json_loop ss ((pre @ 9 # ?ix @ ?t) @ ?ts @ post) e (p + 5 + length ?t) (?f # fs, r) =
      json_loop ss ((pre @ 9 # ?ix @ ?t) @ ?ts @ post) e (p + 5 + length ?t + length ?ts)
        (?f\<lparr>fr_key := k', fr_obj := fold assign_entry kvs (fr_obj ?f)\<rparr> # fs, r)"
    using Cons.prems by (intro Cons.IH) (auto simp: kd)
  then obtain k' where
    "json_loop ss ((pre @ 9 # ?ix @ ?t) @ ?ts @ post) e (p + 5 + length ?t) (?f # fs, r) =
      json_loop ss ((pre @ 9 # ?ix @ ?t) @ ?ts @ post) e (p + 5 + length ?t + length ?ts)
        (?f\<lparr>fr_key := k', fr_obj := fold assign_entry kvs (fr_obj ?f)\<rparr> # fs, r)" by blast
  with first show ?case
    by (intro exI [of _ k']) (simp add: kd ac_simps)
qed

lemma scalar_runs:
  assumes tok: "\<And>pre post st. json_token ss (pre @ json_tree ss d @ post) (length pre) st =
      Inr (length pre + length (json_tree ss d), attach_value (assigned d) st)"
    and "json_tree ss d \<noteq> []"
  shows "runs_as ss d"
proof (intro allI impI)
  fix pre post :: bytes and e st
  assume "length pre + length (json_tree ss d) \<le> e"
  with assms(2) have "length pre < e" by (cases "json_tree ss d") auto
  then show "json_loop ss (pre @ json_tree ss d @ post) e (length pre) st =
     json_loop ss (pre @ json_tree ss d @ post) e (length pre + length (json_tree ss d))
       (attach_value (assigned d) st)"
    by (rule json_loop_step) (rule tok)
qed

lemma document_runs: "covers ss d \<Longrightarrow> runs_as ss d"
proof (induction d rule: assigned.induct)
  case 1
  show ?case by (rule scalar_runs) (simp_all add: json_token_def tag_at)
next
  case (2 b)
  show ?case by (rule scalar_runs) (simp_all add: json_token_def tag_at)
next
  case (3 n)
  then have "length n = 8" by (simp add: covers_simps)
  then show ?case
    by (intro scalar_runs) (simp_all add: json_token_def tag_at field_at le_bytes_le_nat)
next
  case (4 s)
  then have s: "s \<in> set ss" "length ss < 2 ^ 32" by (simp_all add: covers_simps)
  show ?case
    using string_index_hit [OF s(1)]
    by (intro scalar_runs) (simp_all add: json_token_def tag_at index_field [OF s] string_value_def)
next
  case (5 ds)
  let ?ts = "concat (map (json_tree ss) ds)"
  have el: "\<forall>d \<in> set ds. runs_as ss d"
    using 5 by (simp add: covers_simps)
  show ?case
  proof (intro allI impI)
    fix pre post :: bytes and e and st :: json_state
    assume e: "length pre + length (json_tree ss (DArr ds)) \<le> e"
    obtain fs r where st: "st = (fs, r)" by (cases st)
    let ?bs = "(pre @ [5]) @ ?ts @ 7 # post" and ?p = "length pre"
    have "json_loop ss ?bs e ?p (fs, r) = json_loop ss ?bs e (?p + 1) (new_frame False # fs, r)"
      using container_start(1) [of ?p pre e ss "?ts @ 7 # post"] e by simp
    also have "\<dots> = json_loop ss ?bs e (?p + 1 + length ?ts)
        ((new_frame False)\<lparr>fr_arr := fr_arr (new_frame False) @ map assigned ds\<rparr> # fs, r)"
      using e by (intro run_elements [OF el]) (simp_all add: new_frame_def)
    also have "\<dots> = json_loop ss ?bs e (?p + 1 + length ?ts + 1)
        (attach_value (JArr (map assigned ds)) (fs, r))"
      using array_end [of "?p + 1 + length ?ts" "(pre @ [5]) @ ?ts" e ss post] e
      by (simp add: new_frame_def)
    finally show "json_loop ss (pre @ json_tree ss (DArr ds) @ post) e (length pre) st =
       json_loop ss (pre @ json_tree ss (DArr ds) @ post) e
         (length pre + length (json_tree ss (DArr ds))) (attach_value (assigned (DArr ds)) st)"
      by (simp add: st ac_simps)
  qed
next
  case (6 kvs)
  let ?ts = "concat (map (json_entry ss) kvs)"
  let ?ob = "fold assign_entry kvs (None, [])"
  have el: "\<forall>(k, d) \<in> set kvs. k \<in> set ss \<and> runs_as ss d"
    using 6 by (fastforce simp: covers_simps)
  have ss: "length ss < 2 ^ 32" using "6.prems" by (simp add: covers_simps)
  show ?case
  proof (intro allI impI)
    fix pre post :: bytes and e and st :: json_state
    assume e: "length pre + length (json_tree ss (DObj kvs)) \<le> e"
    obtain fs r where st: "st = (fs, r)" by (cases st)
    let ?bs = "(pre @ [6]) @ ?ts @ 8 # post" and ?p = "length pre"
    have "json_loop ss ?bs e ?p (fs, r) = json_loop ss ?bs e (?p + 1) (new_frame True # fs, r)"
      using container_start(2) [of ?p pre e ss "?ts @ 8 # post"] e by simp
    also have "\<exists>k'. \<dots> = json_loop ss ?bs e (?p + 1 + length ?ts)
        ((new_frame True)\<lparr>fr_key := k', fr_obj := fold assign_entry kvs (fr_obj (new_frame True))\<rparr> # fs, r)"
      using e by (intro run_entries [OF el ss]) (simp_all add: new_frame_def)
    then obtain k' where "json_loop ss ?bs e (?p + 1) (new_frame True # fs, r) =
        json_loop ss ?bs e (?p + 1 + length ?ts)
          ((new_frame True)\<lparr>fr_key := k', fr_obj := ?ob\<rparr> # fs, r)"
      by (auto simp: new_frame_def)
    also have "\<dots> = json_loop ss ?bs e (?p + 1 + length ?ts + 1)
        (attach_value (JObj (fst ?ob) (snd ?ob)) (fs, r))"
      using object_end [of "?p + 1 + length ?ts" "(pre @ [6]) @ ?ts" e ss post] e by simp
    finally show "json_loop ss (pre @ json_tree ss (DObj kvs) @ post) e (length pre) st =
       json_loop ss (pre @ json_tree ss (DObj kvs) @ post) e
         (length pre + length (json_tree ss (DObj kvs))) (attach_value (assigned (DObj kvs)) st)"
      by (simp add: st ac_simps Let_def)
  qed
qed


section \<open>The whole stream\<close>

lemma read_strings_pack:
  assumes "\<forall>s \<in> set ss. fastDecodeUtf8 dec (enc s) = s \<and> length (enc s) < 2 ^ 32" and "p = length pre"
  shows "read_strings dec (pre @ concat (map (\<lambda>s. u32_le (length (enc s)) @ enc s) ss) @ post) (length ss) p =
    Inr (ss, p + length (concat (map (\<lambda>s. u32_le (length (enc s)) @ enc s) ss)))"
  using assms
proof (induction ss arbitrary: pre p)
  case (Cons s ss)
  let ?n = "length (enc s)" and ?ts = "concat (map (\<lambda>s. u32_le (length (enc s)) @ enc s) ss)"
  have len: "get_uint 4 (pre @ u32_le ?n @ enc s @ ?ts @ post) p = Inr ?n"
    using Cons.prems by (intro get_uint_le) simp_all
  have sl: "subarray (pre @ u32_le ?n @ enc s @ ?ts @ post) (p + 4) (p + 4 + ?n) = enc s"
    using subarray_append [of "p + 4" "pre @ u32_le ?n" "p + 4 + ?n" "enc s" "?ts @ post"] Cons.prems
    by simp
  have "read_strings dec ((pre @ u32_le ?n @ enc s) @ ?ts @ post) (length ss) (p + 4 + ?n) =
      Inr (ss, p + 4 + ?n + length ?ts)"
    using Cons.prems by (intro Cons.IH) simp_all
  with len sl Cons.prems show ?case by simp
qed simp

lemma decode_assigned:
  assumes "covers ss d" and "\<forall>s \<in> set ss. fastDecodeUtf8 dec (enc s) = s \<and> length (enc s) < 2 ^ 32"
    and "length (json_tree ss d) < 2 ^ 32"
  shows "decodeJsonPacked dec (pack_json enc ss d) = Inr (assigned d)"
proof -
  let ?tab = "concat (map (\<lambda>s. u32_le (length (enc s)) @ enc s) ss)" and ?t = "json_tree ss d"
  let ?bs = "pack_json enc ss d"
  have ss: "length ss < 2 ^ 32" using assms(1) by (simp add: covers_def)
  have count: "get_uint 4 ?bs 0 = Inr (length ss)"
    using get_uint_le [of 0 "[]" "length ss" 4] ss by (simp add: pack_json_def)
  have strs: "read_strings dec ?bs (length ss) 4 = Inr (ss, 4 + length ?tab)"
    using read_strings_pack [OF assms(2), of 4 "u32_le (length ss)"] by (simp add: pack_json_def)
  have tlen: "get_uint 4 ?bs (4 + length ?tab) = Inr (length ?t)"
    using get_uint_le [of "4 + length ?tab" "u32_le (length ss) @ ?tab" "length ?t" 4] assms(3)
    by (simp add: pack_json_def)
  let ?pre = "u32_le (length ss) @ ?tab @ u32_le (length ?t)"
  have "json_loop ss (?pre @ ?t @ []) (length ?pre + length ?t) (length ?pre) ([], JUndef) =
      json_loop ss (?pre @ ?t @ []) (length ?pre + length ?t) (length ?pre + length ?t)
        (attach_value (assigned d) ([], JUndef))"
    by (rule runs_asD [OF document_runs [OF assms(1)]]) simp_all
  also have "\<dots> = Inr (length ?pre + length ?t, ([], assigned d))"
    by (subst json_loop.simps) (simp add: attach_value_def)
  finally have "json_loop ss ?bs (4 + length ?tab + 4 + length ?t) (4 + length ?tab + 4) ([], JUndef) =
      Inr (4 + length ?tab + 4 + length ?t, ([], assigned d))"
    by (simp add: pack_json_def ac_simps)
  then show ?thesis
    by (simp add: decodeJsonPacked_def count strs tlen)
qed

lemma assign_ordinary: "k \<noteq> proto_key \<Longrightarrow> assign_prop ob k v = (fst ob, AList.update k v (snd ob))"
  by (simp add: assign_prop_def split_beta)

lemma fold_assign_ordinary:
  "\<forall>(k, d) \<in> set kvs. k \<noteq> proto_key \<and> assigned d = json_value d \<Longrightarrow>
   fold assign_entry kvs ob = (fst ob, fold (\<lambda>(k, d). AList.update k (json_value d)) kvs (snd ob))"
  by (induction kvs arbitrary: ob) (auto simp: assign_ordinary)

lemma assigned_json_value: "proto_free d \<Longrightarrow> assigned d = json_value d"
proof (induction d rule: assigned.induct)
  case (6 kvs)
  then have "\<forall>(k, d) \<in> set kvs. k \<noteq> proto_key \<and> assigned d = json_value d"
    by (fastforce simp: list_all_iff)
  then show ?case by (simp add: fold_assign_ordinary)
qed (auto simp: list_all_iff)

lemma utf8_table:
  assumes "\<forall>s. well_formed s \<longrightarrow> dec (utf8_encode s) = s" and "well_formed s"
  shows "fastDecodeUtf8 dec (utf8_encode s) = s"
  using assms utf8_decode_encode [OF assms(2)]
  by (cases "utf8_encode s = []") (auto simp: fastDecodeUtf8_def)

text \<open>
  C16. decoding the packed stream of a parsed document gives the value \<open>JSON.parse\<close> gives it:
  for every document of any depth without a \<open>__proto__\<close> key, every string table that covers its
  strings and every decoder of UTF-8, the decoder accepts the stream and returns the document's
  value, the last duplicate of a key winning.
\<close>

theorem json_packed_exact:
  assumes "proto_free d" and "covers ss d"
    and "\<forall>s \<in> set ss. well_formed s \<and> length (utf8_encode s) < 2 ^ 32"
    and "length (json_tree ss d) < 2 ^ 32"
    and "\<forall>s. well_formed s \<longrightarrow> dec (utf8_encode s) = s"
  shows "decodeJsonPacked dec (pack_json utf8_encode ss d) = Inr (json_value d)"
proof -
  have "\<forall>s \<in> set ss. fastDecodeUtf8 dec (utf8_encode s) = s \<and> length (utf8_encode s) < 2 ^ 32"
    using assms(3) utf8_table [OF assms(5)] by blast
  then show ?thesis
    using decode_assigned [OF assms(2) _ assms(4)] assigned_json_value [OF assms(1)] by simp
qed

definition sample_doc :: jdoc where
  "sample_doc = DObj [(js ''a'', DArr [DNull, DStr (js ''b'')]), (js ''b'', DBool True), (js ''a'', DBool False)]"

lemma well_formed_below: "\<forall>c \<in> set s. unat c < 0xD800 \<Longrightarrow> well_formed s"
  by (induction s rule: well_formed.induct) (auto simp: is_high_def is_low_def)

lemma well_formed_js: "well_formed (js s)"
proof (rule well_formed_below, rule ballI)
  fix c assume "c \<in> set (js s)"
  then obtain d where "c = of_nat (of_char d)" by (auto simp: js_def)
  then have "unat c = of_char d mod 65536" by (simp add: unat_of_nat)
  then show "unat c < 0xD800"
    using nat_of_char_less_256 [of d] mod_less_eq_dividend [of "of_char d :: nat" 65536] by linarith
qed

lemma short_entry: "length s \<le> 1000 \<Longrightarrow> length (utf8_encode (js s)) < 2 ^ 32"
  using utf8_encode_length_le [of "js s"] by (simp add: js_def)

theorem json_packed_exact_witness:
  "decodeJsonPacked utf8_decode (pack_json utf8_encode [js ''a'', js ''b''] sample_doc) =
     Inr (JObj None [(js ''a'', JBool False), (js ''b'', JBool True)])"
proof -
  have "decodeJsonPacked utf8_decode (pack_json utf8_encode [js ''a'', js ''b''] sample_doc) =
      Inr (json_value sample_doc)"
  proof (rule json_packed_exact)
    show "proto_free sample_doc"
      by (simp add: sample_doc_def proto_key_def js_inject)
    show "covers [js ''a'', js ''b''] sample_doc"
      by (simp add: sample_doc_def covers_simps covers_def)
    show "\<forall>s \<in> set [js ''a'', js ''b'']. well_formed s \<and> length (utf8_encode s) < 2 ^ 32"
      by (simp add: well_formed_js short_entry proto_key_def del: power_numeral)
    show "length (json_tree [js ''a'', js ''b''] sample_doc) < 2 ^ 32"
      by (simp add: sample_doc_def)
  qed (simp add: utf8_decode_encode)
  then show ?thesis by (simp add: sample_doc_def js_inject)
qed

text \<open>
  C29. a key \<open>__proto__\<close> is not data: where \<open>JSON.parse\<close> gives the object an own property of that
  name, the decoder makes the parsed object the prototype of its parent, which then has no own
  property at all and inherits every name of it.
\<close>

theorem json_proto_key_sets_prototype:
  assumes "d = DObj [(proto_key, DObj kvs)]" and "proto_free (DObj kvs)" and "covers ss d"
    and "\<forall>s \<in> set ss. well_formed s \<and> length (utf8_encode s) < 2 ^ 32"
    and "length (json_tree ss d) < 2 ^ 32"
    and "\<forall>s. well_formed s \<longrightarrow> dec (utf8_encode s) = s"
  shows "decodeJsonPacked dec (pack_json utf8_encode ss d) = Inr (JObj (Some (json_value (DObj kvs))) [])
    \<and> json_value d = JObj None [(proto_key, json_value (DObj kvs))]"
proof -
  have "\<forall>s \<in> set ss. fastDecodeUtf8 dec (utf8_encode s) = s \<and> length (utf8_encode s) < 2 ^ 32"
    using assms(4) utf8_table [OF assms(6)] by blast
  then have "decodeJsonPacked dec (pack_json utf8_encode ss d) = Inr (assigned d)"
    using decode_assigned [OF assms(3) _ assms(5)] by simp
  moreover have "assigned (DObj kvs) = json_value (DObj kvs)"
    by (rule assigned_json_value [OF assms(2)])
  ultimately show ?thesis
    by (simp add: assms(1) assign_prop_def Let_def del: assigned.simps(6) json_value.simps(6)
          add: assigned.simps(6) [of "[(proto_key, DObj kvs)]"] json_value.simps(6) [of "[(proto_key, DObj kvs)]"])
      (simp add: json_value.simps(6) [of kvs])
qed

theorem json_proto_key_sets_prototype_witness:
  "decodeJsonPacked utf8_decode
     (pack_json utf8_encode [proto_key, js ''a''] (DObj [(proto_key, DObj [(js ''a'', DBool True)])])) =
     Inr (JObj (Some (JObj None [(js ''a'', JBool True)])) [])"
proof -
  let ?d = "DObj [(proto_key, DObj [(js ''a'', DBool True)])]"
  have free: "proto_free (DObj [(js ''a'', DBool True)])"
    by (simp add: proto_key_def js_inject)
  have cov: "covers [proto_key, js ''a''] ?d"
    by (simp add: covers_simps covers_def)
  have tab: "\<forall>s \<in> set [proto_key, js ''a'']. well_formed s \<and> length (utf8_encode s) < 2 ^ 32"
    by (simp add: well_formed_js short_entry proto_key_def del: power_numeral)
  have "length (json_tree [proto_key, js ''a''] ?d) < 2 ^ 32"
    by simp
  from json_proto_key_sets_prototype [OF refl free cov tab this, of utf8_decode]
  show ?thesis by (simp add: utf8_decode_encode)
qed

end
