(* ===== verification/HttpVerdicts.thy ===== *)
theory HttpVerdicts
  imports JsonPacked
begin

text \<open>
  The readers of the packed header verdicts (\<open>src/src/rust-ffi/scalar/http.ts\<close>): a parsed media type
  with its parameters, and the preferences of an \<open>Accept-Encoding\<close> header.  A missing byte reads as
  zero.  The parameters go into a plain object by assignment, so a parameter named \<open>__proto__\<close>,
  whose value is a string, meets the inherited setter and is dropped.

  The layouts \<open>pack_media\<close> and \<open>pack_accept\<close> are the documented ones, written out from the strings
  they carry.
\<close>

section \<open>Readers\<close>

definition u32LE :: "bytes \<Rightarrow> nat \<Rightarrow> nat" where
  "u32LE b off = le_nat (map (\<lambda>j. if off + j < length b then b ! (off + j) else 0) [0..<4])"

definition CHARSET_KEY_BYTES :: bytes where
  "CHARSET_KEY_BYTES = [0x63, 0x68, 0x61, 0x72, 0x73, 0x65, 0x74]"

definition BOUNDARY_KEY_BYTES :: bytes where
  "BOUNDARY_KEY_BYTES = [0x62, 0x6f, 0x75, 0x6e, 0x64, 0x61, 0x72, 0x79]"

definition keyBytesEqual :: "bytes \<Rightarrow> nat \<Rightarrow> bytes \<Rightarrow> bool" where
  "keyBytesEqual b off lit \<longleftrightarrow>
     list_all (\<lambda>i. (if off + i < length b then b ! (off + i) else 0) = lit ! i) [0..<length lit]"

record MediaTypeResult =
  mediaType :: jsstring
  charset :: "jsstring option"
  boundary :: "jsstring option"
  params :: "(jsstring \<times> jsstring) list"

definition assign_param :: "jsstring \<Rightarrow> jsstring \<Rightarrow> (jsstring \<times> jsstring) list \<Rightarrow> (jsstring \<times> jsstring) list" where
  "assign_param k v ps = (if k = proto_key then ps else AList.update k v ps)"

definition param_key :: "bytes \<Rightarrow> nat \<Rightarrow> nat \<Rightarrow> jsstring" where
  "param_key b off kLen =
     (if kLen = 7 \<and> keyBytesEqual b off CHARSET_KEY_BYTES then js ''charset''
      else if kLen = 8 \<and> keyBytesEqual b off BOUNDARY_KEY_BYTES then js ''boundary''
      else decodeUtf8RangeView b off (off + kLen))"

text \<open>The parameter loop; the flags say that the summary string has been used up.\<close>

fun unpack_params ::
  "bytes \<Rightarrow> jsstring option \<Rightarrow> jsstring option \<Rightarrow> nat \<Rightarrow> nat \<Rightarrow> bool \<Rightarrow> bool \<Rightarrow>
   (jsstring \<times> jsstring) list \<Rightarrow> (jsstring \<times> jsstring) list" where
  "unpack_params b cs bd 0 off ct bt ps = ps"
| "unpack_params b cs bd (Suc i) off ct bt ps =
     (let kLen = u32LE b off;
          key = param_key b (off + 4) kLen;
          vOff = off + 4 + kLen;
          vLen = u32LE b vOff;
          next = vOff + 4 + vLen in
      case (cs, bd) of
        (c, d) \<Rightarrow>
          if \<not> ct \<and> key = js ''charset'' \<and> c \<noteq> None
          then unpack_params b cs bd i next True bt (assign_param key (the c) ps)
          else if \<not> bt \<and> key = js ''boundary'' \<and> d \<noteq> None
          then unpack_params b cs bd i next ct True (assign_param key (the d) ps)
          else unpack_params b cs bd i next ct bt
                 (assign_param key (decodeUtf8RangeView b (vOff + 4) (vOff + 4 + vLen)) ps))"

text \<open>An optional string: its length, all ones for none, and its bytes; with the offset after it.\<close>

definition optional_text :: "bytes \<Rightarrow> nat \<Rightarrow> jsstring option \<times> nat" where
  "optional_text b off =
     (let n = u32LE b off in
      if n \<noteq> 0xffffffff then (Some (decodeUtf8RangeView b (off + 4) (off + 4 + n)), off + 4 + n)
      else (None, off + 4))"

definition unpackMediaType :: "bytes \<Rightarrow> MediaTypeResult" where
  "unpackMediaType b =
     (let mtLen = u32LE b 0;
          (cs, off1) = optional_text b (4 + mtLen);
          (bd, off2) = optional_text b off1;
          count = u32LE b off2 in
      \<lparr>mediaType = decodeUtf8RangeView b 4 (4 + mtLen), charset = cs, boundary = bd,
       params = unpack_params b cs bd count (off2 + 4) (cs = None) (bd = None) []\<rparr>)"

text \<open>A quality value is the bit image of a 32-bit float.\<close>

record EncodingPrefResult =
  encoding :: jsstring
  q_bits :: nat
  pref_order :: nat

fun unpack_prefs :: "bytes \<Rightarrow> nat \<Rightarrow> nat \<Rightarrow> EncodingPrefResult list" where
  "unpack_prefs b 0 off = []"
| "unpack_prefs b (Suc i) off =
     (let encLen = u32LE b off;
          o1 = off + 4 + encLen in
      \<lparr>encoding = node_decodeUtf8Range b (off + 4) (off + 4 + encLen), q_bits = u32LE b o1,
       pref_order = u32LE b (o1 + 4)\<rparr> # unpack_prefs b i (o1 + 8))"

definition unpackAcceptEncoding :: "bytes \<Rightarrow> EncodingPrefResult list" where
  "unpackAcceptEncoding b = unpack_prefs b (u32LE b 0) 4"

section \<open>The documented layouts\<close>

definition text_field :: "jsstring \<Rightarrow> bytes" where
  "text_field s = u32_le (length (utf8_encode s)) @ utf8_encode s"

definition opt_field :: "jsstring option \<Rightarrow> bytes" where
  "opt_field v = (case v of None \<Rightarrow> u32_le 0xffffffff | Some s \<Rightarrow> text_field s)"

definition param_field :: "jsstring \<times> jsstring \<Rightarrow> bytes" where
  "param_field p = text_field (fst p) @ text_field (snd p)"

definition pack_media :: "jsstring \<Rightarrow> (jsstring \<times> jsstring) list \<Rightarrow> bytes" where
  "pack_media mt ps =
     text_field mt @ opt_field (map_of ps (js ''charset'')) @ opt_field (map_of ps (js ''boundary'')) @
     u32_le (length ps) @ concat (map param_field ps)"

definition pref_field :: "EncodingPrefResult \<Rightarrow> bytes" where
  "pref_field e = text_field (encoding e) @ u32_le (q_bits e) @ u32_le (pref_order e)"

definition pack_accept :: "EncodingPrefResult list \<Rightarrow> bytes" where
  "pack_accept es = u32_le (length es) @ concat (map pref_field es)"

text \<open>A string that a packed field can carry.\<close>

definition packable :: "jsstring \<Rightarrow> bool" where
  "packable s \<longleftrightarrow> well_formed s \<and> length (utf8_encode s) < 0xffffffff"

section \<open>Reading a field back\<close>

lemma u32LE_inside: "off + 4 \<le> length b \<Longrightarrow> u32LE b off = le_nat (take 4 (drop off b))"
proof -
  assume len: "off + 4 \<le> length b"
  have "map (\<lambda>j. if off + j < length b then b ! (off + j) else 0) [0..<4] = take 4 (drop off b)"
    using len by (intro nth_equalityI) auto
  then show ?thesis by (simp add: u32LE_def)
qed

lemma u32LE_field [buf]: "n < 2 ^ 32 \<Longrightarrow> off = length p \<Longrightarrow> u32LE (p @ u32_le n @ q) off = n"
  by (simp add: u32LE_inside le_nat_le_bytes)

lemma text_read:
  assumes "packable s" and "off = length p"
  shows "u32LE (p @ text_field s @ q) off = length (utf8_encode s)"
    and "decodeUtf8RangeView (p @ text_field s @ q) (off + 4) (off + 4 + length (utf8_encode s)) = s"
    and "node_decodeUtf8Range (p @ text_field s @ q) (off + 4) (off + 4 + length (utf8_encode s)) = s"
proof -
  have n: "length (utf8_encode s) < 2 ^ 32" using assms(1) by (simp add: packable_def)
  show "u32LE (p @ text_field s @ q) off = length (utf8_encode s)"
    using u32LE_field [OF n assms(2), of "utf8_encode s @ q"] by (simp add: text_field_def)
  have "subarray (p @ text_field s @ q) (off + 4) (off + 4 + length (utf8_encode s)) = utf8_encode s"
    using subarray_append [of "off + 4" "p @ u32_le (length (utf8_encode s))"
        "off + 4 + length (utf8_encode s)" "utf8_encode s" q] assms(2)
    by (simp add: text_field_def)
  moreover have "utf8_decode (utf8_encode s) = s"
    using assms(1) by (simp add: packable_def utf8_decode_encode)
  ultimately show "decodeUtf8RangeView (p @ text_field s @ q) (off + 4) (off + 4 + length (utf8_encode s)) = s"
    and "node_decodeUtf8Range (p @ text_field s @ q) (off + 4) (off + 4 + length (utf8_encode s)) = s"
    by (simp_all add: view_range_decode node_range_decode)
qed

lemma length_text_field [simp]: "length (text_field s) = 4 + length (utf8_encode s)"
  by (simp add: text_field_def)

lemma optional_read:
  assumes "\<And>s. v = Some s \<Longrightarrow> packable s" and "off = length p"
  shows "optional_text (p @ opt_field v @ q) off = (v, off + length (opt_field v))"
proof (cases v)
  case None
  have "u32LE (p @ u32_le 0xffffffff @ q) off = 0xffffffff"
    by (rule u32LE_field [OF _ assms(2)]) simp
  with None show ?thesis by (simp add: opt_field_def optional_text_def)
next
  case (Some s)
  have s: "packable s" using assms(1) Some by simp
  then have "length (utf8_encode s) \<noteq> 0xffffffff" by (simp add: packable_def)
  with Some text_read [OF s assms(2), of q] show ?thesis
    by (simp add: opt_field_def optional_text_def Let_def)
qed

lemma literal_units:
  "js ''charset'' = [0x63, 0x68, 0x61, 0x72, 0x73, 0x65, 0x74]"
  "js ''boundary'' = [0x62, 0x6f, 0x75, 0x6e, 0x64, 0x61, 0x72, 0x79]"
  by (simp_all add: js_def)

lemma literal_ascii:
  "utf8_encode [0x63, 0x68, 0x61, 0x72, 0x73, 0x65, 0x74] = CHARSET_KEY_BYTES"
  "utf8_encode [0x62, 0x6f, 0x75, 0x6e, 0x64, 0x61, 0x72, 0x79] = BOUNDARY_KEY_BYTES"
  by (simp_all add: CHARSET_KEY_BYTES_def BOUNDARY_KEY_BYTES_def utf8_encode_ascii ascii_def)

lemma key_literals:
  "CHARSET_KEY_BYTES = utf8_encode (js ''charset'')" "BOUNDARY_KEY_BYTES = utf8_encode (js ''boundary'')"
  by (simp_all only: literal_units literal_ascii)

lemma key_lengths:
  "length (utf8_encode (js ''charset'')) = 7" "length (utf8_encode (js ''boundary'')) = 8"
  unfolding key_literals [symmetric] by (simp_all add: CHARSET_KEY_BYTES_def BOUNDARY_KEY_BYTES_def)

lemma keyBytesEqual_field:
  assumes "off = length p" and "length k = length lit"
  shows "keyBytesEqual (p @ k @ q) off lit \<longleftrightarrow> k = lit"
proof -
  have "(if off + i < length (p @ k @ q) then (p @ k @ q) ! (off + i) else 0) = k ! i"
    if "i < length lit" for i
    using that assms by (simp add: nth_append)
  then have "keyBytesEqual (p @ k @ q) off lit \<longleftrightarrow> (\<forall>i < length lit. k ! i = lit ! i)"
    unfolding keyBytesEqual_def list_all_iff by auto
  also have "\<dots> \<longleftrightarrow> k = lit"
    using assms(2) nth_equalityI [of k lit] by auto
  finally show ?thesis .
qed

lemma packable_inj: "packable s \<Longrightarrow> packable t \<Longrightarrow> utf8_encode s = utf8_encode t \<longleftrightarrow> s = t"
  by (metis packable_def utf8_decode_encode)

lemma js_length: "length (js s) = length s"
  by (simp add: js_def)

lemma packable_literal: "length s \<le> 1000 \<Longrightarrow> packable (js s)"
  using utf8_encode_length_le [of "js s"] by (simp add: packable_def well_formed_js js_length)

lemma param_key_read:
  assumes "packable k" and "off = length p"
  shows "param_key (p @ text_field k @ q) (off + 4) (length (utf8_encode k)) = k"
proof -
  have shape: "p @ text_field k @ q = (p @ u32_le (length (utf8_encode k))) @ utf8_encode k @ q"
    by (simp add: text_field_def)
  have lit: "keyBytesEqual (p @ text_field k @ q) (off + 4) (utf8_encode t) \<longleftrightarrow> k = t"
    if "length (utf8_encode k) = length (utf8_encode t)" "packable t" for t
    unfolding shape
    using keyBytesEqual_field [OF _ that(1), of "off + 4" "p @ u32_le (length (utf8_encode k))" q]
      packable_inj [OF assms(1) that(2)] assms(2) by simp
  show ?thesis
    using lit [of "js ''charset''"] lit [of "js ''boundary''"] text_read(2) [OF assms, of q]
    by (auto simp: param_key_def key_literals key_lengths packable_literal js_inject)
qed

section \<open>The parameter loop\<close>

lemma length_param_field [simp]:
  "length (param_field (k, v)) = 8 + length (utf8_encode k) + length (utf8_encode v)"
  by (simp add: param_field_def)

lemma map_of_first: "k \<notin> fst ` set pre \<Longrightarrow> map_of (pre @ (k, v) # ps) k = Some v"
  by (induction pre) auto

lemma param_step:
  assumes "packable k" and "packable v" and "off = length p"
    and "ct \<or> k \<noteq> js ''charset'' \<or> cs = None \<or> cs = Some v"
    and "bt \<or> k \<noteq> js ''boundary'' \<or> bd = None \<or> bd = Some v"
  shows "unpack_params (p @ param_field (k, v) @ q) cs bd (Suc n) off ct bt acc =
    unpack_params (p @ param_field (k, v) @ q) cs bd n (off + length (param_field (k, v)))
      (ct \<or> k = js ''charset'' \<and> cs \<noteq> None) (bt \<or> k = js ''boundary'' \<and> bd \<noteq> None) (assign_param k v acc)"
proof -
  let ?b = "p @ param_field (k, v) @ q"
  let ?o = "off + 4 + length (utf8_encode k)"
  have b1: "?b = p @ text_field k @ (text_field v @ q)" and b2: "?b = (p @ text_field k) @ text_field v @ q"
    by (simp_all add: param_field_def)
  have kl: "u32LE ?b off = length (utf8_encode k)"
    unfolding b1 by (rule text_read(1) [OF assms(1,3)])
  have key: "param_key ?b (off + 4) (length (utf8_encode k)) = k"
    unfolding b1 by (rule param_key_read [OF assms(1,3)])
  have o: "?o = length (p @ text_field k)" using assms(3) by simp
  have vl: "u32LE ?b ?o = length (utf8_encode v)"
    unfolding b2 by (rule text_read(1) [OF assms(2) o])
  have val: "decodeUtf8RangeView ?b (?o + 4) (?o + 4 + length (utf8_encode v)) = v"
    unfolding b2 by (rule text_read(2) [OF assms(2) o])
  have ne: "js ''charset'' \<noteq> js ''boundary''" by (simp add: js_inject)
  have nx: "?o + 4 + length (utf8_encode v) = off + length (param_field (k, v))" by simp
  show ?thesis
    unfolding unpack_params.simps Let_def kl key vl val
    unfolding nx
    using assms(4,5) ne
    by (cases "k = js ''charset''"; cases "k = js ''boundary''"; cases cs; cases bd; cases ct; cases bt; simp)
qed

lemma params_loop:
  assumes "\<forall>(k, v) \<in> set ps. packable k \<and> packable v" and "off = length p"
    and "cs = map_of (pre @ ps) (js ''charset'')" and "bd = map_of (pre @ ps) (js ''boundary'')"
    and "ct = (cs = None \<or> js ''charset'' \<in> fst ` set pre)"
    and "bt = (bd = None \<or> js ''boundary'' \<in> fst ` set pre)"
  shows "unpack_params (p @ concat (map param_field ps) @ q) cs bd (length ps) off ct bt acc =
    fold (\<lambda>(k, v). assign_param k v) ps acc"
  using assms
proof (induction ps arbitrary: p off pre ct bt acc)
  case (Cons kv ps)
  obtain k v where kv: "kv = (k, v)" by (cases kv)
  have pk: "packable k" "packable v" using Cons.prems(1) by (simp_all add: kv)
  have c: "ct \<or> k \<noteq> js ''charset'' \<or> cs = None \<or> cs = Some v"
    using Cons.prems(3,5) map_of_first [of k pre v ps] by (auto simp: kv simp del: map_of_append)
  have b: "bt \<or> k \<noteq> js ''boundary'' \<or> bd = None \<or> bd = Some v"
    using Cons.prems(4,6) map_of_first [of k pre v ps] by (auto simp: kv simp del: map_of_append)
  let ?b = "p @ param_field (k, v) @ concat (map param_field ps) @ q"
  have "unpack_params ?b cs bd (Suc (length ps)) off ct bt acc =
      unpack_params ?b cs bd (length ps) (off + length (param_field (k, v)))
        (ct \<or> k = js ''charset'' \<and> cs \<noteq> None) (bt \<or> k = js ''boundary'' \<and> bd \<noteq> None) (assign_param k v acc)"
    by (rule param_step [OF pk Cons.prems(2) c b])
  also have "?b = (p @ param_field (k, v)) @ concat (map param_field ps) @ q" by simp
  also have "unpack_params ((p @ param_field (k, v)) @ concat (map param_field ps) @ q) cs bd (length ps)
      (off + length (param_field (k, v))) (ct \<or> k = js ''charset'' \<and> cs \<noteq> None)
      (bt \<or> k = js ''boundary'' \<and> bd \<noteq> None) (assign_param k v acc) =
      fold (\<lambda>(k, v). assign_param k v) ps (assign_param k v acc)"
    using Cons.prems by (intro Cons.IH [where pre = "pre @ [(k, v)]"]) (auto simp: kv)
  finally show ?case by (simp add: kv)
qed simp

text \<open>
  the packed verdict of a media type is read back exactly: for every media type and every list of
  parameters, duplicates included, the reader returns the type, the first charset and the first
  boundary, and an object in which the last duplicate of each name wins, although it reuses the
  summary strings and skips the decoding of the two known names.  A parameter named \<open>__proto__\<close> is
  the exception: it never becomes a property.
\<close>

theorem media_type_unpacked:
  assumes "packable mt" and "\<forall>(k, v) \<in> set ps. packable k \<and> packable v" and "length ps < 2 ^ 32"
  shows "unpackMediaType (pack_media mt ps) =
    \<lparr>mediaType = mt, charset = map_of ps (js ''charset''), boundary = map_of ps (js ''boundary''),
     params = fold (\<lambda>(k, v). assign_param k v) ps []\<rparr>"
proof -
  let ?cs = "map_of ps (js ''charset'')" and ?bd = "map_of ps (js ''boundary'')"
  let ?b = "pack_media mt ps"
  let ?p1 = "text_field mt" and ?p2 = "text_field mt @ opt_field ?cs"
  let ?p3 = "text_field mt @ opt_field ?cs @ opt_field ?bd"
  have pk: "packable s" if "map_of ps k = Some s" for k s
    using map_of_SomeD [OF that] assms(2) by auto
  have b: "?b = [] @ text_field mt @ (opt_field ?cs @ opt_field ?bd @ u32_le (length ps) @ concat (map param_field ps))"
    "?b = ?p1 @ opt_field ?cs @ (opt_field ?bd @ u32_le (length ps) @ concat (map param_field ps))"
    "?b = ?p2 @ opt_field ?bd @ (u32_le (length ps) @ concat (map param_field ps))"
    "?b = ?p3 @ u32_le (length ps) @ concat (map param_field ps)"
    "?b = (?p3 @ u32_le (length ps)) @ concat (map param_field ps) @ []"
    by (simp_all add: pack_media_def)
  have mt: "u32LE ?b 0 = length (utf8_encode mt)" "decodeUtf8RangeView ?b 4 (4 + length (utf8_encode mt)) = mt"
    using text_read(1,2) [OF assms(1), of 0 "[]"] unfolding b(1) by simp_all
  have cs: "optional_text ?b (4 + length (utf8_encode mt)) = (?cs, length ?p2)"
    using optional_read [of ?cs "4 + length (utf8_encode mt)" ?p1] pk unfolding b(2) by simp
  have bd: "optional_text ?b (length ?p2) = (?bd, length ?p3)"
    using optional_read [of ?bd "length ?p2" ?p2] pk unfolding b(3) by simp
  have n: "u32LE ?b (length ?p3) = length ps"
    unfolding b(4) by (rule u32LE_field [OF assms(3) refl])
  have "unpack_params ?b ?cs ?bd (length ps) (length ?p3 + 4) (?cs = None) (?bd = None) [] =
      fold (\<lambda>(k, v). assign_param k v) ps []"
    unfolding b(5) by (rule params_loop [where pre = "[]", OF assms(2)]) simp_all
  with mt cs bd n show ?thesis by (simp add: unpackMediaType_def Let_def del: length_append)
qed

theorem media_type_unpacked_witness:
  "unpackMediaType (pack_media (js ''a/b'') [(js ''charset'', js ''x''), (js ''charset'', js ''y'')]) =
    \<lparr>mediaType = js ''a/b'', charset = Some (js ''x''), boundary = None, params = [(js ''charset'', js ''y'')]\<rparr>"
  using media_type_unpacked [of "js ''a/b''" "[(js ''charset'', js ''x''), (js ''charset'', js ''y'')]"]
  by (simp add: packable_literal js_inject assign_param_def proto_key_def)

text \<open>
  The preferences of an \<open>Accept-Encoding\<close> header are read back in order, with the bits of each
  quality value and its position.
\<close>

theorem accept_encoding_unpacked:
  assumes "\<forall>e \<in> set es. packable (encoding e) \<and> q_bits e < 2 ^ 32 \<and> pref_order e < 2 ^ 32"
    and "length es < 2 ^ 32"
  shows "unpackAcceptEncoding (pack_accept es) = es"
proof -
  have "unpack_prefs (p @ concat (map pref_field es) @ q) (length es) off = es"
    if "\<forall>e \<in> set es. packable (encoding e) \<and> q_bits e < 2 ^ 32 \<and> pref_order e < 2 ^ 32" "off = length p"
    for p q off es
    using that
  proof (induction es arbitrary: p off)
    case (Cons e es)
    let ?t = "text_field (encoding e)" and ?r = "concat (map pref_field es) @ q"
    let ?b = "p @ ?t @ u32_le (q_bits e) @ u32_le (pref_order e) @ ?r"
    let ?o = "off + 4 + length (utf8_encode (encoding e))"
    have e: "packable (encoding e)" "q_bits e < 2 ^ 32" "pref_order e < 2 ^ 32" using Cons.prems(1) by simp_all
    have o: "?o = length (p @ ?t)" using Cons.prems(2) by simp
    have len: "u32LE ?b off = length (utf8_encode (encoding e))"
      and tx: "node_decodeUtf8Range ?b (off + 4) (off + 4 + length (utf8_encode (encoding e))) = encoding e"
      by (rule text_read [OF e(1) Cons.prems(2)])+
    have q: "u32LE ?b ?o = q_bits e"
      using u32LE_field [OF e(2) o, of "u32_le (pref_order e) @ ?r"] by simp
    have r: "u32LE ?b (?o + 4) = pref_order e"
      using u32LE_field [OF e(3), of "?o + 4" "p @ ?t @ u32_le (q_bits e)" ?r] o by simp
    have rest: "unpack_prefs ?b (length es) (?o + 8) = es"
      using Cons.IH [where p = "p @ ?t @ u32_le (q_bits e) @ u32_le (pref_order e)" and off = "?o + 8"]
        Cons.prems by simp
    have shape: "p @ concat (map pref_field (e # es)) @ q = ?b" by (simp add: pref_field_def)
    show ?case
      unfolding shape length_Cons unpack_prefs.simps Let_def len tx q r rest by simp
  qed simp
  from this [OF assms(1), of 4 "u32_le (length es)" "[]"] u32LE_field [OF assms(2), of 0 "[]"]
  show ?thesis by (simp add: unpackAcceptEncoding_def pack_accept_def)
qed

theorem accept_encoding_unpacked_witness:
  "unpackAcceptEncoding (pack_accept [\<lparr>encoding = js ''gzip'', q_bits = 0x3f800000, pref_order = 0\<rparr>]) =
     [\<lparr>encoding = js ''gzip'', q_bits = 0x3f800000, pref_order = 0\<rparr>]"
  by (rule accept_encoding_unpacked) (simp_all add: packable_literal)

end
