(* ===== verification/RustClient.thy ===== *)
theory RustClient
  imports NativeInstances Wire BakedResponse
begin

text \<open>
  The client context (\<open>src/src/rust-ffi/context.ts\<close>, \<open>client.ts\<close>, \<open>options.ts\<close>): the process-wide
  caches of resolved symbols and MIME types, the cached HMAC signers, the lazily started thread
  pool, and the lookups over them in \<open>text.ts\<close>, \<open>scalar/http.ts\<close> and \<open>scalar/hashing.ts\<close>; the batch
  operations of \<open>batch/build.ts\<close> run over the same state.  The MIME lookup of
  \<open>src/rust/http/mime_lookup.rs\<close> is modelled with its table; the \<open>mime_guess\<close> crate behind it, the
  platform's \<open>toLowerCase\<close> and the text decoder are parameters.
\<close>

section \<open>The native MIME lookup\<close>

definition ascii_bytes :: "string \<Rightarrow> bytes" where
  "ascii_bytes s = map (\<lambda>c. of_nat (of_char c)) s"

definition OCTET_STREAM :: bytes where
  "OCTET_STREAM = ascii_bytes ''application/octet-stream''"

definition MIME_TABLE :: "(bytes \<times> bytes) list" where
  "MIME_TABLE =
    [(ascii_bytes ''json'', ascii_bytes ''application/json''), (ascii_bytes ''js'', ascii_bytes ''text/javascript''),
     (ascii_bytes ''mjs'', ascii_bytes ''text/javascript''), (ascii_bytes ''cjs'', ascii_bytes ''text/javascript''),
     (ascii_bytes ''html'', ascii_bytes ''text/html''), (ascii_bytes ''htm'', ascii_bytes ''text/html''),
     (ascii_bytes ''css'', ascii_bytes ''text/css''), (ascii_bytes ''csv'', ascii_bytes ''text/csv''),
     (ascii_bytes ''xml'', ascii_bytes ''application/xml''), (ascii_bytes ''txt'', ascii_bytes ''text/plain''),
     (ascii_bytes ''png'', ascii_bytes ''image/png''), (ascii_bytes ''jpg'', ascii_bytes ''image/jpeg''),
     (ascii_bytes ''jpeg'', ascii_bytes ''image/jpeg''), (ascii_bytes ''gif'', ascii_bytes ''image/gif''),
     (ascii_bytes ''webp'', ascii_bytes ''image/webp''), (ascii_bytes ''avif'', ascii_bytes ''image/avif''),
     (ascii_bytes ''svg'', ascii_bytes ''image/svg+xml''), (ascii_bytes ''ico'', ascii_bytes ''image/x-icon''),
     (ascii_bytes ''pdf'', ascii_bytes ''application/pdf''), (ascii_bytes ''zip'', ascii_bytes ''application/zip''),
     (ascii_bytes ''gz'', ascii_bytes ''application/gzip''), (ascii_bytes ''wasm'', ascii_bytes ''application/wasm''),
     (ascii_bytes ''map'', ascii_bytes ''application/json''), (ascii_bytes ''woff'', ascii_bytes ''font/woff''),
     (ascii_bytes ''woff2'', ascii_bytes ''font/woff2''), (ascii_bytes ''ttf'', ascii_bytes ''font/ttf''),
     (ascii_bytes ''otf'', ascii_bytes ''font/otf''), (ascii_bytes ''mp4'', ascii_bytes ''video/mp4''),
     (ascii_bytes ''webm'', ascii_bytes ''video/webm''), (ascii_bytes ''mp3'', ascii_bytes ''audio/mpeg''),
     (ascii_bytes ''ogg'', ascii_bytes ''audio/ogg'')]"

definition to_ascii_lowercase :: "byte \<Rightarrow> byte" where
  "to_ascii_lowercase b = (if 65 \<le> unat b \<and> unat b \<le> 90 then b + 32 else b)"

text \<open>\<open>std::str::from_utf8\<close> accepts exactly the byte strings that decoding and encoding reproduce.\<close>

definition rust_utf8 :: "bytes \<Rightarrow> bool" where
  "rust_utf8 bs \<longleftrightarrow> utf8_encode (utf8_decode bs) = bs"

definition mime_from_extension_bytes :: "(bytes \<Rightarrow> bytes) \<Rightarrow> bytes \<Rightarrow> bytes" where
  "mime_from_extension_bytes guess ext =
     (if \<not> rust_utf8 ext then OCTET_STREAM
      else
        (let trimmed = dropWhile (\<lambda>b. b = 46) ext;
             lower = map to_ascii_lowercase trimmed in
         if length trimmed \<le> 64 \<and> \<not> rust_utf8 lower then OCTET_STREAM
         else (case map_of MIME_TABLE lower of Some mime \<Rightarrow> mime | None \<Rightarrow> guess lower)))"

section \<open>State\<close>

record process_state =
  nativeFnCache :: "string list"
  mimeByText :: "(jsstring, bytes) jsmap"
  mimeStrCache :: "(jsstring, jsstring) jsmap"
  pool_inits :: "(bool \<times> nat option) list"

text \<open>
  \<open>pool_inits\<close>: the calls of the native \<open>initThreadPool\<close>, with whether the client made it on its own
  and the requested threads; the native side keeps the first.  Key buffers are objects: a signer is
  found by the buffer's identity, a number here, and holds the key bytes it was built from.
\<close>

record client_ctx =
  mimeCacheOn :: bool
  hmacCacheOn :: bool
  hmacSigners :: "(nat, bytes) jsmap"
  poolInitialized :: bool
  pendingThreads :: "nat option"

definition new_process :: process_state where
  "new_process = \<lparr>nativeFnCache = [], mimeByText = [], mimeStrCache = [], pool_inits = []\<rparr>"

record rust_options =
  opt_threads :: "nat option"
  opt_mime :: "bool option"
  opt_hmac :: "bool option"

definition createContext :: "rust_options \<Rightarrow> client_ctx" where
  "createContext o1 =
     \<lparr>mimeCacheOn = (opt_mime o1 \<noteq> Some False), hmacCacheOn = (opt_hmac o1 \<noteq> Some False),
      hmacSigners = [], poolInitialized = False, pendingThreads = opt_threads o1\<rparr>"

section \<open>Caches\<close>

definition MIME_CACHE_MAX :: nat where "MIME_CACHE_MAX = 1024"

text \<open>The oldest half, rounded up, once the map is full; the dropped keys come first.\<close>

definition mime_evictOldestHalf :: "('k, 'v) jsmap \<Rightarrow> 'k list \<times> ('k, 'v) jsmap" where
  "mime_evictOldestHalf m =
     (if length m < MIME_CACHE_MAX then ([], m)
      else (let dropped = take ((length m + 1) div 2) (jsmap_keys m) in
            (dropped, fold AList.delete dropped m)))"

definition clearMimeCaches :: "process_state \<Rightarrow> process_state" where
  "clearMimeCaches s = s\<lparr>mimeByText := [], mimeStrCache := []\<rparr>"

definition normalizeExt :: "(jsstring \<Rightarrow> jsstring) \<Rightarrow> (bytes \<Rightarrow> jsstring) \<Rightarrow> bytes \<Rightarrow> jsstring" where
  "normalizeExt lower decode1 ext =
     (let s = decode1 ext in lower (case s of [] \<Rightarrow> [] | c # r \<Rightarrow> if c = 46 then r else s))"

record mime_env =
  ffi_live :: bool
  mime_guess :: "bytes \<Rightarrow> bytes"
  to_lower_case :: "jsstring \<Rightarrow> jsstring"
  text_decode :: "bytes \<Rightarrow> jsstring"

definition cachedMime :: "mime_env \<Rightarrow> client_ctx \<Rightarrow> bytes \<Rightarrow> process_state \<Rightarrow> bytes \<times> process_state" where
  "cachedMime E c ext s =
     (let native = mime_from_extension_bytes (mime_guess E) ext in
      if \<not> mimeCacheOn c then (native, s)
      else
        (let key = normalizeExt (to_lower_case E) (text_decode E) ext in
         case map_of (mimeByText s) key of
           Some v \<Rightarrow> (v, s)
         | None \<Rightarrow> (native, s\<lparr>mimeByText := AList.update key native (snd (mime_evictOldestHalf (mimeByText s)))\<rparr>)))"

text \<open>The C export reads its argument up to the first NUL; the engine decodes the text it returns.\<close>

definition castrum_mime_from_extension :: "mime_env \<Rightarrow> bytes \<Rightarrow> jsstring" where
  "castrum_mime_from_extension E arg = utf8_decode (mime_from_extension_bytes (mime_guess E) arg)"

definition text_mimeFromExtension ::
  "mime_env \<Rightarrow> client_ctx \<Rightarrow> jsstring \<Rightarrow> process_state \<Rightarrow> jsstring \<times> process_state" where
  "text_mimeFromExtension E c ext s =
     (case map_of (mimeStrCache s) ext of
        Some v \<Rightarrow> (v, s)
      | None \<Rightarrow>
          (let (mime, s1) =
             (if ffi_live E then (castrum_mime_from_extension E (cstring_arg ext), s)
              else (let (b, s') = cachedMime E c (utf8_encode ext) s in (text_decode E b, s'))) in
           (mime, s1\<lparr>mimeStrCache := AList.update ext mime (snd (mime_evictOldestHalf (mimeStrCache s1)))\<rparr>)))"

definition scalar_mimeFromExtension ::
  "mime_env \<Rightarrow> client_ctx \<Rightarrow> bytes \<Rightarrow> process_state \<Rightarrow> text_or_bytes \<times> process_state" where
  "scalar_mimeFromExtension E c ext s =
     (if ffi_live E then
        (let name = text_decode E ext in
         (Text (if hasNul name then js ''application/octet-stream''
                else castrum_mime_from_extension E (cstring_arg name)), s))
      else (let (b, s') = cachedMime E c ext s in (Bytes b, s')))"

text \<open>The signer of a key buffer, with the key bytes it signs with.\<close>

definition hmacSigner :: "(nat \<Rightarrow> bytes) \<Rightarrow> nat \<Rightarrow> client_ctx \<Rightarrow> bytes \<times> client_ctx" where
  "hmacSigner heap key c =
     (if \<not> hmacCacheOn c then (heap key, c)
      else case map_of (hmacSigners c) key of
             Some signer \<Rightarrow> (signer, c)
           | None \<Rightarrow> (heap key, c\<lparr>hmacSigners := AList.update key (heap key) (hmacSigners c)\<rparr>))"

definition napi_hmacSha256 ::
  "(bytes \<Rightarrow> bytes \<Rightarrow> bytes) \<Rightarrow> (nat \<Rightarrow> bytes) \<Rightarrow> nat \<Rightarrow> bytes \<Rightarrow> client_ctx \<Rightarrow> bytes \<times> client_ctx" where
  "napi_hmacSha256 hmac heap key msg c = (let (signer, c') = hmacSigner heap key c in (hmac signer msg, c'))"

definition writeInto :: "string \<Rightarrow> bytes \<Rightarrow> bytes \<Rightarrow> nat result \<times> bytes" where
  "writeInto label dest bs =
     (if length dest < length bs then (Inl (JsError (label @ '': output buffer too small'')), dest)
      else (Inr (length bs), bs @ drop (length bs) dest))"

definition napi_hmacSha256Into ::
  "(bytes \<Rightarrow> bytes \<Rightarrow> bytes) \<Rightarrow> (nat \<Rightarrow> bytes) \<Rightarrow> nat \<Rightarrow> bytes \<Rightarrow> bytes \<Rightarrow> client_ctx \<Rightarrow> (nat result \<times> bytes) \<times> client_ctx" where
  "napi_hmacSha256Into hmac heap key msg dest c =
     (let (sig, c') = napi_hmacSha256 hmac heap key msg c in (writeInto ''hmac sha256'' dest sig, c'))"

definition assertNonEmptySecret :: "bytes \<Rightarrow> string \<Rightarrow> unit result" where
  "assertNonEmptySecret secret label =
     (if length secret = 0 then Inl (JsError (label @ '': secret must not be empty'')) else Inr ())"

section \<open>The thread pool and symbol resolution\<close>

definition ensurePool :: "client_ctx \<Rightarrow> process_state \<Rightarrow> client_ctx \<times> process_state" where
  "ensurePool c s =
     (if poolInitialized c then (c, s)
      else (c\<lparr>poolInitialized := True\<rparr>, s\<lparr>pool_inits := pool_inits s @ [(True, pendingThreads c)]\<rparr>))"

definition initThreadPool :: "nat option \<Rightarrow> client_ctx \<Rightarrow> process_state \<Rightarrow> client_ctx \<times> process_state" where
  "initThreadPool threads c s =
     ((if threads \<noteq> None then (c\<lparr>poolInitialized := True\<rparr>)\<lparr>pendingThreads := threads\<rparr> else c\<lparr>poolInitialized := True\<rparr>),
      s\<lparr>pool_inits := pool_inits s @ [(False, threads)]\<rparr>)"

definition resolveNative :: "string \<Rightarrow> process_state \<Rightarrow> process_state" where
  "resolveNative name s =
     (if name \<in> set (nativeFnCache s) then s else s\<lparr>nativeFnCache := nativeFnCache s @ [name]\<rparr>)"

definition resolvePoolNative :: "string \<Rightarrow> client_ctx \<Rightarrow> process_state \<Rightarrow> client_ctx \<times> process_state" where
  "resolvePoolNative name c s =
     (if name \<in> set (nativeFnCache s) then (c, s)
      else (let (c1, s1) = ensurePool c s in (c1, s1\<lparr>nativeFnCache := nativeFnCache s1 @ [name]\<rparr>)))"

definition configure :: "rust_options \<Rightarrow> client_ctx \<Rightarrow> client_ctx" where
  "configure next c =
     (let c1 = (if opt_threads next \<noteq> None \<and> \<not> poolInitialized c
                then c\<lparr>pendingThreads := opt_threads next\<rparr> else c);
          c2 = (case opt_mime next of None \<Rightarrow> c1 | Some b \<Rightarrow> c1\<lparr>mimeCacheOn := b\<rparr>) in
      case opt_hmac next of None \<Rightarrow> c2 | Some b \<Rightarrow> c2\<lparr>hmacCacheOn := b\<rparr>)"

text \<open>A single-list and a two-list batch: pack into the scratch, call, unpack.\<close>

definition via ::
  "string \<Rightarrow> (bytes \<Rightarrow> bytes) \<Rightarrow> (bytes \<Rightarrow> 'r result) \<Rightarrow> bytes list \<Rightarrow> bytes list \<Rightarrow> client_ctx \<Rightarrow> process_state \<Rightarrow>
   ('r result \<times> bytes list) \<times> client_ctx \<times> process_state" where
  "via name native unpack scratch items c s =
     (withPackScratch scratch items (\<lambda>packed. unpack (native packed)), resolvePoolNative name c s)"

definition via2 ::
  "string \<Rightarrow> (bytes \<Rightarrow> bytes \<Rightarrow> bytes) \<Rightarrow> (bytes \<Rightarrow> 'r result) \<Rightarrow> bytes list \<Rightarrow> bytes list \<Rightarrow> bytes list \<Rightarrow>
   client_ctx \<Rightarrow> process_state \<Rightarrow> ('r result \<times> bytes list) \<times> client_ctx \<times> process_state" where
  "via2 name native unpack scratch a b c s =
     (withPackScratch2 scratch a b (\<lambda>packedA packedB. unpack (native packedA packedB)), resolvePoolNative name c s)"

section \<open>A client's life\<close>

datatype client_op =
    OpText jsstring
  | OpBytes bytes
  | OpBatch string
  | OpScalar string
  | OpConfigure rust_options
  | OpInit "nat option"
  | OpFlush

fun client_step :: "mime_env \<Rightarrow> client_op \<Rightarrow> client_ctx \<times> process_state \<Rightarrow> client_ctx \<times> process_state" where
  "client_step E (OpText ext) (c, s) = (c, snd (text_mimeFromExtension E c ext s))"
| "client_step E (OpBytes ext) (c, s) = (c, snd (scalar_mimeFromExtension E c ext s))"
| "client_step E (OpBatch name) (c, s) = resolvePoolNative name c s"
| "client_step E (OpScalar name) (c, s) = (c, resolveNative name s)"
| "client_step E (OpConfigure o1) (c, s) = (configure o1 c, s)"
| "client_step E (OpInit t) (c, s) = initThreadPool t c s"
| "client_step E OpFlush (c, s) = (c, clearMimeCaches s)"

definition client_run :: "mime_env \<Rightarrow> client_op list \<Rightarrow> client_ctx \<times> process_state \<Rightarrow> client_ctx \<times> process_state" where
  "client_run E ops st = fold (client_step E) ops st"

text \<open>The extensions, cache keys and MIME types of practice are ASCII.\<close>

definition plain :: "bytes \<Rightarrow> bool" where
  "plain bs \<longleftrightarrow> list_all (\<lambda>b. unat b < 128) bs"

text \<open>
  What the properties need of the platform: \<open>toLowerCase\<close> on ASCII text, the decoder on ASCII bytes,
  and that MIME types are ASCII.
\<close>

definition ascii_env :: "mime_env \<Rightarrow> bool" where
  "ascii_env E \<longleftrightarrow>
     (\<forall>s. ascii s \<longrightarrow> to_lower_case E s = to_lower s) \<and>
     (\<forall>bs. plain bs \<longrightarrow> text_decode E bs = latin1_string bs) \<and>
     (\<forall>e. plain (mime_guess E e))"

fun plain_op :: "client_op \<Rightarrow> bool" where
  "plain_op (OpText ext) \<longleftrightarrow> ascii ext"
| "plain_op (OpBytes ext) \<longleftrightarrow> plain ext"
| "plain_op _ \<longleftrightarrow> True"

section \<open>Extensions and their keys\<close>

lemma plain_simps [simp]: "plain []" "plain (b # bs) \<longleftrightarrow> unat b < 128 \<and> plain bs"
  by (simp_all add: plain_def)

lemma unat_unit_of_byte [simp]: "unat (ucast (b :: byte) :: code_unit) = unat b"
  by (simp add: unsigned_ucast_eq take_bit_nat_eq_self less_trans [OF unat_byte_lt])

lemma unat_byte_of_unit: "unat (ucast (c :: code_unit) :: byte) = unat c mod 256"
  by (simp add: unsigned_ucast_eq take_bit_eq_mod)

lemma byte_unit_byte [simp]: "ucast (ucast (b :: byte) :: code_unit) = b"
  by (simp add: word_unat_eq_iff unat_byte_of_unit mod_less [OF unat_byte_lt])

lemma plain_latin1: "plain bs \<Longrightarrow> ascii (latin1_string bs)"
  by (induction bs) (auto simp: ascii_def latin1_string_def)

lemma plain_decode: "plain bs \<Longrightarrow> utf8_decode bs = latin1_string bs"
  by (simp add: plain_def list_all_iff utf8_decode_ascii)

lemma latin1_string_bytes: "map (\<lambda>c. of_nat (unat c)) (latin1_string bs) = bs"
  by (induction bs) (simp_all add: latin1_string_def)

lemma plain_encode: "plain bs \<Longrightarrow> utf8_encode (latin1_string bs) = bs"
  by (simp only: utf8_encode_ascii plain_latin1 latin1_string_bytes)

lemma ascii_encode_plain: "ascii s \<Longrightarrow> plain (utf8_encode s)"
  by (auto simp: utf8_encode_ascii plain_def list_all_iff ascii_def unat_byte_of_unit)

lemma ascii_decode_encode: "ascii s \<Longrightarrow> latin1_string (utf8_encode s) = s"
  by (auto simp: utf8_encode_ascii latin1_string_def ascii_def word_unat_eq_iff unat_byte_of_unit intro!: map_idI)

lemma plain_rust_utf8: "plain bs \<Longrightarrow> rust_utf8 bs"
  by (simp add: rust_utf8_def plain_decode plain_encode)

lemma lowercase_plain: "unat b < 128 \<Longrightarrow> unat (to_ascii_lowercase b) < 128"
  by (simp add: to_ascii_lowercase_def unat_word_ariths)

lemma plain_lower: "plain bs \<Longrightarrow> plain (map to_ascii_lowercase bs)"
  by (induction bs) (auto simp: lowercase_plain)

lemma plain_dropWhile: "plain bs \<Longrightarrow> plain (dropWhile P bs)"
  by (induction bs) auto

lemma lowercase_dot: "to_ascii_lowercase b = 46 \<longleftrightarrow> b = 46"
  by (auto simp: to_ascii_lowercase_def word_unat_eq_iff unat_word_ariths)

text \<open>On an ASCII extension the native answer depends on the lower-cased name without its dots only.\<close>

definition bare_name :: "bytes \<Rightarrow> bytes" where
  "bare_name ext = dropWhile (\<lambda>b. b = 46) (map to_ascii_lowercase ext)"

lemma bare_name_alt: "map to_ascii_lowercase (dropWhile (\<lambda>b. b = 46) ext) = bare_name ext"
  by (induction ext) (simp_all add: bare_name_def lowercase_dot)

lemma native_plain:
  assumes "plain ext"
  shows "mime_from_extension_bytes guess ext =
    (case map_of MIME_TABLE (bare_name ext) of Some mime \<Rightarrow> mime | None \<Rightarrow> guess (bare_name ext))"
proof -
  have "rust_utf8 (bare_name ext)"
    using assms by (simp add: bare_name_def plain_rust_utf8 plain_dropWhile plain_lower)
  then show ?thesis using assms
    by (simp add: mime_from_extension_bytes_def plain_rust_utf8 bare_name_alt Let_def cong: option.case_cong)
qed

text \<open>The cache key determines that name.\<close>

definition key_mime :: "mime_env \<Rightarrow> jsstring \<Rightarrow> bytes" where
  "key_mime E k =
     (let name = dropWhile (\<lambda>b. b = 46) (map ucast k) in
      case map_of MIME_TABLE name of Some mime \<Rightarrow> mime | None \<Rightarrow> mime_guess E name)"

lemma lower_latin1: "plain bs \<Longrightarrow> to_lower (latin1_string bs) = latin1_string (map to_ascii_lowercase bs)"
  by (induction bs)
    (auto simp: to_lower_def latin1_string_def lower_unit_def to_ascii_lowercase_def word_unat_eq_iff unat_word_ariths)

lemma key_bytes: "map ucast (latin1_string bs) = bs"
  by (induction bs) (simp_all add: latin1_string_def)

definition undotted :: "bytes \<Rightarrow> bytes" where
  "undotted ext = (case ext of [] \<Rightarrow> [] | b # r \<Rightarrow> if b = 46 then r else ext)"

lemma undotted_latin1:
  "(case latin1_string ext of [] \<Rightarrow> [] | c # r \<Rightarrow> if c = 46 then r else latin1_string ext) = latin1_string (undotted ext)"
  by (cases ext) (auto simp: undotted_def latin1_string_def word_unat_eq_iff)

lemma plain_undotted: "plain ext \<Longrightarrow> plain (undotted ext)"
  by (cases ext) (auto simp: undotted_def)

lemma bare_undotted: "bare_name (undotted ext) = bare_name ext"
  by (cases ext) (auto simp: undotted_def bare_name_def lowercase_dot)

lemma key_plain:
  assumes "ascii_env E" "plain ext"
  shows "normalizeExt (to_lower_case E) (text_decode E) ext = latin1_string (map to_ascii_lowercase (undotted ext))"
  using assms
  by (simp add: normalizeExt_def ascii_env_def Let_def undotted_latin1 plain_latin1 plain_undotted lower_latin1)

lemma key_mime_native:
  assumes "ascii_env E" "plain ext"
  shows "key_mime E (normalizeExt (to_lower_case E) (text_decode E) ext) = mime_from_extension_bytes (mime_guess E) ext"
  using assms bare_undotted [of ext]
  by (simp add: key_plain key_mime_def key_bytes native_plain bare_name_def Let_def cong: option.case_cong)

lemma table_plain: "list_all (\<lambda>e. plain (snd e)) MIME_TABLE" "plain OCTET_STREAM"
  by (simp_all add: MIME_TABLE_def OCTET_STREAM_def ascii_bytes_def plain_def)

lemma native_answer_plain:
  assumes "ascii_env E"
  shows "plain (mime_from_extension_bytes (mime_guess E) ext)"
proof -
  have "plain (case map_of MIME_TABLE n of Some mime \<Rightarrow> mime | None \<Rightarrow> mime_guess E n)" for n
    using assms table_plain(1) by (auto simp: ascii_env_def list_all_iff split: option.split dest!: map_of_SomeD)
  then show ?thesis by (simp add: mime_from_extension_bytes_def table_plain(2) Let_def)
qed

section \<open>Bounded caches\<close>

lemma evict_drops:
  "jsmap_ok m \<Longrightarrow> snd (mime_evictOldestHalf m) = (if length m < MIME_CACHE_MAX then m else drop ((length m + 1) div 2) m)"
  by (simp add: mime_evictOldestHalf_def delete_prefix Let_def)

definition memo_ok :: "('k \<Rightarrow> 'v) \<Rightarrow> ('k, 'v) jsmap \<Rightarrow> bool" where
  "memo_ok answer m \<longleftrightarrow> jsmap_ok m \<and> length m \<le> MIME_CACHE_MAX \<and> (\<forall>(k, v) \<in> set m. v = answer k)"

lemma memo_ok_Nil [simp]: "memo_ok answer []"
  by (simp add: memo_ok_def MIME_CACHE_MAX_def)

lemma memo_ok_hit: "memo_ok answer m \<Longrightarrow> map_of m k = Some v \<Longrightarrow> v = answer k"
  by (auto simp: memo_ok_def dest: map_of_SomeD)

lemma set_update_subset: "set (AList.update k v m) \<subseteq> insert (k, v) (set m)"
  by (induction m) auto

lemma memo_ok_insert:
  assumes "memo_ok answer m" "v = answer k"
  shows "memo_ok answer (AList.update k v (snd (mime_evictOldestHalf m)))"
proof -
  let ?r = "snd (mime_evictOldestHalf m)"
  have ok: "jsmap_ok m" using assms by (simp add: memo_ok_def)
  have "jsmap_ok ?r" using ok by (simp add: evict_drops jsmap_ok_def drop_map [symmetric])
  moreover have len: "length ?r < MIME_CACHE_MAX"
    using assms ok by (auto simp: evict_drops memo_ok_def MIME_CACHE_MAX_def)
  moreover have "set ?r \<subseteq> set m" using ok by (simp add: evict_drops set_drop_subset)
  moreover have "length (AList.update k v ?r) \<le> Suc (length ?r)"
    by (rule length_update_new)
  moreover have "set (AList.update k v ?r) \<subseteq> insert (k, v) (set ?r)"
    using set_update_subset [of k v ?r] by simp
  ultimately show ?thesis using assms by (fastforce simp: memo_ok_def)
qed

section \<open>A run keeps the caches exact\<close>

definition text_answer :: "mime_env \<Rightarrow> jsstring \<Rightarrow> jsstring" where
  "text_answer E ext = castrum_mime_from_extension E (if ffi_live E then cstring_arg ext else utf8_encode ext)"

definition mime_ok :: "mime_env \<Rightarrow> process_state \<Rightarrow> bool" where
  "mime_ok E s \<longleftrightarrow> memo_ok (key_mime E) (mimeByText s) \<and> memo_ok (text_answer E) (mimeStrCache s)"

lemma cachedMime_ok:
  assumes "ascii_env E" "plain ext" "mime_ok E s"
  shows "fst (cachedMime E c ext s) = mime_from_extension_bytes (mime_guess E) ext"
    and "mime_ok E (snd (cachedMime E c ext s))"
  using assms key_mime_native [OF assms(1,2)]
  by (auto simp: cachedMime_def Let_def mime_ok_def memo_ok_insert dest: memo_ok_hit split: option.split)

lemma native_decoded:
  "ascii_env E \<Longrightarrow> text_decode E (mime_from_extension_bytes (mime_guess E) ext) = castrum_mime_from_extension E ext"
  using native_answer_plain [of E ext] by (simp add: ascii_env_def castrum_mime_from_extension_def plain_decode)

lemma castrum_mime_bytes:
  "ascii_env E \<Longrightarrow> utf8_encode (castrum_mime_from_extension E ext) = mime_from_extension_bytes (mime_guess E) ext"
  using native_answer_plain [of E ext] by (simp add: castrum_mime_from_extension_def plain_decode plain_encode)

lemma mime_text_ok:
  assumes "ascii_env E" "ascii ext" "mime_ok E s"
  shows "fst (text_mimeFromExtension E c ext s) = text_answer E ext"
    and "mime_ok E (snd (text_mimeFromExtension E c ext s))"
proof -
  obtain b s' where cm: "cachedMime E c (utf8_encode ext) s = (b, s')" by (cases "cachedMime E c (utf8_encode ext) s")
  have b: "\<not> ffi_live E \<Longrightarrow> text_decode E b = text_answer E ext" and s': "mime_ok E s'"
    using cachedMime_ok [OF assms(1) ascii_encode_plain [OF assms(2)] assms(3), of c] native_decoded [OF assms(1)]
    by (simp_all add: cm text_answer_def)
  show "fst (text_mimeFromExtension E c ext s) = text_answer E ext"
    using assms(3) b cm by (auto simp: text_mimeFromExtension_def mime_ok_def text_answer_def Let_def dest: memo_ok_hit split: option.split)
  show "mime_ok E (snd (text_mimeFromExtension E c ext s))"
    using assms(3) b s' cm
    by (auto simp: text_mimeFromExtension_def mime_ok_def text_answer_def Let_def memo_ok_insert split: option.split)
qed

lemma mime_scalar_ok:
  assumes "ascii_env E" "plain ext" "mime_ok E s"
  shows "mime_ok E (snd (scalar_mimeFromExtension E c ext s))"
  using assms cachedMime_ok(2) [OF assms] by (simp add: scalar_mimeFromExtension_def Let_def split_beta)

lemma mime_ok_frame [simp]:
  "mime_ok E (s\<lparr>nativeFnCache := f\<rparr>) = mime_ok E s" "mime_ok E (s\<lparr>pool_inits := p\<rparr>) = mime_ok E s"
  "mime_ok E (clearMimeCaches s)"
  by (simp_all add: mime_ok_def clearMimeCaches_def)

lemma mime_step_ok:
  assumes "ascii_env E" "plain_op oper" "mime_ok E (snd st)"
  shows "mime_ok E (snd (client_step E oper st))"
proof -
  obtain c s where st: "st = (c, s)" by (cases st)
  from assms st show ?thesis
    by (cases oper)
      (auto simp: mime_text_ok(2) mime_scalar_ok resolvePoolNative_def resolveNative_def ensurePool_def initThreadPool_def Let_def)
qed

lemma mime_run_ok:
  assumes "ascii_env E" "list_all plain_op ops" "mime_ok E (snd st)"
  shows "mime_ok E (snd (client_run E ops st))"
  using assms(2,3) by (induction ops arbitrary: st) (simp_all add: client_run_def mime_step_ok assms(1))

lemma byte_of_unit_0: "unat (c :: code_unit) < 128 \<Longrightarrow> (ucast c :: byte) = 0 \<longleftrightarrow> c = 0"
  by (simp add: word_unat_eq_iff unat_byte_of_unit)

lemma cstring_arg_plain: "ascii s \<Longrightarrow> \<not> hasNul s \<Longrightarrow> cstring_arg s = utf8_encode s"
  unfolding cstring_arg_def by (rule takeWhile_eq_all_conv [THEN iffD2])
    (auto simp: utf8_encode_ascii hasNul_def ascii_def byte_of_unit_0)


text \<open>Node over the addon, with a guess that knows no further types.\<close>

definition node_env :: mime_env where
  "node_env = \<lparr>ffi_live = False, mime_guess = (\<lambda>_. OCTET_STREAM), to_lower_case = to_lower, text_decode = node_decodeUtf8\<rparr>"

lemma plain_no_bom: "plain bs \<Longrightarrow> strip_bom bs = bs"
  by (cases bs) (auto simp: strip_bom_def)

lemma node_env_ok: "ascii_env node_env"
  by (simp add: ascii_env_def node_env_def node_decodeUtf8_def plain_no_bom plain_decode table_plain)


section \<open>Where the caches and guards differ\<close>

definition BOM :: bytes where "BOM = [0xEF, 0xBB, 0xBF]"

lemma bom_utf8:
  assumes "plain bs"
  shows "rust_utf8 (BOM @ bs)"
proof -
  have enc: "BOM = enc_scalar 0xFEFF" by (simp add: BOM_def enc_scalar_def)
  have "utf8_decode (BOM @ bs) = 0xFEFF # latin1_string bs"
    unfolding enc using assms by (subst utf8_decode_enc_scalar) (simp_all add: is_scalar_def scalar_units_def plain_decode)
  moreover have "utf8_encode (0xFEFF # latin1_string bs) = BOM @ utf8_encode (latin1_string bs)"
    by (cases "latin1_string bs") (simp_all add: utf8_encode_def enc is_high_def is_low_def unit_scalar_def)
  ultimately show ?thesis using assms by (simp add: rust_utf8_def plain_encode)
qed

lemma bom_not_in_table: "map_of MIME_TABLE (BOM @ bs) = None"
  by (simp add: MIME_TABLE_def BOM_def ascii_bytes_def)

lemma native_bom:
  assumes "plain bs"
  shows "mime_from_extension_bytes guess (BOM @ bs) = guess (BOM @ map to_ascii_lowercase bs)"
proof -
  have "dropWhile (\<lambda>b. b = 46) (BOM @ bs) = BOM @ bs" "map to_ascii_lowercase BOM = BOM"
    by (simp_all add: BOM_def to_ascii_lowercase_def)
  then show ?thesis using assms
    by (simp add: mime_from_extension_bytes_def bom_utf8 plain_lower bom_not_in_table Let_def)
qed



text \<open>
  The text entry point over \<open>bun:ffi\<close> has no guard for a NUL: an extension with one gets the type
  of its prefix, and keeps it in the cache, where the byte entry point answers with the unknown type.
\<close>

theorem nul_extension_answers_prefix:
  assumes "ascii_env E" "ffi_live E" "ascii ext" "\<not> hasNul ext" "ascii rest"
  shows "fst (text_mimeFromExtension E c (ext @ 0 # rest) new_process) = castrum_mime_from_extension E (utf8_encode ext)
         \<and> fst (scalar_mimeFromExtension E c (utf8_encode (ext @ 0 # rest)) s) = Text (js ''application/octet-stream'')"
proof -
  have a: "ascii (ext @ 0 # rest)" using assms by (auto simp: ascii_def)
  have "cstring_arg (ext @ 0 # rest) = takeWhile (\<lambda>b. b \<noteq> 0) (utf8_encode ext @ 0 # utf8_encode rest)"
    using a assms(3,5) by (simp add: cstring_arg_def utf8_encode_ascii)
  also have "\<dots> = utf8_encode ext"
    using cstring_arg_plain [OF assms(3,4)] unfolding cstring_arg_def takeWhile_eq_all_conv
    by (subst takeWhile_append2) simp_all
  finally have arg: "cstring_arg (ext @ 0 # rest) = utf8_encode ext" .
  have "text_decode E (utf8_encode (ext @ 0 # rest)) = ext @ 0 # rest"
    using assms(1) ascii_encode_plain [OF a] ascii_decode_encode [OF a] by (simp add: ascii_env_def)
  with arg assms(2) show ?thesis
    by (simp add: text_mimeFromExtension_def scalar_mimeFromExtension_def new_process_def hasNul_def Let_def)
qed

text \<open>
  A cached HMAC signer belongs to the key buffer's identity: once a buffer has been used, signing
  with it after its bytes changed still uses the bytes of the first call; without the cache the
  current bytes are used.
\<close>

theorem hmac_signer_keeps_first_key:
  assumes "map_of (hmacSigners c) key = None"
  shows "fst (napi_hmacSha256 hmac heap' key msg' (snd (napi_hmacSha256 hmac heap key msg c)))
           = hmac (if hmacCacheOn c then heap key else heap' key) msg'"
  using assms by (auto simp: napi_hmacSha256_def hmacSigner_def Let_def split: option.splits)

text \<open>
  Over any use of one client the thread pool is started implicitly at most once, only as the
  first start, and never after an explicit one; from then on \<open>configure\<close> no longer changes the
  thread count.
\<close>

definition pool_ok :: "client_ctx \<times> process_state \<Rightarrow> bool" where
  "pool_ok st \<longleftrightarrow> (poolInitialized (fst st) \<longleftrightarrow> pool_inits (snd st) \<noteq> []) \<and> list_all (\<lambda>i. \<not> fst i) (tl (pool_inits (snd st)))"

lemma cachedMime_pool [simp]: "pool_inits (snd (cachedMime E c ext s)) = pool_inits s"
  by (simp add: cachedMime_def Let_def split: option.split)

lemma mime_pool [simp]:
  "pool_inits (snd (text_mimeFromExtension E c ext s)) = pool_inits s"
  "pool_inits (snd (scalar_mimeFromExtension E c e s)) = pool_inits s"
  by (simp_all add: text_mimeFromExtension_def scalar_mimeFromExtension_def Let_def split_beta split: option.split)

lemma configure_pool [simp]: "poolInitialized (configure o1 c) = poolInitialized c"
  by (simp add: configure_def Let_def split: option.split)

lemma pool_step: "pool_ok st \<Longrightarrow> pool_ok (client_step E oper st)"
  by (cases st; cases oper; cases "pool_inits (snd st)")
    (auto simp: pool_ok_def resolvePoolNative_def resolveNative_def ensurePool_def initThreadPool_def clearMimeCaches_def Let_def)

theorem pool_started_once:
  "list_all (\<lambda>i. \<not> fst i) (tl (pool_inits (snd (client_run E ops (createContext o1, new_process)))))
   \<and> (pool_inits (snd (client_run E ops (createContext o1, new_process))) \<noteq> []
        \<longrightarrow> pendingThreads (configure o2 (fst (client_run E ops (createContext o1, new_process))))
            = pendingThreads (fst (client_run E ops (createContext o1, new_process))))"
proof -
  have "pool_ok st \<Longrightarrow> pool_ok (client_run E ops st)" for st
    by (induction ops arbitrary: st) (simp_all add: client_run_def pool_step)
  moreover have "pool_ok (createContext o1, new_process)"
    by (simp add: pool_ok_def createContext_def new_process_def)
  ultimately have "pool_ok (client_run E ops (createContext o1, new_process))" by blast
  then show ?thesis by (auto simp: pool_ok_def configure_def Let_def split: option.split)
qed

text \<open>
  A batch is as good as its native function: if that maps the packed items to the packed results
  of an operation on each of them, the caller gets the results in order, whatever scratch was used.
\<close>

theorem batch_maps_items:
  assumes "\<And>xs. native (pack_layout xs) = encoded (map f xs)" "\<And>rs. unpack (encoded rs) = Inr rs"
  shows "fst (fst (via name native unpack scratch items c s)) = Inr (map f items)"
  by (simp add: via_def withPackScratch_result assms)

end
