(* ===== verification/NativeBinding.thy ===== *)
theory NativeBinding
  imports Observability
begin

text \<open>
  Finding and binding the native library (\<open>src/src/native/loader.ts\<close>, \<open>src/src/native/ffi.ts\<close>,
  \<open>src/src/runtime/transport.ts\<close>): the candidate paths of the addon, the one-time load of the napi
  addon, the \<open>bun:ffi\<close> bind that walks the candidates when one fails, and the resolution of an
  operation on either transport.  The file system, \<open>node:path\<close>, the module loader, \<open>dlopen\<close>, the
  symbol binding and the self test are parameters.  \<open>dlopen_log\<close> records the paths that were opened
  with the symbol map.
\<close>

section \<open>Candidate paths\<close>

record host =
  existsSync :: "jsstring \<Rightarrow> bool"
  isFile :: "jsstring \<Rightarrow> bool"
  join_path :: "jsstring list \<Rightarrow> jsstring"
  read_cpuinfo :: "jsstring option"
  env_var :: "jsstring \<Rightarrow> jsstring option"
  module_dir :: jsstring
  os_platform :: jsstring
  os_arch :: jsstring

definition X8664_V3_FLAGS :: "jsstring list" where
  "X8664_V3_FLAGS = map js [''avx2'', ''bmi2'', ''fma'', ''sse4_2'']"

definition word_unit :: "code_unit \<Rightarrow> bool" where
  "word_unit u \<longleftrightarrow> (48 \<le> unat u \<and> unat u \<le> 57) \<or> (65 \<le> unat u \<and> unat u \<le> 90) \<or> unat u = 95 \<or> (97 \<le> unat u \<and> unat u \<le> 122)"

text \<open>The maximal runs of word characters: a flag matches between word boundaries iff it is one of them.\<close>

fun word_runs :: "jsstring \<Rightarrow> jsstring \<Rightarrow> jsstring list" where
  "word_runs acc [] = [acc]"
| "word_runs acc (c # s) = (if word_unit c then word_runs (acc @ [c]) s else acc # word_runs [] s)"

definition supportsX8664V3 :: "host \<Rightarrow> jsstring option \<Rightarrow> bool" where
  "supportsX8664V3 H cpuinfo =
     (let cpu = (case cpuinfo of Some t \<Rightarrow> t | None \<Rightarrow> (case read_cpuinfo H of Some t \<Rightarrow> t | None \<Rightarrow> [])) in
      list_all (\<lambda>f. f \<in> set (word_runs [] cpu)) X8664_V3_FLAGS)"

definition addon_names :: "host \<Rightarrow> jsstring \<Rightarrow> jsstring \<Rightarrow> jsstring option \<Rightarrow> jsstring list" where
  "addon_names H platform arch cpuinfo =
     (let libcVariants =
            (if platform = js ''win32'' then [js ''msvc'', js ''gnu'']
             else if platform = js ''linux'' then [js ''gnu'', js ''musl''] else [[]]);
          names = map (\<lambda>libc. js ''castrum.'' @ platform @ js ''-'' @ arch @
                         (if libc \<noteq> [] then js ''-'' @ libc else []) @ js ''.node'') libcVariants
                  @ [js ''castrum.node''] in
      if platform = js ''linux'' \<and> arch = js ''x64'' \<and> supportsX8664V3 H cpuinfo
      then js ''castrum.linux-x64-v3-gnu.node'' # names else names)"

definition override_candidates :: "host \<Rightarrow> jsstring list \<Rightarrow> jsstring \<Rightarrow> jsstring list" where
  "override_candidates H names envOverride =
     (if existsSync H envOverride \<and> isFile H envOverride then [envOverride] else [])
     @ map (\<lambda>name. join_path H [envOverride, name]) names"

definition root_candidates :: "host \<Rightarrow> jsstring list \<Rightarrow> jsstring \<Rightarrow> jsstring list" where
  "root_candidates H names baseDir =
     concat (map (\<lambda>root. map (\<lambda>name. join_path H [root, name]) names)
       [baseDir, join_path H [baseDir, js ''..''], join_path H [baseDir, js ''..'', js ''..'']])
     @ map (\<lambda>name. join_path H [baseDir, js ''..'', js ''..'', js ''target'', js ''release'', name]) names"

datatype load_error =
    OverrideMisconfigured jsstring "jsstring list"
  | AddonNotFound "jsstring list"
  | AddonNotLoaded jsstring jsstring
  | FfiNotBun
  | FfiBindFailed jsstring "jsstring list"

definition addonCandidatesFrom ::
  "host \<Rightarrow> jsstring option \<Rightarrow> jsstring \<Rightarrow> jsstring \<Rightarrow> jsstring \<Rightarrow> jsstring option \<Rightarrow> load_error + jsstring list" where
  "addonCandidatesFrom H envOverride baseDir platform arch cpuinfo =
     (let names = addon_names H platform arch cpuinfo in
      case envOverride of
        None \<Rightarrow> Inr (root_candidates H names baseDir)
      | Some dir \<Rightarrow>
          if dir = [] then Inr (root_candidates H names baseDir)
          else
            (let overrides = override_candidates H names dir in
             if \<not> list_ex (existsSync H) overrides then Inl (OverrideMisconfigured dir overrides)
             else Inr (overrides @ root_candidates H names baseDir)))"

definition resolveAddonPathFrom ::
  "host \<Rightarrow> jsstring option \<Rightarrow> jsstring \<Rightarrow> jsstring \<Rightarrow> jsstring \<Rightarrow> jsstring option \<Rightarrow> load_error + jsstring" where
  "resolveAddonPathFrom H envOverride baseDir platform arch cpuinfo =
     (case addonCandidatesFrom H envOverride baseDir platform arch cpuinfo of
        Inl e \<Rightarrow> Inl e
      | Inr candidates \<Rightarrow>
          (case find (existsSync H) candidates of
             Some candidate \<Rightarrow> Inr candidate
           | None \<Rightarrow> Inl (AddonNotFound candidates)))"

definition library_override :: "host \<Rightarrow> jsstring option" where
  "library_override H = resolveEnvVar (env_var H) (js ''CASTRUM_NATIVE_LIBRARY_PATH'') [js ''NAPI_RS_NATIVE_LIBRARY_PATH'']"

text \<open>The first occurrence of every existing candidate.\<close>

fun existing_once :: "host \<Rightarrow> jsstring list \<Rightarrow> jsstring list \<Rightarrow> jsstring list" where
  "existing_once H seen [] = []"
| "existing_once H seen (c # cs) =
     (if c \<notin> set seen \<and> existsSync H c then c # existing_once H (c # seen) cs else existing_once H seen cs)"

section \<open>Module state\<close>

datatype ffi_mode = FfiMode | NapiMode | AutoMode
datatype buffer_abi = BufferPair | PtrLen

record ('b, 'a) native_state =
  cachedCandidates :: "jsstring list option"
  cachedPath :: "jsstring option"
  cachedAddon :: "'a option"
  cached_ffi :: "'b option option"
  bufferAbiMode :: "buffer_abi option"
  boundAddonPath :: "jsstring option"
  dlopen_log :: "jsstring list"

definition unloaded :: "('b, 'a) native_state" where
  "unloaded = \<lparr>cachedCandidates = None, cachedPath = None, cachedAddon = None, cached_ffi = None,
     bufferAbiMode = None, boundAddonPath = None, dlopen_log = []\<rparr>"

definition getAddonPathCandidates ::
  "host \<Rightarrow> ('b, 'a) native_state \<Rightarrow> (load_error + jsstring list) \<times> ('b, 'a) native_state" where
  "getAddonPathCandidates H s =
     (case cachedCandidates s of
        Some cs \<Rightarrow> (Inr cs, s)
      | None \<Rightarrow>
          (case addonCandidatesFrom H (library_override H) (module_dir H) (os_platform H) (os_arch H) None of
             Inl e \<Rightarrow> (Inl e, s)
           | Inr cands \<Rightarrow>
               (let existing = existing_once H [] cands in (Inr existing, s\<lparr>cachedCandidates := Some existing\<rparr>))))"

definition getAddonPath ::
  "host \<Rightarrow> ('b, 'a) native_state \<Rightarrow> (load_error + jsstring) \<times> ('b, 'a) native_state" where
  "getAddonPath H s =
     (case cachedPath s of
        Some p \<Rightarrow> (Inr p, s)
      | None \<Rightarrow>
          (case resolveAddonPathFrom H (library_override H) (module_dir H) (os_platform H) (os_arch H) None of
             Inl e \<Rightarrow> (Inl e, s)
           | Inr p \<Rightarrow> (Inr p, s\<lparr>cachedPath := Some p\<rparr>)))"

definition getAddon ::
  "host \<Rightarrow> (jsstring \<Rightarrow> jsstring + 'a) \<Rightarrow> ('b, 'a) native_state \<Rightarrow> (load_error + 'a) \<times> ('b, 'a) native_state" where
  "getAddon H require s =
     (case cachedAddon s of
        Some a \<Rightarrow> (Inr a, s)
      | None \<Rightarrow>
          (case getAddonPath H s of
             (Inl e, s1) \<Rightarrow> (Inl e, s1)
           | (Inr p, s1) \<Rightarrow>
               (case require p of
                  Inl cause \<Rightarrow> (Inl (AddonNotLoaded p cause), s1)
                | Inr a \<Rightarrow> (Inr a, s1\<lparr>cachedAddon := Some a\<rparr>))))"

section \<open>The bind\<close>

record 'b engine =
  is_bun :: bool
  probeBufferLength :: "jsstring \<Rightarrow> bool"
  dlopen_build :: "jsstring \<Rightarrow> bool \<Rightarrow> jsstring + 'b"
  selfTest :: "'b \<Rightarrow> bool"

definition resolveFfiMode :: "host \<Rightarrow> ffi_mode" where
  "resolveFfiMode H =
     (case resolveEnvVar (env_var H) (js ''CASTRUM_FFI_MODE'') [] of
        None \<Rightarrow> AutoMode
      | Some raw \<Rightarrow> if raw = js ''ffi'' then FfiMode else if raw = js ''napi'' then NapiMode else AutoMode)"

text \<open>The \<open>try\<close> block of \<open>bind\<close> for one path, with the reset at the start of \<open>catch\<close>.\<close>

definition bind_attempt ::
  "'b engine \<Rightarrow> jsstring \<Rightarrow> ('b, 'a) native_state \<Rightarrow> (jsstring + 'b) \<times> ('b, 'a) native_state" where
  "bind_attempt G path s =
     (let useBufferLength = probeBufferLength G path;
          s1 = s\<lparr>bufferAbiMode := Some (if useBufferLength then BufferPair else PtrLen), dlopen_log := dlopen_log s @ [path]\<rparr> in
      case dlopen_build G path useBufferLength of
        Inl msg \<Rightarrow> (Inl msg, s1\<lparr>bufferAbiMode := None\<rparr>)
      | Inr bindings \<Rightarrow>
          if \<not> selfTest G bindings
          then (Inl (js ''bun:ffi bind-time self-test failed on '' @ path), s1\<lparr>bufferAbiMode := None\<rparr>)
          else (Inr bindings, s1\<lparr>boundAddonPath := Some path\<rparr>))"

fun try_each :: "('p \<Rightarrow> 's \<Rightarrow> ('e + 'b option) \<times> 's) \<Rightarrow> 'p list \<Rightarrow> 's \<Rightarrow> ('e + 'b option) \<times> 's" where
  "try_each f [] s = (Inr None, s)"
| "try_each f (p # ps) s =
     (case f p s of
        (Inl e, s') \<Rightarrow> (Inl e, s')
      | (Inr (Some b), s') \<Rightarrow> (Inr (Some b), s')
      | (Inr None, s') \<Rightarrow> try_each f ps s')"

lemma try_each_cong [fundef_cong]:
  assumes "ps = ps'" "s = s'" "\<And>p s. p \<in> set ps' \<Longrightarrow> f p s = g p s"
  shows "try_each f ps s = try_each g ps' s'"
proof -
  have "(\<And>p s. p \<in> set ps' \<Longrightarrow> f p s = g p s) \<Longrightarrow> try_each f ps' t = try_each g ps' t" for t
    by (induction ps' arbitrary: t) (auto split: prod.split sum.split option.split)
  with assms show ?thesis by blast
qed

lemma untried_decreases:
  assumes "next \<in> set (filter (\<lambda>c. c \<noteq> path \<and> c \<notin> set tried) cs)"
  shows "length (filter (\<lambda>c. c \<noteq> next \<and> c \<notin> set (tried @ [path])) cs) < length (filter (\<lambda>c. c \<noteq> path \<and> c \<notin> set tried) cs)"
proof -
  have "filter (\<lambda>c. c \<noteq> next \<and> c \<notin> set (tried @ [path])) cs
      = filter (\<lambda>c. c \<noteq> next) (filter (\<lambda>c. c \<noteq> path \<and> c \<notin> set tried) cs)" (is "_ = filter _ ?l")
    by (auto simp: filter_filter intro: filter_cong)
  moreover have "length (filter (\<lambda>c. c \<noteq> next) ?l) < length ?l"
    using assms by (intro length_filter_less) auto
  ultimately show ?thesis by simp
qed

function bind_path ::
  "'b engine \<Rightarrow> ffi_mode \<Rightarrow> jsstring list \<Rightarrow> jsstring \<Rightarrow> jsstring list \<Rightarrow> ('b, 'a) native_state \<Rightarrow>
   (load_error + 'b option) \<times> ('b, 'a) native_state" where
  "bind_path G mode cs path tried s =
     (case bind_attempt G path (s\<lparr>bufferAbiMode := None\<rparr>) of
        (Inr bindings, s1) \<Rightarrow> (Inr (Some bindings), s1)
      | (Inl msg, s1) \<Rightarrow>
          (case try_each (\<lambda>next. bind_path G mode cs next (tried @ [path]))
                  (filter (\<lambda>next. next \<noteq> path \<and> next \<notin> set tried) cs) s1 of
             (Inr None, s2) \<Rightarrow>
               (if mode = FfiMode then Inl (FfiBindFailed msg (tried @ [path])) else Inr None, s2)
           | r \<Rightarrow> r))"
  by pat_completeness auto

termination
  by (relation "measure (\<lambda>(G, mode, cs, path, tried, s). length (filter (\<lambda>c. c \<noteq> path \<and> c \<notin> set tried) cs))")
    (auto intro: untried_decreases [simplified])

declare bind_path.simps [simp del]

definition bind_native ::
  "host \<Rightarrow> 'b engine \<Rightarrow> ('b, 'a) native_state \<Rightarrow> (load_error + 'b option) \<times> ('b, 'a) native_state" where
  "bind_native H G s =
     (let s0 = s\<lparr>bufferAbiMode := None\<rparr>; mode = resolveFfiMode H in
      if \<not> is_bun G then (if mode = FfiMode then Inl FfiNotBun else Inr None, s0)
      else if mode = NapiMode then (Inr None, s0)
      else
        (case getAddonPath H s0 of
           (Inl e, s1) \<Rightarrow> (Inl e, s1)
         | (Inr path, s1) \<Rightarrow>
             (case bind_attempt G path s1 of
                (Inr bindings, s2) \<Rightarrow> (Inr (Some bindings), s2)
              | (Inl msg, s2) \<Rightarrow>
                  (case getAddonPathCandidates H s2 of
                     (Inl e, s3) \<Rightarrow> (Inl e, s3)
                   | (Inr cs, s3) \<Rightarrow>
                       (case try_each (\<lambda>next. bind_path G mode cs next [path]) (filter (\<lambda>next. next \<noteq> path) cs) s3 of
                          (Inr None, s4) \<Rightarrow> (if mode = FfiMode then Inl (FfiBindFailed msg [path]) else Inr None, s4)
                        | r \<Rightarrow> r)))))"

definition getBunFFI ::
  "host \<Rightarrow> 'b engine \<Rightarrow> ('b, 'a) native_state \<Rightarrow> (load_error + 'b option) \<times> ('b, 'a) native_state" where
  "getBunFFI H G s =
     (case cached_ffi s of
        Some r \<Rightarrow> (Inr r, s)
      | None \<Rightarrow>
          (case bind_native H G s of
             (Inl e, s1) \<Rightarrow> (Inl e, s1)
           | (Inr r, s1) \<Rightarrow> (Inr r, s1\<lparr>cached_ffi := Some r\<rparr>)))"

definition ffiBufferMode ::
  "host \<Rightarrow> 'b engine \<Rightarrow> ('b, 'a) native_state \<Rightarrow> (load_error + buffer_abi option) \<times> ('b, 'a) native_state" where
  "ffiBufferMode H G s =
     (case getBunFFI H G s of (Inl e, s1) \<Rightarrow> (Inl e, s1) | (Inr _, s1) \<Rightarrow> (Inr (bufferAbiMode s1), s1))"

definition ffiAddonPath ::
  "host \<Rightarrow> 'b engine \<Rightarrow> ('b, 'a) native_state \<Rightarrow> (load_error + jsstring option) \<times> ('b, 'a) native_state" where
  "ffiAddonPath H G s =
     (case getBunFFI H G s of (Inl e, s1) \<Rightarrow> (Inl e, s1) | (Inr _, s1) \<Rightarrow> (Inr (boundAddonPath s1), s1))"

section \<open>The transport\<close>

record ('f, 'b) transport =
  cachedFfi :: "'b option option"
  t_cache :: "(jsstring, 'f) jsmap"

definition createTransport :: "('f, 'b) transport" where
  "createTransport = \<lparr>cachedFfi = None, t_cache = []\<rparr>"

definition getFfi ::
  "host \<Rightarrow> 'b engine \<Rightarrow> ('f, 'b) transport \<Rightarrow> ('b, 'a) native_state \<Rightarrow>
   (load_error + 'b option) \<times> ('f, 'b) transport \<times> ('b, 'a) native_state" where
  "getFfi H G t s =
     (case cachedFfi t of
        Some r \<Rightarrow> (Inr r, t, s)
      | None \<Rightarrow>
          (case getBunFFI H G s of
             (Inl e, s1) \<Rightarrow> (Inl e, t, s1)
           | (Inr r, s1) \<Rightarrow> (Inr r, t\<lparr>cachedFfi := Some r\<rparr>, s1)))"

text \<open>An operation of a surface, when it is a function there; the addon is loaded only when it is asked.\<close>

definition resolve_op ::
  "host \<Rightarrow> 'b engine \<Rightarrow> (jsstring \<Rightarrow> jsstring + 'a) \<Rightarrow> ('b \<Rightarrow> jsstring \<Rightarrow> 'f option) \<Rightarrow> ('a \<Rightarrow> jsstring \<Rightarrow> 'f option) \<Rightarrow>
   jsstring \<Rightarrow> ('f, 'b) transport \<Rightarrow> ('b, 'a) native_state \<Rightarrow>
   (load_error + 'f option) \<times> ('f, 'b) transport \<times> ('b, 'a) native_state" where
  "resolve_op H G require ffi_fn addon_fn name t s =
     (case map_of (t_cache t) name of
        Some f \<Rightarrow> (Inr (Some f), t, s)
      | None \<Rightarrow>
          (case getFfi H G t s of
             (Inl e, t1, s1) \<Rightarrow> (Inl e, t1, s1)
           | (Inr surface, t1, s1) \<Rightarrow>
               (case Option.bind surface (\<lambda>b. ffi_fn b name) of
                  Some f \<Rightarrow> (Inr (Some f), t1\<lparr>t_cache := AList.update name f (t_cache t1)\<rparr>, s1)
                | None \<Rightarrow>
                    (case getAddon H require s1 of
                       (Inl e, s2) \<Rightarrow> (Inl e, t1, s2)
                     | (Inr a, s2) \<Rightarrow>
                         (case addon_fn a name of
                            None \<Rightarrow> (Inr None, t1, s2)
                          | Some f \<Rightarrow> (Inr (Some f), t1\<lparr>t_cache := AList.update name f (t_cache t1)\<rparr>, s2))))))"

section \<open>Candidates\<close>

lemma existing_once_head:
  "find (\<lambda>c. c \<notin> set seen \<and> existsSync H c) cs = (case existing_once H seen cs of [] \<Rightarrow> None | c # _ \<Rightarrow> Some c)"
  by (induction cs) simp_all

lemma first_existing: "existing_once H [] cs = p # ps \<Longrightarrow> find (existsSync H) cs = Some p"
  using existing_once_head [where seen = "[]" and H = H and cs = cs] by simp

lemma existing_once_set: "set (existing_once H seen cs) = {c \<in> set cs. existsSync H c} - set seen"
  by (induction cs arbitrary: seen) auto

lemma existing_once_distinct: "distinct (existing_once H seen cs)"
  by (induction cs arbitrary: seen) (auto simp: existing_once_set)

text \<open>
  An override that is set is never masked: the resolved path is an existing candidate of the
  override, or resolution fails; without one the resolved path is the first existing candidate.
\<close>

theorem override_never_masked:
  assumes "resolveAddonPathFrom H (Some dir) baseDir platform arch cpuinfo = Inr p" "dir \<noteq> []"
  shows "p \<in> set (override_candidates H (addon_names H platform arch cpuinfo) dir) \<and> existsSync H p"
proof -
  let ?o = "override_candidates H (addon_names H platform arch cpuinfo) dir"
  let ?r = "root_candidates H (addon_names H platform arch cpuinfo) baseDir"
  have ex: "list_ex (existsSync H) ?o" and f: "find (existsSync H) (?o @ ?r) = Some p"
    using assms by (auto simp: resolveAddonPathFrom_def addonCandidatesFrom_def Let_def split: if_splits option.splits)
  from ex have "find (existsSync H) (xs @ ys) = find (existsSync H) xs" if "list_ex (existsSync H) xs" for xs ys
    using that by (induction xs) auto
  with ex f have "find (existsSync H) ?o = Some p" by simp
  then show ?thesis by (auto simp: find_Some_iff)
qed

section \<open>The walk\<close>

definition works :: "'b engine \<Rightarrow> jsstring \<Rightarrow> bool" where
  "works G p \<longleftrightarrow> (case dlopen_build G p (probeBufferLength G p) of Inl _ \<Rightarrow> False | Inr b \<Rightarrow> selfTest G b)"

definition bindings_of :: "'b engine \<Rightarrow> jsstring \<Rightarrow> 'b" where
  "bindings_of G p = projr (dlopen_build G p (probeBufferLength G p))"

definition abi_of :: "'b engine \<Rightarrow> jsstring \<Rightarrow> buffer_abi" where
  "abi_of G p = (if probeBufferLength G p then BufferPair else PtrLen)"

lemma attempt_works:
  "works G p \<Longrightarrow> bind_attempt G p s = (Inr (bindings_of G p),
     s\<lparr>bufferAbiMode := Some (abi_of G p), dlopen_log := dlopen_log s @ [p], boundAddonPath := Some p\<rparr>)"
  by (cases "dlopen_build G p (probeBufferLength G p)") (simp_all add: bind_attempt_def works_def bindings_of_def abi_of_def Let_def)

lemma attempt_fails:
  "\<not> works G p \<Longrightarrow> \<exists>msg. bind_attempt G p s = (Inl msg, s\<lparr>bufferAbiMode := None, dlopen_log := dlopen_log s @ [p]\<rparr>)"
  by (cases "dlopen_build G p (probeBufferLength G p)") (simp_all add: bind_attempt_def works_def Let_def)

definition untried :: "jsstring list \<Rightarrow> jsstring \<Rightarrow> jsstring list \<Rightarrow> jsstring list" where
  "untried cs path tried = filter (\<lambda>c. c \<noteq> path \<and> c \<notin> set tried) cs"

lemma untried_next: "untried cs next (tried @ [path]) = filter (\<lambda>c. c \<noteq> next) (untried cs path tried)"
  by (auto simp: untried_def filter_filter intro: filter_cong)

text \<open>What one bind and what a failed one leave behind.\<close>

definition bound_to ::
  "'b engine \<Rightarrow> jsstring \<Rightarrow> (load_error + 'b option) \<times> ('b, 'a) native_state \<Rightarrow> bool" where
  "bound_to G q r \<longleftrightarrow>
     fst r = Inr (Some (bindings_of G q)) \<and> bufferAbiMode (snd r) = Some (abi_of G q) \<and> boundAddonPath (snd r) = Some q"

definition not_bound ::
  "ffi_mode \<Rightarrow> ('b, 'a) native_state \<Rightarrow> (load_error + 'b option) \<times> ('b, 'a) native_state \<Rightarrow> bool" where
  "not_bound mode s r \<longleftrightarrow>
     (if mode = FfiMode then \<exists>msg ps. fst r = Inl (FfiBindFailed msg ps) else fst r = Inr None) \<and>
     bufferAbiMode (snd r) = None \<and> boundAddonPath (snd r) = boundAddonPath s"

lemma try_each_first:
  assumes "\<And>s. bound_to G q (f p s)"
  shows "bound_to G q (try_each f (p # ps) s)"
  using assms [of s] by (auto simp: bound_to_def split: prod.splits)

lemma try_each_none:
  assumes "\<And>p s. p \<in> set ps \<Longrightarrow> fst (f p s) = Inr None \<and> bufferAbiMode (snd (f p s)) = None \<and> boundAddonPath (snd (f p s)) = boundAddonPath s"
    and "bufferAbiMode s = None"
  shows "fst (try_each f ps s) = Inr None \<and> bufferAbiMode (snd (try_each f ps s)) = None
    \<and> boundAddonPath (snd (try_each f ps s)) = boundAddonPath s"
  using assms
proof (induction ps arbitrary: s)
  case (Cons p ps)
  then show ?case using Cons.prems(1) [of p s] Cons.IH [of "snd (f p s)"] by (auto simp: split_beta)
qed simp

lemma find_head: "find P (p # filter (\<lambda>c. c \<noteq> p) (p # ps)) = find P (p # ps)"
proof -
  have "\<not> P p \<Longrightarrow> find P (filter (\<lambda>c. c \<noteq> p) ps) = find P ps"
    by (induction ps) auto
  then show ?thesis by simp
qed

lemma find_none_filter: "find P cs = None \<Longrightarrow> p \<in> set cs \<Longrightarrow> find P (p # filter Q cs) = None"
  by (auto simp: find_None_iff)

text \<open>The end of the \<open>catch\<close> block, after the walk.\<close>

definition settle ::
  "ffi_mode \<Rightarrow> load_error \<Rightarrow> (load_error + 'b option) \<times> ('b, 'a) native_state \<Rightarrow> (load_error + 'b option) \<times> ('b, 'a) native_state" where
  "settle mode e r = (case r of (Inr None, s2) \<Rightarrow> (if mode = FfiMode then Inl e else Inr None, s2) | r' \<Rightarrow> r')"

lemma settle_bound: "bound_to G q r \<Longrightarrow> bound_to G q (settle mode e r)"
  by (cases r) (auto simp: settle_def bound_to_def)

lemma settle_snd: "snd (settle mode e r) = snd r"
  by (cases r) (auto simp: settle_def split: sum.split option.split)

lemma settle_not_bound:
  assumes "not_bound mode s r \<or> fst r = Inr None \<and> bufferAbiMode (snd r) = None \<and> boundAddonPath (snd r) = boundAddonPath s"
  shows "not_bound mode s (settle mode (FfiBindFailed msg ps) r)"
  using assms by (cases r) (auto simp: settle_def not_bound_def)

lemma bind_path_settle:
  assumes "bind_attempt G path (s\<lparr>bufferAbiMode := None\<rparr>) = (Inl msg, s1)"
  shows "bind_path G mode cs path tried s =
    settle mode (FfiBindFailed msg (tried @ [path])) (try_each (\<lambda>next. bind_path G mode cs next (tried @ [path])) (untried cs path tried) s1)"
  by (subst bind_path.simps) (simp add: assms untried_def settle_def)

text \<open>
  The walk from a set of candidates whose own walks behave: the first working candidate is found, or
  none is.
\<close>

lemma walk_result:
  fixes f :: "jsstring \<Rightarrow> ('b, 'a) native_state \<Rightarrow> (load_error + 'b option) \<times> ('b, 'a) native_state"
  assumes sub: "\<And>p t. p \<in> set u \<Longrightarrow> (case find (works G) (p # filter (\<lambda>c. c \<noteq> p) u) of
      Some q \<Rightarrow> bound_to G q (f p t) | None \<Rightarrow> not_bound mode t (f p t))"
    and abi: "bufferAbiMode s1 = None"
  shows "(case find (works G) u of
      Some q \<Rightarrow> bound_to G q (settle mode (FfiBindFailed msg ps) (try_each f u s1))
    | None \<Rightarrow> not_bound mode s1 (settle mode (FfiBindFailed msg ps) (try_each f u s1)))"
proof (cases u)
  case Nil
  then show ?thesis using abi by (simp add: settle_not_bound)
next
  case (Cons n us)
  show ?thesis
  proof (cases "find (works G) u")
    case (Some q)
    then have "find (works G) (n # filter (\<lambda>c. c \<noteq> n) u) = Some q" by (simp only: Cons find_head)
    with sub [of n] Cons have "bound_to G q (f n t)" for t by simp
    then have "bound_to G q (try_each f u s1)" unfolding Cons by (rule try_each_first)
    then show ?thesis using Some by (simp add: settle_bound)
  next
    case None
    have nb: "not_bound mode t (f p t)" if "p \<in> set u" for p t
      using sub [OF that] find_none_filter [OF None that] by simp
    have "not_bound mode s1 (try_each f u s1)" if "mode = FfiMode"
      using nb [of n s1] Cons that by (auto simp: not_bound_def split: prod.splits)
    moreover have "fst (try_each f u s1) = Inr None \<and> bufferAbiMode (snd (try_each f u s1)) = None
        \<and> boundAddonPath (snd (try_each f u s1)) = boundAddonPath s1" if "mode \<noteq> FfiMode"
      using nb that abi by (intro try_each_none) (simp_all add: not_bound_def)
    ultimately show ?thesis using None by (cases "mode = FfiMode") (simp_all add: settle_not_bound)
  qed
qed

lemma bind_path_result:
  fixes s :: "('b, 'a) native_state"
  shows "(case find (works G) (path # untried cs path tried) of
      Some q \<Rightarrow> bound_to G q (bind_path G mode cs path tried s)
    | None \<Rightarrow> not_bound mode s (bind_path G mode cs path tried s))"
proof (induction G mode cs path tried s rule: bind_path.induct)
  case (1 G mode cs path tried s)
  let ?s = "s\<lparr>bufferAbiMode := None\<rparr>"
  let ?u = "untried cs path tried"
  let ?f = "\<lambda>next t :: ('b, 'a) native_state. bind_path G mode cs next (tried @ [path]) t"
  show ?case
  proof (cases "works G path")
    case True
    then show ?thesis by (simp add: bind_path.simps [of G mode cs path] attempt_works bound_to_def)
  next
    case False
    then obtain msg where at: "bind_attempt G path ?s = (Inl msg, ?s\<lparr>dlopen_log := dlopen_log s @ [path]\<rparr>)"
      using attempt_fails [OF False, of ?s] by auto
    let ?s1 = "?s\<lparr>dlopen_log := dlopen_log s @ [path]\<rparr>"
    have IH: "case find (works G) (p # filter (\<lambda>c. c \<noteq> p) ?u) of
        Some q \<Rightarrow> bound_to G q (?f p t) | None \<Rightarrow> not_bound mode t (?f p t)" if "p \<in> set ?u" for p and t :: "('b, 'a) native_state"
      using 1 [OF at [symmetric] refl, of p t] that unfolding untried_next by (simp only: untried_def)
    have "case find (works G) ?u of
        Some q \<Rightarrow> bound_to G q (settle mode (FfiBindFailed msg (tried @ [path])) (try_each ?f ?u ?s1))
      | None \<Rightarrow> not_bound mode ?s1 (settle mode (FfiBindFailed msg (tried @ [path])) (try_each ?f ?u ?s1))"
      by (rule walk_result [OF IH]) simp_all
    moreover have "not_bound mode ?s1 r = not_bound mode s r" for r by (simp add: not_bound_def)
    moreover have "find (works G) (path # ?u) = find (works G) ?u" using False by simp
    ultimately show ?thesis by (simp only: bind_path_settle [OF at])
  qed
qed

lemma length_filter_other: "distinct l \<Longrightarrow> p \<in> set l \<Longrightarrow> length (filter (\<lambda>c. c \<noteq> p) l) = length l - 1"
proof (induction l)
  case (Cons a l)
  show ?case
  proof (cases "a = p")
    case True
    with Cons.prems have "filter (\<lambda>c. c \<noteq> p) l = l" by (auto simp: filter_id_conv)
    with True show ?thesis by simp
  next
    case False
    with Cons show ?thesis by (cases l) auto
  qed
qed simp

section \<open>Counting the attempts\<close>

text \<open>The opened paths when nothing works, with \<open>n\<close> other candidates left to try.\<close>

fun walk_cost :: "nat \<Rightarrow> nat" where
  "walk_cost 0 = 1"
| "walk_cost (Suc n) = 1 + Suc n * walk_cost n"

lemma walk_cost_fact: "fact n \<le> walk_cost n"
proof (induction n)
  case (Suc n)
  then have "Suc n * fact n \<le> Suc n * walk_cost n" by (rule mult_le_mono2)
  then show ?case by (simp only: fact_Suc walk_cost.simps of_nat_id)
qed simp

lemma try_each_log:
  assumes "\<And>p s. p \<in> set ps \<Longrightarrow> fst (f p s) = Inr None \<and> length (dlopen_log (snd (f p s))) = length (dlopen_log s) + k"
  shows "length (dlopen_log (snd (try_each f ps s))) = length (dlopen_log s) + length ps * k"
  using assms
proof (induction ps arbitrary: s)
  case (Cons p ps)
  then show ?case using Cons.prems [of p s] Cons.IH [of "snd (f p s)"] by (auto simp: split_beta)
qed simp

lemma bind_path_log:
  fixes s :: "('b, 'a) native_state"
  shows "\<lbrakk>distinct cs; mode \<noteq> FfiMode; \<forall>c \<in> set (path # untried cs path tried). \<not> works G c\<rbrakk> \<Longrightarrow>
    length (dlopen_log (snd (bind_path G mode cs path tried s))) = length (dlopen_log s) + walk_cost (length (untried cs path tried))"
proof (induction G mode cs path tried s rule: bind_path.induct)
  case (1 G mode cs path tried s)
  let ?s = "s\<lparr>bufferAbiMode := None\<rparr>"
  let ?u = "untried cs path tried"
  let ?f = "\<lambda>next t :: ('b, 'a) native_state. bind_path G mode cs next (tried @ [path]) t"
  obtain msg where at: "bind_attempt G path ?s = (Inl msg, ?s\<lparr>dlopen_log := dlopen_log s @ [path]\<rparr>)"
    using attempt_fails [of G path ?s] "1.prems" by auto
  let ?s1 = "?s\<lparr>dlopen_log := dlopen_log s @ [path]\<rparr>"
  have d: "distinct ?u" using "1.prems"(1) by (simp add: untried_def)
  have sub: "fst (?f p t) = Inr None \<and> length (dlopen_log (snd (?f p t))) = length (dlopen_log t) + walk_cost (length ?u - 1)"
    if p: "p \<in> set ?u" for p t
  proof -
    have none: "\<forall>c \<in> set (p # untried cs p (tried @ [path])). \<not> works G c"
      using "1.prems"(3) p by (auto simp: untried_next)
    have len: "length (untried cs p (tried @ [path])) = length ?u - 1"
      using d p by (simp add: untried_next length_filter_other)
    have "length (dlopen_log (snd (?f p t))) = length (dlopen_log t) + walk_cost (length ?u - 1)"
      using "1.IH" [OF at [symmetric] refl, of p t] p "1.prems"(1,2) none len by (simp add: untried_def)
    moreover have "find (works G) (p # untried cs p (tried @ [path])) = None"
      using none by (auto simp: find_None_iff)
    ultimately show ?thesis
      using bind_path_result [where G = G and mode = mode and cs = cs and path = p and tried = "tried @ [path]" and s = t] "1.prems"(2)
      by (simp add: not_bound_def)
  qed
  have log: "length (dlopen_log (snd (try_each ?f ?u ?s1))) = length (dlopen_log ?s1) + length ?u * walk_cost (length ?u - 1)"
    by (rule try_each_log) (rule sub)
  have "snd (bind_path G mode cs path tried s) = snd (try_each ?f ?u ?s1)"
    by (simp add: bind_path_settle [OF at] settle_snd)
  with log show ?case by (cases "length ?u") simp_all
qed

section \<open>Binding from scratch\<close>

definition host_candidates :: "host \<Rightarrow> load_error + jsstring list" where
  "host_candidates H = addonCandidatesFrom H (library_override H) (module_dir H) (os_platform H) (os_arch H) None"

lemma path_from_scratch:
  assumes "host_candidates H = Inr cands" "existing_once H [] cands = p # ps" "cachedPath s = None"
  shows "getAddonPath H s = (Inr p, s\<lparr>cachedPath := Some p\<rparr>)"
  using assms first_existing [OF assms(2)]
  by (simp add: getAddonPath_def resolveAddonPathFrom_def host_candidates_def)

lemma candidates_from_scratch:
  assumes "host_candidates H = Inr cands" "cachedCandidates s = None"
  shows "getAddonPathCandidates H s = (Inr (existing_once H [] cands), s\<lparr>cachedCandidates := Some (existing_once H [] cands)\<rparr>)"
  using assms by (simp add: getAddonPathCandidates_def host_candidates_def Let_def)

lemma bind_native_works:
  assumes "is_bun G" "resolveFfiMode H \<noteq> NapiMode" "host_candidates H = Inr cands" "existing_once H [] cands = p # ps" "works G p"
  shows "bind_native H G unloaded =
    (Inr (Some (bindings_of G p)), unloaded\<lparr>cachedPath := Some p, bufferAbiMode := Some (abi_of G p), dlopen_log := [p], boundAddonPath := Some p\<rparr>)"
  using assms by (simp add: bind_native_def Let_def path_from_scratch attempt_works unloaded_def)

lemma bind_native_walks:
  fixes G :: "'b engine"
  assumes "is_bun G" "resolveFfiMode H \<noteq> NapiMode" "host_candidates H = Inr cands" "existing_once H [] cands = p # ps" "\<not> works G p"
  obtains msg where "bind_native H G (unloaded :: ('b, 'a) native_state) =
    settle (resolveFfiMode H) (FfiBindFailed msg [p])
      (try_each (\<lambda>next. bind_path G (resolveFfiMode H) (p # ps) next [p]) (filter (\<lambda>c. c \<noteq> p) ps)
        ((unloaded :: ('b, 'a) native_state)\<lparr>cachedPath := Some p, cachedCandidates := Some (p # ps), dlopen_log := [p]\<rparr>))"
proof -
  let ?U = "unloaded :: ('b, 'a) native_state"
  obtain msg where at: "bind_attempt G p (?U\<lparr>bufferAbiMode := None, cachedPath := Some p\<rparr>)
      = (Inl msg, ?U\<lparr>cachedPath := Some p, dlopen_log := [p]\<rparr>)"
    using attempt_fails [OF assms(5), of "?U\<lparr>bufferAbiMode := None, cachedPath := Some p\<rparr>"] by (auto simp: unloaded_def)
  have cs: "getAddonPathCandidates H (?U\<lparr>cachedPath := Some p, dlopen_log := [p]\<rparr>)
      = (Inr (p # ps), ?U\<lparr>cachedPath := Some p, cachedCandidates := Some (p # ps), dlopen_log := [p]\<rparr>)"
    using candidates_from_scratch [OF assms(3), of "?U\<lparr>cachedPath := Some p, dlopen_log := [p]\<rparr>"] assms(4)
    by (simp add: unloaded_def)
  have pa: "getAddonPath H (?U\<lparr>bufferAbiMode := None\<rparr>) = (Inr p, ?U\<lparr>bufferAbiMode := None, cachedPath := Some p\<rparr>)"
    using path_from_scratch [OF assms(3,4), of "?U\<lparr>bufferAbiMode := None\<rparr>"] by (simp add: unloaded_def)
  show thesis
    using assms(1,2) by (intro that [of msg]) (simp add: bind_native_def Let_def pa at cs settle_def)
qed

lemma getBunFFI_fresh:
  assumes "cached_ffi s = None"
  shows "bound_to G q (getBunFFI H G s) = bound_to G q (bind_native H G s)"
    "not_bound mode t (getBunFFI H G s) = not_bound mode t (bind_native H G s)"
    "dlopen_log (snd (getBunFFI H G s)) = dlopen_log (snd (bind_native H G s))"
  using assms by (auto simp: getBunFFI_def bound_to_def not_bound_def split: prod.split sum.split)

lemma getBunFFI_again:
  assumes "cached_ffi s = None" "bound_to G q (bind_native H G s)"
  shows "getBunFFI H G (snd (getBunFFI H G s)) = (Inr (Some (bindings_of G q)), snd (getBunFFI H G s))"
  using assms by (cases "bind_native H G s") (auto simp: getBunFFI_def bound_to_def)

lemma bind_unloaded:
  fixes H :: host and G :: "'b engine"
  assumes "is_bun G" "resolveFfiMode H \<noteq> NapiMode" "host_candidates H = Inr cands" "existing_once H [] cands \<noteq> []"
  shows "(case find (works G) (existing_once H [] cands) of
      Some q \<Rightarrow> bound_to G q (getBunFFI H G (unloaded :: ('b, 'a) native_state)) \<and>
        getBunFFI H G (snd (getBunFFI H G (unloaded :: ('b, 'a) native_state)))
          = (Inr (Some (bindings_of G q)), snd (getBunFFI H G unloaded))
    | None \<Rightarrow> not_bound (resolveFfiMode H) unloaded (getBunFFI H G (unloaded :: ('b, 'a) native_state)))"
proof -
  obtain p ps where ex: "existing_once H [] cands = p # ps" using assms(4) by (cases "existing_once H [] cands") auto
  let ?r = "bind_native H G (unloaded :: ('b, 'a) native_state)"
  have "(case find (works G) (p # ps) of Some q \<Rightarrow> bound_to G q ?r | None \<Rightarrow> not_bound (resolveFfiMode H) unloaded ?r)"
  proof (cases "works G p")
    case True
    then show ?thesis by (simp add: bind_native_works [OF assms(1-3) ex True] bound_to_def)
  next
    case False
    let ?u = "filter (\<lambda>c. c \<noteq> p) ps"
    have u: "untried (p # ps) n [p] = filter (\<lambda>c. c \<noteq> n) ?u" for n
      by (auto simp: untried_def filter_filter intro: filter_cong)
    obtain msg where r: "?r = settle (resolveFfiMode H) (FfiBindFailed msg [p])
        (try_each (\<lambda>next. bind_path G (resolveFfiMode H) (p # ps) next [p]) ?u
          (unloaded\<lparr>cachedPath := Some p, cachedCandidates := Some (p # ps), dlopen_log := [p]\<rparr>))" (is "_ = settle _ _ (try_each ?f _ ?s1)")
      using bind_native_walks [OF assms(1-3) ex False] .
    have sub: "case find (works G) (n # filter (\<lambda>c. c \<noteq> n) ?u) of Some q \<Rightarrow> bound_to G q (?f n t)
        | None \<Rightarrow> not_bound (resolveFfiMode H) t (?f n t)" for n t
      using bind_path_result [where G = G and mode = "resolveFfiMode H" and cs = "p # ps" and path = n and tried = "[p]" and s = t]
      by (simp only: u)
    have "case find (works G) ?u of Some q \<Rightarrow> bound_to G q ?r | None \<Rightarrow> not_bound (resolveFfiMode H) ?s1 ?r"
      unfolding r by (rule walk_result) (use sub in \<open>simp_all add: unloaded_def\<close>)
    moreover have "not_bound (resolveFfiMode H) ?s1 x = not_bound (resolveFfiMode H) unloaded x" for x
      by (simp add: not_bound_def)
    moreover have "find (works G) ?u = find (works G) (p # ps)"
      using find_head [of "works G" p ps] False by simp
    ultimately show ?thesis by (simp only:)
  qed
  moreover have "cached_ffi (unloaded :: ('b, 'a) native_state) = None" by (simp add: unloaded_def)
  ultimately show ?thesis unfolding ex
    by (cases "find (works G) (p # ps)"; simp only: option.case) (simp_all add: getBunFFI_fresh getBunFFI_again)
qed

text \<open>
  C27. On Bun the first use binds the first existing candidate, in order of preference, that opens,
  binds and passes its self test, records its path and buffer mode, and a later use returns the same
  bindings without opening anything; if no candidate works, the automatic mode reports no transport
  and the forced mode an error, and neither leaves a path or a mode behind.
\<close>

theorem bind_first_working:
  fixes H :: host and G :: "'b engine"
  assumes "is_bun G" "resolveFfiMode H \<noteq> NapiMode" "host_candidates H = Inr cands" "existing_once H [] cands \<noteq> []"
  shows "(case find (works G) (existing_once H [] cands) of
      Some q \<Rightarrow> bound_to G q (getBunFFI H G (unloaded :: ('b, 'a) native_state)) \<and>
        getBunFFI H G (snd (getBunFFI H G (unloaded :: ('b, 'a) native_state)))
          = (Inr (Some (bindings_of G q)), snd (getBunFFI H G unloaded))
    | None \<Rightarrow> not_bound (resolveFfiMode H) unloaded (getBunFFI H G (unloaded :: ('b, 'a) native_state)))"
  by (rule bind_unloaded [OF assms])

text \<open>
  C28. When no candidate works, the automatic mode walks every order of the remaining candidates: with
  \<open>n + 1\<close> existing files it opens libraries at least \<open>n!\<close> times before it gives up.
\<close>

theorem failed_bind_attempts:
  fixes H :: host and G :: "'b engine"
  assumes "is_bun G" "resolveFfiMode H = AutoMode" "host_candidates H = Inr cands"
    "existing_once H [] cands = p # ps" "\<forall>c \<in> set (p # ps). \<not> works G c"
  shows "length (dlopen_log (snd (getBunFFI H G (unloaded :: ('b, 'a) native_state)))) = walk_cost (length ps)
    \<and> fact (length ps) \<le> length (dlopen_log (snd (getBunFFI H G (unloaded :: ('b, 'a) native_state))))"
proof -
  let ?r = "bind_native H G (unloaded :: ('b, 'a) native_state)"
  have d: "distinct (p # ps)" using existing_once_distinct [of H "[]" cands] assms(4) by simp
  then have ps: "filter (\<lambda>c. c \<noteq> p) ps = ps" by (auto simp: filter_id_conv)
  have m: "resolveFfiMode H \<noteq> NapiMode" and w: "\<not> works G p" using assms(2,5) by simp_all
  obtain msg where r: "?r = settle (resolveFfiMode H) (FfiBindFailed msg [p])
      (try_each (\<lambda>next. bind_path G (resolveFfiMode H) (p # ps) next [p]) ps
        (unloaded\<lparr>cachedPath := Some p, cachedCandidates := Some (p # ps), dlopen_log := [p]\<rparr>))" (is "_ = settle _ _ (try_each ?f _ ?s1)")
    using bind_native_walks [OF assms(1) m assms(3,4) w] unfolding ps .
  have u: "untried (p # ps) n [p] = filter (\<lambda>c. c \<noteq> n) ps" for n
    using ps by (auto simp: untried_def filter_filter filter_id_conv intro: filter_cong)
  have sub: "fst (?f n t) = Inr None \<and> length (dlopen_log (snd (?f n t))) = length (dlopen_log t) + walk_cost (length ps - 1)"
    if n: "n \<in> set ps" for n and t :: "('b, 'a) native_state"
  proof -
    have none: "\<forall>c \<in> set (n # untried (p # ps) n [p]). \<not> works G c" using assms(5) n by (auto simp: u)
    then have "find (works G) (n # untried (p # ps) n [p]) = None" by (auto simp: find_None_iff)
    then have "fst (?f n t) = Inr None"
      using bind_path_result [where G = G and mode = "resolveFfiMode H" and cs = "p # ps" and path = n and tried = "[p]" and s = t] assms(2)
      by (simp add: not_bound_def)
    moreover have "length (filter (\<lambda>c. c \<noteq> n) ps) = length ps - 1" using d n by (simp add: length_filter_other)
    ultimately show ?thesis using bind_path_log [OF d _ none, of "resolveFfiMode H" t] assms(2) by (simp add: u)
  qed
  have "length (dlopen_log (snd ?r)) = length (dlopen_log ?s1) + length ps * walk_cost (length ps - 1)"
    unfolding r settle_snd by (rule try_each_log) (rule sub)
  then have "length (dlopen_log (snd ?r)) = walk_cost (length ps)" by (cases ps) simp_all
  moreover have "dlopen_log (snd (getBunFFI H G (unloaded :: ('b, 'a) native_state))) = dlopen_log (snd ?r)"
    by (rule getBunFFI_fresh) (simp add: unloaded_def)
  ultimately show ?thesis by (simp add: walk_cost_fact)
qed

text \<open>
  The walk does not respect an override: if its file fails to bind, the transport binds a file of the
  package, while the napi addon is still loaded from the override.
\<close>

theorem override_bypassed_by_walk:
  fixes H :: host and G :: "'b engine"
  defines "overrides \<equiv> \<lambda>dir. override_candidates H (addon_names H (os_platform H) (os_arch H) None) dir"
  assumes "is_bun G" "resolveFfiMode H \<noteq> NapiMode" "library_override H = Some dir" "dir \<noteq> []"
    "host_candidates H = Inr cands" "existing_once H [] cands = p # ps"
    "\<forall>c \<in> set (overrides dir). \<not> works G c" "find (works G) (p # ps) = Some q"
  shows "boundAddonPath (snd (getBunFFI H G (unloaded :: ('b, 'a) native_state))) = Some q \<and> q \<notin> set (overrides dir)
    \<and> fst (getAddonPath H (unloaded :: ('b, 'a) native_state)) = Inr p \<and> p \<in> set (overrides dir)"
proof -
  have "works G q" using assms(9) unfolding find_Some_iff by blast
  then have "q \<notin> set (overrides dir)" using assms(8) by blast
  moreover have "boundAddonPath (snd (getBunFFI H G (unloaded :: ('b, 'a) native_state))) = Some q"
    using bind_unloaded [where 'a = 'a, OF assms(2,3,6)] assms(7,9) by (simp add: bound_to_def del: find.simps)
  moreover have "resolveAddonPathFrom H (Some dir) (module_dir H) (os_platform H) (os_arch H) None = Inr p"
    using first_existing [OF assms(7)] assms(4,6) by (simp add: resolveAddonPathFrom_def host_candidates_def)
  then have "p \<in> set (overrides dir)" unfolding overrides_def using override_never_masked assms(5) by blast
  moreover have "cachedPath (unloaded :: ('b, 'a) native_state) = None" by (simp add: unloaded_def)
  then have "fst (getAddonPath H (unloaded :: ('b, 'a) native_state)) = Inr p"
    using path_from_scratch [OF assms(6,7)] by (simp add: path_from_scratch [OF assms(6,7)])
  ultimately show ?thesis by blast
qed

text \<open>
  An operation once resolved keeps its function for the life of the transport, whatever is resolved
  in between.
\<close>

definition resolve_run ::
  "host \<Rightarrow> 'b engine \<Rightarrow> (jsstring \<Rightarrow> jsstring + 'a) \<Rightarrow> ('b \<Rightarrow> jsstring \<Rightarrow> 'f option) \<Rightarrow> ('a \<Rightarrow> jsstring \<Rightarrow> 'f option) \<Rightarrow>
   jsstring list \<Rightarrow> ('f, 'b) transport \<times> ('b, 'a) native_state \<Rightarrow> ('f, 'b) transport \<times> ('b, 'a) native_state" where
  "resolve_run H G require ffi_fn addon_fn names st =
     fold (\<lambda>n (t, s). snd (resolve_op H G require ffi_fn addon_fn n t s)) names st"

lemma getFfi_cache: "getFfi H G t s = (r, t1, s1) \<Longrightarrow> t_cache t1 = t_cache t"
  by (auto simp: getFfi_def split: option.splits prod.splits sum.splits)

lemma resolve_keeps:
  assumes "map_of (t_cache t) name = Some f"
  shows "map_of (t_cache (fst (snd (resolve_op H G require ffi_fn addon_fn n t s)))) name = Some f"
  using assms by (auto simp: resolve_op_def update_conv' dest: getFfi_cache split: option.splits prod.splits sum.splits)

lemma resolve_caches:
  "fst (resolve_op H G require ffi_fn addon_fn n t s) = Inr (Some f) \<Longrightarrow>
   map_of (t_cache (fst (snd (resolve_op H G require ffi_fn addon_fn n t s)))) n = Some f"
  by (auto simp: resolve_op_def update_conv' split: option.splits prod.splits sum.splits)

theorem resolve_stable:
  assumes "fst (resolve_op H G require ffi_fn addon_fn name t s) = Inr (Some f)"
  shows "fst (case resolve_run H G require ffi_fn addon_fn names (snd (resolve_op H G require ffi_fn addon_fn name t s)) of
    (t', s') \<Rightarrow> resolve_op H G require ffi_fn addon_fn name t' s') = Inr (Some f)"
proof -
  have "map_of (t_cache (fst st)) name = Some f \<Longrightarrow>
      map_of (t_cache (fst (resolve_run H G require ffi_fn addon_fn names st))) name = Some f" for st
  proof (induction names arbitrary: st)
    case (Cons n names)
    let ?st = "snd (resolve_op H G require ffi_fn addon_fn n (fst st) (snd st))"
    have "map_of (t_cache (fst ?st)) name = Some f" by (rule resolve_keeps [OF Cons.prems])
    from Cons.IH [OF this] show ?case by (simp add: resolve_run_def split_beta)
  qed (simp add: resolve_run_def)
  from this [OF resolve_caches [OF assms]] show ?thesis
    by (simp add: split_beta) (simp add: resolve_op_def)
qed

section \<open>A machine with three files\<close>

definition three_files :: host where
  "three_files = \<lparr>existsSync = (\<lambda>p. p \<in> set [js ''/pcastrum.node'', js ''/p..castrum.node'', js ''/p....castrum.node'']),
     isFile = (\<lambda>_. True), join_path = concat, read_cpuinfo = None, env_var = (\<lambda>_. None), module_dir = js ''/p'',
     os_platform = js ''darwin'', os_arch = js ''arm64''\<rparr>"

definition only_opens :: "jsstring list \<Rightarrow> jsstring engine" where
  "only_opens ok = \<lparr>is_bun = True, probeBufferLength = (\<lambda>_. True),
     dlopen_build = (\<lambda>p _. if p \<in> set ok then Inr p else Inl []), selfTest = (\<lambda>_. True)\<rparr>"

lemma three_files_sel:
  "env_var three_files = (\<lambda>_. None)" "module_dir three_files = js ''/p''" "os_platform three_files = js ''darwin''"
  "os_arch three_files = js ''arm64''" "join_path three_files = concat"
  "existsSync three_files p \<longleftrightarrow> p \<in> set [js ''/pcastrum.node'', js ''/p..castrum.node'', js ''/p....castrum.node'']"
  by (simp_all add: three_files_def)

lemma js_append: "js a @ js b = js (a @ b)"
  by (simp add: js_def)

lemma three_files_candidates:
  "host_candidates three_files = Inr (root_candidates three_files [js ''castrum.darwin-arm64.node'', js ''castrum.node''] (js ''/p''))"
  "existing_once three_files [] (root_candidates three_files [js ''castrum.darwin-arm64.node'', js ''castrum.node''] (js ''/p''))
    = [js ''/pcastrum.node'', js ''/p..castrum.node'', js ''/p....castrum.node'']"
proof -
  have n: "addon_names three_files (js ''darwin'') (js ''arm64'') None = [js ''castrum.darwin-arm64.node'', js ''castrum.node'']"
    by (simp add: addon_names_def js_inject) (simp add: js_def)
  show "host_candidates three_files = Inr (root_candidates three_files [js ''castrum.darwin-arm64.node'', js ''castrum.node''] (js ''/p''))"
    by (simp add: host_candidates_def addonCandidatesFrom_def library_override_def resolveEnvVar_def three_files_sel n)
  show "existing_once three_files [] (root_candidates three_files [js ''castrum.darwin-arm64.node'', js ''castrum.node''] (js ''/p''))
    = [js ''/pcastrum.node'', js ''/p..castrum.node'', js ''/p....castrum.node'']"
    by (simp add: root_candidates_def three_files_sel js_append js_inject)
qed

lemma three_files_auto: "resolveFfiMode three_files = AutoMode"
  by (simp add: resolveFfiMode_def resolveEnvVar_def three_files_sel)

lemma only_opens_works: "works (only_opens ok) p \<longleftrightarrow> p \<in> set ok"
  by (simp add: works_def only_opens_def)

theorem bind_first_working_witness:
  "bound_to (only_opens [js ''/p..castrum.node'']) (js ''/p..castrum.node'')
     (getBunFFI three_files (only_opens [js ''/p..castrum.node'']) (unloaded :: (jsstring, unit) native_state))"
  using bind_first_working [where H = three_files and G = "only_opens [js ''/p..castrum.node'']" and 'a = unit,
      OF _ _ three_files_candidates(1), unfolded three_files_candidates(2)]
  by (simp add: three_files_auto only_opens_works js_inject) (simp add: only_opens_def)

theorem failed_bind_attempts_witness:
  "length (dlopen_log (snd (getBunFFI three_files (only_opens []) (unloaded :: (jsstring, unit) native_state)))) = 5"
  using failed_bind_attempts [where H = three_files and G = "only_opens []" and 'a = unit,
      OF _ three_files_auto three_files_candidates]
  by (simp add: only_opens_works eval_nat_numeral) (simp add: only_opens_def eval_nat_numeral)

end
