(* ===== verification/Pipeline.thy ===== *)
theory Pipeline
  imports RouteService
begin

text \<open>
  The framework adapter (\<open>src/src/integration/pipeline.ts\<close>): the ingress as a stage in front of an
  application's own handler.  \<open>preprocess\<close> reads the body, runs the pipeline and either answers or
  hands a snapshot of the decision on; \<open>handleRequest\<close> is the same stage as a \<open>fetch\<close> handler with a
  renderer.  The request's body arrives as the events of \<open>IngressBody\<close>; the renderer of the
  application and the serialiser of error bodies are parameters.
\<close>

section \<open>Stage\<close>

record pipeline_opts =
  pp_maxBodyBytes :: "nat option"
  pp_bodyTimeoutMs :: "nat option"
  pp_readBody :: "bool option"

definition pipe_max :: "pipeline_opts \<Rightarrow> nat" where
  "pipe_max o1 = (case pp_maxBodyBytes o1 of Some n \<Rightarrow> n | None \<Rightarrow> DEFAULT_MAX_BODY_BYTES)"

definition pipe_timeout :: "pipeline_opts \<Rightarrow> nat" where
  "pipe_timeout o1 = (case pp_bodyTimeoutMs o1 of Some n \<Rightarrow> n | None \<Rightarrow> DEFAULT_BODY_TIMEOUT_MS)"

record PipelineResult =
  pr_ok :: bool
  pr_status :: nat
  pr_errorCode :: nat
  pr_terminal :: bool
  pr_rateLimited :: bool
  pr_bodyValidJson :: bool
  pr_schemaValid :: bool
  pr_bodyTruncated :: bool
  pr_requestId :: jsstring
  pr_body :: bytes
  pr_metadataJson :: bytes

definition pipelineSnapshot :: "ingress_result \<Rightarrow> jsstring \<Rightarrow> PipelineResult" where
  "pipelineSnapshot result requestId =
     \<lparr>pr_ok = ok result, pr_status = status result, pr_errorCode = errorCode result, pr_terminal = terminal result,
      pr_rateLimited = rateLimited result, pr_bodyValidJson = bodyValidJson result, pr_schemaValid = schemaValid result,
      pr_bodyTruncated = bodyTruncated result, pr_requestId = requestId, pr_body = req_body result,
      pr_metadataJson = bodyJson_baked True result\<rparr>"

record PipelineContext =
  pc_requestId :: jsstring
  pc_ip :: "jsstring option"

record PreprocessOutcome =
  po_terminal :: bool
  po_response :: "reply option"
  po_result :: "PipelineResult option"
  po_ctx :: PipelineContext

definition bodyErrorResponse ::
  "(string \<Rightarrow> string \<Rightarrow> jsstring) \<Rightarrow> response_builders \<Rightarrow> http_request \<Rightarrow> jsstring \<Rightarrow> read_error \<Rightarrow> origin_cache \<Rightarrow> http_response \<times> origin_cache" where
  "bodyErrorResponse stringify rb req requestId err cache =
     (let ctx = \<lparr>cx_requestIdHeader = Some requestId, cx_origin = hr_headers req ''origin''\<rparr> in
      if err = BodyTooLarge
      then errorResponse stringify rb None 413 ''body_too_large'' ''Request body is too large'' ctx cache
      else if err = RequestTimeout
      then errorResponse stringify rb None 408 ''request_timeout'' ''Request body read timed out'' ctx cache
      else errorResponse stringify rb None 400 ''bad_request'' ''Bad request'' ctx cache)"

definition pipe_respond :: "PipelineContext \<Rightarrow> response_builders \<Rightarrow> PreprocessOutcome callback" where
  "pipe_respond pc rb result ctx cache =
     (if terminal result
      then (let (t, cache1) = terminalResponse rb result ctx cache in
            (\<lparr>po_terminal = True, po_response = map_option Reply t, po_result = None, po_ctx = pc\<rparr>, cache1))
      else (\<lparr>po_terminal = False, po_response = None, po_result = Some (pipelineSnapshot result (pc_requestId pc)), po_ctx = pc\<rparr>, cache))"

text \<open>Without a result the body is still being read.\<close>

definition preprocess ::
  "(string \<Rightarrow> string \<Rightarrow> jsstring) \<Rightarrow> run_env \<Rightarrow> nat \<Rightarrow> pipeline_opts \<Rightarrow> route_request \<Rightarrow> jsstring option \<Rightarrow> read_event list \<Rightarrow> store
   \<Rightarrow> PreprocessOutcome result option \<times> store" where
  "preprocess stringify env i opts req ip es store =
     (let (ridBytes, ids) = generateRequestId (hd_ids (ig_handler (store i)));
          pc = \<lparr>pc_requestId = node_decodeUtf8 ridBytes, pc_ip = ip\<rparr>;
          store1 = store(i := (store i)\<lparr>ig_handler := (ig_handler (store i))\<lparr>hd_ids := ids\<rparr>\<rparr>);
          answer = (\<lambda>r s. (Some (Inr \<lparr>po_terminal = True, po_response = Some r, po_result = None, po_ctx = pc\<rparr>), s));
          proceed = (\<lambda>body. let (r, s) = ingress_run env (wr_http req) ip body (\<lambda>_. [CallReturn AValue]) (pipe_respond pc) i store1
                            in (Some r, s))
      in if pp_readBody opts \<noteq> Some False \<and> wr_hasBody req
         then (case readBodyWithLimit (wr_body req) (pipe_max opts) True (Some (pipe_timeout opts)) es of
                 None \<Rightarrow> (None, store1)
               | Some ro \<Rightarrow>
                   (case ro_result ro of
                      Inl err \<Rightarrow>
                        (if isAbortError err then answer abortResponse store1
                         else (let ig = store1 i;
                                   (r, cache1) = bodyErrorResponse stringify (ig_builders ig) (wr_http req) (pc_requestId pc) err (ig_cache ig)
                               in answer (Reply r) (store1(i := ig\<lparr>ig_cache := cache1\<rparr>))))
                    | Inr body \<Rightarrow> proceed (Some body)))
         else proceed None)"

text \<open>The renderer of the application may throw; the default one answers with the decision's status.\<close>

type_synonym renderer = "PipelineResult \<Rightarrow> PipelineContext \<Rightarrow> reply result"

definition default_render :: "(jsstring \<Rightarrow> bytes) \<Rightarrow> renderer" where
  "default_render stringifyOk result ctx =
     (if pr_status result < 200 \<or> 599 < pr_status result then Inl (RangeError ''init[status] must be in the range of 200 to 599, inclusive.'')
      else if pr_status result \<in> {204, 205, 304} then Inl (TypeError ''Response with null body status cannot have body'')
      else Inr (Reply \<lparr>hp_status = pr_status result, hp_headers = [(js ''content-type'', js ''application/json; charset=utf-8'')],
                     hp_body = Some (stringifyOk (pr_requestId result))\<rparr>))"

definition handleRequest ::
  "(string \<Rightarrow> string \<Rightarrow> jsstring) \<Rightarrow> renderer \<Rightarrow> run_env \<Rightarrow> nat \<Rightarrow> pipeline_opts \<Rightarrow> route_request \<Rightarrow> jsstring option \<Rightarrow> read_event list
   \<Rightarrow> store \<Rightarrow> reply result option \<times> store" where
  "handleRequest stringify render env i opts req ip es store =
     (case preprocess stringify env i opts req ip es store of
        (None, s) \<Rightarrow> (None, s)
      | (Some (Inl e), s) \<Rightarrow> (Some (Inl e), s)
      | (Some (Inr po), s) \<Rightarrow>
          (case (po_terminal po, po_response po) of
             (True, Some r) \<Rightarrow> (Some (Inr r), s)
           | _ \<Rightarrow> (case po_result po of
                     Some result \<Rightarrow> (Some (render result (po_ctx po)), s)
                   | None \<Rightarrow> (Some (Inl (TypeError ''null is not an object'')), s))))"

section \<open>Lemmas\<close>

lemma terminal_answered: "terminal r \<Longrightarrow> \<exists>t. fst (terminalResponse rb r ctx cache) = Some t"
  by (auto simp: terminalResponse_def Let_def split: prod.split)

lemma pipe_keeps: "keeps_cache (pipe_respond pc)"
  unfolding keeps_cache_def pipe_respond_def Let_def
  by (auto split: prod.splits) (metis cache_keeps(2) snd_conv)

lemma bodyErrorResponse_keeps: "cache_ok p c \<Longrightarrow> cache_ok p (snd (bodyErrorResponse f (buildBakedResponseBuilders p w) req rid e c))"
  using terminalHeaders_keeps [of p c w "variant_of None" "\<lparr>cx_requestIdHeader = Some rid, cx_origin = hr_headers req ''origin''\<rparr>" None]
  by (auto simp: bodyErrorResponse_def errorResponse_def Let_def split: prod.splits)

lemma bodyErrorResponse_status: "400 \<le> hp_status (fst (bodyErrorResponse f rb req rid e c))"
  by (simp add: bodyErrorResponse_def errorResponse_def Let_def split: prod.splits)

lemma preprocess_keeps:
  assumes "store_ok cf store" and "preprocess f env i opts req ip es store = (x, store')"
  shows "store_ok cf store'"
proof -
  let ?store = "\<lambda>ids. store(i := (store i)\<lparr>ig_handler := (ig_handler (store i))\<lparr>hd_ids := ids\<rparr>\<rparr>)"
  have s1: "store_ok cf (?store ids)" for ids
    using assms(1) by (auto simp: store_ok_def ingress_ok_def handler_ok_def breaker_ok_def)
  have ig: "ingress_ok (fst (cf i)) (snd (cf i)) (store i)" using assms(1) by (simp add: store_ok_def)
  have "store_ok cf ((?store ids)(i := (?store ids i)\<lparr>ig_cache := c\<rparr>))"
    if "bodyErrorResponse f (ig_builders (store i)) h rid e (ig_cache (store i)) = (r, c)" for ids h rid e r c
  proof -
    have "cache_ok (fst (cf i)) c"
      using ig bodyErrorResponse_keeps [of "fst (cf i)" "ig_cache (store i)" f "snd (cf i)" h rid e] that by (simp add: ingress_ok_def)
    then have "ingress_ok (fst (cf i)) (snd (cf i)) ((?store ids i)\<lparr>ig_cache := c\<rparr>)"
      using s1 [of ids] by (auto simp: store_ok_def ingress_ok_def dest: spec [of _ i])
    with s1 [of ids] show ?thesis by (auto simp only: store_ok_def fun_upd_apply split: if_splits)
  qed
  with s1 show ?thesis using assms(2) unfolding preprocess_def Let_def
    by (auto split: if_splits sum.splits prod.splits option.splits dest: ingress_run_keeps [OF _ pipe_keeps])
qed

text \<open>What a run of the stage hands back.\<close>

definition accepted :: "run_env \<Rightarrow> route_request \<Rightarrow> jsstring option \<Rightarrow> bytes option \<Rightarrow> handler \<Rightarrow> PreprocessOutcome \<Rightarrow> bool" where
  "accepted env req ip body st po \<longleftrightarrow>
     (\<exists>r c. run_seen env (wr_http req) ip body st = Some (r, c) \<and> \<not> terminal r \<and>
            po_result po = Some (pipelineSnapshot r (pc_requestId (po_ctx po))))"

definition refused :: "PreprocessOutcome \<Rightarrow> bool" where
  "refused po \<longleftrightarrow> (\<exists>t. po_response po = Some t \<and> po_result po = None \<and> po_terminal po \<and> (reply_status t \<in> {204, 499} \<or> 400 \<le> reply_status t))"

lemma stage_outcome:
  assumes "ingress_run env (wr_http req) ip body steps (pipe_respond pc) i store = (Inr po, store')"
  shows "po_ctx po = pc \<and> (refused po \<or> (\<not> po_terminal po \<and> po_response po = None \<and> accepted env req ip body (ig_handler (store i)) po))"
proof -
  obtain r c where seen: "run_seen env (wr_http req) ip body (ig_handler (store i)) = Some (r, c)"
    and po: "po = fst (pipe_respond pc (ig_builders (store i)) r c (ig_cache (store i)))"
    using ingress_run_Inr [OF assms] .
  show ?thesis
  proof (cases "terminal r")
    case True
    then obtain t where "fst (terminalResponse (ig_builders (store i)) r c (ig_cache (store i))) = Some t"
      using terminal_answered by blast
    with True po terminal_response_status [OF this] show ?thesis
      by (auto simp: pipe_respond_def refused_def split: prod.splits)
  next
    case False
    with seen po show ?thesis by (simp add: pipe_respond_def accepted_def)
  qed
qed

definition reads_body :: "pipeline_opts \<Rightarrow> route_request \<Rightarrow> bool" where
  "reads_body opts req \<longleftrightarrow> pp_readBody opts \<noteq> Some False \<and> wr_hasBody req"

text \<open>The body the stage passed to the pipeline, once it has been read.\<close>

definition stage_body :: "pipeline_opts \<Rightarrow> route_request \<Rightarrow> read_event list \<Rightarrow> bytes option \<Rightarrow> bool" where
  "stage_body opts req es body \<longleftrightarrow>
     (if reads_body opts req
      then \<exists>ro b. readBodyWithLimit (wr_body req) (pipe_max opts) True (Some (pipe_timeout opts)) es = Some ro \<and>
             ro_result ro = Inr b \<and> body = Some b \<and> length b \<le> pipe_max opts
      else body = None)"

lemma preprocess_outcome:
  assumes "preprocess f env i opts req ip es store = (Some (Inr po), store')"
  obtains "refused po"
  | body ids where "\<not> po_terminal po" "po_response po = None" "stage_body opts req es body"
      "accepted env req ip body ((ig_handler (store i))\<lparr>hd_ids := ids\<rparr>) po"
proof -
  obtain rb ids where g: "generateRequestId (hd_ids (ig_handler (store i))) = (rb, ids)" by fastforce
  let ?pc = "\<lparr>pc_requestId = node_decodeUtf8 rb, pc_ip = ip\<rparr>"
  let ?s1 = "store(i := (store i)\<lparr>ig_handler := (ig_handler (store i))\<lparr>hd_ids := ids\<rparr>\<rparr>)"
  let ?read = "readBodyWithLimit (wr_body req) (pipe_max opts) True (Some (pipe_timeout opts)) es"
  have stage: "refused po \<or> (\<not> po_terminal po \<and> po_response po = None \<and> accepted env req ip body ((ig_handler (store i))\<lparr>hd_ids := ids\<rparr>) po)"
    if "ingress_run env (wr_http req) ip body (\<lambda>_. [CallReturn AValue]) (pipe_respond ?pc) i ?s1 = (Inr po, store')" for body
    using stage_outcome [OF that] by simp
  note p = assms [unfolded preprocess_def Let_def g prod.case]
  show thesis
  proof (cases "reads_body opts req")
    case False
    with p have "ingress_run env (wr_http req) ip None (\<lambda>_. [CallReturn AValue]) (pipe_respond ?pc) i ?s1 = (Inr po, store')"
      by (auto simp: reads_body_def split: prod.splits if_splits)
    from stage [OF this] False that show ?thesis by (auto simp: stage_body_def)
  next
    case True
    then obtain ro where ro: "?read = Some ro" using p by (cases ?read) (auto simp: reads_body_def)
    show ?thesis
    proof (cases "ro_result ro")
      case (Inl e)
      with p True ro have "refused po"
        by (auto simp: reads_body_def refused_def abortResponse_def bodyErrorResponse_status split: if_splits prod.splits)
          (metis bodyErrorResponse_status fst_conv)
      then show ?thesis by (rule that(1))
    next
      case (Inr b)
      with p True ro have "ingress_run env (wr_http req) ip (Some b) (\<lambda>_. [CallReturn AValue]) (pipe_respond ?pc) i ?s1 = (Inr po, store')"
        by (auto simp: reads_body_def split: prod.splits)
      moreover have "stage_body opts req es (Some b)" using True ro Inr guard_respected [OF ro Inr] by (simp add: stage_body_def)
      ultimately show ?thesis using stage that by blast
    qed
  qed
qed

text \<open>
  C20. The application behind the stage sees a request only when the pipeline accepted it: the body, if
  the stage reads it, was read completely and within the limit, the native decision on exactly these
  bytes was not terminal, and the snapshot is that decision; every other request is answered by the
  stage itself, with an error, an allowed preflight or the cancelled status. The \<open>fetch\<close> handler
  renders exactly the first and never an absent result.
\<close>

theorem pipeline_passes_only_accepted:
  assumes "preprocess stringify env i opts req ip es store = (Some (Inr po), store')"
  shows "(if po_terminal po
          then \<exists>t. po_response po = Some t \<and> po_result po = None \<and> (reply_status t = 204 \<or> 400 \<le> reply_status t)
          else po_response po = None \<and>
            (\<exists>body ids. stage_body opts req es body \<and> accepted env req ip body ((ig_handler (store i))\<lparr>hd_ids := ids\<rparr>) po))
    \<and> fst (handleRequest stringify render env i opts req ip es store) =
        Some (if po_terminal po then Inr (the (po_response po)) else render (the (po_result po)) (po_ctx po))"
  using assms
proof (rule preprocess_outcome)
  assume "refused po"
  then show ?thesis using assms by (auto simp: refused_def handleRequest_def)
next
  fix body ids
  assume a: "\<not> po_terminal po" "po_response po = None" "stage_body opts req es body"
    "accepted env req ip body ((ig_handler (store i))\<lparr>hd_ids := ids\<rparr>) po"
  from a(4) obtain x where "po_result po = Some x" by (auto simp: accepted_def)
  then show ?thesis using a assms by (auto simp: handleRequest_def)
qed

definition demo_pipe :: pipeline_opts where
  "demo_pipe = \<lparr>pp_maxBodyBytes = None, pp_bodyTimeoutMs = None, pp_readBody = None\<rparr>"

lemma demo_preprocess:
  "\<exists>po store'. preprocess f (quiet_hooks good_native) 0 demo_pipe demo_request None [] demo_store = (Some (Inr po), store')
     \<and> \<not> po_terminal po"
proof -
  obtain rb ids where g: "generateRequestId (hd_ids demo_handler) = (rb, ids)" by fastforce
  let ?st = "demo_handler\<lparr>hd_ids := ids\<rparr>"
  obtain p where a: "acquire (hd_pool demo_handler) 52 = Inr (0, p)" using demo_acquires by blast
  have run: "run_seen (quiet_hooks good_native) (wr_http demo_request) None None ?st
      = Some (baked_of good_output [] 52, \<lparr>cx_requestIdHeader = None, cx_origin = None\<rparr>)"
    "fst (run (quiet_hooks good_native) (wr_http demo_request) None None (\<lambda>_ _. [CallReturn AValue]) ?st) = Inr AValue"
    using demo_run [of ?st 0 p "wr_http demo_request" None None AValue] a demo_handler_sels(3) by simp_all
  have "\<exists>s st. ingress_run (quiet_hooks good_native) (wr_http demo_request) None None (\<lambda>_. [CallReturn AValue])
      (pipe_respond pc) 0 (demo_store(0 := (demo_store 0)\<lparr>ig_handler := ?st\<rparr>)) = (Inr s, st) \<and> \<not> po_terminal s" for pc
    using run by (cases "run (quiet_hooks good_native) (wr_http demo_request) None None (\<lambda>_ _. [CallReturn AValue]) ?st")
      (simp add: ingress_run_def Let_def pipe_respond_def good_flags)
  moreover have "ig_handler (demo_store 0) = demo_handler" by (simp add: demo_store_def)
  moreover have "\<not> wr_hasBody demo_request" by (simp add: demo_request_def)
  ultimately show ?thesis by (auto simp: preprocess_def Let_def g split: prod.splits) (metis prod.inject)+
qed

theorem pipeline_passes_only_accepted_witness:
  "\<exists>po body ids. fst (preprocess (\<lambda>_ _. []) (quiet_hooks good_native) 0 demo_pipe demo_request None [] demo_store) = Some (Inr po)
     \<and> stage_body demo_pipe demo_request [] body
     \<and> accepted (quiet_hooks good_native) demo_request None body ((ig_handler (demo_store 0))\<lparr>hd_ids := ids\<rparr>) po"
proof -
  obtain po store' where p: "preprocess (\<lambda>_ _. []) (quiet_hooks good_native) 0 demo_pipe demo_request None [] demo_store = (Some (Inr po), store')"
    and "\<not> po_terminal po" using demo_preprocess by blast
  with pipeline_passes_only_accepted [OF p, of "\<lambda>_ _. Inr abortResponse"] show ?thesis by auto
qed

text \<open>
  The stage keeps every handler of the process in order, whatever the outcome.
\<close>

theorem pipeline_keeps_service:
  assumes "store_ok cf store" "preprocess stringify env i opts req ip es store = (x, store')"
  shows "store_ok cf store'"
  by (rule preprocess_keeps [OF assms])

end
