(* ===== verification/WsFrames.thy ===== *)
theory WsFrames
  imports NativeInstances HttpVerdicts
begin

unbundle bit_operations_syntax

text \<open>
  WebSocket frames through the whole stack: the codec of \<open>src/rust/payload/ws_frames.rs\<close> with its
  word-at-a-time masking, its two C exports (\<open>src/rust/ffi/payload.rs\<close>), and the scalar methods of
  \<open>src/src/rust-ffi/scalar/payload.ts\<close> over the wrappers of \<open>NativeParse\<close> and over the addon.  Integers
  wider than a byte are \<open>nat\<close>, reduced where the code can leave its width.
\<close>

section \<open>Masking\<close>

definition DEFAULT_MASK :: bytes where "DEFAULT_MASK = [0x37, 0xfa, 0x21, 0x3d]"

definition mask_word :: "bytes \<Rightarrow> nat" where
  "mask_word mask4 = (let m = le_nat mask4 in m OR push_bit 32 m)"

fun masked_tail :: "bytes \<Rightarrow> nat \<Rightarrow> bytes \<Rightarrow> bytes" where
  "masked_tail mask4 i [] = []"
| "masked_tail mask4 i (b # src) = (b XOR mask4 ! (i AND 3)) # masked_tail mask4 (i + 1) src"

function masked_by4 :: "bytes \<Rightarrow> nat \<Rightarrow> bytes \<Rightarrow> bytes" where
  "masked_by4 mask4 i src =
     (if 4 \<le> length src
      then le_bytes 4 (le_nat (take 4 src) XOR take_bit 32 (mask_word mask4)) @ masked_by4 mask4 (i + 4) (drop 4 src)
      else masked_tail mask4 i src)"
  by pat_completeness auto
termination by (relation "measure (\<lambda>(m, i, src). length src)") auto

function masked_by8 :: "bytes \<Rightarrow> nat \<Rightarrow> bytes \<Rightarrow> bytes" where
  "masked_by8 mask4 i src =
     (if 8 \<le> length src
      then le_bytes 8 (le_nat (take 8 src) XOR mask_word mask4) @ masked_by8 mask4 (i + 8) (drop 8 src)
      else masked_by4 mask4 i src)"
  by pat_completeness auto
termination by (relation "measure (\<lambda>(m, i, src). length src)") auto

declare masked_by4.simps [simp del] masked_by8.simps [simp del]

definition masked_copy :: "bytes \<Rightarrow> bytes \<Rightarrow> bytes" where
  "masked_copy mask4 src = masked_by8 mask4 0 src"

section \<open>Frames\<close>

definition header_len :: "nat \<Rightarrow> bool \<Rightarrow> nat" where
  "header_len len masked = 2 + (if 125 < len then (if 65535 < len then 8 else 2) else 0) + (if masked then 4 else 0)"

definition frame_length_bytes :: "byte \<Rightarrow> nat \<Rightarrow> bytes" where
  "frame_length_bytes mask_bit len =
     (if len \<le> 125 then [mask_bit OR of_nat len]
      else if len \<le> 65535 then (mask_bit OR 126) # rev (le_bytes 2 len)
      else (mask_bit OR 127) # rev (le_bytes 8 len))"

definition encode_frame_into :: "byte \<Rightarrow> bytes \<Rightarrow> bool \<Rightarrow> bool \<Rightarrow> bytes \<Rightarrow> (nat \<times> bytes) option" where
  "encode_frame_into opcode payload masked fin out =
     (if length out < header_len (length payload) masked + length payload then None
      else
        (let b0 = (if fin then 0x80 else 0) OR (opcode AND 0x0f);
             body = (if masked then DEFAULT_MASK @ masked_copy DEFAULT_MASK payload else payload);
             frame = b0 # frame_length_bytes (if masked then 0x80 else 0) (length payload) @ body in
         Some (length frame, frame @ drop (length frame) out)))"

record ws_frame =
  fr_fin :: bool
  fr_opcode :: byte
  fr_payload :: bytes

text \<open>The payload length with the position after it; the range end is computed in 64 bits.\<close>

definition frame_len :: "bytes \<Rightarrow> (nat \<times> nat) option" where
  "frame_len data =
     (let len = unat (data ! 1 AND 0x7f) in
      if len = 126 then (if length data < 4 then None else Some (le_nat (rev (subarray data 2 4)), 4))
      else if len = 127 then (if length data < 10 then None else Some (le_nat (rev (subarray data 2 10)), 10))
      else Some (len, 2))"

definition decode_frame :: "bytes \<Rightarrow> ws_frame option" where
  "decode_frame data =
     (if length data < 2 then None
      else
        (let fin = (data ! 0 AND 0x80 \<noteq> 0); opcode = data ! 0 AND 0x0f; masked = (data ! 1 AND 0x80 \<noteq> 0) in
         case frame_len data of
           None \<Rightarrow> None
         | Some (len, pos) \<Rightarrow>
             if masked \<and> length data < pos + 4 then None
             else
               (let mask4 = (if masked then subarray data pos (pos + 4) else [0, 0, 0, 0]);
                    start = (if masked then pos + 4 else pos);
                    stop = (start + len) mod 2 ^ 64 in
                if stop < start \<or> length data < stop then None
                else (let p = subarray data start stop in
                      Some \<lparr>fr_fin = fin, fr_opcode = opcode, fr_payload = (if masked then masked_copy mask4 p else p)\<rparr>))))"

definition castrum_ws_frame_encode :: raw_frame where
  "castrum_ws_frame_encode opcode payload masked fin out =
     (case encode_frame_into (of_nat opcode) payload (masked \<noteq> 0) (fin \<noteq> 0) out of None \<Rightarrow> (0, out) | Some r \<Rightarrow> r)"

definition packed_frame :: "ws_frame \<Rightarrow> bytes" where
  "packed_frame f = (if fr_fin f then 1 else 0) # fr_opcode f # u32_le (length (fr_payload f)) @ fr_payload f"

definition castrum_ws_frame_decode_packed :: "bytes \<Rightarrow> raw_out" where
  "castrum_ws_frame_decode_packed data out =
     (case decode_frame data of
        None \<Rightarrow> (0, out)
      | Some f \<Rightarrow>
          (let need = 6 + length (fr_payload f) in
           if length out < need then (0, out) else (need, packed_frame f @ drop need out)))"

section \<open>Scalar methods\<close>

definition wsFrameDecode :: "(bytes \<Rightarrow> raw_out) \<Rightarrow> bytes \<Rightarrow> ws_frame option" where
  "wsFrameDecode raw data =
     (case wsFrameDecodePacked raw data of
        None \<Rightarrow> None
      | Some packed \<Rightarrow>
          (let at = (\<lambda>i. if i < length packed then packed ! i else 0); payloadLen = u32LE packed 2 in
           Some \<lparr>fr_fin = (at 0 = 1), fr_opcode = at 1, fr_payload = subarray packed 6 (6 + payloadLen)\<rparr>))"

text \<open>Over the addon the decoded frame is packed again, with the length in four bytes.\<close>

definition napi_wsFrameDecodePackedInto :: "(bytes \<Rightarrow> ws_frame option) \<Rightarrow> bytes \<Rightarrow> bytes \<Rightarrow> nat option result \<times> bytes" where
  "napi_wsFrameDecodePackedInto addon data output =
     (case addon data of
        None \<Rightarrow> (Inr None, output)
      | Some f \<Rightarrow>
          (let need = 6 + length (fr_payload f); n = length (fr_payload f) in
           if length output < need then (Inl (JsError ''ws frame decode: output buffer too small''), output)
           else (Inr (Some need),
                 [if fr_fin f then 1 else 0, fr_opcode f, of_nat (n mod 256), of_nat (n div 256 mod 256),
                  of_nat (n div 65536 mod 256), of_nat (n div 16777216 mod 256)]
                 @ fr_payload f @ drop need output)))"

section \<open>Masking a word at a time\<close>

lemma low_bits: "a < 256 \<Longrightarrow> (a + 256 * n) mod 256 = a" "a < 256 \<Longrightarrow> (a + 256 * n) div 256 = (n :: nat)"
  by simp_all

lemma xor_bytewise:
  assumes "a < 256" "c < 256"
  shows "(a + 256 * n) XOR (c + 256 * m) = (a XOR c) + 256 * (n XOR m :: nat)"
proof -
  let ?x = "(a + 256 * n) XOR (c + 256 * m)"
  have "?x mod 256 = (a + 256 * n) mod 256 XOR (c + 256 * m) mod 256"
    using take_bit_xor [of 8 "a + 256 * n" "c + 256 * m"] by (simp only: take_bit_eq_mod) simp
  moreover have "?x div 256 = (a + 256 * n) div 256 XOR (c + 256 * m) div 256"
    using drop_bit_xor [of 8 "a + 256 * n" "c + 256 * m"] by (simp only: drop_bit_eq_div) simp
  ultimately have "?x mod 256 = a XOR c" "?x div 256 = n XOR m" using assms by (simp_all only: low_bits)
  then show ?thesis using mod_mult_div_eq [of ?x 256] by simp
qed

lemma le_nat_xor: "length xs = length ys \<Longrightarrow> le_nat (map2 (XOR) xs ys) = le_nat xs XOR le_nat ys"
proof (induction xs ys rule: list_induct2)
  case (Cons x xs y ys)
  then show ?case using xor_bytewise [of "unat x" "unat y" "le_nat xs" "le_nat ys"] by (simp add: unsigned_xor_eq)
qed simp

lemma index_mod4: "i AND 3 = i mod (4 :: nat)"
  using take_bit_eq_mask [of 2 i] by (simp add: mask_eq_exp_minus_1 take_bit_eq_mod)

lemma masked_tail_append: "masked_tail m i (xs @ ys) = masked_tail m i xs @ masked_tail m (i + length xs) ys"
  by (induction xs arbitrary: i) simp_all

lemma masked_tail_length [simp]: "length (masked_tail m i xs) = length xs"
  by (induction xs arbitrary: i) simp_all

lemma masked_tail_twice: "masked_tail m i (masked_tail m i xs) = xs"
  by (induction xs arbitrary: i) (simp_all add: xor.assoc)

lemma list_of_4: "length xs = 4 \<Longrightarrow> \<exists>a b c d. xs = [a, b, c, d]"
  by (auto simp: eval_nat_numeral length_Suc_conv)

lemma masked_tail_4:
  assumes "length m = 4" "length xs = 4" "i mod 4 = 0"
  shows "masked_tail m i xs = map2 (XOR) xs m"
proof -
  obtain a b c d e f g h where m: "m = [a, b, c, d]" and xs: "xs = [e, f, g, h]" using assms list_of_4 by metis
  have ix: "i AND 3 = 0" "i + 1 AND 3 = 1" "i + 1 + 1 AND 3 = 2" "i + 1 + 1 + 1 AND 3 = 3"
    unfolding index_mod4 using assms(3) by presburger+
  show ?thesis unfolding m xs masked_tail.simps ix by simp
qed

lemma masked_tail_8:
  assumes "length m = 4" "length xs = 8" "i mod 4 = 0"
  shows "masked_tail m i xs = map2 (XOR) xs (m @ m)"
proof -
  have xs: "xs = take 4 xs @ drop 4 xs" by simp
  have i4: "(i + 4) mod 4 = 0" using assms(3) by simp
  have "masked_tail m i (take 4 xs @ drop 4 xs) = map2 (XOR) (take 4 xs) m @ map2 (XOR) (drop 4 xs) m"
    using assms masked_tail_4 [OF assms(1), of "take 4 xs" i] masked_tail_4 [OF assms(1), of "drop 4 xs" "i + 4"] i4
    unfolding masked_tail_append by simp
  also have "\<dots> = map2 (XOR) (take 4 xs @ drop 4 xs) (m @ m)"
    using assms by (simp add: zip_append del: append_take_drop_id)
  finally show ?thesis by simp
qed

lemma mask_word_bytes:
  assumes "length m = 4"
  shows "mask_word m = le_nat (m @ m)" and "take_bit 32 (mask_word m) = le_nat m"
proof -
  have lt: "le_nat m < 2 ^ 32" using le_nat_bound [of m] assms by simp
  then have "take_bit 32 (le_nat m) = le_nat m" by (simp add: take_bit_nat_eq_self)
  then have "\<not> bit (le_nat m) n" if "32 \<le> n" for n using that by (metis bit_take_bit_iff not_less)
  then have "le_nat m AND push_bit 32 (le_nat m) = 0" by (auto simp: bit_eq_iff bit_simps)
  then have "mask_word m = le_nat m + push_bit 32 (le_nat m)"
    by (simp add: mask_word_def Let_def disjunctive_add_eq_or)
  then show w: "mask_word m = le_nat (m @ m)" using assms by (simp add: le_nat_append push_bit_eq_mult)
  show "take_bit 32 (mask_word m) = le_nat m" 
  proof -
    have p: "256 ^ length m = (2 :: nat) ^ 32" using assms by simp
    show ?thesis unfolding w le_nat_append p take_bit_eq_mod mod_mult_self2 using lt by (rule mod_less)
  qed
qed

lemma word_masked:
  assumes "length xs = length ys"
  shows "le_bytes (length xs) (le_nat xs XOR le_nat ys) = map2 (XOR) xs ys"
  using assms by (simp add: le_nat_xor [symmetric] le_bytes_le_nat)

lemma masked_by4_reference:
  "length m = 4 \<Longrightarrow> i mod 4 = 0 \<Longrightarrow> masked_by4 m i src = masked_tail m i src"
proof (induction m i src rule: masked_by4.induct)
  case (1 m i src)
  show ?case
  proof (cases "4 \<le> length src")
    case True
    have "masked_by4 m i src = map2 (XOR) (take 4 src) m @ masked_tail m (i + 4) (drop 4 src)"
      using 1 True word_masked [of "take 4 src" m] by (subst masked_by4.simps) (simp add: mask_word_bytes(2))
    also have "\<dots> = masked_tail m i (take 4 src @ drop 4 src)"
      using masked_tail_4 [of m "take 4 src" i] 1 True unfolding masked_tail_append by simp
    finally show ?thesis by simp
  next
    case False
    then show ?thesis by (subst masked_by4.simps) simp
  qed
qed

lemma masked_by8_reference:
  "length m = 4 \<Longrightarrow> i mod 4 = 0 \<Longrightarrow> masked_by8 m i src = masked_tail m i src"
proof (induction m i src rule: masked_by8.induct)
  case (1 m i src)
  show ?case
  proof (cases "8 \<le> length src")
    case True
    have "(i + 8) mod 4 = 0" using 1(3) by presburger
    then have "masked_by8 m i src = map2 (XOR) (take 8 src) (m @ m) @ masked_tail m (i + 8) (drop 8 src)"
      using 1 True word_masked [of "take 8 src" "m @ m"] by (subst masked_by8.simps) (simp add: mask_word_bytes(1))
    also have "\<dots> = masked_tail m i (take 8 src @ drop 8 src)"
      using masked_tail_8 [of m "take 8 src" i] 1 True unfolding masked_tail_append by simp
    finally show ?thesis by simp
  next
    case False
    then show ?thesis using 1 by (subst masked_by8.simps) (simp add: masked_by4_reference)
  qed
qed

lemma masked_copy_tail: "length m = 4 \<Longrightarrow> masked_copy m src = masked_tail m 0 src"
  by (simp add: masked_copy_def masked_by8_reference)

text \<open>
  C32. The word-at-a-time masking of the frame codec is the byte loop of the protocol: byte \<open>i\<close> is
  combined with byte \<open>i mod 4\<close> of the mask, at every length; masking twice gives the input back.
\<close>

theorem masked_copy_reference:
  assumes "length m = 4"
  shows "masked_copy m src = map (\<lambda>i. src ! i XOR m ! (i mod 4)) [0..<length src] \<and> masked_copy m (masked_copy m src) = src"
proof -
  have "masked_tail m i xs = map (\<lambda>j. xs ! j XOR m ! ((i + j) mod 4)) [0..<length xs]" for i xs
    by (induction xs arbitrary: i) (simp_all add: index_mod4 upt_conv_Cons map_Suc_upt [symmetric] del: upt_Suc)
  from this [of 0 src] have "masked_copy m src = map (\<lambda>i. src ! i XOR m ! (i mod 4)) [0..<length src]"
    using assms by (simp add: masked_copy_tail)
  moreover have "masked_copy m (masked_copy m src) = src" using assms by (simp add: masked_copy_tail masked_tail_twice)
  ultimately show ?thesis ..
qed

section \<open>A frame and its fields\<close>

definition frame_of :: "byte \<Rightarrow> bytes \<Rightarrow> bool \<Rightarrow> bool \<Rightarrow> bytes" where
  "frame_of opcode payload masked fin =
     ((if fin then 0x80 else 0) OR (opcode AND 0x0f)) # frame_length_bytes (if masked then 0x80 else 0) (length payload)
       @ (if masked then DEFAULT_MASK @ masked_copy DEFAULT_MASK payload else payload)"

lemma masked_copy_length [simp]: "length (masked_copy DEFAULT_MASK p) = length p"
  by (simp add: masked_copy_tail DEFAULT_MASK_def)

lemma frame_of_length: "length (frame_of opcode payload masked fin) = header_len (length payload) masked + length payload"
  by (simp add: frame_of_def header_len_def frame_length_bytes_def DEFAULT_MASK_def [THEN arg_cong [where f = length]])

lemma encode_frame_of:
  "encode_frame_into opcode payload masked fin out =
     (if length out < header_len (length payload) masked + length payload then None
      else Some (length (frame_of opcode payload masked fin),
                 frame_of opcode payload masked fin @ drop (length (frame_of opcode payload masked fin)) out))"
  by (simp add: encode_frame_into_def frame_of_def Let_def)

lemma first_byte:
  fixes opcode :: byte
  shows "((if fin then 0x80 else 0) OR (opcode AND 0x0f)) AND 0x80 \<noteq> 0 \<longleftrightarrow> fin"
    and "((if fin then 0x80 else 0) OR (opcode AND 0x0f)) AND 0x0f = opcode AND 0x0f"
proof -
  have "(opcode AND 0x0f) AND 0x80 = 0" by (simp add: and.assoc)
  then show "((if fin then 0x80 else 0) OR (opcode AND 0x0f)) AND 0x80 \<noteq> 0 \<longleftrightarrow> fin"
    by (simp add: bit.conj_disj_distrib2)
  show "((if fin then 0x80 else 0) OR (opcode AND 0x0f)) AND 0x0f = opcode AND 0x0f"
    by (simp add: bit.conj_disj_distrib2 and.assoc)
qed

lemma seven_bits: "unat (x :: byte) < 128 \<Longrightarrow> x AND 0x7f = x"
proof -
  assume x: "unat x < 128"
  have "unat (x AND 0x7f) = take_bit 7 (unat x)"
    by (simp add: unsigned_and_eq take_bit_eq_mask mask_eq_exp_minus_1)
  with x show ?thesis by (simp add: word_unat_eq_iff take_bit_nat_eq_self)
qed

lemma second_byte:
  assumes "unat (x :: byte) < 128"
  shows "((if masked then 0x80 else 0) OR x) AND 0x80 \<noteq> 0 \<longleftrightarrow> masked"
    and "((if masked then 0x80 else 0) OR x) AND 0x7f = x"
proof -
  note x = seven_bits [OF assms]
  have "(x AND 0x7f) AND 0x80 = 0" by (simp add: and.assoc)
  then have "x AND 0x80 = 0" by (simp only: x)
  then show "((if masked then 0x80 else 0) OR x) AND 0x80 \<noteq> 0 \<longleftrightarrow> masked"
    by (simp add: bit.conj_disj_distrib2)
  show "((if masked then 0x80 else 0) OR x) AND 0x7f = x" by (simp add: bit.conj_disj_distrib2 x)
qed

text \<open>The length bytes are read back with the position after them.\<close>

lemma frame_len_read:
  assumes "len < 2 ^ 64"
  shows "frame_len (b0 # frame_length_bytes (if masked then 0x80 else 0) len @ body) = Some (len, Suc (length (frame_length_bytes (if masked then 0x80 else 0) len)))"
    and "(b0 # frame_length_bytes (if masked then 0x80 else 0) len @ body) ! 1 AND 0x80 \<noteq> 0 \<longleftrightarrow> masked"
proof -
  let ?d = "b0 # frame_length_bytes (if masked then 0x80 else 0) len @ body"
  have small: "unat (of_nat len :: byte) = len" if "len \<le> 125" using that by (simp add: unat_of_nat_byte)
  have sub: "subarray (b0 # x # l @ body) 2 (2 + length l) = l" for x l
    using subarray_append [of 2 "[b0, x]" "2 + length l" l body] by simp
  have l2: "le_nat (le_bytes 2 len) = len" if "len \<le> 65535" using that by (simp add: le_nat_le_bytes_id)
  have l8: "le_nat (le_bytes 8 len) = len" using assms by (simp add: le_nat_le_bytes_id)
  consider "len \<le> 125" | "125 < len" "len \<le> 65535" | "65535 < len" by linarith
  then show "frame_len ?d = Some (len, Suc (length (frame_length_bytes (if masked then 0x80 else 0) len)))"
  proof cases
    case 1
    with small second_byte(2) [of "of_nat len" masked] show ?thesis
      by (simp add: frame_len_def frame_length_bytes_def Let_def)
  next
    case 2
    with l2 sub [of "(if masked then 0x80 else 0) OR 126" "rev (le_bytes 2 len)"] second_byte(2) [of 126 masked] show ?thesis
      by (simp add: frame_len_def frame_length_bytes_def Let_def)
  next
    case 3
    with l8 sub [of "(if masked then 0x80 else 0) OR 127" "rev (le_bytes 8 len)"] second_byte(2) [of 127 masked] show ?thesis
      by (simp add: frame_len_def frame_length_bytes_def Let_def)
  qed
  show "?d ! 1 AND 0x80 \<noteq> 0 \<longleftrightarrow> masked"
    using small second_byte(1) [of "of_nat len" masked] second_byte(1) [of 126 masked] second_byte(1) [of 127 masked]
    by (simp add: frame_length_bytes_def)
qed

lemma frame_len_cut:
  assumes "2 \<le> n" "n < Suc (length (frame_length_bytes (if masked then 0x80 else 0) len))"
  shows "frame_len (take n (b0 # frame_length_bytes (if masked then 0x80 else 0) len @ body)) = None"
proof -
  have long: "125 < len" using assms by (auto simp: frame_length_bytes_def split: if_splits)
  have one: "take n (b0 # frame_length_bytes (if masked then 0x80 else 0) len @ body) ! 1
      = (if masked then 0x80 else 0) OR (if len \<le> 65535 then 126 else 127)"
    using assms(1) long by (simp add: frame_length_bytes_def)
  have two: "((if masked then 0x80 else 0) OR (if len \<le> 65535 then 126 else 127)) AND 0x7f = (if len \<le> 65535 then 126 else 127 :: byte)"
    using second_byte(2) [of 126 masked] second_byte(2) [of 127 masked] by simp
  show ?thesis unfolding frame_len_def one two using assms long
    by (auto simp: frame_length_bytes_def Let_def split: if_splits)
qed

text \<open>A whole frame decodes to its fields, any part of one that ends earlier to nothing.\<close>

lemma decode_prefix:
  assumes len: "length payload < 2 ^ 63" and n: "n \<le> length (frame_of opcode payload masked fin)"
  shows "decode_frame (take n (frame_of opcode payload masked fin)) =
    (if n = length (frame_of opcode payload masked fin)
     then Some \<lparr>fr_fin = fin, fr_opcode = opcode AND 0x0f, fr_payload = payload\<rparr> else None)"
proof -
  let ?b0 = "(if fin then 0x80 else 0) OR (opcode AND 0x0f)"
  let ?lb = "frame_length_bytes (if masked then 0x80 else 0) (length payload)"
  let ?mask = "if masked then DEFAULT_MASK else []"
  let ?p = "if masked then masked_copy DEFAULT_MASK payload else payload"
  let ?f = "frame_of opcode payload masked fin"
  let ?data = "take n ?f"
  let ?start = "Suc (length ?lb) + length ?mask"
  have f: "?f = ?b0 # ?lb @ ?mask @ ?p" by (simp add: frame_of_def)
  have lp: "length ?p = length payload" by simp
  have flen: "length ?f = ?start + length payload" by (simp add: f)
  show ?thesis
  proof (cases "Suc (length ?lb) \<le> n")
    case False
    have "\<not> length ?data < 2 \<Longrightarrow> frame_len ?data = None"
      unfolding f using False by (intro frame_len_cut) auto
    moreover have "n \<noteq> length ?f" using False flen by linarith
    ultimately show ?thesis by (simp add: decode_frame_def Let_def)
  next
    case True
    have d: "?data = ?b0 # ?lb @ take (n - Suc (length ?lb)) (?mask @ ?p)" using True by (simp add: f take_Cons')
    have "1 \<le> length ?lb" by (simp add: frame_length_bytes_def)
    then have "2 \<le> n" using True by linarith
    moreover have "length ?data = n" using n by simp
    ultimately have ld: "length ?data = n" "2 \<le> n" by simp_all
    have len64: "length payload < 2 ^ 64" using len by simp
    have fl: "frame_len ?data = Some (length payload, Suc (length ?lb))" unfolding d by (rule frame_len_read(1) [OF len64])
    have mk: "?data ! 1 AND 0x80 \<noteq> 0 \<longleftrightarrow> masked" unfolding d by (rule frame_len_read(2) [OF len64])
    have b0: "?data ! 0 = ?b0" by (simp add: d)
    have ml: "length ?mask = (if masked then 4 else 0)" by (simp add: DEFAULT_MASK_def)
    have stop: "(?start + length payload) mod 2 ^ 64 = ?start + length payload"
      using len ml by (simp add: frame_length_bytes_def)
    have dec: "decode_frame ?data =
        (if masked \<and> n < Suc (length ?lb) + 4 \<or> n < ?start + length payload then None
         else Some \<lparr>fr_fin = fin, fr_opcode = opcode AND 0x0f,
                fr_payload = (if masked then masked_copy (subarray ?data (Suc (length ?lb)) (Suc (length ?lb) + 4)) (subarray ?data ?start (?start + length payload))
                              else subarray ?data ?start (?start + length payload))\<rparr>)"
      using ld ml stop unfolding decode_frame_def Let_def fl option.case prod.case b0 first_byte mk by (cases masked) simp_all
    show ?thesis
    proof (cases "n = length ?f")
      case False
      then have "n < ?start + length payload" using n flen by linarith
      with False dec show ?thesis by simp
    next
      case whole: True
      then have data: "?data = ?f" by simp
      have pay: "subarray ?f ?start (?start + length payload) = ?p"
        using subarray_append [of ?start "?b0 # ?lb @ ?mask" "?start + length payload" ?p "[]"] lp by (simp add: f)
      have md: "length DEFAULT_MASK = 4" by (simp add: DEFAULT_MASK_def)
      have "masked \<Longrightarrow> subarray ?f (Suc (length ?lb)) (Suc (length ?lb) + 4) = DEFAULT_MASK"
        unfolding f using subarray_append [of "Suc (length ?lb)" "?b0 # ?lb" "Suc (length ?lb) + 4" DEFAULT_MASK ?p] md by simp
      moreover have "masked_copy DEFAULT_MASK (masked_copy DEFAULT_MASK payload) = payload"
        by (simp add: masked_copy_tail masked_tail_twice DEFAULT_MASK_def)
      ultimately show ?thesis using whole dec pay ml flen unfolding data by (cases masked) (simp_all add: add.assoc)
    qed
  qed
qed

section \<open>Through the stack\<close>

lemma wsFrameEncode_frame:
  "wsFrameEncode junk castrum_ws_frame_encode opcode payload masked fin =
     Inr (frame_of (of_nat opcode) payload (masked = Some True) (fin = Some True))"
proof -
  have fl: "0 < flag b \<longleftrightarrow> b = Some True" for b by (simp add: flag_def)
  have "header_len (length payload) m + length payload \<le> length payload + 14" for m by (simp add: header_len_def)
  moreover have "length (frame_of oc payload m f) \<noteq> 0" for oc m f by (simp add: frame_of_def)
  ultimately show ?thesis
    by (simp add: wsFrameEncode_def castrum_ws_frame_encode_def encode_frame_of fl Let_def subarray_def not_less)
qed

lemma wsFrameDecode_frame:
  assumes "length data < 2 ^ 32"
  shows "wsFrameDecode castrum_ws_frame_decode_packed data = decode_frame data"
proof (cases "decode_frame data")
  case None
  then show ?thesis by (simp add: wsFrameDecode_def wsFrameDecodePacked_def castrum_ws_frame_decode_packed_def Let_def)
next
  case (Some f)
  have le: "length (fr_payload f) \<le> length data"
    using Some by (auto simp: decode_frame_def Let_def masked_copy_tail split: if_splits option.splits)
  let ?p = "packed_frame f"
  have pl: "length ?p = 6 + length (fr_payload f)" by (simp add: packed_frame_def)
  have packed: "wsFrameDecodePacked castrum_ws_frame_decode_packed data = Some ?p"
    using Some le pl by (simp add: wsFrameDecodePacked_def castrum_ws_frame_decode_packed_def new_buf_def Let_def subarray_def)
  have n32: "length (fr_payload f) < 2 ^ 32" using le assms by linarith
  have "u32LE ?p 2 = length (fr_payload f)"
    using u32LE_field [OF n32, of 2 "[if fr_fin f then 1 else 0, fr_opcode f]" "fr_payload f"] by (simp add: packed_frame_def)
  moreover have "subarray ?p 6 (6 + length (fr_payload f)) = fr_payload f"
    using subarray_append [of 6 "(if fr_fin f then 1 else 0) # fr_opcode f # u32_le (length (fr_payload f))" "6 + length (fr_payload f)" "fr_payload f" "[]"]
    by (simp add: packed_frame_def)
  ultimately show ?thesis using Some packed pl
    by (simp add: wsFrameDecode_def Let_def) (simp add: packed_frame_def)
qed

text \<open>
  C17. A frame survives the stack: whatever \<open>wsFrameEncode\<close> returns for a payload, masked or not, is
  decoded by \<open>wsFrameDecode\<close> to the same payload, the same final flag and the low four bits of the
  opcode, and a frame that was cut short is reported as malformed, never as a shorter payload.
\<close>

theorem ws_stack_roundtrip:
  assumes "length payload + 14 < 2 ^ 32"
  shows "\<exists>frame. wsFrameEncode junk castrum_ws_frame_encode opcode payload masked fin = Inr frame
    \<and> wsFrameDecode castrum_ws_frame_decode_packed frame
        = Some \<lparr>fr_fin = (fin = Some True), fr_opcode = of_nat opcode AND 0x0f, fr_payload = payload\<rparr>
    \<and> (\<forall>n < length frame. wsFrameDecode castrum_ws_frame_decode_packed (take n frame) = None)"
proof -
  let ?f = "frame_of (of_nat opcode) payload (masked = Some True) (fin = Some True)"
  have f32: "length ?f < 2 ^ 32" using assms by (simp add: frame_of_length header_len_def)
  have p63: "length payload < 2 ^ 63" using assms by simp
  have "decode_frame ?f = Some \<lparr>fr_fin = (fin = Some True), fr_opcode = of_nat opcode AND 0x0f, fr_payload = payload\<rparr>"
    using decode_prefix [OF p63 order_refl, of "of_nat opcode" "masked = Some True" "fin = Some True"] by simp
  moreover have "decode_frame (take n ?f) = None" if "n < length ?f" for n
    using decode_prefix [OF p63 less_imp_le [OF that]] that by simp
  moreover have "wsFrameDecode castrum_ws_frame_decode_packed (take n ?f) = decode_frame (take n ?f)" for n
    using f32 by (intro wsFrameDecode_frame) simp
  ultimately show ?thesis using wsFrameDecode_frame [OF f32] by (simp add: wsFrameEncode_frame)
qed

theorem ws_stack_roundtrip_witness:
  "wsFrameDecode castrum_ws_frame_decode_packed (frame_of 1 [72, 105] True True)
     = Some \<lparr>fr_fin = True, fr_opcode = 1, fr_payload = [72, 105]\<rparr>"
  using ws_stack_roundtrip [of "[72, 105]" "\<lambda>_. 0" 1 "Some True" "Some True"] by (simp add: wsFrameEncode_frame)

theorem masked_copy_reference_witness: "masked_copy DEFAULT_MASK [1, 2, 3, 4, 5] = [54, 248, 34, 57, 50]"
  using masked_copy_reference [of DEFAULT_MASK "[1, 2, 3, 4, 5]"] by (simp add: DEFAULT_MASK_def)

text \<open>
  The pooled decoder agrees on both transports when its buffer holds the frame; when it does not, one
  transport throws and the other reports a malformed frame.
\<close>

lemma u32_le_bytes:
  "u32_le n = [of_nat (n mod 256), of_nat (n div 256 mod 256), of_nat (n div 65536 mod 256), of_nat (n div 16777216 mod 256)]"
proof -
  have four: "le_bytes 4 n = le_bytes (Suc (Suc (Suc (Suc 0)))) n" by (simp only: numeral_eq_Suc pred_numeral_simps BitM.simps One_nat_def)
  have b: "of_nat (m mod 256) = (of_nat m :: byte)" for m by (simp add: word_unat_eq_iff unat_of_nat_byte)
  have d: "n div 65536 = n div 256 div 256" "n div 16777216 = n div 256 div 256 div 256"
    by (simp_all add: div_mult2_eq [symmetric])
  show ?thesis unfolding four le_bytes.simps b d ..
qed

theorem ws_decode_into_transports:
  assumes "decode_frame data = Some f"
  shows "if 6 + length (fr_payload f) \<le> length dest
    then (\<exists>n out. wsFrameDecodePackedInto castrum_ws_frame_decode_packed data dest = (Some n, out)
            \<and> napi_wsFrameDecodePackedInto decode_frame data dest = (Inr (Some n), out))
    else wsFrameDecodePackedInto castrum_ws_frame_decode_packed data dest = (None, dest)
      \<and> (\<exists>e. napi_wsFrameDecodePackedInto decode_frame data dest = (Inl e, dest))"
  using assms
  by (simp add: wsFrameDecodePackedInto_def castrum_ws_frame_decode_packed_def napi_wsFrameDecodePackedInto_def packed_frame_def
      u32_le_bytes [of "length (fr_payload f)"] Let_def)

end
