(* ===== verification/Spec2Isabelle.thy ===== *)
theory Spec2Isabelle
  imports WireObject StreamResponse LoaderValues TaskRuntime Observability IngressDecode
    IngressMetrics RouteService NodeServer NativeInstances HttpVerdicts RustClient
    NativeBinding Pipeline WsFrames
begin

text \<open>
  \<^bold>\<open>castrum: a verification of the TypeScript layer\<close>

  castrum puts a Rust core behind a TypeScript API. The TypeScript side packs arguments into
  byte buffers, calls the core over one of two transports (\<open>bun:ffi\<close> or napi), and decodes the packed
  results; around this it keeps pooled buffers, a batching loader, a task runtime, a metrics registry
  and an HTTP ingress pipeline. The core itself is a parameter wherever it is called: the definitions
  take it as a function argument, and the properties state what they need of it as named hypotheses.

  \<^bold>\<open>Theories and the files they translate\<close> (all below \<open>src/src/\<close>)

  \<^item> \<open>Prelude\<close>: byte buffers, bounded reads and writes, errors as values, the insertion-ordered map.
  \<^item> \<open>Codec\<close> (\<open>shared/codec.ts\<close>): UTF-8 encoding and decoding on both runtimes.
  \<^item> \<open>Wire\<close>, \<open>WireObject\<close> (\<open>shared/packed/\<close>): the packed batch, pair and multipart
    formats and the string parsers built on them.
  \<^item> \<open>BufferPool\<close>, \<open>StreamResponse\<close> (\<open>shared/buffer-pool.ts\<close>, \<open>shared/response.ts\<close>): pooled buffers
    with their handles, and the streamed response that owns one.
  \<^item> \<open>LoaderCache\<close>, \<open>Loader\<close>, \<open>LoaderLive\<close>, \<open>LoaderValues\<close> (\<open>loader/\<close>): the cost model, the LRU
    cache, the same-tick coalescer and the microtask queue, as one state machine.
  \<^item> \<open>TaskRuntime\<close> (\<open>task/\<close>): submission, draining and shutdown of native tasks.
  \<^item> \<open>Metrics\<close>, \<open>Observability\<close> (\<open>shared/metrics.ts\<close>, \<open>request-id.ts\<close>, \<open>trace.ts\<close>, \<open>log.ts\<close>, \<open>env.ts\<close>).
  \<^item> \<open>IngressDecode\<close> (\<open>ingress/decode/\<close>, \<open>status.ts\<close>, \<open>errors.ts\<close>): the two decoders of the native
    verdict and the status they lead to.
  \<^item> \<open>IngressPacking\<close> (\<open>ingress/packing/\<close>, \<open>shared.ts\<close>): header selection and the packed request.
  \<^item> \<open>IngressBody\<close> (\<open>ingress/body.ts\<close>): the body reader with its size guard, deadline and abort races.
  \<^item> \<open>RouteWire\<close> (\<open>ingress/packing/route-wire.ts\<close>, \<open>native-route.ts\<close>, \<open>routes/native.ts\<close>): compiled
    native routes, from the descriptor to the HTTP answer.
  \<^item> \<open>IngressHandler\<close>, \<open>HandlerBuffers\<close>, \<open>HandlerBreaker\<close>, \<open>HandlerService\<close> (\<open>ingress/handlers.ts\<close>):
    the request handler over its pool, its transports and its hooks, one request after another.
  \<^item> \<open>BakedResponse\<close> (\<open>ingress/headers/\<close>, \<open>ingress/response/\<close>): header templates, the builders over them and the
    cache of origin headers.
  \<^item> \<open>PathMatcher\<close>, \<open>Router\<close> (\<open>ingress/path-matcher.ts\<close>, \<open>server.ts\<close>, \<open>router.ts\<close>): path patterns, the
    wiring of a route's methods and the dispatch of a request.
  \<^item> \<open>Routes\<close>, \<open>RouteService\<close> (\<open>ingress/routes/\<close>, \<open>abort.ts\<close>): the read, head, options, write, echo,
    fallback and responder routes over the handler and the builders, and the service made of them.
  \<^item> \<open>FastHeaders\<close>, \<open>FastIngress\<close> (\<open>ingress/headers/\<close>, \<open>response/terminal.ts\<close>, \<open>options.ts\<close>, \<open>fast.ts\<close>, \<open>sync.ts\<close>,
    \<open>context.ts\<close>): the fast path, its headers, and the asynchronous ingress on top of it.
  \<^item> \<open>ServerGuard\<close>, \<open>NodeServer\<close> (\<open>ingress/server-error.ts\<close>, \<open>health.ts\<close>, \<open>server.ts\<close>, \<open>server-node.ts\<close>): fault containment,
    probes, shutdown, and the node adapter from the socket's request to the bytes of the answer.
  \<^item> \<open>IngressMetrics\<close> (\<open>ingress/metrics.ts\<close>): the hooks that feed the metrics registry.
  \<^item> \<open>Pipeline\<close> (\<open>integration/pipeline.ts\<close>): the ingress as a stage in front of an application.
  \<^item> \<open>NativeCall\<close>, \<open>NativeCompress\<close>, \<open>NativeCodecs\<close>, \<open>NativeParse\<close>, \<open>NativeInstances\<close>
    (\<open>native/ffi/build/\<close>): the wrappers around the native exports, with their buffer sizes, shared
    scratch and error conventions; \<open>NativeCompress\<close> also models the compression cores of
    \<open>src/rust/payload/compress.rs\<close>, and the others a few exports of \<open>src/rust/ffi/\<close> whose answers have
    a fixed form.
  \<^item> \<open>WsFrames\<close> (\<open>src/rust/payload/ws_frames.rs\<close>, \<open>rust-ffi/scalar/payload.ts\<close>): WebSocket frames from the
    codec to the scalar methods.
  \<^item> \<open>JsonPacked\<close>, \<open>HttpVerdicts\<close> (\<open>rust-ffi/scalar/json-packed.ts\<close>, \<open>http.ts\<close>): the decoder of the packed
    JSON tokens and the readers of the packed header verdicts.
  \<^item> \<open>RustClient\<close> (\<open>rust-ffi/context.ts\<close>, \<open>options.ts\<close>, \<open>client.ts\<close>, \<open>text.ts\<close>, \<open>batch/build.ts\<close>,
    \<open>src/rust/http/mime_lookup.rs\<close>): the client's caches, its thread pool and its batches.
  \<^item> \<open>NativeBinding\<close> (\<open>native/loader.ts\<close>, \<open>native/ffi.ts\<close>, \<open>runtime/transport.ts\<close>): where the library is looked
    for, which file is bound, and which transport answers an operation.

  \<^bold>\<open>How state and effects are represented\<close>

  Closures and classes become records passed through and returned; a shared registry of objects that
  the code aliases (pool handles, pending promises, watchdog entries, metric series) is a list or map
  of records addressed by index. A \<open>throw\<close> is the left value of a sum. Asynchronous code is an
  explicit sequence of events or an inductive step relation, so orderings are quantified over in the
  properties. Byte values are \<open>8 word\<close>, UTF-16 code units \<open>16 word\<close>, typed-array writes reduce modulo
  the width of the element, and lengths are \<open>nat\<close>.

  \<^bold>\<open>What the lemmas show\<close>

  The wire theories prove round trips and that every read stays inside the buffer; the pool and
  response theories that no buffer has two owners and each handle is given back once; the loader and
  task theories that every caller is answered exactly once with its own result; the metrics theory its
  bounds and the monotone histogram; the ingress theories that the fast and the reference encodings
  agree, that decoded sections lie within the written bytes, that no body above the limit is returned
  on any path, and that the answer of a native route is the one its verdict calls for. The handler
  theories put these together: over any sequence of requests every pooled buffer is either free or owned
  by exactly one response, the fallback transport gives the result of the fast one, the breaker trips
  after three failures in a row, and the in-flight gauge counts the open requests; the pipeline stage passes a
  request on only when it was accepted. The native theories show that a grown call terminates with the
  answer of the native side or an error, that compressed data and WebSocket frames come back, that the shared scratch never
  leaks one call into another, that no text argument is cut at a NUL where the wrapper guards it, and
  that a packed JSON value decodes to that value. The client theories show that the cached lookups equal
  the native ones on ASCII extensions, and that the first working library is bound. Several
  properties record where the code departs from its comments or its intent: keys named \<open>__proto__\<close>, empty
  plaintexts, a cache poisoned by a byte order mark, a bind whose retries grow factorially.

  \<^bold>\<open>Bounds and fuel\<close>

  Loops over data are structural recursions. Loops that wait for events consume a list of events, and
  return \<open>None\<close> only when the list ends before the loop does; the liveness properties state which lists
  are long enough. Buffer growth loops are bounded by the requested size and the walk over candidate
  libraries by the files not yet tried, which their termination proofs show. No fuel is used.

  \<^bold>\<open>Not modelled\<close>

  The Rust core apart from the exports named above, the declarations of its symbols and their self
  tests, the scalar methods that only forward to a builtin, the \<open>bun:ffi\<close> surface or the addon, the factories
  of native instances, the servers that listen on sockets, the baked selection data, benchmarks and
  their baselines, release scripts and type declarations: they are foreign code, input/output, data or
  forwards with nothing to prove. Number formatting, the random source, the file system and the
  dynamic linker are parameters.
\<close>

end
